(* ===== verification/Msgio.thy ===== *)
theory Msgio
  imports Prelude
begin

text \<open>
  Length-framed messages: \<^verbatim>\<open>src/core/box/msgio\<close> (\<^verbatim>\<open>num.go\<close>, \<^verbatim>\<open>msgio.go\<close>, \<^verbatim>\<open>varint.go\<close>,
  \<^verbatim>\<open>limit.go\<close>).  An \<^verbatim>\<open>io.Reader\<close> is the list of bytes it still delivers and the error it
  returns once they are used up; an \<^verbatim>\<open>io.Writer\<close> is the bytes written so far and the room
  left before it fails.  Buffers come from a pool whose contents are arbitrary, so the theorems
  about written bytes also say that no stale pool content reaches the wire.
  \<^verbatim>\<open>varint.ReadUvarint\<close> belongs to a third-party package and is the parameter \<open>ruv\<close> of the
  varint reader; its contract is the locale \<open>uvarint_codec\<close>.
\<close>

unbundle bit_operations_syntax

section \<open>The io package\<close>

datatype io_error =
    EOF
  | ErrUnexpectedEOF
  | ErrShortBuffer
  | ErrMsgTooLarge
  | ErrOther string
  | GoPanic string

datatype closer = NotCloser | Closer "io_error option"

record source =
  src_data :: bytes
  src_end :: io_error
  src_closer :: closer

record sink =
  snk_out :: bytes
  snk_room :: "nat option"
  snk_err :: io_error
  snk_closer :: closer

text \<open>
  \<^verbatim>\<open>io.ReadFull(r, buf)\<close> with \<^verbatim>\<open>len(buf) = n\<close>: the bytes delivered, the error, the reader
  afterwards.  A short read that already delivered something turns \<^verbatim>\<open>EOF\<close> into
  \<^verbatim>\<open>ErrUnexpectedEOF\<close>.
\<close>

definition read_full :: "nat \<Rightarrow> source \<Rightarrow> bytes \<times> io_error option \<times> source" where
  "read_full n r =
     (let got = take n (src_data r); r' = r\<lparr>src_data := drop n (src_data r)\<rparr> in
      if length got = n then (got, None, r')
      else if got \<noteq> [] \<and> src_end r = EOF then (got, Some ErrUnexpectedEOF, r')
      else (got, Some (src_end r), r'))"

text \<open>\<^verbatim>\<open>w.Write(p)\<close>: what fits is written; anything less than all of it comes with an error.\<close>

definition sink_write :: "bytes \<Rightarrow> sink \<Rightarrow> nat \<times> io_error option \<times> sink" where
  "sink_write p w =
     (case snk_room w of
        None \<Rightarrow> (length p, None, w\<lparr>snk_out := snk_out w @ p\<rparr>)
      | Some k \<Rightarrow>
          if length p \<le> k
          then (length p, None, w\<lparr>snk_out := snk_out w @ p, snk_room := Some (k - length p)\<rparr>)
          else (k, Some (snk_err w), w\<lparr>snk_out := snk_out w @ take k p, snk_room := Some 0\<rparr>))"

section \<open>num.go: big-endian lengths\<close>

definition put_uint32 :: "u32 \<Rightarrow> bytes" where
  "put_uint32 w = [ucast (drop_bit 24 w), ucast (drop_bit 16 w), ucast (drop_bit 8 w), ucast w]"

definition get_uint32 :: "bytes \<Rightarrow> u32" where
  "get_uint32 b =
     (push_bit 24 (ucast (b ! 0)) OR push_bit 16 (ucast (b ! 1))
      OR push_bit 8 (ucast (b ! 2)) OR ucast (b ! 3))"

definition WriteLen :: "sink \<Rightarrow> int \<Rightarrow> io_error option \<times> sink" where
  "WriteLen w l = (case sink_write (put_uint32 (word_of_int l)) w of (n, e, w') \<Rightarrow> (e, w'))"

definition ReadLen :: "source \<Rightarrow> (io_error + int) \<times> source" where
  "ReadLen r =
     (case read_full 4 r of
        (got, Some e, r') \<Rightarrow> (Inl e, r')
      | (got, None, r') \<Rightarrow> (Inr (uint (get_uint32 got)), r'))"

section \<open>msgio.go: fixed-size length prefix\<close>

definition lengthSize :: nat where "lengthSize = 4"

definition defaultMaxSize :: int where "defaultMaxSize = 8 * 1024 * 1024"

type_synonym buffer_pool = "nat \<Rightarrow> bytes"

record writer =
  wr_W :: sink
  wr_pool :: buffer_pool

definition NewWriterWithPool :: "sink \<Rightarrow> buffer_pool \<Rightarrow> writer" where
  "NewWriterWithPool w p = \<lparr>wr_W = w, wr_pool = p\<rparr>"

definition WriteMsg :: "writer \<Rightarrow> bytes \<Rightarrow> io_error option \<times> writer" where
  "WriteMsg s msg =
     (let buf = wr_pool s (length msg + lengthSize);
          buf = copy_at 0 (put_uint32 (word_of_nat (length msg))) buf;
          buf = copy_at lengthSize msg buf
      in case sink_write buf (wr_W s) of (n, e, w') \<Rightarrow> (e, s\<lparr>wr_W := w'\<rparr>))"

definition Write :: "writer \<Rightarrow> bytes \<Rightarrow> (nat \<times> io_error option) \<times> writer" where
  "Write s msg =
     (case WriteMsg s msg of
        (Some e, s') \<Rightarrow> ((0, Some e), s')
      | (None, s') \<Rightarrow> ((length msg, None), s'))"

definition writer_Close :: "writer \<Rightarrow> io_error option" where
  "writer_Close s = (case snk_closer (wr_W s) of Closer r \<Rightarrow> r | NotCloser \<Rightarrow> None)"

record reader =
  rd_R :: source
  rd_next :: int
  rd_pool :: buffer_pool
  rd_max :: int

definition NewReaderSizeWithPool :: "source \<Rightarrow> int \<Rightarrow> buffer_pool option \<Rightarrow> io_error + reader" where
  "NewReaderSizeWithPool r maxMessageSize p =
     (case p of
        None \<Rightarrow> Inl (GoPanic ''nil pool'')
      | Some pl \<Rightarrow> Inr \<lparr>rd_R = r, rd_next = -1, rd_pool = pl, rd_max = maxMessageSize\<rparr>)"

definition NewReaderWithPool :: "source \<Rightarrow> buffer_pool option \<Rightarrow> io_error + reader" where
  "NewReaderWithPool r p = NewReaderSizeWithPool r defaultMaxSize p"

definition nextMsgLen :: "reader \<Rightarrow> (io_error + int) \<times> reader" where
  "nextMsgLen s =
     (if rd_next s = -1 then
        (case ReadLen (rd_R s) of
           (Inl e, r') \<Rightarrow> (Inl e, s\<lparr>rd_R := r'\<rparr>)
         | (Inr n, r') \<Rightarrow> (Inr n, s\<lparr>rd_R := r', rd_next := n\<rparr>))
      else (Inr (rd_next s), s))"

text \<open>
  \<^verbatim>\<open>Read\<close> fills the caller's buffer; the result is the buffer afterwards, the count and the
  error.
\<close>

definition Read :: "reader \<Rightarrow> bytes \<Rightarrow> (bytes \<times> int \<times> io_error option) \<times> reader" where
  "Read s msg =
     (case nextMsgLen s of
        (Inl e, s1) \<Rightarrow> ((msg, 0, Some e), s1)
      | (Inr len, s1) \<Rightarrow>
          if len > int (length msg) then ((msg, 0, Some ErrShortBuffer), s1)
          else if len < 0 then ((msg, 0, Some (GoPanic ''slice bounds out of range'')), s1)
          else (case read_full (nat len) (rd_R s1) of (got, e, r') \<Rightarrow>
            ((copy_at 0 got msg, int (length got), e),
             s1\<lparr>rd_R := r',
                rd_next := (if int (length got) < len then len - int (length got) else -1)\<rparr>)))"

definition ReadMsg :: "reader \<Rightarrow> (bytes \<times> io_error option) \<times> reader" where
  "ReadMsg s =
     (case nextMsgLen s of
        (Inl e, s1) \<Rightarrow> (([], Some e), s1)
      | (Inr len, s1) \<Rightarrow>
          if len = 0 then (([], None), s1\<lparr>rd_next := -1\<rparr>)
          else if len > rd_max s1 \<or> len < 0 then (([], Some ErrMsgTooLarge), s1)
          else (case read_full (nat len) (rd_R s1) of (got, e, r') \<Rightarrow>
            (let msg = copy_at 0 got (rd_pool s1 (nat len)) in
             ((take (length got) msg, e),
              s1\<lparr>rd_R := r',
                 rd_next := (if int (length got) < len then len - int (length got) else -1)\<rparr>))))"

definition reader_Close :: "reader \<Rightarrow> io_error option" where
  "reader_Close s = (case src_closer (rd_R s) of Closer r \<Rightarrow> r | NotCloser \<Rightarrow> None)"

text \<open>
  \<^verbatim>\<open>readWriter.Close\<close> closes the writer first, then the reader, and reports every error.
\<close>

definition readWriter_Close :: "closer \<Rightarrow> closer \<Rightarrow> io_error list option" where
  "readWriter_Close w r =
     (let errs = (case w of Closer (Some e) \<Rightarrow> [e] | _ \<Rightarrow> []) @
                 (case r of Closer (Some e) \<Rightarrow> [e] | _ \<Rightarrow> [])
      in if errs \<noteq> [] then Some errs else None)"

fun error_string :: "io_error \<Rightarrow> string" where
  "error_string EOF = ''EOF''"
| "error_string ErrUnexpectedEOF = ''unexpected EOF''"
| "error_string ErrShortBuffer = ''short buffer''"
| "error_string ErrMsgTooLarge = ''message too large''"
| "error_string (ErrOther s) = s"
| "error_string (GoPanic s) = s"

definition multiErr_Error :: "io_error list \<Rightarrow> string" where
  "multiErr_Error m =
     (if m = [] then ''no errors''
      else ''Multiple errors: '' @ join_with '', '' (map error_string m))"

section \<open>varint.go: varint length prefix\<close>

text \<open>\<^verbatim>\<open>binary.PutUvarint(buf, x)\<close>: the bytes written, seven bits each, low bits first.\<close>

fun put_uvarint :: "nat \<Rightarrow> bytes" where
  "put_uvarint x =
     (if x < 128 then [word_of_nat x] else word_of_nat (128 + x mod 128) # put_uvarint (x div 128))"

declare put_uvarint.simps [simp del]

definition MaxVarintLen64 :: nat where "MaxVarintLen64 = 10"

record varintWriter =
  vw_W :: sink
  vw_pool :: buffer_pool

definition varint_WriteMsg :: "varintWriter \<Rightarrow> bytes \<Rightarrow> io_error option \<times> varintWriter" where
  "varint_WriteMsg s msg =
     (let buf = vw_pool s (length msg + MaxVarintLen64);
          hdr = put_uvarint (length msg);
          buf = copy_at 0 hdr buf;
          n = length hdr + min (length msg) (length buf - length hdr);
          buf = copy_at (length hdr) msg buf
      in case sink_write (take n buf) (vw_W s) of (k, e, w') \<Rightarrow> (e, s\<lparr>vw_W := w'\<rparr>))"

definition varint_Write :: "varintWriter \<Rightarrow> bytes \<Rightarrow> (nat \<times> io_error option) \<times> varintWriter" where
  "varint_Write s msg =
     (case varint_WriteMsg s msg of
        (Some e, s') \<Rightarrow> ((0, Some e), s')
      | (None, s') \<Rightarrow> ((length msg, None), s'))"

record varintReader =
  vr_R :: source
  vr_next :: int
  vr_pool :: buffer_pool
  vr_max :: int

type_synonym uvarint_reader = "source \<Rightarrow> (io_error + u64) \<times> source"

definition NewVarintReaderSizeWithPool ::
    "source \<Rightarrow> int \<Rightarrow> buffer_pool option \<Rightarrow> io_error + varintReader" where
  "NewVarintReaderSizeWithPool r maxMessageSize p =
     (case p of
        None \<Rightarrow> Inl (GoPanic ''nil pool'')
      | Some pl \<Rightarrow> Inr \<lparr>vr_R = r, vr_next = -1, vr_pool = pl, vr_max = maxMessageSize\<rparr>)"

definition varint_nextMsgLen ::
    "uvarint_reader \<Rightarrow> varintReader \<Rightarrow> (io_error + int) \<times> varintReader" where
  "varint_nextMsgLen ruv s =
     (if vr_next s = -1 then
        (case ruv (vr_R s) of
           (Inl e, r') \<Rightarrow> (Inl e, s\<lparr>vr_R := r'\<rparr>)
         | (Inr n, r') \<Rightarrow> (Inr (int_of_u64 n), s\<lparr>vr_R := r', vr_next := int_of_u64 n\<rparr>))
      else (Inr (vr_next s), s))"

definition varint_Read ::
    "uvarint_reader \<Rightarrow> varintReader \<Rightarrow> bytes \<Rightarrow> (bytes \<times> int \<times> io_error option) \<times> varintReader" where
  "varint_Read ruv s msg =
     (case varint_nextMsgLen ruv s of
        (Inl e, s1) \<Rightarrow> ((msg, 0, Some e), s1)
      | (Inr len, s1) \<Rightarrow>
          if len > int (length msg) then ((msg, 0, Some ErrShortBuffer), s1)
          else if len < 0 then ((msg, 0, Some (GoPanic ''slice bounds out of range'')), s1)
          else (case read_full (nat len) (vr_R s1) of (got, e, r') \<Rightarrow>
            ((copy_at 0 got msg, len, e), s1\<lparr>vr_R := r', vr_next := -1\<rparr>)))"

definition varint_ReadMsg ::
    "uvarint_reader \<Rightarrow> varintReader \<Rightarrow> (bytes \<times> io_error option) \<times> varintReader" where
  "varint_ReadMsg ruv s =
     (case varint_nextMsgLen ruv s of
        (Inl e, s1) \<Rightarrow> (([], Some e), s1)
      | (Inr len, s1) \<Rightarrow>
          if len = 0 then (([], None), s1\<lparr>vr_next := -1\<rparr>)
          else if len > vr_max s1 then (([], Some ErrMsgTooLarge), s1)
          else if len < 0 then (([], Some (GoPanic ''makeslice: len out of range'')), s1)
          else (case read_full (nat len) (vr_R s1) of (got, e, r') \<Rightarrow>
            ((copy_at 0 got (vr_pool s1 (nat len)), e), s1\<lparr>vr_R := r', vr_next := -1\<rparr>)))"

definition simpleByteReader_ReadByte :: "source \<Rightarrow> (io_error + byte) \<times> source" where
  "simpleByteReader_ReadByte r =
     (case read_full 1 r of
        (got, Some e, r') \<Rightarrow> (Inl e, r')
      | (got, None, r') \<Rightarrow> (Inr (got ! 0), r'))"

section \<open>limit.go\<close>

record limited = lim_R :: source lim_N :: int

definition LimitedReader :: "source \<Rightarrow> limited \<times> io_error option" where
  "LimitedReader r =
     (case ReadLen r of
        (Inl e, r') \<Rightarrow> (\<lparr>lim_R = r', lim_N = 0\<rparr>, Some e)
      | (Inr l, r') \<Rightarrow> (\<lparr>lim_R = r', lim_N = l\<rparr>, None))"

text \<open>Everything an \<^verbatim>\<open>io.LimitedReader\<close> delivers before \<^verbatim>\<open>EOF\<close>.\<close>

definition limited_rest :: "limited \<Rightarrow> bytes" where
  "limited_rest l = take (nat (lim_N l)) (src_data (lim_R l))"

record LimitedWriter = lw_W :: sink lw_B :: bytes

definition NewLimitedWriter :: "sink \<Rightarrow> LimitedWriter" where
  "NewLimitedWriter w = \<lparr>lw_W = w, lw_B = []\<rparr>"

definition LimitedWriter_Write :: "LimitedWriter \<Rightarrow> bytes \<Rightarrow> (nat \<times> io_error option) \<times> LimitedWriter" where
  "LimitedWriter_Write w buf = ((length buf, None), w\<lparr>lw_B := lw_B w @ buf\<rparr>)"

definition Flush :: "LimitedWriter \<Rightarrow> io_error option \<times> LimitedWriter" where
  "Flush w =
     (case WriteLen (lw_W w) (int (length (lw_B w))) of
        (Some e, w') \<Rightarrow> (Some e, w\<lparr>lw_W := w'\<rparr>)
      | (None, w') \<Rightarrow>
          if lw_B w = [] then (None, w\<lparr>lw_W := w', lw_B := []\<rparr>)
          else (case sink_write (lw_B w) w' of
                  (m, Some e, w'') \<Rightarrow> (Some e, w\<lparr>lw_W := w'', lw_B := drop m (lw_B w)\<rparr>)
                | (m, None, w'') \<Rightarrow> (None, w\<lparr>lw_W := w'', lw_B := []\<rparr>)))"

section \<open>Lemmas on the primitives\<close>

lemma length_put_uint32 [simp]: "length (put_uint32 w) = 4"
  by (simp add: put_uint32_def)

lemma get_put_uint32 [simp]: "get_uint32 (put_uint32 w) = w"
proof -
  have nth: "put_uint32 w ! 0 = ucast (drop_bit 24 w)" "put_uint32 w ! 1 = ucast (drop_bit 16 w)"
    "put_uint32 w ! 2 = ucast (drop_bit 8 w)" "put_uint32 w ! 3 = ucast w"
    by (simp_all add: put_uint32_def)
  show ?thesis
    unfolding get_uint32_def nth
  proof (rule bit_word_eqI, goal_cases)
    case (1 n)
    then consider "n < 8" | "8 \<le> n" "n < 16" | "16 \<le> n" "n < 24" | "24 \<le> n" "n < 32"
      by fastforce
    then show ?case
      by cases (simp_all only: bit_or_iff bit_push_bit_iff bit_ucast_iff bit_drop_bit_eq o_def
          possible_bit_word, auto)
  qed
qed

lemma read_full_exact:
  "src_data r = p @ rest \<Longrightarrow> read_full (length p) r = (p, None, r\<lparr>src_data := rest\<rparr>)"
  by (simp add: read_full_def)

lemma read_full_length: "read_full n r = (got, e, r') \<Longrightarrow> length got \<le> n"
  by (auto simp: read_full_def Let_def split: if_splits)

lemma read_full_data:
  "read_full n r = (got, e, r') \<Longrightarrow> got = take n (src_data r) \<and> src_data r' = drop n (src_data r)"
  by (auto simp: read_full_def Let_def split: if_splits)

lemma read_full_none_iff:
  "read_full n r = (got, e, r') \<Longrightarrow> e = None \<longleftrightarrow> length got = n"
  by (auto simp: read_full_def Let_def split: if_splits)

lemma ReadLen_put:
  assumes "src_data r = put_uint32 w @ rest"
  shows "ReadLen r = (Inr (uint w), r\<lparr>src_data := rest\<rparr>)"
  using read_full_exact[OF assms] by (simp add: ReadLen_def)

lemma uint_word_of_nat32: "n < 2 ^ 32 \<Longrightarrow> uint (word_of_nat n :: u32) = int n"
  by (simp add: unsigned_of_nat take_bit_eq_mod of_nat_mod)

lemma sink_write_unlimited:
  "snk_room w = None \<Longrightarrow> sink_write p w = (length p, None, w\<lparr>snk_out := snk_out w @ p\<rparr>)"
  by (simp add: sink_write_def)

text \<open>A failing or succeeding write only ever appends a prefix of the data.\<close>

lemma sink_write_prefix:
  "sink_write p w = (n, e, w') \<Longrightarrow>
     n \<le> length p \<and> snk_out w' = snk_out w @ take n p \<and> (e = None \<longrightarrow> n = length p)"
  by (auto simp: sink_write_def split: option.splits if_splits)

section \<open>Frames\<close>

definition frame :: "bytes \<Rightarrow> bytes" where
  "frame m = put_uint32 (word_of_nat (length m)) @ m"

definition varint_frame :: "bytes \<Rightarrow> bytes" where
  "varint_frame m = put_uvarint (length m) @ m"

text \<open>The buffer handed out by the pool has the requested length; its content is arbitrary.\<close>

definition pool_ok :: "buffer_pool \<Rightarrow> bool" where
  "pool_ok p \<longleftrightarrow> (\<forall>n. length (p n) = n)"

lemma WriteMsg_frame:
  assumes "pool_ok (wr_pool s)"
  shows "WriteMsg s m =
    (case sink_write (frame m) (wr_W s) of (n, e, w') \<Rightarrow> (e, s\<lparr>wr_W := w'\<rparr>))"
proof -
  let ?hdr = "put_uint32 (word_of_nat (length m))"
  let ?b = "wr_pool s (length m + lengthSize)"
  have "length ?b = length m + 4"
    using assms by (simp add: pool_ok_def lengthSize_def)
  then have "copy_at lengthSize m (copy_at 0 ?hdr ?b) = frame m"
    by (simp add: copy_at_def frame_def lengthSize_def)
  then show ?thesis by (simp add: WriteMsg_def)
qed

lemma length_put_uvarint: "x < 128 ^ Suc k \<Longrightarrow> length (put_uvarint x) \<le> Suc k"
proof (induction k arbitrary: x)
  case 0
  then show ?case by (simp add: put_uvarint.simps)
next
  case (Suc k)
  then have "x div 128 < 128 ^ Suc k" by (simp add: less_mult_imp_div_less mult.commute)
  then have "length (put_uvarint (x div 128)) \<le> Suc k" by (rule Suc.IH)
  then show ?case by (subst put_uvarint.simps) simp
qed

lemma put_uvarint_ne [simp]: "put_uvarint x \<noteq> []"
  by (subst put_uvarint.simps) simp

lemma length_put_uvarint_u64: "x < 2 ^ 64 \<Longrightarrow> length (put_uvarint x) \<le> MaxVarintLen64"
  using length_put_uvarint[of x 9] by (simp add: MaxVarintLen64_def)

lemma varint_WriteMsg_frame:
  assumes "pool_ok (vw_pool s)" and "length m < 2 ^ 64"
  shows "varint_WriteMsg s m =
    (case sink_write (varint_frame m) (vw_W s) of (n, e, w') \<Rightarrow> (e, s\<lparr>vw_W := w'\<rparr>))"
proof -
  let ?hdr = "put_uvarint (length m)"
  let ?b = "vw_pool s (length m + MaxVarintLen64)"
  have b: "length ?b = length m + MaxVarintLen64"
    using assms by (simp add: pool_ok_def)
  have h: "length ?hdr \<le> MaxVarintLen64"
    using assms(2) by (rule length_put_uvarint_u64)
  have n: "min (length m) (length ?b - length ?hdr) = length m"
    using b h by simp
  have "take (length ?hdr + length m) (copy_at (length ?hdr) m (copy_at 0 ?hdr ?b)) = varint_frame m"
    using b h by (simp add: copy_at_def varint_frame_def)
  then show ?thesis
    using n b h by (simp add: varint_WriteMsg_def Let_def)
qed

section \<open>The framing contract\<close>

text \<open>
  What a client of either framing relies on: a writer appends exactly the frame of the message,
  and a reader positioned at a frame returns that message and stops at the next one.  The whole
  stream property follows once and is used for both framings.
\<close>

fun write_msgs :: "('w \<Rightarrow> bytes \<Rightarrow> io_error option \<times> 'w) \<Rightarrow> bytes list \<Rightarrow> 'w \<Rightarrow> io_error option \<times> 'w" where
  "write_msgs wr [] w = (None, w)"
| "write_msgs wr (m # ms) w =
     (case wr w m of (Some e, w') \<Rightarrow> (Some e, w') | (None, w') \<Rightarrow> write_msgs wr ms w')"

fun read_msgs :: "('r \<Rightarrow> (bytes \<times> io_error option) \<times> 'r) \<Rightarrow> nat \<Rightarrow> 'r \<Rightarrow> (io_error + bytes list) \<times> 'r" where
  "read_msgs rd 0 r = (Inr [], r)"
| "read_msgs rd (Suc n) r =
     (case rd r of
        ((m, Some e), r') \<Rightarrow> (Inl e, r')
      | ((m, None), r') \<Rightarrow>
          (case read_msgs rd n r' of
             (Inl e, r'') \<Rightarrow> (Inl e, r'')
           | (Inr ms, r'') \<Rightarrow> (Inr (m # ms), r'')))"

locale msg_channel =
  fixes frm :: "bytes \<Rightarrow> bytes"
    and fits :: "nat \<Rightarrow> bool"
    and wrote :: "'w \<Rightarrow> bytes \<Rightarrow> bool"
    and wr :: "'w \<Rightarrow> bytes \<Rightarrow> io_error option \<times> 'w"
    and ready :: "'r \<Rightarrow> bytes \<Rightarrow> bool"
    and rd :: "'r \<Rightarrow> (bytes \<times> io_error option) \<times> 'r"
  assumes wr_frame: "wrote w bs \<Longrightarrow> fits (length m) \<Longrightarrow> \<exists>w'. wr w m = (None, w') \<and> wrote w' (bs @ frm m)"
    and rd_frame: "ready r (frm m @ rest) \<Longrightarrow> fits (length m) \<Longrightarrow> \<exists>r'. rd r = ((m, None), r') \<and> ready r' rest"
begin

lemma write_all:
  "wrote w bs \<Longrightarrow> \<forall>m \<in> set ms. fits (length m) \<Longrightarrow>
     \<exists>w'. write_msgs wr ms w = (None, w') \<and> wrote w' (bs @ concat (map frm ms))"
proof (induction ms arbitrary: w bs)
  case Nil
  then show ?case by simp
next
  case (Cons m ms)
  then obtain w1 where w1: "wr w m = (None, w1)" "wrote w1 (bs @ frm m)"
    using wr_frame by (metis list.set_intros(1))
  with Cons.IH[OF w1(2)] Cons.prems(2) show ?case by auto
qed

lemma read_all:
  "ready r (concat (map frm ms) @ rest) \<Longrightarrow> \<forall>m \<in> set ms. fits (length m) \<Longrightarrow>
     \<exists>r'. read_msgs rd (length ms) r = (Inr ms, r') \<and> ready r' rest"
proof (induction ms arbitrary: r)
  case Nil
  then show ?case by simp
next
  case (Cons m ms)
  then obtain r1 where r1: "rd r = ((m, None), r1)" "ready r1 (concat (map frm ms) @ rest)"
    using rd_frame[of r m "concat (map frm ms) @ rest"] by auto
  with Cons.IH[OF r1(2)] Cons.prems(2) show ?case by auto
qed

end

definition fits32 :: "int \<Rightarrow> nat \<Rightarrow> bool" where
  "fits32 mx n \<longleftrightarrow> n < 2 ^ 32 \<and> int n \<le> mx"

definition wrote :: "writer \<Rightarrow> bytes \<Rightarrow> bool" where
  "wrote w bs \<longleftrightarrow> pool_ok (wr_pool w) \<and> snk_room (wr_W w) = None \<and> snk_out (wr_W w) = bs"

definition ready :: "int \<Rightarrow> reader \<Rightarrow> bytes \<Rightarrow> bool" where
  "ready mx r bs \<longleftrightarrow> rd_next r = -1 \<and> rd_max r = mx \<and> pool_ok (rd_pool r) \<and> src_data (rd_R r) = bs"

lemma nextMsgLen_frame:
  assumes "rd_next s = -1" and "src_data (rd_R s) = frame m @ rest" and "length m < 2 ^ 32"
  shows "nextMsgLen s =
    (Inr (int (length m)), s\<lparr>rd_R := (rd_R s)\<lparr>src_data := m @ rest\<rparr>, rd_next := int (length m)\<rparr>)"
  using assms ReadLen_put[of "rd_R s" "word_of_nat (length m)" "m @ rest"]
  by (simp add: nextMsgLen_def frame_def uint_word_of_nat32)

lemma ReadMsg_frame:
  assumes "ready mx r (frame m @ rest)" and "fits32 mx (length m)"
  shows "\<exists>r'. ReadMsg r = ((m, None), r') \<and> ready mx r' rest"
proof -
  note nl = nextMsgLen_frame[of r m rest]
  let ?r1 = "r\<lparr>rd_R := (rd_R r)\<lparr>src_data := m @ rest\<rparr>, rd_next := int (length m)\<rparr>"
  have len: "length (rd_pool r (length m)) = length m"
    using assms by (simp add: ready_def pool_ok_def)
  have rf: "read_full (length m) (rd_R ?r1) = (m, None, (rd_R ?r1)\<lparr>src_data := rest\<rparr>)"
    by (rule read_full_exact) simp
  show ?thesis
    using assms nl rf len
    by (cases "m = []") (auto simp: ReadMsg_def ready_def fits32_def Let_def copy_at_def)
qed

interpretation fixed32: msg_channel frame "fits32 mx" wrote WriteMsg "ready mx" ReadMsg for mx
proof
  fix w :: writer and bs m :: bytes
  assume "wrote w bs"
  then show "\<exists>w'. WriteMsg w m = (None, w') \<and> wrote w' (bs @ frame m)"
    by (simp add: wrote_def WriteMsg_frame sink_write_unlimited)
qed (rule ReadMsg_frame)

section \<open>The varint contract\<close>

locale uvarint_codec =
  fixes ruv :: uvarint_reader
  assumes ruv_put: "n < 2 ^ 63 \<Longrightarrow> src_data s = put_uvarint n @ rest \<Longrightarrow>
    ruv s = (Inr (word_of_nat n), s\<lparr>src_data := rest\<rparr>)"

definition vfits :: "int \<Rightarrow> nat \<Rightarrow> bool" where
  "vfits mx n \<longleftrightarrow> n < 2 ^ 63 \<and> int n \<le> mx"

definition vwrote :: "varintWriter \<Rightarrow> bytes \<Rightarrow> bool" where
  "vwrote w bs \<longleftrightarrow> pool_ok (vw_pool w) \<and> snk_room (vw_W w) = None \<and> snk_out (vw_W w) = bs"

definition vready :: "int \<Rightarrow> varintReader \<Rightarrow> bytes \<Rightarrow> bool" where
  "vready mx r bs \<longleftrightarrow> vr_next r = -1 \<and> vr_max r = mx \<and> pool_ok (vr_pool r) \<and> src_data (vr_R r) = bs"

lemma int_of_u64_small: "n < 2 ^ 63 \<Longrightarrow> int_of_u64 (word_of_nat n) = int n"
  by (simp add: int_of_u64_def signed_of_nat signed_take_bit_int_eq_self)

context uvarint_codec
begin

lemma varint_nextMsgLen_frame:
  assumes "vr_next s = -1" and "src_data (vr_R s) = varint_frame m @ rest" and "length m < 2 ^ 63"
  shows "varint_nextMsgLen ruv s =
    (Inr (int (length m)), s\<lparr>vr_R := (vr_R s)\<lparr>src_data := m @ rest\<rparr>, vr_next := int (length m)\<rparr>)"
  using assms ruv_put[of "length m" "vr_R s" "m @ rest"]
  by (simp add: varint_nextMsgLen_def varint_frame_def int_of_u64_small)

lemma varint_ReadMsg_frame:
  assumes "vready mx r (varint_frame m @ rest)" and "vfits mx (length m)"
  shows "\<exists>r'. varint_ReadMsg ruv r = ((m, None), r') \<and> vready mx r' rest"
proof -
  note nl = varint_nextMsgLen_frame[of r m rest]
  let ?r1 = "r\<lparr>vr_R := (vr_R r)\<lparr>src_data := m @ rest\<rparr>, vr_next := int (length m)\<rparr>"
  have len: "length (vr_pool r (length m)) = length m"
    using assms by (simp add: vready_def pool_ok_def)
  have rf: "read_full (length m) (vr_R ?r1) = (m, None, (vr_R ?r1)\<lparr>src_data := rest\<rparr>)"
    by (rule read_full_exact) simp
  show ?thesis
    using assms nl rf len
    by (cases "m = []") (auto simp: varint_ReadMsg_def vready_def vfits_def Let_def copy_at_def)
qed

end

sublocale uvarint_codec \<subseteq> chan: msg_channel varint_frame "vfits mx" vwrote varint_WriteMsg
  "vready mx" "varint_ReadMsg ruv" for mx
proof
  fix w :: varintWriter and bs m :: bytes
  assume "vwrote w bs" and "vfits mx (length m)"
  then show "\<exists>w'. varint_WriteMsg w m = (None, w') \<and> vwrote w' (bs @ varint_frame m)"
    using varint_WriteMsg_frame[of w m]
    by (simp add: vwrote_def vfits_def sink_write_unlimited)
qed (rule varint_ReadMsg_frame)

context uvarint_codec
begin

lemmas varint_write_all = chan.write_all
lemmas varint_read_all = chan.read_all

end

text \<open>
  The contract holds of \<^verbatim>\<open>encoding/binary.ReadUvarint\<close>, the reader the source's comments name.
\<close>

fun binary_ReadUvarint_from :: "nat \<Rightarrow> nat \<Rightarrow> nat \<Rightarrow> uvarint_reader" where
  "binary_ReadUvarint_from 0 i x r = (Inl (ErrOther ''binary: varint overflows a 64-bit integer''), r)"
| "binary_ReadUvarint_from (Suc k) i x r =
     (case simpleByteReader_ReadByte r of
        (Inl e, r') \<Rightarrow> (Inl (if 0 < i \<and> e = EOF then ErrUnexpectedEOF else e), r')
      | (Inr b, r') \<Rightarrow>
          if unat b < 128 then
            (if i = 9 \<and> 1 < unat b
             then (Inl (ErrOther ''binary: varint overflows a 64-bit integer''), r')
             else (Inr (word_of_nat (x + unat b * 2 ^ (7 * i))), r'))
          else binary_ReadUvarint_from k (Suc i) (x + (unat b mod 128) * 2 ^ (7 * i)) r')"

definition binary_ReadUvarint :: uvarint_reader where
  "binary_ReadUvarint r = binary_ReadUvarint_from MaxVarintLen64 0 0 r"

lemma ReadByte_Cons:
  "src_data r = b # rest \<Longrightarrow> simpleByteReader_ReadByte r = (Inr b, r\<lparr>src_data := rest\<rparr>)"
  by (simp add: simpleByteReader_ReadByte_def read_full_def)

lemma unat_byte_small: "x < 256 \<Longrightarrow> unat (word_of_nat x :: byte) = x"
  by (simp add: unsigned_of_nat take_bit_eq_mod)

lemma binary_ReadUvarint_from_put:
  assumes "i + k = 10" and "i \<le> 9" and "n < 2 ^ (63 - 7 * i)" and "src_data r = put_uvarint n @ rest"
  shows "binary_ReadUvarint_from k i x r =
    (Inr (word_of_nat (x + n * 2 ^ (7 * i))), r\<lparr>src_data := rest\<rparr>)"
  using assms
proof (induction k arbitrary: i n x r)
  case 0
  then show ?case by simp
next
  case (Suc k)
  show ?case
  proof (cases "n < 128")
    case True
    then have "put_uvarint n = [word_of_nat n]" by (simp add: put_uvarint.simps)
    moreover have "i = 9 \<longrightarrow> n = 0" using Suc.prems by auto
    ultimately show ?thesis
      using Suc.prems(4) True ReadByte_Cons[of r "word_of_nat n" rest]
      by (auto simp: unat_byte_small)
  next
    case False
    define b where "b = (word_of_nat (128 + n mod 128) :: byte)"
    let ?r' = "r\<lparr>src_data := put_uvarint (n div 128) @ rest\<rparr>"
    have put: "put_uvarint n = b # put_uvarint (n div 128)"
      unfolding b_def using False by (subst put_uvarint.simps) simp
    then have rb: "simpleByteReader_ReadByte r = (Inr b, ?r')"
      using Suc.prems(4) ReadByte_Cons by simp
    have b: "unat b = 128 + n mod 128" unfolding b_def by (rule unat_byte_small) simp
    have i: "i < 8"
    proof (rule ccontr)
      assume "\<not> i < 8"
      then have "63 - 7 * i \<le> 7" by simp
      then have "(2::nat) ^ (63 - 7 * i) \<le> 2 ^ 7" by (rule power_increasing) simp
      then show False using False Suc.prems(3) by simp
    qed
    have e: "63 - 7 * i = (63 - 7 * Suc i) + 7" using i by simp
    have "n div 128 < 2 ^ (63 - 7 * Suc i)"
      using Suc.prems(3) unfolding e power_add by (simp add: less_mult_imp_div_less)
    then have "binary_ReadUvarint_from k (Suc i) (x + (n mod 128) * 2 ^ (7 * i)) ?r' =
      (Inr (word_of_nat (x + (n mod 128) * 2 ^ (7 * i) + n div 128 * 2 ^ (7 * Suc i))),
       ?r'\<lparr>src_data := rest\<rparr>)"
      using Suc.prems i by (intro Suc.IH) auto
    moreover have "(n mod 128) * 2 ^ (7 * i) + n div 128 * 2 ^ (7 * Suc i) = n * 2 ^ (7 * i)"
    proof -
      have "n div 128 * 2 ^ (7 * Suc i) = 128 * (n div 128) * 2 ^ (7 * i)"
        by (simp add: power_add)
      then show ?thesis by (metis add_mult_distrib mod_mult_div_eq)
    qed
    ultimately have "binary_ReadUvarint_from k (Suc i) (x + (n mod 128) * 2 ^ (7 * i)) ?r' =
      (Inr (word_of_nat (x + n * 2 ^ (7 * i))), ?r'\<lparr>src_data := rest\<rparr>)"
      by (simp only: add.assoc)
    then show ?thesis by (simp add: rb b)
  qed
qed

interpretation binary: uvarint_codec binary_ReadUvarint
proof
  fix n :: nat and s :: source and rest :: bytes
  assume "n < 2 ^ 63" and "src_data s = put_uvarint n @ rest"
  then show "binary_ReadUvarint s = (Inr (word_of_nat n), s\<lparr>src_data := rest\<rparr>)"
    using binary_ReadUvarint_from_put[of 0 10 n s rest 0]
    by (simp add: binary_ReadUvarint_def MaxVarintLen64_def)
qed

section \<open>Properties\<close>

definition new_sink :: sink where
  "new_sink = \<lparr>snk_out = [], snk_room = None, snk_err = EOF, snk_closer = NotCloser\<rparr>"

definition source_of :: "bytes \<Rightarrow> source" where
  "source_of bs = \<lparr>src_data = bs, src_end = EOF, src_closer = NotCloser\<rparr>"

text \<open>
  C18. Writing any sequence of messages with \<^verbatim>\<open>writer.WriteMsg\<close> and reading the bytes back with
  \<^verbatim>\<open>reader.ReadMsg\<close> returns exactly those messages, in order, and leaves the reader at the end
  of the stream and ready for the next frame, whatever the pools' buffers contained.  Messages
  fit in 32 bits and in the reader's limit.
\<close>

theorem msgio_roundtrip:
  assumes "pool_ok p" and "pool_ok q"
    and "\<forall>m \<in> set ms. length m < 2 ^ 32 \<and> int (length m) \<le> mx"
  shows "\<exists>w' r'. write_msgs WriteMsg ms (NewWriterWithPool new_sink p) = (None, w') \<and>
    read_msgs ReadMsg (length ms)
      \<lparr>rd_R = source_of (snk_out (wr_W w')), rd_next = -1, rd_pool = q, rd_max = mx\<rparr> = (Inr ms, r') \<and>
    src_data (rd_R r') = [] \<and> rd_next r' = -1"
proof -
  have fit: "\<forall>m \<in> set ms. fits32 mx (length m)" using assms(3) by (simp add: fits32_def)
  have "wrote (NewWriterWithPool new_sink p) []"
    using assms(1) by (simp add: wrote_def NewWriterWithPool_def new_sink_def)
  from fixed32.write_all[OF this fit] obtain w' where
    w': "write_msgs WriteMsg ms (NewWriterWithPool new_sink p) = (None, w')"
    "snk_out (wr_W w') = concat (map frame ms)"
    by (auto simp: wrote_def)
  have "ready mx \<lparr>rd_R = source_of (snk_out (wr_W w')), rd_next = -1, rd_pool = q, rd_max = mx\<rparr>
      (concat (map frame ms) @ [])"
    using assms(2) w'(2) by (simp add: ready_def source_of_def)
  from fixed32.read_all[OF this fit] w'(1) show ?thesis by (auto simp: ready_def)
qed

theorem msgio_roundtrip_witness:
  "\<exists>w' r'. write_msgs WriteMsg [[7, 8], [], [9]] (NewWriterWithPool new_sink (\<lambda>n. replicate n 255)) = (None, w') \<and>
    read_msgs ReadMsg (length [[7, 8], [], [9 :: byte]])
      \<lparr>rd_R = source_of (snk_out (wr_W w')), rd_next = -1, rd_pool = (\<lambda>n. replicate n 1), rd_max = 100\<rparr> =
        (Inr [[7, 8], [], [9]], r') \<and> src_data (rd_R r') = [] \<and> rd_next r' = -1"
  by (rule msgio_roundtrip) (simp_all add: pool_ok_def)

text \<open>
  The varint framing has the same stream property: for every \<^verbatim>\<open>ReadUvarint\<close> that reads back
  what \<^verbatim>\<open>PutUvarint\<close> wrote, the messages written with \<^verbatim>\<open>varintWriter\<close> are read back in order.
\<close>

theorem varint_roundtrip:
  assumes "uvarint_codec ruv" and "pool_ok p" and "pool_ok q"
    and "\<forall>m \<in> set ms. length m < 2 ^ 63 \<and> int (length m) \<le> mx"
  shows "\<exists>w' r'. write_msgs varint_WriteMsg ms \<lparr>vw_W = new_sink, vw_pool = p\<rparr> = (None, w') \<and>
    read_msgs (varint_ReadMsg ruv) (length ms)
      \<lparr>vr_R = source_of (snk_out (vw_W w')), vr_next = -1, vr_pool = q, vr_max = mx\<rparr> = (Inr ms, r') \<and>
    src_data (vr_R r') = [] \<and> vr_next r' = -1"
proof -
  have fit: "\<forall>m \<in> set ms. vfits mx (length m)" using assms(4) by (simp add: vfits_def)
  have "vwrote \<lparr>vw_W = new_sink, vw_pool = p\<rparr> []"
    using assms(2) by (simp add: vwrote_def new_sink_def)
  from uvarint_codec.varint_write_all[OF assms(1) this fit] obtain w' where
    w': "write_msgs varint_WriteMsg ms \<lparr>vw_W = new_sink, vw_pool = p\<rparr> = (None, w')"
    "snk_out (vw_W w') = concat (map varint_frame ms)"
    by (auto simp: vwrote_def)
  have "vready mx \<lparr>vr_R = source_of (snk_out (vw_W w')), vr_next = -1, vr_pool = q, vr_max = mx\<rparr>
      (concat (map varint_frame ms) @ [])"
    using assms(3) w'(2) by (simp add: vready_def source_of_def)
  from uvarint_codec.varint_read_all[OF assms(1) this fit] w'(1) show ?thesis
    by (auto simp: vready_def)
qed

theorem varint_roundtrip_witness:
  "\<exists>w' r'. write_msgs varint_WriteMsg [[1], [2, 3]] \<lparr>vw_W = new_sink, vw_pool = (\<lambda>n. replicate n 255)\<rparr> = (None, w') \<and>
    read_msgs (varint_ReadMsg binary_ReadUvarint) (length [[1], [2, 3 :: byte]])
      \<lparr>vr_R = source_of (snk_out (vw_W w')), vr_next = -1, vr_pool = (\<lambda>n. replicate n 1), vr_max = 8\<rparr> =
        (Inr [[1], [2, 3]], r') \<and> src_data (vr_R r') = [] \<and> vr_next r' = -1"
  by (rule varint_roundtrip[OF binary.uvarint_codec_axioms]) (simp_all add: pool_ok_def)

text \<open>
  A message cut short by the stream is not lost: \<^verbatim>\<open>reader.ReadMsg\<close> returns the part that
  arrived together with an error and remembers how much is missing; once the rest arrives, the
  next call returns exactly the rest and the reader is back at a frame boundary.
\<close>

theorem ReadMsg_resume:
  assumes "ready mx r (put_uint32 (word_of_nat (length (p @ q))) @ p)"
    and "fits32 mx (length (p @ q))" and "q \<noteq> []"
  shows "\<exists>e r1 r2. ReadMsg r = ((p, Some e), r1) \<and> rd_next r1 = int (length q) \<and>
    ReadMsg (r1\<lparr>rd_R := (rd_R r1)\<lparr>src_data := q @ rest\<rparr>\<rparr>) = ((q, None), r2) \<and> ready mx r2 rest"
proof -
  define n where "n = length (p @ q)"
  have n: "n < 2 ^ 32" "int n \<le> mx" "0 < n" using assms(2,3) by (auto simp: fits32_def n_def)
  have r: "rd_next r = -1" "rd_max r = mx" "pool_ok (rd_pool r)"
    "src_data (rd_R r) = put_uint32 (word_of_nat n) @ p"
    using assms(1) by (auto simp: ready_def n_def)
  let ?s = "r\<lparr>rd_R := (rd_R r)\<lparr>src_data := p\<rparr>, rd_next := int n\<rparr>"
  have nl: "nextMsgLen r = (Inr (int n), ?s)"
    using r(1) ReadLen_put[OF r(4)] uint_word_of_nat32[OF n(1)] by (simp add: nextMsgLen_def)
  obtain got e rr where rf: "read_full n (rd_R ?s) = (got, e, rr)" by (metis prod_cases3)
  have got: "got = p" "src_data rr = []" using read_full_data[OF rf] by (simp_all add: n_def)
  have pn: "length p < n" "int n - int (length p) = int (length q)" using assms(3) by (simp_all add: n_def)
  have "e \<noteq> None" using read_full_none_iff[OF rf] got(1) pn(1) by simp
  then obtain err where e: "e = Some err" by auto
  let ?r1 = "?s\<lparr>rd_R := rr, rd_next := int (length q)\<rparr>"
  have one: "ReadMsg r = ((p, Some err), ?r1)"
    using nl rf got e n pn r(2,3) by (simp add: ReadMsg_def Let_def copy_at_def pool_ok_def)
  let ?t = "?r1\<lparr>rd_R := (rd_R ?r1)\<lparr>src_data := q @ rest\<rparr>\<rparr>"
  have rf2: "read_full (length q) (rd_R ?t) = (q, None, (rd_R ?t)\<lparr>src_data := rest\<rparr>)"
    by (rule read_full_exact) simp
  let ?r2 = "?t\<lparr>rd_R := (rd_R ?t)\<lparr>src_data := rest\<rparr>, rd_next := -1\<rparr>"
  have "nextMsgLen ?t = (Inr (int (length q)), ?t)"
    by (simp add: nextMsgLen_def)
  moreover have "int (length q) \<le> mx" using n pn by linarith
  ultimately have "ReadMsg ?t = ((q, None), ?r2)"
    using rf2 assms(3) r(2,3) by (simp add: ReadMsg_def Let_def copy_at_def pool_ok_def)
  moreover have "ready mx ?r2 rest" using r by (simp add: ready_def)
  ultimately show ?thesis using one by fastforce
qed

theorem ReadMsg_resume_witness:
  "\<exists>e r1 r2. ReadMsg \<lparr>rd_R = source_of [0, 0, 0, 3, 5], rd_next = -1, rd_pool = (\<lambda>n. replicate n 1), rd_max = 8\<rparr>
        = (([5], Some e), r1) \<and> rd_next r1 = int (length [6, 7 :: byte]) \<and>
    ReadMsg (r1\<lparr>rd_R := (rd_R r1)\<lparr>src_data := [6, 7] @ []\<rparr>\<rparr>) = (([6, 7], None), r2) \<and> ready 8 r2 []"
  by (rule ReadMsg_resume)
    (simp_all add: ready_def source_of_def fits32_def pool_ok_def put_uint32_def)

text \<open>
  A frame whose length exceeds the reader's limit is refused with \<^verbatim>\<open>ErrMsgTooLarge\<close> before any
  byte of the message is read, and the reader keeps refusing: a second call gives the same
  error in the same state, so oversized input can never be taken for the start of a new frame.
\<close>

theorem ReadMsg_too_large:
  assumes "rd_next r = -1" and "src_data (rd_R r) = frame m @ rest" and "length m < 2 ^ 32"
    and "rd_max r < int (length m)" and "m \<noteq> []"
  shows "\<exists>r1. ReadMsg r = (([], Some ErrMsgTooLarge), r1) \<and> src_data (rd_R r1) = m @ rest \<and>
    ReadMsg r1 = (([], Some ErrMsgTooLarge), r1)"
proof -
  have nl: "nextMsgLen r =
    (Inr (int (length m)), r\<lparr>rd_R := (rd_R r)\<lparr>src_data := m @ rest\<rparr>, rd_next := int (length m)\<rparr>)"
    by (rule nextMsgLen_frame[OF assms(1-3)])
  then show ?thesis
    using assms(4,5) by (simp add: ReadMsg_def nextMsgLen_def)
qed

theorem ReadMsg_too_large_witness:
  "\<exists>r1. ReadMsg \<lparr>rd_R = source_of (frame [1, 2, 3] @ [9]), rd_next = -1, rd_pool = (\<lambda>n. replicate n 0), rd_max = 2\<rparr>
      = (([], Some ErrMsgTooLarge), r1) \<and> src_data (rd_R r1) = [1, 2, 3] @ [9] \<and>
    ReadMsg r1 = (([], Some ErrMsgTooLarge), r1)"
  by (rule ReadMsg_too_large) (simp_all add: source_of_def)

text \<open>
  \<^verbatim>\<open>LimitedWriter\<close> buffers any number of writes and \<^verbatim>\<open>Flush\<close> emits them as one frame and empties
  the buffer; \<^verbatim>\<open>LimitedReader\<close> on the result delivers exactly the bytes written, up to its own
  end of file.
\<close>

theorem limited_roundtrip:
  assumes "length (concat bufs) < 2 ^ 32"
  shows "\<exists>w'. Flush (fold (\<lambda>b w. snd (LimitedWriter_Write w b)) bufs (NewLimitedWriter new_sink)) = (None, w') \<and>
    lw_B w' = [] \<and>
    (\<exists>l. LimitedReader (source_of (snk_out (lw_W w') @ rest)) = (l, None) \<and> limited_rest l = concat bufs)"
proof -
  have buffered: "fold (\<lambda>b w. snd (LimitedWriter_Write w b)) bufs w = w\<lparr>lw_B := lw_B w @ concat bufs\<rparr>" for w
    by (induction bufs arbitrary: w) (simp_all add: LimitedWriter_Write_def)
  define d where "d = concat bufs"
  let ?src = "source_of (put_uint32 (word_of_nat (length d)) @ d @ rest)"
  have "ReadLen ?src = (Inr (int (length d)), ?src\<lparr>src_data := d @ rest\<rparr>)"
    using ReadLen_put[of ?src] uint_word_of_nat32[of "length d"] assms
    by (simp add: source_of_def d_def)
  then have lr: "LimitedReader ?src = (\<lparr>lim_R = ?src\<lparr>src_data := d @ rest\<rparr>, lim_N = int (length d)\<rparr>, None)"
    by (simp add: LimitedReader_def)
  show ?thesis
    using lr unfolding buffered d_def[symmetric]
    by (cases "d = []") (auto simp: Flush_def NewLimitedWriter_def WriteLen_def sink_write_unlimited
        new_sink_def limited_rest_def)
qed

theorem limited_roundtrip_witness:
  "\<exists>w'. Flush (fold (\<lambda>b w. snd (LimitedWriter_Write w b)) [[1, 2], [3]] (NewLimitedWriter new_sink)) = (None, w') \<and>
    lw_B w' = [] \<and>
    (\<exists>l. LimitedReader (source_of (snk_out (lw_W w') @ [4])) = (l, None) \<and> limited_rest l = concat [[1, 2], [3]])"
  by (rule limited_roundtrip) simp

text \<open>
  C38. The varint reader is weaker than the fixed one on a truncated stream: \<^verbatim>\<open>varintReader.Read\<close>
  reports the full declared length as the number of bytes read even though fewer arrived, and
  forgets the missing part, so the bytes that arrive later are taken for a new frame.
\<close>

theorem varint_Read_truncated:
  assumes "uvarint_codec ruv" and "vr_next r = -1"
    and "src_data (vr_R r) = put_uvarint (length (p @ q)) @ p" and "q \<noteq> []"
    and "length (p @ q) < 2 ^ 63" and "length (p @ q) \<le> length msg"
  shows "\<exists>e r1. varint_Read ruv r msg = ((p @ drop (length p) msg, int (length (p @ q)), Some e), r1) \<and>
    vr_next r1 = -1 \<and> src_data (vr_R r1) = []"
proof -
  define n where "n = length (p @ q)"
  let ?s = "r\<lparr>vr_R := (vr_R r)\<lparr>src_data := p\<rparr>, vr_next := int n\<rparr>"
  have nl: "varint_nextMsgLen ruv r = (Inr (int n), ?s)"
    using assms(2) uvarint_codec.ruv_put[OF assms(1,5,3)] int_of_u64_small[OF assms(5)]
    by (simp add: varint_nextMsgLen_def n_def)
  obtain got e rr where rf: "read_full n (vr_R ?s) = (got, e, rr)" by (metis prod_cases3)
  have got: "got = p" "src_data rr = []" using read_full_data[OF rf] by (simp_all add: n_def)
  have "e \<noteq> None" using read_full_none_iff[OF rf] got(1) assms(4) by (simp add: n_def)
  moreover have "copy_at 0 p msg = p @ drop (length p) msg"
    using assms(6) by (simp add: copy_at_0)
  ultimately show ?thesis
    using assms(6) nl rf got unfolding n_def[symmetric] by (auto simp: varint_Read_def)
qed

theorem varint_Read_truncated_witness:
  "\<exists>e r1. varint_Read binary_ReadUvarint
        \<lparr>vr_R = source_of [3, 5], vr_next = -1, vr_pool = (\<lambda>n. replicate n 1), vr_max = 8\<rparr> [0, 0, 0, 0]
      = (([5] @ drop (length [5 :: byte]) [0, 0, 0, 0], int (length ([5] @ [6, 7 :: byte])), Some e), r1) \<and>
    vr_next r1 = -1 \<and> src_data (vr_R r1) = []"
  by (rule varint_Read_truncated[OF binary.uvarint_codec_axioms])
    (simp_all add: source_of_def put_uvarint.simps)

end
