(* ===== verification/Protoio.thy ===== *)
theory Protoio
  imports Msgio
begin

text \<open>
  Delimited protobuf messages: \<^verbatim>\<open>src/core/box/msgio/protoio\<close>.  The protobuf library and
  \<^verbatim>\<open>go-varint\<close> are third-party: marshalling, unmarshalling and the two varint functions are
  parameters.  A message type is described by the interfaces its value implements.
\<close>

section \<open>interfaces.go\<close>

datatype sizer = HasSize nat | HasProtoSize nat | NoSize

definition getSize :: "sizer \<Rightarrow> nat \<times> bool" where
  "getSize v = (case v of HasSize n \<Rightarrow> (n, True) | HasProtoSize n \<Rightarrow> (n, True) | NoSize \<Rightarrow> (0, False))"

text \<open>
  What the code asks of a message: its wire form, its optional \<^verbatim>\<open>MarshalTo\<close> (which overwrites a
  given buffer) and its optional size method.
\<close>

record 'm msg_ops =
  marshal :: "'m \<Rightarrow> io_error + bytes"
  marshalTo :: "('m \<Rightarrow> bytes \<Rightarrow> io_error + bytes) option"
  sizeOf :: "'m \<Rightarrow> sizer"

section \<open>uvarint\_reader.go\<close>

record uvarintReader =
  ur_r :: source
  ur_buf :: bytes
  ur_maxSize :: int
  ur_closer :: closer

definition NewDelimitedReader :: "source \<Rightarrow> int \<Rightarrow> uvarintReader" where
  "NewDelimitedReader r maxSize =
     \<lparr>ur_r = r, ur_buf = [], ur_maxSize = maxSize, ur_closer = src_closer r\<rparr>"

definition proto_ReadMsg ::
    "uvarint_reader \<Rightarrow> (bytes \<Rightarrow> io_error + 'm) \<Rightarrow> uvarintReader \<Rightarrow> (io_error + 'm) \<times> uvarintReader" where
  "proto_ReadMsg ruv unmarshal ur =
     (case ruv (ur_r ur) of
        (Inl e, r') \<Rightarrow> (Inl e, ur\<lparr>ur_r := r'\<rparr>)
      | (Inr length64, r') \<Rightarrow>
          (let len = int_of_u64 length64; ur1 = ur\<lparr>ur_r := r'\<rparr> in
           if len < 0 \<or> len > ur_maxSize ur1 then (Inl ErrShortBuffer, ur1)
           else
             (let buf = (if int (length (ur_buf ur1)) < len then replicate (nat len) 0 else ur_buf ur1)
              in case read_full (nat len) r' of (got, e, r'') \<Rightarrow>
                   (let buf' = copy_at 0 got buf; ur2 = ur1\<lparr>ur_buf := buf', ur_r := r''\<rparr> in
                    case e of
                      Some err \<Rightarrow> (Inl err, ur2)
                    | None \<Rightarrow> (unmarshal (take (nat len) buf'), ur2)))))"

definition uvarintReader_Close :: "uvarintReader \<Rightarrow> io_error option" where
  "uvarintReader_Close ur = (case ur_closer ur of Closer r \<Rightarrow> r | NotCloser \<Rightarrow> None)"

section \<open>uvarint\_writer.go\<close>

definition MaxLenUvarint63 :: nat where "MaxLenUvarint63 = 9"

record uvarintWriter =
  uw_w :: sink
  uw_lenBuf :: bytes
  uw_buffer :: bytes

definition NewDelimitedWriter :: "sink \<Rightarrow> uvarintWriter" where
  "NewDelimitedWriter w = \<lparr>uw_w = w, uw_lenBuf = replicate MaxLenUvarint63 0, uw_buffer = []\<rparr>"

text \<open>The fallback: marshal, write the length, write the data.\<close>

definition proto_WriteMsg_fallback ::
    "(nat \<Rightarrow> bytes) \<Rightarrow> 'm msg_ops \<Rightarrow> uvarintWriter \<Rightarrow> 'm \<Rightarrow> io_error option \<times> uvarintWriter" where
  "proto_WriteMsg_fallback puv ops uw msg =
     (case marshal ops msg of
        Inl e \<Rightarrow> (Some e, uw)
      | Inr data \<Rightarrow>
          (let lenBuf = copy_at 0 (puv (length data)) (uw_lenBuf uw);
               n = length (puv (length data)); uw1 = uw\<lparr>uw_lenBuf := lenBuf\<rparr> in
           case sink_write (take n lenBuf) (uw_w uw1) of
             (_, Some e, w') \<Rightarrow> (Some e, uw1\<lparr>uw_w := w'\<rparr>)
           | (_, None, w') \<Rightarrow>
               (case sink_write data w' of (_, e, w'') \<Rightarrow> (e, uw1\<lparr>uw_w := w''\<rparr>))))"

definition proto_WriteMsg ::
    "(nat \<Rightarrow> bytes) \<Rightarrow> 'm msg_ops \<Rightarrow> uvarintWriter \<Rightarrow> 'm \<Rightarrow> io_error option \<times> uvarintWriter" where
  "proto_WriteMsg puv ops uw msg =
     (case marshalTo ops of
        Some mt \<Rightarrow>
          (case getSize (sizeOf ops msg) of
             (n, True) \<Rightarrow>
               (let buffer = (if n + MaxLenUvarint63 \<ge> length (uw_buffer uw)
                              then replicate (n + MaxLenUvarint63) 0 else uw_buffer uw);
                    lenOff = length (puv n);
                    buffer1 = copy_at 0 (puv n) buffer in
                case mt msg (drop lenOff buffer1) of
                  Inl e \<Rightarrow> (Some e, uw\<lparr>uw_buffer := buffer1\<rparr>)
                | Inr tail \<Rightarrow>
                    (let buffer2 = take lenOff buffer1 @ tail in
                     case sink_write (take (lenOff + n) buffer2) (uw_w uw) of
                       (_, e, w') \<Rightarrow> (e, uw\<lparr>uw_buffer := buffer2, uw_w := w'\<rparr>)))
           | (_, False) \<Rightarrow> proto_WriteMsg_fallback puv ops uw msg)
      | None \<Rightarrow> proto_WriteMsg_fallback puv ops uw msg)"

definition uvarintWriter_Close :: "uvarintWriter \<Rightarrow> io_error option" where
  "uvarintWriter_Close uw = (case snk_closer (uw_w uw) of Closer r \<Rightarrow> r | NotCloser \<Rightarrow> None)"

section \<open>Lemmas\<close>

text \<open>
  A message type whose two marshalling routes agree, as the protobuf interfaces document: the
  size method gives the length of the wire form and \<^verbatim>\<open>MarshalTo\<close> puts that form at the front of
  the buffer.
\<close>

definition marshals :: "'m msg_ops \<Rightarrow> 'm \<Rightarrow> bytes \<Rightarrow> bool" where
  "marshals ops m data \<longleftrightarrow> marshal ops m = Inr data \<and>
     (\<forall>mt. marshalTo ops = Some mt \<longrightarrow> snd (getSize (sizeOf ops m)) \<longrightarrow>
        fst (getSize (sizeOf ops m)) = length data \<and>
        (\<forall>b. length data \<le> length b \<longrightarrow> mt m b = Inr (data @ drop (length data) b)))"

lemma length_put_uvarint63: "n < 2 ^ 63 \<Longrightarrow> length (put_uvarint n) \<le> MaxLenUvarint63"
  using length_put_uvarint[of n 8] by (simp add: MaxLenUvarint63_def)

lemma proto_WriteMsg_emits:
  assumes "marshals ops m data" and "length data < 2 ^ 63" and "snk_room (uw_w uw) = None"
    and "length (uw_lenBuf uw) = MaxLenUvarint63"
  shows "\<exists>uw'. proto_WriteMsg put_uvarint ops uw m = (None, uw') \<and>
    snk_out (uw_w uw') = snk_out (uw_w uw) @ varint_frame data \<and>
    snk_room (uw_w uw') = None \<and> length (uw_lenBuf uw') = MaxLenUvarint63"
proof -
  let ?hdr = "put_uvarint (length data)"
  have h: "length ?hdr \<le> MaxLenUvarint63" using assms(2) by (rule length_put_uvarint63)
  have mar: "marshal ops m = Inr data" using assms(1) by (simp add: marshals_def)
  have take_len: "take (length ?hdr) (copy_at 0 ?hdr b) = ?hdr" if "length ?hdr \<le> length b" for b
    using that by (simp add: copy_at_0)
  have fallback: "\<exists>uw'. proto_WriteMsg_fallback put_uvarint ops uw m = (None, uw') \<and>
    snk_out (uw_w uw') = snk_out (uw_w uw) @ varint_frame data \<and>
    snk_room (uw_w uw') = None \<and> length (uw_lenBuf uw') = MaxLenUvarint63"
    using mar assms(3,4) h
    by (simp add: proto_WriteMsg_fallback_def Let_def take_len sink_write_unlimited varint_frame_def)
  show ?thesis
  proof (cases "\<exists>mt. marshalTo ops = Some mt \<and> snd (getSize (sizeOf ops m))")
    case False
    then have "proto_WriteMsg put_uvarint ops uw m = proto_WriteMsg_fallback put_uvarint ops uw m"
      by (cases "getSize (sizeOf ops m)") (auto simp: proto_WriteMsg_def split: option.splits bool.splits)
    with fallback show ?thesis by simp
  next
    case True
    then obtain mt where mt: "marshalTo ops = Some mt" and has: "snd (getSize (sizeOf ops m))"
      by blast
    then have sz: "getSize (sizeOf ops m) = (length data, True)"
      using assms(1) by (cases "getSize (sizeOf ops m)") (auto simp: marshals_def)
    have wr: "mt m b = Inr (data @ drop (length data) b)" if "length data \<le> length b" for b
      using assms(1) mt has that by (auto simp: marshals_def)
    define buffer where "buffer = (if length data + MaxLenUvarint63 \<ge> length (uw_buffer uw)
      then replicate (length data + MaxLenUvarint63) 0 else uw_buffer uw)"
    have lb: "length data + MaxLenUvarint63 \<le> length buffer" by (auto simp: buffer_def)
    have "take (length ?hdr) (copy_at 0 ?hdr buffer) = ?hdr"
      using lb h by (intro take_len) simp
    moreover have "length data \<le> length (drop (length ?hdr) (copy_at 0 ?hdr buffer))"
      using lb h by simp
    ultimately show ?thesis
      using mt sz wr assms(3,4)
      by (simp add: proto_WriteMsg_def buffer_def[symmetric] Let_def sink_write_unlimited
          varint_frame_def)
  qed
qed

text \<open>Encoding a sequence of messages appends their frames in order.\<close>

fun proto_write_all ::
    "(nat \<Rightarrow> bytes) \<Rightarrow> 'm msg_ops \<Rightarrow> 'm list \<Rightarrow> uvarintWriter \<Rightarrow> io_error option \<times> uvarintWriter" where
  "proto_write_all puv ops [] uw = (None, uw)"
| "proto_write_all puv ops (m # ms) uw =
     (case proto_WriteMsg puv ops uw m of
        (Some e, uw') \<Rightarrow> (Some e, uw') | (None, uw') \<Rightarrow> proto_write_all puv ops ms uw')"

fun proto_read_all ::
    "uvarint_reader \<Rightarrow> (bytes \<Rightarrow> io_error + 'm) \<Rightarrow> nat \<Rightarrow> uvarintReader \<Rightarrow> (io_error + 'm list) \<times> uvarintReader" where
  "proto_read_all ruv um 0 ur = (Inr [], ur)"
| "proto_read_all ruv um (Suc n) ur =
     (case proto_ReadMsg ruv um ur of
        (Inl e, ur') \<Rightarrow> (Inl e, ur')
      | (Inr m, ur') \<Rightarrow>
          (case proto_read_all ruv um n ur' of
             (Inl e, ur'') \<Rightarrow> (Inl e, ur'') | (Inr ms, ur'') \<Rightarrow> (Inr (m # ms), ur'')))"

lemma proto_write_all_emits:
  "list_all2 (\<lambda>m d. marshals ops m d \<and> length d < 2 ^ 63) ms ds \<Longrightarrow>
   snk_room (uw_w uw) = None \<Longrightarrow> length (uw_lenBuf uw) = MaxLenUvarint63 \<Longrightarrow>
   \<exists>uw'. proto_write_all put_uvarint ops ms uw = (None, uw') \<and>
     snk_out (uw_w uw') = snk_out (uw_w uw) @ concat (map varint_frame ds)"
proof (induction ms ds arbitrary: uw rule: list_all2_induct)
  case Nil
  then show ?case by simp
next
  case (Cons m ms d ds)
  from proto_WriteMsg_emits[of ops m d uw] Cons.hyps(1) Cons.prems obtain uw1 where
    uw1: "proto_WriteMsg put_uvarint ops uw m = (None, uw1)"
    "snk_out (uw_w uw1) = snk_out (uw_w uw) @ varint_frame d"
    "snk_room (uw_w uw1) = None" "length (uw_lenBuf uw1) = MaxLenUvarint63" by auto
  from Cons.IH[OF uw1(3,4)] uw1(1,2) show ?case by auto
qed

lemma copy_at_take: "length got \<le> length buf \<Longrightarrow> take (length got) (copy_at 0 got buf) = got"
  by (simp add: copy_at_0)

context uvarint_codec
begin

lemma proto_ReadMsg_frame:
  assumes "src_data (ur_r ur) = varint_frame d @ rest" and "length d < 2 ^ 63"
    and "int (length d) \<le> ur_maxSize ur"
  shows "\<exists>ur'. proto_ReadMsg ruv um ur = (um d, ur') \<and> src_data (ur_r ur') = rest \<and>
    ur_maxSize ur' = ur_maxSize ur"
proof -
  let ?r = "(ur_r ur)\<lparr>src_data := d @ rest\<rparr>"
  have "ruv (ur_r ur) = (Inr (word_of_nat (length d)), ?r)"
    using assms(1,2) by (intro ruv_put) (simp_all add: varint_frame_def)
  moreover have "read_full (length d) ?r = (d, None, ?r\<lparr>src_data := rest\<rparr>)"
    by (rule read_full_exact) simp
  ultimately show ?thesis
    using assms(2,3)
    by (simp add: proto_ReadMsg_def Let_def int_of_u64_small copy_at_take)
qed

lemma proto_read_all_frames:
  "src_data (ur_r ur) = concat (map varint_frame ds) @ rest \<Longrightarrow>
   list_all2 (\<lambda>m d. um d = Inr m \<and> length d < 2 ^ 63 \<and> int (length d) \<le> ur_maxSize ur) ms ds \<Longrightarrow>
   \<exists>ur'. proto_read_all ruv um (length ms) ur = (Inr ms, ur') \<and> src_data (ur_r ur') = rest"
proof (induction ms arbitrary: ds ur)
  case Nil
  then show ?case by simp
next
  case (Cons m ms)
  from Cons.prems(2) obtain d ds' where ds: "ds = d # ds'" and d: "um d = Inr m" "length d < 2 ^ 63"
    "int (length d) \<le> ur_maxSize ur"
    and rest: "list_all2 (\<lambda>m d. um d = Inr m \<and> length d < 2 ^ 63 \<and> int (length d) \<le> ur_maxSize ur) ms ds'"
    by (auto simp: list_all2_Cons1)
  from proto_ReadMsg_frame[of ur d "concat (map varint_frame ds') @ rest" um] Cons.prems(1) ds d
  obtain ur1 where ur1: "proto_ReadMsg ruv um ur = (Inr m, ur1)"
    "src_data (ur_r ur1) = concat (map varint_frame ds') @ rest" "ur_maxSize ur1 = ur_maxSize ur"
    by auto
  from Cons.IH[of ur1 ds'] ur1 rest show ?case by auto
qed

end

section \<open>Properties\<close>

text \<open>
  Messages written with \<^verbatim>\<open>uvarintWriter.WriteMsg\<close>, by \<^verbatim>\<open>MarshalTo\<close> or by the fallback, are read
  back by \<^verbatim>\<open>uvarintReader.ReadMsg\<close> in order and nothing is left over, when the varint reader
  inverts \<^verbatim>\<open>PutUvarint\<close>, the messages marshal to data that unmarshals to them and the data is
  within the reader's size limit.
\<close>

theorem protoio_roundtrip:
  assumes "uvarint_codec ruv"
    and "list_all2 (\<lambda>m d. marshals ops m d \<and> um d = Inr m \<and> length d < 2 ^ 63 \<and> int (length d) \<le> mx) ms ds"
  shows "\<exists>uw' ur'. proto_write_all put_uvarint ops ms (NewDelimitedWriter new_sink) = (None, uw') \<and>
    proto_read_all ruv um (length ms) (NewDelimitedReader (source_of (snk_out (uw_w uw'))) mx) = (Inr ms, ur') \<and>
    src_data (ur_r ur') = []"
proof -
  have "list_all2 (\<lambda>m d. marshals ops m d \<and> length d < 2 ^ 63) ms ds"
    using assms(2) by (rule list_all2_mono) simp
  from proto_write_all_emits[OF this, of "NewDelimitedWriter new_sink"] obtain uw' where
    uw': "proto_write_all put_uvarint ops ms (NewDelimitedWriter new_sink) = (None, uw')"
    "snk_out (uw_w uw') = concat (map varint_frame ds)"
    by (auto simp: NewDelimitedWriter_def new_sink_def)
  let ?ur = "NewDelimitedReader (source_of (snk_out (uw_w uw'))) mx"
  have "src_data (ur_r ?ur) = concat (map varint_frame ds) @ []"
    by (simp add: NewDelimitedReader_def source_of_def uw'(2))
  moreover have "list_all2 (\<lambda>m d. um d = Inr m \<and> length d < 2 ^ 63 \<and> int (length d) \<le> ur_maxSize ?ur) ms ds"
    using assms(2) by (rule list_all2_mono) (simp add: NewDelimitedReader_def)
  ultimately show ?thesis
    using uvarint_codec.proto_read_all_frames[OF assms(1)] uw'(1) by blast
qed

theorem protoio_roundtrip_witness:
  "\<exists>uw' ur'. proto_write_all put_uvarint \<lparr>marshal = Inr, marshalTo = Some (\<lambda>m b. Inr (m @ drop (length m) b)),
        sizeOf = (\<lambda>m. HasSize (length m))\<rparr> [[1, 2], [3]] (NewDelimitedWriter new_sink) = (None, uw') \<and>
    proto_read_all binary_ReadUvarint Inr (length [[1, 2], [3 :: byte]])
      (NewDelimitedReader (source_of (snk_out (uw_w uw'))) 16) = (Inr [[1, 2], [3]], ur') \<and>
    src_data (ur_r ur') = []"
  by (rule protoio_roundtrip[OF binary.uvarint_codec_axioms, where ds = "[[1, 2], [3]]"])
    (simp add: marshals_def getSize_def)

text \<open>
  A declared length that is negative as an \<^verbatim>\<open>int\<close> or above the limit is refused with
  \<^verbatim>\<open>ErrShortBuffer\<close>, without growing the reader's buffer and without consuming any payload byte.
\<close>

theorem proto_ReadMsg_limit:
  assumes "ruv (ur_r ur) = (Inr n, r')" and "int_of_u64 n < 0 \<or> ur_maxSize ur < int_of_u64 n"
  shows "proto_ReadMsg ruv um ur = (Inl ErrShortBuffer, ur\<lparr>ur_r := r'\<rparr>)"
  using assms by (auto simp: proto_ReadMsg_def Let_def)

theorem proto_ReadMsg_limit_witness:
  "proto_ReadMsg (\<lambda>r. (Inr (2 ^ 63), r)) (Inr :: bytes \<Rightarrow> io_error + bytes) (NewDelimitedReader (source_of [1]) 16) =
     (Inl ErrShortBuffer, (NewDelimitedReader (source_of [1]) 16)\<lparr>ur_r := source_of [1]\<rparr>)"
  by (rule proto_ReadMsg_limit[where n = "2 ^ 63"])
    (simp_all add: int_of_u64_def NewDelimitedReader_def)

end
