(* ===== verification/GC.thy ===== *)
theory GC
  imports Prelude
begin

text \<open>
  Mark-and-sweep garbage collection of the block store: \<^verbatim>\<open>src/gc/gc.go\<close>.

  The model is parametric in what the code only calls: the links of a block
  (\<^verbatim>\<open>ipld.GetLinks\<close>), CID validation (\<^verbatim>\<open>verifcid\<close>), the pinner's three key lists, the block
  store's key listing and deletion, and the graph walk (\<^verbatim>\<open>dag.Walk\<close>), whose documented
  behaviour is the locale \<open>dag_walk\<close>.  Every \<^verbatim>\<open>select\<close> that races an output against
  \<^verbatim>\<open>ctx.Done()\<close> asks an oracle \<open>ctx_done\<close> which side wins at that point, so the theorems hold
  for a cancellation at any moment.  The results sent on the output channel are the list of
  emitted results.
\<close>

section \<open>CIDs\<close>

record cid =
  cid_version :: nat
  cid_codec :: nat
  cid_hash :: string

definition Raw :: nat where "Raw = 0x55"

definition NewCidV1 :: "nat \<Rightarrow> string \<Rightarrow> cid" where
  "NewCidV1 codec h = \<lparr>cid_version = 1, cid_codec = codec, cid_hash = h\<rparr>"

text \<open>The key a block store reports for a block: its hash under the raw codec.\<close>

definition rawCid :: "cid \<Rightarrow> cid" where
  "rawCid c = NewCidV1 Raw (cid_hash c)"

definition toRawCids :: "cid set \<Rightarrow> cid set" where
  "toRawCids s = rawCid ` s"

definition toCidV1 :: "cid \<Rightarrow> cid" where
  "toCidV1 c = (if cid_version c = 0 then NewCidV1 (cid_codec c) (cid_hash c) else c)"

lemma rawCid_toCidV1 [simp]: "rawCid (toCidV1 c) = rawCid c"
  by (simp add: rawCid_def toCidV1_def NewCidV1_def)

lemma toCidV1_idem [simp]: "toCidV1 (toCidV1 c) = toCidV1 c"
  by (simp add: toCidV1_def NewCidV1_def)

section \<open>Results and environment\<close>

datatype gc_error =
    NotFound cid
  | FetchError string
  | InvalidCid string
  | PinnerError string
  | StoreError string
  | CtxErr
  | VerboseCidError gc_error
  | CannotFetchLinksError cid gc_error
  | CannotDeleteBlockError cid gc_error
  | ErrCannotFetchAllLinks
  | ErrCannotDeleteSomeBlocks

datatype gc_result = KeyRemoved cid | GCError gc_error

text \<open>The places where the code races an output against the cancellation of its context.\<close>

datatype gc_point = PtFetch cid | PtPhase nat | PtLoop nat | PtEmit nat | PtFinal nat

record gc_env =
  get_links :: "cid \<Rightarrow> gc_error + cid list"
  validateCid :: "cid \<Rightarrow> gc_error option"
  insecureHash :: "gc_error \<Rightarrow> bool"
  recursiveKeys :: "gc_error + cid list"
  directKeys :: "gc_error + cid list"
  internalPins :: "gc_error + cid list"
  allKeys :: "gc_error + cid list"
  deleteBlock :: "cid \<Rightarrow> gc_error option"
  collectGarbage :: "gc_error option option"
  ctx_done :: "gc_point \<Rightarrow> bool"

text \<open>
  A link getter returns its links or an error, and as effects the results it emitted and
  whether it raised the \<^verbatim>\<open>errors\<close> flag of \<^verbatim>\<open>ColoredSet\<close>.
\<close>

type_synonym link_getter = "cid \<Rightarrow> (gc_error + cid list) \<times> gc_result list \<times> bool"
type_synonym mark_result = "gc_error option \<times> cid set \<times> gc_result list \<times> bool"
type_synonym walker =
  "link_getter \<Rightarrow> cid \<Rightarrow> (cid \<Rightarrow> cid set \<Rightarrow> bool \<times> cid set) \<Rightarrow> cid set \<Rightarrow> mark_result"

section \<open>Marking\<close>

text \<open>\<^verbatim>\<open>set.Visit(toCidV1(k))\<close>: adds the key and tells whether it was new.\<close>

definition visit_v1 :: "cid \<Rightarrow> cid set \<Rightarrow> bool \<times> cid set" where
  "visit_v1 k S = (toCidV1 k \<notin> S, insert (toCidV1 k) S)"

definition verifyGetLinks :: "gc_env \<Rightarrow> link_getter \<Rightarrow> link_getter" where
  "verifyGetLinks env gl c =
     (case validateCid env c of Some e \<Rightarrow> (Inl e, [], False) | None \<Rightarrow> gl c)"

definition verboseCidError :: "gc_env \<Rightarrow> gc_error \<Rightarrow> gc_error" where
  "verboseCidError env e = (if insecureHash env e then VerboseCidError e else e)"

fun Descendants :: "walker \<Rightarrow> gc_env \<Rightarrow> link_getter \<Rightarrow> cid set \<Rightarrow> cid list \<Rightarrow> mark_result" where
  "Descendants walk env gl S [] = (None, S, [], False)"
| "Descendants walk env gl S (c # roots) =
     (case walk (verifyGetLinks env gl) c visit_v1 S of
        (Some e, S', out, bad) \<Rightarrow> (Some (verboseCidError env e), S', out, bad)
      | (None, S', out, bad) \<Rightarrow>
          (case Descendants walk env gl S' roots of
             (e, S'', out', bad') \<Rightarrow> (e, S'', out @ out', bad \<or> bad')))"

definition getLinks :: "gc_env \<Rightarrow> link_getter" where
  "getLinks env c =
     (case get_links env c of
        Inr links \<Rightarrow> (Inr links, [], False)
      | Inl e \<Rightarrow>
          if ctx_done env (PtFetch c) then (Inl CtxErr, [], True)
          else (Inr [], [GCError (CannotFetchLinksError c e)], True))"

definition bestEffortGetLinks :: "gc_env \<Rightarrow> link_getter" where
  "bestEffortGetLinks env c =
     (case get_links env c of
        Inr links \<Rightarrow> (Inr links, [], False)
      | Inl (NotFound k) \<Rightarrow> (Inr [], [], False)
      | Inl e \<Rightarrow>
          if ctx_done env (PtFetch c) then (Inl CtxErr, [], True)
          else (Inr [], [GCError (CannotFetchLinksError c e)], True))"

text \<open>
  After each \<^verbatim>\<open>Descendants\<close> an error is reported and remembered, unless the context is done
  first (\<open>Inl\<close>: \<^verbatim>\<open>ColoredSet\<close> returns \<^verbatim>\<open>ctx.Err()\<close>).
\<close>

definition reportPhase ::
    "gc_env \<Rightarrow> nat \<Rightarrow> mark_result \<Rightarrow> gc_result list + (cid set \<times> gc_result list \<times> bool)" where
  "reportPhase env i r =
     (case r of
        (None, S, out, bad) \<Rightarrow> Inr (S, out, bad)
      | (Some e, S, out, bad) \<Rightarrow>
          if ctx_done env (PtPhase i) then Inl out else Inr (S, out @ [GCError e], True))"

definition ColoredSet ::
    "walker \<Rightarrow> gc_env \<Rightarrow> cid list \<Rightarrow> (gc_error + cid set) \<times> gc_result list" where
  "ColoredSet walk env bestEffortRoots =
     (case recursiveKeys env of
        Inl e \<Rightarrow> (Inl e, [])
      | Inr rkeys \<Rightarrow>
     (case reportPhase env 0 (Descendants walk env (getLinks env) {} rkeys) of
        Inl out1 \<Rightarrow> (Inl CtxErr, out1)
      | Inr (S1, out1, bad1) \<Rightarrow>
     (case reportPhase env 1 (Descendants walk env (bestEffortGetLinks env) S1 bestEffortRoots) of
        Inl out2 \<Rightarrow> (Inl CtxErr, out1 @ out2)
      | Inr (S2, out2, bad2) \<Rightarrow>
     (case directKeys env of
        Inl e \<Rightarrow> (Inl e, out1 @ out2)
      | Inr dkeys \<Rightarrow>
     (let S3 = S2 \<union> toCidV1 ` set dkeys in
      case internalPins env of
        Inl e \<Rightarrow> (Inl e, out1 @ out2)
      | Inr ikeys \<Rightarrow>
     (case reportPhase env 2 (Descendants walk env (getLinks env) S3 ikeys) of
        Inl out4 \<Rightarrow> (Inl CtxErr, out1 @ out2 @ out4)
      | Inr (S4, out4, bad4) \<Rightarrow>
          if bad1 \<or> bad2 \<or> bad4 then (Inl ErrCannotFetchAllLinks, out1 @ out2 @ out4)
          else (Inr S4, out1 @ out2 @ out4)))))))"

section \<open>Sweeping\<close>

text \<open>
  The deletion loop over the key channel: the blocks left, the results emitted and the
  \<^verbatim>\<open>errors\<close> flag.  \<open>i\<close> counts the iterations.
\<close>

fun sweep ::
    "gc_env \<Rightarrow> cid set \<Rightarrow> nat \<Rightarrow> cid list \<Rightarrow> cid list \<Rightarrow> cid list \<times> gc_result list \<times> bool" where
  "sweep env gcs i [] store = (store, [], False)"
| "sweep env gcs i (k # ks) store =
     (if ctx_done env (PtLoop i) then (store, [], False)
      else if k \<in> gcs then sweep env gcs (Suc i) ks store
      else (case deleteBlock env k of
              Some e \<Rightarrow>
                if ctx_done env (PtEmit i) then (store, [], True)
                else (case sweep env gcs (Suc i) ks store of (st, out, errs) \<Rightarrow>
                        (st, GCError (CannotDeleteBlockError k e) # out, True))
            | None \<Rightarrow>
                (let store' = removeAll k store in
                 if ctx_done env (PtEmit i) then (store', [], False)
                 else (case sweep env gcs (Suc i) ks store' of (st, out, errs) \<Rightarrow>
                         (st, KeyRemoved k # out, errs)))))"

text \<open>An error result, lost when the context is done.\<close>

definition emitErr :: "gc_env \<Rightarrow> nat \<Rightarrow> gc_error \<Rightarrow> gc_result list" where
  "emitErr env i e = (if ctx_done env (PtFinal i) then [] else [GCError e])"

definition collect :: "gc_env \<Rightarrow> gc_result list" where
  "collect env =
     (case collectGarbage env of
        None \<Rightarrow> [] | Some None \<Rightarrow> [] | Some (Some e) \<Rightarrow> emitErr env 3 e)"

text \<open>
  \<^verbatim>\<open>GC\<close>: the emitted results and the blocks left in the store.
\<close>

definition GC :: "walker \<Rightarrow> gc_env \<Rightarrow> cid list \<Rightarrow> cid list \<Rightarrow> gc_result list \<times> cid list" where
  "GC walk env bestEffortRoots store =
     (case ColoredSet walk env bestEffortRoots of
        (Inl e, out) \<Rightarrow> (out @ emitErr env 0 e, store)
      | (Inr marked, out) \<Rightarrow>
          (let gcs = toRawCids marked in
           case allKeys env of
             Inl e \<Rightarrow> (out @ emitErr env 1 e, store)
           | Inr keys \<Rightarrow>
               (case sweep env gcs 0 keys store of (store', out', errs) \<Rightarrow>
                  if errs then
                    (if ctx_done env (PtFinal 2) then (out @ out', store')
                     else (out @ out' @ [GCError ErrCannotDeleteSomeBlocks] @ collect env, store'))
                  else (out @ out' @ collect env, store'))))"

section \<open>The graph walk\<close>

definition links_of :: "link_getter \<Rightarrow> cid \<Rightarrow> cid set" where
  "links_of gl k = (case fst (gl k) of Inr ls \<Rightarrow> set ls | Inl e \<Rightarrow> {})"

definition walk_reach :: "link_getter \<Rightarrow> cid \<Rightarrow> cid set" where
  "walk_reach gl c = {k. (c, k) \<in> {(a, b). b \<in> links_of gl a}\<^sup>*}"

definition expanded :: "link_getter \<Rightarrow> cid set \<Rightarrow> gc_result list \<Rightarrow> bool \<Rightarrow> cid \<Rightarrow> bool" where
  "expanded gl S out bad k \<longleftrightarrow>
     (\<exists>ls. fst (gl k) = Inr ls \<and> toCidV1 ` set ls \<subseteq> S) \<and>
     set (fst (snd (gl k))) \<subseteq> set out \<and> (snd (snd (gl k)) \<longrightarrow> bad)"

text \<open>
  What \<^verbatim>\<open>dag.Walk\<close> documents, for the visit function the code passes: it only adds nodes
  reachable from the root; when it returns no error it has visited the root and fetched the
  links of every node the visit function reported as new; an error comes from a link getter.
\<close>

definition walk_result :: "link_getter \<Rightarrow> cid \<Rightarrow> cid set \<Rightarrow> mark_result \<Rightarrow> bool" where
  "walk_result gl c S r \<longleftrightarrow>
     (case r of (e, S', out, bad) \<Rightarrow>
        S \<subseteq> S' \<and> S' \<subseteq> S \<union> toCidV1 ` walk_reach gl c \<and>
        (e = None \<longrightarrow> toCidV1 c \<in> S' \<and>
           (\<forall>x \<in> S' - S. \<exists>k. toCidV1 k = x \<and> expanded gl S' out bad k)) \<and>
        (\<forall>err. e = Some err \<longrightarrow> (\<exists>k \<in> walk_reach gl c. fst (gl k) = Inl err)) \<and>
        (bad \<longrightarrow> (\<exists>k \<in> walk_reach gl c. snd (snd (gl k)))))"

locale dag_walk =
  fixes walk :: walker
  assumes walk_spec: "finite (walk_reach gl c) \<Longrightarrow> walk_result gl c S (walk gl c visit_v1 S)"

lemma walk_reach_root [simp]: "c \<in> walk_reach gl c"
  by (simp add: walk_reach_def)

lemma walk_reach_step: "k \<in> walk_reach gl c \<Longrightarrow> l \<in> links_of gl k \<Longrightarrow> l \<in> walk_reach gl c"
  by (auto simp: walk_reach_def intro: rtrancl_into_rtrancl)

subsection \<open>A sequential walk satisfies the contract\<close>

partial_function (option) walk_loop ::
    "link_getter \<Rightarrow> (cid \<Rightarrow> cid set \<Rightarrow> bool \<times> cid set) \<Rightarrow> cid list \<Rightarrow> cid set \<Rightarrow>
     gc_result list \<Rightarrow> bool \<Rightarrow> mark_result option" where
  "walk_loop gl visit st S out bad =
     (case st of
        [] \<Rightarrow> Some (None, S, out, bad)
      | c # cs \<Rightarrow>
          if fst (visit c S) then
            (case fst (gl c) of
               Inl e \<Rightarrow> Some (Some e, snd (visit c S), out @ fst (snd (gl c)), bad \<or> snd (snd (gl c)))
             | Inr ls \<Rightarrow>
                 walk_loop gl visit (ls @ cs) (snd (visit c S)) (out @ fst (snd (gl c)))
                   (bad \<or> snd (snd (gl c))))
          else walk_loop gl visit cs (snd (visit c S)) out bad)"

definition walk_seq :: walker where
  "walk_seq gl c visit S = the (walk_loop gl visit [c] S [] False)"

definition walk_inv ::
    "link_getter \<Rightarrow> cid \<Rightarrow> cid set \<Rightarrow> cid list \<Rightarrow> cid set \<Rightarrow> gc_result list \<Rightarrow> bool \<Rightarrow> bool" where
  "walk_inv gl c S0 st S out bad \<longleftrightarrow>
     set st \<subseteq> walk_reach gl c \<and> S0 \<subseteq> S \<and> S \<subseteq> S0 \<union> toCidV1 ` walk_reach gl c \<and>
     toCidV1 c \<in> S \<union> toCidV1 ` set st \<and>
     (\<forall>x \<in> S - S0. \<exists>k. toCidV1 k = x \<and> expanded gl (S \<union> toCidV1 ` set st) out bad k) \<and>
     (bad \<longrightarrow> (\<exists>k \<in> walk_reach gl c. snd (snd (gl k))))"

lemma expanded_mono:
  "expanded gl S out bad k \<Longrightarrow> S \<subseteq> S' \<Longrightarrow> set out \<subseteq> set out' \<Longrightarrow> (bad \<longrightarrow> bad') \<Longrightarrow>
   expanded gl S' out' bad' k"
  by (auto simp: expanded_def)

lemma walk_inv_skip:
  assumes inv: "walk_inv gl c S0 (k # cs) S out bad" and old: "toCidV1 k \<in> S"
  shows "walk_inv gl c S0 cs S out bad"
proof -
  have "S \<union> toCidV1 ` set (k # cs) = S \<union> toCidV1 ` set cs" using old by auto
  with inv show ?thesis by (auto simp: walk_inv_def)
qed

lemma walk_inv_expand:
  assumes inv: "walk_inv gl c S0 (k # cs) S out bad"
    and gl: "gl k = (Inr ls, o', b)"
  shows "walk_inv gl c S0 (ls @ cs) (insert (toCidV1 k) S) (out @ o') (bad \<or> b)"
proof -
  let ?S = "insert (toCidV1 k) S"
  let ?T = "?S \<union> toCidV1 ` set (ls @ cs)"
  have k: "k \<in> walk_reach gl c" and cs: "set cs \<subseteq> walk_reach gl c"
    using inv by (auto simp: walk_inv_def)
  have "set ls = links_of gl k" using gl by (simp add: links_of_def)
  with k have ls: "set ls \<subseteq> walk_reach gl c" by (auto intro: walk_reach_step)
  have sub: "S \<union> toCidV1 ` set (k # cs) \<subseteq> ?T" by auto
  have old: "\<exists>k'. toCidV1 k' = x \<and> expanded gl ?T (out @ o') (bad \<or> b) k'" if "x \<in> S - S0" for x
  proof -
    from inv that obtain k' where k': "toCidV1 k' = x"
      "expanded gl (S \<union> toCidV1 ` set (k # cs)) out bad k'" unfolding walk_inv_def by blast
    have "expanded gl ?T (out @ o') (bad \<or> b) k'"
      using k'(2) sub by (rule expanded_mono) auto
    with k'(1) show ?thesis by blast
  qed
  have new: "expanded gl ?T (out @ o') (bad \<or> b) k"
    using gl by (auto simp: expanded_def)
  have bad: "bad \<or> b \<longrightarrow> (\<exists>k \<in> walk_reach gl c. snd (snd (gl k)))"
    using inv k gl by (auto simp: walk_inv_def intro!: bexI[of _ k])
  show ?thesis
    unfolding walk_inv_def using inv k cs ls old new bad by (auto simp: walk_inv_def)
qed

lemma walk_inv_error:
  assumes inv: "walk_inv gl c S0 (k # cs) S out bad" and gl: "gl k = (Inl e, o', b)"
  shows "walk_result gl c S0 (Some e, insert (toCidV1 k) S, out @ o', bad \<or> b)"
proof -
  have k: "k \<in> walk_reach gl c" using inv by (simp add: walk_inv_def)
  have "\<exists>k \<in> walk_reach gl c. fst (gl k) = Inl e" using k gl by (intro bexI[of _ k]) simp_all
  moreover have "bad \<or> b \<longrightarrow> (\<exists>k \<in> walk_reach gl c. snd (snd (gl k)))"
    using inv k gl by (auto simp: walk_inv_def intro!: bexI[of _ k])
  ultimately show ?thesis using inv k by (auto simp: walk_inv_def walk_result_def)
qed

lemma walk_loop_correct:
  assumes fin: "finite (walk_reach gl c)"
  shows "walk_inv gl c S0 st S out bad \<Longrightarrow>
    \<exists>r. walk_loop gl visit_v1 st S out bad = Some r \<and> walk_result gl c S0 r"
proof (induction "(card (toCidV1 ` walk_reach gl c - S), length st)"
    arbitrary: st S out bad rule: wf_induct_rule[OF wf_lex_prod[OF wf_less_than wf_less_than]])
  case 1
  note IH = "1.hyps" and inv = "1.prems"
  show ?case
  proof (cases st)
    case Nil
    have "walk_loop gl visit_v1 st S out bad = Some (None, S, out, bad)"
      unfolding Nil by (subst walk_loop.simps) simp
    moreover have "walk_result gl c S0 (None, S, out, bad)"
      using inv unfolding Nil by (auto simp: walk_inv_def walk_result_def)
    ultimately show ?thesis by blast
  next
    case (Cons k cs)
    show ?thesis
    proof (cases "toCidV1 k \<in> S")
      case True
      then have "walk_inv gl c S0 cs S out bad" using inv unfolding Cons by (rule walk_inv_skip[rotated])
      then obtain r where "walk_loop gl visit_v1 cs S out bad = Some r" "walk_result gl c S0 r"
        using IH[of S cs out bad] Cons by auto
      moreover have "walk_loop gl visit_v1 st S out bad = walk_loop gl visit_v1 cs S out bad"
        unfolding Cons using True by (subst walk_loop.simps) (simp add: visit_v1_def insert_absorb)
      ultimately show ?thesis by auto
    next
      case False
      let ?S = "insert (toCidV1 k) S"
      have k: "k \<in> walk_reach gl c" using inv Cons by (simp add: walk_inv_def)
      obtain res o' b where gl: "gl k = (res, o', b)" by (cases "gl k") auto
      show ?thesis
      proof (cases res)
        case (Inl e)
        have "walk_loop gl visit_v1 st S out bad = Some (Some e, ?S, out @ o', bad \<or> b)"
          unfolding Cons using False gl Inl by (subst walk_loop.simps) (simp add: visit_v1_def)
        moreover have "walk_result gl c S0 (Some e, ?S, out @ o', bad \<or> b)"
          using inv gl Inl unfolding Cons by (intro walk_inv_error) auto
        ultimately show ?thesis by blast
      next
        case (Inr ls)
        have "toCidV1 ` walk_reach gl c - ?S \<subset> toCidV1 ` walk_reach gl c - S"
          using k False by blast
        then have "card (toCidV1 ` walk_reach gl c - ?S) < card (toCidV1 ` walk_reach gl c - S)"
          using fin by (intro psubset_card_mono) auto
        moreover have "walk_inv gl c S0 (ls @ cs) ?S (out @ o') (bad \<or> b)"
          using inv gl Inr unfolding Cons by (intro walk_inv_expand) auto
        ultimately obtain r where
          "walk_loop gl visit_v1 (ls @ cs) ?S (out @ o') (bad \<or> b) = Some r" "walk_result gl c S0 r"
          using IH[of ?S "ls @ cs" "out @ o'" "bad \<or> b"] by auto
        moreover have "walk_loop gl visit_v1 st S out bad =
            walk_loop gl visit_v1 (ls @ cs) ?S (out @ o') (bad \<or> b)"
          unfolding Cons using False gl Inr by (subst walk_loop.simps) (simp add: visit_v1_def)
        ultimately show ?thesis by auto
      qed
    qed
  qed
qed

interpretation seq: dag_walk walk_seq
proof
  fix gl c S
  assume fin: "finite (walk_reach gl c)"
  have "walk_inv gl c S [c] S [] False" by (simp add: walk_inv_def)
  from walk_loop_correct[OF fin this] show "walk_result gl c S (walk_seq gl c visit_v1 S)"
    by (auto simp: walk_seq_def)
qed

section \<open>Reachability of blocks\<close>

definition block_links :: "gc_env \<Rightarrow> (cid \<times> cid) set" where
  "block_links env = {(a, b). \<exists>ls. get_links env a = Inr ls \<and> b \<in> set ls}"

definition block_reach :: "gc_env \<Rightarrow> cid \<Rightarrow> cid set" where
  "block_reach env c = {k. (c, k) \<in> (block_links env)\<^sup>*}"

text \<open>A CIDv0 and its CIDv1 form name the same block, hence the same links.\<close>

definition links_v1 :: "gc_env \<Rightarrow> bool" where
  "links_v1 env \<longleftrightarrow> (\<forall>c ls. get_links env (toCidV1 c) = Inr ls \<longleftrightarrow> get_links env c = Inr ls)"

text \<open>A marked set is closed when the links of every marked block are marked.\<close>

definition closed :: "gc_env \<Rightarrow> cid set \<Rightarrow> bool" where
  "closed env S \<longleftrightarrow> (\<forall>x \<in> S. \<forall>ls. get_links env x = Inr ls \<longrightarrow> toCidV1 ` set ls \<subseteq> S)"

text \<open>The two link getters agree with the block store wherever it answers.\<close>

definition faithful :: "gc_env \<Rightarrow> link_getter \<Rightarrow> bool" where
  "faithful env gl \<longleftrightarrow>
     (\<forall>k ls. get_links env k = Inr ls \<longrightarrow> gl k = (Inr ls, [], False)) \<and>
     (\<forall>k. links_of gl k \<subseteq> block_links env `` {k})"

lemma faithful_getLinks: "faithful env (getLinks env)"
  by (auto simp: faithful_def getLinks_def links_of_def block_links_def split: sum.splits)

lemma faithful_bestEffortGetLinks: "faithful env (bestEffortGetLinks env)"
  by (auto simp: faithful_def bestEffortGetLinks_def links_of_def block_links_def
      split: sum.splits gc_error.splits)

lemma block_reach_self [simp]: "c \<in> block_reach env c"
  by (simp add: block_reach_def)

lemma block_reach_subset:
  assumes "r \<in> A" and "\<And>a ls. a \<in> A \<Longrightarrow> get_links env a = Inr ls \<Longrightarrow> set ls \<subseteq> A"
  shows "block_reach env r \<subseteq> A"
proof
  fix y
  assume "y \<in> block_reach env r"
  then have "(r, y) \<in> (block_links env)\<^sup>*" by (simp add: block_reach_def)
  then show "y \<in> A" by induction (use assms in \<open>auto simp: block_links_def\<close>)
qed

lemma walk_reach_subset:
  assumes "faithful env gl"
  shows "walk_reach (verifyGetLinks env gl) c \<subseteq> block_reach env c"
proof -
  have "links_of (verifyGetLinks env gl) k \<subseteq> block_links env `` {k}" for k
    using assms by (auto simp: faithful_def links_of_def verifyGetLinks_def split: option.splits)
  then have "{(a, b). b \<in> links_of (verifyGetLinks env gl) a} \<subseteq> block_links env" by auto
  from rtrancl_mono[OF this] show ?thesis by (auto simp: walk_reach_def block_reach_def)
qed

lemma closed_reach:
  assumes "closed env S" and "links_v1 env" and "toCidV1 r \<in> S" and "y \<in> block_reach env r"
  shows "toCidV1 y \<in> S"
proof -
  have "(r, y) \<in> (block_links env)\<^sup>*" using assms(4) by (simp add: block_reach_def)
  then show ?thesis
  proof induction
    case base
    then show ?case by (rule assms(3))
  next
    case (step y z)
    then obtain ls where "get_links env (toCidV1 y) = Inr ls" "z \<in> set ls"
      using assms(2) by (auto simp: block_links_def links_v1_def)
    with step.IH assms(1) show ?case by (auto simp: closed_def)
  qed
qed

lemma expanded_closed:
  assumes "faithful env gl" and "links_v1 env" and "expanded (verifyGetLinks env gl) S out bad k"
    and "get_links env (toCidV1 k) = Inr ls"
  shows "toCidV1 ` set ls \<subseteq> S"
proof -
  have "gl k = (Inr ls, [], False)" using assms(1,2,4) by (simp add: faithful_def links_v1_def)
  with assms(3) show ?thesis
    by (auto simp: expanded_def verifyGetLinks_def split: option.splits)
qed

section \<open>Marking is complete and sound\<close>

context dag_walk
begin

lemma Descendants_ok:
  assumes "faithful env gl" and "\<forall>r \<in> set roots. finite (block_reach env r)"
    and "Descendants walk env gl S roots = (e, S', out, bad)"
  shows "S \<subseteq> S' \<and> S' \<subseteq> S \<union> toCidV1 ` (\<Union>r \<in> set roots. block_reach env r) \<and>
    (e = None \<longrightarrow> toCidV1 ` set roots \<subseteq> S' \<and>
      (\<forall>x \<in> S' - S. \<exists>k. toCidV1 k = x \<and> expanded (verifyGetLinks env gl) S' out bad k))"
  using assms(2,3)
proof (induction roots arbitrary: S e S' out bad)
  case Nil
  then show ?case by simp
next
  case (Cons c roots)
  let ?gl = "verifyGetLinks env gl"
  obtain e1 S1 out1 bad1 where w: "walk ?gl c visit_v1 S = (e1, S1, out1, bad1)"
    by (cases "walk ?gl c visit_v1 S") auto
  have sub: "walk_reach ?gl c \<subseteq> block_reach env c" using assms(1) by (rule walk_reach_subset)
  then have "finite (walk_reach ?gl c)" using Cons.prems(1) by (auto intro: finite_subset)
  from walk_spec[OF this, of S] have w0: "S1 \<subseteq> S \<union> toCidV1 ` walk_reach ?gl c"
    and w1: "S \<subseteq> S1"
    "e1 = None \<longrightarrow> toCidV1 c \<in> S1 \<and> (\<forall>x \<in> S1 - S. \<exists>k. toCidV1 k = x \<and> expanded ?gl S1 out1 bad1 k)"
    by (auto simp: walk_result_def w)
  have w2: "S1 \<subseteq> S \<union> toCidV1 ` block_reach env c" using w0 image_mono[OF sub, of toCidV1] by blast
  show ?case
  proof (cases e1)
    case (Some err)
    with Cons.prems(2) w w1(1) w2 show ?thesis by (auto simp: image_Un)
  next
    case None
    obtain e2 S2 out2 bad2 where d: "Descendants walk env gl S1 roots = (e2, S2, out2, bad2)"
      by (cases "Descendants walk env gl S1 roots") auto
    have res: "e = e2" "S' = S2" "out = out1 @ out2" "bad = (bad1 \<or> bad2)"
      using Cons.prems(2) w None d by auto
    have ih: "S1 \<subseteq> S2" "S2 \<subseteq> S1 \<union> toCidV1 ` (\<Union>r \<in> set roots. block_reach env r)"
      "e2 = None \<longrightarrow> toCidV1 ` set roots \<subseteq> S2 \<and>
        (\<forall>x \<in> S2 - S1. \<exists>k. toCidV1 k = x \<and> expanded ?gl S2 out2 bad2 k)"
      using Cons.IH[OF _ d] Cons.prems(1) by auto
    have w3: "\<forall>x \<in> S1 - S. \<exists>k. toCidV1 k = x \<and> expanded ?gl S1 out1 bad1 k"
      using w1(2) None by simp
    have "\<exists>k. toCidV1 k = x \<and> expanded ?gl S2 out bad k" if "e2 = None" "x \<in> S2 - S" for x
    proof (cases "x \<in> S1")
      case True
      with that have "x \<in> S1 - S" by simp
      with w3 obtain k where "toCidV1 k = x" "expanded ?gl S1 out1 bad1 k" by blast
      moreover have "expanded ?gl S2 out bad k"
        using calculation(2) ih(1) by (rule expanded_mono) (auto simp: res)
      ultimately show ?thesis by blast
    next
      case False
      with that have "x \<in> S2 - S1" by simp
      moreover have "\<forall>x \<in> S2 - S1. \<exists>k. toCidV1 k = x \<and> expanded ?gl S2 out2 bad2 k"
        using ih(3) that(1) by simp
      ultimately obtain k where "toCidV1 k = x" "expanded ?gl S2 out2 bad2 k" by blast
      moreover have "expanded ?gl S2 out bad k"
        using calculation(2) subset_refl by (rule expanded_mono) (auto simp: res)
      ultimately show ?thesis by blast
    qed
    moreover have "S' \<subseteq> S \<union> toCidV1 ` (\<Union>r \<in> set (c # roots). block_reach env r)"
      using ih(2) w2 res(2) by (auto simp: image_Un)
    ultimately show ?thesis
      using w1 ih(1,3) None unfolding res(1,2) by auto
  qed
qed

lemma Descendants_closed:
  assumes "faithful env gl" and "links_v1 env" and "\<forall>r \<in> set roots. finite (block_reach env r)"
    and "Descendants walk env gl S roots = (None, S', out, bad)" and "closed env S"
  shows "closed env S'"
  unfolding closed_def
proof (intro ballI allI impI)
  fix x ls
  assume x: "x \<in> S'" and ls: "get_links env x = Inr ls"
  note ok = Descendants_ok[OF assms(1,3,4)]
  show "toCidV1 ` set ls \<subseteq> S'"
  proof (cases "x \<in> S")
    case True
    then show ?thesis using assms(5) ls ok by (auto simp: closed_def)
  next
    case False
    then obtain k where "toCidV1 k = x" "expanded (verifyGetLinks env gl) S' out bad k"
      using x ok by blast
    then show ?thesis using expanded_closed[OF assms(1,2)] ls by blast
  qed
qed

end

text \<open>
  The phases of a successful \<^verbatim>\<open>ColoredSet\<close>: every \<^verbatim>\<open>Descendants\<close> ended without error and without
  raising the flag.
\<close>

lemma reportPhase_clean:
  "reportPhase env i r = Inr (S, out, False) \<Longrightarrow> r = (None, S, out, False)"
  by (cases r) (auto simp: reportPhase_def split: option.splits if_splits)

lemma ColoredSet_phases:
  assumes "ColoredSet walk env ber = (Inr S, out)"
  obtains rk dk ik S1 S2 o1 o2 o4 where
    "recursiveKeys env = Inr rk" "directKeys env = Inr dk" "internalPins env = Inr ik"
    "Descendants walk env (getLinks env) {} rk = (None, S1, o1, False)"
    "Descendants walk env (bestEffortGetLinks env) S1 ber = (None, S2, o2, False)"
    "Descendants walk env (getLinks env) (S2 \<union> toCidV1 ` set dk) ik = (None, S, o4, False)"
  using assms
  by (auto simp: ColoredSet_def Let_def split: sum.splits prod.splits if_splits dest!: reportPhase_clean)

definition mark_roots :: "gc_env \<Rightarrow> cid list \<Rightarrow> cid set" where
  "mark_roots env ber =
     (case recursiveKeys env of Inr rk \<Rightarrow> set rk | Inl e \<Rightarrow> {}) \<union> set ber"

definition pin_keys :: "gc_env \<Rightarrow> cid set" where
  "pin_keys env =
     (case directKeys env of Inr dk \<Rightarrow> set dk | Inl e \<Rightarrow> {}) \<union>
     (case internalPins env of Inr ik \<Rightarrow> set ik | Inl e \<Rightarrow> {})"

text \<open>Everything the marking phase may fetch is finite: the block store is.\<close>

definition finite_env :: "gc_env \<Rightarrow> cid list \<Rightarrow> bool" where
  "finite_env env ber \<longleftrightarrow> (\<forall>r \<in> mark_roots env ber \<union> pin_keys env. finite (block_reach env r))"

text \<open>
  What a collection must keep: all descendants of recursive pins and best-effort roots, the
  direct pins and the internal pins.
\<close>

definition live :: "gc_env \<Rightarrow> cid list \<Rightarrow> cid set" where
  "live env ber = (\<Union>r \<in> mark_roots env ber. block_reach env r) \<union> pin_keys env"

lemma closed_empty [simp]: "closed env {}"
  by (simp add: closed_def)

context dag_walk
begin

lemma ColoredSet_marks:
  assumes "links_v1 env" and "finite_env env ber" and "ColoredSet walk env ber = (Inr S, out)"
  shows "toCidV1 ` live env ber \<subseteq> S"
proof -
  from ColoredSet_phases[OF assms(3)] obtain rk dk ik S1 S2 o1 o2 o4 where
    keys: "recursiveKeys env = Inr rk" "directKeys env = Inr dk" "internalPins env = Inr ik"
    and d1: "Descendants walk env (getLinks env) {} rk = (None, S1, o1, False)"
    and d2: "Descendants walk env (bestEffortGetLinks env) S1 ber = (None, S2, o2, False)"
    and d3: "Descendants walk env (getLinks env) (S2 \<union> toCidV1 ` set dk) ik = (None, S, o4, False)"
    by metis
  have fin: "\<forall>r \<in> set rk. finite (block_reach env r)" "\<forall>r \<in> set ber. finite (block_reach env r)"
    "\<forall>r \<in> set ik. finite (block_reach env r)"
    using assms(2) keys by (auto simp: finite_env_def mark_roots_def pin_keys_def)
  note ok1 = Descendants_ok[OF faithful_getLinks fin(1) d1]
  note ok2 = Descendants_ok[OF faithful_bestEffortGetLinks fin(2) d2]
  note ok3 = Descendants_ok[OF faithful_getLinks fin(3) d3]
  have c1: "closed env S1"
    using Descendants_closed[OF faithful_getLinks assms(1) fin(1) d1] by simp
  have c2: "closed env S2"
    by (rule Descendants_closed[OF faithful_bestEffortGetLinks assms(1) fin(2) d2 c1])
  have roots: "toCidV1 r \<in> S2" if "r \<in> set rk \<union> set ber" for r
    using that ok1 ok2 by auto
  have "toCidV1 y \<in> S2" if "r \<in> set rk \<union> set ber" "y \<in> block_reach env r" for r y
    using closed_reach[OF c2 assms(1) roots[OF that(1)] that(2)] .
  moreover have "S2 \<subseteq> S" "toCidV1 ` set dk \<subseteq> S" "toCidV1 ` set ik \<subseteq> S" using ok3 by auto
  ultimately show ?thesis
    using keys by (auto simp: live_def mark_roots_def pin_keys_def)
qed

lemma ColoredSet_only:
  assumes "finite_env env ber" and "ColoredSet walk env ber = (Inr S, out)"
  shows "S \<subseteq> toCidV1 ` (\<Union>r \<in> mark_roots env ber \<union> pin_keys env. block_reach env r)"
proof -
  from ColoredSet_phases[OF assms(2)] obtain rk dk ik S1 S2 o1 o2 o4 where
    keys: "recursiveKeys env = Inr rk" "directKeys env = Inr dk" "internalPins env = Inr ik"
    and d1: "Descendants walk env (getLinks env) {} rk = (None, S1, o1, False)"
    and d2: "Descendants walk env (bestEffortGetLinks env) S1 ber = (None, S2, o2, False)"
    and d3: "Descendants walk env (getLinks env) (S2 \<union> toCidV1 ` set dk) ik = (None, S, o4, False)"
    by metis
  have fin: "\<forall>r \<in> set rk. finite (block_reach env r)" "\<forall>r \<in> set ber. finite (block_reach env r)"
    "\<forall>r \<in> set ik. finite (block_reach env r)"
    using assms(1) keys by (auto simp: finite_env_def mark_roots_def pin_keys_def)
  have "S1 \<subseteq> toCidV1 ` (\<Union>r \<in> set rk. block_reach env r)"
    using Descendants_ok[OF faithful_getLinks fin(1) d1] by auto
  moreover have "S2 \<subseteq> S1 \<union> toCidV1 ` (\<Union>r \<in> set ber. block_reach env r)"
    using Descendants_ok[OF faithful_bestEffortGetLinks fin(2) d2] by auto
  moreover have "S \<subseteq> S2 \<union> toCidV1 ` set dk \<union> toCidV1 ` (\<Union>r \<in> set ik. block_reach env r)"
    using Descendants_ok[OF faithful_getLinks fin(3) d3] by auto
  moreover have "set dk \<subseteq> (\<Union>r \<in> set dk. block_reach env r)" by auto
  ultimately show ?thesis
    using keys unfolding mark_roots_def pin_keys_def by fastforce
qed

text \<open>A successful marking has fetched the links of everything below a recursive pin.\<close>

lemma ColoredSet_fetched:
  assumes "links_v1 env" and "finite_env env ber" and "ColoredSet walk env ber = (Inr S, out)"
    and "recursiveKeys env = Inr rk" and "r \<in> set rk" and "y \<in> block_reach env r"
  shows "\<exists>ls. get_links env y = Inr ls"
proof -
  from ColoredSet_phases[OF assms(3)] assms(4) obtain S1 o1 where
    d1: "Descendants walk env (getLinks env) {} rk = (None, S1, o1, False)" by (metis sum.inject(2))
  have fin: "\<forall>r \<in> set rk. finite (block_reach env r)"
    using assms(2,4) by (auto simp: finite_env_def mark_roots_def)
  note ok = Descendants_ok[OF faithful_getLinks fin d1]
  have "closed env S1" using Descendants_closed[OF faithful_getLinks assms(1) fin d1] by simp
  then have "toCidV1 y \<in> S1" using closed_reach assms(1,5,6) ok by blast
  then obtain k where k: "toCidV1 k = toCidV1 y"
    "expanded (verifyGetLinks env (getLinks env)) S1 o1 False k" using ok by auto
  then obtain ls where "get_links env k = Inr ls"
    by (auto simp: expanded_def verifyGetLinks_def getLinks_def split: option.splits sum.splits if_splits)
  then show ?thesis using k(1) assms(1) by (metis links_v1_def)
qed

end

section \<open>Sweeping\<close>

lemma sweep_keeps:
  "sweep env gcs i ks store = (store', out, errs) \<Longrightarrow> k \<in> gcs \<Longrightarrow> k \<in> set store \<Longrightarrow> k \<in> set store'"
  by (induction env gcs i ks store arbitrary: store' out errs rule: sweep.induct)
    (auto simp: Let_def split: if_splits option.splits prod.splits)

lemma sweep_subset: "sweep env gcs i ks store = (store', out, errs) \<Longrightarrow> set store' \<subseteq> set store"
  by (induction env gcs i ks store arbitrary: store' out errs rule: sweep.induct)
    (fastforce simp: Let_def split: if_splits option.splits prod.splits)+

lemma sweep_all:
  assumes "\<forall>p. \<not> ctx_done env p" and "\<forall>k. deleteBlock env k = None"
  shows "sweep env gcs i ks store =
    (filter (\<lambda>b. b \<in> gcs \<or> b \<notin> set ks) store, map KeyRemoved (filter (\<lambda>k. k \<notin> gcs) ks), False)"
  using assms
proof (induction env gcs i ks store rule: sweep.induct)
  case (1 env gcs i store)
  then show ?case by simp
next
  case (2 env gcs i k ks store)
  have "filter (\<lambda>b. b \<in> gcs \<or> b \<notin> set ks) (removeAll k store) =
      filter (\<lambda>b. b \<in> gcs \<or> b \<notin> set (k # ks)) store" if "k \<notin> gcs"
    using that by (auto simp: removeAll_filter_not_eq intro!: filter_cong)
  moreover have "filter (\<lambda>b. b \<in> gcs \<or> b \<notin> set ks) store =
      filter (\<lambda>b. b \<in> gcs \<or> b \<notin> set (k # ks)) store" if "k \<in> gcs"
    using that by (auto intro!: filter_cong)
  ultimately show ?case using 2 by (auto simp: Let_def)
qed

lemma GC_keeps_live:
  assumes "dag_walk walk" and "links_v1 env" and "finite_env env ber"
    and "y \<in> live env ber" and "rawCid y \<in> set store"
  shows "rawCid y \<in> set (snd (GC walk env ber store))"
proof (cases "ColoredSet walk env ber")
  case (Pair res out)
  show ?thesis
  proof (cases res)
    case (Inl e)
    with Pair assms(5) show ?thesis by (simp add: GC_def)
  next
    case (Inr S)
    have "toCidV1 y \<in> S" using dag_walk.ColoredSet_marks[OF assms(1-3)] Pair Inr assms(4) by auto
    then have "rawCid y \<in> toRawCids S" unfolding toRawCids_def by (metis image_eqI rawCid_toCidV1)
    then show ?thesis
      using Pair Inr assms(5)
      by (auto simp: GC_def Let_def split: sum.splits prod.splits if_splits dest: sweep_keeps)
  qed
qed

section \<open>Properties\<close>

text \<open>A small store for the witnesses: a pinned root with one child, and an unrelated block.\<close>

definition dagPb :: nat where "dagPb = 0x70"

definition mk :: "string \<Rightarrow> cid" where
  "mk h = NewCidV1 dagPb h"

definition ex_links :: "cid \<Rightarrow> gc_error + cid list" where
  "ex_links c = (if cid_hash c = ''root'' then Inr [mk ''child''] else Inr [])"

definition ex_env :: gc_env where
  "ex_env = \<lparr>get_links = ex_links, validateCid = (\<lambda>_. None), insecureHash = (\<lambda>_. False),
     recursiveKeys = Inr [mk ''root''], directKeys = Inr [mk ''direct''], internalPins = Inr [],
     allKeys = Inr (map rawCid [mk ''root'', mk ''child'', mk ''direct'', mk ''junk'']),
     deleteBlock = (\<lambda>_. None), collectGarbage = None, ctx_done = (\<lambda>_. False)\<rparr>"

lemma ex_reach: "get_links env = ex_links \<Longrightarrow> block_reach env c \<subseteq> {c, mk ''child''}"
  by (rule block_reach_subset) (auto simp: ex_links_def mk_def NewCidV1_def split: if_splits)

lemma ex_finite: "get_links env = ex_links \<Longrightarrow> finite_env env ber"
  unfolding finite_env_def using finite_subset[OF ex_reach] by blast

lemma ex_links_v1: "get_links env = ex_links \<Longrightarrow> links_v1 env"
  by (simp add: links_v1_def ex_links_def toCidV1_def NewCidV1_def)

lemma ex_child_reach: "get_links env = ex_links \<Longrightarrow> mk ''child'' \<in> block_reach env (mk ''root'')"
  by (auto simp: block_reach_def block_links_def ex_links_def mk_def NewCidV1_def intro!: r_into_rtrancl)



text \<open>
  The marked set is exact up to the documented roots: it contains the CIDv1 form of every live
  block, nothing that is not reachable from some pin or root, and a successful marking has
  retrieved the links of every block below a recursive pin.
\<close>

theorem ColoredSet_exact:
  assumes "dag_walk walk" and "links_v1 env" and "finite_env env ber"
    and "ColoredSet walk env ber = (Inr S, out)"
  shows "toCidV1 ` live env ber \<subseteq> S \<and>
    S \<subseteq> toCidV1 ` (\<Union>r \<in> mark_roots env ber \<union> pin_keys env. block_reach env r) \<and>
    (\<forall>rk r y. recursiveKeys env = Inr rk \<and> r \<in> set rk \<and> y \<in> block_reach env r \<longrightarrow>
       (\<exists>ls. get_links env y = Inr ls))"
  using dag_walk.ColoredSet_marks[OF assms] dag_walk.ColoredSet_only[OF assms(1,3,4)]
    dag_walk.ColoredSet_fetched[OF assms] by blast

lemma ex_colored:
  "ColoredSet walk_seq ex_env [] = (Inr {mk ''direct'', mk ''child'', mk ''root''}, [])"
  by (simp add: ColoredSet_def ex_env_def reportPhase_def walk_seq_def walk_loop.simps visit_v1_def
      verifyGetLinks_def getLinks_def ex_links_def toCidV1_def mk_def NewCidV1_def insert_commute)

theorem ColoredSet_exact_witness:
  "toCidV1 ` live ex_env [] \<subseteq> {mk ''direct'', mk ''child'', mk ''root''} \<and>
    {mk ''direct'', mk ''child'', mk ''root''} \<subseteq>
      toCidV1 ` (\<Union>r \<in> mark_roots ex_env [] \<union> pin_keys ex_env. block_reach ex_env r)"
proof -
  have "get_links ex_env = ex_links" by (simp add: ex_env_def)
  from ColoredSet_exact[OF seq.dag_walk_axioms ex_links_v1[OF this] ex_finite[OF this] ex_colored] show ?thesis
    by blast
qed

text \<open>
  When marking succeeds and nothing fails or is cancelled, \<^verbatim>\<open>GC\<close> removes exactly the listed
  keys that are not marked, reports each removal once in the order of the listing, and keeps
  every other block.
\<close>

theorem GC_removes:
  assumes "ColoredSet walk env ber = (Inr S, out)" and "allKeys env = Inr keys"
    and "\<forall>p. \<not> ctx_done env p" and "\<forall>k. deleteBlock env k = None"
    and "collectGarbage env = None \<or> collectGarbage env = Some None"
  shows "GC walk env ber store =
    (out @ map KeyRemoved (filter (\<lambda>k. k \<notin> toRawCids S) keys),
     filter (\<lambda>b. b \<in> toRawCids S \<or> b \<notin> set keys) store)"
  using assms(1,2,5) sweep_all[OF assms(3,4)] by (auto simp: GC_def Let_def collect_def)

theorem GC_removes_witness:
  "GC walk_seq ex_env [] (map rawCid [mk ''root'', mk ''child'', mk ''direct'', mk ''junk'']) =
    ([] @ map KeyRemoved (filter (\<lambda>k. k \<notin> toRawCids {mk ''direct'', mk ''child'', mk ''root''})
        (map rawCid [mk ''root'', mk ''child'', mk ''direct'', mk ''junk''])),
     filter (\<lambda>b. b \<in> toRawCids {mk ''direct'', mk ''child'', mk ''root''} \<or>
         b \<notin> set (map rawCid [mk ''root'', mk ''child'', mk ''direct'', mk ''junk'']))
       (map rawCid [mk ''root'', mk ''child'', mk ''direct'', mk ''junk'']))"
  by (rule GC_removes[OF ex_colored]) (simp_all add: ex_env_def)

text \<open>
  C37. If the links of some block below a recursive pin cannot be retrieved, the collection is
  aborted: no block is removed, and the error is the last result unless the context is done.
\<close>

theorem GC_abort_on_missing_links:
  assumes "dag_walk walk" and "links_v1 env" and "finite_env env ber"
    and "recursiveKeys env = Inr rk" and "r \<in> set rk" and "y \<in> block_reach env r"
    and "get_links env y = Inl e"
  shows "snd (GC walk env ber store) = store \<and>
    (\<exists>err out. ColoredSet walk env ber = (Inl err, out) \<and>
       (\<not> ctx_done env (PtFinal 0) \<longrightarrow> last (fst (GC walk env ber store)) = GCError err))"
proof (cases "ColoredSet walk env ber")
  case (Pair res out)
  show ?thesis
  proof (cases res)
    case (Inl err)
    with Pair show ?thesis by (auto simp: GC_def emitErr_def)
  next
    case (Inr S)
    then have "\<exists>ls. get_links env y = Inr ls"
      using dag_walk.ColoredSet_fetched[OF assms(1-3)] Pair assms(4-6) by blast
    with assms(7) show ?thesis by simp
  qed
qed

definition ex_broken :: gc_env where
  "ex_broken = ex_env\<lparr>get_links := (\<lambda>c. if cid_hash c = ''root'' then Inl (FetchError ''io'') else Inr [])\<rparr>"

lemma ex_broken_reach: "block_reach ex_broken c \<subseteq> {c}"
  by (rule block_reach_subset) (auto simp: ex_broken_def ex_env_def split: if_splits)

theorem GC_abort_on_missing_links_witness:
  "snd (GC walk_seq ex_broken [] [rawCid (mk ''junk'')]) = [rawCid (mk ''junk'')] \<and>
    (\<exists>err. last (fst (GC walk_seq ex_broken [] [rawCid (mk ''junk'')])) = GCError err)"
proof -
  have "links_v1 ex_broken"
    by (simp add: links_v1_def ex_broken_def ex_env_def toCidV1_def NewCidV1_def)
  moreover have "finite_env ex_broken []"
    unfolding finite_env_def using finite_subset[OF ex_broken_reach] by blast
  moreover have "recursiveKeys ex_broken = Inr [mk ''root'']" by (simp add: ex_broken_def ex_env_def)
  moreover have "get_links ex_broken (mk ''root'') = Inl (FetchError ''io'')"
    by (simp add: ex_broken_def mk_def NewCidV1_def)
  moreover have "\<not> ctx_done ex_broken (PtFinal 0)" by (simp add: ex_broken_def ex_env_def)
  ultimately show ?thesis
    using GC_abort_on_missing_links[OF seq.dag_walk_axioms, of ex_broken "[]" "[mk ''root'']" "mk ''root''" "mk ''root''"]
    by auto
qed

definition ex_internal :: gc_env where
  "ex_internal = ex_env\<lparr>recursiveKeys := Inr [], directKeys := Inr [mk ''root''],
     internalPins := Inr [mk ''root''], allKeys := Inr (map rawCid [mk ''root'', mk ''child''])\<rparr>"

text \<open>
  Direct pins are marked before the internal pins are walked, and the walk does not descend
  below a key that is already marked.  So when an internal pin is also directly pinned, its
  descendants are not marked although the source says that all blocks used internally by the
  pinner are: in this store the child of the internal pin is deleted.
\<close>

theorem GC_internal_pin_gap:
  "mk ''child'' \<in> block_reach ex_internal (mk ''root'') \<and> internalPins ex_internal = Inr [mk ''root''] \<and>
   GC walk_seq ex_internal [] (map rawCid [mk ''root'', mk ''child'']) =
     ([KeyRemoved (rawCid (mk ''child''))], [rawCid (mk ''root'')])"
proof -
  have "ColoredSet walk_seq ex_internal [] = (Inr {mk ''root''}, [])"
    by (simp add: ColoredSet_def ex_internal_def ex_env_def reportPhase_def walk_seq_def
        walk_loop.simps visit_v1_def toCidV1_def mk_def NewCidV1_def)
  then have "GC walk_seq ex_internal [] (map rawCid [mk ''root'', mk ''child'']) =
     ([KeyRemoved (rawCid (mk ''child''))], [rawCid (mk ''root'')])"
    by (simp add: GC_def ex_internal_def ex_env_def toRawCids_def collect_def mk_def rawCid_def
        NewCidV1_def Let_def)
  moreover have "mk ''child'' \<in> block_reach ex_internal (mk ''root'')"
    by (rule ex_child_reach) (simp add: ex_internal_def ex_env_def)
  ultimately show ?thesis by (simp add: ex_internal_def)
qed

end
