(* ===== verification/RepoGC.thy ===== *)
theory RepoGC
  imports GC
begin

text \<open>
  The repository's collector: \<^verbatim>\<open>src/core/corerepo/gc.go\<close>.  It derives the storage limits from the
  configuration, decides when to run \<^verbatim>\<open>gc.GC\<close> and gathers its results.  Sizes are unsigned 64-bit
  words, so products and sums wrap as in the code.  \<^verbatim>\<open>humanize.ParseBytes\<close>, \<^verbatim>\<open>time.ParseDuration\<close>
  and the configuration file behind \<^verbatim>\<open>SetConfigKey\<close> are parameters.
\<close>

section \<open>Errors\<close>

datatype repo_error =
    ErrGC gc_error
  | ErrCtx
  | ErrConfig string
  | ErrParse string
  | ErrRoots string
  | ErrUsage string
  | MultiError "repo_error list" repo_error

text \<open>\<^verbatim>\<open>NewMultiError(errs...)\<close> splits off the last error; the caller passes at least two.\<close>

definition NewMultiError :: "repo_error list \<Rightarrow> repo_error" where
  "NewMultiError errs = MultiError (butlast errs) (last errs)"

text \<open>The text of a \<^verbatim>\<open>MultiError\<close>, given the text of its parts.\<close>

definition MultiError_Error :: "(repo_error \<Rightarrow> string) \<Rightarrow> repo_error list \<Rightarrow> repo_error \<Rightarrow> string" where
  "MultiError_Error str errs summary = concat (map (\<lambda>e. str e @ ''; '') errs) @ str summary"

section \<open>Limits\<close>

record datastore_cfg =
  StorageMax :: string
  StorageGCWatermark :: int
  GCPeriod :: string

record gc_limits =
  gc_StorageMax :: u64
  gc_StorageGC :: u64
  gc_SlackGB :: u64

text \<open>
  \<^verbatim>\<open>NewGC\<close>: missing settings are written to the configuration and filled in.  \<open>setKey\<close> is
  \<^verbatim>\<open>r.SetConfigKey\<close> (an error or success), \<open>parseBytes\<close> is \<^verbatim>\<open>humanize.ParseBytes\<close>.  The result
  carries the settings as the code leaves them in \<^verbatim>\<open>cfg\<close>.
\<close>

definition NewGC ::
    "(string \<Rightarrow> string \<Rightarrow> repo_error option) \<Rightarrow> (string \<Rightarrow> repo_error + u64) \<Rightarrow>
     datastore_cfg \<Rightarrow> repo_error + (gc_limits \<times> datastore_cfg)" where
  "NewGC setKey parseBytes cfg =
     (case (if StorageMax cfg = [] then setKey ''Datastore.StorageMax'' ''10GB'' else None) of
        Some e \<Rightarrow> Inl e
      | None \<Rightarrow>
     (let cfg1 = (if StorageMax cfg = [] then cfg\<lparr>StorageMax := ''10GB''\<rparr> else cfg) in
      case (if StorageGCWatermark cfg1 = 0 then setKey ''Datastore.StorageGCWatermark'' ''90'' else None) of
        Some e \<Rightarrow> Inl e
      | None \<Rightarrow>
     (let cfg2 = (if StorageGCWatermark cfg1 = 0 then cfg1\<lparr>StorageGCWatermark := 90\<rparr> else cfg1) in
      case parseBytes (StorageMax cfg2) of
        Inl e \<Rightarrow> Inl e
      | Inr storageMax \<Rightarrow>
          (let storageGC = storageMax * word_of_int (StorageGCWatermark cfg2) div 100;
               slackGB = (storageMax - storageGC) div 10000000000;
               slackGB = (if slackGB < 1 then 1 else slackGB)
           in Inr (\<lparr>gc_StorageMax = storageMax, gc_StorageGC = storageGC, gc_SlackGB = slackGB\<rparr>, cfg2)))))"

section \<open>Collecting results\<close>

text \<open>
  What \<^verbatim>\<open>CollectResult\<close> can receive: a result, the end of the channel, or the end of its context.
\<close>

datatype recv = Recv gc_result | Closed | CtxDone

text \<open>The loop: the errors in order and the keys the callback was called with.\<close>

fun collect_loop :: "recv list \<Rightarrow> repo_error list \<times> cid list" where
  "collect_loop [] = ([], [])"
| "collect_loop (Closed # rs) = ([], [])"
| "collect_loop (CtxDone # rs) = ([ErrCtx], [])"
| "collect_loop (Recv (GCError e) # rs) = (case collect_loop rs of (es, ks) \<Rightarrow> (ErrGC e # es, ks))"
| "collect_loop (Recv (KeyRemoved k) # rs) = (case collect_loop rs of (es, ks) \<Rightarrow> (es, k # ks))"

definition CollectResult :: "recv list \<Rightarrow> repo_error option \<times> cid list" where
  "CollectResult rs =
     (case collect_loop rs of (errs, ks) \<Rightarrow>
        ((case errs of [] \<Rightarrow> None | [e] \<Rightarrow> Some e | _ \<Rightarrow> Some (NewMultiError errs)), ks))"

section \<open>Running the collector\<close>

definition BestEffortRoots :: "repo_error + cid \<Rightarrow> repo_error + cid list" where
  "BestEffortRoots rootDag = (case rootDag of Inl e \<Rightarrow> Inl e | Inr c \<Rightarrow> Inr [c])"

text \<open>
  The node: the MFS root, the collector's environment and the blocks in the store.  The results
  of \<^verbatim>\<open>gc.GC\<close> arrive in order; \<open>limit\<close> is how many are received before the caller's context
  ends, if it does.
\<close>

record node =
  nd_root :: "repo_error + cid"
  nd_env :: gc_env
  nd_store :: "cid list"
  nd_limit :: "nat option"

definition received :: "nat option \<Rightarrow> gc_result list \<Rightarrow> recv list" where
  "received limit out =
     (case limit of
        None \<Rightarrow> map Recv out @ [Closed]
      | Some n \<Rightarrow> if n \<le> length out then map Recv (take n out) @ [CtxDone] else map Recv out @ [Closed])"

definition GarbageCollect :: "walker \<Rightarrow> node \<Rightarrow> repo_error option \<times> node" where
  "GarbageCollect walk n =
     (case BestEffortRoots (nd_root n) of
        Inl e \<Rightarrow> (Some e, n)
      | Inr roots \<Rightarrow>
          (case GC walk (nd_env n) roots (nd_store n) of (out, store') \<Rightarrow>
             (fst (CollectResult (received (nd_limit n) out)), n\<lparr>nd_store := store'\<rparr>)))"

text \<open>
  \<^verbatim>\<open>GarbageCollectAsync\<close>.  When the roots cannot be read, the code sends on an unbuffered channel
  that nobody can receive from yet, so the call does not return: \<open>None\<close>.
\<close>

definition GarbageCollectAsync :: "walker \<Rightarrow> node \<Rightarrow> (gc_result list \<times> node) option" where
  "GarbageCollectAsync walk n =
     (case BestEffortRoots (nd_root n) of
        Inl e \<Rightarrow> None
      | Inr roots \<Rightarrow>
          (case GC walk (nd_env n) roots (nd_store n) of (out, store') \<Rightarrow>
             Some (out, n\<lparr>nd_store := store'\<rparr>)))"

definition maybeGC ::
    "walker \<Rightarrow> gc_limits \<Rightarrow> repo_error + u64 \<Rightarrow> u64 \<Rightarrow> node \<Rightarrow> repo_error option \<times> node" where
  "maybeGC walk lim usage offset n =
     (case usage of
        Inl e \<Rightarrow> (Some e, n)
      | Inr storage \<Rightarrow>
          if storage + offset > gc_StorageGC lim then GarbageCollect walk n else (None, n))"

definition ConditionalGC ::
    "walker \<Rightarrow> (string \<Rightarrow> string \<Rightarrow> repo_error option) \<Rightarrow> (string \<Rightarrow> repo_error + u64) \<Rightarrow>
     datastore_cfg \<Rightarrow> repo_error + u64 \<Rightarrow> u64 \<Rightarrow> node \<Rightarrow> repo_error option \<times> node" where
  "ConditionalGC walk setKey parseBytes cfg usage offset n =
     (case NewGC setKey parseBytes cfg of
        Inl e \<Rightarrow> (Some e, n)
      | Inr (lim, cfg') \<Rightarrow> maybeGC walk lim usage offset n)"

text \<open>
  The endless loop of \<^verbatim>\<open>PeriodicGC\<close>: at each tick one \<^verbatim>\<open>maybeGC\<close> with the storage usage of that
  moment, its error only logged; it ends when the context does.
\<close>

datatype tick = Tick "repo_error + u64" | Stop

fun periodic_loop :: "walker \<Rightarrow> gc_limits \<Rightarrow> tick list \<Rightarrow> node \<Rightarrow> repo_error list \<times> node" where
  "periodic_loop walk lim [] n = ([], n)"
| "periodic_loop walk lim (Stop # ts) n = ([], n)"
| "periodic_loop walk lim (Tick usage # ts) n =
     (case maybeGC walk lim usage 0 n of (e, n') \<Rightarrow>
        (case periodic_loop walk lim ts n' of (es, n'') \<Rightarrow>
           ((case e of None \<Rightarrow> es | Some err \<Rightarrow> err # es), n'')))"

definition PeriodicGC ::
    "walker \<Rightarrow> (string \<Rightarrow> string \<Rightarrow> repo_error option) \<Rightarrow> (string \<Rightarrow> repo_error + u64) \<Rightarrow>
     (string \<Rightarrow> repo_error + int) \<Rightarrow> repo_error + datastore_cfg \<Rightarrow> tick list \<Rightarrow> node \<Rightarrow>
     repo_error option \<times> repo_error list \<times> node" where
  "PeriodicGC walk setKey parseBytes parseDuration rcfg ticks n =
     (case rcfg of
        Inl e \<Rightarrow> (Some e, [], n)
      | Inr cfg \<Rightarrow>
          (let cfg1 = (if GCPeriod cfg = [] then cfg\<lparr>GCPeriod := ''1h''\<rparr> else cfg) in
           case parseDuration (GCPeriod cfg1) of
             Inl e \<Rightarrow> (Some e, [], n)
           | Inr period \<Rightarrow>
               if period = 0 then (None, [], n)
               else (case NewGC setKey parseBytes cfg1 of
                       Inl e \<Rightarrow> (Some e, [], n)
                     | Inr (lim, cfg2) \<Rightarrow>
                         (case periodic_loop walk lim ticks n of (es, n') \<Rightarrow> (None, es, n')))))"

section \<open>Lemmas\<close>

lemma collect_loop_all:
  "collect_loop (map Recv out @ [Closed]) =
     (map ErrGC (List.map_filter (\<lambda>r. case r of GCError e \<Rightarrow> Some e | _ \<Rightarrow> None) out),
      List.map_filter (\<lambda>r. case r of KeyRemoved k \<Rightarrow> Some k | _ \<Rightarrow> None) out)"
proof (induction out)
  case Nil
  then show ?case by (simp add: map_filter_simps)
next
  case (Cons r out)
  then show ?case by (cases r) (simp_all add: map_filter_simps)
qed

lemma GarbageCollect_env: "GarbageCollect walk n = (e, n') \<Longrightarrow> nd_env n' = nd_env n \<and> nd_root n' = nd_root n"
  by (auto simp: GarbageCollect_def split: sum.splits prod.splits)

lemma maybeGC_env: "maybeGC walk lim u off n = (e, n') \<Longrightarrow> nd_env n' = nd_env n \<and> nd_root n' = nd_root n"
  by (auto simp: maybeGC_def split: sum.splits if_splits dest: GarbageCollect_env)

definition node_ok :: "node \<Rightarrow> bool" where
  "node_ok n \<longleftrightarrow> links_v1 (nd_env n) \<and>
     (\<forall>roots. BestEffortRoots (nd_root n) = Inr roots \<longrightarrow> finite_env (nd_env n) roots)"

definition node_live :: "node \<Rightarrow> cid set" where
  "node_live n = (case BestEffortRoots (nd_root n) of Inl e \<Rightarrow> {} | Inr roots \<Rightarrow> live (nd_env n) roots)"

lemma node_ok_cong: "nd_env n' = nd_env n \<Longrightarrow> nd_root n' = nd_root n \<Longrightarrow> node_ok n' = node_ok n"
  by (simp add: node_ok_def)

lemma node_live_cong: "nd_env n' = nd_env n \<Longrightarrow> nd_root n' = nd_root n \<Longrightarrow> node_live n' = node_live n"
  by (simp add: node_live_def split: sum.splits)

lemma GarbageCollect_keeps:
  assumes "dag_walk walk" and "node_ok n" and "y \<in> node_live n" and "rawCid y \<in> set (nd_store n)"
    and "GarbageCollect walk n = (e, n')"
  shows "rawCid y \<in> set (nd_store n')"
proof (cases "BestEffortRoots (nd_root n)")
  case (Inl err)
  with assms(4,5) show ?thesis by (simp add: GarbageCollect_def)
next
  case (Inr roots)
  with assms(2,3) have "links_v1 (nd_env n)" "finite_env (nd_env n) roots" "y \<in> live (nd_env n) roots"
    by (auto simp: node_ok_def node_live_def)
  from GC_keeps_live[OF assms(1) this assms(4)] Inr assms(5) show ?thesis
    by (auto simp: GarbageCollect_def split: prod.splits)
qed

lemma maybeGC_keeps:
  assumes "dag_walk walk" and "node_ok n" and "y \<in> node_live n" and "rawCid y \<in> set (nd_store n)"
    and "maybeGC walk lim u off n = (e, n')"
  shows "rawCid y \<in> set (nd_store n')"
  using assms GarbageCollect_keeps[OF assms(1-4)]
  by (auto simp: maybeGC_def split: sum.splits if_splits)

lemma periodic_loop_keeps:
  assumes "dag_walk walk"
  shows "node_ok n \<Longrightarrow> y \<in> node_live n \<Longrightarrow> rawCid y \<in> set (nd_store n) \<Longrightarrow>
    rawCid y \<in> set (nd_store (snd (periodic_loop walk lim ts n)))"
proof (induction ts arbitrary: n)
  case Nil
  then show ?case by simp
next
  case (Cons t ts)
  show ?case
  proof (cases t)
    case (Tick usage)
    obtain e n' where m: "maybeGC walk lim usage 0 n = (e, n')" by (cases "maybeGC walk lim usage 0 n")
    have env: "nd_env n' = nd_env n" "nd_root n' = nd_root n" using maybeGC_env[OF m] by auto
    have "rawCid y \<in> set (nd_store n')" by (rule maybeGC_keeps[OF assms Cons.prems m])
    moreover have "node_ok n'" "y \<in> node_live n'"
      using Cons.prems node_ok_cong[OF env] node_live_cong[OF env] by simp_all
    ultimately have "rawCid y \<in> set (nd_store (snd (periodic_loop walk lim ts n')))"
      by (intro Cons.IH)
    then show ?thesis using m Tick by (auto split: prod.splits)
  next
    case Stop
    then show ?thesis using Cons.prems(3) by simp
  qed
qed

lemma NewGC_SomeD:
  assumes "NewGC setKey parseBytes cfg = Inr (lim, cfg')"
  shows "parseBytes (StorageMax cfg') = Inr (gc_StorageMax lim) \<and>
    gc_StorageGC lim = gc_StorageMax lim * word_of_int (StorageGCWatermark cfg') div 100 \<and>
    1 \<le> gc_SlackGB lim \<and> StorageMax cfg' \<noteq> [] \<and> StorageGCWatermark cfg' \<noteq> 0"
proof -
  have one: "1 \<le> x" if "x \<noteq> 0" for x :: u64
    using that by (metis not_less word_less_1)
  show ?thesis
    using assms unfolding NewGC_def Let_def
    by (auto simp: one split: option.splits sum.splits if_splits)
qed

section \<open>Properties\<close>


definition ex_node :: node where
  "ex_node = \<lparr>nd_root = Inr (mk ''mfs''), nd_env = ex_env, nd_store = map rawCid [mk ''child'', mk ''junk''],
     nd_limit = None\<rparr>"


text \<open>
  \<^verbatim>\<open>maybeGC\<close> runs the collector exactly when the storage in use plus the announced offset exceeds
  the watermark; below it, and when the usage cannot be read, the node is left as it is.
\<close>

theorem maybeGC_iff:
  "maybeGC walk lim usage offset n =
     (if \<exists>s. usage = Inr s \<and> gc_StorageGC lim < s + offset then GarbageCollect walk n
      else (case usage of Inl e \<Rightarrow> Some e | Inr s \<Rightarrow> None, n))"
  by (auto simp: maybeGC_def split: sum.splits)

text \<open>
  The watermark is the configured percentage of the maximum whenever the product fits in 64
  bits: it is rounded down, never above the maximum, and the slack is at least one.
\<close>

theorem NewGC_watermark:
  assumes "NewGC setKey parseBytes cfg = Inr (lim, cfg')"
    and "0 \<le> StorageGCWatermark cfg'" and "StorageGCWatermark cfg' \<le> 100"
    and "uint (gc_StorageMax lim) * StorageGCWatermark cfg' < 2 ^ 64"
  shows "uint (gc_StorageGC lim) = uint (gc_StorageMax lim) * StorageGCWatermark cfg' div 100 \<and>
    gc_StorageGC lim \<le> gc_StorageMax lim \<and> 1 \<le> gc_SlackGB lim"
proof -
  let ?m = "gc_StorageMax lim" and ?w = "StorageGCWatermark cfg'"
  have d: "gc_StorageGC lim = ?m * word_of_int ?w div 100" "1 \<le> gc_SlackGB lim"
    using NewGC_SomeD[OF assms(1)] by simp_all
  have w: "uint (word_of_int ?w :: u64) = ?w"
    using assms(2,3) by (simp add: uint_word_of_int)
  have "uint (?m * word_of_int ?w) = uint ?m * ?w"
    using assms(2,4) w by (simp add: uint_word_arith_bintrs(3) take_bit_eq_mod)
  then have gc: "uint (gc_StorageGC lim) = uint ?m * ?w div 100"
    by (simp add: d(1) uint_div_distrib)
  have "uint ?m * ?w \<le> uint ?m * 100" using assms(3) by (intro mult_left_mono) simp_all
  then have "uint ?m * ?w div 100 \<le> uint ?m * 100 div 100" by (rule zdiv_mono1) simp
  then have "uint (gc_StorageGC lim) \<le> uint ?m" using gc by simp
  then show ?thesis using gc d(2) by (simp add: word_le_def)
qed

theorem NewGC_watermark_witness:
  "uint (gc_StorageGC \<lparr>gc_StorageMax = 1000, gc_StorageGC = 900, gc_SlackGB = 1\<rparr>) =
     uint (gc_StorageMax \<lparr>gc_StorageMax = 1000, gc_StorageGC = 900, gc_SlackGB = 1\<rparr>) *
     StorageGCWatermark \<lparr>StorageMax = ''10GB'', StorageGCWatermark = 90, GCPeriod = []\<rparr> div 100 \<and>
   gc_StorageGC \<lparr>gc_StorageMax = 1000, gc_StorageGC = 900, gc_SlackGB = 1\<rparr> \<le>
     gc_StorageMax \<lparr>gc_StorageMax = 1000, gc_StorageGC = 900, gc_SlackGB = 1\<rparr> \<and>
   1 \<le> gc_SlackGB \<lparr>gc_StorageMax = 1000, gc_StorageGC = 900, gc_SlackGB = 1\<rparr>"
  by (rule NewGC_watermark[where setKey = "\<lambda>_ _. None" and parseBytes = "\<lambda>_. Inr 1000"
        and cfg = "\<lparr>StorageMax = [], StorageGCWatermark = 0, GCPeriod = []\<rparr>"])
    (simp_all add: NewGC_def Let_def)

text \<open>
  Beyond that the 64-bit product wraps: with a maximum of \<open>2 ^ 60\<close> bytes and the default
  watermark of 90 percent, collection starts at about a tenth of the maximum.
\<close>

theorem NewGC_watermark_overflow:
  "\<exists>lim cfg'. NewGC (\<lambda>_ _. None) (\<lambda>_. Inr (2 ^ 60)) \<lparr>StorageMax = ''1EiB'', StorageGCWatermark = 90, GCPeriod = []\<rparr> =
      Inr (lim, cfg') \<and> gc_StorageMax lim = 2 ^ 60 \<and> uint (gc_StorageGC lim) = 2 ^ 60 div 10"
  by (simp add: NewGC_def Let_def)

text \<open>
  \<^verbatim>\<open>CollectResult\<close> on a complete run reports success exactly when no result was an error, keeps
  every error in order (the last one as the summary) and calls back with every removed key in
  order.
\<close>

theorem CollectResult_complete:
  "CollectResult (map Recv out @ [Closed]) =
     (let errs = map ErrGC (List.map_filter (\<lambda>r. case r of GCError e \<Rightarrow> Some e | _ \<Rightarrow> None) out) in
      (if errs = [] then None
       else if length errs = 1 then Some (hd errs)
       else Some (MultiError (butlast errs) (last errs)),
       List.map_filter (\<lambda>r. case r of KeyRemoved k \<Rightarrow> Some k | _ \<Rightarrow> None) out))"
  unfolding CollectResult_def collect_loop_all
  by (auto simp: Let_def NewMultiError_def split: list.splits)

text \<open>
  The error path of \<^verbatim>\<open>GarbageCollectAsync\<close> never returns.
\<close>

lemma GarbageCollectAsync_blocks: "nd_root n = Inl e \<Longrightarrow> GarbageCollectAsync walk n = None"
  by (simp add: GarbageCollectAsync_def BestEffortRoots_def)

end
