(* ===== verification/Peering.thy ===== *)
theory Peering
  imports Prelude
begin

text \<open>
  The peering service: \<^verbatim>\<open>src/peering/peering.go\<close>.  The service keeps a handler per peer; handlers
  are heap objects (numbered cells), because goroutines started for a handler can outlive its
  removal from the map.  A goroutine that has been started and has not run yet is a pending task;
  network notifications wait in an event queue.  Every critical section of the code (one mutex
  held throughout) is one operation; the step relation interleaves them in every order, with
  connections coming and going, timers firing and dials succeeding or failing at any time.
  \<^verbatim>\<open>rand.Int63n\<close> is an argument in its documented range.
\<close>

section \<open>Constants and back-off\<close>

definition maxBackoff :: int where "maxBackoff = 10 * 60 * 1000000000"

definition maxBackoffJitter :: int where "maxBackoffJitter = 10"

definition initialDelay :: int where "initialDelay = 5 * 1000000000"

lemmas peering_consts = maxBackoff_def maxBackoffJitter_def initialDelay_def

text \<open>
  \<^verbatim>\<open>nextBackoff\<close>: \<open>r1\<close> and \<open>r2\<close> are the two random draws.
\<close>

definition nextBackoff :: "int \<Rightarrow> int \<Rightarrow> int \<Rightarrow> int" where
  "nextBackoff nextDelay r1 r2 =
     (let d = (if nextDelay < maxBackoff then nextDelay + (nextDelay div 2 + r1) else nextDelay)
      in if d > maxBackoff then maxBackoff - r2 else d)"

definition draws_ok :: "int \<Rightarrow> int \<Rightarrow> int \<Rightarrow> bool" where
  "draws_ok nextDelay r1 r2 \<longleftrightarrow>
     0 \<le> r1 \<and> r1 < nextDelay \<and> 0 \<le> r2 \<and> r2 < maxBackoff * maxBackoffJitter div 100"

definition delay_ok :: "int \<Rightarrow> bool" where
  "delay_ok d \<longleftrightarrow> initialDelay \<le> d \<and> d \<le> maxBackoff"

lemma nextBackoff_ok: "delay_ok d \<Longrightarrow> draws_ok d r1 r2 \<Longrightarrow> delay_ok (nextBackoff d r1 r2)"
  by (auto simp: delay_ok_def draws_ok_def nextBackoff_def peering_consts Let_def)

section \<open>State\<close>

datatype State = StateInit | StateRunning | StateStopped

definition State_String :: "State \<Rightarrow> string" where
  "State_String s =
     (case s of StateInit \<Rightarrow> ''init'' | StateRunning \<Rightarrow> ''running'' | StateStopped \<Rightarrow> ''stopped'')"

type_synonym peer_id = string
type_synonym multiaddr = string

text \<open>\<^verbatim>\<open>reconnectTimer\<close>: nil, waiting, or fired and not reset since.\<close>

datatype timer = NoTimer | Armed int | Fired

record peerHandler =
  ph_peer :: peer_id
  ph_cancelled :: bool
  ph_addrs :: "multiaddr list"
  ph_timer :: timer
  ph_nextDelay :: int

text \<open>Goroutines that have been started: the two guards, or \<^verbatim>\<open>reconnect\<close> about to dial.\<close>

datatype task = TStartIfDisconnected nat | TStopIfConnected nat | TReconnect nat

datatype net_event = EvConnected peer_id | EvDisconnected peer_id

record peering =
  ps_state :: State
  ps_peers :: "peer_id \<rightharpoonup> nat"
  ps_heap :: "nat \<Rightarrow> peerHandler"
  ps_fresh :: nat
  ps_protected :: "peer_id set"
  ps_notified :: bool
  ps_tasks :: "task list"
  ps_events :: "net_event list"
  ps_connected :: "peer_id set"
  ps_stopping :: nat

definition dummyHandler :: peerHandler where
  "dummyHandler = \<lparr>ph_peer = [], ph_cancelled = False, ph_addrs = [], ph_timer = NoTimer, ph_nextDelay = initialDelay\<rparr>"

definition NewPeeringService :: peering where
  "NewPeeringService =
     \<lparr>ps_state = StateInit, ps_peers = Map.empty, ps_heap = (\<lambda>_. dummyHandler), ps_fresh = 0,
      ps_protected = {}, ps_notified = False, ps_tasks = [], ps_events = [], ps_connected = {}, ps_stopping = 0\<rparr>"

definition upd :: "nat \<Rightarrow> (peerHandler \<Rightarrow> peerHandler) \<Rightarrow> peering \<Rightarrow> peering" where
  "upd h f s = s\<lparr>ps_heap := (ps_heap s)(h := f (ps_heap s h))\<rparr>"

definition spawn :: "task list \<Rightarrow> peering \<Rightarrow> peering" where
  "spawn ts s = s\<lparr>ps_tasks := ps_tasks s @ ts\<rparr>"

section \<open>Handler operations\<close>

definition setAddrs :: "multiaddr list \<Rightarrow> peerHandler \<Rightarrow> peerHandler" where
  "setAddrs addrs ph = ph\<lparr>ph_addrs := addrs\<rparr>"

definition getAddrs :: "peerHandler \<Rightarrow> multiaddr list" where
  "getAddrs ph = ph_addrs ph"

definition stop :: "peerHandler \<Rightarrow> peerHandler" where
  "stop ph = (let ph' = ph\<lparr>ph_cancelled := True\<rparr> in
     if ph_timer ph' \<noteq> NoTimer then ph'\<lparr>ph_timer := NoTimer\<rparr> else ph')"

text \<open>The part of \<^verbatim>\<open>reconnect\<close> after a failed dial, under the handler's lock.\<close>

definition reconnect_failed :: "int \<Rightarrow> int \<Rightarrow> peerHandler \<Rightarrow> peerHandler" where
  "reconnect_failed r1 r2 ph =
     (if ph_timer ph \<noteq> NoTimer
      then (let d = nextBackoff (ph_nextDelay ph) r1 r2 in ph\<lparr>ph_nextDelay := d, ph_timer := Armed d\<rparr>)
      else ph)"

definition stopIfConnected :: "bool \<Rightarrow> peerHandler \<Rightarrow> peerHandler" where
  "stopIfConnected connected ph =
     (if ph_timer ph \<noteq> NoTimer \<and> connected
      then ph\<lparr>ph_timer := NoTimer, ph_nextDelay := initialDelay\<rparr> else ph)"

definition startIfDisconnected :: "bool \<Rightarrow> int \<Rightarrow> int \<Rightarrow> peerHandler \<Rightarrow> peerHandler" where
  "startIfDisconnected connected r1 r2 ph =
     (if ph_timer ph = NoTimer \<and> \<not> connected
      then (let d = nextBackoff (ph_nextDelay ph) r1 r2 in ph\<lparr>ph_nextDelay := d, ph_timer := Armed d\<rparr>)
      else ph)"

section \<open>Service operations\<close>

text \<open>
  A loop over the peer map visits the entries in an order that is not specified: \<open>ids\<close> is the
  order an execution happens to take, and \<open>handlers\<close> the handlers it meets.
\<close>

definition map_order :: "peer_id list \<Rightarrow> peering \<Rightarrow> bool" where
  "map_order ids s \<longleftrightarrow> distinct ids \<and> set ids = dom (ps_peers s)"

definition handlers :: "peer_id list \<Rightarrow> peering \<Rightarrow> nat list" where
  "handlers ids s = map (\<lambda>p. the (ps_peers s p)) ids"

definition Start :: "peer_id list \<Rightarrow> peering \<Rightarrow> string option \<times> peering" where
  "Start ids s =
     (case ps_state s of
        StateRunning \<Rightarrow> (None, s)
      | StateStopped \<Rightarrow> (Some ''already stopped'', s)
      | StateInit \<Rightarrow>
          (None, spawn (map TStartIfDisconnected (handlers ids s)) (s\<lparr>ps_notified := True, ps_state := StateRunning\<rparr>)))"

definition GetState :: "peering \<Rightarrow> State" where
  "GetState s = ps_state s"

text \<open>
  \<^verbatim>\<open>Stop\<close> first unregisters the notifiee, then takes the lock; another call can run in between.
  \<open>ps_stopping\<close> counts the callers that are between the two.
\<close>

definition StopNotify :: "peering \<Rightarrow> peering" where
  "StopNotify s = s\<lparr>ps_notified := False, ps_stopping := Suc (ps_stopping s)\<rparr>"

definition Stop_locked :: "peer_id list \<Rightarrow> peering \<Rightarrow> peering" where
  "Stop_locked ids s =
     (let s = s\<lparr>ps_stopping := ps_stopping s - 1\<rparr> in
      case ps_state s of
        StateStopped \<Rightarrow> s
      | _ \<Rightarrow> (fold (\<lambda>h. upd h stop) (handlers ids s) s)\<lparr>ps_state := StateStopped\<rparr>)"

definition Stop :: "peer_id list \<Rightarrow> peering \<Rightarrow> peering" where
  "Stop ids s = Stop_locked ids (StopNotify s)"

definition AddPeer :: "peer_id \<Rightarrow> multiaddr list \<Rightarrow> peering \<Rightarrow> peering" where
  "AddPeer p addrs s =
     (case ps_peers s p of
        Some h \<Rightarrow> upd h (setAddrs addrs) s
      | None \<Rightarrow>
          (let h = ps_fresh s;
               ph = \<lparr>ph_peer = p, ph_cancelled = False, ph_addrs = addrs, ph_timer = NoTimer,
                     ph_nextDelay = initialDelay\<rparr>;
               s1 = s\<lparr>ps_protected := insert p (ps_protected s), ps_fresh := Suc h,
                      ps_heap := (ps_heap s)(h := ph), ps_peers := (ps_peers s)(p \<mapsto> h)\<rparr>
           in case ps_state s1 of
                StateRunning \<Rightarrow> spawn [TStartIfDisconnected h] s1
              | StateStopped \<Rightarrow> upd h (\<lambda>ph. ph\<lparr>ph_cancelled := True\<rparr>) s1
              | StateInit \<Rightarrow> s1))"

definition ListPeers :: "peer_id list \<Rightarrow> peering \<Rightarrow> (peer_id \<times> multiaddr list) list" where
  "ListPeers ids s = map (\<lambda>p. (p, ph_addrs (ps_heap s (the (ps_peers s p))))) ids"

definition RemovePeer :: "peer_id \<Rightarrow> peering \<Rightarrow> peering" where
  "RemovePeer p s =
     (case ps_peers s p of
        Some h \<Rightarrow>
          (upd h stop s)\<lparr>ps_protected := ps_protected s - {p}, ps_peers := (ps_peers s)(p := None)\<rparr>
      | None \<Rightarrow> s)"

definition netNotifee_Connected :: "peer_id \<Rightarrow> peering \<Rightarrow> peering" where
  "netNotifee_Connected p s =
     (case ps_peers s p of Some h \<Rightarrow> spawn [TStopIfConnected h] s | None \<Rightarrow> s)"

definition netNotifee_Disconnected :: "peer_id \<Rightarrow> peering \<Rightarrow> peering" where
  "netNotifee_Disconnected p s =
     (case ps_peers s p of Some h \<Rightarrow> spawn [TStartIfDisconnected h] s | None \<Rightarrow> s)"

section \<open>Interleaving\<close>

definition connected :: "peering \<Rightarrow> nat \<Rightarrow> bool" where
  "connected s h \<longleftrightarrow> ph_peer (ps_heap s h) \<in> ps_connected s"

definition notify :: "net_event \<Rightarrow> peering \<Rightarrow> peering" where
  "notify e s = (if ps_notified s then s\<lparr>ps_events := ps_events s @ [e]\<rparr> else s)"

definition finish :: "task \<Rightarrow> peering \<Rightarrow> peering" where
  "finish t s = s\<lparr>ps_tasks := remove1 t (ps_tasks s)\<rparr>"

inductive pstep :: "peering \<Rightarrow> peering \<Rightarrow> bool" where
  api_start: "map_order ids s \<Longrightarrow> pstep s (snd (Start ids s))"
| api_stop_notify: "pstep s (StopNotify s)"
| api_stop: "0 < ps_stopping s \<Longrightarrow> map_order ids s \<Longrightarrow> pstep s (Stop_locked ids s)"
| api_add: "pstep s (AddPeer p addrs s)"
| api_remove: "pstep s (RemovePeer p s)"
| net_up: "pstep s (notify (EvConnected p) (s\<lparr>ps_connected := insert p (ps_connected s)\<rparr>))"
| net_down: "pstep s (notify (EvDisconnected p) (s\<lparr>ps_connected := ps_connected s - {p}\<rparr>))"
| ev_up: "EvConnected p \<in> set (ps_events s) \<Longrightarrow>
    pstep s (netNotifee_Connected p (s\<lparr>ps_events := remove1 (EvConnected p) (ps_events s)\<rparr>))"
| ev_down: "EvDisconnected p \<in> set (ps_events s) \<Longrightarrow>
    pstep s (netNotifee_Disconnected p (s\<lparr>ps_events := remove1 (EvDisconnected p) (ps_events s)\<rparr>))"
| run_start: "TStartIfDisconnected h \<in> set (ps_tasks s) \<Longrightarrow> draws_ok (ph_nextDelay (ps_heap s h)) r1 r2 \<Longrightarrow>
    pstep s (upd h (startIfDisconnected (connected s h) r1 r2) (finish (TStartIfDisconnected h) s))"
| run_stop: "TStopIfConnected h \<in> set (ps_tasks s) \<Longrightarrow>
    pstep s (upd h (stopIfConnected (connected s h)) (finish (TStopIfConnected h) s))"
| timer_fires: "ph_timer (ps_heap s h) = Armed d \<Longrightarrow>
    pstep s (spawn [TReconnect h] (upd h (\<lambda>ph. ph\<lparr>ph_timer := Fired\<rparr>) s))"
| dial_ok: "TReconnect h \<in> set (ps_tasks s) \<Longrightarrow> connected s h \<Longrightarrow>
    pstep s (spawn [TStopIfConnected h] (finish (TReconnect h) s))"
| dial_failed: "TReconnect h \<in> set (ps_tasks s) \<Longrightarrow> draws_ok (ph_nextDelay (ps_heap s h)) r1 r2 \<Longrightarrow>
    pstep s (spawn [TStopIfConnected h] (upd h (reconnect_failed r1 r2) (finish (TReconnect h) s)))"

abbreviation preachable :: "peering \<Rightarrow> bool" where
  "preachable \<equiv> reachable (\<lambda>s. s = NewPeeringService) pstep"

lemmas preachable_start = reachable.start[where init = "\<lambda>s. s = NewPeeringService" and step = pstep, OF refl]
lemmas preachable_step = reachable.step[where step = pstep and init = "\<lambda>s. s = NewPeeringService"]

section \<open>Invariant\<close>

definition peering_inv :: "peering \<Rightarrow> bool" where
  "peering_inv s \<longleftrightarrow>
     ps_protected s = dom (ps_peers s) \<and>
     (\<forall>p h. ps_peers s p = Some h \<longrightarrow> h < ps_fresh s \<and> ph_peer (ps_heap s h) = p) \<and>
     (\<forall>h. delay_ok (ph_nextDelay (ps_heap s h))) \<and>
     (\<forall>h d. ph_timer (ps_heap s h) = Armed d \<longrightarrow> delay_ok d) \<and>
     (ps_state s = StateInit \<longrightarrow> ps_tasks s = [] \<and> ps_events s = [] \<and> \<not> ps_notified s \<and>
        (\<forall>h. ph_timer (ps_heap s h) = NoTimer)) \<and>
     (ps_state s = StateStopped \<longrightarrow> (\<forall>h \<in> ran (ps_peers s). ph_cancelled (ps_heap s h)))"

lemma inv_new: "peering_inv NewPeeringService"
  by (simp add: peering_inv_def NewPeeringService_def dummyHandler_def delay_ok_def peering_consts)

text \<open>What every handler operation keeps.\<close>

lemma handler_frame [simp]:
  "ph_peer (setAddrs a ph) = ph_peer ph" "ph_peer (stop ph) = ph_peer ph"
  "ph_peer (reconnect_failed r1 r2 ph) = ph_peer ph"
  "ph_peer (stopIfConnected c ph) = ph_peer ph" "ph_peer (startIfDisconnected c r1 r2 ph) = ph_peer ph"
  by (simp_all add: setAddrs_def stop_def reconnect_failed_def stopIfConnected_def
      startIfDisconnected_def Let_def)

lemma handler_cancelled [simp]:
  "ph_cancelled (setAddrs a ph) = ph_cancelled ph" "ph_cancelled (stop ph)"
  "ph_cancelled (reconnect_failed r1 r2 ph) = ph_cancelled ph"
  "ph_cancelled (stopIfConnected c ph) = ph_cancelled ph"
  "ph_cancelled (startIfDisconnected c r1 r2 ph) = ph_cancelled ph"
  by (simp_all add: setAddrs_def stop_def reconnect_failed_def stopIfConnected_def
      startIfDisconnected_def Let_def)

definition handler_ok :: "peerHandler \<Rightarrow> bool" where
  "handler_ok ph \<longleftrightarrow> delay_ok (ph_nextDelay ph) \<and> (\<forall>d. ph_timer ph = Armed d \<longrightarrow> delay_ok d)"

lemma delay_ok_initial [simp]: "delay_ok initialDelay"
  by (simp add: delay_ok_def peering_consts)

lemma handler_ok_ops [go_inv]:
  "handler_ok ph \<Longrightarrow> handler_ok (setAddrs a ph)" "handler_ok ph \<Longrightarrow> handler_ok (stop ph)"
  "handler_ok ph \<Longrightarrow> handler_ok (stopIfConnected c ph)"
  "handler_ok ph \<Longrightarrow> draws_ok (ph_nextDelay ph) r1 r2 \<Longrightarrow> handler_ok (reconnect_failed r1 r2 ph)"
  "handler_ok ph \<Longrightarrow> draws_ok (ph_nextDelay ph) r1 r2 \<Longrightarrow> handler_ok (startIfDisconnected c r1 r2 ph)"
  "handler_ok ph \<Longrightarrow> handler_ok (ph\<lparr>ph_timer := Fired\<rparr>)"
  "handler_ok ph \<Longrightarrow> handler_ok (ph\<lparr>ph_cancelled := b\<rparr>)"
  by (auto simp: handler_ok_def setAddrs_def stop_def reconnect_failed_def stopIfConnected_def
      startIfDisconnected_def Let_def nextBackoff_ok)

text \<open>Replacing one heap cell by an acceptable handler of the same peer keeps the invariant.\<close>

lemma inv_upd:
  assumes "peering_inv s" and "handler_ok (f (ps_heap s h))"
    and "ph_peer (f (ps_heap s h)) = ph_peer (ps_heap s h)"
    and "ph_cancelled (ps_heap s h) \<Longrightarrow> ph_cancelled (f (ps_heap s h))"
    and "ps_state s = StateInit \<Longrightarrow> ph_timer (f (ps_heap s h)) = NoTimer"
  shows "peering_inv (upd h f s)"
  using assms by (auto simp: peering_inv_def upd_def handler_ok_def)

lemma inv_handler_ok: "peering_inv s \<Longrightarrow> handler_ok (ps_heap s h)"
  by (auto simp: peering_inv_def handler_ok_def)

lemma inv_spawn: "peering_inv s \<Longrightarrow> ps_state s \<noteq> StateInit \<Longrightarrow> peering_inv (spawn ts s)"
  by (simp add: peering_inv_def spawn_def)

lemma inv_finish: "peering_inv s \<Longrightarrow> peering_inv (finish t s)"
  by (auto simp: peering_inv_def finish_def)

lemma inv_busy: "peering_inv s \<Longrightarrow> t \<in> set (ps_tasks s) \<Longrightarrow> ps_state s \<noteq> StateInit"
  by (auto simp: peering_inv_def)

lemma proj_simps [simp]:
  "ps_state (upd h f s) = ps_state s" "ps_state (finish t s) = ps_state s" "ps_state (spawn ts s) = ps_state s"
  "ps_heap (finish t s) = ps_heap s" "ps_heap (spawn ts s) = ps_heap s"
  "ps_protected (upd h f s) = ps_protected s"
  "ps_peers (upd h f s) = ps_peers s" "ps_peers (finish t s) = ps_peers s" "ps_peers (spawn ts s) = ps_peers s"
  by (simp_all add: upd_def finish_def spawn_def)

lemma inv_upd_setAddrs: "peering_inv s \<Longrightarrow> peering_inv (upd h (setAddrs addrs) s)"
  by (rule inv_upd)
    (simp_all add: inv_handler_ok handler_ok_ops(1), simp add: setAddrs_def peering_inv_def)

lemma inv_upd_stop: "peering_inv s \<Longrightarrow> peering_inv (upd h stop s)"
  by (rule inv_upd) (simp_all add: inv_handler_ok handler_ok_ops(2), simp add: stop_def Let_def)

lemma inv_AddPeer [go_inv]:
  assumes "peering_inv s"
  shows "peering_inv (AddPeer p addrs s)"
proof (cases "ps_peers s p")
  case (Some h)
  with assms show ?thesis by (simp add: AddPeer_def inv_upd_setAddrs)
next
  case None
  then show ?thesis
    using assms
    by (cases "ps_state s")
      (auto simp: AddPeer_def Let_def peering_inv_def spawn_def upd_def ran_def dom_def less_SucI
        split: if_splits)
qed

lemma inv_forget:
  "peering_inv s \<Longrightarrow> peering_inv (s\<lparr>ps_protected := ps_protected s - {p}, ps_peers := (ps_peers s)(p := None)\<rparr>)"
  by (auto simp: peering_inv_def ran_def dom_def split: if_splits)

lemma inv_RemovePeer [go_inv]:
  assumes "peering_inv s"
  shows "peering_inv (RemovePeer p s)"
proof (cases "ps_peers s p")
  case None
  with assms show ?thesis by (simp add: RemovePeer_def)
next
  case (Some h)
  with inv_forget[OF inv_upd_stop[OF assms, of h], of p] show ?thesis
    by (simp add: RemovePeer_def)
qed

text \<open>Stopping a list of handlers changes only their cells.\<close>

lemma inv_fold_stop: "peering_inv s \<Longrightarrow> peering_inv (fold (\<lambda>h. upd h stop) hs s)"
  by (induction hs arbitrary: s) (simp_all add: inv_upd_stop)

lemma fold_stop:
  "ps_peers (fold (\<lambda>h. upd h stop) hs s) = ps_peers s"
  "ph_cancelled (ps_heap (fold (\<lambda>h. upd h stop) hs s) h) \<longleftrightarrow> h \<in> set hs \<or> ph_cancelled (ps_heap s h)"
  "ph_timer (ps_heap (fold (\<lambda>h. upd h stop) hs s) h) = (if h \<in> set hs then NoTimer else ph_timer (ps_heap s h))"
  by (induction hs arbitrary: s) (auto simp: upd_def stop_def Let_def)

lemma set_handlers: "map_order ids s \<Longrightarrow> set (handlers ids s) = ran (ps_peers s)"
  by (force simp: map_order_def handlers_def ran_def dom_def image_def)

lemma inv_stopping: "peering_inv (s\<lparr>ps_stopping := n\<rparr>) = peering_inv s"
  by (simp add: peering_inv_def)

lemma inv_stopped: 
  "peering_inv s \<Longrightarrow> (\<And>h. h \<in> ran (ps_peers s) \<Longrightarrow> ph_cancelled (ps_heap s h)) \<Longrightarrow>
   peering_inv (s\<lparr>ps_state := StateStopped\<rparr>)"
  by (simp add: peering_inv_def)

lemma inv_Stop_locked [go_inv]:
  assumes "peering_inv s" and "map_order ids s"
  shows "peering_inv (Stop_locked ids s)"
proof -
  let ?s = "s\<lparr>ps_stopping := ps_stopping s - 1\<rparr>"
  have "set (handlers ids ?s) = ran (ps_peers s)"
    using set_handlers[OF assms(2)] by (simp add: handlers_def)
  then have "peering_inv ((fold (\<lambda>h. upd h stop) (handlers ids ?s) ?s)\<lparr>ps_state := StateStopped\<rparr>)"
    using assms(1) by (intro inv_stopped inv_fold_stop) (simp_all add: fold_stop inv_stopping)
  with assms(1) show ?thesis
    by (simp add: Stop_locked_def Let_def inv_stopping split: State.splits)
qed

lemma pstep_inv: "pstep s t \<Longrightarrow> peering_inv s \<Longrightarrow> peering_inv t"
proof (induction rule: pstep.induct)
  case (api_start ids s)
  then show ?case
    by (cases "ps_state s") (auto simp: Start_def peering_inv_def spawn_def)
next
  case (api_stop_notify s)
  then show ?case by (simp add: StopNotify_def peering_inv_def)
next
  case (api_stop s ids)
  then show ?case by (simp add: inv_Stop_locked)
next
  case (api_add s p addrs)
  then show ?case by (simp add: inv_AddPeer)
next
  case (api_remove s p)
  then show ?case by (simp add: inv_RemovePeer)
next
  case (ev_up p s)
  then show ?case
    by (auto simp: netNotifee_Connected_def peering_inv_def spawn_def split: option.splits)
next
  case (ev_down p s)
  then show ?case
    by (auto simp: netNotifee_Disconnected_def peering_inv_def spawn_def split: option.splits)
next
  case (run_start h s r1 r2)
  have "ps_state s \<noteq> StateInit" using inv_busy run_start.prems run_start.hyps(1) .
  then show ?case
    using run_start inv_handler_ok[OF run_start.prems]
    by (intro inv_upd inv_finish) (auto simp: go_inv)
next
  case (run_stop h s)
  have "ps_state s \<noteq> StateInit" using inv_busy run_stop.prems run_stop.hyps(1) .
  then show ?case
    using run_stop inv_handler_ok[OF run_stop.prems]
    by (intro inv_upd inv_finish) (auto simp: go_inv)
next
  case (timer_fires s h d)
  have "ps_state s \<noteq> StateInit" using timer_fires by (auto simp: peering_inv_def)
  then show ?case
    using timer_fires inv_handler_ok[OF timer_fires.prems]
    by (intro inv_spawn inv_upd) (auto simp: go_inv)
next
  case (dial_ok h s)
  have "ps_state s \<noteq> StateInit" using inv_busy dial_ok.prems dial_ok.hyps(1) .
  then show ?case using dial_ok by (intro inv_spawn inv_finish) auto
next
  case (dial_failed h s r1 r2)
  have "ps_state s \<noteq> StateInit" using inv_busy dial_failed.prems dial_failed.hyps(1) .
  then show ?case
    using dial_failed inv_handler_ok[OF dial_failed.prems]
    by (intro inv_spawn inv_upd inv_finish) (auto simp: go_inv)
qed (auto simp: notify_def peering_inv_def)

interpretation psys: transition_system "\<lambda>s. s = NewPeeringService" pstep peering_inv
  by unfold_locales (auto simp: inv_new intro: pstep_inv)

section \<open>The peer table as a map\<close>

text \<open>
  What clients of the service see: a table of peers and their addresses.  \<open>book\<close> forgets
  handlers, timers and goroutines.
\<close>

definition book :: "peering \<Rightarrow> peer_id \<rightharpoonup> multiaddr list" where
  "book s p = map_option (\<lambda>h. ph_addrs (ps_heap s h)) (ps_peers s p)"

locale peer_book =
  fixes add :: "'p \<Rightarrow> 'a \<Rightarrow> 's \<Rightarrow> 's"
    and remove :: "'p \<Rightarrow> 's \<Rightarrow> 's"
    and abs :: "'s \<Rightarrow> 'p \<rightharpoonup> 'a"
    and ok :: "'s \<Rightarrow> bool"
  assumes ok_add: "ok s \<Longrightarrow> ok (add p a s)"
    and ok_remove: "ok s \<Longrightarrow> ok (remove p s)"
    and abs_add: "ok s \<Longrightarrow> abs (add p a s) = (abs s)(p \<mapsto> a)"
    and abs_remove: "ok s \<Longrightarrow> abs (remove p s) = (abs s)(p := None)"
begin

text \<open>
  A sequence of additions (an address list) and removals (none) leaves for each peer the last
  entry written.
\<close>

lemma run_refines:
  assumes "ok s"
  shows "ok (fold (\<lambda>(p, e). case e of Some a \<Rightarrow> add p a | None \<Rightarrow> remove p) ops s) \<and>
    abs (fold (\<lambda>(p, e). case e of Some a \<Rightarrow> add p a | None \<Rightarrow> remove p) ops s) =
    fold (\<lambda>(p, e) m. m(p := e)) ops (abs s)"
  using assms
proof (induction ops arbitrary: s)
  case (Cons x ops)
  obtain p e where "x = (p, e)" by force
  then show ?case
    using Cons.IH[OF ok_add[OF Cons.prems]] Cons.IH[OF ok_remove[OF Cons.prems]] Cons.prems
    by (cases e) (simp_all add: abs_add abs_remove)
qed simp

end

lemma inv_inj:
  "peering_inv s \<Longrightarrow> ps_peers s p = Some h \<Longrightarrow> ps_peers s q = Some h \<Longrightarrow> p = q"
  unfolding peering_inv_def by metis

lemma book_AddPeer: "peering_inv s \<Longrightarrow> book (AddPeer p addrs s) = (book s)(p \<mapsto> addrs)"
proof (cases "ps_peers s p")
  case None
  assume inv: "peering_inv s"
  have "h < ps_fresh s" if "ps_peers s q = Some h" for q h
    using inv that by (auto simp: peering_inv_def)
  then show ?thesis
    using None
    by (cases "ps_state s")
      (auto simp: AddPeer_def Let_def book_def fun_eq_iff spawn_def upd_def map_option_case
        split: option.splits)
next
  case (Some h)
  assume inv: "peering_inv s"
  then show ?thesis
    using Some inv_inj[OF inv]
    by (auto simp: AddPeer_def book_def fun_eq_iff upd_def setAddrs_def map_option_case
        split: option.splits)
qed

lemma stop_addrs [simp]: "ph_addrs (stop ph) = ph_addrs ph"
  by (simp add: stop_def Let_def)

lemma book_RemovePeer: "book (RemovePeer p s) = (book s)(p := None)"
  by (auto simp: RemovePeer_def book_def fun_eq_iff upd_def map_option_case split: option.splits)

interpretation pb: peer_book AddPeer RemovePeer book peering_inv
  by unfold_locales (simp_all add: inv_AddPeer inv_RemovePeer book_AddPeer book_RemovePeer)

lemma ListPeers_book:
  "map_order ids s \<Longrightarrow> distinct (map fst (ListPeers ids s)) \<and> map_of (ListPeers ids s) = book s"
proof
  assume ord: "map_order ids s"
  then show "distinct (map fst (ListPeers ids s))"
    by (simp add: ListPeers_def map_order_def comp_def)
  have "map_of (ListPeers ids s) p = book s p" for p
    using ord by (cases "ps_peers s p")
      (auto simp: ListPeers_def map_order_def map_of_map_restrict book_def restrict_map_def dom_def
        map_of_eq_None_iff)
  then show "map_of (ListPeers ids s) = book s" by (rule ext)
qed

section \<open>Properties\<close>

lemma peering_invariant_parts:
  assumes "preachable s"
  shows "ps_protected s = dom (ps_peers s)"
    and "\<forall>p q h. ps_peers s p = Some h \<longrightarrow> ph_peer (ps_heap s h) = p \<and> (ps_peers s q = Some h \<longrightarrow> p = q)"
    and "\<forall>h d. ph_timer (ps_heap s h) = Armed d \<longrightarrow> initialDelay \<le> d \<and> d \<le> maxBackoff"
    and "ps_state s = StateStopped \<longrightarrow> (\<forall>p h. ps_peers s p = Some h \<longrightarrow> ph_cancelled (ps_heap s h))"
  using psys.reachable_inv[OF assms] inv_inj[OF psys.reachable_inv[OF assms]]
  by (auto simp: peering_inv_def delay_ok_def ran_def)

text \<open>
  C9. In every reachable state of the service, whatever the interleaving: the connection
  manager protects exactly the peers of the table; each handler in the table belongs to its own
  peer and no two peers share one; no timer is armed with a delay outside
  \<^verbatim>\<open>[initialDelay, maxBackoff]\<close>; and once stopped, every handler in the table, also one added
  later, has a cancelled context.
\<close>

theorem peering_invariant:
  assumes "preachable s"
  shows "(ps_protected s = dom (ps_peers s)) \<and>
    (\<forall>p q h. ps_peers s p = Some h \<longrightarrow> ph_peer (ps_heap s h) = p \<and> (ps_peers s q = Some h \<longrightarrow> p = q)) \<and>
    (\<forall>h d. ph_timer (ps_heap s h) = Armed d \<longrightarrow> initialDelay \<le> d \<and> d \<le> maxBackoff) \<and>
    (ps_state s = StateStopped \<longrightarrow> (\<forall>p h. ps_peers s p = Some h \<longrightarrow> ph_cancelled (ps_heap s h)))"
  using peering_invariant_parts[OF assms] by blast

lemma reachable_example:
  "preachable (AddPeer ''p'' [''a''] (snd (Start [] NewPeeringService)))"
  by (intro preachable_step[OF _ api_add] preachable_step[OF preachable_start api_start])
    (simp add: map_order_def NewPeeringService_def)

theorem peering_invariant_witness:
  "ps_protected (AddPeer ''p'' [''a''] (snd (Start [] NewPeeringService))) = {''p''}"
  using conjunct1[OF peering_invariant[OF reachable_example]]
  by (simp add: AddPeer_def Start_def NewPeeringService_def Let_def spawn_def)



text \<open>
  C28. The peer table refines a map from peers to addresses.  From any reachable state, after
  any sequence of \<^verbatim>\<open>AddPeer\<close> (an address list) and \<^verbatim>\<open>RemovePeer\<close> (no address list) calls,
  \<^verbatim>\<open>ListPeers\<close>, in whatever order it meets the map, lists every peer once, with the addresses
  that updating an abstract map in the same order leaves.
\<close>

theorem peering_book_refines:
  assumes "preachable s" and "map_order ids s"
    and "t = fold (\<lambda>(p, e). case e of Some a \<Rightarrow> AddPeer p a | None \<Rightarrow> RemovePeer p) ops s"
    and "map_order ids' t"
  shows "distinct (map fst (ListPeers ids' t)) \<and>
    map_of (ListPeers ids' t) = fold (\<lambda>(p, e) m. m(p := e)) ops (map_of (ListPeers ids s))"
  using ListPeers_book[OF assms(2)] ListPeers_book[OF assms(4)]
    pb.run_refines[OF psys.reachable_inv[OF assms(1)], of ops] by (simp add: assms(3))

theorem peering_book_refines_witness:
  "map_of (ListPeers [''q''] (RemovePeer ''p'' (AddPeer ''q'' [''b''] (AddPeer ''p'' [''a''] NewPeeringService))))
   = [''q'' \<mapsto> [''b'']]"
  using peering_book_refines[OF preachable_start, of "[]" _
      "[(''p'', Some [''a'']), (''q'', Some [''b'']), (''p'', None)]" "[''q'']", OF _ refl]
  by (simp add: map_order_def AddPeer_def RemovePeer_def NewPeeringService_def ListPeers_def Let_def
      upd_def split: if_splits)

lemma pstep_stopped: "pstep s t \<Longrightarrow> ps_state s = StateStopped \<Longrightarrow> ps_state t = StateStopped"
  by (induction rule: pstep.induct)
    (auto simp: Start_def StopNotify_def Stop_locked_def AddPeer_def RemovePeer_def notify_def Let_def
      netNotifee_Connected_def netNotifee_Disconnected_def split: option.splits)

interpretation stopped: transition_system "\<lambda>s. ps_state s = StateStopped" pstep "\<lambda>s. ps_state s = StateStopped"
  by unfold_locales (auto intro: pstep_stopped)

text \<open>
  Stopped is final: no interleaving of operations, events and goroutines leaves the stopped
  state, \<^verbatim>\<open>Start\<close> then fails with \<^verbatim>\<open>already stopped\<close> and changes nothing, and \<^verbatim>\<open>AddPeer\<close> starts
  no goroutine.
\<close>

theorem peering_stopped_final:
  assumes "ps_state s = StateStopped" and "pstep\<^sup>*\<^sup>* s t"
  shows "ps_state t = StateStopped \<and> Start ids t = (Some ''already stopped'', t) \<and>
    ps_tasks (AddPeer p addrs t) = ps_tasks t"
proof -
  have "ps_state t = StateStopped"
    using assms(2,1) by (rule stopped.steps_inv)
  then show ?thesis by (auto simp: Start_def AddPeer_def Let_def upd_def split: option.splits)
qed

theorem peering_stopped_final_witness:
  "fst (Start [''p''] (AddPeer ''p'' [] (Stop [] NewPeeringService))) = Some ''already stopped''"
  using peering_stopped_final[of "Stop [] NewPeeringService", OF _ r_into_rtranclp[where r = pstep, OF api_add]]
  by (simp add: Stop_def Stop_locked_def StopNotify_def NewPeeringService_def handlers_def)

section \<open>Races\<close>

text \<open>Running states with one peer, for the executions below.\<close>

definition one_peer :: "timer \<Rightarrow> int \<Rightarrow> task list \<Rightarrow> net_event list \<Rightarrow> peer_id set \<Rightarrow> peering" where
  "one_peer tm nd ts es c =
     \<lparr>ps_state = StateRunning, ps_peers = [''p'' \<mapsto> 0],
      ps_heap = (\<lambda>_. dummyHandler)(0 := \<lparr>ph_peer = ''p'', ph_cancelled = False, ph_addrs = [],
        ph_timer = tm, ph_nextDelay = nd\<rparr>),
      ps_fresh = 1, ps_protected = {''p''}, ps_notified = True, ps_tasks = ts, ps_events = es,
      ps_connected = c, ps_stopping = 0\<rparr>"

lemma preach_step: "preachable s \<Longrightarrow> pstep s u \<Longrightarrow> u = t \<Longrightarrow> preachable t"
  by (auto intro: preachable_step)

lemma one_peer_added: "preachable (one_peer NoTimer initialDelay [TStartIfDisconnected 0] [] {})"
proof -
  have "preachable (snd (Start [] NewPeeringService))"
    by (intro preachable_step[OF preachable_start api_start]) (simp add: map_order_def NewPeeringService_def)
  from preach_step[OF this api_add[of _ "''p''" "[]"]] show ?thesis
    by (simp add: Start_def NewPeeringService_def AddPeer_def one_peer_def spawn_def handlers_def)
qed

lemmas run_simps = one_peer_def upd_def finish_def spawn_def connected_def notify_def
  startIfDisconnected_def stopIfConnected_def netNotifee_Connected_def netNotifee_Disconnected_def
  draws_ok_def Let_def

lemma backoff_example: "nextBackoff initialDelay 0 0 = 7500000000"
  by (simp add: nextBackoff_def peering_consts)

lemma one_peer_armed: "preachable (one_peer (Armed 7500000000) 7500000000 [] [] {})"
  by (rule preach_step[OF one_peer_added run_start[of 0 _ 0 0]])
    (simp_all add: run_simps backoff_example, simp_all add: peering_consts)

text \<open>
  The comment on \<^verbatim>\<open>stop\<close> says it stops the handler permanently.  It does not: a goroutine
  started for the handler before \<^verbatim>\<open>RemovePeer\<close> can run after it and arm the timer again, so a
  peer that is no longer in the table, with a cancelled context, is dialled again and again.
\<close>

theorem removed_peer_rearmed:
  "\<exists>s d. preachable s \<and> ps_peers s = Map.empty \<and>
     ph_cancelled (ps_heap s 0) \<and> ph_timer (ps_heap s 0) = Armed d"
proof -
  let ?s = "RemovePeer ''p'' (one_peer NoTimer initialDelay [TStartIfDisconnected 0] [] {})"
  let ?t = "upd 0 (startIfDisconnected (connected ?s 0) 0 0) (finish (TStartIfDisconnected 0) ?s)"
  have "preachable ?s" using preachable_step[OF one_peer_added api_remove] .
  then have "preachable ?t"
    by (rule preachable_step) (rule run_start, simp_all add: RemovePeer_def stop_def run_simps peering_consts)
  moreover have "ps_peers ?t = Map.empty" "ph_cancelled (ps_heap ?t 0)"
    "ph_timer (ps_heap ?t 0) = Armed 7500000000"
    by (simp_all add: RemovePeer_def stop_def run_simps backoff_example)
  ultimately show ?thesis by blast
qed

text \<open>
  A peer can be forgotten.  A running service can reach a state in which a peer of the
  table is disconnected, nothing is pending (no goroutine, no event, no armed timer), and a later
  \<^verbatim>\<open>startIfDisconnected\<close> does nothing either: the timer has fired, the dial succeeded, and the
  connection dropped again before \<^verbatim>\<open>stopIfConnected\<close> looked at it, so the fired timer is neither
  reset nor cleared.
\<close>

theorem peer_forgotten:
  "\<exists>s. preachable s \<and> ps_state s = StateRunning \<and> ps_peers s ''p'' = Some 0 \<and> ''p'' \<notin> ps_connected s \<and>
     ps_tasks s = [] \<and> ps_events s = [] \<and> (\<forall>h d. ph_timer (ps_heap s h) \<noteq> Armed d) \<and>
     (\<forall>r1 r2. startIfDisconnected False r1 r2 (ps_heap s 0) = ps_heap s 0)"
proof -
  let ?n = "7500000000 :: int"
  note steps = run_simps
  have "preachable (one_peer Fired ?n [TReconnect 0] [] {})"
    by (rule preach_step[OF one_peer_armed timer_fires[of _ 0 ?n]]) (simp_all add: steps)
  then have "preachable (one_peer Fired ?n [TReconnect 0] [EvConnected ''p''] {''p''})"
    by (rule preach_step[OF _ net_up[of _ "''p''"]]) (simp add: steps)
  then have "preachable (one_peer Fired ?n [TStopIfConnected 0] [EvConnected ''p''] {''p''})"
    by (rule preach_step[OF _ dial_ok[of 0]]) (simp_all add: steps)
  then have "preachable (one_peer Fired ?n [TStopIfConnected 0] [EvConnected ''p'', EvDisconnected ''p''] {})"
    by (rule preach_step[OF _ net_down[of _ "''p''"]]) (simp add: steps)
  then have "preachable (one_peer Fired ?n [] [EvConnected ''p'', EvDisconnected ''p''] {})"
    by (rule preach_step[OF _ run_stop[of 0]]) (simp_all add: steps)
  then have "preachable (one_peer Fired ?n [TStopIfConnected 0] [EvDisconnected ''p''] {})"
    by (rule preach_step[OF _ ev_up[of "''p''"]]) (simp_all add: steps)
  then have "preachable (one_peer Fired ?n [] [EvDisconnected ''p''] {})"
    by (rule preach_step[OF _ run_stop[of 0]]) (simp_all add: steps)
  then have "preachable (one_peer Fired ?n [TStartIfDisconnected 0] [] {})"
    by (rule preach_step[OF _ ev_down[of "''p''"]]) (simp_all add: steps)
  then have "preachable (one_peer Fired ?n [] [] {})"
    by (rule preach_step[OF _ run_start[of 0 _ 0 0]])
      (simp_all add: steps, simp add: peering_consts)
  then show ?thesis
    by (intro exI[of _ "one_peer Fired ?n [] [] {}"]) (simp add: steps dummyHandler_def)
qed

end
