(* ===== verification/P2P.thy ===== *)
theory P2P
  imports Prelude
begin

text \<open>
  Stream forwarding: \<^verbatim>\<open>src/p2p/{p2p,listener,stream,local,remote}.go\<close>.  Listener tables are maps
  from the listener's key; the stream registry keeps its streams, the number of streams per peer
  and the set of peers it has tagged in the connection manager.  Network endpoints are numbered
  handles whose state (open, closed, reset) is part of the model, so that a forgotten or a doubly
  closed endpoint shows.  \<^verbatim>\<open>manet.Listen\<close>, \<^verbatim>\<open>manet.Dial\<close>, \<^verbatim>\<open>NewStream\<close> and the multiaddr parser are
  other packages: their results are arguments.
\<close>

type_synonym peerID = string
type_synonym maddr = string
type_synonym handle = nat

datatype endpoint = Open | Closed | Reset

record Stream =
  st_id :: u64
  st_Protocol :: string
  st_OriginAddr :: maddr
  st_TargetAddr :: maddr
  st_peer :: peerID
  st_Local :: handle
  st_Remote :: handle

record StreamRegistry =
  sr_Streams :: "u64 \<rightharpoonup> Stream"
  sr_conns :: "peerID \<rightharpoonup> int"
  sr_nextID :: u64
  sr_tags :: "peerID set"

record localListener =
  ll_proto :: string
  ll_laddr :: maddr
  ll_peer :: peerID
  ll_listener :: handle

record remoteListener =
  rl_proto :: string
  rl_addr :: maddr
  rl_reportRemote :: bool

datatype Listener = LocalL localListener | RemoteL remoteListener

text \<open>The two kinds of failure of \<^verbatim>\<open>Register\<close> and of the address functions of other packages.\<close>

datatype p2p_error = ListenerAlreadyRegistered | External string

record p2p =
  ListenersLocal :: "string \<rightharpoonup> Listener"
  ListenersP2P :: "string \<rightharpoonup> Listener"
  Streams :: StreamRegistry
  ends :: "handle \<Rightarrow> endpoint"
  identity :: peerID
  created :: "Stream set"
  fresh :: handle

text \<open>Parameters for \<^verbatim>\<open>peer.ID.Pretty\<close> and \<^verbatim>\<open>ma.NewMultiaddr\<close>.\<close>

record addr_env =
  Pretty :: "peerID \<Rightarrow> string"
  NewMultiaddr :: "string \<Rightarrow> string + maddr"
  maPrefix :: string

section \<open>Construction\<close>

definition New_registry :: StreamRegistry where
  "New_registry = \<lparr>sr_Streams = Map.empty, sr_conns = Map.empty, sr_nextID = 0, sr_tags = {}\<rparr>"

definition New :: "peerID \<Rightarrow> p2p" where
  "New i = \<lparr>ListenersLocal = Map.empty, ListenersP2P = Map.empty, Streams = New_registry,
            ends = (\<lambda>_. Open), identity = i, created = {}, fresh = 0\<rparr>"

definition CheckProtoExists :: "string list \<Rightarrow> string \<Rightarrow> bool" where
  "CheckProtoExists protos proto = list_ex (\<lambda>p. p = proto) protos"

section \<open>Listeners\<close>

definition Protocol :: "Listener \<Rightarrow> string" where
  "Protocol l = (case l of LocalL x \<Rightarrow> ll_proto x | RemoteL x \<Rightarrow> rl_proto x)"

text \<open>\<^verbatim>\<open>TargetAddress\<close> of a local and \<^verbatim>\<open>ListenAddress\<close> of a remote listener panic (\<^term>\<open>None\<close>) when the address does not parse.\<close>

definition peer_addr :: "addr_env \<Rightarrow> peerID \<Rightarrow> maddr option" where
  "peer_addr e p = (case NewMultiaddr e (maPrefix e @ Pretty e p) of Inl _ \<Rightarrow> None | Inr a \<Rightarrow> Some a)"

definition ListenAddress :: "addr_env \<Rightarrow> p2p \<Rightarrow> Listener \<Rightarrow> maddr option" where
  "ListenAddress e s l = (case l of LocalL x \<Rightarrow> Some (ll_laddr x) | RemoteL x \<Rightarrow> peer_addr e (identity s))"

definition TargetAddress :: "addr_env \<Rightarrow> Listener \<Rightarrow> maddr option" where
  "TargetAddress e l = (case l of LocalL x \<Rightarrow> peer_addr e (ll_peer x) | RemoteL x \<Rightarrow> Some (rl_addr x))"

definition key :: "Listener \<Rightarrow> string" where
  "key l = (case l of LocalL x \<Rightarrow> ll_laddr x | RemoteL x \<Rightarrow> rl_proto x)"

definition close_listener :: "Listener \<Rightarrow> p2p \<Rightarrow> p2p" where
  "close_listener l s =
     (case l of LocalL x \<Rightarrow> s\<lparr>ends := (ends s)(ll_listener x := Closed)\<rparr> | RemoteL _ \<Rightarrow> s)"

definition Listeners_Register :: "Listener \<Rightarrow> (string \<rightharpoonup> Listener) \<Rightarrow> p2p_error + (string \<rightharpoonup> Listener)" where
  "Listeners_Register l m =
     (if key l \<in> dom m then Inl ListenerAlreadyRegistered else Inr (m(key l \<mapsto> l)))"

text \<open>
  The loop of \<^verbatim>\<open>Listeners.Close\<close> over the map.  \<open>order\<close> is the order in which the keys are met; an
  entry deleted before it is met is not visited.
\<close>

fun Close_loop :: "(Listener \<Rightarrow> bool) \<Rightarrow> string list \<Rightarrow> (string \<rightharpoonup> Listener) \<Rightarrow> Listener list \<Rightarrow>
    (string \<rightharpoonup> Listener) \<times> Listener list" where
  "Close_loop matchFunc [] m todo = (m, todo)"
| "Close_loop matchFunc (k # order) m todo =
     (case m k of
        None \<Rightarrow> Close_loop matchFunc order m todo
      | Some l \<Rightarrow>
          if \<not> matchFunc l then Close_loop matchFunc order m todo
          else if key l \<in> dom m then Close_loop matchFunc order (m(key l := None)) (todo @ [l])
          else Close_loop matchFunc order m todo)"

definition Listeners_Close_local :: "(Listener \<Rightarrow> bool) \<Rightarrow> string list \<Rightarrow> p2p \<Rightarrow> nat \<times> p2p" where
  "Listeners_Close_local matchFunc order s =
     (let (m, todo) = Close_loop matchFunc order (ListenersLocal s) []
      in (length todo, fold close_listener todo (s\<lparr>ListenersLocal := m\<rparr>)))"

definition Listeners_Close_p2p :: "(Listener \<Rightarrow> bool) \<Rightarrow> string list \<Rightarrow> p2p \<Rightarrow> nat \<times> p2p" where
  "Listeners_Close_p2p matchFunc order s =
     (let (m, todo) = Close_loop matchFunc order (ListenersP2P s) []
      in (length todo, fold close_listener todo (s\<lparr>ListenersP2P := m\<rparr>)))"

section \<open>Stream registry\<close>

text \<open>\<^verbatim>\<open>r.conns[p]\<close>: a missing entry reads as zero.\<close>

definition conns_get :: "StreamRegistry \<Rightarrow> peerID \<Rightarrow> int" where
  "conns_get r p = (case sr_conns r p of None \<Rightarrow> 0 | Some n \<Rightarrow> n)"

text \<open>
  \<^verbatim>\<open>Register\<close> returns the stream with the id it was given.  \<^verbatim>\<open>startStreaming\<close> starts the two copy
  goroutines; each ends in one \<^verbatim>\<open>Close\<close> or \<^verbatim>\<open>Reset\<close>, the steps below.
\<close>

definition Register :: "Stream \<Rightarrow> StreamRegistry \<Rightarrow> Stream \<times> StreamRegistry" where
  "Register streamInfo r =
     (let s = streamInfo\<lparr>st_id := sr_nextID r\<rparr>
      in (s, r\<lparr>sr_tags := insert (st_peer s) (sr_tags r),
               sr_conns := (sr_conns r)(st_peer s \<mapsto> conns_get r (st_peer s) + 1),
               sr_Streams := (sr_Streams r)(sr_nextID r \<mapsto> s),
               sr_nextID := sr_nextID r + 1\<rparr>))"

definition Deregister :: "u64 \<Rightarrow> StreamRegistry \<Rightarrow> StreamRegistry" where
  "Deregister streamID r =
     (case sr_Streams r streamID of
        None \<Rightarrow> r
      | Some s \<Rightarrow>
          (let p = st_peer s;
               n = conns_get r p - 1;
               r1 = r\<lparr>sr_conns := (sr_conns r)(p \<mapsto> n)\<rparr>;
               r2 = (if n < 1 then r1\<lparr>sr_conns := (sr_conns r1)(p := None), sr_tags := sr_tags r1 - {p}\<rparr> else r1)
           in r2\<lparr>sr_Streams := (sr_Streams r2)(streamID := None)\<rparr>))"

definition shut :: "endpoint \<Rightarrow> handle \<Rightarrow> p2p \<Rightarrow> p2p" where
  "shut how h s = s\<lparr>ends := (ends s)(h := how)\<rparr>"

definition StreamRegistry_Close :: "Stream \<Rightarrow> p2p \<Rightarrow> p2p" where
  "StreamRegistry_Close st s =
     (let s = shut Closed (st_Local st) s; s = shut Closed (st_Remote st) s
      in s\<lparr>Streams := Deregister (st_id st) (Streams s)\<rparr>)"

definition StreamRegistry_Reset :: "Stream \<Rightarrow> p2p \<Rightarrow> p2p" where
  "StreamRegistry_Reset st s =
     (let s = shut Closed (st_Local st) s; s = shut Reset (st_Remote st) s
      in s\<lparr>Streams := Deregister (st_id st) (Streams s)\<rparr>)"

text \<open>What a copy goroutine of \<^verbatim>\<open>startStreaming\<close> does when \<^verbatim>\<open>io.Copy\<close> returns.\<close>

definition copy_done :: "bool \<Rightarrow> Stream \<Rightarrow> p2p \<Rightarrow> p2p" where
  "copy_done failed st s = (if failed then StreamRegistry_Reset st s else StreamRegistry_Close st s)"

definition register_stream :: "Stream \<Rightarrow> p2p \<Rightarrow> p2p" where
  "register_stream st s =
     (let (st', r) = Register st (Streams s) in s\<lparr>Streams := r, created := insert st' (created s)\<rparr>)"

section \<open>Forwarding\<close>

text \<open>A new open endpoint, under the next handle.\<close>

definition open_end :: "p2p \<Rightarrow> p2p" where
  "open_end s = s\<lparr>fresh := Suc (fresh s), ends := (ends s)(fresh s := Open)\<rparr>"

text \<open>
  \<^verbatim>\<open>ForwardLocal\<close>: \<open>listen\<close> is the result of \<^verbatim>\<open>manet.Listen\<close>, an error or the bound address; a
  successful call opens a listener under a fresh handle.
\<close>

definition ForwardLocal :: "peerID \<Rightarrow> string \<Rightarrow> string + maddr \<Rightarrow> p2p \<Rightarrow> (p2p_error + Listener) \<times> p2p" where
  "ForwardLocal peer proto listen s =
     (case listen of
        Inl err \<Rightarrow> (Inl (External err), s)
      | Inr laddr \<Rightarrow>
          (let h = fresh s;
               s = open_end s;
               l = LocalL \<lparr>ll_proto = proto, ll_laddr = laddr, ll_peer = peer, ll_listener = h\<rparr>
           in case Listeners_Register l (ListenersLocal s) of
                Inl err \<Rightarrow> (Inl err, s)
              | Inr m \<Rightarrow> (Inr l, s\<lparr>ListenersLocal := m\<rparr>)))"

text \<open>\<^verbatim>\<open>acceptConns\<close>: the connections handed to \<^verbatim>\<open>setupStream\<close>, from the results of \<^verbatim>\<open>Accept\<close>.\<close>

datatype accept_result = Accepted handle | AcceptErr bool

fun acceptConns :: "accept_result list \<Rightarrow> handle list" where
  "acceptConns [] = []"
| "acceptConns (Accepted c # rs) = c # acceptConns rs"
| "acceptConns (AcceptErr temporary # rs) = (if temporary then acceptConns rs else [])"

text \<open>
  \<^verbatim>\<open>setupStream\<close> for an accepted connection \<open>local\<close> from the address \<open>origin\<close>; \<open>dialled\<close> tells
  whether \<^verbatim>\<open>dial\<close> opened a stream.  A target address that does not parse panics.
\<close>

definition setupStream :: "addr_env \<Rightarrow> localListener \<Rightarrow> handle \<Rightarrow> maddr \<Rightarrow> bool \<Rightarrow> p2p \<Rightarrow> p2p option" where
  "setupStream e l local origin dialled s =
     (if \<not> dialled then Some (shut Closed local s)
      else
        (let remote = fresh s;
             s = open_end s
         in case TargetAddress e (LocalL l) of
              None \<Rightarrow> None
            | Some target \<Rightarrow>
                Some (register_stream
                  \<lparr>st_id = 0, st_Protocol = ll_proto l, st_OriginAddr = origin, st_TargetAddr = target,
                   st_peer = ll_peer l, st_Local = local, st_Remote = remote\<rparr> s)))"

definition ForwardRemote :: "string \<Rightarrow> maddr \<Rightarrow> bool \<Rightarrow> p2p \<Rightarrow> (p2p_error + Listener) \<times> p2p" where
  "ForwardRemote proto addr reportRemote s =
     (let l = RemoteL \<lparr>rl_proto = proto, rl_addr = addr, rl_reportRemote = reportRemote\<rparr>
      in case Listeners_Register l (ListenersP2P s) of
           Inl err \<Rightarrow> (Inl err, s)
         | Inr m \<Rightarrow> (Inr l, s\<lparr>ListenersP2P := m\<rparr>))"

text \<open>
  \<^verbatim>\<open>handleStream\<close>: \<open>remote\<close> is the incoming stream, \<open>peer\<close> its remote peer; \<open>dialled\<close> and
  \<open>reported\<close> tell whether \<^verbatim>\<open>manet.Dial\<close> and the write of the peer's name succeeded.
\<close>

definition handleStream :: "addr_env \<Rightarrow> remoteListener \<Rightarrow> handle \<Rightarrow> peerID \<Rightarrow> bool \<Rightarrow> bool \<Rightarrow> p2p \<Rightarrow> p2p" where
  "handleStream e l remote peer dialled reported s =
     (if \<not> dialled then shut Reset remote s
      else
        (let local = fresh s;
             s = open_end s
         in if rl_reportRemote l \<and> \<not> reported then shut Reset remote s
            else case NewMultiaddr e (maPrefix e @ Pretty e peer) of
                   Inl _ \<Rightarrow> shut Reset remote s
                 | Inr peerMa \<Rightarrow>
                     register_stream
                       \<lparr>st_id = 0, st_Protocol = rl_proto l, st_OriginAddr = peerMa, st_TargetAddr = rl_addr l,
                        st_peer = peer, st_Local = local, st_Remote = remote\<rparr> s))"

text \<open>
  The stream handler that \<^verbatim>\<open>newListenersP2P\<close> installs: the match function, and the dispatch to
  the listener of the protocol.  The type assertion of the handler panics (\<^term>\<open>None\<close>) on another
  kind of listener.
\<close>

definition p2p_match :: "p2p \<Rightarrow> string \<Rightarrow> bool" where
  "p2p_match s p = (p \<in> dom (ListenersP2P s))"

definition p2p_dispatch :: "addr_env \<Rightarrow> string \<Rightarrow> handle \<Rightarrow> peerID \<Rightarrow> bool \<Rightarrow> bool \<Rightarrow> p2p \<Rightarrow> p2p option" where
  "p2p_dispatch e proto remote peer dialled reported s =
     (case ListenersP2P s proto of
        None \<Rightarrow> Some s
      | Some (RemoteL l) \<Rightarrow> Some (handleStream e l remote peer dialled reported s)
      | Some (LocalL _) \<Rightarrow> None)"

section \<open>Closing listeners\<close>

definition keyed :: "(string \<rightharpoonup> Listener) \<Rightarrow> bool" where
  "keyed m \<longleftrightarrow> (\<forall>k l. m k = Some l \<longrightarrow> key l = k)"

lemma keyed_empty [simp]: "keyed Map.empty"
  by (simp add: keyed_def)

lemma keyed_Register [go_inv]: "keyed m \<Longrightarrow> Listeners_Register l m = Inr m' \<Longrightarrow> keyed m'"
  by (auto simp: keyed_def Listeners_Register_def split: if_splits)

definition key_order :: "string list \<Rightarrow> (string \<rightharpoonup> Listener) \<Rightarrow> bool" where
  "key_order order m \<longleftrightarrow> distinct order \<and> set order = dom m"

definition matched :: "(Listener \<Rightarrow> bool) \<Rightarrow> (string \<rightharpoonup> Listener) \<Rightarrow> string \<Rightarrow> bool" where
  "matched f m k = (case m k of None \<Rightarrow> False | Some l \<Rightarrow> f l)"

lemma Close_loop_result:
  assumes "keyed m" and "distinct order"
  shows "Close_loop f order m todo =
    (\<lambda>k. if k \<in> set order \<and> matched f m k then None else m k,
     todo @ map (\<lambda>k. the (m k)) (filter (matched f m) order))"
  using assms
proof (induction order arbitrary: m todo)
  case (Cons k order)
  show ?case
  proof (cases "matched f m k")
    case True
    then obtain l where l: "m k = Some l" "f l" by (auto simp: matched_def split: option.splits)
    with Cons.prems have kl: "key l = k" by (auto simp: keyed_def)
    have k': "keyed (m(k := None))" using Cons.prems by (auto simp: keyed_def)
    have same: "matched f (m(k := None)) x = matched f m x" if "x \<in> set order" for x
      using that Cons.prems(2) by (auto simp: matched_def)
    have *: "map (\<lambda>x. the ((m(k := None)) x)) (filter (matched f (m(k := None))) order) =
        map (\<lambda>x. the (m x)) (filter (matched f m) order)"
      using Cons.prems(2) by (intro map_cong filter_cong) (auto simp: same)
    have "(\<lambda>x. if x \<in> set order \<and> matched f (m(k := None)) x then None else (m(k := None)) x) =
        (\<lambda>x. if x \<in> set (k # order) \<and> matched f m x then None else m x)"
      using True same by (auto simp: fun_eq_iff)
    note maps = this
    have "Close_loop f (k # order) m todo = Close_loop f order (m(k := None)) (todo @ [l])"
      using l kl by (simp add: domI)
    then show ?thesis
      unfolding Cons.IH[OF k' distinct_tl[OF Cons.prems(2), unfolded list.sel], of "todo @ [l]"] maps *
      using l True by simp
  next
    case False
    with Cons.IH[OF Cons.prems(1), of todo] Cons.prems show ?thesis
      by (auto simp: fun_eq_iff matched_def split: option.splits)
  qed
qed simp

section \<open>The registry invariant\<close>

text \<open>
  The counter of a peer is the number of its registered streams, the tagged peers are those with a
  counter, and every id handed out is below the next one.
\<close>

definition of_peer :: "StreamRegistry \<Rightarrow> peerID \<Rightarrow> u64 set" where
  "of_peer r p = {i. \<exists>s. sr_Streams r i = Some s \<and> st_peer s = p}"

definition registry_inv :: "StreamRegistry \<Rightarrow> bool" where
  "registry_inv r \<longleftrightarrow>
     (\<forall>p. conns_get r p = int (card (of_peer r p))) \<and>
     (\<forall>p n. sr_conns r p = Some n \<longrightarrow> 0 < n) \<and>
     sr_tags r = dom (sr_conns r) \<and>
     (\<forall>i s. sr_Streams r i = Some s \<longrightarrow> i < sr_nextID r \<and> st_id s = i)"

lemma registry_inv_new: "registry_inv New_registry"
  by (simp add: registry_inv_def New_registry_def conns_get_def of_peer_def)

lemma finite_of_peer [simp]: "finite (of_peer r p)"
  by (rule finite_subset[of _ UNIV]) auto

lemma word_less_succ: "(n::u64) + 1 \<noteq> 0 \<Longrightarrow> i \<le> n \<Longrightarrow> i < n + 1"
proof -
  assume "n + 1 \<noteq> 0" and "i \<le> n"
  have "uint n + 1 < 2 ^ 64"
    using \<open>n + 1 \<noteq> 0\<close> uint_lt2p[of n]
    by (cases "uint n + 1 = 2 ^ 64") (auto simp: uint_word_ariths word_uint_eq_iff)
  with \<open>i \<le> n\<close> show "i < n + 1" by (simp add: word_less_def word_le_def uint_word_ariths)
qed

lemma registry_inv_Register [go_inv]:
  assumes inv: "registry_inv r" and "sr_nextID r + 1 \<noteq> 0"
  shows "registry_inv (snd (Register st r))"
proof -
  let ?r = "snd (Register st r)" and ?p = "st_peer st" and ?n = "sr_nextID r"
  have fresh: "sr_Streams r ?n = None"
    using inv by (cases "sr_Streams r ?n") (auto simp: registry_inv_def)
  have "of_peer ?r p = (if p = ?p then insert ?n (of_peer r p) else of_peer r p)" for p
    using fresh by (auto simp: of_peer_def Register_def Let_def split: if_splits)
  moreover have "?n \<notin> of_peer r p" for p using fresh by (simp add: of_peer_def)
  ultimately have "int (card (of_peer ?r p)) = int (card (of_peer r p)) + (if p = ?p then 1 else 0)" for p
    by simp
  moreover have "conns_get ?r p = conns_get r p + (if p = ?p then 1 else 0)" for p
    by (simp add: Register_def conns_get_def Let_def)
  moreover have "?n < ?n + 1" using assms(2) by (simp add: word_less_succ)
  ultimately show ?thesis
    using inv word_less_succ[OF assms(2), OF less_imp_le]
    by (auto simp: registry_inv_def Register_def Let_def split: if_splits)
qed

lemma registry_inv_Deregister [go_inv]:
  assumes inv: "registry_inv r"
  shows "registry_inv (Deregister i r)"
proof (cases "sr_Streams r i")
  case None
  with inv show ?thesis by (simp add: Deregister_def)
next
  case (Some s)
  let ?r = "Deregister i r" and ?p = "st_peer s"
  have i: "i \<in> of_peer r ?p" using Some by (simp add: of_peer_def)
  have "of_peer ?r p = (if p = ?p then of_peer r p - {i} else of_peer r p)" for p
    using Some by (auto simp: of_peer_def Deregister_def Let_def split: if_splits)
  moreover have "card (of_peer r ?p) > 0" using i by (auto simp: card_gt_0_iff)
  ultimately have "int (card (of_peer ?r p)) = int (card (of_peer r p)) - (if p = ?p then 1 else 0)" for p
    using i by (simp add: of_nat_diff)
  moreover have "conns_get ?r p = conns_get r p - (if p = ?p then 1 else 0)" for p
    using Some inv \<open>card (of_peer r ?p) > 0\<close>
    by (auto simp: Deregister_def conns_get_def Let_def registry_inv_def split: option.splits)
  moreover have "?p \<in> dom (sr_conns r)"
    using inv \<open>card (of_peer r ?p) > 0\<close>
    by (auto simp: registry_inv_def conns_get_def split: option.splits)
  ultimately show ?thesis
    using inv Some
    by (auto simp: registry_inv_def Deregister_def Let_def split: if_splits)
qed

section \<open>Interleaving\<close>

text \<open>
  Everything that can happen to the forwarding state, in any order: API calls, accepted and
  incoming connections, and the end of a stream (a copy goroutine that returns, or a request to
  close it), any number of times per stream.  Stream ids are 64-bit; the relation covers
  executions in which the counter does not wrap.
\<close>

inductive p2pstep :: "addr_env \<Rightarrow> p2p \<Rightarrow> p2p \<Rightarrow> bool" for e where
  forward_local: "p2pstep e s (snd (ForwardLocal peer proto listen s))"
| forward_remote: "p2pstep e s (snd (ForwardRemote proto addr rep s))"
| close_local: "key_order order (ListenersLocal s) \<Longrightarrow> p2pstep e s (snd (Listeners_Close_local f order s))"
| close_p2p: "key_order order (ListenersP2P s) \<Longrightarrow> p2pstep e s (snd (Listeners_Close_p2p f order s))"
| local_conn: "sr_nextID (Streams s) + 1 \<noteq> 0 \<Longrightarrow>
    setupStream e l (fresh s) origin dialled (open_end s) = Some t \<Longrightarrow> p2pstep e s t"
| incoming: "sr_nextID (Streams s) + 1 \<noteq> 0 \<Longrightarrow>
    p2p_dispatch e proto (fresh s) peer dialled reported (open_end s) = Some t \<Longrightarrow> p2pstep e s t"
| stream_done: "st \<in> created s \<Longrightarrow> p2pstep e s (copy_done failed st s)"

abbreviation p2preach :: "addr_env \<Rightarrow> p2p \<Rightarrow> bool" where
  "p2preach e \<equiv> reachable (\<lambda>s. \<exists>i. s = New i) (p2pstep e)"

lemma p2preach_start: "p2preach e (New i)"
  by (rule reachable.start) blast

definition handles :: "Stream \<Rightarrow> handle set" where
  "handles st = {st_Local st, st_Remote st}"

definition registered :: "Stream \<Rightarrow> p2p \<Rightarrow> bool" where
  "registered st s \<longleftrightarrow> sr_Streams (Streams s) (st_id st) = Some st"

definition streams_inv :: "p2p \<Rightarrow> bool" where
  "streams_inv s \<longleftrightarrow>
     registry_inv (Streams s) \<and>
     (\<forall>st \<in> created s. st_id st < sr_nextID (Streams s) \<and> (\<forall>h \<in> handles st. h < fresh s) \<and>
        (if registered st s then (\<forall>h \<in> handles st. ends s h = Open)
         else (\<forall>h \<in> handles st. ends s h \<noteq> Open))) \<and>
     (\<forall>st \<in> created s. \<forall>st' \<in> created s. st \<noteq> st' \<longrightarrow> st_id st \<noteq> st_id st' \<and> handles st \<inter> handles st' = {}) \<and>
     ran (sr_Streams (Streams s)) \<subseteq> created s"

definition listeners_inv :: "p2p \<Rightarrow> bool" where
  "listeners_inv s \<longleftrightarrow>
     keyed (ListenersLocal s) \<and> keyed (ListenersP2P s) \<and>
     (\<forall>l \<in> ran (ListenersLocal s). \<exists>x. l = LocalL x \<and> ll_listener x < fresh s \<and>
        (\<forall>st \<in> created s. ll_listener x \<notin> handles st)) \<and>
     (\<forall>l \<in> ran (ListenersP2P s). \<exists>x. l = RemoteL x)"

lemma streams_inv_new: "streams_inv (New i)"
  by (simp add: streams_inv_def New_def registry_inv_new, simp add: New_registry_def)

lemma listeners_inv_new: "listeners_inv (New i)"
  by (simp add: listeners_inv_def New_def)

text \<open>Two states that agree on streams and on the endpoints of streams.\<close>

lemma streams_inv_cong:
  assumes "streams_inv s" and "Streams t = Streams s" and "created t = created s" and "fresh s \<le> fresh t"
    and "\<And>st h. st \<in> created s \<Longrightarrow> h \<in> handles st \<Longrightarrow> ends t h = ends s h"
  shows "streams_inv t"
  using assms unfolding streams_inv_def registered_def by (auto; meson less_le_trans)

lemma close_listener_simps [simp]:
  "Streams (close_listener l s) = Streams s" "created (close_listener l s) = created s"
  "fresh (close_listener l s) = fresh s" "ListenersP2P (close_listener l s) = ListenersP2P s"
  "ListenersLocal (close_listener l s) = ListenersLocal s"
  by (cases l; simp add: close_listener_def)+

lemma fold_close_simps [simp]:
  "Streams (fold close_listener ls s) = Streams s" "created (fold close_listener ls s) = created s"
  "fresh (fold close_listener ls s) = fresh s" "ListenersP2P (fold close_listener ls s) = ListenersP2P s"
  "ListenersLocal (fold close_listener ls s) = ListenersLocal s"
  by (induction ls arbitrary: s) auto

lemma fold_close_ends:
  "(\<And>x. LocalL x \<in> set ls \<Longrightarrow> ll_listener x \<noteq> h) \<Longrightarrow> ends (fold close_listener ls s) h = ends s h"
  by (induction ls arbitrary: s) (auto simp: close_listener_def split: Listener.splits)

lemma fold_close_closed:
  "LocalL x \<in> set ls \<Longrightarrow> ends (fold close_listener ls s) (ll_listener x) = Closed"
proof (induction ls arbitrary: s)
  case (Cons l ls)
  show ?case
  proof (cases "LocalL x \<in> set ls")
    case True
    with Cons.IH show ?thesis by simp
  next
    case False
    with Cons.prems have l: "l = LocalL x" by simp
    have now: "ends (close_listener l s) (ll_listener x) = Closed" by (simp add: l close_listener_def)
    have "ends (fold close_listener ls s') (ll_listener x) = Closed"
      if "ends s' (ll_listener x) = Closed" for s'
      using that by (induction ls arbitrary: s') (auto simp: close_listener_def split: Listener.splits)
    from this[OF now] show ?thesis by simp
  qed
qed simp

text \<open>
  \<^verbatim>\<open>Listeners.Close\<close> as a contract: whichever table it works on, the matching listeners leave
  the table and are closed, their number is returned, and nothing else changes.
\<close>

locale listener_table =
  fixes table :: "p2p \<Rightarrow> string \<rightharpoonup> Listener"
    and put :: "(string \<rightharpoonup> Listener) \<Rightarrow> p2p \<Rightarrow> p2p"
    and Close :: "(Listener \<Rightarrow> bool) \<Rightarrow> string list \<Rightarrow> p2p \<Rightarrow> nat \<times> p2p"
  assumes Close_table: "Close f order s = (let (m, todo) = Close_loop f order (table s) []
      in (length todo, fold close_listener todo (put m s)))"
    and table_put: "table (put m s) = m"
    and table_close: "table (close_listener l s) = table s"
    and put_frame: "ends (put m s) = ends s" "Streams (put m s) = Streams s" "created (put m s) = created s"
      "fresh (put m s) = fresh s"
begin

lemma Close_result:
  assumes "keyed (table s)" and "key_order order (table s)"
  shows "Close f order s =
    (length (filter (matched f (table s)) order),
     fold close_listener (map (\<lambda>k. the (table s k)) (filter (matched f (table s)) order))
       (put (\<lambda>k. if matched f (table s) k then None else table s k) s))"
proof -
  have "k \<in> set order" if "matched f (table s) k" for k
    using that assms(2) by (auto simp: matched_def key_order_def split: option.splits)
  then have "(\<lambda>k. if k \<in> set order \<and> matched f (table s) k then None else table s k) =
      (\<lambda>k. if matched f (table s) k then None else table s k)"
    by auto
  with Close_loop_result[OF assms(1), of order f "[]"] assms(2) show ?thesis
    by (simp add: Close_table key_order_def)
qed

lemma Close_exact:
  assumes "keyed (table s)" and "key_order order (table s)" and "Close f order s = (n, t)"
  shows "table t = (\<lambda>k. if matched f (table s) k then None else table s k)"
    and "n = card {k. matched f (table s) k}"
    and "table s k = Some (LocalL x) \<Longrightarrow> f (LocalL x) \<Longrightarrow> ends t (ll_listener x) = Closed"
    and "(\<And>x. LocalL x \<in> ran (table s) \<Longrightarrow> ll_listener x \<noteq> h) \<Longrightarrow> ends t h = ends s h"
    and "Streams t = Streams s" and "created t = created s" and "fresh t = fresh s"
proof -
  let ?ks = "filter (matched f (table s)) order" and ?m = "\<lambda>k. if matched f (table s) k then None else table s k"
  let ?todo = "map (\<lambda>k. the (table s k)) ?ks"
  have n: "n = length ?ks" and t: "t = fold close_listener ?todo (put ?m s)"
    using Close_result[OF assms(1,2), of f] assms(3) by simp_all
  have fold: "table (fold close_listener ls u) = table u" for ls u
    by (induction ls arbitrary: u) (simp_all add: table_close)
  show "table t = ?m" by (simp add: t fold table_put)
  have ks: "set ?ks = {k. matched f (table s) k}"
    using assms(2) by (auto simp: key_order_def matched_def split: option.splits)
  moreover have "distinct ?ks" using assms(2) by (simp add: key_order_def)
  ultimately show "n = card {k. matched f (table s) k}" using n distinct_card by metis
  show "ends t (ll_listener x) = Closed" if "table s k = Some (LocalL x)" "f (LocalL x)"
  proof -
    have "k \<in> set ?ks" using that ks by (simp add: matched_def)
    then have "the (table s k) \<in> set ?todo" unfolding set_map by (rule imageI)
    with that(1) show ?thesis unfolding t by (intro fold_close_closed) simp
  qed
  show "ends t h = ends s h" if "\<And>x. LocalL x \<in> ran (table s) \<Longrightarrow> ll_listener x \<noteq> h"
  proof -
    have "LocalL x \<in> ran (table s)" if "LocalL x \<in> set ?todo" for x
      using that by (auto simp: ran_def matched_def split: option.splits)
    with that show ?thesis unfolding t by (subst fold_close_ends) (auto simp: put_frame)
  qed
qed (use Close_result[OF assms(1,2), of f] assms(3) in \<open>simp_all add: put_frame\<close>)

lemma table_le: "(\<lambda>k. if matched f (table s) k then None else table s k) \<subseteq>\<^sub>m table s"
  by (auto simp: map_le_def)

end

interpretation local_table: listener_table ListenersLocal "\<lambda>m s. s\<lparr>ListenersLocal := m\<rparr>" Listeners_Close_local
  by unfold_locales (simp_all add: Listeners_Close_local_def)

interpretation p2p_table: listener_table ListenersP2P "\<lambda>m s. s\<lparr>ListenersP2P := m\<rparr>" Listeners_Close_p2p
  by unfold_locales (simp_all add: Listeners_Close_p2p_def)

lemma ran_le: "m' \<subseteq>\<^sub>m m \<Longrightarrow> ran m' \<subseteq> ran m"
  by (auto simp: map_le_def ran_def dom_def) metis

section \<open>Preservation\<close>

lemma register_stream_proj [simp]:
  "ends (register_stream st s) = ends s" "fresh (register_stream st s) = fresh s"
  "ListenersLocal (register_stream st s) = ListenersLocal s"
  "ListenersP2P (register_stream st s) = ListenersP2P s"
  "Streams (register_stream st s) = snd (Register st (Streams s))"
  "created (register_stream st s) = insert (st\<lparr>st_id := sr_nextID (Streams s)\<rparr>) (created s)"
  by (simp_all add: register_stream_def Register_def Let_def)

lemma handles_id [simp]: "handles (st\<lparr>st_id := i\<rparr>) = handles st"
  by (simp add: handles_def)

lemma streams_inv_register [go_inv]:
  assumes inv: "streams_inv s" and next_id: "sr_nextID (Streams s) + 1 \<noteq> 0"
    and new: "\<And>h. h \<in> handles st \<Longrightarrow> ends s h = Open \<and> h < fresh s"
    and disj: "\<And>x. x \<in> created s \<Longrightarrow> handles x \<inter> handles st = {}"
  shows "streams_inv (register_stream st s)"
proof -
  let ?r = "Streams s" and ?st = "st\<lparr>st_id := sr_nextID (Streams s)\<rparr>"
  let ?r' = "snd (Register st ?r)"
  have r': "sr_Streams ?r' = (sr_Streams ?r)(sr_nextID ?r \<mapsto> ?st)" "sr_nextID ?r' = sr_nextID ?r + 1"
    by (simp_all add: Register_def Let_def)
  have ids: "st_id x < sr_nextID ?r" if "x \<in> created s" for x
    using inv that by (simp add: streams_inv_def)
  have "registry_inv ?r'" using inv next_id by (simp add: streams_inv_def registry_inv_Register)
  moreover have "registered x (register_stream st s) = registered x s" if "x \<in> created s" for x
    using ids[OF that] by (auto simp: registered_def r')
  moreover have "registered ?st (register_stream st s)" by (simp add: registered_def r')
  moreover have "ran (sr_Streams ?r') \<subseteq> insert ?st (created s)"
    using inv by (auto simp: r' streams_inv_def ran_def split: if_splits)
  moreover have "st_id x < sr_nextID ?r + 1" if "x \<in> created s" for x
    using ids[OF that] by (simp add: word_less_succ[OF next_id])
  moreover have "st_id x \<noteq> sr_nextID ?r" if "x \<in> created s" for x using ids[OF that] by auto
  ultimately show ?thesis
    using inv new disj word_less_succ[OF next_id order_refl]
    unfolding streams_inv_def register_stream_proj r'
    by (auto simp: Int_commute; fastforce)
qed

lemma Deregister_Streams:
  "sr_Streams (Deregister i r) = (sr_Streams r)(i := None)" "sr_nextID (Deregister i r) = sr_nextID r"
  by (auto simp: Deregister_def Let_def fun_eq_iff split: option.splits)

lemma copy_done_proj [simp]:
  "Streams (copy_done b st s) = Deregister (st_id st) (Streams s)"
  "created (copy_done b st s) = created s" "fresh (copy_done b st s) = fresh s"
  "ListenersLocal (copy_done b st s) = ListenersLocal s" "ListenersP2P (copy_done b st s) = ListenersP2P s"
  "h \<notin> handles st \<Longrightarrow> ends (copy_done b st s) h = ends s h"
  "h \<in> handles st \<Longrightarrow> ends (copy_done b st s) h \<noteq> Open"
  by (auto simp: copy_done_def StreamRegistry_Close_def StreamRegistry_Reset_def shut_def handles_def Let_def)

lemma streams_inv_disj:
  "streams_inv s \<Longrightarrow> x \<in> created s \<Longrightarrow> y \<in> created s \<Longrightarrow> x \<noteq> y \<Longrightarrow> h \<in> handles x \<Longrightarrow> h \<notin> handles y"
  unfolding streams_inv_def disjoint_iff by blast

lemma streams_inv_copy_done [go_inv]:
  assumes inv: "streams_inv s" and st: "st \<in> created s"
  shows "streams_inv (copy_done b st s)"
proof -
  let ?t = "copy_done b st s"
  have reg: "registered x ?t \<longleftrightarrow> registered x s \<and> x \<noteq> st" if "x \<in> created s" for x
    using inv st that by (auto simp: registered_def Deregister_Streams streams_inv_def)
  have old: "ends ?t h = ends s h" if "x \<in> created s" "x \<noteq> st" "h \<in> handles x" for x h
    using streams_inv_disj[OF inv that(1) st that(2,3)] by simp
  have "if registered x ?t then \<forall>h \<in> handles x. ends ?t h = Open else \<forall>h \<in> handles x. ends ?t h \<noteq> Open"
    if x: "x \<in> created s" for x
  proof (cases "x = st")
    case True
    then show ?thesis using reg[OF x] copy_done_proj(7) by simp
  next
    case False
    have "if registered x s then \<forall>h \<in> handles x. ends s h = Open else \<forall>h \<in> handles x. ends s h \<noteq> Open"
      using inv x by (simp add: streams_inv_def)
    then show ?thesis using reg[OF x] old[OF x False] False by simp
  qed
  moreover have "ran (sr_Streams (Streams ?t)) \<subseteq> created s"
    using inv by (auto simp: streams_inv_def Deregister_Streams ran_def split: if_splits)
  ultimately show ?thesis
    using inv unfolding streams_inv_def copy_done_proj Deregister_Streams
    by (simp add: registry_inv_Deregister Deregister_Streams)
qed

lemma fresh_handle:
  assumes "streams_inv s" and "st \<in> created s" and "fresh s \<le> n"
  shows "n \<notin> handles st"
  using assms by (fastforce simp: streams_inv_def)

lemma streams_inv_open_end [go_inv]:
  assumes "streams_inv s"
  shows "streams_inv (open_end s)"
  using fresh_handle[OF assms _ order_refl] by (intro streams_inv_cong[OF assms]) (auto simp: open_end_def)

lemma streams_inv_shut:
  "streams_inv s \<Longrightarrow> (\<And>x. x \<in> created s \<Longrightarrow> h \<notin> handles x) \<Longrightarrow> streams_inv (shut how h s)"
  by (erule streams_inv_cong) (auto simp: shut_def)

lemma open_end_proj [simp]:
  "fresh (open_end s) = Suc (fresh s)" "created (open_end s) = created s" "Streams (open_end s) = Streams s"
  "ListenersP2P (open_end s) = ListenersP2P s" "ListenersLocal (open_end s) = ListenersLocal s"
  "ends (open_end s) = (ends s)(fresh s := Open)"
  by (simp_all add: open_end_def)

text \<open>Registering a stream over two endpoints just opened.\<close>

lemma streams_inv_two_ends:
  assumes "streams_inv s" and "sr_nextID (Streams s) + 1 \<noteq> 0" and "handles st = {fresh s, Suc (fresh s)}"
  shows "streams_inv (register_stream st (open_end (open_end s)))"
  using assms fresh_handle[OF assms(1)]
  by (intro streams_inv_register streams_inv_open_end) auto

lemma setupStream_inv [go_inv]:
  assumes "streams_inv s" "sr_nextID (Streams s) + 1 \<noteq> 0"
    and "setupStream e l (fresh s) origin dialled (open_end s) = Some t"
  shows "streams_inv t"
  using assms fresh_handle[OF assms(1) _ order_refl]
  by (auto simp: setupStream_def Let_def handles_def
      intro!: streams_inv_shut streams_inv_open_end streams_inv_two_ends split: if_splits option.splits)

lemma handleStream_inv [go_inv]:
  assumes "streams_inv s" "sr_nextID (Streams s) + 1 \<noteq> 0"
  shows "streams_inv (handleStream e l (fresh s) peer dialled reported (open_end s))"
  using assms fresh_handle[OF assms(1) _ order_refl]
  by (auto simp: handleStream_def Let_def handles_def insert_commute
      intro!: streams_inv_shut streams_inv_open_end streams_inv_two_ends split: sum.splits)

lemma ForwardLocal_inv [go_inv]:
  assumes "streams_inv s"
  shows "streams_inv (snd (ForwardLocal peer proto listen s))"
  using assms streams_inv_cong[OF streams_inv_open_end[OF assms]]
  by (auto simp: ForwardLocal_def Let_def streams_inv_open_end split: sum.splits)

lemma listeners_inv_cong:
  assumes "listeners_inv s" and "ListenersLocal t \<subseteq>\<^sub>m ListenersLocal s" and "ListenersP2P t \<subseteq>\<^sub>m ListenersP2P s"
    and "fresh s \<le> fresh t" and "\<And>st. st \<in> created t \<Longrightarrow> st \<in> created s \<or> (\<forall>h \<in> handles st. fresh s \<le> h)"
  shows "listeners_inv t"
proof -
  have sub: "l \<in> ran (ListenersLocal s)" if "l \<in> ran (ListenersLocal t)" for l
    using ran_le[OF assms(2)] that by auto
  moreover have "l \<in> ran (ListenersP2P s)" if "l \<in> ran (ListenersP2P t)" for l
    using ran_le[OF assms(3)] that by auto
  moreover have "keyed (ListenersLocal t)" "keyed (ListenersP2P t)"
    using assms(1-3) by (auto simp: listeners_inv_def keyed_def map_le_def dom_def; metis)+
  ultimately show ?thesis
    using assms(1,4,5) unfolding listeners_inv_def
    by (metis (no_types, opaque_lifting) le_antisym less_le_trans less_or_eq_imp_le linorder_not_less)
qed

lemma Close_local_frame: "ListenersP2P (snd (Listeners_Close_local f order s)) = ListenersP2P s"
  by (simp add: Listeners_Close_local_def split: prod.splits)

lemma Close_p2p_frame: "ListenersLocal (snd (Listeners_Close_p2p f order s)) = ListenersLocal s"
  by (simp add: Listeners_Close_p2p_def split: prod.splits)

lemma Close_local_inv [go_inv]:
  assumes "streams_inv s" "listeners_inv s" "key_order order (ListenersLocal s)"
  shows "streams_inv (snd (Listeners_Close_local f order s)) \<and>
    listeners_inv (snd (Listeners_Close_local f order s))"
proof -
  have "keyed (ListenersLocal s)" using assms(2) by (simp add: listeners_inv_def)
  note c = local_table.Close_exact[OF this assms(3) prod.collapse[symmetric]]
  have "ends (snd (Listeners_Close_local f order s)) h = ends s h" if "st \<in> created s" "h \<in> handles st" for st h
    using assms(2) that by (intro c(4)) (fastforce simp: listeners_inv_def)
  with c(1,5-7) show ?thesis
    by (auto intro!: streams_inv_cong[OF assms(1)] listeners_inv_cong[OF assms(2)] local_table.table_le
        simp: Close_local_frame)
qed

lemma Close_p2p_inv [go_inv]:
  assumes "streams_inv s" "listeners_inv s" "key_order order (ListenersP2P s)"
  shows "streams_inv (snd (Listeners_Close_p2p f order s)) \<and>
    listeners_inv (snd (Listeners_Close_p2p f order s))"
proof -
  have "keyed (ListenersP2P s)" using assms(2) by (simp add: listeners_inv_def)
  note c = p2p_table.Close_exact[OF this assms(3) prod.collapse[symmetric]]
  have "ends (snd (Listeners_Close_p2p f order s)) h = ends s h" for h
    using assms(2) by (intro c(4)) (fastforce simp: listeners_inv_def)
  with c(1,5-7) show ?thesis
    by (auto intro!: streams_inv_cong[OF assms(1)] listeners_inv_cong[OF assms(2)] p2p_table.table_le
        simp: Close_p2p_frame)
qed

lemma ForwardLocal_listeners [go_inv]:
  assumes "streams_inv s" "listeners_inv s"
  shows "listeners_inv (snd (ForwardLocal peer proto listen s))"
  using assms fresh_handle[OF assms(1) _ order_refl] listeners_inv_cong[OF assms(2), of "open_end s"]
  by (auto simp: ForwardLocal_def Let_def Listeners_Register_def listeners_inv_def keyed_def ran_def
      less_SucI split: sum.splits if_splits)

lemma ForwardRemote_inv [go_inv]:
  assumes "streams_inv s" "listeners_inv s"
  shows "streams_inv (snd (ForwardRemote proto addr rep s))" "listeners_inv (snd (ForwardRemote proto addr rep s))"
  using assms streams_inv_cong[OF assms(1)]
  by (auto simp: ForwardRemote_def Let_def Listeners_Register_def listeners_inv_def keyed_def ran_def
      split: sum.splits if_splits)

lemma listeners_inv_two_ends:
  assumes "listeners_inv s" and "handles st = {fresh s, Suc (fresh s)}"
  shows "listeners_inv (register_stream st (open_end (open_end s)))"
  by (rule listeners_inv_cong[OF assms(1)]) (auto simp: assms(2))

lemma shut_proj [simp]:
  "ListenersLocal (shut how h s) = ListenersLocal s" "ListenersP2P (shut how h s) = ListenersP2P s"
  "fresh (shut how h s) = fresh s" "created (shut how h s) = created s"
  by (simp_all add: shut_def)

lemma setupStream_listeners [go_inv]:
  assumes "listeners_inv s" and "setupStream e l (fresh s) origin dialled (open_end s) = Some t"
  shows "listeners_inv t"
  using assms
  by (auto simp: setupStream_def Let_def handles_def intro!: listeners_inv_two_ends listeners_inv_cong[OF assms(1)]
      split: if_splits option.splits)

lemma handleStream_listeners [go_inv]:
  assumes "listeners_inv s"
  shows "listeners_inv (handleStream e l (fresh s) peer dialled reported (open_end s))"
proof -
  have "listeners_inv (shut Reset (fresh s) (open_end s))" "listeners_inv (shut Reset (fresh s) (open_end (open_end s)))"
    by (rule listeners_inv_cong[OF assms]; simp)+
  with assms show ?thesis
    by (auto simp: handleStream_def Let_def handles_def insert_commute intro!: listeners_inv_two_ends
        split: sum.splits)
qed

lemma p2pstep_inv:
  "p2pstep e s t \<Longrightarrow> streams_inv s \<and> listeners_inv s \<Longrightarrow> streams_inv t \<and> listeners_inv t"
proof (induction rule: p2pstep.induct)
  case (local_conn s l origin dialled t)
  then show ?case using setupStream_inv setupStream_listeners by blast
next
  case (incoming s proto peer dialled reported t)
  then show ?case
    using streams_inv_open_end listeners_inv_cong[of s "open_end s"]
    by (auto simp: p2p_dispatch_def handleStream_inv handleStream_listeners
        split: option.splits Listener.splits)
next
  case (stream_done st s failed)
  then show ?case
    using listeners_inv_cong[of s "copy_done failed st s"] by (simp add: streams_inv_copy_done)
qed (simp_all add: ForwardLocal_inv ForwardLocal_listeners ForwardRemote_inv Close_local_inv Close_p2p_inv)

interpretation p2psys: transition_system "\<lambda>s. \<exists>i. s = New i" "p2pstep e" "\<lambda>s. streams_inv s \<and> listeners_inv s" for e
  by unfold_locales (use streams_inv_new listeners_inv_new p2pstep_inv in blast)+

section \<open>Properties\<close>

lemma streams_open_iff_registered_parts:
  assumes "p2preach e s" and "st \<in> created s"
  shows "ends s (st_Local st) = Open \<longleftrightarrow> registered st s"
    and "ends s (st_Remote st) = Open \<longleftrightarrow> registered st s"
    and "st' \<in> created s \<Longrightarrow> st' \<noteq> st \<Longrightarrow> registered st' (copy_done failed st s) = registered st' s"
proof -
  note inv = conjunct1[OF p2psys.reachable_inv[OF assms(1)]]
  show "ends s (st_Local st) = Open \<longleftrightarrow> registered st s" "ends s (st_Remote st) = Open \<longleftrightarrow> registered st s"
    using inv assms(2) by (auto simp: streams_inv_def handles_def split: if_splits)
  show "registered st' (copy_done failed st s) = registered st' s" if "st' \<in> created s" "st' \<noteq> st"
    using inv assms(2) that by (auto simp: streams_inv_def registered_def Deregister_Streams)
qed


definition p2p_demo_env :: addr_env where
  "p2p_demo_env = \<lparr>Pretty = id, NewMultiaddr = Inr, maPrefix = ''/p2p/''\<rparr>"

definition demo_listener :: localListener where
  "demo_listener = \<lparr>ll_proto = ''/x/a'', ll_laddr = ''l'', ll_peer = ''P'', ll_listener = 0\<rparr>"

definition demo_state :: p2p where
  "demo_state = the (setupStream p2p_demo_env demo_listener 0 ''o'' True (open_end (New ''I'')))"

definition demo_stream :: Stream where
  "demo_stream = \<lparr>st_id = 0, st_Protocol = ''/x/a'', st_OriginAddr = ''o'', st_TargetAddr = ''/p2p/P'',
     st_peer = ''P'', st_Local = 0, st_Remote = 1\<rparr>"

lemmas p2p_demo_defs = demo_state_def p2p_demo_env_def demo_listener_def demo_stream_def setupStream_def
  TargetAddress_def peer_addr_def New_def New_registry_def

lemma demo_state_reach: "p2preach p2p_demo_env demo_state"
proof -
  have "setupStream p2p_demo_env demo_listener (fresh (New ''I'')) ''o'' True (open_end (New ''I'')) = Some demo_state"
    by (simp add: p2p_demo_defs Let_def)
  then show ?thesis
    by (rule reachable.step[OF p2preach_start local_conn, rotated 1]) (simp add: New_def New_registry_def)
qed


lemma registry_counts_parts:
  assumes "p2preach e s"
  shows "conns_get (Streams s) p = int (card {i. \<exists>st. sr_Streams (Streams s) i = Some st \<and> st_peer st = p})"
    and "p \<in> sr_tags (Streams s) \<longleftrightarrow> (\<exists>i st. sr_Streams (Streams s) i = Some st \<and> st_peer st = p)"
proof -
  have inv: "registry_inv (Streams s)" using p2psys.reachable_inv[OF assms] by (simp add: streams_inv_def)
  then show count: "conns_get (Streams s) p = int (card {i. \<exists>st. sr_Streams (Streams s) i = Some st \<and> st_peer st = p})"
    by (simp add: registry_inv_def of_peer_def)
  have "p \<in> sr_tags (Streams s) \<longleftrightarrow> 0 < conns_get (Streams s) p"
  proof -
    have "sr_tags (Streams s) = dom (sr_conns (Streams s))" "sr_conns (Streams s) p = Some n \<Longrightarrow> 0 < n" for n
      using inv by (simp_all add: registry_inv_def)
    then show ?thesis by (auto simp: conns_get_def split: option.splits)
  qed
  also have "\<dots> \<longleftrightarrow> of_peer (Streams s) p \<noteq> {}"
    using count by (simp add: of_peer_def[symmetric] card_gt_0_iff)
  finally show "p \<in> sr_tags (Streams s) \<longleftrightarrow> (\<exists>i st. sr_Streams (Streams s) i = Some st \<and> st_peer st = p)"
    by (auto simp: of_peer_def)
qed

text \<open>
  In every reachable state the counter of a peer is the number of its registered streams,
  and the connection manager holds the tag of exactly the peers that have one.
\<close>

theorem registry_counts:
  assumes "p2preach e s"
  shows "(conns_get (Streams s) p = int (card {i. \<exists>st. sr_Streams (Streams s) i = Some st \<and> st_peer st = p})) \<and>
    (p \<in> sr_tags (Streams s) \<longleftrightarrow> (\<exists>i st. sr_Streams (Streams s) i = Some st \<and> st_peer st = p))"
  using registry_counts_parts[OF assms] by blast

theorem registry_counts_witness: "conns_get (Streams demo_state) ''P'' = 1 \<and> sr_tags (Streams demo_state) = {''P''}"
  using registry_counts[OF demo_state_reach, of "''P''"]
  by (simp add: p2p_demo_defs Let_def Register_def conns_get_def)

text \<open>
  \<^verbatim>\<open>Listeners.Close\<close>, on either table and in whatever order the map is met: exactly the
  matching listeners are removed, the count returned is their number, the sockets of the local
  ones are closed, and no stream is affected.
\<close>

theorem Listeners_Close_exact:
  assumes "p2preach e s"
    and "distinct order \<and> set order = dom (ListenersLocal s)" and "Listeners_Close_local f order s = (n, t)"
    and "distinct order' \<and> set order' = dom (ListenersP2P s)" and "Listeners_Close_p2p f order' s = (n', t')"
  shows "ListenersLocal t = (\<lambda>k. if matched f (ListenersLocal s) k then None else ListenersLocal s k) \<and>
    ListenersP2P t' = (\<lambda>k. if matched f (ListenersP2P s) k then None else ListenersP2P s k) \<and>
    n = card {k. matched f (ListenersLocal s) k} \<and> n' = card {k. matched f (ListenersP2P s) k} \<and>
    (ListenersLocal s k = Some (LocalL x) \<longrightarrow> f (LocalL x) \<longrightarrow> ends t (ll_listener x) = Closed) \<and>
    (st \<in> created s \<longrightarrow> registered st t = registered st s \<and> registered st t' = registered st s \<and>
       ends t (st_Local st) = ends s (st_Local st))"
proof -
  have inv: "listeners_inv s" and keyed: "keyed (ListenersLocal s)" "keyed (ListenersP2P s)"
    and ord: "key_order order (ListenersLocal s)" "key_order order' (ListenersP2P s)"
    using p2psys.reachable_inv[OF assms(1)] assms(2,4) by (auto simp: key_order_def listeners_inv_def)
  note l = local_table.Close_exact[OF keyed(1) ord(1) assms(3)] and r = p2p_table.Close_exact[OF keyed(2) ord(2) assms(5)]
  have "ends t (st_Local st) = ends s (st_Local st)" if "st \<in> created s"
    using inv that by (intro l(4)) (fastforce simp: listeners_inv_def handles_def)
  with l r(1,2,5) show ?thesis unfolding registered_def by (intro conjI impI) simp_all
qed

theorem Listeners_Close_exact_witness:
  "fst (Listeners_Close_local (\<lambda>l. Protocol l = ''a'') [''l'']
     (snd (ForwardLocal ''P'' ''a'' (Inr ''l'') (New ''I'')))) = card {''l''}"
proof -
  let ?s = "snd (ForwardLocal ''P'' ''a'' (Inr ''l'') (New ''I''))" and ?f = "\<lambda>l. Protocol l = ''a''"
  have r: "p2preach p2p_demo_env ?s" by (rule reachable.step[OF p2preach_start forward_local])
  have m: "ListenersLocal ?s = [''l'' \<mapsto> LocalL \<lparr>ll_proto = ''a'', ll_laddr = ''l'', ll_peer = ''P'', ll_listener = 0\<rparr>]"
    "ListenersP2P ?s = Map.empty"
    by (simp_all add: ForwardLocal_def New_def Listeners_Register_def key_def Let_def open_end_def)
  have "fst (Listeners_Close_local ?f [''l''] ?s) = card {k. matched ?f (ListenersLocal ?s) k}"
    using Listeners_Close_exact[OF r _ prod.collapse[symmetric] _ prod.collapse[symmetric], of "[''l'']" "[]" ?f]
    unfolding m by simp
  then show ?thesis unfolding m by (simp add: matched_def Protocol_def split: if_splits)
qed

text \<open>
  Dispatch of an incoming stream.  In every reachable state the handler's type assertion
  never panics, and a protocol accepted by the match function is served by the listener registered
  for exactly that protocol.
\<close>

theorem p2p_dispatch_safe:
  assumes "p2preach e s"
  shows "p2p_dispatch e' proto remote peer dialled reported s \<noteq> None"
    and "p2p_match s proto \<Longrightarrow> \<exists>l. ListenersP2P s proto = Some (RemoteL l) \<and> rl_proto l = proto \<and>
      p2p_dispatch e' proto remote peer dialled reported s = Some (handleStream e' l remote peer dialled reported s)"
  using p2psys.reachable_inv[OF assms]
  by (fastforce simp: p2p_dispatch_def p2p_match_def listeners_inv_def keyed_def key_def ran_def
      split: option.splits Listener.splits)+

theorem p2p_dispatch_safe_witness:
  "p2p_dispatch p2p_demo_env ''/x/a'' 5 ''P'' True True (snd (ForwardRemote ''/x/a'' ''t'' False (New ''I''))) \<noteq> None"
  by (rule p2p_dispatch_safe(1)[OF reachable.step[OF p2preach_start forward_remote]])

text \<open>
  Leaked sockets.  When the bound address is already registered, \<^verbatim>\<open>ForwardLocal\<close> returns the
  error but leaves the socket it has just opened open and reachable from no table; and when
  \<^verbatim>\<open>handleStream\<close> fails after dialling the target, it resets the remote stream but never closes
  the local connection.
\<close>

theorem forward_leaks:
  assumes "laddr \<in> dom (ListenersLocal s)" and "ForwardLocal peer proto (Inr laddr) s = (r, t)"
    and "rl_reportRemote l" and "remote \<noteq> fresh s"
    and "u = handleStream e l remote peer True False s"
  shows "r = Inl ListenerAlreadyRegistered" and "ends t (fresh s) = Open" and "ListenersLocal t = ListenersLocal s"
    and "ends u (fresh s) = Open" and "ends u remote = Reset" and "Streams u = Streams s"
  using assms
  by (auto simp: ForwardLocal_def Let_def Listeners_Register_def key_def handleStream_def shut_def)

theorem forward_leaks_witness:
  "ends (snd (ForwardLocal ''P'' ''b'' (Inr ''l'') (snd (ForwardLocal ''P'' ''a'' (Inr ''l'') (New ''I''))))) 1 = Open"
  using forward_leaks(2)[of "''l''" "snd (ForwardLocal ''P'' ''a'' (Inr ''l'') (New ''I''))" "''P''" "''b''" _ _
      "\<lparr>rl_proto = [], rl_addr = [], rl_reportRemote = True\<rparr>" 7 _ p2p_demo_env, OF _ prod.collapse[symmetric] _ _ refl]
  by (simp add: ForwardLocal_def New_def Listeners_Register_def key_def Let_def)

end
