(* ===== verification/Loader.thy ===== *)
theory Loader
  imports Prelude
begin

unbundle bit_operations_syntax

text \<open>
  The plugin loader: \<^verbatim>\<open>src/plugin/loader/loader.go\<close> with the registries it injects into
  (\<^verbatim>\<open>AddDatastoreConfigHandler\<close> of \<^verbatim>\<open>src/repo/fsrepo/datastores.go\<close>, \<^verbatim>\<open>RegisterFXOptionFunc\<close> of
  \<^verbatim>\<open>src/core/builder.go\<close>).  A plugin is its name, version and the optional interfaces it
  implements; what its methods return is an argument, and every call of one is recorded in a
  trace, so that the order and the number of calls are statements about the loader.  The plugin
  table is a Go map: each loop over it takes the order as an argument.
\<close>

section \<open>State\<close>

datatype loaderState =
  loaderLoading | loaderInitializing | loaderInitialized | loaderInjecting | loaderInjected
| loaderStarting | loaderStarted | loaderClosing | loaderClosed | loaderFailed

definition loaderState_String :: "loaderState \<Rightarrow> string" where
  "loaderState_String ls =
     (case ls of
        loaderLoading \<Rightarrow> ''Loading'' | loaderInitializing \<Rightarrow> ''Initializing''
      | loaderInitialized \<Rightarrow> ''Initialized'' | loaderInjecting \<Rightarrow> ''Injecting''
      | loaderInjected \<Rightarrow> ''Injected'' | loaderStarting \<Rightarrow> ''Starting'' | loaderStarted \<Rightarrow> ''Started''
      | loaderClosing \<Rightarrow> ''Closing'' | loaderClosed \<Rightarrow> ''Closed'' | loaderFailed \<Rightarrow> ''Failed'')"

text \<open>
  \<^verbatim>\<open>PluginDaemon\<close> and \<^verbatim>\<open>PluginDaemonInternal\<close> both ask for a method \<^verbatim>\<open>Start\<close>, with different
  types, so a plugin implements at most one of them.
\<close>

datatype daemon = NoDaemon | PluginDaemon | PluginDaemonInternal

record plugin =
  pl_Name :: string
  pl_Version :: string
  pl_IPLD :: bool
  pl_Tracer :: bool
  pl_Datastore :: "string option"
  pl_Fx :: bool
  pl_Daemon :: daemon
  pl_Closer :: bool

record plugin_config =
  pc_Disabled :: bool
  pc_Config :: string

record PluginLoader =
  l_state :: loaderState
  l_plugins :: "string \<rightharpoonup> plugin"
  l_started :: "plugin list"
  l_config :: "string \<rightharpoonup> plugin_config"
  l_repo :: string

text \<open>A recorded call of a plugin's method; for \<^verbatim>\<open>Start\<close>, whether it returned nil.\<close>

datatype call = CInit string string | CRegister string | CInitTracer string | CStart string bool | CClose string

record world =
  w_loader :: PluginLoader
  w_ipld :: "string list"
  w_tracer :: "string option"
  w_datastores :: "string set"
  w_fx :: "string list"
  w_trace :: "call list"

text \<open>What the plugins' methods and the core API constructor return (no error: \<^term>\<open>None\<close>).\<close>

record behaviour =
  b_Init :: "plugin \<Rightarrow> string \<Rightarrow> string option"
  b_Register :: "plugin \<Rightarrow> string option"
  b_InitTracer :: "plugin \<Rightarrow> string option"
  b_Start :: "plugin \<Rightarrow> string option"
  b_Close :: "plugin \<Rightarrow> string option"
  b_NewCoreAPI :: "string option"

datatype loader_error =
  StateMustBe loaderState loaderState
| Duplicated string string string
| DatastoreExists string
| PluginErr string
| ClosingErrs string
| LoadingErr string string

type_synonym lresult = "loader_error option \<times> world"

abbreviation w_state :: "world \<Rightarrow> loaderState" where "w_state w \<equiv> l_state (w_loader w)"
abbreviation w_plugins :: "world \<Rightarrow> string \<rightharpoonup> plugin" where "w_plugins w \<equiv> l_plugins (w_loader w)"
abbreviation w_started :: "world \<Rightarrow> plugin list" where "w_started w \<equiv> l_started (w_loader w)"

definition set_state :: "loaderState \<Rightarrow> world \<Rightarrow> world" where
  "set_state st w = w\<lparr>w_loader := (w_loader w)\<lparr>l_state := st\<rparr>\<rparr>"

definition record_call :: "call \<Rightarrow> world \<Rightarrow> world" where
  "record_call c w = w\<lparr>w_trace := w_trace w @ [c]\<rparr>"

section \<open>Loading\<close>

definition assertState :: "loaderState \<Rightarrow> world \<Rightarrow> loader_error option" where
  "assertState st w = (if w_state w \<noteq> st then Some (StateMustBe st (w_state w)) else None)"

definition transition :: "loaderState \<Rightarrow> loaderState \<Rightarrow> world \<Rightarrow> lresult" where
  "transition from to w =
     (case assertState from w of Some err \<Rightarrow> (Some err, w) | None \<Rightarrow> (None, set_state to w))"

text \<open>\<^verbatim>\<open>loader.config.Plugins[name]\<close>: the zero value when there is no entry.\<close>

definition config_of :: "world \<Rightarrow> string \<Rightarrow> plugin_config" where
  "config_of w name = (case l_config (w_loader w) name of
     Some c \<Rightarrow> c | None \<Rightarrow> \<lparr>pc_Disabled = False, pc_Config = []\<rparr>)"

definition Load :: "plugin \<Rightarrow> world \<Rightarrow> lresult" where
  "Load pl w =
     (case assertState loaderLoading w of
        Some err \<Rightarrow> (Some err, w)
      | None \<Rightarrow>
          (let name = pl_Name pl in
           case w_plugins w name of
             Some ppl \<Rightarrow> (Some (Duplicated name (pl_Version ppl) (pl_Version pl)), w)
           | None \<Rightarrow>
               if pc_Disabled (config_of w name) then (None, w)
               else (None, w\<lparr>w_loader := (w_loader w)\<lparr>l_plugins := (w_plugins w)(name \<mapsto> pl)\<rparr>\<rparr>)))"

fun Load_all :: "plugin list \<Rightarrow> world \<Rightarrow> lresult" where
  "Load_all [] w = (None, w)"
| "Load_all (pl # pls) w =
     (case Load pl w of (Some err, w) \<Rightarrow> (Some err, w) | (None, w) \<Rightarrow> Load_all pls w)"

text \<open>
  \<^verbatim>\<open>loadDynamicPlugins\<close>.  \<open>stat\<close> is the result of \<^verbatim>\<open>os.Stat\<close> on the directory; \<open>files\<close> are the
  entries in the order \<^verbatim>\<open>filepath.Walk\<close> visits them; \<open>loadPlugin\<close> is the platform's loader.
\<close>

datatype stat_result = StatOk | StatNotExist | StatErr string

record walk_entry =
  we_path :: string
  we_err :: "string option"
  we_dir :: bool
  we_perm :: u32

fun walk_plugins :: "(string \<Rightarrow> string + plugin list) \<Rightarrow> walk_entry list \<Rightarrow> loader_error + plugin list" where
  "walk_plugins loadPlugin [] = Inr []"
| "walk_plugins loadPlugin (f # fs) =
     (case we_err f of
        Some err \<Rightarrow> Inl (PluginErr err)
      | None \<Rightarrow>
          if we_dir f then walk_plugins loadPlugin fs
          else if we_perm f AND 0x49 = 0 then walk_plugins loadPlugin fs
          else case loadPlugin (we_path f) of
                 Inl err \<Rightarrow> Inl (LoadingErr (we_path f) err)
               | Inr pls \<Rightarrow> map_sum id ((@) pls) (walk_plugins loadPlugin fs))"

definition loadDynamicPlugins ::
    "(string \<Rightarrow> string + plugin list) \<Rightarrow> stat_result \<Rightarrow> walk_entry list \<Rightarrow> loader_error + plugin list" where
  "loadDynamicPlugins loadPlugin stat files =
     (case stat of
        StatNotExist \<Rightarrow> Inr []
      | StatErr err \<Rightarrow> Inl (PluginErr err)
      | StatOk \<Rightarrow> walk_plugins loadPlugin files)"

definition LoadDirectory ::
    "(string \<Rightarrow> string + plugin list) \<Rightarrow> stat_result \<Rightarrow> walk_entry list \<Rightarrow> world \<Rightarrow> lresult" where
  "LoadDirectory loadPlugin stat files w =
     (case assertState loaderLoading w of
        Some err \<Rightarrow> (Some err, w)
      | None \<Rightarrow>
          (case loadDynamicPlugins loadPlugin stat files of
             Inl err \<Rightarrow> (Some err, w)
           | Inr newPls \<Rightarrow> Load_all newPls w))"

text \<open>
  \<^verbatim>\<open>NewPluginLoader\<close>: \<open>cfg\<close> is the result of reading the configuration file (\<^term>\<open>Inr None\<close> when the
  repository is not initialised).
\<close>

definition empty_loader :: "string \<Rightarrow> PluginLoader" where
  "empty_loader repo =
     \<lparr>l_state = loaderLoading, l_plugins = Map.empty, l_started = [], l_config = Map.empty, l_repo = repo\<rparr>"

definition NewPluginLoader ::
    "plugin list \<Rightarrow> string + (string \<rightharpoonup> plugin_config) option \<Rightarrow> (string \<Rightarrow> string + plugin list) \<Rightarrow>
     stat_result \<Rightarrow> walk_entry list \<Rightarrow> string \<Rightarrow> world \<Rightarrow> lresult" where
  "NewPluginLoader preloadPlugins cfg loadPlugin stat files repo w =
     (let load = (\<lambda>w. case Load_all preloadPlugins w of
            (Some err, w) \<Rightarrow> (Some err, w) | (None, w) \<Rightarrow> LoadDirectory loadPlugin stat files w);
          l = empty_loader repo
      in if repo \<noteq> [] then
           (case cfg of
              Inl err \<Rightarrow> (Some (PluginErr err), w)
            | Inr None \<Rightarrow> load (w\<lparr>w_loader := l\<rparr>)
            | Inr (Some ps) \<Rightarrow> load (w\<lparr>w_loader := l\<lparr>l_config := ps\<rparr>\<rparr>))
         else load (w\<lparr>w_loader := l\<rparr>))"

section \<open>Initialising and injecting\<close>

fun Init_all :: "behaviour \<Rightarrow> string list \<Rightarrow> world \<Rightarrow> lresult" where
  "Init_all b [] w = (None, w)"
| "Init_all b (name # names) w =
     (case w_plugins w name of
        None \<Rightarrow> Init_all b names w
      | Some p \<Rightarrow>
          (let c = pc_Config (config_of w name); w = record_call (CInit name c) w in
           case b_Init b p c of
             Some err \<Rightarrow> (Some (PluginErr err), set_state loaderFailed w)
           | None \<Rightarrow> Init_all b names w))"

definition Initialize :: "behaviour \<Rightarrow> string list \<Rightarrow> world \<Rightarrow> lresult" where
  "Initialize b order w =
     (case transition loaderLoading loaderInitializing w of
        (Some err, w) \<Rightarrow> (Some err, w)
      | (None, w) \<Rightarrow>
          (case Init_all b order w of
             (Some err, w) \<Rightarrow> (Some err, w)
           | (None, w) \<Rightarrow> transition loaderInitializing loaderInitialized w))"

definition injectIPLDPlugin :: "behaviour \<Rightarrow> plugin \<Rightarrow> world \<Rightarrow> lresult" where
  "injectIPLDPlugin b pl w =
     (let w = record_call (CRegister (pl_Name pl)) w in
      case b_Register b pl of
        Some err \<Rightarrow> (Some (PluginErr err), w)
      | None \<Rightarrow> (None, w\<lparr>w_ipld := w_ipld w @ [pl_Name pl]\<rparr>))"

definition injectTracerPlugin :: "behaviour \<Rightarrow> plugin \<Rightarrow> world \<Rightarrow> lresult" where
  "injectTracerPlugin b pl w =
     (let w = record_call (CInitTracer (pl_Name pl)) w in
      case b_InitTracer b pl of
        Some err \<Rightarrow> (Some (PluginErr err), w)
      | None \<Rightarrow> (None, w\<lparr>w_tracer := Some (pl_Name pl)\<rparr>))"

definition AddDatastoreConfigHandler :: "string \<Rightarrow> world \<Rightarrow> lresult" where
  "AddDatastoreConfigHandler name w =
     (if name \<in> w_datastores w then (Some (DatastoreExists name), w)
      else (None, w\<lparr>w_datastores := insert name (w_datastores w)\<rparr>))"

definition injectDatastorePlugin :: "string \<Rightarrow> world \<Rightarrow> lresult" where
  "injectDatastorePlugin typeName w = AddDatastoreConfigHandler typeName w"

definition RegisterFXOptionFunc :: "plugin \<Rightarrow> world \<Rightarrow> world" where
  "RegisterFXOptionFunc pl w = w\<lparr>w_fx := w_fx w @ [pl_Name pl]\<rparr>"

definition injectFxPlugin :: "plugin \<Rightarrow> world \<Rightarrow> lresult" where
  "injectFxPlugin pl w = (None, RegisterFXOptionFunc pl w)"

text \<open>The chain of type tests in the loop of \<^verbatim>\<open>Inject\<close>.\<close>

definition and_then :: "bool \<Rightarrow> (world \<Rightarrow> lresult) \<Rightarrow> lresult \<Rightarrow> lresult" where
  "and_then implemented f r =
     (case r of (Some err, w) \<Rightarrow> (Some err, w) | (None, w) \<Rightarrow> if implemented then f w else (None, w))"

definition inject_one :: "behaviour \<Rightarrow> plugin \<Rightarrow> world \<Rightarrow> lresult" where
  "inject_one b pl w =
     and_then (pl_Fx pl) (injectFxPlugin pl)
       (and_then (pl_Datastore pl \<noteq> None) (injectDatastorePlugin (the (pl_Datastore pl)))
         (and_then (pl_Tracer pl) (injectTracerPlugin b pl)
           (and_then (pl_IPLD pl) (injectIPLDPlugin b pl) (None, w))))"

fun Inject_all :: "behaviour \<Rightarrow> string list \<Rightarrow> world \<Rightarrow> lresult" where
  "Inject_all b [] w = (None, w)"
| "Inject_all b (name # names) w =
     (case w_plugins w name of
        None \<Rightarrow> Inject_all b names w
      | Some p \<Rightarrow>
          (case inject_one b p w of
             (Some err, w) \<Rightarrow> (Some err, set_state loaderFailed w)
           | (None, w) \<Rightarrow> Inject_all b names w))"

definition Inject :: "behaviour \<Rightarrow> string list \<Rightarrow> world \<Rightarrow> lresult" where
  "Inject b order w =
     (case transition loaderInitialized loaderInjecting w of
        (Some err, w) \<Rightarrow> (Some err, w)
      | (None, w) \<Rightarrow>
          (case Inject_all b order w of
             (Some err, w) \<Rightarrow> (Some err, w)
           | (None, w) \<Rightarrow> transition loaderInjecting loaderInjected w))"

section \<open>Closing and starting\<close>

text \<open>The loop of \<^verbatim>\<open>Close\<close> over the started plugins: the messages, and the calls made.\<close>

fun close_all :: "behaviour \<Rightarrow> plugin list \<Rightarrow> string list \<times> call list" where
  "close_all b [] = ([], [])"
| "close_all b (pl # pls) =
     (let (errs, calls) = close_all b pls in
      if \<not> pl_Closer pl then (errs, calls)
      else ((case b_Close b pl of
               None \<Rightarrow> errs
             | Some err \<Rightarrow> (''error closing plugin '' @ pl_Name pl @ '': '' @ err) # errs),
            CClose (pl_Name pl) # calls))"

text \<open>
  \<^verbatim>\<open>Close\<close>.  The joined messages are passed to \<^verbatim>\<open>fmt.Errorf\<close> as its format, with no operands;
  \<open>Errorf\<close> stands for that function.
\<close>

definition Close :: "(string \<Rightarrow> string) \<Rightarrow> behaviour \<Rightarrow> world \<Rightarrow> lresult" where
  "Close Errorf b w =
     (if w_state w \<in> {loaderClosing, loaderFailed, loaderClosed} then (None, w)
      else
        (let w = set_state loaderClosing w;
             started = w_started w;
             w = w\<lparr>w_loader := (w_loader w)\<lparr>l_started := []\<rparr>\<rparr>;
             (errs, calls) = close_all b started;
             w = w\<lparr>w_trace := w_trace w @ calls\<rparr>
         in if errs \<noteq> [] then (Some (ClosingErrs (Errorf (join_with [CHR 0x0A] errs))), set_state loaderFailed w)
            else (None, set_state loaderClosed w)))"

fun Start_all :: "(string \<Rightarrow> string) \<Rightarrow> behaviour \<Rightarrow> string list \<Rightarrow> world \<Rightarrow> lresult" where
  "Start_all Errorf b [] w = (None, w)"
| "Start_all Errorf b (name # names) w =
     (case w_plugins w name of
        None \<Rightarrow> Start_all Errorf b names w
      | Some pl \<Rightarrow>
          if pl_Daemon pl = NoDaemon then Start_all Errorf b names w
          else (case b_Start b pl of
                  Some err \<Rightarrow>
                    (Some (PluginErr err), snd (Close Errorf b (record_call (CStart name False) w)))
                | None \<Rightarrow>
                    (let w = record_call (CStart name True) w in
                     Start_all Errorf b names
                       (w\<lparr>w_loader := (w_loader w)\<lparr>l_started := w_started w @ [pl]\<rparr>\<rparr>))))"

definition Start :: "(string \<Rightarrow> string) \<Rightarrow> behaviour \<Rightarrow> string list \<Rightarrow> world \<Rightarrow> lresult" where
  "Start Errorf b order w =
     (case transition loaderInjected loaderStarting w of
        (Some err, w) \<Rightarrow> (Some err, w)
      | (None, w) \<Rightarrow>
          (case b_NewCoreAPI b of
             Some err \<Rightarrow> (Some (PluginErr err), w)
           | None \<Rightarrow>
               (case Start_all Errorf b order w of
                  (Some err, w) \<Rightarrow> (Some err, w)
                | (None, w) \<Rightarrow> transition loaderStarting loaderStarted w)))"

section \<open>What the trace says\<close>

definition phase :: "call \<Rightarrow> nat" where
  "phase c = (case c of CInit _ _ \<Rightarrow> 0 | CRegister _ \<Rightarrow> 1 | CInitTracer _ \<Rightarrow> 1 | CStart _ _ \<Rightarrow> 2 | CClose _ \<Rightarrow> 3)"

definition inits :: "call list \<Rightarrow> string list" where
  "inits tr = concat (map (\<lambda>c. case c of CInit n _ \<Rightarrow> [n] | _ \<Rightarrow> []) tr)"

definition starts :: "call list \<Rightarrow> string list" where
  "starts tr = concat (map (\<lambda>c. case c of CStart n _ \<Rightarrow> [n] | _ \<Rightarrow> []) tr)"

definition started_ok :: "call list \<Rightarrow> string list" where
  "started_ok tr = concat (map (\<lambda>c. case c of CStart n True \<Rightarrow> [n] | _ \<Rightarrow> []) tr)"

definition closes :: "call list \<Rightarrow> string list" where
  "closes tr = concat (map (\<lambda>c. case c of CClose n \<Rightarrow> [n] | _ \<Rightarrow> []) tr)"

lemma trace_nil [simp]: "inits [] = []" "starts [] = []" "started_ok [] = []" "closes [] = []"
  by (simp_all add: inits_def starts_def started_ok_def closes_def)

lemma trace_append [simp]:
  "inits (a @ b) = inits a @ inits b" "starts (a @ b) = starts a @ starts b"
  "started_ok (a @ b) = started_ok a @ started_ok b" "closes (a @ b) = closes a @ closes b"
  by (simp_all add: inits_def starts_def started_ok_def closes_def)

lemma trace_cons [simp]:
  "inits (c # b) = (case c of CInit n _ \<Rightarrow> [n] | _ \<Rightarrow> []) @ inits b"
  "starts (c # b) = (case c of CStart n _ \<Rightarrow> [n] | _ \<Rightarrow> []) @ starts b"
  "started_ok (c # b) = (case c of CStart n ok \<Rightarrow> if ok then [n] else [] | _ \<Rightarrow> []) @ started_ok b"
  "closes (c # b) = (case c of CClose n \<Rightarrow> [n] | _ \<Rightarrow> []) @ closes b"
  by (auto simp: inits_def starts_def started_ok_def closes_def split: call.splits bool.splits)

text \<open>Calls of one phase contribute to one projection only.\<close>

lemma phase_0: "(\<forall>c \<in> set cs. phase c = 0) \<Longrightarrow> starts cs = [] \<and> started_ok cs = [] \<and> closes cs = []"
  by (induction cs) (auto simp: phase_def split: call.splits)

lemma phase_1: "(\<forall>c \<in> set cs. phase c = 1) \<Longrightarrow> inits cs = [] \<and> starts cs = [] \<and> started_ok cs = [] \<and> closes cs = []"
  by (induction cs) (auto simp: phase_def split: call.splits)

lemma phase_3: "(\<forall>c \<in> set cs. phase c = 3) \<Longrightarrow> inits cs = [] \<and> starts cs = [] \<and> started_ok cs = []"
  by (induction cs) (auto simp: phase_def split: call.splits)

lemma started_ok_starts: "set (started_ok tr) \<subseteq> set (starts tr)"
  by (induction tr) (auto split: call.splits)

lemma set_state_proj [simp]:
  "w_state (set_state st w) = st" "w_plugins (set_state st w) = w_plugins w"
  "w_started (set_state st w) = w_started w" "w_trace (set_state st w) = w_trace w"
  by (simp_all add: set_state_def)

lemma record_call_proj [simp]:
  "w_loader (record_call c w) = w_loader w" "w_trace (record_call c w) = w_trace w @ [c]"
  by (simp_all add: record_call_def)

lemma config_of_record [simp]: "config_of (record_call c w) n = config_of w n"
  by (simp add: config_of_def)

lemma Init_all_spec:
  assumes "Init_all b names w = (r, w')" and "set names \<subseteq> dom (w_plugins w)"
  shows "\<exists>cs. w_trace w' = w_trace w @ cs \<and> (\<forall>c \<in> set cs. phase c = 0) \<and> prefix (inits cs) names \<and>
    w_plugins w' = w_plugins w \<and> w_started w' = w_started w \<and>
    (case r of None \<Rightarrow> inits cs = names \<and> w_state w' = w_state w | Some _ \<Rightarrow> w_state w' = loaderFailed)"
  using assms
proof (induction names arbitrary: w)
  case (Cons n names)
  then obtain p where p: "w_plugins w n = Some p" by auto
  let ?c = "CInit n (pc_Config (config_of w n))"
  show ?case
  proof (cases "b_Init b p (pc_Config (config_of w n))")
    case None
    with Cons.prems p have "Init_all b names (record_call ?c w) = (r, w')" by (simp add: Let_def)
    from Cons.IH[OF this] Cons.prems(2) obtain cs where "w_trace w' = w_trace w @ ?c # cs"
      "\<forall>c \<in> set cs. phase c = 0" "prefix (inits cs) names" "w_plugins w' = w_plugins w" "w_started w' = w_started w"
      "case r of None \<Rightarrow> inits cs = names \<and> w_state w' = w_state w | Some _ \<Rightarrow> w_state w' = loaderFailed"
      by (auto split: option.splits)
    then show ?thesis by (intro exI[of _ "?c # cs"]) (auto simp: phase_def split: option.splits)
  next
    case (Some err)
    with Cons.prems p show ?thesis
      by (intro exI[of _ "[?c]"]) (auto simp: Let_def phase_def)
  qed
qed (auto intro: exI[of _ "[]"])

definition injected :: "world \<Rightarrow> world \<Rightarrow> bool" where
  "injected w w' \<longleftrightarrow> w_loader w' = w_loader w \<and>
     (\<exists>cs. w_trace w' = w_trace w @ cs \<and> (\<forall>c \<in> set cs. phase c = 1))"

lemma injected_trans: "injected a b \<Longrightarrow> injected b c \<Longrightarrow> injected a c"
  by (auto simp: injected_def)

lemma injected_refl [simp]: "injected a a"
  by (auto simp: injected_def)

lemma and_then_injected:
  assumes "injected a (snd r)" and "\<And>w. injected w (snd (f w))"
  shows "injected a (snd (and_then i f r))"
  using assms injected_trans by (auto simp: and_then_def split: prod.splits option.splits)

lemma inject_one_spec: "injected w (snd (inject_one b pl w))"
  unfolding inject_one_def
  by (intro and_then_injected)
    (auto simp: injected_def phase_def injectFxPlugin_def RegisterFXOptionFunc_def injectDatastorePlugin_def
      AddDatastoreConfigHandler_def injectTracerPlugin_def injectIPLDPlugin_def Let_def split: option.splits)

lemma Inject_all_spec:
  assumes "Inject_all b names w = (r, w')"
  shows "\<exists>cs. w_trace w' = w_trace w @ cs \<and> (\<forall>c \<in> set cs. phase c = 1) \<and>
    w_plugins w' = w_plugins w \<and> w_started w' = w_started w \<and>
    w_state w' = (if r = None then w_state w else loaderFailed)"
  using assms
proof (induction names arbitrary: w)
  case (Cons n names)
  show ?case
  proof (cases "w_plugins w n")
    case None
    with Cons show ?thesis by simp
  next
    case (Some p)
    obtain e v where v: "inject_one b p w = (e, v)" by force
    with inject_one_spec[of w b p] obtain cs where cs: "w_loader v = w_loader w"
      "w_trace v = w_trace w @ cs" "\<forall>c \<in> set cs. phase c = 1"
      by (auto simp: injected_def)
    show ?thesis
    proof (cases e)
      case None
      with Cons.prems Some v have "Inject_all b names v = (r, w')" by simp
      from Cons.IH[OF this] cs show ?thesis by (metis Un_iff append_assoc set_append)
    next
      case (Some err)
      with Cons.prems \<open>w_plugins w n = Some p\<close> v cs show ?thesis by auto
    qed
  qed
qed (auto intro: exI[of _ "[]"])

lemma close_all_spec:
  "close_all b pls = (errs, calls) \<Longrightarrow>
   (\<forall>c \<in> set calls. phase c = 3) \<and> closes calls = map pl_Name (filter pl_Closer pls)"
  by (induction pls arbitrary: errs calls) (auto simp: phase_def Let_def split: prod.splits if_splits)

lemma Close_spec:
  assumes "Close E b w = (r, w')"
  shows "(w_state w \<in> {loaderClosing, loaderFailed, loaderClosed} \<and> w' = w) \<or>
    (w_state w' \<in> {loaderClosed, loaderFailed} \<and> w_started w' = [] \<and> w_plugins w' = w_plugins w \<and>
     (\<exists>cs. w_trace w' = w_trace w @ cs \<and> (\<forall>c \<in> set cs. phase c = 3) \<and>
        closes cs = map pl_Name (filter pl_Closer (w_started w))))"
proof (cases "w_state w \<in> {loaderClosing, loaderFailed, loaderClosed}")
  case True
  with assms show ?thesis by (auto simp: Close_def)
next
  case False
  obtain errs calls where c: "close_all b (w_started w) = (errs, calls)" by force
  from False assms c close_all_spec[OF c] show ?thesis
    by (auto simp: Close_def Let_def split: if_splits)
qed

text \<open>The plugins among \<open>names\<close> that have to be started, in order.\<close>

definition daemons :: "world \<Rightarrow> string list \<Rightarrow> plugin list" where
  "daemons w names = filter (\<lambda>pl. pl_Daemon pl \<noteq> NoDaemon) (map (\<lambda>n. the (w_plugins w n)) names)"

definition plugins_keyed :: "world \<Rightarrow> bool" where
  "plugins_keyed w \<longleftrightarrow> (\<forall>n p. w_plugins w n = Some p \<longrightarrow> pl_Name p = n)"

definition start_ok :: "plugin \<Rightarrow> call" where
  "start_ok pl = CStart (pl_Name pl) True"

lemma start_ok_trace [simp]:
  "starts (map start_ok ds) = map pl_Name ds" "started_ok (map start_ok ds) = map pl_Name ds"
  "inits (map start_ok ds) = []" "closes (map start_ok ds) = []"
  by (induction ds) (simp_all add: start_ok_def)

lemma phase_start_ok [simp]: "phase (start_ok pl) = 2"
  by (simp add: phase_def start_ok_def)

text \<open>
  The outcome of starting plugins: all daemons are started in order, or the first that fails is followed by the
  closing of what had been started.
\<close>

definition start_outcome :: "world \<Rightarrow> string list \<Rightarrow> loader_error option \<Rightarrow> world \<Rightarrow> bool" where
  "start_outcome w names r w' \<longleftrightarrow> (if r = None
    then w_trace w' = w_trace w @ map start_ok (daemons w names) \<and> w_started w' = w_started w @ daemons w names \<and>
         w_plugins w' = w_plugins w \<and> w_state w' = loaderStarting
    else (\<exists>ds pl cs. w_trace w' = w_trace w @ map start_ok ds @ CStart (pl_Name pl) False # cs \<and>
         prefix (ds @ [pl]) (daemons w names) \<and> (\<forall>c \<in> set cs. phase c = 3) \<and>
         closes cs = map pl_Name (filter pl_Closer (w_started w @ ds)) \<and> w_started w' = [] \<and>
         w_plugins w' = w_plugins w \<and> w_state w' \<in> {loaderClosed, loaderFailed}))"

lemma start_outcome_step:
  assumes "start_outcome v names r w'" and dm: "daemons w (n # names) = pl # daemons w names"
    and v: "w_trace v = w_trace w @ [start_ok pl]" "daemons v names = daemons w names"
      "w_started v = w_started w @ [pl]" "w_plugins v = w_plugins w"
  shows "start_outcome w (n # names) r w'"
proof (cases "r = None")
  case True
  with assms(1) show ?thesis by (simp add: start_outcome_def v dm)
next
  case fail: False
  with assms(1) obtain ds pl' cs where *: "w_trace w' = w_trace w @ map start_ok (pl # ds) @ CStart (pl_Name pl') False # cs"
    "prefix (ds @ [pl']) (daemons w names)" "\<forall>c \<in> set cs. phase c = 3"
    "closes cs = map pl_Name (filter pl_Closer (w_started w @ (pl # ds)))"
    "w_started w' = []" "w_plugins w' = w_plugins w" "w_state w' \<in> {loaderClosed, loaderFailed}"
    by (auto simp: v start_outcome_def)
  moreover have "prefix ((pl # ds) @ [pl']) (daemons w (n # names))" using *(2) by (simp add: dm)
  ultimately show ?thesis using fail by (simp only: if_False start_outcome_def) blast
qed

lemma start_outcome_failed:
  assumes "Close E b (record_call (CStart (pl_Name pl) False) w) = (er, w')" and "w_state w = loaderStarting"
    and "daemons w (n # names) = pl # daemons w names" and "r \<noteq> None"
  shows "start_outcome w (n # names) r w'"
proof -
  from Close_spec[OF assms(1)] assms(2) obtain cs where "w_trace w' = w_trace w @ CStart (pl_Name pl) False # cs"
    "\<forall>c \<in> set cs. phase c = 3" "closes cs = map pl_Name (filter pl_Closer (w_started w))"
    "w_state w' \<in> {loaderClosed, loaderFailed}" "w_started w' = []" "w_plugins w' = w_plugins w"
    by auto
  with assms(3,4) show ?thesis
    by (simp only: if_False start_outcome_def) (intro exI[of _ "[]"] exI[of _ pl] exI[of _ cs], auto)
qed

lemma Start_all_spec:
  assumes "Start_all E b names w = (r, w')" and "plugins_keyed w" and "set names \<subseteq> dom (w_plugins w)"
    and "w_state w = loaderStarting"
  shows "start_outcome w names r w'"
  using assms
proof (induction names arbitrary: w)
  case Nil
  then show ?case by (simp add: start_outcome_def daemons_def)
next
  case (Cons n names)
  then obtain pl where pl: "w_plugins w n = Some pl" by auto
  with Cons.prems(2) have nm: "pl_Name pl = n" by (simp add: plugins_keyed_def)
  have dm: "daemons w (n # names) = (if pl_Daemon pl = NoDaemon then [] else [pl]) @ daemons w names"
    using pl by (simp add: daemons_def)
  have sub: "set names \<subseteq> dom (w_plugins w)" using Cons.prems(3) by simp
  show ?case
  proof (cases "pl_Daemon pl = NoDaemon")
    case True
    with Cons.prems(1) pl have run: "Start_all E b names w = (r, w')" by simp
    have "daemons w (n # names) = daemons w names" using True by (simp add: dm)
    with Cons.IH[OF run Cons.prems(2) sub Cons.prems(4)] show ?thesis by (simp only: start_outcome_def)
  next
    case daemon: False
    show ?thesis
    proof (cases "b_Start b pl")
      case None
      define v where "v = (record_call (CStart n True) w)\<lparr>w_loader := (w_loader w)\<lparr>l_started := w_started w @ [pl]\<rparr>\<rparr>"
      have "Start_all E b names v = (r, w')" using Cons.prems(1) pl daemon None by (simp add: v_def Let_def)
      moreover have "plugins_keyed v" "set names \<subseteq> dom (w_plugins v)" "w_state v = loaderStarting"
        using Cons.prems(2,4) sub by (simp_all add: v_def plugins_keyed_def)
      ultimately have "start_outcome v names r w'" by (rule Cons.IH)
      then show ?thesis
        by (rule start_outcome_step) (simp_all add: pl daemon v_def record_call_def start_ok_def nm daemons_def)
    next
      case (Some err)
      let ?w = "record_call (CStart (pl_Name pl) False) w"
      have r: "r \<noteq> None" "w' = snd (Close E b ?w)" using Cons.prems(1) pl daemon Some nm by auto
      have "Close E b ?w = (fst (Close E b ?w), w')" by (simp add: r)
      then show ?thesis using Cons.prems(4) _ r(1) by (rule start_outcome_failed) (simp add: dm daemon)
    qed
  qed
qed

section \<open>Life cycle\<close>

definition plugin_order :: "string list \<Rightarrow> world \<Rightarrow> bool" where
  "plugin_order order w \<longleftrightarrow> distinct order \<and> set order = dom (w_plugins w)"

inductive lstep :: "(string \<Rightarrow> string) \<Rightarrow> behaviour \<Rightarrow> world \<Rightarrow> world \<Rightarrow> bool" for E b where
  load: "lstep E b w (snd (Load pl w))"
| load_directory: "lstep E b w (snd (LoadDirectory loadPlugin stat files w))"
| initialize: "plugin_order order w \<Longrightarrow> lstep E b w (snd (Initialize b order w))"
| inject: "plugin_order order w \<Longrightarrow> lstep E b w (snd (Inject b order w))"
| start_plugins: "plugin_order order w \<Longrightarrow> lstep E b w (snd (Start E b order w))"
| close_plugins: "lstep E b w (snd (Close E b w))"

text \<open>A fresh loader, before any plugin is loaded.\<close>

definition fresh_world :: "world \<Rightarrow> bool" where
  "fresh_world w \<longleftrightarrow> w_state w = loaderLoading \<and> w_plugins w = Map.empty \<and> w_started w = [] \<and> w_trace w = []"

abbreviation lreach :: "(string \<Rightarrow> string) \<Rightarrow> behaviour \<Rightarrow> world \<Rightarrow> bool" where
  "lreach E b \<equiv> reachable fresh_world (lstep E b)"

lemmas lreach_step = reachable.step[where step = "lstep E b" and init = fresh_world for E b]

definition closers :: "world \<Rightarrow> string list \<Rightarrow> string list" where
  "closers w ns = filter (\<lambda>n. pl_Closer (the (w_plugins w n))) ns"

definition before_start :: "world \<Rightarrow> bool" where
  "before_start w \<longleftrightarrow> w_started w = [] \<and> starts (w_trace w) = [] \<and> started_ok (w_trace w) = [] \<and> closes (w_trace w) = []"

definition initialised :: "world \<Rightarrow> bool" where
  "initialised w \<longleftrightarrow> distinct (inits (w_trace w)) \<and> set (inits (w_trace w)) = dom (w_plugins w)"

definition loader_inv :: "world \<Rightarrow> bool" where
  "loader_inv w \<longleftrightarrow>
     plugins_keyed w \<and> sorted (map phase (w_trace w)) \<and> distinct (inits (w_trace w)) \<and> distinct (starts (w_trace w)) \<and>
     set (inits (w_trace w)) \<union> set (starts (w_trace w)) \<subseteq> dom (w_plugins w) \<and>
     (starts (w_trace w) \<noteq> [] \<longrightarrow> initialised w) \<and>
     (case w_state w of
        loaderLoading \<Rightarrow> w_trace w = [] \<and> w_started w = []
      | loaderInitialized \<Rightarrow> before_start w \<and> initialised w
      | loaderInjected \<Rightarrow> before_start w \<and> initialised w
      | loaderStarting \<Rightarrow> before_start w \<and> initialised w
      | loaderStarted \<Rightarrow> initialised w \<and> closes (w_trace w) = [] \<and> map pl_Name (w_started w) = started_ok (w_trace w) \<and>
          set (w_started w) \<subseteq> ran (w_plugins w)
      | loaderClosed \<Rightarrow> w_started w = [] \<and> closes (w_trace w) = closers w (started_ok (w_trace w))
      | loaderFailed \<Rightarrow> w_started w = [] \<and> closes (w_trace w) = closers w (started_ok (w_trace w))
      | _ \<Rightarrow> False)"

lemma inv_cases:
  "loader_inv w \<Longrightarrow> w_state w \<notin> {loaderInitializing, loaderInjecting, loaderClosing}"
  by (auto simp: loader_inv_def)

lemma loader_inv_fresh: "fresh_world w \<Longrightarrow> loader_inv w"
  by (simp add: fresh_world_def loader_inv_def plugins_keyed_def)

lemma loader_inv_Load [go_inv]: "loader_inv w \<Longrightarrow> loader_inv (snd (Load pl w))"
  by (cases "w_state w = loaderLoading")
    (auto simp: Load_def assertState_def Let_def loader_inv_def plugins_keyed_def split: option.splits)

lemma loader_inv_Load_all: "loader_inv w \<Longrightarrow> loader_inv (snd (Load_all pls w))"
proof (induction pls arbitrary: w)
  case (Cons pl pls)
  with loader_inv_Load[of w pl] show ?case by (auto split: prod.splits option.splits)
qed simp

lemma loader_inv_LoadDirectory [go_inv]: "loader_inv w \<Longrightarrow> loader_inv (snd (LoadDirectory lp st fs w))"
  by (auto simp: LoadDirectory_def loader_inv_Load_all split: option.splits sum.splits)

lemma sorted_phase_append:
  "sorted (map phase (a @ b)) \<longleftrightarrow>
   sorted (map phase a) \<and> sorted (map phase b) \<and> (\<forall>x \<in> set a. \<forall>y \<in> set b. phase x \<le> phase y)"
  by (auto simp: sorted_append)

lemma sorted_const: "(\<forall>c \<in> set cs. phase c = k) \<Longrightarrow> sorted (map phase cs)"
  by (induction cs) auto

lemma phase_le_1:
  assumes "starts tr = []" and "closes tr = []" and "c \<in> set tr"
  shows "phase c \<le> 1"
  using assms by (induction tr) (auto simp: phase_def split: call.splits)

lemma phase_le_2: "closes tr = [] \<Longrightarrow> c \<in> set tr \<Longrightarrow> phase c \<le> 2"
  by (induction tr) (auto simp: phase_def split: call.splits)

lemma loader_inv_Initialize [go_inv]:
  assumes "loader_inv w" and "plugin_order order w"
  shows "loader_inv (snd (Initialize b order w))"
proof (cases "w_state w = loaderLoading")
  case False
  with assms show ?thesis by (simp add: Initialize_def transition_def assertState_def)
next
  case True
  let ?w = "set_state loaderInitializing w"
  obtain r v where v: "Init_all b order ?w = (r, v)" by force
  have pre: "plugins_keyed w" "w_trace w = []" "w_started w = []" using assms(1) True by (auto simp: loader_inv_def)
  have "set order \<subseteq> dom (w_plugins ?w)" using assms(2) by (simp add: plugin_order_def)
  from Init_all_spec[OF v this] pre obtain cs where cs: "w_trace v = cs" "\<forall>c \<in> set cs. phase c = 0"
    "prefix (inits cs) order" "w_plugins v = w_plugins w" "w_started v = []"
    "case r of None \<Rightarrow> inits cs = order \<and> w_state v = loaderInitializing | Some _ \<Rightarrow> w_state v = loaderFailed"
    by (auto split: option.splits)
  have "distinct (inits cs)" "set (inits cs) \<subseteq> dom (w_plugins w)"
    using cs(3) assms(2) by (auto simp: plugin_order_def prefix_def)
  then show ?thesis
    using True v cs pre assms(2) phase_0[OF cs(2)] sorted_const[OF cs(2)]
    by (auto simp: Initialize_def transition_def assertState_def loader_inv_def plugins_keyed_def initialised_def
        before_start_def plugin_order_def closers_def split: option.splits)
qed

lemma loader_inv_Inject [go_inv]:
  assumes "loader_inv w"
  shows "loader_inv (snd (Inject b order w))"
proof (cases "w_state w = loaderInitialized")
  case False
  with assms show ?thesis by (simp add: Inject_def transition_def assertState_def)
next
  case True
  obtain r v where v: "Inject_all b order (set_state loaderInjecting w) = (r, v)" by force
  from Inject_all_spec[OF v] obtain cs where cs: "w_trace v = w_trace w @ cs" "\<forall>c \<in> set cs. phase c = 1"
    "w_plugins v = w_plugins w" "w_started v = w_started w"
    "w_state v = (if r = None then loaderInjecting else loaderFailed)"
    by auto
  have pre: "before_start w" "initialised w" "plugins_keyed w" "sorted (map phase (w_trace w))"
    using assms True by (auto simp: loader_inv_def)
  then have "sorted (map phase (w_trace w @ cs))"
    using cs(2) sorted_const[OF cs(2)] phase_le_1[of "w_trace w"]
    by (subst sorted_phase_append) (auto simp: before_start_def)
  then show ?thesis
    using True v cs pre phase_1[OF cs(2)]
    by (cases r) (auto simp: Inject_def transition_def assertState_def loader_inv_def plugins_keyed_def initialised_def
        before_start_def closers_def)
qed

lemma closers_started:
  assumes "plugins_keyed w" and "set pls \<subseteq> ran (w_plugins w)"
  shows "map pl_Name (filter pl_Closer pls) = closers w (map pl_Name pls)"
  using assms(2)
proof (induction pls)
  case (Cons p pls)
  then obtain n where "w_plugins w n = Some p" by (auto simp: ran_def)
  with assms(1) have "the (w_plugins w (pl_Name p)) = p" by (auto simp: plugins_keyed_def)
  with Cons show ?case by (simp add: closers_def)
qed (simp add: closers_def)

lemma loader_inv_Close [go_inv]:
  assumes "loader_inv w"
  shows "loader_inv (snd (Close E b w))"
proof -
  obtain r v where v: "Close E b w = (r, v)" by force
  consider "v = w" | cs where "w_state w \<notin> {loaderFailed, loaderClosed}" "w_state v \<in> {loaderClosed, loaderFailed}"
    "w_started v = []" "w_plugins v = w_plugins w" "w_trace v = w_trace w @ cs" "\<forall>c \<in> set cs. phase c = 3"
    "closes cs = map pl_Name (filter pl_Closer (w_started w))"
    using Close_spec[OF v] v by (auto simp: Close_def split: if_splits)
  then show ?thesis
  proof cases
    case 1
    with assms v show ?thesis by simp
  next
    case 2
    have no: "closes (w_trace w) = []" and st: "map pl_Name (w_started w) = started_ok (w_trace w)"
      "set (w_started w) \<subseteq> ran (w_plugins w)"
      using assms 2(1) by (auto simp: loader_inv_def before_start_def split: loaderState.splits)
    have kw: "plugins_keyed w" using assms by (simp add: loader_inv_def)
    have "closes cs = closers w (started_ok (w_trace w))"
      using 2(7) closers_started[OF kw st(2)] st(1) by simp
    moreover have "sorted (map phase (w_trace w @ cs))"
      using assms 2(6) sorted_const[OF 2(6)] phase_le_2[OF no] unfolding sorted_phase_append loader_inv_def
      by fastforce
    ultimately show ?thesis
      using assms 2 no v phase_3[OF 2(6)]
      by (auto simp: loader_inv_def plugins_keyed_def initialised_def closers_def)
  qed
qed

lemma phase_CStart [simp]: "phase (CStart n ok) = 2"
  by (simp add: phase_def)

lemma sorted_start_ok [simp]: "sorted (map (phase \<circ> start_ok) ds)"
  by (induction ds) simp_all

lemma daemons_names:
  assumes "plugins_keyed w" and "plugin_order order w"
  shows "distinct (map pl_Name (daemons w order))" and "set (daemons w order) \<subseteq> ran (w_plugins w)"
    and "set (map pl_Name (daemons w order)) \<subseteq> dom (w_plugins w)"
proof -
  have ord: "distinct order" "set order = dom (w_plugins w)" using assms(2) by (auto simp: plugin_order_def)
  have nm: "pl_Name (the (w_plugins w n)) = n" if "n \<in> dom (w_plugins w)" for n
    using assms(1) that by (auto simp: plugins_keyed_def)
  have "map pl_Name (daemons w ns) = filter (\<lambda>n. pl_Daemon (the (w_plugins w n)) \<noteq> NoDaemon) ns"
    if "set ns \<subseteq> dom (w_plugins w)" for ns
    using that nm by (induction ns) (auto simp: daemons_def)
  from this[of order] show "distinct (map pl_Name (daemons w order))"
    "set (map pl_Name (daemons w order)) \<subseteq> dom (w_plugins w)"
    using ord by auto
  have "the (w_plugins w n) \<in> ran (w_plugins w)" if "n \<in> set order" for n
    using ord(2) that by (force simp: ran_def)
  then show "set (daemons w order) \<subseteq> ran (w_plugins w)" by (auto simp: daemons_def)
qed

lemma loader_inv_Start_failed:
  assumes "loader_inv w" "w_state w = loaderInjected" "plugin_order order w"
    and "w_trace v = w_trace w @ map start_ok ds @ CStart (pl_Name pl) False # cs"
    and "prefix (ds @ [pl]) (daemons w order)" "\<forall>c \<in> set cs. phase c = 3"
    and "closes cs = map pl_Name (filter pl_Closer ds)" "w_started v = []"
    and "w_plugins v = w_plugins w" "w_state v \<in> {loaderClosed, loaderFailed}"
  shows "loader_inv v"
proof -
  have pre: "before_start w" "initialised w" "plugins_keyed w" "sorted (map phase (w_trace w))"
    using assms(1,2) by (auto simp: loader_inv_def)
  note dn = daemons_names[OF pre(3) assms(3)]
  obtain rest where rest: "daemons w order = ds @ pl # rest" using assms(5) by (auto simp: prefix_def)
  have "sorted (map phase (map start_ok ds @ CStart (pl_Name pl) False # cs))"
    using assms(6) sorted_const[OF assms(6)] by (subst sorted_phase_append) auto
  moreover have "phase c \<le> 1" if "c \<in> set (w_trace w)" for c
    using phase_le_1[of "w_trace w" c] pre(1) that by (simp add: before_start_def)
  ultimately have "sorted (map phase (w_trace v))"
    unfolding assms(4) using pre(4) assms(6)
    by (subst sorted_phase_append) fastforce
  moreover have "distinct (map pl_Name (ds @ [pl]))" "set (map pl_Name (ds @ [pl])) \<subseteq> dom (w_plugins w)"
    using dn rest by auto
  moreover have "closes cs = closers w (map pl_Name ds)"
    using closers_started[OF pre(3), of ds] dn(2) rest assms(7) by simp
  ultimately show ?thesis
    using assms(4,8-10) pre phase_3[OF assms(6)]
    by (auto simp: loader_inv_def plugins_keyed_def initialised_def before_start_def closers_def)
qed

lemma loader_inv_Start [go_inv]:
  assumes "loader_inv w" and "plugin_order order w"
  shows "loader_inv (snd (Start E b order w))"
proof (cases "w_state w = loaderInjected")
  case False
  with assms show ?thesis by (simp add: Start_def transition_def assertState_def)
next
  case True
  have pre: "before_start w" "initialised w" "plugins_keyed w" "sorted (map phase (w_trace w))"
    using assms(1) True by (auto simp: loader_inv_def)
  let ?w = "set_state loaderStarting w"
  show ?thesis
  proof (cases "b_NewCoreAPI b")
    case (Some err)
    with True assms(1) show ?thesis
      by (auto simp: Start_def transition_def assertState_def loader_inv_def plugins_keyed_def before_start_def initialised_def)
  next
    case None
    obtain r v where v: "Start_all E b order ?w = (r, v)" by force
    have "plugins_keyed ?w" "set order \<subseteq> dom (w_plugins ?w)" using pre(3) assms(2) by (auto simp: plugins_keyed_def plugin_order_def)
    from Start_all_spec[OF v this, unfolded start_outcome_def] have spec: "if r = None
      then w_trace v = w_trace w @ map start_ok (daemons w order) \<and> w_started v = daemons w order \<and>
           w_plugins v = w_plugins w \<and> w_state v = loaderStarting
      else (\<exists>ds pl cs. w_trace v = w_trace w @ map start_ok ds @ CStart (pl_Name pl) False # cs \<and>
           prefix (ds @ [pl]) (daemons w order) \<and> (\<forall>c \<in> set cs. phase c = 3) \<and>
           closes cs = map pl_Name (filter pl_Closer ds) \<and> w_started v = [] \<and>
           w_plugins v = w_plugins w \<and> w_state v \<in> {loaderClosed, loaderFailed})"
      using pre(1) by (cases r) (auto simp: before_start_def daemons_def)
    show ?thesis
    proof (cases r)
      case (Some err)
      with spec loader_inv_Start_failed[OF assms(1) True assms(2)] have "loader_inv v" by auto
      with True None v Some show ?thesis by (simp add: Start_def transition_def assertState_def)
    next
      case ok: None
      note dn = daemons_names[OF pre(3) assms(2)]
      have "phase c \<le> 1" if "c \<in> set (w_trace w)" for c
        using phase_le_1[of "w_trace w" c] pre(1) that by (simp add: before_start_def)
      then have "sorted (map phase (w_trace w @ map start_ok (daemons w order)))"
        using pre(4) by (subst sorted_phase_append) fastforce
      with True None v ok spec pre dn show ?thesis
        by (simp add: Start_def transition_def assertState_def loader_inv_def plugins_keyed_def initialised_def before_start_def)
    qed
  qed
qed

interpretation lsys: transition_system fresh_world "lstep E b" loader_inv for E b
proof unfold_locales
  show "loader_inv w'" if "lstep E b w w'" "loader_inv w" for w w'
    using that by (cases rule: lstep.cases) (auto simp: go_inv)
qed (rule loader_inv_fresh)

text \<open>The plugins the configuration does not disable.\<close>

definition enabled :: "world \<Rightarrow> plugin list \<Rightarrow> plugin list" where
  "enabled w pls = filter (\<lambda>pl. \<not> pc_Disabled (config_of w (pl_Name pl))) pls"

definition table :: "plugin list \<Rightarrow> string \<rightharpoonup> plugin" where
  "table pls = map_of (map (\<lambda>pl. (pl_Name pl, pl)) pls)"

lemma dom_table: "dom (table pls) = pl_Name ` set pls"
  by (simp add: table_def dom_map_of_conv_image_fst image_image)

lemma table_Cons: "table (pl # pls) = (table pls)(pl_Name pl \<mapsto> pl)"
  by (simp add: table_def)

lemma Load_all_table:
  assumes "w_state w = loaderLoading" and "\<forall>n \<in> dom (w_plugins w). \<not> pc_Disabled (config_of w n)"
    and "Load_all pls w = (r, w')"
  shows "if distinct (map pl_Name (enabled w pls)) \<and> pl_Name ` set (enabled w pls) \<inter> dom (w_plugins w) = {}
    then r = None \<and> w_plugins w' = w_plugins w ++ table (enabled w pls) \<and> w_state w' = loaderLoading \<and>
         config_of w' = config_of w \<and> w_trace w' = w_trace w \<and> w_started w' = w_started w
    else r \<noteq> None"
  using assms
proof (induction pls arbitrary: w)
  case Nil
  then show ?case by (auto simp: enabled_def table_def)
next
  case (Cons pl pls)
  let ?n = "pl_Name pl"
  consider (dup) "?n \<in> dom (w_plugins w)"
    | (off) "?n \<notin> dom (w_plugins w)" "pc_Disabled (config_of w ?n)"
    | (on) "?n \<notin> dom (w_plugins w)" "\<not> pc_Disabled (config_of w ?n)" by blast
  then show ?case
  proof cases
    case dup
    with Cons.prems show ?thesis by (auto simp: Load_def assertState_def Let_def enabled_def split: option.splits)
  next
    case off
    then have "enabled w (pl # pls) = enabled w pls" by (simp add: enabled_def)
    moreover have "Load_all pls w = (r, w')"
      using off Cons.prems by (auto simp: Load_def assertState_def Let_def split: option.splits)
    ultimately show ?thesis using Cons.IH[OF Cons.prems(1,2)] by simp
  next
    case on
    define v where "v = w\<lparr>w_loader := (w_loader w)\<lparr>l_plugins := (w_plugins w)(?n \<mapsto> pl)\<rparr>\<rparr>"
    have l: "Load_all pls v = (r, w')"
      using Cons.prems on by (auto simp: Load_def assertState_def Let_def v_def split: option.splits)
    have v: "w_state v = loaderLoading" "w_plugins v = (w_plugins w)(?n \<mapsto> pl)" "config_of v = config_of w"
      "w_trace v = w_trace w" "w_started v = w_started w" "enabled v = enabled w"
      using Cons.prems by (simp_all add: v_def config_of_def fun_eq_iff enabled_def)
    have e: "enabled w (pl # pls) = pl # enabled w pls" using on by (simp add: enabled_def)
    have d: "dom (w_plugins v) = insert ?n (dom (w_plugins w))" by (simp add: v)
    have pre: "\<forall>n \<in> dom (w_plugins v). \<not> pc_Disabled (config_of v n)"
      unfolding d v using Cons.prems(2) on(2) by auto
    have ih: "if distinct (map pl_Name (enabled w pls)) \<and> pl_Name ` set (enabled w pls) \<inter> insert ?n (dom (w_plugins w)) = {}
      then r = None \<and> w_plugins w' = (w_plugins w)(?n \<mapsto> pl) ++ table (enabled w pls) \<and> w_state w' = loaderLoading \<and>
           config_of w' = config_of w \<and> w_trace w' = w_trace w \<and> w_started w' = w_started w
      else r \<noteq> None"
      using Cons.IH[OF v(1) pre l] unfolding d unfolding v .
    have "(w_plugins w)(?n \<mapsto> pl) ++ table (enabled w pls) = w_plugins w ++ table (pl # enabled w pls)"
      if "?n \<notin> pl_Name ` set (enabled w pls)"
      using that by (simp add: map_add_upd_left dom_table table_Cons)
    with ih on(1) show ?thesis unfolding e by (auto split: if_splits)
  qed
qed

section \<open>Properties\<close>

lemma loader_lifecycle_parts:
  assumes "lreach E b w"
  shows "distinct (inits (w_trace w)) \<and> distinct (starts (w_trace w))"
    and "sorted (map phase (w_trace w))"
    and "starts (w_trace w) \<noteq> [] \<longrightarrow> set (inits (w_trace w)) = dom (w_plugins w)"
    and "w_state w \<notin> {loaderInitializing, loaderInjecting, loaderClosing}"
  using lsys.reachable_inv[OF assms] by (auto simp: loader_inv_def initialised_def)

text \<open>
  C14. Order of calls.  However the loader's methods are called, and whatever the plugins
  return: no plugin is initialised or started twice; calls happen in phases (initialisation before
  injection before start before close); no plugin is started unless every loaded plugin has been
  initialised; and the loader never rests in one of its transient states.
\<close>

theorem loader_lifecycle:
  assumes "lreach E b w"
  shows "(distinct (inits (w_trace w)) \<and> distinct (starts (w_trace w))) \<and>
    (sorted (map phase (w_trace w))) \<and>
    (starts (w_trace w) \<noteq> [] \<longrightarrow> set (inits (w_trace w)) = dom (w_plugins w)) \<and>
    (w_state w \<notin> {loaderInitializing, loaderInjecting, loaderClosing})"
  using loader_lifecycle_parts[OF assms] by blast

definition demo_plugin :: plugin where
  "demo_plugin = \<lparr>pl_Name = ''d'', pl_Version = ''1'', pl_IPLD = True, pl_Tracer = False, pl_Datastore = None,
     pl_Fx = False, pl_Daemon = PluginDaemon, pl_Closer = True\<rparr>"

definition demo_behaviour :: behaviour where
  "demo_behaviour = \<lparr>b_Init = (\<lambda>_ _. None), b_Register = (\<lambda>_. None), b_InitTracer = (\<lambda>_. None),
     b_Start = (\<lambda>_. None), b_Close = (\<lambda>_. None), b_NewCoreAPI = None\<rparr>"

definition demo_world :: world where
  "demo_world = \<lparr>w_loader = empty_loader [], w_ipld = [], w_tracer = None, w_datastores = {}, w_fx = [], w_trace = []\<rparr>"

lemmas loader_demo_defs = demo_plugin_def demo_behaviour_def demo_world_def empty_loader_def Load_def assertState_def
  config_of_def Initialize_def transition_def set_state_def record_call_def Inject_def inject_one_def and_then_def
  injectIPLDPlugin_def Start_def Close_def

definition demo_injected :: world where
  "demo_injected = snd (Inject demo_behaviour [''d''] (snd (Initialize demo_behaviour [''d''] (snd (Load demo_plugin demo_world)))))"

lemma demo_injected_reach: "lreach id demo_behaviour demo_injected"
  unfolding demo_injected_def
  by (intro lreach_step[OF _ inject] lreach_step[OF _ initialize] lreach_step[OF reachable.start load])
    (simp_all add: fresh_world_def plugin_order_def loader_demo_defs Let_def)

lemma demo_injected_order: "plugin_order [''d''] demo_injected" "w_state demo_injected = loaderInjected"
  by (simp_all add: demo_injected_def plugin_order_def loader_demo_defs Let_def)

theorem loader_lifecycle_witness: "sorted (map phase (w_trace (snd (Start id demo_behaviour [''d''] demo_injected))))"
  using loader_lifecycle[OF lreach_step[OF demo_injected_reach start_plugins[OF demo_injected_order(1)]]] by blast

lemma loader_close_releases_parts:
  assumes "lreach E b w" and "w_state w \<in> {loaderClosed, loaderFailed}"
  shows "closes (w_trace w) = filter (\<lambda>n. pl_Closer (the (w_plugins w n))) (started_ok (w_trace w))"
    and "w_started w = []"
  using lsys.reachable_inv[OF assms(1)] assms(2) by (auto simp: loader_inv_def closers_def)

text \<open>
  Release.  When the loader is closed or has failed, nothing is left running: the plugins
  closed are exactly those whose \<^verbatim>\<open>Start\<close> succeeded and that implement \<^verbatim>\<open>io.Closer\<close>, each closed once,
  in the order they were started; and no plugin is closed that was not started.
\<close>

theorem loader_close_releases:
  assumes "lreach E b w" and "w_state w \<in> {loaderClosed, loaderFailed}"
  shows "(closes (w_trace w) = filter (\<lambda>n. pl_Closer (the (w_plugins w n))) (started_ok (w_trace w))) \<and>
    (w_started w = [])"
  using loader_close_releases_parts[OF assms] by blast

theorem loader_close_releases_witness:
  "closes (w_trace (snd (Close id demo_behaviour (snd (Start id demo_behaviour [''d''] demo_injected))))) = [''d'']"
  using conjunct1[OF loader_close_releases[OF lreach_step[OF lreach_step[OF demo_injected_reach
      start_plugins[OF demo_injected_order(1)]] close_plugins]]]
  by (simp add: demo_injected_def loader_demo_defs Let_def)

lemma Start_all_or_nothing_parts:
  assumes "lreach E b w" and "w_state w = loaderInjected" and "plugin_order order w"
    and "b_NewCoreAPI b = None" and "Start E b order w = (r, w')"
  shows "r = None \<Longrightarrow> w_state w' = loaderStarted \<and>
      w_started w' = filter (\<lambda>pl. pl_Daemon pl \<noteq> NoDaemon) (map (\<lambda>n. the (w_plugins w n)) order)"
    and "r \<noteq> None \<Longrightarrow> w_state w' \<in> {loaderClosed, loaderFailed} \<and> w_started w' = [] \<and>
      closes (w_trace w') = filter (\<lambda>n. pl_Closer (the (w_plugins w' n))) (started_ok (w_trace w'))"
proof -
  let ?w = "set_state loaderStarting w"
  obtain q v where v: "Start_all E b order ?w = (q, v)" by force
  have "plugins_keyed ?w" "set order \<subseteq> dom (w_plugins ?w)" and st: "w_started w = []"
    using lsys.reachable_inv[OF assms(1)] assms(2,3)
    by (auto simp: loader_inv_def plugins_keyed_def plugin_order_def before_start_def)
  note spec = Start_all_spec[OF v this(1,2), unfolded start_outcome_def]
  have s: "Start E b order w = (case q of Some err \<Rightarrow> (Some err, v) | None \<Rightarrow> transition loaderStarting loaderStarted v)"
    using assms(2,4) v by (simp add: Start_def transition_def assertState_def)
  have reach: "lreach E b w'" using lreach_step[OF assms(1) start_plugins[OF assms(3)]] assms(5) by simp
  show "w_state w' = loaderStarted \<and>
      w_started w' = filter (\<lambda>pl. pl_Daemon pl \<noteq> NoDaemon) (map (\<lambda>n. the (w_plugins w n)) order)" if "r = None"
    using that spec s st assms(5) by (cases q) (auto simp: daemons_def transition_def assertState_def)
  show "w_state w' \<in> {loaderClosed, loaderFailed} \<and> w_started w' = [] \<and>
      closes (w_trace w') = filter (\<lambda>n. pl_Closer (the (w_plugins w' n))) (started_ok (w_trace w'))" if "r \<noteq> None"
  proof -
    have "w_state w' \<in> {loaderClosed, loaderFailed}"
      using that spec s assms(5) by (cases q) (auto simp: transition_def assertState_def)
    with lsys.reachable_inv[OF reach] show ?thesis by (auto simp: loader_inv_def closers_def)
  qed
qed

text \<open>
  \<^verbatim>\<open>Start\<close> is all or nothing.  From a reachable injected loader, with the core API available,
  either every daemon plugin is started and the loader is started, or the first failure closes the
  plugins started so far and leaves none in the started list, the loader closed or failed.
\<close>

theorem Start_all_or_nothing:
  assumes "lreach E b w" and "w_state w = loaderInjected" and "plugin_order order w"
    and "b_NewCoreAPI b = None" and "Start E b order w = (r, w')"
  shows "((r = None) \<longrightarrow> (w_state w' = loaderStarted \<and>
      w_started w' = filter (\<lambda>pl. pl_Daemon pl \<noteq> NoDaemon) (map (\<lambda>n. the (w_plugins w n)) order))) \<and>
    ((r \<noteq> None) \<longrightarrow> (w_state w' \<in> {loaderClosed, loaderFailed} \<and> w_started w' = [] \<and>
      closes (w_trace w') = filter (\<lambda>n. pl_Closer (the (w_plugins w' n))) (started_ok (w_trace w'))))"
  using Start_all_or_nothing_parts[OF assms] by blast

theorem Start_all_or_nothing_witness:
  "w_started (snd (Start id demo_behaviour [''d''] demo_injected)) = [demo_plugin]"
  using conjunct1[OF Start_all_or_nothing[OF demo_injected_reach demo_injected_order(2,1) _ prod.collapse[symmetric]]]
  by (simp add: demo_injected_def loader_demo_defs Let_def)

lemma NewPluginLoader_table_parts:
  assumes "repo \<noteq> []"
    and "NewPluginLoader preload (Inr (Some cfg)) lp stat files repo w0 = (r, w)"
    and "w1 = w0\<lparr>w_loader := (empty_loader repo)\<lparr>l_config := cfg\<rparr>\<rparr>"
  shows "r = None \<longleftrightarrow> (\<exists>dyn. loadDynamicPlugins lp stat files = Inr dyn \<and>
      distinct (map pl_Name (enabled w1 (preload @ dyn))))"
    and "r = None \<Longrightarrow> loadDynamicPlugins lp stat files = Inr dyn \<Longrightarrow>
      w_plugins w = map_of (map (\<lambda>pl. (pl_Name pl, pl)) (enabled w1 (preload @ dyn))) \<and> w_state w = loaderLoading"
proof -
  have w1: "w_state w1 = loaderLoading" "w_plugins w1 = Map.empty" by (simp_all add: assms(3) empty_loader_def)
  obtain q v where v: "Load_all preload w1 = (q, v)" by force
  have n: "(case q of Some err \<Rightarrow> (Some err, v) | None \<Rightarrow> LoadDirectory lp stat files v) = (r, w)"
    using assms(1,2) v by (cases q) (auto simp: NewPluginLoader_def assms(3))
  have pre: "if distinct (map pl_Name (enabled w1 preload))
    then q = None \<and> w_plugins v = table (enabled w1 preload) \<and> w_state v = loaderLoading \<and> config_of v = config_of w1
    else q \<noteq> None"
    using Load_all_table[OF w1(1) _ v] by (simp add: w1)
  have dyn: "if distinct (map pl_Name (enabled w1 (preload @ dyn)))
    then r = None \<and> w_plugins w = table (enabled w1 (preload @ dyn)) \<and> w_state w = loaderLoading else r \<noteq> None"
    if d: "loadDynamicPlugins lp stat files = Inr dyn" and q: "q = None" for dyn
  proof -
    have p: "distinct (map pl_Name (enabled w1 preload))" "w_plugins v = table (enabled w1 preload)"
      "w_state v = loaderLoading" "config_of v = config_of w1"
      using pre q by (auto split: if_splits)
    have "Load_all dyn v = (r, w)" using n d q p(3) by (simp add: LoadDirectory_def assertState_def)
    moreover have dom: "dom (w_plugins v) = pl_Name ` set (enabled w1 preload)"
      unfolding p(2) by (rule dom_table)
    moreover have "\<forall>n \<in> dom (w_plugins v). \<not> pc_Disabled (config_of v n)"
      unfolding dom p(4) by (auto simp: enabled_def)
    ultimately have "if distinct (map pl_Name (enabled w1 dyn)) \<and>
        pl_Name ` set (enabled w1 dyn) \<inter> pl_Name ` set (enabled w1 preload) = {}
      then r = None \<and> w_plugins w = table (enabled w1 preload) ++ table (enabled w1 dyn) \<and> w_state w = loaderLoading
      else r \<noteq> None"
      using Load_all_table[of v dyn r w] p by (auto simp: enabled_def)
    moreover have "enabled w1 (preload @ dyn) = enabled w1 preload @ enabled w1 dyn" by (simp add: enabled_def)
    moreover have "table (a @ c) = table a ++ table c" if "pl_Name ` set c \<inter> pl_Name ` set a = {}" for a c
      using that map_add_comm[of "table c" "table a"] by (simp add: dom_table) (simp add: table_def)
    ultimately show ?thesis using p(1) by (auto simp: Int_commute split: if_splits)
  qed
  have fail: "r \<noteq> None" if "\<nexists>dyn. loadDynamicPlugins lp stat files = Inr dyn"
    using n that by (cases q; cases "loadDynamicPlugins lp stat files")
      (auto simp: LoadDirectory_def assertState_def split: if_splits)
  have dup: "r \<noteq> None \<and> \<not> distinct (map pl_Name (enabled w1 (preload @ dyn)))" if "q \<noteq> None" for dyn
    using n that pre by (auto simp: enabled_def split: if_splits)
  show "r = None \<longleftrightarrow> (\<exists>dyn. loadDynamicPlugins lp stat files = Inr dyn \<and>
      distinct (map pl_Name (enabled w1 (preload @ dyn))))"
  proof (cases "q = None")
    case True
    with dyn fail show ?thesis by (metis (no_types, lifting))
  next
    case False
    with dup show ?thesis by blast
  qed
  show "w_plugins w = map_of (map (\<lambda>pl. (pl_Name pl, pl)) (enabled w1 (preload @ dyn))) \<and> w_state w = loaderLoading"
    if "r = None" "loadDynamicPlugins lp stat files = Inr dyn"
    using dyn[OF that(2)] dup that(1) by (cases "q = None") (auto simp: table_def split: if_splits)
qed

text \<open>
  Loading.  \<^verbatim>\<open>NewPluginLoader\<close> with an initialised repository succeeds exactly when the
  directory could be read and the enabled plugins, preloaded ones first, have different names; the
  table then holds exactly them.  A disabled plugin is neither loaded nor a duplicate.
\<close>

theorem NewPluginLoader_table:
  assumes "repo \<noteq> []"
    and "NewPluginLoader preload (Inr (Some cfg)) lp stat files repo w0 = (r, w)"
    and "w1 = w0\<lparr>w_loader := (empty_loader repo)\<lparr>l_config := cfg\<rparr>\<rparr>"
  shows "(r = None \<longleftrightarrow> (\<exists>dyn. loadDynamicPlugins lp stat files = Inr dyn \<and>
      distinct (map pl_Name (enabled w1 (preload @ dyn))))) \<and>
    ((r = None) \<longrightarrow> (loadDynamicPlugins lp stat files = Inr dyn) \<longrightarrow> (w_plugins w = map_of (map (\<lambda>pl. (pl_Name pl, pl)) (enabled w1 (preload @ dyn))) \<and> w_state w = loaderLoading))"
  using NewPluginLoader_table_parts[OF assms] by blast

theorem NewPluginLoader_table_witness:
  "fst (NewPluginLoader [demo_plugin] (Inr (Some [''d'' \<mapsto> \<lparr>pc_Disabled = True, pc_Config = []\<rparr>])) (\<lambda>_. Inr [])
     StatNotExist [] ''r'' demo_world) = None"
  using conjunct1[OF NewPluginLoader_table[OF _ prod.collapse[symmetric] refl, of "''r''"]]
  by (simp add: loadDynamicPlugins_def enabled_def config_of_def demo_plugin_def)

text \<open>
  Files in the plugin directory without any executable bit, and directories, are never
  loaded: the result does not depend on what loading them would give.
\<close>

theorem nonexecutable_not_loaded:
  assumes "\<And>f. f \<in> set files \<Longrightarrow> \<not> we_dir f \<Longrightarrow> we_perm f AND 0x49 \<noteq> 0 \<Longrightarrow> lp (we_path f) = lp' (we_path f)"
  shows "loadDynamicPlugins lp stat files = loadDynamicPlugins lp' stat files"
proof -
  have "walk_plugins lp files = walk_plugins lp' files"
    using assms by (induction files) (auto split: option.splits sum.splits)
  then show ?thesis by (simp add: loadDynamicPlugins_def split: stat_result.splits)
qed

theorem nonexecutable_not_loaded_witness:
  "loadDynamicPlugins (\<lambda>_. Inr [demo_plugin]) StatOk [\<lparr>we_path = ''p'', we_err = None, we_dir = False, we_perm = 0x124\<rparr>]
   = loadDynamicPlugins (\<lambda>_. Inr []) StatOk [\<lparr>we_path = ''p'', we_err = None, we_dir = False, we_perm = 0x124\<rparr>]"
  by (rule nonexecutable_not_loaded) simp

end
