(* ===== verification/Refs.thy ===== *)
theory Refs
  imports Prelude
begin

text \<open>
  The \<^verbatim>\<open>refs\<close> command: \<^verbatim>\<open>src/core/commands/refs.go\<close>.  The DAG service, the path resolver, the CID
  encoder, the request context and the response emitter are parameters (\<open>refs_env\<close>); the emitter
  and the context may fail at any point, depending on what has been emitted.  The traversal is
  bounded by fuel, one unit per level of the DAG; \<open>writeLinks_enough\<close> says how much is enough.
\<close>

type_synonym cidb = string

record RefWrapper =
  Ref :: string
  Err :: string

text \<open>
  \<^verbatim>\<open>Get\<close> gives the links of a node (\<^verbatim>\<open>ipld.GetDAG\<close> promises the same nodes, one per link);
  \<^verbatim>\<open>ctx_err\<close> and \<^verbatim>\<open>emit_err\<close> see what has been emitted so far.
\<close>

record refs_env =
  Get :: "cidb \<Rightarrow> string + (cidb \<times> string) list"
  ResolvePath :: "string \<Rightarrow> string + cidb"
  Encode :: "cidb \<Rightarrow> string"
  ctx_err :: "RefWrapper list \<Rightarrow> string option"
  emit_err :: "RefWrapper list \<Rightarrow> RefWrapper \<Rightarrow> string option"

text \<open>The options of a \<^verbatim>\<open>RefWriter\<close>, and what it changes; \<open>edges\<close> records the edges written.\<close>

record RefWriter =
  Unique :: bool
  MaxDepth :: int
  PrintFmt :: string

record rw_state =
  seen :: "cidb \<rightharpoonup> int"
  out :: "RefWrapper list"
  edges :: "(cidb \<times> cidb \<times> string) list"

section \<open>Visiting and writing\<close>

definition visit :: "RefWriter \<Rightarrow> cidb \<Rightarrow> int \<Rightarrow> rw_state \<Rightarrow> (bool \<times> bool) \<times> rw_state" where
  "visit rw c depth st =
     (let atMaxDepth = (MaxDepth rw \<ge> 0 \<and> depth = MaxDepth rw);
          overMaxDepth = (MaxDepth rw \<ge> 0 \<and> depth > MaxDepth rw)
      in if overMaxDepth then ((False, False), st)
         else if \<not> Unique rw then ((\<not> atMaxDepth, True), st)
         else case seen st c of
                Some oldDepth \<Rightarrow>
                  if MaxDepth rw < 0 \<or> oldDepth \<le> depth then ((False, False), st)
                  else ((\<not> atMaxDepth, False), st\<lparr>seen := (seen st)(c \<mapsto> depth)\<rparr>)
              | None \<Rightarrow> ((\<not> atMaxDepth, True), st\<lparr>seen := (seen st)(c \<mapsto> depth)\<rparr>))"

definition render :: "refs_env \<Rightarrow> RefWriter \<Rightarrow> cidb \<Rightarrow> cidb \<Rightarrow> string \<Rightarrow> string" where
  "render e rw from to linkname =
     (if PrintFmt rw \<noteq> [] then
        replace_all ''<linkname>'' linkname
          (replace_all ''<dst>'' (Encode e to) (replace_all ''<src>'' (Encode e from) (PrintFmt rw)))
      else Encode e to)"

definition Emit :: "refs_env \<Rightarrow> RefWrapper \<Rightarrow> rw_state \<Rightarrow> string option \<times> rw_state" where
  "Emit e r st =
     (case emit_err e (out st) r of
        Some err \<Rightarrow> (Some err, st)
      | None \<Rightarrow> (None, st\<lparr>out := out st @ [r]\<rparr>))"

definition WriteEdge :: "refs_env \<Rightarrow> RefWriter \<Rightarrow> cidb \<Rightarrow> cidb \<Rightarrow> string \<Rightarrow> rw_state \<Rightarrow> string option \<times> rw_state" where
  "WriteEdge e rw from to linkname st =
     (case ctx_err e (out st) of
        Some err \<Rightarrow> (Some err, st)
      | None \<Rightarrow>
          (case Emit e \<lparr>Ref = render e rw from to linkname, Err = []\<rparr> st of
             (Some err, st) \<Rightarrow> (Some err, st)
           | (None, st) \<Rightarrow> (None, st\<lparr>edges := edges st @ [(from, to, linkname)]\<rparr>)))"

datatype outcome = Done | Failed string | OutOfFuel

text \<open>
  The loop of \<^verbatim>\<open>writeRefsRecursive\<close> over the links of the node \<open>nc\<close>; the result carries the
  count of references written.
\<close>

fun writeLinks :: "refs_env \<Rightarrow> RefWriter \<Rightarrow> nat \<Rightarrow> cidb \<Rightarrow> (cidb \<times> string) list \<Rightarrow> int \<Rightarrow> rw_state \<Rightarrow> int \<Rightarrow>
    outcome \<times> int \<times> rw_state" where
  "writeLinks e rw fuel nc [] depth st count = (Done, count, st)"
| "writeLinks e rw fuel nc ((lc, name) # links) depth st count =
     (let ((goDeeper, shouldWrite), st) = visit rw lc (depth + 1) st in
      if \<not> shouldWrite \<and> \<not> goDeeper then writeLinks e rw fuel nc links depth st count
      else
        (case Get e lc of
           Inl err \<Rightarrow> (Failed err, count, st)
         | Inr nd \<Rightarrow>
             (case (if shouldWrite then WriteEdge e rw nc lc name st else (None, st)) of
                (Some err, st) \<Rightarrow> (Failed err, count, st)
              | (None, st) \<Rightarrow>
                  (let count = (if shouldWrite then count + 1 else count) in
                   if goDeeper then
                     (case fuel of
                        0 \<Rightarrow> (OutOfFuel, count, st)
                      | Suc fuel' \<Rightarrow>
                          (case writeLinks e rw fuel' lc nd (depth + 1) st 0 of
                             (Done, c, st) \<Rightarrow> writeLinks e rw fuel nc links depth st (count + c)
                           | (r, c, st) \<Rightarrow> (r, count + c, st)))
                   else writeLinks e rw fuel nc links depth st count))))"

definition writeRefsRecursive where
  "writeRefsRecursive e rw fuel nc links depth st = writeLinks e rw fuel nc links depth st 0"

definition WriteRefs :: "refs_env \<Rightarrow> RefWriter \<Rightarrow> nat \<Rightarrow> cidb \<Rightarrow> rw_state \<Rightarrow> outcome \<times> int \<times> rw_state" where
  "WriteRefs e rw fuel c st =
     (case Get e c of
        Inl err \<Rightarrow> (Failed err, 0, st)
      | Inr links \<Rightarrow> writeRefsRecursive e rw fuel c links 0 st)"

section \<open>The command\<close>

fun objectsForPaths :: "refs_env \<Rightarrow> string list \<Rightarrow> string + cidb list" where
  "objectsForPaths e [] = Inr []"
| "objectsForPaths e (sp # paths) =
     (case ResolvePath e sp of
        Inl err \<Rightarrow> Inl err
      | Inr c \<Rightarrow> (case objectsForPaths e paths of Inl err \<Rightarrow> Inl err | Inr cs \<Rightarrow> Inr (c # cs)))"

record refs_options =
  opt_unique :: bool
  opt_recursive :: bool
  opt_maxDepth :: int
  opt_edges :: bool
  opt_format :: string

definition refs_writer :: "refs_options \<Rightarrow> string + RefWriter" where
  "refs_writer opts =
     (let maxDepth = (if \<not> opt_recursive opts then 1 else opt_maxDepth opts) in
      if opt_edges opts then
        (if opt_format opts \<noteq> ''<dst>'' then Inl ''using format argument with edges is not allowed''
         else Inr \<lparr>Unique = opt_unique opts, MaxDepth = maxDepth, PrintFmt = ''<src> -> <dst>''\<rparr>)
      else Inr \<lparr>Unique = opt_unique opts, MaxDepth = maxDepth, PrintFmt = opt_format opts\<rparr>)"

text \<open>A failed object is reported to the client and the next one is tried.\<close>

fun write_objs :: "refs_env \<Rightarrow> RefWriter \<Rightarrow> nat \<Rightarrow> cidb list \<Rightarrow> rw_state \<Rightarrow> outcome \<times> rw_state" where
  "write_objs e rw fuel [] st = (Done, st)"
| "write_objs e rw fuel (o' # objs) st =
     (case WriteRefs e rw fuel o' st of
        (Done, _, st) \<Rightarrow> write_objs e rw fuel objs st
      | (OutOfFuel, _, st) \<Rightarrow> (OutOfFuel, st)
      | (Failed err, _, st) \<Rightarrow>
          (case Emit e \<lparr>Ref = [], Err = err\<rparr> st of
             (Some err, st) \<Rightarrow> (Failed err, st)
           | (None, st) \<Rightarrow> write_objs e rw fuel objs st))"

definition new_state :: rw_state where
  "new_state = \<lparr>seen = Map.empty, out = [], edges = []\<rparr>"

definition RefsCmd_Run :: "refs_env \<Rightarrow> refs_options \<Rightarrow> nat \<Rightarrow> string list \<Rightarrow> outcome \<times> rw_state" where
  "RefsCmd_Run e opts fuel paths =
     (case refs_writer opts of
        Inl err \<Rightarrow> (Failed err, new_state)
      | Inr rw \<Rightarrow>
          (case objectsForPaths e paths of
             Inl err \<Rightarrow> (Failed err, new_state)
           | Inr objs \<Rightarrow> write_objs e rw fuel objs new_state))"

text \<open>\<^verbatim>\<open>RefsLocalCmd\<close>: the keys of the block store, until emitting fails.\<close>

fun RefsLocalCmd_Run :: "refs_env \<Rightarrow> string list \<Rightarrow> rw_state \<Rightarrow> outcome \<times> rw_state" where
  "RefsLocalCmd_Run e [] st = (Done, st)"
| "RefsLocalCmd_Run e (k # ks) st =
     (case Emit e \<lparr>Ref = k, Err = []\<rparr> st of
        (Some err, st) \<Rightarrow> (Failed err, st)
      | (None, st) \<Rightarrow> RefsLocalCmd_Run e ks st)"

section \<open>What a traversal covers\<close>

definition within :: "RefWriter \<Rightarrow> int \<Rightarrow> bool" where
  "within rw k \<longleftrightarrow> MaxDepth rw < 0 \<or> k \<le> MaxDepth rw"

definition covers :: "RefWriter \<Rightarrow> (cidb \<rightharpoonup> int) \<Rightarrow> cidb \<Rightarrow> int \<Rightarrow> bool" where
  "covers rw s c k \<longleftrightarrow> (within rw k \<longrightarrow> (\<exists>k'. s c = Some k' \<and> (MaxDepth rw < 0 \<or> k' \<le> k)))"

definition node_expanded :: "refs_env \<Rightarrow> RefWriter \<Rightarrow> (cidb \<rightharpoonup> int) \<Rightarrow> cidb \<Rightarrow> int \<Rightarrow> bool" where
  "node_expanded e rw s c k \<longleftrightarrow> (\<forall>nd. Get e c = Inr nd \<longrightarrow> (\<forall>l \<in> fst ` set nd. covers rw s l (k + 1)))"

definition lower :: "(cidb \<rightharpoonup> int) \<Rightarrow> (cidb \<rightharpoonup> int) \<Rightarrow> bool" where
  "lower s s' \<longleftrightarrow> (\<forall>c k. s c = Some k \<longrightarrow> (\<exists>k'. s' c = Some k' \<and> k' \<le> k))"

lemma lower_refl [simp]: "lower s s"
  by (simp add: lower_def)

lemma lower_trans: "lower s t \<Longrightarrow> lower t u \<Longrightarrow> lower s u"
  unfolding lower_def by (meson order_trans)

lemma covers_lower: "covers rw s c k \<Longrightarrow> lower s s' \<Longrightarrow> covers rw s' c k"
  unfolding covers_def lower_def by (meson order_trans)

lemma expanded_lower: "node_expanded e rw s c k \<Longrightarrow> lower s s' \<Longrightarrow> node_expanded e rw s' c k"
  by (auto simp: node_expanded_def intro: covers_lower)

text \<open>One visit with \<^verbatim>\<open>Unique\<close> set, by its three outcomes.\<close>

lemma visit_unique:
  assumes "Unique rw" and "visit rw c k st = ((deeper, wr), st')"
  shows "(\<not> deeper \<and> \<not> wr \<and> st' = st \<and> covers rw (seen st) c k) \<or>
    (within rw k \<and> st' = st\<lparr>seen := (seen st)(c \<mapsto> k)\<rparr> \<and> lower (seen st) (seen st') \<and>
     (wr \<longleftrightarrow> seen st c = None) \<and> seen st c \<noteq> Some k \<and> (deeper \<longleftrightarrow> MaxDepth rw < 0 \<or> k < MaxDepth rw))"
  using assms
  by (auto simp: visit_def Let_def within_def covers_def lower_def split: if_splits option.splits)

lemma WriteEdge_cases:
  assumes "WriteEdge e rw a c n st = (r, st')"
  shows "seen st' = seen st \<and> (r = None \<and> edges st' = edges st @ [(a, c, n)] \<and>
      out st' = out st @ [\<lparr>Ref = render e rw a c n, Err = []\<rparr>] \<or> r \<noteq> None \<and> st' = st)"
proof (cases r)
  case None
  with assms show ?thesis by (auto simp: WriteEdge_def Emit_def split: option.splits)
next
  case (Some err)
  with assms show ?thesis by (auto simp: WriteEdge_def Emit_def split: option.splits)
qed

text \<open>One round of the loop, by its outcomes.\<close>

lemma writeLinks_Cons_cases:
  assumes "writeLinks e rw fuel nc ((lc, name) # links) depth st count = (r, n, st')"
    and "visit rw lc (depth + 1) st = ((deeper, wr), st1)"
  obtains (skip) "\<not> wr" "\<not> deeper" "writeLinks e rw fuel nc links depth st1 count = (r, n, st')"
  | (get_failed) err where "wr \<or> deeper" "Get e lc = Inl err" "r = Failed err" "n = count" "st' = st1"
  | (write_failed) err nd where "wr" "Get e lc = Inr nd" "WriteEdge e rw nc lc name st1 = (Some err, st')"
      "r = Failed err" "n = count"
  | (written) nd st2 count2 where "wr \<or> deeper" "Get e lc = Inr nd" "\<not> deeper"
      "if wr then WriteEdge e rw nc lc name st1 = (None, st2) else st2 = st1"
      "count2 = (if wr then count + 1 else count)"
      "writeLinks e rw fuel nc links depth st2 count2 = (r, n, st')"
  | (no_fuel) nd st2 where "Get e lc = Inr nd" "deeper" "fuel = 0"
      "if wr then WriteEdge e rw nc lc name st1 = (None, st2) else st2 = st1"
      "r = OutOfFuel" "n = (if wr then count + 1 else count)" "st' = st2"
  | (down) nd st2 count2 fuel' r3 c st3 where "Get e lc = Inr nd" "deeper" "fuel = Suc fuel'"
      "if wr then WriteEdge e rw nc lc name st1 = (None, st2) else st2 = st1"
      "count2 = (if wr then count + 1 else count)"
      "writeLinks e rw fuel' lc nd (depth + 1) st2 0 = (r3, c, st3)"
      "if r3 = Done then writeLinks e rw fuel nc links depth st3 (count2 + c) = (r, n, st')
       else r = r3 \<and> n = count2 + c \<and> st' = st3"
proof -
  show thesis
  proof (cases "\<not> wr \<and> \<not> deeper")
    case True
    with assms skip show thesis by simp
  next
    case False
    then have act: "wr \<or> deeper" by auto
    show thesis
    proof (cases "Get e lc")
      case (Inl err)
      with assms False get_failed act show thesis by auto
    next
      case (Inr nd)
      obtain we st2 where we: "(if wr then WriteEdge e rw nc lc name st1 else (None, st1)) = (we, st2)" by force
      show thesis
      proof (cases we)
        case (Some err)
        with we have "wr" by (auto split: if_splits)
        with assms False Inr we Some write_failed show thesis by auto
      next
        case None
        with we have ok: "if wr then WriteEdge e rw nc lc name st1 = (None, st2) else st2 = st1"
          by (auto split: if_splits)
        let ?c = "if wr then count + 1 else count"
        show thesis
        proof (cases deeper)
          case True
          show thesis
          proof (cases fuel)
            case 0
            with assms False Inr we None True ok no_fuel show thesis by auto
          next
            case (Suc fuel')
            obtain r3 c st3 where rec: "writeLinks e rw fuel' lc nd (depth + 1) st2 0 = (r3, c, st3)"
              by (metis prod_cases3)
            have "if r3 = Done then writeLinks e rw fuel nc links depth st3 (?c + c) = (r, n, st')
                else r = r3 \<and> n = ?c + c \<and> st' = st3"
              using assms False Inr we None True Suc rec by (cases r3) auto
            from down[OF Inr True Suc ok refl rec this] show thesis .
          qed
        next
          case no: False
          have "writeLinks e rw fuel nc links depth st2 ?c = (r, n, st')"
            using assms False Inr we None no by simp
          from written[OF act Inr no ok refl this] show thesis .
        qed
      qed
    qed
  qed
qed

lemma seen_written:
  "if wr then WriteEdge e rw nc lc name st1 = (None, st2) else st2 = st1 \<Longrightarrow> seen st2 = seen st1"
  by (auto dest: WriteEdge_cases split: if_splits)

text \<open>
  A successful traversal with \<^verbatim>\<open>Unique\<close> set has seen every link in reach, and everything it has
  newly recorded is itself expanded.
\<close>

definition post :: "refs_env \<Rightarrow> RefWriter \<Rightarrow> (cidb \<times> string) list \<Rightarrow> int \<Rightarrow> rw_state \<Rightarrow> rw_state \<Rightarrow> bool" where
  "post e rw links depth st st' \<longleftrightarrow>
     lower (seen st) (seen st') \<and> (\<forall>l \<in> fst ` set links. covers rw (seen st') l (depth + 1)) \<and>
     (\<forall>c k. seen st' c = Some k \<longrightarrow> seen st c \<noteq> Some k \<longrightarrow> node_expanded e rw (seen st') c k)"

lemma post_step:
  assumes "post e rw links depth sm st'" and "lower (seen st) (seen sm)" and "covers rw (seen sm) lc (depth + 1)"
    and "\<And>c k. seen sm c = Some k \<Longrightarrow> seen st c \<noteq> Some k \<Longrightarrow> node_expanded e rw (seen sm) c k"
  shows "post e rw ((lc, name) # links) depth st st'"
proof -
  have low: "lower (seen sm) (seen st')" using assms(1) by (simp add: post_def)
  show ?thesis
    unfolding post_def
  proof (intro conjI allI impI ballI)
    show "lower (seen st) (seen st')" using assms(2) low by (rule lower_trans)
    show "covers rw (seen st') l (depth + 1)" if "l \<in> fst ` set ((lc, name) # links)" for l
      using that assms(1) covers_lower[OF assms(3) low] by (auto simp: post_def)
    show "node_expanded e rw (seen st') c k" if "seen st' c = Some k" "seen st c \<noteq> Some k" for c k
      using that assms(1) expanded_lower[OF assms(4) low, of c k] by (cases "seen sm c = Some k") (auto simp: post_def)
  qed
qed

lemma writeLinks_post:
  assumes "Unique rw" and "writeLinks e rw fuel nc links depth st count = (Done, n, st')"
  shows "post e rw links depth st st'"
  using assms(2)
proof (induction fuel arbitrary: nc links depth st count n st' rule: less_induct)
  case (less fuel)
  from less.prems show ?case
  proof (induction links arbitrary: st count n)
    case Nil
    then show ?case by (simp add: post_def)
  next
    case (Cons l links)
    obtain lc name where l: "l = (lc, name)" by force
    obtain deeper wr st1 where v: "visit rw lc (depth + 1) st = ((deeper, wr), st1)" by (metis prod.collapse)
    note vu = visit_unique[OF assms(1) v]
    from Cons.prems[unfolded l] v show ?case
    proof (cases rule: writeLinks_Cons_cases)
      case skip
      with Cons.IH have "post e rw links depth st1 st'" by blast
      moreover have "lower (seen st) (seen st1)" "covers rw (seen st1) lc (depth + 1)"
        "\<And>c k. seen st1 c = Some k \<Longrightarrow> seen st c \<noteq> Some k \<Longrightarrow> node_expanded e rw (seen st1) c k"
        using vu skip(1,2) by (auto simp: within_def covers_def node_expanded_def split: if_splits)
      ultimately show ?thesis unfolding l by (rule post_step)
    next
      case (written nd st2 count2)
      have s2: "seen st2 = (seen st)(lc \<mapsto> depth + 1)" "lower (seen st) (seen st2)"
        and at: "\<not> within rw (depth + 1 + 1)"
        using vu written(1,3) seen_written[OF written(4)] by (auto simp: within_def)
      have "post e rw links depth st2 st'" using Cons.IH[OF written(6)] .
      then show ?thesis unfolding l
        using s2 at written(2)
        by (intro post_step[of _ _ _ _ st2]) (auto simp: covers_def node_expanded_def split: if_splits)
    next
      case (down nd st2 count2 fuel' r3 c st3)
      then have r3: "r3 = Done" and rest: "writeLinks e rw fuel nc links depth st3 (count2 + c) = (Done, n, st')"
        by (auto split: if_splits)
      have s2: "seen st2 = (seen st)(lc \<mapsto> depth + 1)" "lower (seen st) (seen st2)"
        using vu down(2) seen_written[OF down(4)] by auto
      have p: "post e rw nd (depth + 1) st2 st3" using less.IH[of fuel'] down(3,6) r3 by auto
      have low: "lower (seen st2) (seen st3)" using p by (simp add: post_def)
      have lc: "node_expanded e rw (seen st3) lc (depth + 1)"
        using p down(1) by (auto simp: post_def node_expanded_def)
      have "post e rw links depth st3 st'" using Cons.IH[OF rest] .
      then show ?thesis unfolding l
      proof (rule post_step)
        show "lower (seen st) (seen st3)" using s2(2) low by (rule lower_trans)
        show "covers rw (seen st3) lc (depth + 1)"
          using covers_lower[OF _ low, of rw lc "depth + 1"] s2(1) by (simp add: covers_def)
        show "node_expanded e rw (seen st3) c k" if "seen st3 c = Some k" "seen st c \<noteq> Some k" for c k
          using that p lc s2(1) by (cases "seen st2 c = Some k") (auto simp: post_def split: if_splits)
      qed
    qed simp_all
  qed
qed

section \<open>What a traversal writes\<close>

inductive path :: "refs_env \<Rightarrow> cidb set \<Rightarrow> nat \<Rightarrow> cidb \<Rightarrow> bool" for e roots where
  root: "r \<in> roots \<Longrightarrow> path e roots 0 r"
| link: "path e roots k c \<Longrightarrow> Get e c = Inr nd \<Longrightarrow> (l, name) \<in> set nd \<Longrightarrow> path e roots (Suc k) l"

definition dsts :: "rw_state \<Rightarrow> cidb list" where
  "dsts st = map (fst \<circ> snd) (edges st)"

definition sound :: "refs_env \<Rightarrow> RefWriter \<Rightarrow> cidb set \<Rightarrow> rw_state \<Rightarrow> bool" where
  "sound e rw roots st \<longleftrightarrow>
     (\<forall>c k. seen st c = Some k \<longrightarrow> (\<exists>j. k = int (Suc j) \<and> path e roots (Suc j) c \<and> within rw k)) \<and>
     (\<forall>a c n. (a, c, n) \<in> set (edges st) \<longrightarrow>
        (\<exists>j. path e roots (Suc j) c \<and> within rw (int (Suc j))) \<and> (\<exists>nd. Get e c = Inr nd) \<and>
        (\<exists>nd. Get e a = Inr nd \<and> (c, n) \<in> set nd)) \<and>
     (Unique rw \<longrightarrow> distinct (dsts st) \<and> set (dsts st) \<subseteq> dom (seen st))"

lemma visit_sound:
  assumes "sound e rw roots st" and "path e roots j nc" "Get e nc = Inr nd" "(lc, name) \<in> set nd"
    and "visit rw lc (int j + 1) st = ((deeper, wr), st1)"
  shows "sound e rw roots st1" and "edges st1 = edges st" and "out st1 = out st"
    and "wr \<or> deeper \<Longrightarrow> within rw (int (Suc j))"
    and "Unique rw \<Longrightarrow> wr \<Longrightarrow> seen st lc = None \<and> lc \<in> dom (seen st1)"
    and "Unique rw \<Longrightarrow> \<not> wr \<Longrightarrow> dom (seen st1) = dom (seen st)"
    and "Unique rw \<Longrightarrow> wr \<Longrightarrow> dom (seen st1) = insert lc (dom (seen st))"
proof -
  have p: "path e roots (Suc j) lc" using assms(2-4) by (rule path.link)
  have *: "int j + 1 = int (Suc j)" by simp
  show "edges st1 = edges st" "out st1 = out st" "wr \<or> deeper \<Longrightarrow> within rw (int (Suc j))"
    "Unique rw \<Longrightarrow> wr \<Longrightarrow> seen st lc = None \<and> lc \<in> dom (seen st1)"
    "Unique rw \<Longrightarrow> \<not> wr \<Longrightarrow> dom (seen st1) = dom (seen st)"
    "Unique rw \<Longrightarrow> wr \<Longrightarrow> dom (seen st1) = insert lc (dom (seen st))"
    using assms(5) by (auto simp: visit_def Let_def within_def split: if_splits option.splits)
  show "sound e rw roots st1"
  proof (cases "st1 = st")
    case True
    with assms(1) show ?thesis by simp
  next
    case False
    then have "st1 = st\<lparr>seen := (seen st)(lc \<mapsto> int j + 1)\<rparr> \<and> within rw (int j + 1)"
      using assms(5) by (auto simp: visit_def Let_def within_def split: if_splits option.splits)
    then have s: "st1 = st\<lparr>seen := (seen st)(lc \<mapsto> int (Suc j))\<rparr>" "within rw (int (Suc j))"
      unfolding * by auto
    have "\<exists>i. k = int (Suc i) \<and> path e roots (Suc i) c \<and> within rw k"
      if "((seen st)(lc \<mapsto> int (Suc j))) c = Some k" for c k
    proof (cases "c = lc")
      case True
      with that p s(2) show ?thesis by auto
    next
      case False
      with that assms(1) show ?thesis by (simp add: sound_def)
    qed
    moreover have "set (dsts st) \<subseteq> dom ((seen st)(lc \<mapsto> int (Suc j)))" if "Unique rw"
      using assms(1) that by (auto simp: sound_def)
    ultimately show ?thesis
      using assms(1) unfolding sound_def s(1) by (simp add: dsts_def)
  qed
qed

lemma WriteEdge_sound:
  assumes "sound e rw roots st" "path e roots (Suc j) lc" "within rw (int (Suc j))"
    and "Get e nc = Inr nd" "(lc, name) \<in> set nd" "Get e lc = Inr nd'"
    and "Unique rw \<Longrightarrow> lc \<notin> set (dsts st) \<and> lc \<in> dom (seen st)"
    and "WriteEdge e rw nc lc name st = (r, st')"
  shows "sound e rw roots st'"
  using WriteEdge_cases[OF assms(8)]
proof (elim conjE disjE)
  assume s: "seen st' = seen st" "r = None" "edges st' = edges st @ [(nc, lc, name)]"
  have "dsts st' = dsts st @ [lc]" by (simp add: dsts_def s)
  with assms(1-7) s show ?thesis unfolding sound_def
    by (simp only: s set_append) (auto simp: dsts_def)
qed (use assms(1) in simp)

text \<open>What one call adds, whatever its outcome.\<close>

definition writes :: "refs_env \<Rightarrow> RefWriter \<Rightarrow> rw_state \<Rightarrow> rw_state \<Rightarrow> int \<Rightarrow> bool" where
  "writes e rw st st' n \<longleftrightarrow>
     (\<exists>es. edges st' = edges st @ es \<and> n = int (length es) \<and>
        out st' = out st @ map (\<lambda>(a, c, m). \<lparr>Ref = render e rw a c m, Err = []\<rparr>) es)"

lemma writes_refl [simp]: "edges st' = edges st \<Longrightarrow> out st' = out st \<Longrightarrow> writes e rw st st' 0"
  by (simp add: writes_def)

lemma writes_trans: "writes e rw a b n \<Longrightarrow> writes e rw b c m \<Longrightarrow> writes e rw a c (n + m)"
  unfolding writes_def by force

lemma writes_edge: "WriteEdge e rw a c n st = (r, st') \<Longrightarrow> writes e rw st st' (if r = None then 1 else 0)"
  using WriteEdge_cases[of e rw a c n st r st'] by (auto simp: writes_def intro: exI[of _ "[_]"])

definition complete :: "RefWriter \<Rightarrow> rw_state \<Rightarrow> bool" where
  "complete rw st \<longleftrightarrow> (Unique rw \<longrightarrow> set (dsts st) = dom (seen st))"

text \<open>Entering a link and writing its edge, when it is due, keeps the output sound, and complete on success.\<close>

lemma enter_sound:
  assumes "sound e rw roots st" "path e roots j nc" "Get e nc = Inr nd" "(lc, name) \<in> set nd"
    and "visit rw lc (int j + 1) st = ((deeper, wr), st1)"
    and edge: "if wr then WriteEdge e rw nc lc name st1 = (None, st2) else st2 = st1"
    and act: "wr \<or> deeper" and get: "Get e lc = Inr nd'"
  shows "sound e rw roots st2" "writes e rw st st2 (if wr then 1 else 0)" "complete rw st \<longrightarrow> complete rw st2"
proof -
  note vs = visit_sound[OF assms(1-5)]
  have p: "path e roots (Suc j) lc" using assms(2-4) by (rule path.link)
  have w1: "writes e rw st st1 0" using vs(2,3) by simp
  have dst1: "dsts st1 = dsts st" by (simp add: dsts_def vs(2))
  have "sound e rw roots st2 \<and> writes e rw st st2 (if wr then 1 else 0) \<and> (complete rw st \<longrightarrow> complete rw st2)"
  proof (cases wr)
    case True
    with edge have w: "WriteEdge e rw nc lc name st1 = (None, st2)" by simp
    have fresh: "lc \<notin> set (dsts st1) \<and> lc \<in> dom (seen st1)" if "Unique rw"
      using vs(2) vs(5)[OF that True] assms(1) that by (auto simp: sound_def dsts_def)
    have "sound e rw roots st2"
      using WriteEdge_sound[OF vs(1) p vs(4)[OF act] assms(3,4) get _ w] fresh by blast
    moreover have "writes e rw st st2 1" using writes_trans[OF w1 writes_edge[OF w]] by simp
    moreover have "dsts st2 = dsts st @ [lc]" "seen st2 = seen st1"
      using WriteEdge_cases[OF w] dst1 by (auto simp: dsts_def)
    ultimately show ?thesis using True vs(7) by (auto simp: complete_def)
  next
    case False
    then show ?thesis using edge act vs(1,6) w1 dst1 by (auto simp: complete_def)
  qed
  then show "sound e rw roots st2" "writes e rw st st2 (if wr then 1 else 0)" "complete rw st \<longrightarrow> complete rw st2" by auto
qed

lemma writeLinks_sound:
  assumes "writeLinks e rw fuel nc links (int j) st count = (r, n, st')"
    and "sound e rw roots st" "path e roots j nc" "Get e nc = Inr nd" "set links \<subseteq> set nd"
  shows "sound e rw roots st' \<and> writes e rw st st' (n - count) \<and>
    (r = Done \<longrightarrow> complete rw st \<longrightarrow> complete rw st')"
  using assms
proof (induction fuel arbitrary: nc nd links j st count r n st' rule: less_induct)
  case (less fuel)
  from less.prems(1,2,5) show ?case
  proof (induction links arbitrary: st count)
    case Nil
    then show ?case by simp
  next
    case (Cons l links)
    obtain lc name where l: "l = (lc, name)" by force
    obtain deeper wr st1 where v: "visit rw lc (int j + 1) st = ((deeper, wr), st1)" by (metis prod.collapse)
    have mem: "(lc, name) \<in> set nd" "set links \<subseteq> set nd" using Cons.prems(3) l by auto
    note vs = visit_sound[OF Cons.prems(2) less.prems(3,4) mem(1) v]
    have p: "path e roots (Suc j) lc" using less.prems(3,4) mem(1) by (rule path.link)
    have fresh: "lc \<notin> set (dsts st1) \<and> lc \<in> dom (seen st1)" if "Unique rw" wr
      using vs(2) vs(5)[OF that] Cons.prems(2) that by (auto simp: sound_def dsts_def)
    have w1: "writes e rw st st1 0" using vs(2,3) by simp
    have dst1: "dsts st1 = dsts st" by (simp add: dsts_def vs(2))
    note second = enter_sound[OF Cons.prems(2) less.prems(3,4) mem(1) v]
    from Cons.prems(1)[unfolded l] v show ?case
    proof (cases rule: writeLinks_Cons_cases)
      case skip
      have "complete rw st \<longrightarrow> complete rw st1" using skip(1) vs(6) dst1 by (auto simp: complete_def)
      moreover have "writes e rw st st' (n - count)"
        if "writes e rw st1 st' (n - count)" using writes_trans[OF w1 that] by simp
      ultimately show ?thesis using Cons.IH[OF skip(3) vs(1) mem(2)] by blast
    next
      case (get_failed err)
      then show ?thesis using vs(1) w1 by simp
    next
      case (write_failed err nd')
      then have "sound e rw roots st'"
        using WriteEdge_sound[OF vs(1) p vs(4) less.prems(4) mem(1) write_failed(2) _ write_failed(3)] fresh by blast
      then show ?thesis using write_failed(4,5) writes_trans[OF w1 writes_edge[OF write_failed(3)]] by simp
    next
      case (written nd' st2 count2)
      note s = second[OF written(4,1,2)]
      have "writes e rw st st' (n - count)" if "writes e rw st2 st' (n - count2)"
        using writes_trans[OF s(2) that] written(5) by (auto split: if_splits)
      then show ?thesis using Cons.IH[OF written(6) s(1) mem(2)] s by blast
    next
      case (no_fuel nd' st2)
      then show ?thesis using second[OF no_fuel(4) _ no_fuel(1)] by auto
    next
      case (down nd' st2 count2 fuel' r3 c st3)
      note s = second[OF down(4) disjI2[OF down(2)] down(1)]
      have "writeLinks e rw fuel' lc nd' (int (Suc j)) st2 0 = (r3, c, st3)" using down(6) by (simp add: algebra_simps)
      from less.IH[OF _ this s(1) p down(1) subset_refl] down(3)
      have d: "sound e rw roots st3" "writes e rw st2 st3 c" "r3 = Done \<Longrightarrow> complete rw st2 \<longrightarrow> complete rw st3" by auto
      have w3: "writes e rw st st3 (count2 - count + c)"
        using writes_trans[OF s(2) d(2)] down(5) by (auto split: if_splits)
      show ?thesis
      proof (cases "r3 = Done")
        case True
        with down(7) have rest: "writeLinks e rw fuel nc links (int j) st3 (count2 + c) = (r, n, st')" by simp
        have "writes e rw st st' (n - count)" if "writes e rw st3 st' (n - (count2 + c))"
          using writes_trans[OF w3 that] by simp
        then show ?thesis using Cons.IH[OF rest d(1) mem(2)] d(3)[OF True] s by blast
      next
        case False
        then show ?thesis using down(7) d(1) w3 by (simp add: algebra_simps)
      qed
    qed
  qed
qed

section \<open>Fuel\<close>

lemma visit_deeper: "visit rw c k st = ((True, wr), st1) \<Longrightarrow> 0 \<le> MaxDepth rw \<Longrightarrow> k < MaxDepth rw"
  by (auto simp: visit_def Let_def split: if_splits option.splits)

lemma writeLinks_enough_depth:
  assumes "0 \<le> MaxDepth rw" and "MaxDepth rw \<le> depth + 1 + int fuel"
  shows "fst (writeLinks e rw fuel nc links depth st count) \<noteq> OutOfFuel"
  using assms(2)
proof (induction fuel arbitrary: nc links depth st count rule: less_induct)
  case (less fuel)
  show ?case
  proof (induction links arbitrary: st count)
    case (Cons l links)
    obtain lc name where l: "l = (lc, name)" by force
    obtain deeper wr st1 where v: "visit rw lc (depth + 1) st = ((deeper, wr), st1)" by (metis prod.collapse)
    obtain r n st' where w: "writeLinks e rw fuel nc ((lc, name) # links) depth st count = (r, n, st')"
      by (metis prod_cases3)
    have "r \<noteq> OutOfFuel"
      using w v
    proof (cases rule: writeLinks_Cons_cases)
      case (no_fuel nd st2)
      with v less.prems visit_deeper[of rw lc "depth + 1" st wr st1] assms(1) show ?thesis by auto
    next
      case (down nd st2 count2 fuel' r3 c st3)
      have "r3 \<noteq> OutOfFuel" using less.IH[of fuel' "depth + 1" lc nd st2 0] down(3,6) less.prems by auto
      then show ?thesis using down(7) Cons.IH[of st3 "count2 + c"] by (auto split: if_splits)
    next
      case skip
      with Cons.IH[of st1 count] show ?thesis by simp
    next
      case (written nd st2 count2)
      with Cons.IH[of st2 count2] show ?thesis by simp
    qed simp_all
    then show ?case using w l by simp
  qed simp
qed

lemma writeLinks_enough_height:
  assumes "\<And>c nd l name. Get e c = Inr nd \<Longrightarrow> (l, name) \<in> set nd \<Longrightarrow> height l < height c"
    and "\<And>l name. (l, name) \<in> set links \<Longrightarrow> height l < fuel"
  shows "fst (writeLinks e rw fuel nc links depth st count) \<noteq> OutOfFuel"
  using assms(2)
proof (induction fuel arbitrary: nc links depth st count rule: less_induct)
  case (less fuel)
  from less.prems show ?case
  proof (induction links arbitrary: st count)
    case (Cons l links)
    obtain lc name where l: "l = (lc, name)" by force
    obtain deeper wr st1 where v: "visit rw lc (depth + 1) st = ((deeper, wr), st1)" by (metis prod.collapse)
    obtain r n st' where w: "writeLinks e rw fuel nc ((lc, name) # links) depth st count = (r, n, st')"
      by (metis prod_cases3)
    have IH: "fst (writeLinks e rw fuel nc links depth st count) \<noteq> OutOfFuel" for st count
      using Cons.IH Cons.prems by (meson list.set_intros(2))
    have h: "height lc < fuel" using Cons.prems[of lc name] l by simp
    have "r \<noteq> OutOfFuel"
      using w v
    proof (cases rule: writeLinks_Cons_cases)
      case (down nd st2 count2 fuel' r3 c st3)
      have "height l' < fuel'" if "(l', m) \<in> set nd" for l' m
        using assms(1)[OF down(1) that] h down(3) by linarith
      then have "r3 \<noteq> OutOfFuel" using less.IH[of fuel' nd lc "depth + 1" st2 0] down(3,6) by auto
      then show ?thesis using down(7) IH[of st3 "count2 + c"] by (auto split: if_splits)
    next
      case skip
      with IH[of st1 count] show ?thesis by simp
    next
      case (written nd st2 count2)
      with IH[of st2 count2] show ?thesis by simp
    next
      case (no_fuel nd st2)
      with h show ?thesis by simp
    qed simp_all
    then show ?case using w l by simp
  qed simp
qed

section \<open>Properties\<close>

lemma sound_new: "sound e rw roots new_state" "complete rw new_state"
  by (simp_all add: sound_def complete_def new_state_def dsts_def)

lemma covers_mono: "covers rw s c k \<Longrightarrow> k \<le> k' \<Longrightarrow> within rw k' \<Longrightarrow> covers rw s c k'"
  by (auto simp: covers_def within_def)

lemma covers_path:
  assumes "\<forall>l \<in> fst ` set nd. covers rw s l 1" and "Get e r = Inr nd"
    and "\<And>c k. s c = Some k \<Longrightarrow> node_expanded e rw s c k"
    and "path e {r} j c"
  shows "0 < j \<Longrightarrow> within rw (int j) \<Longrightarrow> covers rw s c (int j)"
  using assms(4)
proof (induction rule: path.induct)
  case (link k c nd' l name)
  show ?case
  proof (cases "k = 0")
    case True
    with link have "c = r" by (auto elim: path.cases)
    with link assms(1,2) True show ?thesis by force
  next
    case False
    have w: "within rw (int k)" using link.prems(2) by (auto simp: within_def)
    with link False obtain k' where k': "s c = Some k'" "MaxDepth rw < 0 \<or> k' \<le> int k"
      by (auto simp: covers_def)
    have "covers rw s l (k' + 1)" using assms(3)[OF k'(1)] link.hyps(2,3) by (force simp: node_expanded_def)
    then show ?thesis using k'(2) link.prems(2) by (auto simp: covers_def within_def)
  qed
qed simp

lemma WriteRefs_unique_exact_parts:
  assumes "Unique rw" and "WriteRefs e rw fuel root new_state = (Done, n, st)"
  shows "distinct (dsts st)"
    and "set (dsts st) = {c. \<exists>j > 0. path e {root} j c \<and> (MaxDepth rw < 0 \<or> int j \<le> MaxDepth rw)}"
    and "n = int (length (dsts st))"
    and "out st = map (\<lambda>(a, c, m). \<lparr>Ref = render e rw a c m, Err = []\<rparr>) (edges st)"
proof -
  obtain nd where nd: "Get e root = Inr nd" and w: "writeLinks e rw fuel root nd (int 0) new_state 0 = (Done, n, st)"
    using assms(2) by (auto simp: WriteRefs_def writeRefsRecursive_def split: sum.splits)
  note snd = writeLinks_sound[OF w sound_new(1) path.root[OF singletonI] nd subset_refl]
  have p: "post e rw nd 0 new_state st" using writeLinks_post[OF assms(1)] w by simp
  have exp: "node_expanded e rw (seen st) c k" if "seen st c = Some k" for c k
    using p that by (auto simp: post_def new_state_def)
  have cov: "\<forall>l \<in> fst ` set nd. covers rw (seen st) l 1" using p by (simp add: post_def)
  show "distinct (dsts st)" using snd assms(1) by (simp add: sound_def)
  have "dom (seen st) = {c. \<exists>j > 0. path e {root} j c \<and> within rw (int j)}"
  proof (intro set_eqI iffI)
    fix c assume "c \<in> dom (seen st)"
    then obtain k where "seen st c = Some k" by auto
    moreover have "\<forall>c k. seen st c = Some k \<longrightarrow> (\<exists>j. k = int (Suc j) \<and> path e {root} (Suc j) c \<and> within rw k)"
      using snd unfolding sound_def by (elim conjE)
    ultimately show "c \<in> {c. \<exists>j > 0. path e {root} j c \<and> within rw (int j)}" by blast
  next
    fix c assume "c \<in> {c. \<exists>j > 0. path e {root} j c \<and> within rw (int j)}"
    then obtain j where j: "0 < j" "path e {root} j c" "within rw (int j)" by auto
    from covers_path[OF cov nd exp j(2,1,3)] j(3) show "c \<in> dom (seen st)" by (auto simp: covers_def)
  qed
  then show "set (dsts st) = {c. \<exists>j > 0. path e {root} j c \<and> (MaxDepth rw < 0 \<or> int j \<le> MaxDepth rw)}"
    using snd sound_new(2)[of rw] assms(1) by (simp add: complete_def within_def)
  show "n = int (length (dsts st))"
    "out st = map (\<lambda>(a, c, m). \<lparr>Ref = render e rw a c m, Err = []\<rparr>) (edges st)"
    using snd by (auto simp: writes_def new_state_def dsts_def)
qed

text \<open>
  C4. \<^verbatim>\<open>ipfs refs --unique\<close> is exact.  When \<^verbatim>\<open>WriteRefs\<close> returns without error, the references
  written are, each exactly once, the nodes reachable from the object by at least one link and at
  most \<^verbatim>\<open>MaxDepth\<close> links (any number when it is negative): the pruning of branches seen before, with
  its record of depths, loses nothing.  The count returned is the number of references, and the
  emitted lines are those references in order.
\<close>

theorem WriteRefs_unique_exact:
  assumes "Unique rw" and "WriteRefs e rw fuel root new_state = (Done, n, st)"
  shows "(distinct (dsts st)) \<and>
    (set (dsts st) = {c. \<exists>j > 0. path e {root} j c \<and> (MaxDepth rw < 0 \<or> int j \<le> MaxDepth rw)}) \<and>
    (n = int (length (dsts st))) \<and>
    (out st = map (\<lambda>(a, c, m). \<lparr>Ref = render e rw a c m, Err = []\<rparr>) (edges st))"
  using WriteRefs_unique_exact_parts[OF assms] by blast

definition demo_refs :: refs_env where
  "demo_refs = \<lparr>Get = (\<lambda>c. if c = ''r'' then Inr [(''a'', ''x''), (''b'', ''y'')]
                  else if c = ''a'' then Inr [(''b'', ''z'')] else Inr []),
     ResolvePath = Inr, Encode = id, ctx_err = (\<lambda>_. None), emit_err = (\<lambda>_ _. None)\<rparr>"

definition demo_writer :: RefWriter where
  "demo_writer = \<lparr>Unique = True, MaxDepth = -1, PrintFmt = ''<dst>''\<rparr>"

lemma demo_run: "WriteRefs demo_refs demo_writer 2 ''r'' new_state =
  (Done, 2, \<lparr>seen = [''a'' \<mapsto> 1, ''b'' \<mapsto> 2], out = [\<lparr>Ref = ''a'', Err = []\<rparr>, \<lparr>Ref = ''b'', Err = []\<rparr>],
    edges = [(''r'', ''a'', ''x''), (''a'', ''b'', ''z'')]\<rparr>)"
  by (simp add: WriteRefs_def writeRefsRecursive_def demo_refs_def demo_writer_def visit_def WriteEdge_def Emit_def
      render_def new_state_def has_prefix_def numeral_2_eq_2)

theorem WriteRefs_unique_exact_witness:
  "{''a'', ''b''} = {c. \<exists>j > 0. path demo_refs {''r''} j c \<and> (MaxDepth demo_writer < 0 \<or> int j \<le> MaxDepth demo_writer)}"
  using WriteRefs_unique_exact[OF _ demo_run] by (simp add: demo_writer_def dsts_def)

lemma RefsCmd_sound_parts:
  assumes "RefsCmd_Run e opts fuel paths = (r, st)" and "refs_writer opts = Inr rw"
    and "objectsForPaths e paths = Inr objs"
  shows "(a, c, name) \<in> set (edges st) \<Longrightarrow>
      (\<exists>nd. Get e a = Inr nd \<and> (c, name) \<in> set nd) \<and> (\<exists>nd. Get e c = Inr nd) \<and>
      (\<exists>j > 0. path e (set objs) j c \<and> (MaxDepth rw < 0 \<or> int j \<le> MaxDepth rw))"
    and "Unique rw \<Longrightarrow> distinct (dsts st)"
proof -
  have emit: "sound e rw R (snd (Emit e x s))" if "sound e rw R s" for R x s
    using that by (auto simp: Emit_def sound_def dsts_def split: option.splits)
  have "sound e rw R (snd (write_objs e rw fuel os s))" if "sound e rw R s" "set os \<subseteq> R" for R os s
    using that
  proof (induction os arbitrary: s)
    case (Cons ob os)
    obtain q n t where w: "WriteRefs e rw fuel ob s = (q, n, t)" by (metis prod_cases3)
    have "sound e rw R t"
    proof (cases "Get e ob")
      case (Inl err)
      with w Cons.prems show ?thesis by (simp add: WriteRefs_def)
    next
      case (Inr nd)
      then have "writeLinks e rw fuel ob nd (int 0) s 0 = (q, n, t)"
        using w by (simp add: WriteRefs_def writeRefsRecursive_def)
      with writeLinks_sound[OF this Cons.prems(1) path.root Inr subset_refl] Cons.prems(2) show ?thesis by simp
    qed
    with w Cons.IH Cons.prems(2) emit[of R t] show ?case
      by (cases q) (auto split: prod.splits option.splits, (metis snd_conv)+)
  qed simp
  from this[OF sound_new(1) subset_refl, of objs]
  have s: "sound e rw (set objs) st" using assms by (simp add: RefsCmd_Run_def)
  show "Unique rw \<Longrightarrow> distinct (dsts st)" using s by (simp add: sound_def)
  show "(a, c, name) \<in> set (edges st) \<Longrightarrow>
      (\<exists>nd. Get e a = Inr nd \<and> (c, name) \<in> set nd) \<and> (\<exists>nd. Get e c = Inr nd) \<and>
      (\<exists>j > 0. path e (set objs) j c \<and> (MaxDepth rw < 0 \<or> int j \<le> MaxDepth rw))"
    using s unfolding sound_def within_def by (meson zero_less_Suc)
qed

text \<open>
  What the command writes is true, whatever happens: with any options, any number of
  objects, and however it ends, every reference written is an actual link of its source node
  within the depth limit, its target has been fetched, and with \<^verbatim>\<open>--unique\<close> no target is written
  twice, also across objects.
\<close>

theorem RefsCmd_sound:
  assumes "RefsCmd_Run e opts fuel paths = (r, st)" and "refs_writer opts = Inr rw"
    and "objectsForPaths e paths = Inr objs"
  shows "(((a, c, name) \<in> set (edges st)) \<longrightarrow> ((\<exists>nd. Get e a = Inr nd \<and> (c, name) \<in> set nd) \<and> (\<exists>nd. Get e c = Inr nd) \<and>
      (\<exists>j > 0. path e (set objs) j c \<and> (MaxDepth rw < 0 \<or> int j \<le> MaxDepth rw)))) \<and>
    ((Unique rw) \<longrightarrow> (distinct (dsts st)))"
  using RefsCmd_sound_parts[OF assms] by blast

definition demo_options :: refs_options where
  "demo_options = \<lparr>opt_unique = True, opt_recursive = True, opt_maxDepth = -1, opt_edges = False, opt_format = ''<dst>''\<rparr>"

theorem RefsCmd_sound_witness: "distinct (dsts (snd (RefsCmd_Run demo_refs demo_options 2 [''r'', ''a''])))"
proof -
  have "refs_writer demo_options = Inr demo_writer" by (simp add: refs_writer_def demo_options_def demo_writer_def)
  from conjunct2[OF RefsCmd_sound[OF prod.collapse[symmetric] this, of demo_refs "[''r'', ''a'']"]] show ?thesis
    by (simp add: demo_refs_def demo_writer_def)
qed

text \<open>
  Termination.  The traversal returns, by itself, when the depth is limited (even over a
  cyclic graph) and on every acyclic graph otherwise: a recursion depth of the limit, or of the
  height of the object, is enough.
\<close>

theorem WriteRefs_terminates:
  assumes "0 \<le> MaxDepth rw \<and> MaxDepth rw \<le> int fuel \<or>
    (\<forall>c nd l name. Get e c = Inr nd \<longrightarrow> (l, name) \<in> set nd \<longrightarrow> height l < height c) \<and> height root \<le> fuel"
  shows "fst (WriteRefs e rw fuel root st) \<noteq> OutOfFuel"
proof (cases "Get e root")
  case (Inr nd)
  from assms show ?thesis
  proof
    assume "0 \<le> MaxDepth rw \<and> MaxDepth rw \<le> int fuel"
    then show ?thesis
      using writeLinks_enough_depth[of rw 0 fuel] by (simp add: WriteRefs_def writeRefsRecursive_def Inr)
  next
    assume h: "(\<forall>c nd l name. Get e c = Inr nd \<longrightarrow> (l, name) \<in> set nd \<longrightarrow> height l < height c) \<and> height root \<le> fuel"
    then have "height l < fuel" if "(l, name) \<in> set nd" for l name using Inr that by fastforce
    moreover have "height l < height c" if "Get e c = Inr nd" "(l, name) \<in> set nd" for c nd l name
      using h that by blast
    ultimately have "fst (writeLinks e rw fuel root nd 0 st 0) \<noteq> OutOfFuel"
      by (rule writeLinks_enough_height[rotated])
    then show ?thesis by (simp add: WriteRefs_def writeRefsRecursive_def Inr)
  qed
qed (simp add: WriteRefs_def)

theorem WriteRefs_terminates_witness: "fst (WriteRefs demo_refs demo_writer 2 ''r'' new_state) \<noteq> OutOfFuel"
  by (rule WriteRefs_terminates[where height = "\<lambda>c. if c = ''r'' then 2 else if c = ''a'' then 1 else 0"])
    (auto simp: demo_refs_def demo_writer_def split: if_splits)

end
