(* ===== verification/ConfigMap.thy ===== *)
theory ConfigMap
  imports Prelude "HOL-Library.AList"
begin

text \<open>
  Configuration maps: \<^verbatim>\<open>src/repo/common/common.go\<close> (\<^verbatim>\<open>MapGetKV\<close>, \<^verbatim>\<open>MapSetKV\<close>, \<^verbatim>\<open>MapMergeDeep\<close>), over the
  values \<^verbatim>\<open>encoding/json\<close> decodes into \<^verbatim>\<open>interface{}\<close>.  A \<^verbatim>\<open>map[string]interface{}\<close> is an association
  list with distinct keys; numbers are left abstract.  \<^verbatim>\<open>MapSetKV\<close> mutates its argument: the model
  returns the map as it is afterwards, also after an error.
\<close>

datatype 'n json =
  JNull | JBool bool | JNum 'n | JStr string | JArr "'n json list" | JObj "(string \<times> 'n json) list"

type_synonym 'n jmap = "(string \<times> 'n json) list"

text \<open>Keys are distinct, at every level.\<close>

fun wf_json :: "'n json \<Rightarrow> bool" where
  "wf_json (JObj m) \<longleftrightarrow> distinct (map fst m) \<and> (\<forall>kv \<in> set m. wf_json (snd kv))"
| "wf_json (JArr js) \<longleftrightarrow> (\<forall>j \<in> set js. wf_json j)"
| "wf_json _ \<longleftrightarrow> True"

datatype kv_error = NotAMap string | NotFound string

section \<open>Reading\<close>

abbreviation dots :: "string list \<Rightarrow> string" where
  "dots parts \<equiv> join_with ''.'' parts"

fun get_loop :: "string list \<Rightarrow> string list \<Rightarrow> 'n json \<Rightarrow> kv_error + 'n json" where
  "get_loop prev [] cursor = Inr cursor"
| "get_loop prev (part # parts) cursor =
     (let sofar = dots prev in
      case cursor of
        JObj m \<Rightarrow>
          (case map_of m part of
             None \<Rightarrow> Inl (NotFound ((if length sofar > 0 then sofar @ ''.'' else []) @ part))
           | Some c \<Rightarrow> get_loop (prev @ [part]) parts c)
      | _ \<Rightarrow> Inl (NotAMap sofar))"

definition MapGetKV :: "'n jmap \<Rightarrow> string \<Rightarrow> kv_error + 'n json" where
  "MapGetKV v key = get_loop [] (split_on CHR ''.'' key) (JObj v)"

section \<open>Writing\<close>

text \<open>A missing or null intermediate value is replaced by a new map.\<close>

fun set_loop :: "'n json \<Rightarrow> string list \<Rightarrow> string list \<Rightarrow> 'n json \<Rightarrow> kv_error option \<times> 'n json" where
  "set_loop val prev [] cursor = (None, cursor)"
| "set_loop val prev (part # parts) cursor =
     (case cursor of
        JObj m \<Rightarrow>
          if parts = [] then (None, JObj (AList.update part val m))
          else
            (let child = (case map_of m part of None \<Rightarrow> JObj [] | Some JNull \<Rightarrow> JObj [] | Some c \<Rightarrow> c);
                 (err, child') = set_loop val (prev @ [part]) parts child
             in (err, JObj (AList.update part child' m)))
      | _ \<Rightarrow> (Some (NotAMap (dots prev)), cursor))"

definition MapSetKV :: "'n jmap \<Rightarrow> string \<Rightarrow> 'n json \<Rightarrow> kv_error option \<times> 'n json" where
  "MapSetKV v key val = set_loop val [] (split_on CHR ''.'' key) (JObj v)"

section \<open>Merging\<close>

function MapMergeDeep :: "'n jmap \<Rightarrow> 'n jmap \<Rightarrow> 'n jmap" where
  "MapMergeDeep result [] = result"
| "MapMergeDeep result ((key, rightVal) # right) =
     MapMergeDeep
       (AList.update key
          (case rightVal of
             JObj rightMap \<Rightarrow>
               (case map_of result key of
                  Some (JObj leftMap) \<Rightarrow> JObj (MapMergeDeep leftMap rightMap)
                | _ \<Rightarrow> rightVal)
           | _ \<Rightarrow> rightVal) result)
       right"
  by pat_completeness auto
termination by (relation "measure (\<lambda>(_, right). size (JObj right))") auto

section \<open>Paths\<close>

text \<open>The same walks without the error texts.\<close>

fun at :: "string list \<Rightarrow> 'n json \<Rightarrow> 'n json option" where
  "at [] j = Some j"
| "at (p # ps) (JObj m) = (case map_of m p of None \<Rightarrow> None | Some c \<Rightarrow> at ps c)"
| "at (p # ps) _ = None"

lemma get_loop_at: "(case get_loop prev ps j of Inl _ \<Rightarrow> None | Inr v \<Rightarrow> Some v) = at ps j"
  by (induction ps arbitrary: prev j) (auto simp: Let_def split: json.splits option.splits)

lemma get_loop_iff: "get_loop prev ps j = Inr v \<longleftrightarrow> at ps j = Some v"
  using get_loop_at[of prev ps j] by (cases "get_loop prev ps j") auto

lemma MapGetKV_at: "MapGetKV v key = Inr x \<longleftrightarrow> at (split_on CHR ''.'' key) (JObj v) = Some x"
  by (simp add: MapGetKV_def get_loop_iff)

lemma update_same: "map_of m k = Some v \<Longrightarrow> AList.update k v m = m"
  by (induction m) auto

text \<open>Where a write is blocked: a value on the way that is neither a map nor null.\<close>

fun blocked :: "string list \<Rightarrow> 'n json \<Rightarrow> bool" where
  "blocked [] _ = False"
| "blocked (p # ps) (JObj m) =
     (ps \<noteq> [] \<and> (case map_of m p of None \<Rightarrow> False | Some JNull \<Rightarrow> False | Some c \<Rightarrow> blocked ps c))"
| "blocked (p # ps) _ = True"

lemma blocked_empty [simp]: "\<not> blocked ps (JObj [])"
  by (cases ps) auto

lemma set_loop_error: "set_loop val prev ps j = (Some err, j') \<Longrightarrow> j' = j"
proof (induction ps arbitrary: prev j j')
  case (Cons p ps)
  show ?case
  proof (cases j)
    case (JObj m)
    let ?child = "case map_of m p of None \<Rightarrow> JObj [] | Some JNull \<Rightarrow> JObj [] | Some c \<Rightarrow> c"
    have ok: "fst (set_loop val pr qs (JObj [])) = None" for pr qs
    proof (induction qs arbitrary: pr)
      case (Cons q qs)
      from Cons[of "pr @ [q]"] show ?case
        by (cases "set_loop val (pr @ [q]) qs (JObj [])") (auto simp: Let_def)
    qed simp
    obtain e c where c: "set_loop val (prev @ [p]) ps ?child = (e, c)" by force
    show ?thesis
    proof (cases "ps = []")
      case False
      with Cons.prems JObj c have e: "e = Some err" and j': "j' = JObj (AList.update p c m)"
        by (auto simp: Let_def)
      have "?child \<noteq> JObj []  \<or> map_of m p = Some (JObj [])"
        using ok[of "prev @ [p]" ps] c e by (auto split: option.splits json.splits)
      then have "map_of m p = Some ?child" using ok[of "prev @ [p]" ps] c e
        by (auto split: option.splits json.splits)
      moreover have "c = ?child" using Cons.IH c e by blast
      ultimately show ?thesis using j' JObj by (simp add: update_same)
    qed (use Cons.prems JObj in simp)
  qed (use Cons.prems in simp_all)
qed simp

lemma set_loop_blocked: "(fst (set_loop val prev ps j) = None) \<longleftrightarrow> \<not> blocked ps j"
proof (induction ps arbitrary: prev j)
  case (Cons p ps)
  show ?case
  proof (cases j)
    case (JObj m)
    let ?child = "case map_of m p of None \<Rightarrow> JObj [] | Some JNull \<Rightarrow> JObj [] | Some c \<Rightarrow> c"
    have "fst (set_loop val prev (p # ps) j) = (if ps = [] then None else fst (set_loop val (prev @ [p]) ps ?child))"
      using JObj by (simp add: Let_def split: prod.splits)
    with Cons.IH[of "prev @ [p]" ?child] JObj show ?thesis
      by (auto split: option.splits json.splits)
  qed simp_all
qed simp

lemma at_update: "at (q # qs) (JObj (AList.update p c m)) = (if q = p then at qs c else at (q # qs) (JObj m))"
  by (simp add: update_conv')

text \<open>After a successful write the path leads to the value, and no unrelated path changes.\<close>

lemma set_loop_get:
  assumes "set_loop val prev ps j = (None, j')" and "ps \<noteq> []"
  shows "at ps j' = Some val"
  using assms
proof (induction ps arbitrary: prev j j')
  case (Cons p ps)
  then obtain m where m: "j = JObj m" by (cases j) auto
  show ?case
  proof (cases "ps = []")
    case True
    with Cons.prems m show ?thesis by (auto simp: update_conv')
  next
    case False
    with Cons.prems m obtain child c where "set_loop val (prev @ [p]) ps child = (None, c)"
      "j' = JObj (AList.update p c m)"
      by (auto simp: Let_def split: prod.splits)
    with Cons.IH False show ?thesis by (auto simp: update_conv')
  qed
qed simp

lemma at_null: "qs \<noteq> [] \<Longrightarrow> at qs JNull = None" "qs \<noteq> [] \<Longrightarrow> at qs (JObj []) = None"
  by (cases qs; simp)+

lemma set_loop_frame:
  assumes "set_loop val prev ps j = (None, j')" and "\<not> prefix ps qs" and "\<not> prefix qs ps"
  shows "at qs j' = at qs j"
  using assms
proof (induction ps arbitrary: prev j j' qs)
  case (Cons p ps)
  then obtain m where m: "j = JObj m" by (cases j) auto
  from Cons.prems(3) obtain q qs' where q: "qs = q # qs'" by (cases qs) auto
  show ?case
  proof (cases "ps = []")
    case True
    with Cons.prems m q show ?thesis by (auto simp: update_conv')
  next
    case False
    let ?child = "case map_of m p of None \<Rightarrow> JObj [] | Some JNull \<Rightarrow> JObj [] | Some c \<Rightarrow> c"
    obtain c where c: "set_loop val (prev @ [p]) ps ?child = (None, c)" "j' = JObj (AList.update p c m)"
      using False Cons.prems(1) m by (auto simp: Let_def split: prod.splits)
    show ?thesis
    proof (cases "q = p")
      case True
      with Cons.prems q have np: "\<not> prefix ps qs'" "\<not> prefix qs' ps" by auto
      then have ne: "qs' \<noteq> []" by auto
      have "at qs' c = at qs' ?child" using Cons.IH[OF c(1) np] .
      also have "\<dots> = at (q # qs') (JObj m)"
        using True ne by (auto simp: at_null split: option.splits json.splits)
      finally show ?thesis using True q c(2) m by (simp add: update_conv')
    next
      case False
      with q c(2) m show ?thesis by (simp add: update_conv')
    qed
  qed
qed simp

section \<open>Merging, by paths\<close>

definition combine :: "'n json option \<Rightarrow> 'n json \<Rightarrow> 'n json" where
  "combine l r = (case (l, r) of (Some (JObj lm), JObj rm) \<Rightarrow> JObj (MapMergeDeep lm rm) | _ \<Rightarrow> r)"

lemma MapMergeDeep_Cons:
  "MapMergeDeep result ((k, r) # right) = MapMergeDeep (AList.update k (combine (map_of result k) r) result) right"
  by (auto simp: combine_def split: json.splits option.splits)

lemma map_of_merge:
  assumes "distinct (map fst r)"
  shows "map_of (MapMergeDeep l r) k =
    (case map_of r k of None \<Rightarrow> map_of l k | Some rv \<Rightarrow> Some (combine (map_of l k) rv))"
  using assms
proof (induction r arbitrary: l)
  case (Cons x r)
  obtain k' rv where x: "x = (k', rv)" by force
  have "map_of r k' = None" using Cons.prems x by (auto simp: map_of_eq_None_iff)
  with Cons x show ?case by (auto simp: MapMergeDeep_Cons update_conv' simp del: MapMergeDeep.simps split: option.splits)
qed simp

fun misses :: "string list \<Rightarrow> 'n json \<Rightarrow> bool" where
  "misses (p # ps) (JObj m) = (case map_of m p of None \<Rightarrow> True | Some c \<Rightarrow> misses ps c)"
| "misses _ _ = False"

lemma misses_at: "misses ps j \<Longrightarrow> ps \<noteq> [] \<and> at ps j = None"
  by (induction ps j rule: misses.induct) (auto split: option.splits)

definition is_map :: "'n json \<Rightarrow> bool" where
  "is_map j = (case j of JObj _ \<Rightarrow> True | _ \<Rightarrow> False)"

lemma at_not_map: "\<not> is_map j \<Longrightarrow> ps \<noteq> [] \<Longrightarrow> at ps j = None"
  by (cases ps; cases j) (auto simp: is_map_def)

lemma merge_leaf:
  "wf_json (JObj r) \<Longrightarrow> at ps (JObj r) = Some x \<Longrightarrow> \<not> is_map x \<Longrightarrow> at ps (JObj (MapMergeDeep l r)) = Some x"
proof (induction ps arbitrary: l r)
  case (Cons p ps)
  then obtain c where c: "map_of r p = Some c" "at ps c = Some x" by (auto split: option.splits)
  then have "wf_json c" using Cons.prems(1) map_of_SomeD by fastforce
  show ?case
  proof (cases "is_map c")
    case True
    then obtain rm where rm: "c = JObj rm" by (auto simp: is_map_def split: json.splits)
    with Cons.IH[of rm] \<open>wf_json c\<close> c Cons.prems show ?thesis
      by (auto simp: map_of_merge combine_def split: option.splits json.splits)
  next
    case False
    with c Cons.prems(1) show ?thesis
      by (auto simp: map_of_merge combine_def is_map_def split: option.splits json.splits)
  qed
qed (auto simp: is_map_def)

lemma merge_left:
  "wf_json (JObj r) \<Longrightarrow> misses ps (JObj r) \<Longrightarrow> at ps (JObj (MapMergeDeep l r)) = at ps (JObj l)"
proof (induction ps arbitrary: l r)
  case (Cons p ps)
  show ?case
  proof (cases "map_of r p")
    case None
    with Cons.prems(1) show ?thesis by (simp add: map_of_merge)
  next
    case (Some c)
    with Cons.prems(2) have c1: "misses ps c" by simp
    have c2: "wf_json c" using Cons.prems(1) map_of_SomeD[OF Some] by fastforce
    note c = c1 c2
    then obtain rm where rm: "c = JObj rm" by (cases ps; cases c) auto
    show ?thesis
    proof (cases "map_of l p")
      case None
      with Some rm Cons.prems(1) misses_at[OF c(1)] show ?thesis by (simp add: map_of_merge combine_def)
    next
      case l: (Some lc)
      show ?thesis
      proof (cases "is_map lc")
        case True
        then obtain lm where "lc = JObj lm" by (auto simp: is_map_def split: json.splits)
        with Cons.IH[of rm lm] Some l rm c Cons.prems(1) show ?thesis by (simp add: map_of_merge combine_def)
      next
        case False
        with Some l rm Cons.prems(1) misses_at[OF c(1)] at_not_map[OF False, of ps] show ?thesis
          by (auto simp: map_of_merge combine_def is_map_def split: json.splits)
      qed
    qed
  qed
qed simp

section \<open>Properties\<close>

lemma MapSetKV_correct_parts:
  shows "fst (MapSetKV v key val) = None \<longleftrightarrow> \<not> blocked (split_on CHR ''.'' key) (JObj v)"
    and "MapSetKV v key val = (None, JObj v') \<Longrightarrow> MapGetKV v' key = Inr val"
    and "MapSetKV v key val = (None, JObj v') \<Longrightarrow>
      \<not> prefix (split_on CHR ''.'' key) (split_on CHR ''.'' other) \<Longrightarrow>
      \<not> prefix (split_on CHR ''.'' other) (split_on CHR ''.'' key) \<Longrightarrow>
      MapGetKV v' other = Inr x \<longleftrightarrow> MapGetKV v other = Inr x"
    and "MapSetKV v key val = (Some err, j') \<Longrightarrow> j' = JObj v"
  using set_loop_blocked[of val "[]" "split_on CHR ''.'' key" "JObj v"]
    set_loop_get[of val "[]" "split_on CHR ''.'' key" "JObj v" "JObj v'"]
    set_loop_frame[of val "[]" "split_on CHR ''.'' key" "JObj v" "JObj v'" "split_on CHR ''.'' other"]
    set_loop_error[of val "[]" "split_on CHR ''.'' key" "JObj v" err j']
  by (auto simp: MapSetKV_def MapGetKV_at)

text \<open>
  \<^verbatim>\<open>MapSetKV\<close> succeeds exactly when no value on the way to the key is neither a map nor null;
  then \<^verbatim>\<open>MapGetKV\<close> reads the value back, and every key that is neither below nor above the one
  written reads as before.  When it fails, the map is unchanged.
\<close>

theorem MapSetKV_correct:
  "(fst (MapSetKV v key val) = None \<longleftrightarrow> \<not> blocked (split_on CHR ''.'' key) (JObj v)) \<and>
    ((MapSetKV v key val = (None, JObj v')) \<longrightarrow> (MapGetKV v' key = Inr val)) \<and>
    ((MapSetKV v key val = (None, JObj v')) \<longrightarrow> (\<not> prefix (split_on CHR ''.'' key) (split_on CHR ''.'' other)) \<longrightarrow> (\<not> prefix (split_on CHR ''.'' other) (split_on CHR ''.'' key)) \<longrightarrow> (MapGetKV v' other = Inr x \<longleftrightarrow> MapGetKV v other = Inr x)) \<and>
    ((MapSetKV v key val = (Some err, j')) \<longrightarrow> (j' = JObj v))"
  using MapSetKV_correct_parts by blast

theorem MapSetKV_correct_witness:
  "MapGetKV [(''a'', JObj [(''b'', JNum (1::nat))])] ''a.b'' = Inr (JNum 1)"
  using conjunct1[OF conjunct2[OF MapSetKV_correct], of "[(''a'', JNull)]" "''a.b''" "JNum (1::nat)" "[(''a'', JObj [(''b'', JNum 1)])]"]
  by (simp add: MapSetKV_def)

lemma MapMergeDeep_paths_parts:
  assumes "wf_json (JObj right)"
  shows "at ps (JObj right) = Some x \<Longrightarrow> \<not> is_map x \<Longrightarrow> at ps (JObj (MapMergeDeep left right)) = Some x"
    and "misses ps (JObj right) \<Longrightarrow> at ps (JObj (MapMergeDeep left right)) = at ps (JObj left)"
  using merge_leaf[OF assms] merge_left[OF assms] by blast+

text \<open>
  \<^verbatim>\<open>MapMergeDeep\<close>: every value of the right map that is not itself a map is found in the
  result under its path, and every path that leaves the right map at a missing key reads as in
  the left map.
\<close>

theorem MapMergeDeep_paths:
  assumes "wf_json (JObj right)"
  shows "((at ps (JObj right) = Some x) \<longrightarrow> (\<not> is_map x) \<longrightarrow> (at ps (JObj (MapMergeDeep left right)) = Some x)) \<and>
    ((misses ps (JObj right)) \<longrightarrow> (at ps (JObj (MapMergeDeep left right)) = at ps (JObj left)))"
  using MapMergeDeep_paths_parts[OF assms] by blast

theorem MapMergeDeep_paths_witness:
  "at [''a'', ''b''] (JObj (MapMergeDeep [(''a'', JObj [(''b'', JNum (1::nat)), (''c'', JNull)])] [(''a'', JObj [(''b'', JNum 2)])]))
   = Some (JNum 2)"
  by (rule conjunct1[OF MapMergeDeep_paths, rule_format]) (simp_all add: is_map_def)

end
