(* ===== verification/ConfigTypes.thy ===== *)
theory ConfigTypes
  imports ConfigMap
begin

text \<open>
  The JSON helper types of the configuration: \<^verbatim>\<open>src/config/types.go\<close>.  The methods work on raw JSON
  text, which they compare with literals; \<^verbatim>\<open>encoding/json\<close> on integers, strings and string slices
  and the duration syntax of \<^verbatim>\<open>time\<close> are fields of \<open>json_lib\<close>, with the laws the code relies on in
  \<open>json_lib_ok\<close>.  A pointer to an integer is its address and its contents, because one method
  prints the pointer.
\<close>

record 'f json_lib =
  enc_int :: "int \<Rightarrow> string"
  dec_int :: "string \<Rightarrow> string + int"
  enc_str :: "string \<Rightarrow> string"
  dec_str :: "string \<Rightarrow> string + string"
  enc_strs :: "string list \<Rightarrow> string"
  dec_strs :: "string \<Rightarrow> string + string list"
  dec_any :: "string \<Rightarrow> string + 'f json"
  trunc :: "'f \<Rightarrow> int"
  ParseDuration :: "string \<Rightarrow> string + int"
  Duration_String :: "int \<Rightarrow> string"

definition int64 :: "int \<Rightarrow> bool" where
  "int64 i \<longleftrightarrow> - (2 ^ 63) \<le> i \<and> i < 2 ^ 63"

text \<open>
  What is relied on: decoding inverts encoding; an encoded integer is none of the literals; an
  encoded string starts with a quote and an array with a bracket; \<^verbatim>\<open>null\<close> leaves a string empty;
  the text of a duration needs no escaping, is not empty and is none of the words for the default.
\<close>

definition json_lib_ok :: "'f json_lib \<Rightarrow> bool" where
  "json_lib_ok L \<longleftrightarrow>
     (\<forall>i. int64 i \<longrightarrow> dec_int L (enc_int L i) = Inr i \<and> enc_int L i \<notin> {''null'', ''undefined'', ''false'', ''true''}) \<and>
     (\<forall>s. dec_str L (enc_str L s) = Inr s \<and> (\<exists>t. enc_str L s = CHR 0x22 # t)) \<and>
     (\<forall>ss. dec_strs L (enc_strs L ss) = Inr ss \<and> (\<exists>t. enc_strs L ss = CHR ''['' # t)) \<and>
     dec_str L ''null'' = Inr [] \<and>
     (\<forall>d. int64 d \<longrightarrow> ParseDuration L (Duration_String L d) = Inr d \<and>
        enc_str L (Duration_String L d) = CHR 0x22 # Duration_String L d @ [CHR 0x22] \<and>
        dec_any L (enc_str L (Duration_String L d)) = Inr (JStr (Duration_String L d)) \<and>
        CHR 0x22 \<notin> set (Duration_String L d) \<and> Duration_String L d \<notin> {[], ''null'', ''default''})"

section \<open>Strings\<close>

definition Strings_UnmarshalJSON :: "'f json_lib \<Rightarrow> string \<Rightarrow> string + string list" where
  "Strings_UnmarshalJSON L data =
     (if hd data = CHR ''['' then dec_strs L data
      else case dec_str L data of
             Inl err \<Rightarrow> Inl err
           | Inr s \<Rightarrow> if length s = 0 then Inr [] else Inr [s])"

definition Strings_MarshalJSON :: "'f json_lib \<Rightarrow> string list \<Rightarrow> string" where
  "Strings_MarshalJSON L ss = (case ss of [] \<Rightarrow> ''null'' | [s] \<Rightarrow> enc_str L s | _ \<Rightarrow> enc_strs L ss)"

section \<open>Flag\<close>

definition False_flag :: int where "False_flag = -1"
definition Default_flag :: int where "Default_flag = 0"
definition True_flag :: int where "True_flag = 1"

lemmas flag_defs = False_flag_def Default_flag_def True_flag_def

text \<open>A panic is \<^term>\<open>None\<close>.\<close>

definition Flag_WithDefault :: "int \<Rightarrow> bool \<Rightarrow> bool option" where
  "Flag_WithDefault f defaultValue =
     (if f = False_flag then Some False else if f = Default_flag then Some defaultValue
      else if f = True_flag then Some True else None)"

definition Flag_MarshalJSON :: "int \<Rightarrow> string + string" where
  "Flag_MarshalJSON f =
     (if f = Default_flag then Inr ''null'' else if f = True_flag then Inr ''true''
      else if f = False_flag then Inr ''false'' else Inl ''invalid flag value'')"

definition Flag_UnmarshalJSON :: "string \<Rightarrow> string + int" where
  "Flag_UnmarshalJSON input =
     (if input = ''null'' then Inr Default_flag else if input = ''false'' then Inr False_flag
      else if input = ''true'' then Inr True_flag else Inl ''failed to unmarshal'')"

definition Flag_String :: "int \<Rightarrow> string option" where
  "Flag_String f =
     (if f = Default_flag then Some ''default'' else if f = True_flag then Some ''true''
      else if f = False_flag then Some ''false'' else None)"

section \<open>Priority\<close>

definition DefaultPriority :: int where "DefaultPriority = 0"
definition Disabled_priority :: int where "Disabled_priority = -1"

lemmas priority_defs = DefaultPriority_def Disabled_priority_def

definition Priority_WithDefault :: "int \<Rightarrow> int \<Rightarrow> (int \<times> bool) option" where
  "Priority_WithDefault p defaultPriority =
     (if p = Disabled_priority then Some (0, False)
      else if p = DefaultPriority then
        (if defaultPriority = Disabled_priority then Some (0, False)
         else if defaultPriority = DefaultPriority then Some (0, True)
         else if defaultPriority \<le> 0 then None
         else Some (defaultPriority, True))
      else if p \<le> 0 then None
      else Some (p, True))"

definition Priority_MarshalJSON :: "'f json_lib \<Rightarrow> int \<Rightarrow> string + string" where
  "Priority_MarshalJSON L p =
     (if p > 0 then Inr (enc_int L p)
      else if p = DefaultPriority then Inr ''null''
      else if p = Disabled_priority then Inr ''false''
      else Inl ''invalid priority value'')"

definition Priority_UnmarshalJSON :: "'f json_lib \<Rightarrow> string \<Rightarrow> string + int" where
  "Priority_UnmarshalJSON L input =
     (if input \<in> {''null'', ''undefined''} then Inr DefaultPriority
      else if input = ''false'' then Inr Disabled_priority
      else if input = ''true'' then Inl ''true is not a valid priority''
      else case dec_int L input of
             Inl err \<Rightarrow> Inl err
           | Inr priority \<Rightarrow> if priority \<le> 0 then Inl ''priority must be positive'' else Inr priority)"

definition Priority_String :: "'f json_lib \<Rightarrow> int \<Rightarrow> string option" where
  "Priority_String L p =
     (if p > 0 then Some (enc_int L p) else if p = DefaultPriority then Some ''default''
      else if p = Disabled_priority then Some ''false'' else None)"

section \<open>Durations\<close>

fun trim_left :: "char \<Rightarrow> string \<Rightarrow> string" where
  "trim_left c (x # xs) = (if x = c then trim_left c xs else x # xs)"
| "trim_left c [] = []"

definition Trim :: "char \<Rightarrow> string \<Rightarrow> string" where
  "Trim c s = rev (trim_left c (rev (trim_left c s)))"

type_synonym OptionalDuration = "int option"

definition OptionalDuration_UnmarshalJSON :: "'f json_lib \<Rightarrow> string \<Rightarrow> string + OptionalDuration" where
  "OptionalDuration_UnmarshalJSON L input =
     (if input \<in> {''null'', ''undefined'', CHR 0x22 # ''null'' @ [CHR 0x22], [], ''default'', [CHR 0x22, CHR 0x22],
                   CHR 0x22 # ''default'' @ [CHR 0x22]}
      then Inr None
      else case ParseDuration L (Trim CHR 0x22 input) of Inl err \<Rightarrow> Inl err | Inr d \<Rightarrow> Inr (Some d))"

definition OptionalDuration_IsDefault :: "OptionalDuration option \<Rightarrow> bool" where
  "OptionalDuration_IsDefault d = (d = None \<or> d = Some None)"

definition OptionalDuration_WithDefault :: "OptionalDuration option \<Rightarrow> int \<Rightarrow> int" where
  "OptionalDuration_WithDefault d defaultValue = (case d of Some (Some v) \<Rightarrow> v | _ \<Rightarrow> defaultValue)"

definition OptionalDuration_MarshalJSON :: "'f json_lib \<Rightarrow> OptionalDuration \<Rightarrow> string" where
  "OptionalDuration_MarshalJSON L d =
     (case d of None \<Rightarrow> ''null'' | Some v \<Rightarrow> enc_str L (Duration_String L v))"

definition OptionalDuration_String :: "'f json_lib \<Rightarrow> OptionalDuration \<Rightarrow> string" where
  "OptionalDuration_String L d = (case d of None \<Rightarrow> ''default'' | Some v \<Rightarrow> Duration_String L v)"

definition Duration_MarshalJSON :: "'f json_lib \<Rightarrow> int \<Rightarrow> string" where
  "Duration_MarshalJSON L d = enc_str L (Duration_String L d)"

definition Duration_UnmarshalJSON :: "'f json_lib \<Rightarrow> string \<Rightarrow> string + int" where
  "Duration_UnmarshalJSON L b =
     (case dec_any L b of
        Inl err \<Rightarrow> Inl err
      | Inr (JNum f) \<Rightarrow> Inr (trunc L f)
      | Inr (JStr s) \<Rightarrow> ParseDuration L s
      | Inr _ \<Rightarrow> Inl ''unable to parse duration'')"

section \<open>Optional integers and strings\<close>

text \<open>A non-nil \<^verbatim>\<open>*int64\<close>: its address and what it points to.\<close>

type_synonym OptionalInteger = "(nat \<times> int) option"

definition OptionalInteger_WithDefault :: "OptionalInteger option \<Rightarrow> int \<Rightarrow> int" where
  "OptionalInteger_WithDefault p defaultValue = (case p of Some (Some (_, v)) \<Rightarrow> v | _ \<Rightarrow> defaultValue)"

definition OptionalInteger_IsDefault :: "OptionalInteger option \<Rightarrow> bool" where
  "OptionalInteger_IsDefault p = (p = None \<or> p = Some None)"

definition OptionalInteger_MarshalJSON :: "'f json_lib \<Rightarrow> OptionalInteger \<Rightarrow> string" where
  "OptionalInteger_MarshalJSON L p = (case p of Some (_, v) \<Rightarrow> enc_int L v | None \<Rightarrow> ''null'')"

text \<open>The decoded value is stored in a new variable, at the address \<open>a\<close>.\<close>

definition OptionalInteger_UnmarshalJSON :: "'f json_lib \<Rightarrow> nat \<Rightarrow> string \<Rightarrow> string + OptionalInteger" where
  "OptionalInteger_UnmarshalJSON L a input =
     (if input \<in> {''null'', ''undefined''} then Inr None
      else case dec_int L input of Inl err \<Rightarrow> Inl err | Inr v \<Rightarrow> Inr (Some (a, v)))"

text \<open>\<^verbatim>\<open>fmt.Sprintf("%d", p.value)\<close> formats the pointer: its address, in decimal.\<close>

definition OptionalInteger_String :: "'f json_lib \<Rightarrow> OptionalInteger \<Rightarrow> string" where
  "OptionalInteger_String L p = (case p of None \<Rightarrow> ''default'' | Some (a, v) \<Rightarrow> enc_int L (int a))"

type_synonym OptionalString = "string option"

definition NewOptionalString :: "string \<Rightarrow> OptionalString" where
  "NewOptionalString s = Some s"

definition OptionalString_WithDefault :: "OptionalString option \<Rightarrow> string \<Rightarrow> string" where
  "OptionalString_WithDefault p defaultValue = (case p of Some (Some v) \<Rightarrow> v | _ \<Rightarrow> defaultValue)"

definition OptionalString_IsDefault :: "OptionalString option \<Rightarrow> bool" where
  "OptionalString_IsDefault p = (p = None \<or> p = Some None)"

definition OptionalString_MarshalJSON :: "'f json_lib \<Rightarrow> OptionalString \<Rightarrow> string" where
  "OptionalString_MarshalJSON L p = (case p of Some v \<Rightarrow> enc_str L v | None \<Rightarrow> ''null'')"

definition OptionalString_UnmarshalJSON :: "'f json_lib \<Rightarrow> string \<Rightarrow> string + OptionalString" where
  "OptionalString_UnmarshalJSON L input =
     (if input \<in> {''null'', ''undefined''} then Inr None
      else case dec_str L input of Inl err \<Rightarrow> Inl err | Inr v \<Rightarrow> Inr (Some v))"

definition OptionalString_String :: "OptionalString \<Rightarrow> string" where
  "OptionalString_String p = (case p of None \<Rightarrow> ''default'' | Some v \<Rightarrow> v)"

section \<open>A library\<close>

text \<open>
  A concrete library that satisfies the laws: integers and durations in unary, strings between
  quotes, arrays with every character marked.
\<close>

definition unary :: "int \<Rightarrow> string" where
  "unary i = (if i < 0 then CHR ''-'' # replicate (nat (- i)) CHR ''1'' else CHR ''+'' # replicate (nat i) CHR ''1'')"

definition of_unary :: "string \<Rightarrow> int" where
  "of_unary s = (case s of [] \<Rightarrow> 0 | c # t \<Rightarrow> if c = CHR ''-'' then - int (length t) else int (length t))"

definition mark :: "string list \<Rightarrow> string" where
  "mark ss = concat (map (\<lambda>s. concat (map (\<lambda>c. [CHR ''x'', c]) s) @ ''.'') ss)"

fun unmark :: "string \<Rightarrow> string \<Rightarrow> string list" where
  "unmark acc [] = []"
| "unmark acc (m # t) = (if m = CHR ''.'' then acc # unmark [] t
     else case t of [] \<Rightarrow> [] | c # t' \<Rightarrow> unmark (acc @ [c]) t')"

definition demo_lib :: "int json_lib" where
  "demo_lib =
     \<lparr>enc_int = unary, dec_int = (\<lambda>s. Inr (of_unary s)),
      enc_str = (\<lambda>s. CHR 0x22 # s @ [CHR 0x22]), dec_str = (\<lambda>s. Inr (if s = ''null'' then [] else butlast (tl s))),
      enc_strs = (\<lambda>ss. CHR ''['' # mark ss), dec_strs = (\<lambda>s. Inr (unmark [] (tl s))),
      dec_any = (\<lambda>s. Inr (JStr (butlast (tl s)))), trunc = id,
      ParseDuration = (\<lambda>s. Inr (of_unary s)), Duration_String = unary\<rparr>"

lemma of_unary: "of_unary (unary i) = i"
  by (simp add: of_unary_def unary_def)

lemma unmark_str: "unmark acc (concat (map (\<lambda>c. [CHR ''x'', c]) s) @ t) = unmark (acc @ s) t"
  by (induction s arbitrary: acc) simp_all

lemma unmark_mark: "unmark [] (mark ss) = ss"
  by (induction ss) (simp_all add: mark_def unmark_str)

lemma demo_lib_ok: "json_lib_ok demo_lib"
  by (auto simp: json_lib_ok_def demo_lib_def of_unary unmark_mark) (auto simp: unary_def split: if_splits)

section \<open>Properties\<close>

lemma trim_left_absent: "c \<notin> set s \<Longrightarrow> trim_left c s = s"
  by (cases s) auto

lemma Trim_quoted:
  assumes "CHR 0x22 \<notin> set s"
  shows "Trim CHR 0x22 (CHR 0x22 # s @ [CHR 0x22]) = s"
proof (cases s)
  case (Cons x xs)
  with assms have "trim_left CHR 0x22 (CHR 0x22 # s @ [CHR 0x22]) = s @ [CHR 0x22]" by auto
  moreover have "trim_left CHR 0x22 (rev s) = rev s" using assms by (simp add: trim_left_absent)
  ultimately show ?thesis by (simp add: Trim_def)
qed (simp add: Trim_def)

lemma config_types_roundtrip_parts:
  assumes L: "json_lib_ok L"
  shows "ss \<noteq> [[]] \<Longrightarrow> Strings_UnmarshalJSON L (Strings_MarshalJSON L ss) = Inr ss"
    and "f \<in> {-1, 0, 1} \<Longrightarrow> Flag_MarshalJSON f = Inr t \<Longrightarrow> Flag_UnmarshalJSON t = Inr f"
    and "int64 p \<Longrightarrow> Priority_MarshalJSON L p = Inr t \<Longrightarrow> Priority_UnmarshalJSON L t = Inr p"
    and "pred_option int64 od \<Longrightarrow> OptionalDuration_UnmarshalJSON L (OptionalDuration_MarshalJSON L od) = Inr od"
    and "int64 d \<Longrightarrow> Duration_UnmarshalJSON L (Duration_MarshalJSON L d) = Inr d"
    and "pred_option (int64 \<circ> snd) oi \<Longrightarrow>
      map_sum id (map_option snd) (OptionalInteger_UnmarshalJSON L a (OptionalInteger_MarshalJSON L oi)) = Inr (map_option snd oi)"
    and "OptionalString_UnmarshalJSON L (OptionalString_MarshalJSON L os) = Inr os"
proof -
  have str: "dec_str L (enc_str L s) = Inr s" "\<exists>t. enc_str L s = CHR 0x22 # t" for s
    using L by (simp_all add: json_lib_ok_def)
  have strs: "dec_strs L (enc_strs L s) = Inr s" "\<exists>t. enc_strs L s = CHR ''['' # t" "dec_str L ''null'' = Inr []" for s
    using L by (simp_all add: json_lib_ok_def)
  have int: "dec_int L (enc_int L i) = Inr i" "enc_int L i \<notin> {''null'', ''undefined'', ''false'', ''true''}" if "int64 i" for i
    using L that unfolding json_lib_ok_def by blast+
  have dur: "ParseDuration L (Duration_String L d) = Inr d"
    "enc_str L (Duration_String L d) = CHR 0x22 # Duration_String L d @ [CHR 0x22]"
    "dec_any L (enc_str L (Duration_String L d)) = Inr (JStr (Duration_String L d))"
    "CHR 0x22 \<notin> set (Duration_String L d)" "Duration_String L d \<notin> {[], ''null'', ''default''}" if "int64 d" for d
    using L that unfolding json_lib_ok_def by blast+
  show "Strings_UnmarshalJSON L (Strings_MarshalJSON L ss) = Inr ss" if "ss \<noteq> [[]]"
  proof -
    have "hd (enc_str L s) \<noteq> CHR ''[''" "hd (enc_strs L s') = CHR ''[''" for s s'
      using str(2)[of s] strs(2)[of s'] by auto
    then show ?thesis using that str strs
      by (auto simp: Strings_UnmarshalJSON_def Strings_MarshalJSON_def split: list.splits)
  qed
  show "Flag_UnmarshalJSON t = Inr f" if "f \<in> {-1, 0, 1}" "Flag_MarshalJSON f = Inr t"
    using that by (auto simp: Flag_UnmarshalJSON_def Flag_MarshalJSON_def flag_defs)
  show "Priority_UnmarshalJSON L t = Inr p" if "int64 p" "Priority_MarshalJSON L p = Inr t"
    using that int[OF that(1)]
    by (auto simp: Priority_UnmarshalJSON_def Priority_MarshalJSON_def priority_defs split: if_splits)
  show "OptionalDuration_UnmarshalJSON L (OptionalDuration_MarshalJSON L od) = Inr od" if "pred_option int64 od"
  proof (cases od)
    case (Some d)
    with that have "int64 d" by simp
    note d = dur[OF this]
    have "CHR 0x22 # Duration_String L d @ [CHR 0x22] \<notin> {''null'', ''undefined'', CHR 0x22 # ''null'' @ [CHR 0x22], [],
        ''default'', [CHR 0x22, CHR 0x22], CHR 0x22 # ''default'' @ [CHR 0x22]}"
      using d(5) by auto
    with Some d Trim_quoted[OF d(4)] show ?thesis
      by (simp add: OptionalDuration_UnmarshalJSON_def OptionalDuration_MarshalJSON_def)
  qed (simp add: OptionalDuration_UnmarshalJSON_def OptionalDuration_MarshalJSON_def)
  show "Duration_UnmarshalJSON L (Duration_MarshalJSON L d) = Inr d" if "int64 d"
    using dur[OF that] by (simp add: Duration_UnmarshalJSON_def Duration_MarshalJSON_def)
  show "map_sum id (map_option snd) (OptionalInteger_UnmarshalJSON L a (OptionalInteger_MarshalJSON L oi)) = Inr (map_option snd oi)"
    if "pred_option (int64 \<circ> snd) oi"
    using that int by (cases oi) (auto simp: OptionalInteger_UnmarshalJSON_def OptionalInteger_MarshalJSON_def)
  show "OptionalString_UnmarshalJSON L (OptionalString_MarshalJSON L os) = Inr os"
  proof (cases os)
    case (Some s)
    with str(2)[of s] str(1)[of s] show ?thesis
      by (auto simp: OptionalString_UnmarshalJSON_def OptionalString_MarshalJSON_def)
  qed (simp add: OptionalString_UnmarshalJSON_def OptionalString_MarshalJSON_def)
qed

text \<open>
  Round trips.  Whatever a helper type marshals, it unmarshals again to the same value: a
  list of strings (other than the list of one empty string), a valid flag, a valid priority, an
  optional or plain duration, an optional integer and an optional string, defaults included.
\<close>

theorem config_types_roundtrip:
  assumes L: "json_lib_ok L"
  shows "((ss \<noteq> [[]]) \<longrightarrow> (Strings_UnmarshalJSON L (Strings_MarshalJSON L ss) = Inr ss)) \<and>
    ((f \<in> {-1, 0, 1}) \<longrightarrow> (Flag_MarshalJSON f = Inr t) \<longrightarrow> (Flag_UnmarshalJSON t = Inr f)) \<and>
    ((int64 p) \<longrightarrow> (Priority_MarshalJSON L p = Inr t) \<longrightarrow> (Priority_UnmarshalJSON L t = Inr p)) \<and>
    ((pred_option int64 od) \<longrightarrow> (OptionalDuration_UnmarshalJSON L (OptionalDuration_MarshalJSON L od) = Inr od)) \<and>
    ((int64 d) \<longrightarrow> (Duration_UnmarshalJSON L (Duration_MarshalJSON L d) = Inr d)) \<and>
    ((pred_option (int64 \<circ> snd) oi) \<longrightarrow> (map_sum id (map_option snd) (OptionalInteger_UnmarshalJSON L a (OptionalInteger_MarshalJSON L oi)) = Inr (map_option snd oi))) \<and>
    (OptionalString_UnmarshalJSON L (OptionalString_MarshalJSON L os) = Inr os)"
  by (intro conjI impI) (rule config_types_roundtrip_parts[OF L]; assumption)+

theorem config_types_roundtrip_witness:
  "Priority_UnmarshalJSON demo_lib ''+111'' = Inr 3"
  using conjunct1[OF conjunct2[OF conjunct2[OF config_types_roundtrip[OF demo_lib_ok]]], of 3 "''+111''"]
  by (simp add: Priority_MarshalJSON_def demo_lib_def unary_def int64_def numeral_3_eq_3)

lemma Priority_valid_parts:
  assumes "Priority_UnmarshalJSON L input = Inr p" and "d = Disabled_priority \<or> 0 \<le> d"
  shows "p = DefaultPriority \<or> p = Disabled_priority \<or> 0 < p"
    and "\<exists>v enabled. Priority_WithDefault p d = Some (v, enabled) \<and> 0 \<le> v \<and>
      (enabled \<longleftrightarrow> (if p = DefaultPriority then d else p) \<noteq> Disabled_priority)"
  using assms
  by (auto simp: Priority_UnmarshalJSON_def Priority_WithDefault_def priority_defs split: if_splits sum.splits)

text \<open>
  C40. A priority that was read from JSON is valid: default, disabled or positive.  Resolving it
  against a valid default never panics, and the outcome is enabled exactly when the priority, or
  the default it defers to, is not disabled.
\<close>

theorem Priority_valid:
  assumes "Priority_UnmarshalJSON L input = Inr p" and "d = Disabled_priority \<or> 0 \<le> d"
  shows "(p = DefaultPriority \<or> p = Disabled_priority \<or> 0 < p) \<and>
    (\<exists>v enabled. Priority_WithDefault p d = Some (v, enabled) \<and> 0 \<le> v \<and>
      (enabled \<longleftrightarrow> (if p = DefaultPriority then d else p) \<noteq> Disabled_priority))"
  using Priority_valid_parts[OF assms] by blast

theorem Priority_valid_witness: "\<exists>v enabled. Priority_WithDefault 3 0 = Some (v, enabled) \<and> 0 \<le> v"
  using Priority_valid[of demo_lib "''+111''" 3 0]
  by (auto simp: Priority_UnmarshalJSON_def demo_lib_def of_unary_def priority_defs)

text \<open>
  Two divergences.  \<^verbatim>\<open>OptionalInteger.String\<close> prints the address of the value, not the
  value; and the list of one empty string is read back from its own JSON as the empty list.
\<close>

theorem config_types_divergences:
  shows "OptionalInteger_String L (Some (a, v)) = enc_int L (int a)"
    and "json_lib_ok L \<Longrightarrow> Strings_UnmarshalJSON L (Strings_MarshalJSON L [[]]) = Inr []"
proof -
  show "Strings_UnmarshalJSON L (Strings_MarshalJSON L [[]]) = Inr []" if L: "json_lib_ok L"
  proof -
    have "dec_str L (enc_str L []) = Inr []" "\<exists>t. enc_str L [] = CHR 0x22 # t"
      using L by (simp_all add: json_lib_ok_def)
    then show ?thesis by (auto simp: Strings_UnmarshalJSON_def Strings_MarshalJSON_def)
  qed
qed (simp add: OptionalInteger_String_def)

theorem config_types_divergences_witness: "Strings_UnmarshalJSON demo_lib (Strings_MarshalJSON demo_lib [[]]) = Inr []"
  by (rule config_types_divergences(2)[OF demo_lib_ok])

end
