(* ===== verification/Datastores.thy ===== *)
theory Datastores
  imports ConfigMap "HOL-Library.Multiset" "HOL-Library.List_Lexorder" "HOL-Library.Char_ord"
begin

text \<open>
  Datastore configuration: \<^verbatim>\<open>src/repo/fsrepo/datastores.go\<close> and the datastore plugins
  \<^verbatim>\<open>src/plugin/plugins/{flatfs,badgerds,levelds}\<close>.  A specification (a JSON map) is parsed into a tree
  of configurations; \<^verbatim>\<open>DiskSpec\<close> is what is compared with the repository on disk, \<^verbatim>\<open>Create\<close> opens
  the stores.  The parsers of other packages (shard functions, byte sizes, datastore keys, path
  joining) and the sort are parameters; the stores opened are recorded by kind and path.
\<close>

datatype compression = DefaultCompression | NoCompression | SnappyCompression

datatype dsconfig =
  MountC "(dsconfig \<times> string) list"
| MemC
| LogC dsconfig string
| MeasureC dsconfig string
| FlatfsC string string bool
| BadgerC string bool bool int
| LevelC string compression

datatype ds_error =
  TypeMissing | UnknownType string | MountsMissing | MountNotMap | NoMountpoint | ChildMissing | NameMissing
| PrefixMissing | PathMissing | ShardFuncMissing | SyncMissing | FieldType string | BadCompression | ParseError string
| CreateError string

text \<open>A type assertion without the comma-ok form panics.\<close>

datatype 'a res = Ok 'a | Error ds_error | Panic

record ds_env =
  registered :: "string \<Rightarrow> bool"
  NewKey :: "string \<Rightarrow> string"
  sort_mounts :: "(dsconfig \<times> string) list \<Rightarrow> (dsconfig \<times> string) list"
  ParseShardFunc :: "string \<Rightarrow> string + string"
  ParseBytes :: "string \<Rightarrow> string + u64"
  defaultVlogSize :: int
  Join :: "string \<Rightarrow> string \<Rightarrow> string"

definition res_map :: "('a \<Rightarrow> 'b) \<Rightarrow> 'a res \<Rightarrow> 'b res" where
  "res_map f r = (case r of Ok x \<Rightarrow> Ok (f x) | Error err \<Rightarrow> Error err | Panic \<Rightarrow> Panic)"

section \<open>Leaf parsers\<close>

definition flatfs_parser :: "ds_env \<Rightarrow> 'n jmap \<Rightarrow> dsconfig res" where
  "flatfs_parser e params =
     (case map_of params ''path'' of
        Some (JStr p) \<Rightarrow>
          (case map_of params ''shardFunc'' of
             Some (JStr sshardFun) \<Rightarrow>
               (case ParseShardFunc e sshardFun of
                  Inl err \<Rightarrow> Error (ParseError err)
                | Inr shard \<Rightarrow>
                    (case map_of params ''sync'' of
                       Some (JBool b) \<Rightarrow> Ok (FlatfsC p shard b)
                     | _ \<Rightarrow> Error SyncMissing))
           | _ \<Rightarrow> Error ShardFuncMissing)
      | _ \<Rightarrow> Error PathMissing)"

text \<open>An optional boolean field with a default.\<close>

definition opt_bool :: "string \<Rightarrow> bool \<Rightarrow> 'n jmap \<Rightarrow> bool res" where
  "opt_bool field dflt params =
     (case map_of params field of None \<Rightarrow> Ok dflt | Some (JBool b) \<Rightarrow> Ok b | Some _ \<Rightarrow> Error (FieldType field))"

definition badger_vlog :: "ds_env \<Rightarrow> 'n jmap \<Rightarrow> int res" where
  "badger_vlog e params =
     (case map_of params ''vlogFileSize'' of
        None \<Rightarrow> Ok (defaultVlogSize e)
      | Some (JStr vlogSize) \<Rightarrow>
          (case ParseBytes e vlogSize of Inl err \<Rightarrow> Error (ParseError err) | Inr s \<Rightarrow> Ok (int_of_u64 s))
      | Some _ \<Rightarrow> Error (FieldType ''vlogFileSize''))"

definition badgerds_parser :: "ds_env \<Rightarrow> 'n jmap \<Rightarrow> dsconfig res" where
  "badgerds_parser e params =
     (case map_of params ''path'' of
        Some (JStr p) \<Rightarrow>
          (case opt_bool ''syncWrites'' False params of
             Ok sw \<Rightarrow>
               (case opt_bool ''truncate'' True params of
                  Ok tr \<Rightarrow> res_map (BadgerC p sw tr) (badger_vlog e params)
                | Error err \<Rightarrow> Error err | Panic \<Rightarrow> Panic)
           | Error err \<Rightarrow> Error err | Panic \<Rightarrow> Panic)
      | _ \<Rightarrow> Error PathMissing)"

definition levelds_parser :: "'n jmap \<Rightarrow> dsconfig res" where
  "levelds_parser params =
     (case map_of params ''path'' of
        Some (JStr p) \<Rightarrow>
          (case map_of params ''compression'' of
             None \<Rightarrow> Ok (LevelC p DefaultCompression)
           | Some JNull \<Rightarrow> Ok (LevelC p DefaultCompression)
           | Some (JStr cm) \<Rightarrow>
               if cm = ''none'' then Ok (LevelC p NoCompression)
               else if cm = ''snappy'' then Ok (LevelC p SnappyCompression)
               else if cm = [] then Ok (LevelC p DefaultCompression)
               else Error BadCompression
           | Some _ \<Rightarrow> Error BadCompression)
      | _ \<Rightarrow> Error PathMissing)"

section \<open>The registry and the wrappers\<close>

lemma size_map_of: "map_of params k = Some v \<Longrightarrow> size v < size (JObj params)"
proof (induction params)
  case (Cons x params)
  then show ?case by (cases x) (auto split: if_splits)
qed simp

text \<open>
  \<^verbatim>\<open>AnyDatastoreConfig\<close> looks the type up in the table; the built-in entries cannot be replaced
  (\<^verbatim>\<open>AddDatastoreConfigHandler\<close> refuses a name that exists).  \<open>mount_loop\<close> is the loop of
  \<^verbatim>\<open>MountDatastoreConfig\<close>, \<open>child_config\<close> the common part of the log and measure parsers.
\<close>

function AnyDatastoreConfig :: "ds_env \<Rightarrow> 'n jmap \<Rightarrow> dsconfig res"
  and mount_loop :: "ds_env \<Rightarrow> 'n json list \<Rightarrow> (dsconfig \<times> string) list res"
  and child_config :: "ds_env \<Rightarrow> 'n jmap \<Rightarrow> string \<Rightarrow> ds_error \<Rightarrow> (dsconfig \<times> string) res" where
  "AnyDatastoreConfig e params =
     (case map_of params ''type'' of
        Some (JStr which) \<Rightarrow>
          if which = ''mount'' then
            (case map_of params ''mounts'' of
               Some (JArr mounts) \<Rightarrow> res_map (\<lambda>ms. MountC (sort_mounts e ms)) (mount_loop e mounts)
             | _ \<Rightarrow> Error MountsMissing)
          else if which = ''mem'' then Ok MemC
          else if which = ''log'' then res_map (\<lambda>(c, s). LogC c s) (child_config e params ''name'' NameMissing)
          else if which = ''measure'' then res_map (\<lambda>(c, s). MeasureC c s) (child_config e params ''prefix'' PrefixMissing)
          else if \<not> registered e which then Error (UnknownType which)
          else if which = ''flatfs'' then flatfs_parser e params
          else if which = ''badgerds'' then badgerds_parser e params
          else if which = ''levelds'' then levelds_parser params
          else Error (UnknownType which)
      | _ \<Rightarrow> Error TypeMissing)"
| "mount_loop e [] = Ok []"
| "mount_loop e (iface # mounts) =
     (case iface of
        JObj cfg \<Rightarrow>
          (case AnyDatastoreConfig e cfg of
             Error err \<Rightarrow> Error err
           | Panic \<Rightarrow> Panic
           | Ok child \<Rightarrow>
               (case map_of cfg ''mountpoint'' of
                  None \<Rightarrow> Error NoMountpoint
                | Some (JStr p) \<Rightarrow> res_map ((#) (child, NewKey e p)) (mount_loop e mounts)
                | Some _ \<Rightarrow> Panic))
      | _ \<Rightarrow> Error MountNotMap)"
| "child_config e params field err =
     (case map_of params ''child'' of
        Some (JObj m) \<Rightarrow>
          (case AnyDatastoreConfig e m of
             Error err' \<Rightarrow> Error err'
           | Panic \<Rightarrow> Panic
           | Ok child \<Rightarrow> (case map_of params field of Some (JStr s) \<Rightarrow> Ok (child, s) | _ \<Rightarrow> Error err))
      | _ \<Rightarrow> Error ChildMissing)"
  by pat_completeness auto
termination
  by (relation "measure (\<lambda>x. case x of Inl (_, params) \<Rightarrow> 2 * size (JObj params) + 1
      | Inr (Inl (_, js)) \<Rightarrow> 2 * size_list size js
      | Inr (Inr (_, params, _, _)) \<Rightarrow> 2 * size (JObj params))")
    (auto dest!: size_map_of)

declare AnyDatastoreConfig.simps [simp del] child_config.simps [simp del]

section \<open>What is on disk, and what is opened\<close>

type_synonym spec = "(string \<times> nat json) list"

fun DiskSpec :: "dsconfig \<Rightarrow> spec option" where
  "DiskSpec (MountC mounts) =
     Some [(''type'', JStr ''mount''),
           (''mounts'', JArr (map (\<lambda>(m, pfx).
              JObj (AList.update ''mountpoint'' (JStr pfx) (case DiskSpec m of None \<Rightarrow> [] | Some c \<Rightarrow> c))) mounts))]"
| "DiskSpec MemC = None"
| "DiskSpec (LogC child _) = DiskSpec child"
| "DiskSpec (MeasureC child _) = DiskSpec child"
| "DiskSpec (FlatfsC p shard _) = Some [(''type'', JStr ''flatfs''), (''path'', JStr p), (''shardFunc'', JStr shard)]"
| "DiskSpec (BadgerC p _ _ _) = Some [(''type'', JStr ''badgerds''), (''path'', JStr p)]"
| "DiskSpec (LevelC p _) = Some [(''type'', JStr ''levelds''), (''path'', JStr p)]"

datatype store =
  MountS "(store \<times> string) list" | MemS | LogS store string | MeasureS string store
| FlatfsS string string bool | BadgerS string bool bool int | LevelS string compression

definition IsAbs :: "string \<Rightarrow> bool" where
  "IsAbs p = has_prefix p ''/''"

definition resolve :: "ds_env \<Rightarrow> string \<Rightarrow> string \<Rightarrow> string" where
  "resolve e path p = (if \<not> IsAbs p then Join e path p else p)"

text \<open>\<open>opens\<close> tells what the storage engine answers when a store is opened (no error: \<^term>\<open>None\<close>).\<close>

definition opened :: "(store \<Rightarrow> string option) \<Rightarrow> store \<Rightarrow> store res" where
  "opened opens s = (case opens s of None \<Rightarrow> Ok s | Some err \<Rightarrow> Error (CreateError err))"

fun Create :: "ds_env \<Rightarrow> (store \<Rightarrow> string option) \<Rightarrow> string \<Rightarrow> dsconfig \<Rightarrow> store res"
  and Create_mounts :: "ds_env \<Rightarrow> (store \<Rightarrow> string option) \<Rightarrow> string \<Rightarrow> (dsconfig \<times> string) list \<Rightarrow> (store \<times> string) list res" where
  "Create e opens path (MountC mounts) = res_map MountS (Create_mounts e opens path mounts)"
| "Create e opens path MemC = Ok MemS"
| "Create e opens path (LogC child name) = res_map (\<lambda>s. LogS s name) (Create e opens path child)"
| "Create e opens path (MeasureC child pfx) = res_map (MeasureS pfx) (Create e opens path child)"
| "Create e opens path (FlatfsC p shard sync) = opened opens (FlatfsS (resolve e path p) shard sync)"
| "Create e opens path (BadgerC p sw tr vls) = opened opens (BadgerS (resolve e path p) sw tr vls)"
| "Create e opens path (LevelC p cm) = opened opens (LevelS (resolve e path p) cm)"
| "Create_mounts e opens path [] = Ok []"
| "Create_mounts e opens path ((c, pfx) # mounts) =
     (case Create e opens path c of
        Ok s \<Rightarrow> res_map ((#) (s, pfx)) (Create_mounts e opens path mounts)
      | Error err \<Rightarrow> Error err
      | Panic \<Rightarrow> Panic)"

section \<open>Files behind a configuration\<close>

text \<open>
  The files a store reads and writes: for each, the mount prefixes that lead to it, the kind of
  storage engine, the path and the sharding.
\<close>

type_synonym dsfile = "string list \<times> string \<times> string \<times> string"

fun files :: "store \<Rightarrow> dsfile list" where
  "files (MountS ss) = concat (map (\<lambda>(s, p). map (\<lambda>(ps, f). (p # ps, f)) (files s)) ss)"
| "files MemS = []"
| "files (LogS s _) = files s"
| "files (MeasureS _ s) = files s"
| "files (FlatfsS p shard _) = [([], ''flatfs'', p, shard)]"
| "files (BadgerS p _ _ _) = [([], ''badgerds'', p, [])]"
| "files (LevelS p _) = [([], ''levelds'', p, [])]"

fun files_of :: "ds_env \<Rightarrow> string \<Rightarrow> dsconfig \<Rightarrow> dsfile list" where
  "files_of e path (MountC ms) = concat (map (\<lambda>(c, p). map (\<lambda>(ps, f). (p # ps, f)) (files_of e path c)) ms)"
| "files_of e path MemC = []"
| "files_of e path (LogC c _) = files_of e path c"
| "files_of e path (MeasureC c _) = files_of e path c"
| "files_of e path (FlatfsC p shard _) = [([], ''flatfs'', resolve e path p, shard)]"
| "files_of e path (BadgerC p _ _ _) = [([], ''badgerds'', resolve e path p, [])]"
| "files_of e path (LevelC p _) = [([], ''levelds'', resolve e path p, [])]"

lemma res_map_Ok: "res_map f r = Ok y \<longleftrightarrow> (\<exists>x. r = Ok x \<and> y = f x)"
  by (auto simp: res_map_def split: res.splits)

lemma Create_files:
  "Create e opens path c = Ok s \<Longrightarrow> files s = files_of e path c"
  "Create_mounts e opens path ms = Ok ss \<Longrightarrow> files (MountS ss) = files_of e path (MountC ms)"
proof (induction e opens path c and e opens path ms arbitrary: s and ss rule: Create_Create_mounts.induct)
  case (9 e opens path c p mounts)
  then obtain s' ss' where "Create e opens path c = Ok s'" "Create_mounts e opens path mounts = Ok ss'" "ss = (s', p) # ss'"
    by (auto simp: res_map_Ok split: res.splits)
  with 9 show ?case by simp
qed (auto simp: res_map_Ok opened_def split: option.splits)

text \<open>A configuration without its log and measure wrappers.\<close>

fun strip :: "dsconfig \<Rightarrow> dsconfig" where
  "strip (LogC c _) = strip c"
| "strip (MeasureC c _) = strip c"
| "strip c = c"

lemma strip_same [simp]: "DiskSpec (strip c) = DiskSpec c" "files_of e path (strip c) = files_of e path c"
  by (induction c rule: strip.induct) auto

lemma strip_shape: "strip c \<noteq> LogC d n" "strip c \<noteq> MeasureC d n"
  by (induction c rule: strip.induct) auto

lemma DiskSpec_keys: "DiskSpec c = Some m \<Longrightarrow> map_of m ''mountpoint'' = None \<and> m \<noteq> []"
  by (induction c arbitrary: m) auto

lemma update_absent: "map_of m k = None \<Longrightarrow> AList.update k v m = m @ [(k, v)]"
  by (induction m) (auto split: if_splits)

definition mount_entry :: "dsconfig \<times> string \<Rightarrow> nat json" where
  "mount_entry = (\<lambda>(m, p). JObj (AList.update ''mountpoint'' (JStr p) (case DiskSpec m of None \<Rightarrow> [] | Some c \<Rightarrow> c)))"

lemma mount_entry_eq: "mount_entry (m, p) = mount_entry (m', p') \<Longrightarrow> p = p' \<and> DiskSpec m = DiskSpec m'"
  using DiskSpec_keys[of m] DiskSpec_keys[of m']
  by (auto simp: mount_entry_def update_absent split: option.splits)

lemma DiskSpec_Mount: "DiskSpec (MountC ms) = Some [(''type'', JStr ''mount''), (''mounts'', JArr (map mount_entry ms))]"
  by (simp add: mount_entry_def)

lemma leaf_files:
  assumes "\<And>x n. d \<noteq> LogC x n" and "\<And>x n. d \<noteq> MeasureC x n" and "\<And>ms. c \<noteq> MountC ms"
    and "\<And>x n. c \<noteq> LogC x n" and "\<And>x n. c \<noteq> MeasureC x n" and "DiskSpec d = DiskSpec c"
  shows "files_of e path d = files_of e path c"
  using assms by (cases c; cases d) auto

lemma stripped_files:
  assumes "\<And>ms. c \<noteq> MountC ms" and "\<And>x n. c \<noteq> LogC x n" and "\<And>x n. c \<noteq> MeasureC x n"
    and "DiskSpec c = DiskSpec c'"
  shows "files_of e path c = files_of e path c'"
proof -
  have "files_of e path (strip c') = files_of e path c"
    using assms by (intro leaf_files strip_shape) simp_all
  then show ?thesis by simp
qed

lemma DiskSpec_files: "DiskSpec c = DiskSpec c' \<Longrightarrow> files_of e path c = files_of e path c'"
proof (induction c arbitrary: c' rule: DiskSpec.induct)
  case (1 ms)
  have eq: "DiskSpec (strip c') = DiskSpec (MountC ms)" using 1(2) by simp
  have "DiskSpec d = DiskSpec (MountC ms) \<Longrightarrow> (\<forall>x n. d \<noteq> LogC x n \<and> d \<noteq> MeasureC x n) \<Longrightarrow> \<exists>ms'. d = MountC ms'" for d
    by (cases d) simp_all
  from this[OF eq] obtain ms' where s: "strip c' = MountC ms'" using strip_shape[of c'] by blast
  have "map mount_entry ms = map mount_entry ms'"
    using eq unfolding s DiskSpec_Mount by simp
  then have "concat (map (\<lambda>(c, p). map (\<lambda>(ps, f). (p # ps, f)) (files_of e path c)) ms) =
      concat (map (\<lambda>(c, p). map (\<lambda>(ps, f). (p # ps, f)) (files_of e path c)) ms')"
    using 1(1)
  proof (induction ms arbitrary: ms')
    case (Cons x ms)
    then obtain y ys where y: "ms' = y # ys" "mount_entry x = mount_entry y" "map mount_entry ms = map mount_entry ys"
      by (cases ms') auto
    obtain c p c2 p2 where xy: "x = (c, p)" "y = (c2, p2)" by force
    have "p = p2" "DiskSpec c = DiskSpec c2" using mount_entry_eq[of c p c2 p2] y(2) xy by simp_all
    moreover have "files_of e path c = files_of e path c2"
      by (rule Cons.prems(2)[OF _ xy(1)[symmetric] \<open>DiskSpec c = DiskSpec c2\<close>]) simp
    moreover have "concat (map (\<lambda>(c, p). map (\<lambda>(ps, f). (p # ps, f)) (files_of e path c)) ms) =
        concat (map (\<lambda>(c, p). map (\<lambda>(ps, f). (p # ps, f)) (files_of e path c)) ys)"
      using Cons.IH[OF y(3)] Cons.prems(2) by (meson list.set_intros(2))
    ultimately show ?case using y(1) xy by simp
  qed simp
  then show ?case using strip_same(2)[of e path c'] s by simp
next
  case (3 child n)
  from 3(1)[of c'] 3(2) show ?case by simp
next
  case (4 child n)
  from 4(1)[of c'] 4(2) show ?case by simp
qed (rule stripped_files; simp)+


section \<open>Order of mounts\<close>

text \<open>What \<^verbatim>\<open>sort.Slice\<close> promises: a permutation, in descending order of the prefixes.\<close>

definition sort_ok :: "ds_env \<Rightarrow> bool" where
  "sort_ok e \<longleftrightarrow> (\<forall>ms. mset (sort_mounts e ms) = mset ms \<and> sorted_wrt (\<lambda>a b. snd b \<le> snd a) (sort_mounts e ms))"

lemma sorted_unique:
  assumes "sorted_wrt (\<lambda>a b. snd b \<le> snd a) xs" "sorted_wrt (\<lambda>a b. snd b \<le> snd a) ys"
    and "mset xs = mset ys" and "distinct (map snd xs)"
  shows "(xs :: ('a \<times> string) list) = ys"
proof -
  have s: "sorted (map snd (rev zs))" if "sorted_wrt (\<lambda>a b. snd b \<le> snd a) zs" for zs :: "('a \<times> string) list"
    using that by (simp add: sorted_wrt_map sorted_wrt_rev)
  have inj: "inj_on snd (set xs)" using assms(4) by (simp add: distinct_map)
  have "sort_key snd (rev xs) = rev xs" "sort_key snd (rev ys) = rev ys"
    using s assms(1,2) by (simp_all add: sort_key_id_if_sorted)
  moreover have "sort_key snd (rev xs) = sort_key snd (rev ys)"
    by (rule sort_key_inj_key_eq) (use assms(3) inj in \<open>auto dest: mset_eq_setD\<close>)
  ultimately show ?thesis by (metis rev_rev_ident)
qed

definition mount_one :: "ds_env \<Rightarrow> 'n json \<Rightarrow> (dsconfig \<times> string) res" where
  "mount_one e j = (case j of
     JObj cfg \<Rightarrow> (case AnyDatastoreConfig e cfg of
        Ok child \<Rightarrow> (case map_of cfg ''mountpoint'' of
           None \<Rightarrow> Error NoMountpoint | Some (JStr p) \<Rightarrow> Ok (child, NewKey e p) | Some _ \<Rightarrow> Panic)
      | Error err \<Rightarrow> Error err | Panic \<Rightarrow> Panic)
   | _ \<Rightarrow> Error MountNotMap)"

lemma mount_loop_Ok: "mount_loop e js = Ok ms \<longleftrightarrow> map (mount_one e) js = map Ok ms"
proof (induction js arbitrary: ms)
  case (Cons j js)
  show ?case
    by (cases "mount_one e j"; cases ms)
      (auto simp: mount_one_def res_map_Ok Cons split: json.splits res.splits option.splits)
qed auto

lemma Any_mount:
  "AnyDatastoreConfig e [(''type'', JStr ''mount''), (''mounts'', JArr js)] =
   res_map (\<lambda>ms. MountC (sort_mounts e ms)) (mount_loop e js)"
  by (simp add: AnyDatastoreConfig.simps)

section \<open>Properties\<close>

text \<open>
  C23. The comment on \<^verbatim>\<open>DiskSpec\<close> says that two equal disk specifications refer to exactly the
  same datastore.  They do: two configurations with the same disk specification, opened under
  the same repository path, use the same files, with the same storage engines, under the same
  mount prefixes in the same order, however they differ in run-time settings and wrappers.
\<close>

theorem DiskSpec_determines_files:
  assumes "DiskSpec c = DiskSpec c'" and "Create e opens path c = Ok s" and "Create e opens' path c' = Ok s'"
  shows "files s = files s'"
  using DiskSpec_files[OF assms(1), of e path] Create_files(1)[OF assms(2)] Create_files(1)[OF assms(3)] by simp

definition ds_demo_env :: ds_env where
  "ds_demo_env = \<lparr>registered = (\<lambda>_. True), NewKey = id, sort_mounts = (\<lambda>ms. rev (sort_key snd ms)), ParseShardFunc = Inr,
     ParseBytes = (\<lambda>_. Inr 0), defaultVlogSize = 0, Join = (\<lambda>a b. a @ ''/'' @ b)\<rparr>"

theorem DiskSpec_determines_files_witness:
  "files (LogS (FlatfsS ''r/blocks'' ''s'' True) ''n'') = files (FlatfsS ''r/blocks'' ''s'' False)"
  by (rule DiskSpec_determines_files[of "LogC (FlatfsC ''blocks'' ''s'' True) ''n''" "FlatfsC ''blocks'' ''s'' False"
        ds_demo_env "\<lambda>_. None" "''r''" _ "\<lambda>_. None"])
    (simp_all add: ds_demo_env_def res_map_def opened_def resolve_def IsAbs_def has_prefix_def)

text \<open>
  The order in which mounts are listed in the configuration does not matter.  If one list of
  mounts parses, to different prefixes, then every permutation of it parses to the same
  configuration, and so to the same disk specification.
\<close>

theorem mount_order_irrelevant:
  assumes "sort_ok e" and "mset js = mset js'"
    and "mount_loop e js = Ok ms" and "distinct (map snd ms)"
  shows "AnyDatastoreConfig e [(''type'', JStr ''mount''), (''mounts'', JArr js')] =
    AnyDatastoreConfig e [(''type'', JStr ''mount''), (''mounts'', JArr js)]"
proof -
  have "mset (map (mount_one e) js') = mset (map Ok ms)"
    using assms(2,3) by (metis mount_loop_Ok mset_map)
  then obtain rs where rs: "map (mount_one e) js' = rs" "mset rs = mset (map Ok ms)" by blast
  then have "\<forall>r \<in> set rs. \<exists>m. r = Ok m" using mset_eq_setD by fastforce
  then obtain ms' where "rs = map Ok ms'"
    by (induction rs) (simp, metis list.simps(9) list.set_intros)
  with rs have js': "mount_loop e js' = Ok ms'" "mset (map Ok ms') = mset (map Ok ms)" by (simp_all add: mount_loop_Ok)
  have "image_mset Ok (mset ms') = image_mset Ok (mset ms)" using js'(2) by simp
  then have m: "mset ms' = mset ms" by (rule injD[OF multiset.inj_map, rotated]) (simp add: inj_def)
  have "sort_mounts e ms = sort_mounts e ms'"
  proof (rule sorted_unique)
    show "sorted_wrt (\<lambda>a b. snd b \<le> snd a) (sort_mounts e ms)" "sorted_wrt (\<lambda>a b. snd b \<le> snd a) (sort_mounts e ms')"
      "mset (sort_mounts e ms) = mset (sort_mounts e ms')"
      using assms(1) m by (simp_all add: sort_ok_def)
    have "mset (map snd (sort_mounts e ms)) = mset (map snd ms)" using assms(1) by (simp add: sort_ok_def)
    then show "distinct (map snd (sort_mounts e ms))" using assms(4) mset_eq_imp_distinct_iff by blast
  qed
  with assms(3) js'(1) show ?thesis by (simp add: Any_mount res_map_def)
qed

lemma demo_sort_ok: "sort_ok ds_demo_env"
  by (auto simp: sort_ok_def ds_demo_env_def sorted_wrt_rev sorted_wrt_map[symmetric])

theorem mount_order_irrelevant_witness:
  "AnyDatastoreConfig ds_demo_env [(''type'', JStr ''mount''), (''mounts'', JArr
      [JObj [(''type'', JStr ''mem''), (''mountpoint'', JStr ''/b'')], JObj [(''type'', JStr ''mem''), (''mountpoint'', (JStr ''/a'' :: nat json))]])] =
   AnyDatastoreConfig ds_demo_env [(''type'', JStr ''mount''), (''mounts'', JArr
      [JObj [(''type'', JStr ''mem''), (''mountpoint'', JStr ''/a'')], JObj [(''type'', JStr ''mem''), (''mountpoint'', (JStr ''/b'' :: nat json))]])]"
  by (rule mount_order_irrelevant[OF demo_sort_ok, where ms = "[(MemC, ''/a''), (MemC, ''/b'')]"])
    (simp_all add: AnyDatastoreConfig.simps ds_demo_env_def res_map_def)

fun mountpoints_ok :: "'n json \<Rightarrow> bool" where
  "mountpoints_ok (JObj m) = (\<forall>kv \<in> set m. (fst kv = ''mountpoint'' \<longrightarrow> (\<exists>s. snd kv = JStr s)) \<and> mountpoints_ok (snd kv))"
| "mountpoints_ok (JArr js) = (\<forall>j \<in> set js. mountpoints_ok j)"
| "mountpoints_ok _ = True"

lemma leaf_no_panic:
  "flatfs_parser e params \<noteq> Panic" "badgerds_parser e params \<noteq> Panic" "levelds_parser params \<noteq> Panic"
  by (auto simp: flatfs_parser_def badgerds_parser_def levelds_parser_def opt_bool_def badger_vlog_def res_map_def
      split: option.splits json.splits sum.splits res.splits)

lemma mountpoints_lookup:
  assumes "mountpoints_ok (JObj m)" and "map_of m k = Some v"
  shows "mountpoints_ok v" and "k = ''mountpoint'' \<Longrightarrow> \<exists>s. v = JStr s"
  using assms map_of_SomeD[OF assms(2)] by fastforce+

lemma res_map_Panic [simp]: "res_map f r = Panic \<longleftrightarrow> r = Panic"
  by (simp add: res_map_def split: res.splits)

lemma typed_no_panic:
  assumes ty: "map_of params ''type'' = Some (JStr w)"
    and "\<And>js. w = ''mount'' \<Longrightarrow> map_of params ''mounts'' = Some (JArr js) \<Longrightarrow> mount_loop e js \<noteq> Panic"
    and "w = ''log'' \<Longrightarrow> child_config e params ''name'' NameMissing \<noteq> Panic"
    and "w = ''measure'' \<Longrightarrow> child_config e params ''prefix'' PrefixMissing \<noteq> Panic"
  shows "AnyDatastoreConfig e params \<noteq> Panic"
proof -
  consider "w = ''mount''" | "w = ''mem''" | "w = ''log''" | "w = ''measure''"
    | "w \<notin> {''mount'', ''mem'', ''log'', ''measure''}" by blast
  then show ?thesis
  proof cases
    case 1
    then show ?thesis using assms(2) by (simp add: AnyDatastoreConfig.simps ty split: option.split json.split)
  qed (use assms(3,4) in \<open>simp_all add: AnyDatastoreConfig.simps ty leaf_no_panic\<close>)
qed

lemma no_panic:
  fixes params params' :: "'n jmap" and js :: "'n json list"
  shows "mountpoints_ok (JObj params) \<Longrightarrow> AnyDatastoreConfig e params \<noteq> Panic"
  "mountpoints_ok (JArr js) \<Longrightarrow> mount_loop e js \<noteq> Panic"
  "mountpoints_ok (JObj params') \<Longrightarrow> child_config e' params' field err \<noteq> Panic"
proof (induction e params and e js and e' params' field err
    rule: AnyDatastoreConfig_mount_loop_child_config.induct)
  case (1 e params)
  show ?case
  proof (cases "\<exists>w. map_of params ''type'' = Some (JStr w)")
    case True
    then obtain w where ty: "map_of params ''type'' = Some (JStr w)" by blast
    then show ?thesis
    proof (rule typed_no_panic)
      show "mount_loop e js \<noteq> Panic" if "w = ''mount''" "map_of params ''mounts'' = Some (JArr js)" for js
        using 1(1)[OF ty refl that refl] mountpoints_lookup(1)[OF 1(4) that(2)] .
    qed (use 1(2)[OF ty refl] 1(3)[OF ty refl] 1(4) in auto)
  next
    case False
    then show ?thesis by (simp add: AnyDatastoreConfig.simps split: option.split json.split)
  qed
next
  case (3 e iface mounts)
  show ?case
  proof (cases "\<exists>cfg. iface = JObj cfg")
    case True
    then obtain cfg where cfg: "iface = JObj cfg" by blast
    have ok: "mountpoints_ok (JObj cfg)" using 3(3) cfg by simp
    have "AnyDatastoreConfig e cfg \<noteq> Panic" using 3(1)[OF cfg ok] .
    moreover have "\<exists>s. v = JStr s" if "map_of cfg ''mountpoint'' = Some v" for v
      using mountpoints_lookup(2)[OF ok that] by simp
    moreover have "mount_loop e mounts \<noteq> Panic" if "AnyDatastoreConfig e cfg = Ok child" "map_of cfg ''mountpoint'' = Some (JStr s)" for child s
      using 3(2)[OF cfg that(1,2)] 3(3) by simp
    ultimately show ?thesis using cfg by (auto split: res.splits option.splits json.splits)
  qed (auto split: json.splits)
next
  case (4 e params field err)
  show ?case
  proof (cases "\<exists>m. map_of params ''child'' = Some (JObj m)")
    case True
    then obtain m where m: "map_of params ''child'' = Some (JObj m)" by blast
    with 4(1)[OF m refl] mountpoints_lookup(1)[OF 4(2) m] show ?thesis
      by (auto simp: child_config.simps split: res.splits option.splits json.splits)
  qed (auto simp: child_config.simps split: option.splits json.splits)
qed simp

text \<open>
  A mount whose \<^verbatim>\<open>mountpoint\<close> is present but not a string is not rejected with an error, as
  every other malformed field is: the unchecked type assertion panics.  With string mountpoints,
  at every depth, parsing never panics.
\<close>

theorem mountpoint_panic:
  shows "\<lbrakk>AnyDatastoreConfig e cfg = Ok child; map_of cfg ''mountpoint'' = Some v; \<forall>s. v \<noteq> JStr s\<rbrakk> \<Longrightarrow>
      AnyDatastoreConfig e [(''type'', JStr ''mount''), (''mounts'', JArr (JObj cfg # js))] = Panic"
    and "mountpoints_ok (JObj params) \<Longrightarrow> AnyDatastoreConfig e params \<noteq> Panic"
  using no_panic(1)[of params e] by (auto simp: Any_mount res_map_def split: json.splits)

theorem mountpoint_panic_witness:
  "AnyDatastoreConfig ds_demo_env [(''type'', JStr ''mount''),
     (''mounts'', JArr [JObj [(''type'', JStr ''mem''), (''mountpoint'', JNum (1::nat))]])] = Panic"
  by (rule mountpoint_panic(1)[where child = MemC and v = "JNum 1"]) (auto simp: AnyDatastoreConfig.simps)

end
