(* ===== verification/Hostname.thy ===== *)
theory Hostname
  imports ConfigTypes
begin

text \<open>
  Host name handling of the gateway: \<^verbatim>\<open>src/core/corehttp/hostname.go\<close> with the gateway
  specification of \<^verbatim>\<open>src/config/gateway.go\<close>.  CIDs, peer ids, DNS names, the name system, the regular
  expression engine and the URL parser are fields of \<open>host_env\<close>.  The handler's answer is a value:
  an error, a redirect, or the request passed on to the inner handler with its rewritten path.
  A nil pointer dereference and an invalid flag are the answer \<^verbatim>\<open>RPanic\<close>.
\<close>

section \<open>Requests, specifications and the environment\<close>

record GatewaySpec =
  Paths :: "string list"
  UseSubdomains :: bool
  NoDNSLink :: bool
  InlineDNSLink :: int

definition DefaultInlineDNSLink :: bool where "DefaultInlineDNSLink = False"

record http_request =
  r_Host :: string
  r_ForwardedHost :: string
  r_Path :: string
  r_Scheme :: string
  r_ForwardedProto :: string
  r_RawQuery :: string

datatype mbase = Base32 | Base36

record gcid =
  cid_Type :: nat
  cid_Hash :: string

datatype resolve_result = Resolved | ErrResolveRecursion | ResolveFailed

record host_env =
  cid_Decode :: "string \<Rightarrow> gcid option"
  StringOfBase :: "mbase \<Rightarrow> gcid \<Rightarrow> string + string"
  Libp2pKey :: nat
  peer_Decode :: "string \<Rightarrow> string option"
  peer_ToCid :: "string \<Rightarrow> string"
  IsDomainName :: "string \<Rightarrow> bool"
  Resolve :: "string \<Rightarrow> resolve_result"
  regexp_Compile :: "string \<Rightarrow> (string \<Rightarrow> bool) option"
  ParseRequestURI :: "string \<Rightarrow> string + string"

section \<open>Strings\<close>

text \<open>\<^verbatim>\<open>strings.SplitN(s, c, n)\<close> for a one-character separator and a positive \<^verbatim>\<open>n\<close>.\<close>

definition SplitN :: "char \<Rightarrow> nat \<Rightarrow> string \<Rightarrow> string list" where
  "SplitN c n s =
     (let ps = split_on c s in
      if length ps \<le> n then ps else take (n - 1) ps @ [join_with [c] (drop (n - 1) ps)])"

text \<open>
  \<^verbatim>\<open>net.SplitHostPort\<close>: the host, or nothing when the address has no port or is malformed.  The
  last colon separates the port; a host with a colon has to be in brackets.
\<close>

definition after_last :: "char \<Rightarrow> string \<Rightarrow> string" where
  "after_last c s = rev (takeWhile (\<lambda>x. x \<noteq> c) (rev s))"

definition before_last :: "char \<Rightarrow> string \<Rightarrow> string" where
  "before_last c s = rev (tl (dropWhile (\<lambda>x. x \<noteq> c) (rev s)))"

definition SplitHostPort :: "string \<Rightarrow> string option" where
  "SplitHostPort s =
     (if CHR '':'' \<notin> set s then None
      else if s \<noteq> [] \<and> hd s = CHR ''['' then
        (let inner = takeWhile (\<lambda>x. x \<noteq> CHR '']'') (tl s);
             rest = dropWhile (\<lambda>x. x \<noteq> CHR '']'') (tl s)
         in if rest = [] then None
            else if tl rest = [] \<or> hd (tl rest) \<noteq> CHR '':'' \<or> CHR '':'' \<in> set (tl (tl rest)) then None
            else if CHR ''['' \<in> set inner \<or> CHR ''['' \<in> set (tl rest) \<or> CHR '']'' \<in> set (tl rest) then None
            else Some inner)
      else
        (let host = before_last CHR '':'' s
         in if CHR '':'' \<in> set host then None
            else if CHR ''['' \<in> set s \<or> CHR '']'' \<in> set s then None
            else Some host))"

definition stripPort :: "string \<Rightarrow> string" where
  "stripPort hostname = (case SplitHostPort hostname of Some host \<Rightarrow> host | None \<Rightarrow> hostname)"

definition hasPrefix :: "string \<Rightarrow> string list \<Rightarrow> bool" where
  "hasPrefix path pres =
     list_ex (\<lambda>pre. let p = trim_suffix pre ''/'' in p = path \<or> has_prefix path (p @ ''/'')) pres"

section \<open>Known gateways\<close>

text \<open>A \<^verbatim>\<open>nil\<close> regular expression is \<^term>\<open>None\<close>: compiling failed and the entry was kept.\<close>

record gatewayHosts =
  exact :: "string \<rightharpoonup> GatewaySpec"
  wildcard :: "((string \<Rightarrow> bool) option \<times> GatewaySpec) list"

definition subdomainGatewaySpec :: GatewaySpec where
  "subdomainGatewaySpec =
     \<lparr>Paths = [''/ipfs/'', ''/ipns/'', ''/api/'', ''/p2p/''], UseSubdomains = True, NoDNSLink = False, InlineDNSLink = 0\<rparr>"

definition defaultKnownGateways :: "string \<rightharpoonup> GatewaySpec" where
  "defaultKnownGateways = [''localhost'' \<mapsto> subdomainGatewaySpec]"

definition wildcard_regexp :: "string \<Rightarrow> string" where
  "wildcard_regexp hostname =
     (let escaped = replace_all ''.'' [CHR 0x5C, CHR ''.''] hostname;
          regexed = replace_all ''*'' ''[^.]+'' escaped
      in ''^'' @ regexed @ ''(?::'' @ [CHR 0x5C] @ ''d+)?$'')"

text \<open>The loop over the configured gateways, in the order the map iteration takes.\<close>

fun apply_gateways :: "host_env \<Rightarrow> (string \<times> GatewaySpec option) list \<Rightarrow> gatewayHosts \<Rightarrow> gatewayHosts" where
  "apply_gateways e [] hosts = hosts"
| "apply_gateways e ((hostname, None) # gws) hosts =
     apply_gateways e gws (hosts\<lparr>exact := (exact hosts)(hostname := None)\<rparr>)"
| "apply_gateways e ((hostname, Some gw) # gws) hosts =
     (if contains_str hostname ''*'' then
        apply_gateways e gws
          (hosts\<lparr>wildcard := wildcard hosts @ [(regexp_Compile e (wildcard_regexp hostname), gw)]\<rparr>)
      else apply_gateways e gws (hosts\<lparr>exact := (exact hosts)(hostname \<mapsto> gw)\<rparr>))"

definition prepareKnownGateways :: "host_env \<Rightarrow> (string \<times> GatewaySpec option) list \<Rightarrow> gatewayHosts" where
  "prepareKnownGateways e publicGateways =
     apply_gateways e publicGateways \<lparr>exact = defaultKnownGateways, wildcard = []\<rparr>"

text \<open>Outcomes of code that may dereference a nil regular expression.\<close>

datatype 'a go = Ret 'a | GoPanic

fun match_wildcard :: "string \<Rightarrow> ((string \<Rightarrow> bool) option \<times> GatewaySpec) list \<Rightarrow> GatewaySpec option go" where
  "match_wildcard hostname [] = Ret None"
| "match_wildcard hostname ((re, spec) # ws) =
     (case re of
        None \<Rightarrow> GoPanic
      | Some m \<Rightarrow> if m hostname then Ret (Some spec) else match_wildcard hostname ws)"

definition isKnownHostname :: "string \<Rightarrow> gatewayHosts \<Rightarrow> GatewaySpec option go" where
  "isKnownHostname hostname knownGateways =
     (case exact knownGateways hostname of
        Some gw \<Rightarrow> Ret (Some gw)
      | None \<Rightarrow>
          (case exact knownGateways (stripPort hostname) of
             Some gw \<Rightarrow> Ret (Some gw)
           | None \<Rightarrow> match_wildcard hostname (wildcard knownGateways)))"

definition isSubdomainNamespace :: "string \<Rightarrow> bool" where
  "isSubdomainNamespace ns = (ns \<in> {''ipfs'', ''ipns'', ''p2p'', ''ipld''})"

definition isPeerIDNamespace :: "string \<Rightarrow> bool" where
  "isPeerIDNamespace ns = (ns \<in> {''ipns'', ''p2p''})"

text \<open>The loop of \<^verbatim>\<open>knownSubdomainDetails\<close>, for \<open>i\<close> counting down to 2.\<close>

fun details_loop :: "gatewayHosts \<Rightarrow> string list \<Rightarrow> nat \<Rightarrow> (GatewaySpec \<times> string \<times> string \<times> string) option go" where
  "details_loop known labels 0 = Ret None"
| "details_loop known labels (Suc i) =
     (if Suc i < 2 then Ret None
      else
        (let fqdn = join_with ''.'' (drop (Suc i) labels) in
         case isKnownHostname fqdn known of
           GoPanic \<Rightarrow> GoPanic
         | Ret None \<Rightarrow> details_loop known labels i
         | Ret (Some gw) \<Rightarrow>
             (let ns = labels ! i in
              if \<not> isSubdomainNamespace ns then details_loop known labels i
              else Ret (Some (gw, fqdn, ns, join_with ''.'' (take i labels))))))"

definition knownSubdomainDetails :: "string \<Rightarrow> gatewayHosts \<Rightarrow> (GatewaySpec \<times> string \<times> string \<times> string) option go" where
  "knownSubdomainDetails hostname known =
     (let labels = split_on CHR ''.'' hostname in details_loop known labels (length labels - 1))"

section \<open>Names\<close>

definition isDomainNameAndNotPeerID :: "host_env \<Rightarrow> string \<Rightarrow> bool" where
  "isDomainNameAndNotPeerID e hostname =
     (if length hostname = 0 then False
      else if peer_Decode e hostname \<noteq> None then False
      else IsDomainName e hostname)"

definition isDNSLinkName :: "host_env \<Rightarrow> string \<Rightarrow> bool" where
  "isDNSLinkName e host =
     (let dnslinkName = stripPort host in
      if \<not> isDomainNameAndNotPeerID e dnslinkName then False
      else Resolve e (''/ipns/'' @ dnslinkName) \<in> {Resolved, ErrResolveRecursion})"

definition dnsLabelMaxLength :: nat where "dnsLabelMaxLength = 63"

definition NewCidV1 :: "nat \<Rightarrow> string \<Rightarrow> gcid" where
  "NewCidV1 t h = \<lparr>cid_Type = t, cid_Hash = h\<rparr>"

definition toDNSLabel :: "host_env \<Rightarrow> string \<Rightarrow> gcid \<Rightarrow> string + string" where
  "toDNSLabel e rootID rootCID =
     (if length rootID \<le> dnsLabelMaxLength then Inr rootID
      else
        (case StringOfBase e Base36 (NewCidV1 (cid_Type rootCID) (cid_Hash rootCID)) of
           Inl err \<Rightarrow> Inl err
         | Inr rootID \<Rightarrow>
             if length rootID \<le> dnsLabelMaxLength then Inr rootID
             else Inl (''CID incompatible with DNS label length limit of 63: '' @ rootID)))"

definition isHTTPSRequest :: "http_request \<Rightarrow> bool" where
  "isHTTPSRequest r = (r_Scheme r = ''https'' \<or> r_ForwardedProto r = ''https'')"

definition toDNSLinkDNSLabel :: "string \<Rightarrow> string + string" where
  "toDNSLinkDNSLabel fqdn =
     (let dnsLabel = replace_all ''-'' ''--'' fqdn;
          dnsLabel = replace_all ''.'' ''-'' dnsLabel
      in if length dnsLabel > dnsLabelMaxLength
         then Inl (''DNSLink representation incompatible with DNS label length limit of 63: '' @ dnsLabel)
         else Inr dnsLabel)"

definition toDNSLinkFQDN :: "string \<Rightarrow> string" where
  "toDNSLinkFQDN dnsLabel =
     (let fqdn = replace_all ''--'' ''@'' dnsLabel;
          fqdn = replace_all ''-'' ''.'' fqdn
      in replace_all ''@'' ''-'' fqdn)"

section \<open>Redirect targets\<close>

text \<open>The part of \<^verbatim>\<open>toSubdomainURL\<close> that puts the root identifier into its DNS form.\<close>

definition subdomain_root :: "host_env \<Rightarrow> bool \<Rightarrow> bool \<Rightarrow> string \<Rightarrow> string \<Rightarrow> string + string" where
  "subdomain_root e inlineDNSLink isHTTPS ns rootID =
     (let rootID =
        (if isPeerIDNamespace ns \<and> \<not> isDomainNameAndNotPeerID e rootID then
           (case peer_Decode e rootID of Some peerID \<Rightarrow> peer_ToCid e peerID | None \<Rightarrow> rootID)
         else rootID)
      in case cid_Decode e rootID of
           Some rootCID \<Rightarrow>
             (let multicodec = (if isPeerIDNamespace ns \<and> cid_Type rootCID \<noteq> Libp2pKey e then Libp2pKey e
                                else cid_Type rootCID);
                  base = (if isPeerIDNamespace ns then Base36 else Base32);
                  rootCID = NewCidV1 multicodec (cid_Hash rootCID)
              in case StringOfBase e base rootCID of
                   Inl err \<Rightarrow> Inl err
                 | Inr rootID \<Rightarrow> toDNSLabel e rootID rootCID)
         | None \<Rightarrow>
             if (inlineDNSLink \<or> isHTTPS) \<and> ns = ''ipns'' \<and> contains_str rootID ''.'' \<and> isDNSLinkName e rootID
             then toDNSLinkDNSLabel rootID
             else Inr rootID)"

text \<open>No redirect is the empty URL.\<close>

definition toSubdomainURL :: "host_env \<Rightarrow> string \<Rightarrow> string \<Rightarrow> http_request \<Rightarrow> bool \<Rightarrow> string + string" where
  "toSubdomainURL e hostname path r inlineDNSLink =
     (let parts = SplitN CHR ''/'' 4 path;
          isHTTPS = isHTTPSRequest r;
          scheme = (if isHTTPS then ''https:'' else ''http:'');
          rest = (if length parts = 4 then parts ! 3 else []);
          query = (if r_RawQuery r \<noteq> [] then ''?'' @ r_RawQuery r else [])
      in if length parts \<noteq> 4 \<and> length parts \<noteq> 3 then Inr []
         else
           (let ns = parts ! 1; rootID = parts ! 2 in
            if \<not> isSubdomainNamespace ns then Inr []
            else case subdomain_root e inlineDNSLink isHTTPS ns rootID of
                   Inl err \<Rightarrow> Inl err
                 | Inr rootID \<Rightarrow>
                     ParseRequestURI e
                       (scheme @ ''//'' @ rootID @ ''.'' @ ns @ ''.'' @ hostname @ ''/'' @ rest @ query)))"

section \<open>The handler\<close>

text \<open>
  \<^verbatim>\<open>RServe path location gw_hostname dnslink\<close>: the inner handler gets the request with the path,
  perhaps with a \<^verbatim>\<open>Location\<close> header set, and with the two context values where they are set.
\<close>

datatype response =
  RBadRequest string | RNotFound | RRedirect string
| RServe string "string option" "string option" "string option" | RPanic

definition serve_known :: "host_env \<Rightarrow> GatewaySpec \<Rightarrow> string \<Rightarrow> http_request \<Rightarrow> response" where
  "serve_known e gw host r =
     (if hasPrefix (r_Path r) (Paths gw) then
        (if UseSubdomains gw then
           (case Flag_WithDefault (InlineDNSLink gw) DefaultInlineDNSLink of
              None \<Rightarrow> RPanic
            | Some useInlinedDNSLink \<Rightarrow>
                (case toSubdomainURL e host (r_Path r) r useInlinedDNSLink of
                   Inl err \<Rightarrow> RBadRequest err
                 | Inr newURL \<Rightarrow> RServe (r_Path r) (if newURL \<noteq> [] then Some newURL else None) None None))
         else RServe (r_Path r) None None None)
      else if \<not> NoDNSLink gw \<and> isDNSLinkName e host then
        RServe (''/ipns/'' @ stripPort host @ r_Path r) None (Some host) None
      else RNotFound)"

text \<open>The two redirects for a root that is a CID; no redirect is \<^term>\<open>None\<close>.\<close>

definition cid_redirect :: "host_env \<Rightarrow> string \<Rightarrow> string \<Rightarrow> string \<Rightarrow> gcid \<Rightarrow> bool \<Rightarrow> http_request \<Rightarrow> response option" where
  "cid_redirect e gwHostname ns rootID rootCID useInlinedDNSLink r =
     (case toDNSLabel e rootID rootCID of
        Inl err \<Rightarrow> Some (RBadRequest err)
      | Inr dnsCID \<Rightarrow>
          (let pathPrefix = ''/'' @ ns @ ''/'' @ rootID;
               first = (if \<not> has_prefix (r_Host r) dnsCID then
                 toSubdomainURL e gwHostname (''/'' @ ns @ ''/'' @ dnsCID @ r_Path r) r useInlinedDNSLink else Inr []);
               second = (if isPeerIDNamespace ns \<and> cid_Type rootCID \<noteq> Libp2pKey e then
                 toSubdomainURL e gwHostname (pathPrefix @ r_Path r) r useInlinedDNSLink else Inr [])
           in case first of
                Inl err \<Rightarrow> Some (RBadRequest err)
              | Inr url1 \<Rightarrow>
                  if url1 \<noteq> [] then Some (RRedirect url1)
                  else case second of
                         Inl err \<Rightarrow> Some (RBadRequest err)
                       | Inr url2 \<Rightarrow> if url2 \<noteq> [] then Some (RRedirect url2) else None))"

definition serve_subdomain ::
    "host_env \<Rightarrow> GatewaySpec \<Rightarrow> string \<Rightarrow> string \<Rightarrow> string \<Rightarrow> http_request \<Rightarrow> response" where
  "serve_subdomain e gw gwHostname ns rootID r =
     (let pathPrefix = ''/'' @ ns @ ''/'' @ rootID in
      case Flag_WithDefault (InlineDNSLink gw) DefaultInlineDNSLink of
        None \<Rightarrow> RPanic
      | Some useInlinedDNSLink \<Rightarrow>
          if \<not> (UseSubdomains gw \<and> hasPrefix pathPrefix (Paths gw)) then RNotFound
          else
            (case cid_Decode e rootID of
               Some rootCID \<Rightarrow>
                 (case cid_redirect e gwHostname ns rootID rootCID useInlinedDNSLink r of
                    Some resp \<Rightarrow> resp
                  | None \<Rightarrow> RServe (pathPrefix @ r_Path r) None (Some gwHostname) None)
             | None \<Rightarrow>
                 (let pathPrefix =
                    (if ns = ''ipns'' \<and> \<not> contains_str rootID ''.'' \<and> \<not> isDNSLinkName e rootID \<and>
                        isDNSLinkName e (toDNSLinkFQDN rootID)
                     then ''/ipns/'' @ toDNSLinkFQDN rootID else pathPrefix)
                  in RServe (pathPrefix @ r_Path r) None (Some gwHostname) None)))"

definition request_host :: "http_request \<Rightarrow> string" where
  "request_host r = (if r_ForwardedHost r \<noteq> [] then r_ForwardedHost r else r_Host r)"

definition HostnameOption :: "host_env \<Rightarrow> gatewayHosts \<Rightarrow> bool \<Rightarrow> http_request \<Rightarrow> response" where
  "HostnameOption e knownGateways noDNSLink r =
     (let host = request_host r in
      case isKnownHostname host knownGateways of
        GoPanic \<Rightarrow> RPanic
      | Ret (Some gw) \<Rightarrow> serve_known e gw host r
      | Ret None \<Rightarrow>
          (case knownSubdomainDetails host knownGateways of
             GoPanic \<Rightarrow> RPanic
           | Ret (Some (gw, gwHostname, ns, rootID)) \<Rightarrow> serve_subdomain e gw gwHostname ns rootID r
           | Ret None \<Rightarrow>
               if \<not> noDNSLink \<and> isDNSLinkName e host then
                 RServe (''/ipns/'' @ stripPort host @ r_Path r) None (Some host) (Some host)
               else RServe (r_Path r) None None None))"

section \<open>Inlined DNSLink labels\<close>

text \<open>
  A name that survives inlining: no \<^verbatim>\<open>@\<close>, and no dot followed by a dot or a dash (labels of a
  domain name are not empty and do not start with a dash).
\<close>

fun fqdn_ok :: "string \<Rightarrow> bool" where
  "fqdn_ok [] = True"
| "fqdn_ok (c # s) =
     (c \<noteq> CHR ''@'' \<and> (c = CHR ''.'' \<longrightarrow> s = [] \<or> hd s \<noteq> CHR ''.'' \<and> hd s \<noteq> CHR ''-'') \<and> fqdn_ok s)"

definition enc_char :: "char \<Rightarrow> string" where
  "enc_char c = (if c = CHR ''-'' then ''--'' else if c = CHR ''.'' then ''-'' else [c])"

definition mid_char :: "char \<Rightarrow> char" where
  "mid_char c = (if c = CHR ''-'' then CHR ''@'' else if c = CHR ''.'' then CHR ''-'' else c)"

lemma char_cases:
  "enc_char CHR ''-'' = ''--''" "mid_char CHR ''-'' = CHR ''@''" "enc_char CHR ''.'' = ''-''" "mid_char CHR ''.'' = CHR ''-''"
  "c \<noteq> CHR ''-'' \<Longrightarrow> c \<noteq> CHR ''.'' \<Longrightarrow> enc_char c = [c] \<and> mid_char c = c"
  by (simp_all add: enc_char_def mid_char_def)

lemma inline_enc: "replace_all ''.'' ''-'' (replace_all ''-'' ''--'' s) = concat (map enc_char s)"
  unfolding replace_all_char by (induction s) (auto simp: enc_char_def)

lemma enc_start: "s = [] \<or> hd s \<noteq> CHR ''.'' \<and> hd s \<noteq> CHR ''-'' \<Longrightarrow> \<not> has_prefix (concat (map enc_char s)) ''-''"
  by (cases s) (auto simp: enc_char_def has_prefix_def)

lemma dash_pair: "has_prefix (CHR ''-'' # s) ''--'' = has_prefix s ''-''"
  by (simp add: has_prefix_def)

lemma uninline_mid: "fqdn_ok s \<Longrightarrow> replace_all ''--'' ''@'' (concat (map enc_char s)) = map mid_char s"
proof (induction s)
  case (Cons c s)
  then have IH: "replace_all ''--'' ''@'' (concat (map enc_char s)) = map mid_char s" by simp
  consider "c = CHR ''-''" | "c = CHR ''.''" | "c \<noteq> CHR ''-''" "c \<noteq> CHR ''.''" by blast
  then show ?case
  proof cases
    case 1
    then show ?thesis using IH by (simp add: char_cases has_prefix_def)
  next
    case 2
    with Cons.prems have "\<not> has_prefix (concat (map enc_char s)) ''-''" by (intro enc_start) auto
    then show ?thesis using IH 2 by (simp add: char_cases dash_pair)
  next
    case 3
    then show ?thesis using IH by (simp add: char_cases has_prefix_def)
  qed
qed simp

lemma mid_back: "fqdn_ok s \<Longrightarrow> replace_all ''@'' ''-'' (replace_all ''-'' ''.'' (map mid_char s)) = s"
  unfolding replace_all_char by (induction s) (auto simp: mid_char_def)

lemma inline_roundtrip: "fqdn_ok s \<Longrightarrow> toDNSLinkDNSLabel s = Inr l \<Longrightarrow> toDNSLinkFQDN l = s"
  by (auto simp: toDNSLinkDNSLabel_def toDNSLinkFQDN_def Let_def inline_enc uninline_mid mid_back split: if_splits)

section \<open>Subdomain hosts\<close>

lemma join_append: "xs \<noteq> [] \<Longrightarrow> ys \<noteq> [] \<Longrightarrow> join_with s (xs @ ys) = join_with s xs @ s @ join_with s ys"
proof (induction xs)
  case (Cons x xs)
  then show ?case by (cases "xs = []") (simp_all add: join_with_Cons)
qed simp

lemma details_loop_found:
  assumes "details_loop known labels i = Ret (Some (gw, fqdn, ns, rootID))"
  shows "\<exists>k. 2 \<le> k \<and> k \<le> i \<and> fqdn = join_with ''.'' (drop k labels) \<and> ns = labels ! (k - 1) \<and>
    rootID = join_with ''.'' (take (k - 1) labels) \<and> isKnownHostname fqdn known = Ret (Some gw) \<and> isSubdomainNamespace ns"
  using assms
proof (induction i)
  case (Suc i)
  from Suc.prems have i: "2 \<le> Suc i" by (auto split: if_splits)
  show ?case
  proof (cases "details_loop known labels i = Ret (Some (gw, fqdn, ns, rootID))")
    case True
    with Suc.IH show ?thesis using le_SucI by blast
  next
    case False
    with Suc.prems i show ?thesis
      by (intro exI[of _ "Suc i"]) (auto simp: Let_def split: go.splits option.splits if_splits)
  qed
qed simp

lemma details_decompose:
  assumes "knownSubdomainDetails hostname known = Ret (Some (gw, fqdn, ns, rootID))"
  shows "hostname = rootID @ ''.'' @ ns @ ''.'' @ fqdn \<and> isKnownHostname fqdn known = Ret (Some gw) \<and> isSubdomainNamespace ns"
proof -
  let ?l = "split_on CHR ''.'' hostname"
  from details_loop_found[of known ?l "length ?l - 1"] assms obtain k where k: "2 \<le> k" "k \<le> length ?l - 1"
    and r: "fqdn = join_with ''.'' (drop k ?l)" "ns = ?l ! (k - 1)" "rootID = join_with ''.'' (take (k - 1) ?l)"
      "isKnownHostname fqdn known = Ret (Some gw)" "isSubdomainNamespace ns"
    by (auto simp: knownSubdomainDetails_def Let_def)
  have len: "k < length ?l" using k by linarith
  then have "?l = take (k - 1) ?l @ ([?l ! (k - 1)] @ drop k ?l)"
    using k(1) by (metis Cons_nth_drop_Suc One_nat_def Suc_diff_le Suc_lessD append_Cons append_Nil append_take_drop_id
        diff_Suc_1 le_add_diff_inverse2 less_imp_diff_less numeral_2_eq_2 plus_1_eq_Suc Suc_pred' gr_zeroI not_numeral_le_zero)
  moreover have "take (k - 1) ?l \<noteq> []" "drop k ?l \<noteq> []" using k(1) len by auto
  ultimately have "join_with ''.'' ?l = rootID @ ''.'' @ ns @ ''.'' @ fqdn"
    unfolding r by (metis append_is_Nil_conv join_append join_with.simps(2) not_Cons_self2)
  then show ?thesis using r join_split_on[of "CHR ''.''" hostname] by simp
qed

text \<open>No shorter suffix of the host is taken for the gateway.\<close>

definition unambiguous :: "gatewayHosts \<Rightarrow> string list \<Rightarrow> nat \<Rightarrow> bool" where
  "unambiguous known labels k \<longleftrightarrow>
     (\<forall>j. k < j \<longrightarrow> j < length labels \<longrightarrow>
        isKnownHostname (join_with ''.'' (drop j labels)) known = Ret None \<or>
        (\<exists>gw. isKnownHostname (join_with ''.'' (drop j labels)) known = Ret (Some gw) \<and> \<not> isSubdomainNamespace (labels ! (j - 1))))"

lemma details_loop_finds:
  assumes "unambiguous known labels k" and "2 \<le> k" and "k \<le> i" and "i < length labels"
    and "isKnownHostname (join_with ''.'' (drop k labels)) known = Ret (Some gw)" and "isSubdomainNamespace (labels ! (k - 1))"
  shows "details_loop known labels i =
    Ret (Some (gw, join_with ''.'' (drop k labels), labels ! (k - 1), join_with ''.'' (take (k - 1) labels)))"
  using assms(3,4)
proof (induction i)
  case (Suc i)
  show ?case
  proof (cases "k = Suc i")
    case True
    with assms show ?thesis by simp
  next
    case False
    with Suc.prems have "k \<le> i" by simp
    have "isKnownHostname (join_with ''.'' (drop (Suc i) labels)) known = Ret None \<or>
        (\<exists>gw. isKnownHostname (join_with ''.'' (drop (Suc i) labels)) known = Ret (Some gw) \<and> \<not> isSubdomainNamespace (labels ! i))"
      using assms(1) Suc.prems False unfolding unambiguous_def by (metis diff_Suc_1 le_neq_implies_less)
    then show ?thesis using Suc.IH \<open>k \<le> i\<close> Suc.prems assms(2) by auto
  qed
qed (use assms(2) in simp)

section \<open>Properties\<close>

lemma DNSLink_label_roundtrip_parts:
  assumes "fqdn_ok fqdn" and "toDNSLinkDNSLabel fqdn = Inr label"
  shows "toDNSLinkFQDN label = fqdn" and "length label \<le> 63" and "CHR ''.'' \<notin> set label"
proof -
  show "toDNSLinkFQDN label = fqdn" using assms by (rule inline_roundtrip)
  show "length label \<le> 63"
    using assms(2) by (auto simp: toDNSLinkDNSLabel_def Let_def dnsLabelMaxLength_def split: if_splits)
  have "label = concat (map enc_char fqdn)"
    using assms(2) by (auto simp: toDNSLinkDNSLabel_def Let_def inline_enc split: if_splits)
  then show "CHR ''.'' \<notin> set label" by (auto simp: enc_char_def)
qed

text \<open>
  DNSLink names survive inlining.  A name without \<^verbatim>\<open>@\<close> whose labels are not empty and do not
  start with a dash is turned into a single DNS label of at most 63 characters, or refused; from
  the label the name is recovered exactly.
\<close>

theorem DNSLink_label_roundtrip:
  assumes "fqdn_ok fqdn" and "toDNSLinkDNSLabel fqdn = Inr label"
  shows "(toDNSLinkFQDN label = fqdn) \<and>
    (length label \<le> 63) \<and>
    (CHR ''.'' \<notin> set label)"
  using DNSLink_label_roundtrip_parts[OF assms] by blast

theorem DNSLink_label_roundtrip_witness: "toDNSLinkFQDN ''my-v--long-example-com'' = ''my.v-long.example.com''"
  by (rule conjunct1[OF DNSLink_label_roundtrip])
    (simp_all add: toDNSLinkDNSLabel_def dnsLabelMaxLength_def has_prefix_def)

lemma subdomain_roundtrip_parts:
  shows "knownSubdomainDetails hostname known = Ret (Some (gw, fqdn, ns, rootID)) \<Longrightarrow>
      hostname = rootID @ ''.'' @ ns @ ''.'' @ fqdn \<and> isKnownHostname fqdn known = Ret (Some gw) \<and> isSubdomainNamespace ns"
    and "\<lbrakk>isKnownHostname fqdn known = Ret (Some gw); isSubdomainNamespace ns;
      labels = split_on CHR ''.'' rootID @ ns # split_on CHR ''.'' fqdn;
      unambiguous known labels (length (split_on CHR ''.'' rootID) + 1)\<rbrakk> \<Longrightarrow>
      knownSubdomainDetails (rootID @ ''.'' @ ns @ ''.'' @ fqdn) known = Ret (Some (gw, fqdn, ns, rootID))"
proof -
  show "knownSubdomainDetails hostname known = Ret (Some (gw, fqdn, ns, rootID)) \<Longrightarrow>
      hostname = rootID @ ''.'' @ ns @ ''.'' @ fqdn \<and> isKnownHostname fqdn known = Ret (Some gw) \<and> isSubdomainNamespace ns"
    by (rule details_decompose)
next
  assume known: "isKnownHostname fqdn known = Ret (Some gw)" and ns: "isSubdomainNamespace ns"
    and labels: "labels = split_on CHR ''.'' rootID @ ns # split_on CHR ''.'' fqdn"
    and un: "unambiguous known labels (length (split_on CHR ''.'' rootID) + 1)"
  let ?n = "length (split_on CHR ''.'' rootID)"
  have "join_with ''.'' (ns # split_on CHR ''.'' fqdn) = ns @ ''.'' @ fqdn"
    by (simp add: join_with_Cons join_split_on)
  then have "join_with ''.'' labels = rootID @ ''.'' @ ns @ ''.'' @ fqdn"
    unfolding labels by (subst join_append) (simp_all add: join_split_on)
  moreover have nodot: "CHR ''.'' \<notin> set p" if "p \<in> set labels" for p
    using that ns by (auto simp: labels isSubdomainNamespace_def dest: split_on_no_sep)
  ultimately have split: "split_on CHR ''.'' (rootID @ ''.'' @ ns @ ''.'' @ fqdn) = labels"
    using split_join[of labels "CHR ''.''"] by (simp add: labels)
  have n: "0 < ?n" "0 < length (split_on CHR ''.'' fqdn)" by simp_all
  have dr: "drop (?n + 1) labels = split_on CHR ''.'' fqdn" "labels ! ?n = ns" "take ?n labels = split_on CHR ''.'' rootID"
    by (simp_all add: labels)
  have "details_loop known labels (length labels - 1) =
      Ret (Some (gw, join_with ''.'' (drop (?n + 1) labels), labels ! (?n + 1 - 1), join_with ''.'' (take (?n + 1 - 1) labels)))"
    using known ns n un
    by (intro details_loop_finds) (simp_all add: labels join_split_on Suc_le_eq)
  then show "knownSubdomainDetails (rootID @ ''.'' @ ns @ ''.'' @ fqdn) known = Ret (Some (gw, fqdn, ns, rootID))"
    unfolding knownSubdomainDetails_def split Let_def add_diff_cancel_right' dr by (simp only: join_split_on)
qed

text \<open>
  Subdomain hosts are read as they are written.  Whatever \<^verbatim>\<open>knownSubdomainDetails\<close> returns
  are the parts of the host, with a known gateway and a valid namespace; and a host made of a
  root, a namespace and a known gateway is split into exactly these parts, unless a shorter
  suffix of it is itself a known gateway after a namespace label.
\<close>

theorem subdomain_roundtrip:
  "((knownSubdomainDetails hostname known = Ret (Some (gw, fqdn, ns, rootID))) \<longrightarrow> (hostname = rootID @ ''.'' @ ns @ ''.'' @ fqdn \<and> isKnownHostname fqdn known = Ret (Some gw) \<and> isSubdomainNamespace ns)) \<and>
    ((isKnownHostname fqdn known = Ret (Some gw)) \<longrightarrow> (isSubdomainNamespace ns) \<longrightarrow> (labels = split_on CHR ''.'' rootID @ ns # split_on CHR ''.'' fqdn) \<longrightarrow> (unambiguous known labels (length (split_on CHR ''.'' rootID) + 1)) \<longrightarrow>
      knownSubdomainDetails (rootID @ ''.'' @ ns @ ''.'' @ fqdn) known = Ret (Some (gw, fqdn, ns, rootID)))"
  using subdomain_roundtrip_parts by blast

definition demo_hosts :: gatewayHosts where
  "demo_hosts = \<lparr>exact = [''dweb.link'' \<mapsto> subdomainGatewaySpec], wildcard = []\<rparr>"

lemma demo_known: "isKnownHostname ''dweb.link'' demo_hosts = Ret (Some subdomainGatewaySpec)"
  "isKnownHostname ''link'' demo_hosts = Ret None"
  by (simp_all add: isKnownHostname_def demo_hosts_def stripPort_def SplitHostPort_def)

theorem subdomain_roundtrip_witness:
  "knownSubdomainDetails ''dist.ipfs.tech.ipns.dweb.link'' demo_hosts =
   Ret (Some (subdomainGatewaySpec, ''dweb.link'', ''ipns'', ''dist.ipfs.tech''))"
  using conjunct2[OF subdomain_roundtrip, rule_format, OF demo_known(1) _ refl, of "''ipns''" "''dist.ipfs.tech''"]
  by (simp add: unambiguous_def isSubdomainNamespace_def less_Suc_eq demo_known)

lemma gateway_isolation_parts:
  assumes "HostnameOption e known noDNSLink r = RServe p loc ctx dnslink"
  shows "\<lbrakk>isKnownHostname (request_host r) known = Ret None;
      knownSubdomainDetails (request_host r) known = Ret (Some (gw, gwHostname, ns, rootID))\<rbrakk> \<Longrightarrow>
      UseSubdomains gw \<and> hasPrefix (''/'' @ ns @ ''/'' @ rootID) (Paths gw) \<and>
      (\<exists>root. p = ''/'' @ ns @ ''/'' @ root @ r_Path r \<and>
         (root = rootID \<or> ns = ''ipns'' \<and> cid_Decode e rootID = None \<and> CHR ''.'' \<notin> set rootID \<and> root = toDNSLinkFQDN rootID))"
    and "isKnownHostname (request_host r) known = Ret (Some gw) \<Longrightarrow>
      hasPrefix (r_Path r) (Paths gw) \<and> p = r_Path r \<or>
      \<not> NoDNSLink gw \<and> isDNSLinkName e (request_host r) \<and> p = ''/ipns/'' @ stripPort (request_host r) @ r_Path r"
proof -
  have dot: "CHR ''.'' \<notin> set s" if "\<not> contains_str s ''.''" for s
    using that by (induction s) (auto simp: has_prefix_def)
  show "UseSubdomains gw \<and> hasPrefix (''/'' @ ns @ ''/'' @ rootID) (Paths gw) \<and>
      (\<exists>root. p = ''/'' @ ns @ ''/'' @ root @ r_Path r \<and>
         (root = rootID \<or> ns = ''ipns'' \<and> cid_Decode e rootID = None \<and> CHR ''.'' \<notin> set rootID \<and> root = toDNSLinkFQDN rootID))"
    if "isKnownHostname (request_host r) known = Ret None"
      "knownSubdomainDetails (request_host r) known = Ret (Some (gw, gwHostname, ns, rootID))"
  proof -
    have s: "serve_subdomain e gw gwHostname ns rootID r = RServe p loc ctx dnslink"
      using assms that by (simp add: HostnameOption_def Let_def)
    have no: "cid_redirect e gwHostname ns rootID c b r \<noteq> Some (RServe p loc ctx dnslink)" for c b
      by (auto simp: cid_redirect_def Let_def split: sum.splits if_splits)
    show ?thesis
    proof (cases "cid_Decode e rootID")
      case None
      with s dot[of rootID] show ?thesis
        by (auto simp: serve_subdomain_def Let_def split: option.splits if_splits)
    next
      case (Some c)
      with s no[of c] show ?thesis
        by (auto simp: serve_subdomain_def Let_def split: option.splits if_splits)
    qed
  qed
  show "hasPrefix (r_Path r) (Paths gw) \<and> p = r_Path r \<or>
      \<not> NoDNSLink gw \<and> isDNSLinkName e (request_host r) \<and> p = ''/ipns/'' @ stripPort (request_host r) @ r_Path r"
    if "isKnownHostname (request_host r) known = Ret (Some gw)"
    using assms that
    by (auto simp: HostnameOption_def Let_def serve_known_def split: if_splits option.splits sum.splits)
qed

text \<open>
  C2. Isolation.  A request on a subdomain host is served only below its own root: the path passed
  on is the namespace and the root of the host (or, for an inlined DNSLink label, the name it
  stands for) followed by the requested path, on a gateway that uses subdomains and handles that
  path.  A request on a known gateway itself is served only under the gateway's paths, or as the
  DNSLink of the host when that is not disabled.
\<close>

theorem gateway_isolation:
  assumes "HostnameOption e known noDNSLink r = RServe p loc ctx dnslink"
  shows "((isKnownHostname (request_host r) known = Ret None) \<longrightarrow> (knownSubdomainDetails (request_host r) known = Ret (Some (gw, gwHostname, ns, rootID))) \<longrightarrow>
      UseSubdomains gw \<and> hasPrefix (''/'' @ ns @ ''/'' @ rootID) (Paths gw) \<and>
      (\<exists>root. p = ''/'' @ ns @ ''/'' @ root @ r_Path r \<and>
         (root = rootID \<or> ns = ''ipns'' \<and> cid_Decode e rootID = None \<and> CHR ''.'' \<notin> set rootID \<and> root = toDNSLinkFQDN rootID))) \<and>
    ((isKnownHostname (request_host r) known = Ret (Some gw)) \<longrightarrow> (hasPrefix (r_Path r) (Paths gw) \<and> p = r_Path r \<or>
      \<not> NoDNSLink gw \<and> isDNSLinkName e (request_host r) \<and> p = ''/ipns/'' @ stripPort (request_host r) @ r_Path r))"
  using gateway_isolation_parts[OF assms] by blast

definition demo_host_env :: host_env where
  "demo_host_env = \<lparr>cid_Decode = (\<lambda>s. if s = ''bafy'' then Some \<lparr>cid_Type = 112, cid_Hash = ''h''\<rparr> else None),
     StringOfBase = (\<lambda>_ _. Inr ''bafy''), Libp2pKey = 114, peer_Decode = (\<lambda>_. None), peer_ToCid = id,
     IsDomainName = (\<lambda>_. True), Resolve = (\<lambda>_. ResolveFailed), regexp_Compile = (\<lambda>_. None), ParseRequestURI = Inr\<rparr>"

definition demo_request :: "string \<Rightarrow> string \<Rightarrow> http_request" where
  "demo_request host fwd = \<lparr>r_Host = host, r_ForwardedHost = fwd, r_Path = ''/a'', r_Scheme = ''http'',
     r_ForwardedProto = [], r_RawQuery = []\<rparr>"

lemma demo_subdomain:
  "isKnownHostname ''bafy.ipfs.dweb.link'' demo_hosts = Ret None"
  "knownSubdomainDetails ''bafy.ipfs.dweb.link'' demo_hosts = Ret (Some (subdomainGatewaySpec, ''dweb.link'', ''ipfs'', ''bafy''))"
  by (simp_all add: isKnownHostname_def demo_hosts_def stripPort_def SplitHostPort_def knownSubdomainDetails_def
      isSubdomainNamespace_def)

lemmas demo_serve = HostnameOption_def request_host_def demo_request_def serve_subdomain_def subdomainGatewaySpec_def
  Flag_WithDefault_def flag_defs DefaultInlineDNSLink_def demo_host_env_def cid_redirect_def toDNSLabel_def
  dnsLabelMaxLength_def hasPrefix_def has_prefix_def trim_suffix_def has_suffix_def isPeerIDNamespace_def
  toSubdomainURL_def SplitN_def isHTTPSRequest_def isSubdomainNamespace_def subdomain_root_def NewCidV1_def
  isDomainNameAndNotPeerID_def

theorem gateway_isolation_witness:
  "HostnameOption demo_host_env demo_hosts False (demo_request ''bafy.ipfs.dweb.link'' []) =
     RServe ''/ipfs/bafy/a'' None (Some ''dweb.link'') None \<and> UseSubdomains subdomainGatewaySpec"
proof -
  have s: "HostnameOption demo_host_env demo_hosts False (demo_request ''bafy.ipfs.dweb.link'' []) =
     RServe ''/ipfs/bafy/a'' None (Some ''dweb.link'') None"
    using demo_subdomain by (simp add: demo_serve)
  have "request_host (demo_request ''bafy.ipfs.dweb.link'' []) = ''bafy.ipfs.dweb.link''"
    by (simp add: request_host_def demo_request_def)
  with conjunct1[OF gateway_isolation[OF s]] demo_subdomain s show ?thesis by metis
qed

text \<open>
  Labels fit.  When the root of a redirect is a CID, in any of the accepted spellings, or a
  DNSLink name to be inlined, the label put into the host is at most 63 characters long;
  otherwise the request is refused.
\<close>

theorem subdomain_label_fits:
  assumes "subdomain_root e inl isHTTPS ns rootID = Inr label"
    and "rootID' = (if isPeerIDNamespace ns \<and> \<not> isDomainNameAndNotPeerID e rootID then
           (case peer_Decode e rootID of Some p \<Rightarrow> peer_ToCid e p | None \<Rightarrow> rootID) else rootID)"
    and "cid_Decode e rootID' \<noteq> None \<or>
      (inl \<or> isHTTPS) \<and> ns = ''ipns'' \<and> contains_str rootID' ''.'' \<and> isDNSLinkName e rootID'"
  shows "length label \<le> 63"
proof -
  have d: "length l \<le> 63" if "toDNSLabel e s c = Inr l" for s c l
    using that by (auto simp: toDNSLabel_def dnsLabelMaxLength_def split: if_splits sum.splits)
  have i: "length l \<le> 63" if "toDNSLinkDNSLabel s = Inr l" for s l
    using that by (auto simp: toDNSLinkDNSLabel_def Let_def dnsLabelMaxLength_def split: if_splits)
  show ?thesis
    using assms(1,3) d i unfolding subdomain_root_def Let_def assms(2)[symmetric]
    by (auto split: option.splits sum.splits if_splits)
qed

theorem subdomain_label_fits_witness: "length ''bafy'' \<le> 63"
  by (rule subdomain_label_fits[of demo_host_env False False "''ipfs''" "''bafy''", OF _ refl])
    (simp_all add: demo_serve)

text \<open>
  A redirect loop behind a proxy.  The handler compares the canonical root with \<^verbatim>\<open>r.Host\<close>, not with
  the host it has taken from \<^verbatim>\<open>X-Forwarded-Host\<close>.  A request that is already canonical, but was
  forwarded under another \<^verbatim>\<open>Host\<close>, is answered with a permanent redirect to the very URL that was
  requested.
\<close>

theorem forwarded_redirect_loop:
  assumes "r_ForwardedHost r = rootID @ ''.'' @ ns @ ''.'' @ gwHostname"
    and "isKnownHostname (r_ForwardedHost r) known = Ret None"
    and "knownSubdomainDetails (r_ForwardedHost r) known = Ret (Some (gw, gwHostname, ns, rootID))"
    and "InlineDNSLink gw = 0" and "UseSubdomains gw" and "hasPrefix (''/'' @ ns @ ''/'' @ rootID) (Paths gw)"
    and "cid_Decode e rootID = Some c" and "length rootID \<le> 63" and "CHR ''/'' \<notin> set rootID"
    and "subdomain_root e False (isHTTPSRequest r) ns rootID = Inr rootID"
    and "\<not> has_prefix (r_Host r) rootID" and "r_Path r = ''/'' @ rest" and "r_RawQuery r = []"
    and "url = (if isHTTPSRequest r then ''https:'' else ''http:'') @ ''//'' @ r_ForwardedHost r @ r_Path r"
    and "ParseRequestURI e url = Inr url"
  shows "HostnameOption e known noDNSLink r = RRedirect url"
proof -
  have ns: "isSubdomainNamespace ns" using details_decompose[OF assms(3)] by simp
  then have nsl: "CHR ''/'' \<notin> set ns" by (auto simp: isSubdomainNamespace_def)
  have sp: "split_on CHR ''/'' (''/'' @ ns @ ''/'' @ rootID @ ''/'' @ rest) = [[], ns, rootID] @ split_on CHR ''/'' rest"
    using nsl assms(9) by (simp add: split_on_append)
  obtain q qs where q: "split_on CHR ''/'' rest = q # qs" using split_on_ne by (metis list.exhaust)
  have jn: "join_with ''/'' (q # qs) = rest" using join_split_on[of "CHR ''/''" rest] unfolding q .
  have parts: "SplitN CHR ''/'' 4 (''/'' @ ns @ ''/'' @ rootID @ ''/'' @ rest) = [[], ns, rootID, rest]"
    unfolding SplitN_def sp q using jn by (cases qs) (simp_all add: numeral_3_eq_3)
  have "toSubdomainURL e gwHostname (''/'' @ ns @ ''/'' @ rootID @ ''/'' @ rest) r False = Inr url"
    using ns assms(10,13,15) assms(1,12)
    unfolding toSubdomainURL_def parts assms(14) by (simp add: Let_def)
  moreover have "url \<noteq> []" using assms(14) by simp
  ultimately have "cid_redirect e gwHostname ns rootID c False r = Some (RRedirect url)"
    using assms(8,11,12) by (simp add: cid_redirect_def toDNSLabel_def dnsLabelMaxLength_def Let_def)
  then show ?thesis
    using assms(1-7) by (simp add: HostnameOption_def request_host_def serve_subdomain_def Flag_WithDefault_def flag_defs
        DefaultInlineDNSLink_def Let_def)
qed

theorem forwarded_redirect_loop_witness:
  "HostnameOption demo_host_env demo_hosts False (demo_request ''10.0.0.7'' ''bafy.ipfs.dweb.link'') =
   RRedirect ''http://bafy.ipfs.dweb.link/a''"
  by (rule forwarded_redirect_loop[where rootID = "''bafy''" and ns = "''ipfs''" and gwHostname = "''dweb.link''" and
        gw = subdomainGatewaySpec and c = "\<lparr>cid_Type = 112, cid_Hash = ''h''\<rparr>" and rest = "''a''"])
    (use demo_subdomain in \<open>simp_all add: demo_serve\<close>)

text \<open>
  An invalid wildcard crashes requests.  When the regular expression of a wildcard host name
  does not compile, the code logs a warning and keeps the entry with a nil expression; a request
  for a host that is not listed exactly then dereferences it.
\<close>

theorem invalid_wildcard_panics:
  assumes "contains_str hostname ''*''" and "regexp_Compile e (wildcard_regexp hostname) = None"
    and "known = prepareKnownGateways e [(hostname, Some gw)]"
    and "request_host r \<noteq> ''localhost''" and "stripPort (request_host r) \<noteq> ''localhost''"
  shows "HostnameOption e known noDNSLink r = RPanic"
  using assms
  by (simp add: HostnameOption_def prepareKnownGateways_def isKnownHostname_def defaultKnownGateways_def)

theorem invalid_wildcard_panics_witness:
  "HostnameOption demo_host_env (prepareKnownGateways demo_host_env [(''*.(.io'', Some subdomainGatewaySpec)]) False
     (demo_request ''x.io'' []) = RPanic"
  by (rule invalid_wildcard_panics[OF _ _ refl])
    (simp_all add: has_prefix_def demo_host_env_def request_host_def demo_request_def stripPort_def SplitHostPort_def)

end
