(* ===== verification/ConfigStruct.thy ===== *)
theory ConfigStruct
  imports Prelude
begin

text \<open>
  Parts of the configuration structure that the profiles, the configuration commands and remote pinning read or write:
  \<^verbatim>\<open>src/config/{addresses,autonat,swarm,remotepin}.go\<close>.  Optional values are options, durations are nanoseconds, and a
  \<^verbatim>\<open>Strings\<close> is a list of strings.
\<close>

record Addresses =
  addr_Swarm :: "string list"
  addr_Announce :: "string list"
  addr_AppendAnnounce :: "string list"
  addr_NoAnnounce :: "string list"
  addr_API :: "string list"
  addr_Gateway :: "string list"

datatype AutoNATServiceMode = AutoNATServiceUnset | AutoNATServiceEnabled | AutoNATServiceDisabled

text \<open>The texts of a mode; \<open>Inl\<close> is the error for another text.\<close>

definition AutoNAT_UnmarshalText :: "string \<Rightarrow> string + AutoNATServiceMode" where
  "AutoNAT_UnmarshalText text =
     (if text = [] then Inr AutoNATServiceUnset
      else if text = ''enabled'' then Inr AutoNATServiceEnabled
      else if text = ''disabled'' then Inr AutoNATServiceDisabled
      else Inl (''unknown autonat mode: '' @ text))"

fun AutoNAT_MarshalText :: "AutoNATServiceMode \<Rightarrow> string" where
  "AutoNAT_MarshalText AutoNATServiceUnset = []"
| "AutoNAT_MarshalText AutoNATServiceEnabled = ''enabled''"
| "AutoNAT_MarshalText AutoNATServiceDisabled = ''disabled''"

lemma AutoNAT_text_roundtrip:
  "AutoNAT_UnmarshalText (AutoNAT_MarshalText m) = Inr m"
  "AutoNAT_UnmarshalText t = Inr m \<Longrightarrow> AutoNAT_MarshalText m = t"
  by (cases m; auto simp: AutoNAT_UnmarshalText_def split: if_splits)+

record ConnMgr =
  cm_Type :: "string option"
  cm_LowWater :: "int option"
  cm_HighWater :: "int option"
  cm_GracePeriod :: "int option"

record RemotePinningService =
  api_Endpoint :: string
  api_Key :: string
  mfs_Enable :: bool
  mfs_PinName :: string
  mfs_RepinInterval :: string

end
