(* ===== verification/FSRepo.thy ===== *)
theory FSRepo
  imports Datastores ConfigStruct
begin

text \<open>
  The repository on disk: \<^verbatim>\<open>src/repo/fsrepo/fsrepo.go\<close>, with the configuration file
  (\<^verbatim>\<open>src/config/serialize/serialize.go\<close>, the path functions and map conversions of
  \<^verbatim>\<open>src/config/config.go\<close>), the version file (\<^verbatim>\<open>src/repo/fsrepo/migrations/ipfsdir.go\<close>) and the
  write test of \<^verbatim>\<open>src/thirdparty/dir/dir.go\<close>.

  The operating system is the contents of files, the locks held and the datastores open.  Every
  system call may fail: \<open>fault\<close> answers for each call and file.  \<^verbatim>\<open>encoding/json\<close> on maps and on the
  configuration structure, home directories, path cleaning, the lock and the atomic file of other
  packages are fields of \<open>repo_env\<close>; what the code relies on is in \<open>codec_ok\<close>, \<open>lock_ok\<close> and
  \<open>commit_ok\<close>.  Of the configuration structure the model keeps the fields
  that the modelled code reads or writes; \<open>other_fields\<close> stands for the rest.
\<close>

type_synonym path = string

record osys =
  os_files :: "path \<rightharpoonup> string"
  os_locks :: "path set"
  os_stores :: "store list"

datatype io_op =
  IoMkdirAll | IoAtomicNew | IoCreate | IoWrite | IoClose | IoRename | IoRemove | IoRemoveDeferred | IoOpen | IoRead
| IoStat | IoWriteFile | IoKeystore | IoMkdirTemp | IoChmod

datatype fsrepo_error =
  ErrNoVersion | ErrOldRepo | ErrNeedMigration | ProgramTooLow int int | NoRepoError path | ErrNotInitialized
| ErrApiNotRunning | ApiFileTooLarge path | Io string | NotExist path | DecodeFailed string | EncodeFailed string
| InvalidVersion | NotWritable path | OldStyleDatastore | SpecMissing | SpecMismatch string string
| DatastoreError ds_error | DatastorePanic | RepoClosed | ConfigNotOpen | KeyError kv_error | RenameAndRemove string fsrepo_error

record 'n Config =
  ds_Type :: string
  ds_Path :: string
  ds_Spec :: "'n jmap option"
  FilestoreEnabled :: bool
  UrlstoreEnabled :: bool
  Bootstrap :: "string list"
  Identity_PeerID :: string
  Identity_PrivKey :: string
  cfg_Addresses :: Addresses
  Swarm_AddrFilters :: "string list"
  Swarm_DisableNatPortMap :: bool
  Swarm_ConnMgr :: ConnMgr
  MDNS_Enabled :: bool
  Routing_Type :: string
  AutoNAT_ServiceMode :: AutoNATServiceMode
  Reprovider_Interval :: string
  RemoteServices :: "(string \<times> RemotePinningService) list"
  other_fields :: string

record 'n repo_env =
  fault :: "io_op \<Rightarrow> path \<Rightarrow> string option"
  partial_write :: "string \<Rightarrow> string"
  atomic_Close :: "path \<Rightarrow> string \<Rightarrow> (path \<rightharpoonup> string) \<Rightarrow> (path \<rightharpoonup> string)"
  Lock :: "path \<Rightarrow> path set \<Rightarrow> string option"
  Unlock :: "path \<Rightarrow> string option"
  FileExists :: "(path \<rightharpoonup> string) \<Rightarrow> path \<Rightarrow> bool"
  Expand :: "path \<Rightarrow> string + path"
  HomeDir :: "string + path"
  IPFS_PATH :: string
  Clean :: "path \<Rightarrow> path"
  Dir :: "path \<Rightarrow> path"
  TempName :: "path \<Rightarrow> string \<Rightarrow> (path \<rightharpoonup> string) \<Rightarrow> string + path"
  ma_New :: "string \<Rightarrow> string + string"
  dsenv :: ds_env
  opens :: "store \<Rightarrow> string option"
  ds_Close :: "store \<Rightarrow> string option"
  dec_map :: "string \<Rightarrow> string + 'n jmap"
  dec_conf :: "string \<Rightarrow> string + 'n Config"
  enc_map :: "'n jmap \<Rightarrow> string + string"
  enc_conf :: "'n Config \<Rightarrow> string + string"
  indent_map :: "'n jmap \<Rightarrow> string + string"
  indent_conf :: "'n Config \<Rightarrow> string + string"
  enc_spec :: "spec option \<Rightarrow> string"

abbreviation join :: "'n repo_env \<Rightarrow> path \<Rightarrow> path \<Rightarrow> path" where
  "join e \<equiv> Join (dsenv e)"

section \<open>Text\<close>

text \<open>\<^verbatim>\<open>strings.TrimSpace\<close>, for the white space of ASCII.\<close>

definition is_space :: "char \<Rightarrow> bool" where
  "is_space c \<longleftrightarrow> c \<in> {CHR 0x09, CHR 0x0A, CHR 0x0B, CHR 0x0C, CHR 0x0D, CHR '' ''}"

definition TrimSpace :: "string \<Rightarrow> string" where
  "TrimSpace s = rev (dropWhile is_space (rev (dropWhile is_space s)))"

text \<open>\<^verbatim>\<open>strings.Replace(s, old, new, 1)\<close> for a non-empty \<^verbatim>\<open>old\<close>.\<close>

fun replace_first :: "string \<Rightarrow> string \<Rightarrow> string \<Rightarrow> string" where
  "replace_first old new [] = []"
| "replace_first old new (c # s) =
     (if has_prefix (c # s) old then new @ drop (length old) (c # s) else c # replace_first old new s)"

text \<open>Decimal numbers: \<^verbatim>\<open>%d\<close> and \<^verbatim>\<open>strconv.Atoi\<close>.\<close>

definition digit :: "nat \<Rightarrow> char" where
  "digit d = char_of (48 + d)"

fun digits :: "nat \<Rightarrow> string" where
  "digits n = (if n < 10 then [digit n] else digits (n div 10) @ [digit (n mod 10)])"

definition show_int :: "int \<Rightarrow> string" where
  "show_int i = (if i < 0 then CHR ''-'' # digits (nat (- i)) else digits (nat i))"

fun read_digits :: "nat \<Rightarrow> string \<Rightarrow> nat option" where
  "read_digits acc [] = Some acc"
| "read_digits acc (c # s) =
     (let d = of_char c in if 48 \<le> d \<and> d \<le> (57::nat) then read_digits (10 * acc + (d - 48)) s else None)"

definition Atoi :: "string \<Rightarrow> int option" where
  "Atoi s =
     (let (neg, ds) = (case s of CHR ''-'' # t \<Rightarrow> (True, t) | CHR ''+'' # t \<Rightarrow> (False, t) | _ \<Rightarrow> (False, s)) in
      if ds = [] then None
      else case read_digits 0 ds of
             None \<Rightarrow> None
           | Some n \<Rightarrow>
               (let i = (if neg then - int n else int n)
                in if - (2 ^ 63) \<le> i \<and> i < 2 ^ 63 then Some i else None))"

section \<open>Configuration paths\<close>

definition PathRoot :: "'n repo_env \<Rightarrow> fsrepo_error + path" where
  "PathRoot e =
     (if IPFS_PATH e = [] then (case Expand e ''~/.ipfs'' of Inl err \<Rightarrow> Inl (Io err) | Inr d \<Rightarrow> Inr d)
      else Inr (IPFS_PATH e))"

definition config_Path :: "'n repo_env \<Rightarrow> path \<Rightarrow> path \<Rightarrow> fsrepo_error + path" where
  "config_Path e configroot extension =
     (if configroot = [] then (case PathRoot e of Inl err \<Rightarrow> Inl err | Inr d \<Rightarrow> Inr (join e d extension))
      else Inr (join e configroot extension))"

definition Filename :: "'n repo_env \<Rightarrow> path \<Rightarrow> path \<Rightarrow> fsrepo_error + path" where
  "Filename e configroot userConfigFile =
     (if userConfigFile = [] then config_Path e configroot ''config''
      else if Dir e userConfigFile = ''.'' then config_Path e configroot userConfigFile
      else Inr userConfigFile)"

section \<open>The configuration file\<close>

definition os_Open :: "'n repo_env \<Rightarrow> path \<Rightarrow> osys \<Rightarrow> fsrepo_error + string" where
  "os_Open e p w =
     (case fault e IoOpen p of
        Some err \<Rightarrow> Inl (Io err)
      | None \<Rightarrow> (case os_files w p of None \<Rightarrow> Inl (NotExist p) | Some c \<Rightarrow> Inr c))"

definition os_ReadFile :: "'n repo_env \<Rightarrow> path \<Rightarrow> osys \<Rightarrow> fsrepo_error + string" where
  "os_ReadFile e p w =
     (case os_Open e p w of
        Inl err \<Rightarrow> Inl err
      | Inr c \<Rightarrow> (case fault e IoRead p of Some err \<Rightarrow> Inl (Io err) | None \<Rightarrow> Inr c))"

definition IsNotExist :: "fsrepo_error \<Rightarrow> bool" where
  "IsNotExist err = (case err of NotExist _ \<Rightarrow> True | _ \<Rightarrow> False)"

text \<open>\<open>decode\<close> is \<^verbatim>\<open>Decode\<close> into the type of the argument; a failing read fails the decoder.\<close>

definition ReadConfigFile :: "'n repo_env \<Rightarrow> (string \<Rightarrow> string + 'a) \<Rightarrow> path \<Rightarrow> osys \<Rightarrow> fsrepo_error + 'a" where
  "ReadConfigFile e decode filename w =
     (case os_Open e filename w of
        Inl err \<Rightarrow> Inl (if IsNotExist err then ErrNotInitialized else err)
      | Inr c \<Rightarrow>
          (case fault e IoRead filename of
             Some err \<Rightarrow> Inl (DecodeFailed err)
           | None \<Rightarrow> (case decode c of Inl err \<Rightarrow> Inl (DecodeFailed err) | Inr v \<Rightarrow> Inr v)))"

text \<open>
  \<^verbatim>\<open>WriteConfigFile\<close> defers the \<^verbatim>\<open>Close\<close> of the atomic file, which moves whatever has been written
  into place, also when \<^verbatim>\<open>encode\<close> fails, and drops its error.
\<close>

definition WriteConfigFile :: "'n repo_env \<Rightarrow> path \<Rightarrow> string + string \<Rightarrow> osys \<Rightarrow> fsrepo_error option \<times> osys" where
  "WriteConfigFile e filename marshalled w =
     (let done = (\<lambda>c. w\<lparr>os_files := atomic_Close e filename c (os_files w)\<rparr>) in
      case fault e IoMkdirAll (Dir e filename) of
        Some err \<Rightarrow> (Some (Io err), w)
      | None \<Rightarrow>
     (case fault e IoAtomicNew filename of
        Some err \<Rightarrow> (Some (Io err), w)
      | None \<Rightarrow>
     (case marshalled of
        Inl err \<Rightarrow> (Some (EncodeFailed err), done [])
      | Inr buf \<Rightarrow>
          (case fault e IoWrite filename of
             Some err \<Rightarrow> (Some (Io err), done (partial_write e buf))
           | None \<Rightarrow> (None, done buf)))))"

definition serialize_Load :: "'n repo_env \<Rightarrow> path \<Rightarrow> osys \<Rightarrow> fsrepo_error + 'n Config" where
  "serialize_Load e filename w = ReadConfigFile e (dec_conf e) filename w"

definition FromMap :: "'n repo_env \<Rightarrow> 'n jmap \<Rightarrow> fsrepo_error + 'n Config" where
  "FromMap e v =
     (case enc_map e v of
        Inl err \<Rightarrow> Inl (EncodeFailed err)
      | Inr buf \<Rightarrow> (case dec_conf e buf of Inl err \<Rightarrow> Inl (DecodeFailed err) | Inr conf \<Rightarrow> Inr conf))"

definition ToMap :: "'n repo_env \<Rightarrow> 'n Config \<Rightarrow> fsrepo_error + 'n jmap" where
  "ToMap e conf =
     (case enc_conf e conf of
        Inl err \<Rightarrow> Inl (EncodeFailed err)
      | Inr buf \<Rightarrow> (case dec_map e buf of Inl err \<Rightarrow> Inl (DecodeFailed err) | Inr m \<Rightarrow> Inr m))"

section \<open>The version file\<close>

definition IpfsDir :: "'n repo_env \<Rightarrow> path \<Rightarrow> fsrepo_error + path" where
  "IpfsDir e dir =
     (let dir = (if dir = [] then IPFS_PATH e else dir) in
      if dir \<noteq> [] then (case Expand e dir of Inl err \<Rightarrow> Inl (Io err) | Inr d \<Rightarrow> Inr d)
      else (case HomeDir e of
              Inl err \<Rightarrow> Inl (Io err)
            | Inr home \<Rightarrow>
                if home = [] then Inl (Io ''could not determine IPFS_PATH, home dir not set'')
                else Inr (join e home ''.ipfs'')))"

definition CheckIpfsDir :: "'n repo_env \<Rightarrow> path \<Rightarrow> fsrepo_error + path" where
  "CheckIpfsDir e dir =
     (case IpfsDir e dir of
        Inl err \<Rightarrow> Inl err
      | Inr d \<Rightarrow> (case fault e IoStat d of Some err \<Rightarrow> Inl (Io err) | None \<Rightarrow> Inr d))"

definition repoVersion :: "'n repo_env \<Rightarrow> path \<Rightarrow> osys \<Rightarrow> fsrepo_error + int" where
  "repoVersion e ipfsDir w =
     (case os_ReadFile e (join e ipfsDir ''version'') w of
        Inl err \<Rightarrow> Inl err
      | Inr c \<Rightarrow> (case Atoi (TrimSpace c) of None \<Rightarrow> Inl InvalidVersion | Some ver \<Rightarrow> Inr ver))"

definition read_RepoVersion :: "'n repo_env \<Rightarrow> path \<Rightarrow> osys \<Rightarrow> fsrepo_error + int" where
  "read_RepoVersion e ipfsDir w =
     (case CheckIpfsDir e ipfsDir of Inl err \<Rightarrow> Inl err | Inr d \<Rightarrow> repoVersion e d w)"

text \<open>\<^verbatim>\<open>os.WriteFile\<close> truncates the file before it writes.\<close>

definition os_WriteFile :: "'n repo_env \<Rightarrow> path \<Rightarrow> string \<Rightarrow> osys \<Rightarrow> fsrepo_error option \<times> osys" where
  "os_WriteFile e p c w =
     (case fault e IoCreate p of
        Some err \<Rightarrow> (Some (Io err), w)
      | None \<Rightarrow>
          (case fault e IoWrite p of
             Some err \<Rightarrow> (Some (Io err), w\<lparr>os_files := (os_files w)(p \<mapsto> partial_write e c)\<rparr>)
           | None \<Rightarrow> (None, w\<lparr>os_files := (os_files w)(p \<mapsto> c)\<rparr>)))"

definition WriteRepoVersion :: "'n repo_env \<Rightarrow> path \<Rightarrow> int \<Rightarrow> osys \<Rightarrow> fsrepo_error option \<times> osys" where
  "WriteRepoVersion e ipfsDir version w =
     (case IpfsDir e ipfsDir of
        Inl err \<Rightarrow> (Some err, w)
      | Inr d \<Rightarrow> os_WriteFile e (join e d ''version'') (show_int version @ [CHR 0x0A]) w)"

section \<open>Initialisation\<close>

definition RepoVersion :: int where
  "RepoVersion = 12"

definition configIsInitialized :: "'n repo_env \<Rightarrow> path \<Rightarrow> osys \<Rightarrow> bool" where
  "configIsInitialized e path w =
     (case Filename e path [] of Inl _ \<Rightarrow> False | Inr fn \<Rightarrow> FileExists e (os_files w) fn)"

definition checkInitialized :: "'n repo_env \<Rightarrow> path \<Rightarrow> osys \<Rightarrow> fsrepo_error option" where
  "checkInitialized e path w =
     (if \<not> configIsInitialized e path w then
        (let alt = replace_first ''.ipfs'' ''.go-ipfs'' path in
         if configIsInitialized e alt w then Some ErrOldRepo else Some (NoRepoError path))
      else None)"

definition initConfig :: "'n repo_env \<Rightarrow> path \<Rightarrow> 'n Config \<Rightarrow> osys \<Rightarrow> fsrepo_error option \<times> osys" where
  "initConfig e path conf w =
     (if configIsInitialized e path w then (None, w)
      else (case Filename e path [] of
              Inl err \<Rightarrow> (Some err, w)
            | Inr fn \<Rightarrow> WriteConfigFile e fn (indent_conf e conf) w))"

text \<open>\<^verbatim>\<open>DiskSpec.Bytes\<close>; \<^verbatim>\<open>String\<close> is the same text.\<close>

definition spec_text :: "'n repo_env \<Rightarrow> dsconfig \<Rightarrow> string" where
  "spec_text e dsc = TrimSpace (enc_spec e (DiskSpec dsc))"

definition initSpec :: "'n repo_env \<Rightarrow> path \<Rightarrow> 'n jmap \<Rightarrow> osys \<Rightarrow> fsrepo_error option \<times> osys" where
  "initSpec e path conf w =
     (case config_Path e path ''datastore_spec'' of
        Inl err \<Rightarrow> (Some err, w)
      | Inr fn \<Rightarrow>
          if FileExists e (os_files w) fn then (None, w)
          else (case AnyDatastoreConfig (dsenv e) conf of
                  Error err \<Rightarrow> (Some (DatastoreError err), w)
                | Panic \<Rightarrow> (Some DatastorePanic, w)
                | Ok dsc \<Rightarrow> os_WriteFile e fn (spec_text e dsc) w))"

text \<open>A missing specification is the nil map, which has no entries.\<close>

definition Init :: "'n repo_env \<Rightarrow> path \<Rightarrow> 'n Config \<Rightarrow> osys \<Rightarrow> fsrepo_error option \<times> osys" where
  "Init e repoPath conf w =
     (if configIsInitialized e repoPath w then (None, w)
      else
        (case initConfig e repoPath conf w of
           (Some err, w) \<Rightarrow> (Some err, w)
         | (None, w) \<Rightarrow>
        (case initSpec e repoPath (case ds_Spec conf of None \<Rightarrow> [] | Some m \<Rightarrow> m) w of
           (Some err, w) \<Rightarrow> (Some err, w)
         | (None, w) \<Rightarrow> WriteRepoVersion e repoPath RepoVersion w)))"

section \<open>Opening\<close>

record 'n FSRepo =
  fr_closed :: bool
  fr_path :: path
  configFilePath :: path
  fr_config :: "'n Config"
  fr_ds :: store
  fr_filemgr :: "(bool \<times> bool) option"

definition newFSRepo :: "'n repo_env \<Rightarrow> path \<Rightarrow> path \<Rightarrow> fsrepo_error + (path \<times> path)" where
  "newFSRepo e rpath userConfigFilePath =
     (case Expand e (Clean e rpath) of
        Inl err \<Rightarrow> Inl (Io err)
      | Inr expPath \<Rightarrow>
          (case Filename e rpath userConfigFilePath of Inl err \<Rightarrow> Inl err | Inr cfp \<Rightarrow> Inr (expPath, cfp)))"

text \<open>\<^verbatim>\<open>dir.Writable\<close>: a file is created and removed again.  The error of the removal is dropped.\<close>

definition Writable :: "'n repo_env \<Rightarrow> path \<Rightarrow> osys \<Rightarrow> fsrepo_error option \<times> osys" where
  "Writable e path w =
     (let f = join e path ''._check_writable'' in
      case fault e IoMkdirAll path of
        Some err \<Rightarrow> (Some (Io err), w)
      | None \<Rightarrow>
          (case fault e IoCreate f of
             Some err \<Rightarrow> (Some (NotWritable path), w)
           | None \<Rightarrow>
               (None, w\<lparr>os_files := (os_files w)(f := (if fault e IoRemove f = None then None else Some []))\<rparr>)))"

definition readSpec :: "'n repo_env \<Rightarrow> path \<Rightarrow> osys \<Rightarrow> fsrepo_error + string" where
  "readSpec e path w =
     (case config_Path e path ''datastore_spec'' of
        Inl err \<Rightarrow> Inl err
      | Inr fn \<Rightarrow> (case os_ReadFile e fn w of Inl err \<Rightarrow> Inl err | Inr b \<Rightarrow> Inr (TrimSpace b)))"

definition openDatastore :: "'n repo_env \<Rightarrow> path \<Rightarrow> 'n Config \<Rightarrow> osys \<Rightarrow> (fsrepo_error + store) \<times> osys" where
  "openDatastore e path conf w =
     (if ds_Type conf \<noteq> [] \<or> ds_Path conf \<noteq> [] then (Inl OldStyleDatastore, w)
      else (case ds_Spec conf of
        None \<Rightarrow> (Inl SpecMissing, w)
      | Some spec \<Rightarrow>
     (case AnyDatastoreConfig (dsenv e) spec of
        Error err \<Rightarrow> (Inl (DatastoreError err), w)
      | Panic \<Rightarrow> (Inl DatastorePanic, w)
      | Ok dsc \<Rightarrow>
     (case readSpec e path w of
        Inl err \<Rightarrow> (Inl err, w)
      | Inr oldSpec \<Rightarrow>
          if oldSpec \<noteq> spec_text e dsc then (Inl (SpecMismatch oldSpec (spec_text e dsc)), w)
          else (case Create (dsenv e) (opens e) path dsc of
                  Error err \<Rightarrow> (Inl (DatastoreError err), w)
                | Panic \<Rightarrow> (Inl DatastorePanic, w)
                | Ok d \<Rightarrow>
                    (let s = MeasureS ''ipfs.fsrepo.datastore'' d
                     in (Inr s, w\<lparr>os_stores := s # os_stores w\<rparr>)))))))"

definition openKeystore :: "'n repo_env \<Rightarrow> path \<Rightarrow> fsrepo_error option" where
  "openKeystore e path = map_option Io (fault e IoKeystore (join e path ''keystore''))"

text \<open>What \<^verbatim>\<open>open\<close> does while it holds the lock.\<close>

definition open_locked :: "'n repo_env \<Rightarrow> path \<Rightarrow> path \<Rightarrow> osys \<Rightarrow> (fsrepo_error + 'n FSRepo) \<times> osys" where
  "open_locked e path cfp w =
     (case read_RepoVersion e path w of
        Inl err \<Rightarrow> (Inl (if IsNotExist err then ErrNoVersion else err), w)
      | Inr ver \<Rightarrow>
     if RepoVersion > ver then (Inl ErrNeedMigration, w)
     else if ver > RepoVersion then (Inl (ProgramTooLow RepoVersion ver), w)
     else
     (case Writable e path w of
        (Some err, w) \<Rightarrow> (Inl err, w)
      | (None, w) \<Rightarrow>
     (case serialize_Load e cfp w of
        Inl err \<Rightarrow> (Inl err, w)
      | Inr conf \<Rightarrow>
     (case openDatastore e path conf w of
        (Inl err, w) \<Rightarrow> (Inl err, w)
      | (Inr d, w) \<Rightarrow>
     (case openKeystore e path of
        Some err \<Rightarrow> (Inl err, w)
      | None \<Rightarrow>
          (Inr \<lparr>fr_closed = False, fr_path = path, configFilePath = cfp, fr_config = conf, fr_ds = d,
                fr_filemgr = (if FilestoreEnabled conf \<or> UrlstoreEnabled conf
                              then Some (FilestoreEnabled conf, UrlstoreEnabled conf) else None)\<rparr>, w))))))"

definition release :: "'n repo_env \<Rightarrow> path \<Rightarrow> osys \<Rightarrow> fsrepo_error option \<times> osys" where
  "release e path w =
     (case Unlock e path of
        Some err \<Rightarrow> (Some (Io err), w)
      | None \<Rightarrow> (None, w\<lparr>os_locks := os_locks w - {path}\<rparr>))"

definition open_repo :: "'n repo_env \<Rightarrow> path \<Rightarrow> path \<Rightarrow> osys \<Rightarrow> (fsrepo_error + 'n FSRepo) \<times> osys" where
  "open_repo e repoPath userConfigFilePath w =
     (case newFSRepo e repoPath userConfigFilePath of
        Inl err \<Rightarrow> (Inl err, w)
      | Inr (path, cfp) \<Rightarrow>
     (case checkInitialized e path w of
        Some err \<Rightarrow> (Inl err, w)
      | None \<Rightarrow>
     (case Lock e path (os_locks w) of
        Some err \<Rightarrow> (Inl (Io err), w)
      | None \<Rightarrow>
     (case open_locked e path cfp (w\<lparr>os_locks := insert path (os_locks w)\<rparr>) of
        (Inr r, w) \<Rightarrow> (Inr r, w)
      | (Inl err, w) \<Rightarrow> (Inl err, snd (release e path w))))))"

section \<open>Closing\<close>

definition os_Remove :: "'n repo_env \<Rightarrow> io_op \<Rightarrow> path \<Rightarrow> osys \<Rightarrow> fsrepo_error option \<times> osys" where
  "os_Remove e how p w =
     (case fault e how p of
        Some err \<Rightarrow> (Some (Io err), w)
      | None \<Rightarrow>
          if os_files w p = None then (Some (NotExist p), w)
          else (None, w\<lparr>os_files := (os_files w)(p := None)\<rparr>))"

definition FSRepo_Close :: "'n repo_env \<Rightarrow> 'n FSRepo \<Rightarrow> osys \<Rightarrow> fsrepo_error option \<times> 'n FSRepo \<times> osys" where
  "FSRepo_Close e r w =
     (if fr_closed r then (Some RepoClosed, r, w)
      else
        (let w = snd (os_Remove e IoRemove (join e (fr_path r) ''api'') w);
             w = snd (os_Remove e IoRemove (join e (fr_path r) ''gateway'') w)
         in case ds_Close e (fr_ds r) of
              Some err \<Rightarrow> (Some (Io err), r, w)
            | None \<Rightarrow>
                (case release e (fr_path r) (w\<lparr>os_stores := remove1 (fr_ds r) (os_stores w)\<rparr>) of
                   (err, w) \<Rightarrow> (err, r\<lparr>fr_closed := True\<rparr>, w))))"

section \<open>Configuration\<close>

definition FSRepo_Config :: "'n FSRepo \<Rightarrow> fsrepo_error + 'n Config" where
  "FSRepo_Config r = (if fr_closed r then Inl ConfigNotOpen else Inr (fr_config r))"

text \<open>The name returned is that of the original file.\<close>

definition BackupConfig :: "'n repo_env \<Rightarrow> 'n FSRepo \<Rightarrow> string \<Rightarrow> osys \<Rightarrow> (fsrepo_error + path) \<times> osys" where
  "BackupConfig e r pre w =
     (case TempName e (fr_path r) (''config-'' @ pre) (os_files w) of
        Inl err \<Rightarrow> (Inl (Io err), w)
      | Inr temp \<Rightarrow>
          (let w = w\<lparr>os_files := (os_files w)(temp \<mapsto> [])\<rparr> in
           case os_Open e (configFilePath r) w of
             Inl err \<Rightarrow> (Inl err, w)
           | Inr c \<Rightarrow>
               (case fault e IoWrite temp of
                  Some err \<Rightarrow> (Inl (Io err), w\<lparr>os_files := (os_files w)(temp \<mapsto> partial_write e c)\<rparr>)
                | None \<Rightarrow> (Inr (configFilePath r), w\<lparr>os_files := (os_files w)(temp \<mapsto> c)\<rparr>))))"

definition SetConfig ::
    "'n repo_env \<Rightarrow> 'n FSRepo \<Rightarrow> 'n Config \<Rightarrow> osys \<Rightarrow> fsrepo_error option \<times> 'n FSRepo \<times> osys" where
  "SetConfig e r updated w =
     (case ReadConfigFile e (dec_map e) (configFilePath r) w of
        Inl err \<Rightarrow> (Some err, r, w)
      | Inr mapconf \<Rightarrow>
     (case ToMap e updated of
        Inl err \<Rightarrow> (Some err, r, w)
      | Inr m \<Rightarrow>
     (case WriteConfigFile e (configFilePath r) (indent_map e (MapMergeDeep mapconf m)) w of
        (Some err, w) \<Rightarrow> (Some err, r, w)
      | (None, w) \<Rightarrow> (None, r\<lparr>fr_config := updated\<rparr>, w))))"

definition GetConfigKey :: "'n repo_env \<Rightarrow> 'n FSRepo \<Rightarrow> string \<Rightarrow> osys \<Rightarrow> fsrepo_error + 'n json" where
  "GetConfigKey e r key w =
     (if fr_closed r then Inl RepoClosed
      else (case ReadConfigFile e (dec_map e) (configFilePath r) w of
              Inl err \<Rightarrow> Inl err
            | Inr cfg \<Rightarrow> (case MapGetKV cfg key of Inl err \<Rightarrow> Inl (KeyError err) | Inr v \<Rightarrow> Inr v)))"

definition PrivKeySelector :: string where
  "PrivKeySelector = ''Identity.PrivKey''"

text \<open>The map that \<^verbatim>\<open>MapSetKV\<close> has changed.\<close>

definition obj_of :: "'n json \<Rightarrow> 'n jmap" where
  "obj_of j = (case j of JObj m \<Rightarrow> m | _ \<Rightarrow> [])"

definition SetConfigKey ::
    "'n repo_env \<Rightarrow> 'n FSRepo \<Rightarrow> string \<Rightarrow> 'n json \<Rightarrow> osys \<Rightarrow> fsrepo_error option \<times> 'n FSRepo \<times> osys" where
  "SetConfigKey e r key val w =
     (if fr_closed r then (Some RepoClosed, r, w)
      else (case ReadConfigFile e (dec_map e) (configFilePath r) w of
        Inl err \<Rightarrow> (Some err, r, w)
      | Inr mapconf \<Rightarrow>
     (case MapGetKV mapconf PrivKeySelector of
        Inl err \<Rightarrow> (Some (KeyError err), r, w)
      | Inr pkval \<Rightarrow>
     (case MapSetKV mapconf key val of
        (Some err, _) \<Rightarrow> (Some (KeyError err), r, w)
      | (None, j1) \<Rightarrow>
     (case MapSetKV (obj_of j1) PrivKeySelector pkval of
        (Some err, _) \<Rightarrow> (Some (KeyError err), r, w)
      | (None, j2) \<Rightarrow>
     (case FromMap e (obj_of j2) of
        Inl err \<Rightarrow> (Some err, r, w)
      | Inr conf \<Rightarrow>
          (case WriteConfigFile e (configFilePath r) (indent_map e (obj_of j2)) w of
             (err, w) \<Rightarrow> (err, r\<lparr>fr_config := conf\<rparr>, w))))))))"

section \<open>Addresses and keys\<close>

definition APIAddr :: "'n repo_env \<Rightarrow> path \<Rightarrow> osys \<Rightarrow> fsrepo_error + string" where
  "APIAddr e repoPath w =
     (let apiFilePath = join e (Clean e repoPath) ''api'' in
      case os_Open e apiFilePath w of
        Inl err \<Rightarrow> Inl (if IsNotExist err then ErrApiNotRunning else err)
      | Inr c \<Rightarrow>
          (case fault e IoRead apiFilePath of
             Some err \<Rightarrow> Inl (Io err)
           | None \<Rightarrow>
               (let buf = take 2048 c in
                if length buf = 2048 then Inl (ApiFileTooLarge apiFilePath)
                else (case ma_New e (TrimSpace buf) of Inl err \<Rightarrow> Inl (Io err) | Inr a \<Rightarrow> Inr a))))"

definition SetAPIAddr :: "'n repo_env \<Rightarrow> 'n FSRepo \<Rightarrow> string \<Rightarrow> osys \<Rightarrow> fsrepo_error option \<times> osys" where
  "SetAPIAddr e r addr w =
     (let tmp = join e (fr_path r) ''.api.tmp'';
          put = (\<lambda>c. w\<lparr>os_files := (os_files w)(tmp \<mapsto> c)\<rparr>)
      in case fault e IoCreate tmp of
           Some err \<Rightarrow> (Some (Io err), w)
         | None \<Rightarrow>
        (case fault e IoWrite tmp of
           Some err \<Rightarrow> (Some (Io err), put (partial_write e addr))
         | None \<Rightarrow>
        (case fault e IoClose tmp of
           Some err \<Rightarrow> (Some (Io err), put addr)
         | None \<Rightarrow>
        (case fault e IoRename tmp of
           None \<Rightarrow> (None, w\<lparr>os_files := (os_files w)(join e (fr_path r) ''api'' \<mapsto> addr, tmp := None)\<rparr>)
         | Some err \<Rightarrow>
             (case os_Remove e IoRemove tmp (put addr) of
                (Some err1, w) \<Rightarrow> (Some (RenameAndRemove err err1), w)
              | (None, w) \<Rightarrow> (Some (Io err), w))))))"

text \<open>Here every failure ends in the deferred removal of the temporary file.\<close>

definition SetGatewayAddr :: "'n repo_env \<Rightarrow> 'n FSRepo \<Rightarrow> string \<Rightarrow> osys \<Rightarrow> fsrepo_error option \<times> osys" where
  "SetGatewayAddr e r addr w =
     (let tmp = join e (fr_path r) ''.gateway.tmp'';
          url = ''http://'' @ addr;
          put = (\<lambda>c. w\<lparr>os_files := (os_files w)(tmp \<mapsto> c)\<rparr>);
          cleanup = (\<lambda>w. snd (os_Remove e IoRemoveDeferred tmp w))
      in case fault e IoCreate tmp of
           Some err \<Rightarrow> (Some (Io err), w)
         | None \<Rightarrow>
        (case fault e IoWrite tmp of
           Some err \<Rightarrow> (Some (Io err), cleanup (put (partial_write e url)))
         | None \<Rightarrow>
        (case fault e IoClose tmp of
           Some err \<Rightarrow> (Some (Io err), cleanup (put url))
         | None \<Rightarrow>
        (case fault e IoRename tmp of
           None \<Rightarrow> (None, w\<lparr>os_files := (os_files w)(join e (fr_path r) ''gateway'' \<mapsto> url, tmp := None)\<rparr>)
         | Some err \<Rightarrow>
             (case os_Remove e IoRemove tmp (put url) of
                (Some err1, w) \<Rightarrow> (Some (RenameAndRemove err err1), cleanup w)
              | (None, w) \<Rightarrow> (Some (Io err), cleanup w))))))"

text \<open>A missing key is no error: the key is then nil.\<close>

definition SwarmKey :: "'n repo_env \<Rightarrow> 'n FSRepo \<Rightarrow> osys \<Rightarrow> fsrepo_error + string option" where
  "SwarmKey e r w =
     (let spath = join e (Clean e (fr_path r)) ''swarm.key'' in
      case os_Open e spath w of
        Inl err \<Rightarrow> if IsNotExist err then Inr None else Inl err
      | Inr c \<Rightarrow> (case fault e IoRead spath of Some err \<Rightarrow> Inl (Io err) | None \<Rightarrow> Inr (Some c)))"

definition BestKnownPath :: "'n repo_env \<Rightarrow> fsrepo_error + path" where
  "BestKnownPath e =
     (case Expand e (if IPFS_PATH e \<noteq> [] then IPFS_PATH e else ''~/.ipfs'') of
        Inl err \<Rightarrow> Inl (Io err)
      | Inr p \<Rightarrow> Inr p)"

section \<open>What the code relies on\<close>

text \<open>
  The order of an association list stands for nothing in a Go map.  Decoded maps are taken in the
  order of their keys.
\<close>

fun norm :: "'n json \<Rightarrow> 'n json" where
  "norm (JObj m) = JObj (sort_key fst (map (\<lambda>kv. (fst kv, norm (snd kv))) m))"
| "norm (JArr js) = JArr (map norm js)"
| "norm j = j"

text \<open>
  \<^verbatim>\<open>encoding/json\<close>: an encoded map decodes to the same map; a decoded map has distinct keys at every
  level; a specification is encoded without white space around it.
\<close>

definition codec_ok :: "'n repo_env \<Rightarrow> bool" where
  "codec_ok e \<longleftrightarrow>
     (\<forall>m t. wf_json (JObj m) \<longrightarrow> indent_map e m = Inr t \<longrightarrow> dec_map e t = Inr (obj_of (norm (JObj m)))) \<and>
     (\<forall>t m. dec_map e t = Inr m \<longrightarrow> wf_json (JObj m) \<and> norm (JObj m) = JObj m) \<and>
     (\<forall>s. TrimSpace (enc_spec e s) = enc_spec e s)"

text \<open>\<^verbatim>\<open>go-fs-lock\<close>: a path that is locked cannot be locked again.\<close>

definition lock_ok :: "'n repo_env \<Rightarrow> bool" where
  "lock_ok e \<longleftrightarrow> (\<forall>p L. p \<in> L \<longrightarrow> Lock e p L \<noteq> None)"

text \<open>\<^verbatim>\<open>atomicfile\<close>: closing either puts what was written in place, or nothing changes.\<close>

definition commit_ok :: "'n repo_env \<Rightarrow> bool" where
  "commit_ok e \<longleftrightarrow> (\<forall>p c f. atomic_Close e p c f \<in> {f, f(p \<mapsto> c)})"

section \<open>Normal forms and paths\<close>

lemma map_of_norm:
  assumes "distinct (map fst m)"
  shows "map_of (sort_key fst (map (\<lambda>kv. (fst kv, norm (snd kv))) m)) k = map_option norm (map_of m k)"
proof -
  let ?m = "map (\<lambda>kv. (fst kv, norm (snd kv))) m"
  have d: "distinct (map fst ?m)" using assms by (simp add: comp_def)
  have "mset (map fst (sort_key fst ?m)) = mset (map fst ?m)" by (simp only: mset_map mset_sort)
  with d have "distinct (map fst (sort_key fst ?m))" using mset_eq_imp_distinct_iff by blast
  with d have "map_of (sort_key fst ?m) = map_of ?m" by (subst map_of_inject_set) simp_all
  moreover have "map_of ?m k = map_option norm (map_of m k)" by (induction m) auto
  ultimately show ?thesis by simp
qed

lemma at_norm: "wf_json j \<Longrightarrow> at ps (norm j) = map_option norm (at ps j)"
proof (induction ps arbitrary: j)
  case (Cons p ps)
  show ?case
  proof (cases j)
    case (JObj m)
    with Cons.prems have d: "distinct (map fst m)" by simp
    show ?thesis
    proof (cases "map_of m p")
      case (Some c)
      with Cons.prems JObj have "wf_json c" using map_of_SomeD by fastforce
      with Cons.IH Some JObj show ?thesis by (simp add: map_of_norm[OF d])
    qed (simp add: JObj map_of_norm[OF d])
  qed simp_all
qed simp

lemma wf_update:
  assumes "wf_json (JObj m)" and "wf_json v"
  shows "wf_json (JObj (AList.update k v m))"
proof -
  have "set (AList.update k v m) \<subseteq> insert (k, v) (set m)" by (induction m) auto
  with assms show ?thesis by (auto simp: distinct_update)
qed

lemma wf_map_of: "wf_json (JObj m) \<Longrightarrow> map_of m k = Some v \<Longrightarrow> wf_json v"
  using map_of_SomeD by fastforce

lemma wf_set_loop: "wf_json val \<Longrightarrow> wf_json j \<Longrightarrow> wf_json (snd (set_loop val prev ps j))"
proof (induction ps arbitrary: prev j)
  case (Cons p ps)
  show ?case
  proof (cases j)
    case (JObj m)
    let ?child = "case map_of m p of None \<Rightarrow> JObj [] | Some JNull \<Rightarrow> JObj [] | Some c \<Rightarrow> c"
    have "wf_json ?child"
    proof (cases "map_of m p")
      case (Some c)
      with Cons.prems(2) JObj have "wf_json c" using wf_map_of by blast
      with Some show ?thesis by (cases c) simp_all
    qed simp
    then have "wf_json (snd (set_loop val (prev @ [p]) ps ?child))" using Cons by blast
    then show ?thesis
      using Cons.prems JObj by (auto simp: Let_def wf_update split: prod.splits simp del: wf_json.simps(1))
  qed (use Cons.prems in simp_all)
qed simp

lemma MapSetKV_obj: "snd (MapSetKV v key val) = JObj (obj_of (snd (MapSetKV v key val)))"
proof -
  have "\<exists>m. snd (set_loop val prev (p # ps) (JObj v)) = JObj m" for prev p ps
    by (auto simp: Let_def split: prod.splits)
  moreover obtain p ps where "split_on CHR ''.'' key = p # ps" using split_on_ne by (metis list.exhaust)
  ultimately obtain m where "snd (MapSetKV v key val) = JObj m" unfolding MapSetKV_def by metis
  then show ?thesis by (simp add: obj_of_def)
qed

lemma wf_MapSetKV: "wf_json (JObj v) \<Longrightarrow> wf_json val \<Longrightarrow> wf_json (JObj (obj_of (snd (MapSetKV v key val))))"
  using wf_set_loop[of val "JObj v" "[]" "split_on CHR ''.'' key"] MapSetKV_obj[of v key val] by (simp add: MapSetKV_def)

lemma wf_Cons: "wf_json (JObj ((k, v) # m)) \<Longrightarrow> wf_json v \<and> wf_json (JObj m)"
  by simp

lemma wf_MapMergeDeep: "wf_json (JObj l) \<Longrightarrow> wf_json (JObj r) \<Longrightarrow> wf_json (JObj (MapMergeDeep l r))"
proof (induction l r rule: MapMergeDeep.induct)
  case (2 result key rightVal right)
  note rv = wf_Cons[OF 2(4)]
  let ?c = "combine (map_of result key) rightVal"
  have c: "wf_json ?c"
  proof (cases "\<exists>lm rm. map_of result key = Some (JObj lm) \<and> rightVal = JObj rm")
    case True
    then obtain lm rm where m: "map_of result key = Some (JObj lm)" "rightVal = JObj rm" by blast
    have "wf_json (JObj (MapMergeDeep lm rm))" using 2(1)[OF m(2,1)] wf_map_of[OF 2(3) m(1)] rv m(2) by simp
    with m show ?thesis by (simp add: combine_def)
  next
    case False
    then have "?c = rightVal" by (auto simp: combine_def split: option.splits json.splits)
    with rv show ?thesis by simp
  qed
  have e: "(case rightVal of
             JObj rightMap \<Rightarrow>
               (case map_of result key of
                  Some (JObj leftMap) \<Rightarrow> JObj (MapMergeDeep leftMap rightMap)
                | _ \<Rightarrow> rightVal)
           | _ \<Rightarrow> rightVal) = ?c"
    by (auto simp: combine_def split: option.splits json.splits)
  show ?case using 2(2)[unfolded e, OF wf_update[OF 2(3) c]] rv by (simp add: MapMergeDeep_Cons del: MapMergeDeep.simps)
qed simp

section \<open>Reading and writing the configuration\<close>

lemma split_PrivKey: "split_on CHR ''.'' PrivKeySelector = [''Identity'', ''PrivKey'']"
  by (simp add: PrivKeySelector_def)

text \<open>What the configuration file holds, as a map.\<close>

abbreviation stored :: "'n repo_env \<Rightarrow> 'n FSRepo \<Rightarrow> osys \<Rightarrow> fsrepo_error + 'n jmap" where
  "stored e r w \<equiv> ReadConfigFile e (dec_map e) (configFilePath r) w"

lemma stored_wf: "codec_ok e \<Longrightarrow> stored e r w = Inr m \<Longrightarrow> wf_json (JObj m) \<and> norm (JObj m) = JObj m"
proof -
  assume "codec_ok e" and "stored e r w = Inr m"
  then obtain t where "dec_map e t = Inr m" by (auto simp: ReadConfigFile_def split: sum.splits option.splits)
  with \<open>codec_ok e\<close> show ?thesis unfolding codec_ok_def by blast
qed

lemma obj_of_norm [simp]: "JObj (obj_of (norm (JObj m))) = norm (JObj m)"
  by (simp add: obj_of_def)

text \<open>
  Unless encoding or writing fails, the configuration file afterwards holds the old map or, normalised,
  the new one; when the write was committed and no error was returned, it holds the new one.
\<close>

lemma WriteConfigFile_map:
  assumes "codec_ok e" and "commit_ok e" and "fault e IoWrite p = None" and "wf_json (JObj m)"
    and "ReadConfigFile e (dec_map e) p w = Inr m0" and "WriteConfigFile e p (indent_map e m) w = (err, w')"
    and "\<forall>x. err \<noteq> Some (EncodeFailed x)"
  shows "ReadConfigFile e (dec_map e) p w' \<in> {Inr m0, Inr (obj_of (norm (JObj m)))}"
    and "\<forall>c f. atomic_Close e p c f = f(p \<mapsto> c) \<Longrightarrow> err = None \<Longrightarrow>
      ReadConfigFile e (dec_map e) p w' = Inr (obj_of (norm (JObj m)))"
proof -
  let ?new = "obj_of (norm (JObj m))"
  have dec: "dec_map e t = Inr ?new" if "indent_map e m = Inr t" for t
    using assms(1,4) that unfolding codec_ok_def by blast
  have rd: "fault e IoOpen p = None" "fault e IoRead p = None"
    using assms(5) by (auto simp: ReadConfigFile_def os_Open_def split: option.splits if_splits)
  have w': "w' = w \<and> err \<noteq> None \<or>
      (\<exists>t. indent_map e m = Inr t \<and> w' = w\<lparr>os_files := atomic_Close e p t (os_files w)\<rparr> \<and> err = None)"
    using assms(3,6,7) by (auto simp: WriteConfigFile_def split: option.splits sum.splits)
  have new: "ReadConfigFile e (dec_map e) p (w\<lparr>os_files := (os_files w)(p \<mapsto> t)\<rparr>) = Inr ?new" if "indent_map e m = Inr t" for t
    using rd dec[OF that] by (simp add: ReadConfigFile_def os_Open_def)
  have "atomic_Close e p t (os_files w) \<in> {os_files w, (os_files w)(p \<mapsto> t)}" for t using assms(2) by (simp add: commit_ok_def)
  with new have fin: "ReadConfigFile e (dec_map e) p (w\<lparr>os_files := atomic_Close e p t (os_files w)\<rparr>) \<in> {Inr m0, Inr ?new}"
    if "indent_map e m = Inr t" for t
  proof -
    from \<open>\<And>t. atomic_Close e p t (os_files w) \<in> _\<close>[of t] consider
        "atomic_Close e p t (os_files w) = os_files w" | "atomic_Close e p t (os_files w) = (os_files w)(p \<mapsto> t)" by blast
    then show ?thesis by cases (simp_all add: assms(5) new[OF that])
  qed
  show "ReadConfigFile e (dec_map e) p w' \<in> {Inr m0, Inr ?new}" using w' fin assms(5) by blast
  show "ReadConfigFile e (dec_map e) p w' = Inr ?new" if "\<forall>c f. atomic_Close e p c f = f(p \<mapsto> c)" "err = None"
    using w' that new by auto
qed

text \<open>The two writes of \<^verbatim>\<open>SetConfigKey\<close> to the map.\<close>

lemma set_then_privkey:
  assumes "MapGetKV m PrivKeySelector = Inr pk" and "MapSetKV m key val = (None, j1)"
    and "MapSetKV (obj_of j1) PrivKeySelector pk = (None, j2)"
  shows "at [''Identity'', ''PrivKey''] j2 = Some pk"
    and "\<not> prefix (split_on CHR ''.'' key) [''Identity'', ''PrivKey''] \<Longrightarrow>
      \<not> prefix [''Identity'', ''PrivKey''] (split_on CHR ''.'' key) \<Longrightarrow> at (split_on CHR ''.'' key) j2 = Some val"
    and "\<not> prefix (split_on CHR ''.'' key) qs \<Longrightarrow> \<not> prefix qs (split_on CHR ''.'' key) \<Longrightarrow>
      \<not> prefix [''Identity'', ''PrivKey''] qs \<Longrightarrow> \<not> prefix qs [''Identity'', ''PrivKey''] \<Longrightarrow> at qs j2 = at qs (JObj m)"
proof -
  have j1: "j1 = JObj (obj_of j1)" using MapSetKV_obj[of m key val] assms(2) by simp
  have s1: "set_loop val [] (split_on CHR ''.'' key) (JObj m) = (None, j1)" using assms(2) by (simp add: MapSetKV_def)
  have s2: "set_loop pk [] [''Identity'', ''PrivKey''] j1 = (None, j2)"
    using assms(3) j1 by (simp only: MapSetKV_def split_PrivKey)
  show "at [''Identity'', ''PrivKey''] j2 = Some pk" using set_loop_get[OF s2] by simp
  show "at (split_on CHR ''.'' key) j2 = Some val"
    if "\<not> prefix (split_on CHR ''.'' key) [''Identity'', ''PrivKey'']" "\<not> prefix [''Identity'', ''PrivKey''] (split_on CHR ''.'' key)"
    using set_loop_frame[OF s2 that(2,1)] set_loop_get[OF s1 split_on_ne] by simp
  show "at qs j2 = at qs (JObj m)" if "\<not> prefix (split_on CHR ''.'' key) qs" "\<not> prefix qs (split_on CHR ''.'' key)"
      "\<not> prefix [''Identity'', ''PrivKey''] qs" "\<not> prefix qs [''Identity'', ''PrivKey'']"
    using set_loop_frame[OF s2 that(3,4)] set_loop_frame[OF s1 that(1,2)] by simp
qed

text \<open>The run of \<^verbatim>\<open>SetConfigKey\<close> that gets as far as writing.\<close>

lemma SetConfigKey_cases:
  assumes "SetConfigKey e r key val w = (err, r', w')"
  obtains (unchanged) "w' = w" "r' = r" "err \<noteq> None"
  | (written) m pk j1 j2 conf where "\<not> fr_closed r" "stored e r w = Inr m" "MapGetKV m PrivKeySelector = Inr pk"
      "MapSetKV m key val = (None, j1)" "MapSetKV (obj_of j1) PrivKeySelector pk = (None, j2)"
      "FromMap e (obj_of j2) = Inr conf" "WriteConfigFile e (configFilePath r) (indent_map e (obj_of j2)) w = (err, w')"
      "r' = r\<lparr>fr_config := conf\<rparr>"
proof (cases "fr_closed r")
  case True
  with assms show thesis by (intro unchanged) (auto simp: SetConfigKey_def)
next
  case open_: False
  show thesis
  proof (cases "stored e r w")
    case (Inl x)
    with assms open_ show thesis by (intro unchanged) (auto simp: SetConfigKey_def)
  next
    case st: (Inr m)
    show thesis
    proof (cases "MapGetKV m PrivKeySelector")
      case (Inl x)
      with assms open_ st show thesis by (intro unchanged) (auto simp: SetConfigKey_def)
    next
      case pk: (Inr pk)
      obtain e1 j1 where s1: "MapSetKV m key val = (e1, j1)" by force
      obtain e2 j2 where s2: "MapSetKV (obj_of j1) PrivKeySelector pk = (e2, j2)" by force
      obtain e3 w3 where s3: "WriteConfigFile e (configFilePath r) (indent_map e (obj_of j2)) w = (e3, w3)" by force
      show thesis
      proof (cases "e1 = None \<and> e2 = None \<and> (\<exists>conf. FromMap e (obj_of j2) = Inr conf)")
        case True
        then obtain conf where f: "FromMap e (obj_of j2) = Inr conf" by blast
        with True assms open_ st pk s1 s2 s3 have "err = e3" "w' = w3" "r' = r\<lparr>fr_config := conf\<rparr>"
          by (simp_all add: SetConfigKey_def)
        with written[OF open_ st pk] True s1 s2 s3 f show thesis by simp
      next
        case False
        with assms open_ st pk s1 s2 show thesis
          by (intro unchanged) (auto simp: SetConfigKey_def split: option.splits sum.splits)
      qed
    qed
  qed
qed

section \<open>Opening and locking\<close>

lemma config_frame [simp]:
  "os_locks (snd (WriteConfigFile e p c w)) = os_locks w" "os_stores (snd (WriteConfigFile e p c w)) = os_stores w"
  by (auto simp: WriteConfigFile_def Let_def split: option.splits sum.splits)

lemma Writable_frame: "Writable e path w = (err, w') \<Longrightarrow> os_locks w' = os_locks w \<and> os_stores w' = os_stores w \<and>
    (\<forall>p. p \<noteq> join e path ''._check_writable'' \<longrightarrow> os_files w' p = os_files w p)"
  by (auto simp: Writable_def Let_def split: option.splits)

lemma openDatastore_frame:
  "openDatastore e path conf w = (res, w') \<Longrightarrow> os_locks w' = os_locks w \<and> os_files w' = os_files w"
  by (auto simp: openDatastore_def Let_def split: if_splits option.splits res.splits sum.splits)

lemma open_locked_frame:
  assumes "open_locked e path cfp w = (res, w')"
  shows "os_locks w' = os_locks w" and "res = Inr r \<Longrightarrow> fr_path r = path \<and> \<not> fr_closed r \<and> configFilePath r = cfp"
proof -
  show "os_locks w' = os_locks w"
    using assms unfolding open_locked_def
    by (auto split: if_splits sum.splits prod.splits option.splits dest!: Writable_frame openDatastore_frame)
  show "fr_path r = path \<and> \<not> fr_closed r \<and> configFilePath r = cfp" if "res = Inr r"
    using assms that unfolding open_locked_def by (auto split: if_splits sum.splits prod.splits option.splits)
qed

text \<open>A successful \<^verbatim>\<open>open\<close> takes a lock nobody held; a failing one leaves the locks as they were.\<close>

lemma open_repo_locks:
  assumes "lock_ok e" and "open_repo e p u w = (res, w')"
  shows "res = Inr r \<Longrightarrow> fr_path r \<notin> os_locks w \<and> os_locks w' = insert (fr_path r) (os_locks w) \<and> \<not> fr_closed r"
    and "res = Inl err \<Longrightarrow> \<forall>q. Unlock e q = None \<Longrightarrow> os_locks w' = os_locks w"
proof -
  have L: "path \<notin> os_locks w" if "Lock e path (os_locks w) = None" for path
    using assms(1) that unfolding lock_ok_def by (metis option.distinct(1))
  show "fr_path r \<notin> os_locks w \<and> os_locks w' = insert (fr_path r) (os_locks w) \<and> \<not> fr_closed r" if r: "res = Inr r"
  proof -
    obtain path cfp where o: "open_locked e path cfp (w\<lparr>os_locks := insert path (os_locks w)\<rparr>) = (Inr r, w')"
      "Lock e path (os_locks w) = None"
      using assms(2) r unfolding open_repo_def by (auto split: sum.splits prod.splits option.splits)
    with open_locked_frame(1)[OF o(1)] open_locked_frame(2)[OF o(1) refl] L show ?thesis by simp
  qed
  show "os_locks w' = os_locks w" if "res = Inl err" "\<forall>q. Unlock e q = None"
    using assms(2) that L unfolding open_repo_def release_def
    by (auto split: sum.splits prod.splits option.splits dest!: open_locked_frame(1))
qed

lemma os_Remove_frame [simp]:
  "os_locks (snd (os_Remove e how p w)) = os_locks w" "os_stores (snd (os_Remove e how p w)) = os_stores w"
  by (auto simp: os_Remove_def split: option.splits)

lemma FSRepo_Close_locks:
  assumes "FSRepo_Close e r w = (err, r', w')"
  shows "err = None \<Longrightarrow> \<not> fr_closed r \<and> fr_closed r' \<and> os_locks w' = os_locks w - {fr_path r}"
    and "fr_path r' = fr_path r"
  using assms by (auto simp: FSRepo_Close_def release_def Let_def split: if_splits option.splits)

section \<open>Properties\<close>

lemma GetConfigKey_stored:
  "\<not> fr_closed r \<Longrightarrow> stored e r w = Inr m \<Longrightarrow> GetConfigKey e r key w = Inr x \<longleftrightarrow> at (split_on CHR ''.'' key) (JObj m) = Some x"
  by (auto simp: GetConfigKey_def MapGetKV_at[symmetric] split: sum.splits)

lemma norm_at: "wf_json j \<Longrightarrow> norm j = j \<Longrightarrow> at ps j = Some x \<Longrightarrow> norm x = x"
  using at_norm[of j ps] by simp

lemma wf_at: "wf_json j \<Longrightarrow> at ps j = Some x \<Longrightarrow> wf_json x"
proof (induction ps arbitrary: j)
  case (Cons p ps)
  then obtain m where m: "j = JObj m" by (cases j) simp_all
  with Cons.prems obtain c where "map_of m p = Some c" "at ps c = Some x" by (auto split: option.splits)
  with Cons.IH Cons.prems(1) m wf_map_of show ?case by blast
qed simp

lemma SetConfigKey_wf:
  assumes "wf_json (JObj m)" and "wf_json val" and "MapGetKV m PrivKeySelector = Inr pk"
    and "MapSetKV m key val = (None, j1)" and "MapSetKV (obj_of j1) PrivKeySelector pk = (None, j2)"
  shows "wf_json (JObj (obj_of j2))" and "JObj (obj_of j2) = j2"
proof -
  have "wf_json (JObj (obj_of j1))" using wf_MapSetKV[OF assms(1,2), of key] assms(4) by simp
  moreover have "wf_json pk" using assms(1,3) wf_at by (simp only: MapGetKV_at) blast
  ultimately show "wf_json (JObj (obj_of j2))" using wf_MapSetKV[of "obj_of j1" pk PrivKeySelector] assms(5) by simp
  show "JObj (obj_of j2) = j2" using MapSetKV_obj[of "obj_of j1" PrivKeySelector pk] assms(5) by simp
qed

lemma privkey_kept:
  assumes "codec_ok e" and "commit_ok e" and "fault e IoWrite (configFilePath r) = None" and "wf_json val"
    and "SetConfigKey e r key val w = (err, r', w')" and "\<forall>x. err \<noteq> Some (EncodeFailed x)"
  shows "GetConfigKey e r' PrivKeySelector w' = GetConfigKey e r PrivKeySelector w"
  using assms(5)
proof (cases rule: SetConfigKey_cases)
  case (written m pk j1 j2 conf)
  note m = stored_wf[OF assms(1) written(2)]
  note j2 = SetConfigKey_wf[OF conjunct1[OF m] assms(4) written(3-5)]
  have old: "at [''Identity'', ''PrivKey''] (JObj m) = Some pk"
    using written(3) by (simp only: MapGetKV_at split_PrivKey)
  have "at [''Identity'', ''PrivKey''] (norm j2) = Some (norm pk)"
    using at_norm[OF j2(1)] set_then_privkey(1)[OF written(3-5)] j2(2) by simp
  then have new: "at [''Identity'', ''PrivKey''] (norm j2) = Some pk" using norm_at m old by metis
  have "stored e r' w' \<in> {Inr m, Inr (obj_of (norm j2))}"
    using WriteConfigFile_map(1)[OF assms(1-3) j2(1) written(2,7) assms(6)] j2(2) written(8) by simp
  moreover have "JObj (obj_of (norm j2)) = norm j2" using j2(2) obj_of_norm by metis
  moreover have "\<not> fr_closed r'" using written(1,8) by simp
  ultimately have "GetConfigKey e r' PrivKeySelector w' = Inr pk"
    using GetConfigKey_stored[of r' e w' _ PrivKeySelector pk, unfolded split_PrivKey] new old
    by (metis insertE singletonD)
  moreover have "GetConfigKey e r PrivKeySelector w = Inr pk"
    using GetConfigKey_stored[OF written(1,2)] old by (simp only: split_PrivKey)
  ultimately show ?thesis by simp
qed simp


definition demo_map :: "string \<Rightarrow> nat jmap" where
  "demo_map a = [(''Addr'', JStr a), (''Identity'', JObj [(''PrivKey'', JStr ''k'')])]"

definition demo_conf :: "nat Config" where
  "demo_conf = \<lparr>ds_Type = [], ds_Path = [], ds_Spec = Some [(''type'', JStr ''mem'')], FilestoreEnabled = False,
     UrlstoreEnabled = True, Bootstrap = [], Identity_PeerID = ''id-k'', Identity_PrivKey = ''bmk'',
     cfg_Addresses = \<lparr>addr_Swarm = [], addr_Announce = [], addr_AppendAnnounce = [], addr_NoAnnounce = [], addr_API = [], addr_Gateway = []\<rparr>,
     Swarm_AddrFilters = [], Swarm_DisableNatPortMap = False,
     Swarm_ConnMgr = \<lparr>cm_Type = None, cm_LowWater = None, cm_HighWater = None, cm_GracePeriod = None\<rparr>, MDNS_Enabled = True,
     Routing_Type = ''dht'', AutoNAT_ServiceMode = AutoNATServiceUnset, Reprovider_Interval = ''12h'', RemoteServices = [],
     other_fields = []\<rparr>"

definition repo_demo_env :: "nat repo_env" where
  "repo_demo_env = \<lparr>fault = (\<lambda>_ _. None), partial_write = (\<lambda>_. []), atomic_Close = (\<lambda>p c f. f(p \<mapsto> c)),
     Lock = (\<lambda>p L. if p \<in> L then Some ''locked'' else None), Unlock = (\<lambda>_. None), FileExists = (\<lambda>f p. f p \<noteq> None),
     Expand = Inr, HomeDir = Inr ''/home'', IPFS_PATH = [], Clean = id, Dir = (\<lambda>p. ''/''),
     TempName = (\<lambda>d p f. Inr (d @ ''/'' @ p @ ''tmp'')), ma_New = Inr, dsenv = ds_demo_env, opens = (\<lambda>_. None),
     ds_Close = (\<lambda>_. None),
     dec_map = (\<lambda>t. if t \<in> {''1'', ''2''} then Inr (demo_map t) else Inl ''syntax''), dec_conf = (\<lambda>_. Inr demo_conf),
     enc_map = (\<lambda>_. Inr []), enc_conf = (\<lambda>_. Inr ''2''),
     indent_map = (\<lambda>m. if m \<in> {demo_map ''1'', demo_map ''2''}
       then Inr (case snd (hd m) of JStr a \<Rightarrow> a | _ \<Rightarrow> []) else Inl ''unsupported''),
     indent_conf = (\<lambda>_. Inr ''1''), enc_spec = (\<lambda>s. if s = None then ''null'' else ''?'')\<rparr>"

lemma demo_map_norm: "norm (JObj (demo_map a)) = JObj (demo_map a)" "wf_json (JObj (demo_map a))"
  by (simp_all add: demo_map_def)


lemma demo_codec: "codec_ok repo_demo_env"
  unfolding codec_ok_def
proof (intro conjI allI impI)
  show "dec_map repo_demo_env t = Inr (obj_of (norm (JObj m)))" if "indent_map repo_demo_env m = Inr t" for m t
  proof -
    from that consider "m = demo_map ''1''" | "m = demo_map ''2''" by (auto simp: repo_demo_env_def split: if_splits)
    then show ?thesis
      using that by cases (simp_all only: demo_map_norm, auto simp: repo_demo_env_def demo_map_def obj_of_def)
  qed
qed (auto simp: repo_demo_env_def demo_map_def TrimSpace_def is_space_def split: if_splits)

definition demo_repo :: "nat FSRepo" where
  "demo_repo = \<lparr>fr_closed = False, fr_path = ''r'', configFilePath = ''r/config'', fr_config = demo_conf,
     fr_ds = MemS, fr_filemgr = None\<rparr>"

definition demo_os :: osys where
  "demo_os = \<lparr>os_files = [''r/config'' \<mapsto> ''1''], os_locks = {''r''}, os_stores = [MemS]\<rparr>"

lemmas demo_eval = SetConfigKey_def GetConfigKey_def ReadConfigFile_def WriteConfigFile_def os_Open_def FromMap_def
  MapSetKV_def MapGetKV_def demo_repo_def demo_os_def obj_of_def PrivKeySelector_def

lemma demo_set:
  "SetConfigKey repo_demo_env demo_repo ''Identity.PrivKey'' (JStr ''x'') demo_os = (None, demo_repo, demo_os)"
  "SetConfigKey repo_demo_env demo_repo ''Addr'' (JStr ''2'') demo_os =
     (None, demo_repo, demo_os\<lparr>os_files := [''r/config'' \<mapsto> ''2'']\<rparr>)"
  by (simp_all add: demo_eval repo_demo_env_def demo_map_def)


text \<open>
  Setting a key.  When \<^verbatim>\<open>SetConfigKey\<close> reports success and the new file was put in place, the
  value is read back (unless the key overlaps the private key's), every key unrelated to the one
  set and to the private key reads as before, and the configuration in memory is what the new
  file's map decodes to.  On a closed repository nothing happens but the error.
\<close>

theorem SetConfigKey_correct:
  assumes "codec_ok e" and "commit_ok e" and "fault e IoWrite (configFilePath r) = None" and "wf_json val"
    and "\<forall>c f. atomic_Close e (configFilePath r) c f = f(configFilePath r \<mapsto> c)"
    and "SetConfigKey e r key val w = (None, r', w')"
  shows "(\<not> prefix (split_on CHR ''.'' key) [''Identity'', ''PrivKey''] \<longrightarrow>
      \<not> prefix [''Identity'', ''PrivKey''] (split_on CHR ''.'' key) \<longrightarrow> GetConfigKey e r' key w' = Inr (norm val)) \<and>
    (\<forall>other x. \<not> prefix (split_on CHR ''.'' key) (split_on CHR ''.'' other) \<longrightarrow>
      \<not> prefix (split_on CHR ''.'' other) (split_on CHR ''.'' key) \<longrightarrow>
      \<not> prefix [''Identity'', ''PrivKey''] (split_on CHR ''.'' other) \<longrightarrow>
      \<not> prefix (split_on CHR ''.'' other) [''Identity'', ''PrivKey''] \<longrightarrow>
      GetConfigKey e r' other w' = Inr x \<longleftrightarrow> GetConfigKey e r other w = Inr x) \<and>
    (\<exists>m. FromMap e m = Inr (fr_config r') \<and> stored e r' w' = Inr (obj_of (norm (JObj m)))) \<and> \<not> fr_closed r"
  using assms(6)
proof (cases rule: SetConfigKey_cases)
  case (written m pk j1 j2 conf)
  note m = stored_wf[OF assms(1) written(2)]
  note j2 = SetConfigKey_wf[OF conjunct1[OF m] assms(4) written(3-5)]
  have st: "stored e r' w' = Inr (obj_of (norm j2))"
    using WriteConfigFile_map(2)[OF assms(1-3) j2(1) written(2,7) _ assms(5)] j2(2) written(8) by simp
  then have get: "GetConfigKey e r' k w' = Inr x \<longleftrightarrow> map_option norm (at (split_on CHR ''.'' k) j2) = Some x" for k x
    using GetConfigKey_stored[of r' e w'] written(1,8) j2 at_norm[of j2] obj_of_norm[of "obj_of j2"] by simp
  have old: "GetConfigKey e r k w = Inr x \<longleftrightarrow> at (split_on CHR ''.'' k) (JObj m) = Some x" for k x
    by (rule GetConfigKey_stored[OF written(1,2)])
  have same: "map_option norm (at ps (JObj m)) = at ps (JObj m)" for ps using at_norm[of "JObj m" ps] m by simp
  note sp = set_then_privkey[OF written(3-5)]
  show ?thesis
  proof (intro conjI impI allI)
    show "\<exists>m. FromMap e m = Inr (fr_config r') \<and> stored e r' w' = Inr (obj_of (norm (JObj m)))"
      using st j2(2) written(6,8) by (intro exI[of _ "obj_of j2"]) simp
    show "GetConfigKey e r' key w' = Inr (norm val)" if "\<not> prefix (split_on CHR ''.'' key) [''Identity'', ''PrivKey'']"
      "\<not> prefix [''Identity'', ''PrivKey''] (split_on CHR ''.'' key)"
      using get sp(2)[OF that] by simp
    show "GetConfigKey e r' k w' = Inr x \<longleftrightarrow> GetConfigKey e r k w = Inr x"
      if "\<not> prefix (split_on CHR ''.'' key) (split_on CHR ''.'' k)" "\<not> prefix (split_on CHR ''.'' k) (split_on CHR ''.'' key)"
        "\<not> prefix [''Identity'', ''PrivKey''] (split_on CHR ''.'' k)" "\<not> prefix (split_on CHR ''.'' k) [''Identity'', ''PrivKey'']"
      for k x
      unfolding get old sp(3)[OF that] same ..
  qed (rule written(1))
qed simp


theorem SetConfigKey_correct_witness:
  "GetConfigKey repo_demo_env demo_repo ''Addr'' (demo_os\<lparr>os_files := [''r/config'' \<mapsto> ''2'']\<rparr>) = Inr (JStr ''2'')"
proof -
  have "\<forall>c f. atomic_Close repo_demo_env (configFilePath demo_repo) c f = f(configFilePath demo_repo \<mapsto> c)"
    "commit_ok repo_demo_env" "fault repo_demo_env IoWrite (configFilePath demo_repo) = None" "wf_json (JStr ''2'' :: nat json)"
    by (simp_all add: repo_demo_env_def commit_ok_def)
  from conjunct1[OF SetConfigKey_correct[OF demo_codec this(2-4,1) demo_set(2)]] show ?thesis by simp
qed

text \<open>A successful \<^verbatim>\<open>SetConfig\<close> leaves the merged map in the file.\<close>

lemma SetConfig_stored:
  assumes "codec_ok e" and "commit_ok e" and "fault e IoWrite (configFilePath r) = None" and "\<not> fr_closed r"
    and "\<forall>c f. atomic_Close e (configFilePath r) c f = f(configFilePath r \<mapsto> c)"
    and "SetConfig e r updated w = (None, r', w')" and "ToMap e updated = Inr m"
  obtains m0 where "stored e r w = Inr m0" and "wf_json (JObj m0)" and "norm (JObj m0) = JObj m0"
    and "wf_json (JObj m)" and "norm (JObj m) = JObj m" and "r' = r\<lparr>fr_config := updated\<rparr>"
    and "\<And>key y. GetConfigKey e r' key w' = Inr y \<longleftrightarrow>
      map_option norm (at (split_on CHR ''.'' key) (JObj (MapMergeDeep m0 m))) = Some y"
proof -
  obtain m0 where st: "stored e r w = Inr m0"
    and wr: "WriteConfigFile e (configFilePath r) (indent_map e (MapMergeDeep m0 m)) w = (None, w')"
    and r': "r' = r\<lparr>fr_config := updated\<rparr>"
    using assms(6,7) unfolding SetConfig_def by (auto split: sum.splits prod.splits option.splits)
  note m0 = stored_wf[OF assms(1) st]
  obtain t where "dec_map e t = Inr m" using assms(7) by (auto simp: ToMap_def split: sum.splits)
  then have m: "wf_json (JObj m)" "norm (JObj m) = JObj m" using assms(1) unfolding codec_ok_def by blast+
  let ?n = "JObj (MapMergeDeep m0 m)"
  have wf: "wf_json ?n" using wf_MapMergeDeep m0 m by blast
  have "stored e r' w' = Inr (obj_of (norm ?n))"
    using WriteConfigFile_map(2)[OF assms(1-3) wf st wr _ assms(5)] r' by simp
  then have "GetConfigKey e r' key w' = Inr y \<longleftrightarrow> map_option norm (at (split_on CHR ''.'' key) ?n) = Some y" for key y
    using GetConfigKey_stored[of r' e w'] r' assms(4) at_norm[OF wf] by (simp del: norm.simps)
  with st m0 m r' that show ?thesis by blast
qed

text \<open>A value of the structure that is not a map is read back.\<close>

lemma SetConfig_leaf:
  assumes "codec_ok e" and "commit_ok e" and "fault e IoWrite (configFilePath r) = None" and "\<not> fr_closed r"
    and "\<forall>c f. atomic_Close e (configFilePath r) c f = f(configFilePath r \<mapsto> c)"
    and "SetConfig e r updated w = (None, r', w')" and "ToMap e updated = Inr m"
    and "at (split_on CHR ''.'' key) (JObj m) = Some x" and "\<not> is_map x"
  shows "GetConfigKey e r' key w' = Inr x"
  using assms(1-7)
proof (rule SetConfig_stored)
  fix m0
  assume m: "wf_json (JObj m)" "norm (JObj m) = JObj m"
    and get: "\<And>key y. GetConfigKey e r' key w' = Inr y \<longleftrightarrow>
      map_option norm (at (split_on CHR ''.'' key) (JObj (MapMergeDeep m0 m))) = Some y"
  have "norm x = x" using norm_at m assms(8) by blast
  with merge_leaf[OF m(1) assms(8,9)] show ?thesis unfolding get by simp
qed

text \<open>
  \<^verbatim>\<open>SetConfig\<close> does not clobber user-provided keys: when it reports success and the new file was put in
  place, a key that the encoded structure does not have reads as before, a value of the structure is
  stored under its key, and the structure is the configuration in memory.
\<close>

theorem SetConfig_keeps_user_keys:
  assumes "codec_ok e" and "commit_ok e" and "fault e IoWrite (configFilePath r) = None" and "\<not> fr_closed r"
    and "\<forall>c f. atomic_Close e (configFilePath r) c f = f(configFilePath r \<mapsto> c)"
    and "SetConfig e r updated w = (None, r', w')" and "ToMap e updated = Inr m"
  shows "(misses (split_on CHR ''.'' key) (JObj m) \<longrightarrow>
      GetConfigKey e r' key w' = Inr x \<longleftrightarrow> GetConfigKey e r key w = Inr x) \<and>
    (at (split_on CHR ''.'' key) (JObj m) = Some x \<longrightarrow> \<not> is_map x \<longrightarrow> GetConfigKey e r' key w' = Inr x) \<and>
    fr_config r' = updated"
  using assms(1-7)
proof (rule SetConfig_stored)
  fix m0
  assume st: "stored e r w = Inr m0" and m0: "wf_json (JObj m0)" "norm (JObj m0) = JObj m0"
    and m: "wf_json (JObj m)" and r': "r' = r\<lparr>fr_config := updated\<rparr>"
    and get: "\<And>key y. GetConfigKey e r' key w' = Inr y \<longleftrightarrow>
      map_option norm (at (split_on CHR ''.'' key) (JObj (MapMergeDeep m0 m))) = Some y"
  have same: "map_option norm (at ps (JObj m0)) = at ps (JObj m0)" for ps using at_norm[of "JObj m0" ps] m0 by simp
  show ?thesis
  proof (intro conjI impI)
    assume "misses (split_on CHR ''.'' key) (JObj m)"
    then show "GetConfigKey e r' key w' = Inr x \<longleftrightarrow> GetConfigKey e r key w = Inr x"
      unfolding get GetConfigKey_stored[OF assms(4) st] using merge_left[OF m] same by metis
  next
    assume "at (split_on CHR ''.'' key) (JObj m) = Some x" "\<not> is_map x"
    then show "GetConfigKey e r' key w' = Inr x" by (rule SetConfig_leaf[OF assms(1-7)])
  qed (simp add: r')
qed

theorem SetConfig_keeps_user_keys_witness:
  "GetConfigKey repo_demo_env demo_repo ''Addr'' (demo_os\<lparr>os_files := [''r/config'' \<mapsto> ''2'']\<rparr>) = Inr (JStr ''2'')"
proof -
  have "\<forall>c f. atomic_Close repo_demo_env (configFilePath demo_repo) c f = f(configFilePath demo_repo \<mapsto> c)"
    "commit_ok repo_demo_env" "fault repo_demo_env IoWrite (configFilePath demo_repo) = None" "\<not> fr_closed demo_repo"
    by (simp_all add: repo_demo_env_def commit_ok_def demo_repo_def)
  moreover have "SetConfig repo_demo_env demo_repo demo_conf demo_os =
      (None, demo_repo, demo_os\<lparr>os_files := [''r/config'' \<mapsto> ''2'']\<rparr>)"
    by (simp add: SetConfig_def ToMap_def demo_eval repo_demo_env_def demo_map_def)
  moreover have "ToMap repo_demo_env demo_conf = Inr (demo_map ''2'')" by (simp add: ToMap_def repo_demo_env_def)
  ultimately show ?thesis
    using SetConfig_keeps_user_keys[OF demo_codec, of demo_repo demo_conf demo_os demo_repo _ "demo_map ''2''" "''Addr''" "JStr ''2''"]
    by (simp add: demo_map_def is_map_def)
qed



text \<open>
  Locking.  \<^verbatim>\<open>open\<close> succeeds only on a path nobody has locked and leaves exactly that path locked in
  addition; every failing \<^verbatim>\<open>open\<close>, whatever step fails, leaves the locks as they were, as long as a
  lock can be released; a \<^verbatim>\<open>Close\<close> without error releases exactly the repository's lock.
\<close>

theorem repo_lock_discipline:
  assumes "lock_ok e" and "\<forall>q. Unlock e q = None" and "open_repo e p u w = (res, w')"
    and "FSRepo_Close e r v = (err, r', v')"
  shows "(case res of Inr q \<Rightarrow> fr_path q \<notin> os_locks w \<and> os_locks w' = insert (fr_path q) (os_locks w) \<and> \<not> fr_closed q
      | Inl _ \<Rightarrow> os_locks w' = os_locks w) \<and>
    (err = None \<longrightarrow> fr_closed r' \<and> os_locks v' = os_locks v - {fr_path r}) \<and> (fr_closed r \<longrightarrow> err = Some RepoClosed \<and> v' = v)"
proof -
  have "fr_closed r \<Longrightarrow> err = Some RepoClosed \<and> v' = v" using assms(4) by (auto simp: FSRepo_Close_def)
  moreover have "err = None \<Longrightarrow> fr_closed r' \<and> os_locks v' = os_locks v - {fr_path r}"
    using FSRepo_Close_locks(1)[OF assms(4)] by blast
  ultimately show ?thesis
    using open_repo_locks(1)[OF assms(1,3)] open_repo_locks(2)[OF assms(1,3) _ assms(2)] by (cases res) simp_all
qed

lemma demo_lock: "lock_ok repo_demo_env" "\<forall>q. Unlock repo_demo_env q = None"
  by (simp_all add: lock_ok_def repo_demo_env_def)

theorem repo_lock_discipline_witness:
  "os_locks (snd (open_repo repo_demo_env ''q'' [] demo_os)) = {''r''} \<and>
   os_locks (snd (snd (FSRepo_Close repo_demo_env demo_repo demo_os))) = {}"
proof -
  have o: "open_repo repo_demo_env ''q'' [] demo_os = (Inl (NoRepoError ''q''), demo_os)"
    by (simp add: open_repo_def newFSRepo_def Filename_def config_Path_def checkInitialized_def configIsInitialized_def
        repo_demo_env_def ds_demo_env_def demo_os_def has_prefix_def)
  have c: "fst (FSRepo_Close repo_demo_env demo_repo demo_os) = None"
    by (simp add: FSRepo_Close_def os_Remove_def release_def repo_demo_env_def demo_repo_def demo_os_def Let_def)
  have p: "FSRepo_Close repo_demo_env demo_repo demo_os = (fst (FSRepo_Close repo_demo_env demo_repo demo_os),
      fst (snd (FSRepo_Close repo_demo_env demo_repo demo_os)), snd (snd (FSRepo_Close repo_demo_env demo_repo demo_os)))"
    by simp
  have "os_locks demo_os = {''r''}" "fr_path demo_repo = ''r''" by (simp_all add: demo_os_def demo_repo_def)
  with repo_lock_discipline[OF demo_lock o p] c show ?thesis unfolding o by simp
qed

text \<open>
  What a healthy system gives \<^verbatim>\<open>Init\<close> and \<^verbatim>\<open>open\<close> at a path: no call fails, the path stands for itself,
  the files of the repository are different ones, and an encoded configuration is decoded to itself.
\<close>

definition healthy :: "'n repo_env \<Rightarrow> path \<Rightarrow> 'n Config \<Rightarrow> bool" where
  "healthy e p conf \<longleftrightarrow>
     (\<forall>op q. fault e op q = None) \<and> (\<forall>q c f. atomic_Close e q c f = f(q \<mapsto> c)) \<and>
     (\<forall>f q. FileExists e f q \<longleftrightarrow> q \<in> dom f) \<and>
     p \<noteq> [] \<and> Expand e (Clean e p) = Inr p \<and> Expand e p = Inr p \<and>
     inj_on (join e p) {''config'', ''datastore_spec'', ''version'', ''._check_writable''} \<and>
     (\<exists>t. indent_conf e conf = Inr t \<and> dec_conf e t = Inr conf) \<and>
     (\<forall>s. TrimSpace (enc_spec e s) = enc_spec e s)"

lemma show_version: "Atoi (TrimSpace (show_int RepoVersion @ [CHR 0x0A])) = Some RepoVersion"
  by code_simp

text \<open>
  C26. A repository that was initialised can be opened.  On a healthy system, at a path with no
  configuration and no specification yet, \<^verbatim>\<open>Init\<close> with a valid datastore specification succeeds, and \<^verbatim>\<open>open\<close> then
  succeeds on an unlocked path whose stores can be opened: it finds the configuration given to \<^verbatim>\<open>Init\<close>
  and opens the stores it specifies.
\<close>

theorem Init_then_open:
  assumes "healthy e p conf" and "ds_Type conf = [] \<and> ds_Path conf = []" and "ds_Spec conf = Some spec"
    and "AnyDatastoreConfig (dsenv e) spec = Ok dsc" and "Create (dsenv e) (opens e) p dsc = Ok d"
    and "os_files w (join e p ''config'') = None" and "os_files w (join e p ''datastore_spec'') = None"
    and "Lock e p (os_locks w) = None"
  shows "\<exists>w1 r w2. Init e p conf w = (None, w1) \<and> open_repo e p [] w1 = (Inr r, w2) \<and>
    fr_path r = p \<and> fr_config r = conf \<and> fr_ds r = MeasureS ''ipfs.fsrepo.datastore'' d"
proof -
  note H = assms(1)[unfolded healthy_def]
  obtain t where t: "indent_conf e conf = Inr t" "dec_conf e t = Inr conf" using H by (elim conjE exE) (rule that)
  let ?c = "join e p ''config''" and ?s = "join e p ''datastore_spec''" and ?v = "join e p ''version''"
    and ?k = "join e p ''._check_writable''"
  have h: "\<forall>op q. fault e op q = None" "\<forall>q c f. atomic_Close e q c f = f(q \<mapsto> c)" "\<forall>f q. FileExists e f q \<longleftrightarrow> q \<in> dom f"
    "p \<noteq> []" "Expand e (Clean e p) = Inr p" "Expand e p = Inr p" "\<forall>s. TrimSpace (enc_spec e s) = enc_spec e s"
    and inj: "inj_on (join e p) {''config'', ''datastore_spec'', ''version'', ''._check_writable''}"
    using H by - (elim conjE, assumption)+
  have ne: "?c \<noteq> ?s" "?c \<noteq> ?v" "?c \<noteq> ?k" "?s \<noteq> ?v" "?s \<noteq> ?k" "?v \<noteq> ?k"
    by (simp_all add: inj_on_eq_iff[OF inj])
  let ?f = "(os_files w)(?c \<mapsto> t, ?s \<mapsto> enc_spec e (DiskSpec dsc), ?v \<mapsto> show_int RepoVersion @ [CHR 0x0A])"
  have "Init e p conf w = (None, w\<lparr>os_files := ?f\<rparr>)"
    using assms(3,4,6,7) h ne t(1)
    by (simp add: Init_def initConfig_def configIsInitialized_def Filename_def config_Path_def WriteConfigFile_def
        initSpec_def os_WriteFile_def WriteRepoVersion_def IpfsDir_def spec_text_def domIff)
  moreover
  let ?w2 = "w\<lparr>os_files := ?f(?k := None), os_locks := insert p (os_locks w)\<rparr>"
  let ?ds = "MeasureS ''ipfs.fsrepo.datastore'' d"
  have "read_RepoVersion e p (w\<lparr>os_files := ?f, os_locks := insert p (os_locks w)\<rparr>) = Inr RepoVersion"
    using h show_version by (simp add: read_RepoVersion_def CheckIpfsDir_def IpfsDir_def repoVersion_def os_ReadFile_def os_Open_def)
  moreover have "Writable e p (w\<lparr>os_files := ?f, os_locks := insert p (os_locks w)\<rparr>) = (None, ?w2)"
    using h by (simp add: Writable_def Let_def)
  moreover have "serialize_Load e ?c ?w2 = Inr conf"
    using h t(2) ne by (simp add: serialize_Load_def ReadConfigFile_def os_Open_def)
  moreover have "openDatastore e p conf ?w2 = (Inr ?ds, ?w2\<lparr>os_stores := ?ds # os_stores w\<rparr>)"
    using assms(2-5) h ne
    by (simp add: openDatastore_def readSpec_def config_Path_def os_ReadFile_def os_Open_def spec_text_def Let_def)
  ultimately show ?thesis
    using assms(8) h
    by (simp add: open_repo_def newFSRepo_def Filename_def config_Path_def checkInitialized_def configIsInitialized_def
        open_locked_def openKeystore_def)
qed

theorem Init_then_open_witness:
  "\<exists>w1 r w2. Init repo_demo_env ''r'' demo_conf \<lparr>os_files = Map.empty, os_locks = {}, os_stores = []\<rparr> = (None, w1) \<and>
     open_repo repo_demo_env ''r'' [] w1 = (Inr r, w2) \<and>
     fr_path r = ''r'' \<and> fr_config r = demo_conf \<and> fr_ds r = MeasureS ''ipfs.fsrepo.datastore'' MemS"
proof (rule Init_then_open)
  show "healthy repo_demo_env ''r'' demo_conf"
    by (auto simp: healthy_def repo_demo_env_def ds_demo_env_def inj_on_def TrimSpace_def is_space_def)
  show "AnyDatastoreConfig (dsenv repo_demo_env) [(''type'', JStr ''mem'')] = Ok MemC"
    by (simp add: AnyDatastoreConfig.simps)
qed (simp_all add: demo_conf_def repo_demo_env_def)

text \<open>
  The API file.  After \<^verbatim>\<open>SetAPIAddr\<close> the file holds the complete new address if the call succeeded,
  and what it held before if any step failed: no partial address is ever read.  A stored address is
  read back by \<^verbatim>\<open>APIAddr\<close>, and after \<^verbatim>\<open>Close\<close> the API is reported as not running.
\<close>

theorem API_file:
  assumes "join e (fr_path r) ''.api.tmp'' \<noteq> join e (fr_path r) ''api''" and "SetAPIAddr e r addr w = (err, w')"
    and "Clean e (fr_path r) = fr_path r" and "\<forall>op. fault e op (join e (fr_path r) ''api'') = None"
    and "length addr < 2048 \<and> TrimSpace addr = addr" and "FSRepo_Close e r w' = (err', r', w'')"
    and "join e (fr_path r) ''gateway'' \<noteq> join e (fr_path r) ''api''"
  shows "os_files w' (join e (fr_path r) ''api'') =
      (if err = None then Some addr else os_files w (join e (fr_path r) ''api'')) \<and>
    (err = None \<longrightarrow> APIAddr e (fr_path r) w' = map_sum Io id (ma_New e addr)) \<and>
    (\<not> fr_closed r \<longrightarrow> APIAddr e (fr_path r) w'' = Inl ErrApiNotRunning)"
proof (intro conjI impI)
  let ?api = "join e (fr_path r) ''api''"
  show f: "os_files w' ?api = (if err = None then Some addr else os_files w ?api)"
    using assms(1,2) by (auto simp: SetAPIAddr_def os_Remove_def Let_def split: option.splits if_splits)
  show "APIAddr e (fr_path r) w' = map_sum Io id (ma_New e addr)" if "err = None"
    using f that assms(3-5) by (auto simp: APIAddr_def os_Open_def Let_def split: sum.splits)
  have rm: "os_files (snd (os_Remove e how p v)) p' = (if p' = p \<and> fault e how p = None then None else os_files v p')" for how p p' v
    by (auto simp: os_Remove_def split: option.splits)
  show "APIAddr e (fr_path r) w'' = Inl ErrApiNotRunning" if "\<not> fr_closed r"
  proof -
    have "os_files w'' ?api = None"
      using assms(4,6,7) that by (auto simp: FSRepo_Close_def release_def Let_def rm split: option.splits)
    then show ?thesis using assms(3,4) by (simp add: APIAddr_def os_Open_def IsNotExist_def)
  qed
qed

theorem API_file_witness:
  "APIAddr repo_demo_env ''r'' (demo_os\<lparr>os_files := [''r/config'' \<mapsto> ''1'', ''r/api'' \<mapsto> ''/ip4'']\<rparr>) = Inr ''/ip4''"
proof -
  have "SetAPIAddr repo_demo_env demo_repo ''/ip4'' demo_os =
      (None, demo_os\<lparr>os_files := [''r/config'' \<mapsto> ''1'', ''r/api'' \<mapsto> ''/ip4'']\<rparr>)"
    by (simp add: SetAPIAddr_def repo_demo_env_def ds_demo_env_def demo_repo_def demo_os_def fun_eq_iff)
  note a = this
  obtain err' r' w'' where c: "FSRepo_Close repo_demo_env demo_repo
      (demo_os\<lparr>os_files := [''r/config'' \<mapsto> ''1'', ''r/api'' \<mapsto> ''/ip4'']\<rparr>) = (err', r', w'')"
    by (metis prod_cases3)
  have d: "join repo_demo_env = (\<lambda>a b. a @ ''/'' @ b)" "fr_path demo_repo = ''r''" "Clean repo_demo_env = id"
    "fault repo_demo_env = (\<lambda>_ _. None)" "ma_New repo_demo_env = Inr"
    by (simp_all add: repo_demo_env_def ds_demo_env_def demo_repo_def)
  from API_file[OF _ a _ _ _ c] show ?thesis by (simp add: d TrimSpace_def is_space_def)
qed

section \<open>Divergences\<close>

text \<open>
  \<^verbatim>\<open>WriteConfigFile\<close> commits what it has written when encoding or writing fails: the configuration is
  then replaced by an empty or cut-off file, although an atomic file is used.
\<close>

theorem config_clobbered:
  assumes "\<forall>op. op \<noteq> IoWrite \<longrightarrow> fault e op (Dir e p) = None \<and> fault e op p = None"
    and "\<forall>c f. atomic_Close e p c f = f(p \<mapsto> c)" and "fault e IoWrite p = Some err"
  shows "WriteConfigFile e p (Inl err') w = (Some (EncodeFailed err'), w\<lparr>os_files := (os_files w)(p \<mapsto> [])\<rparr>)"
    and "WriteConfigFile e p (Inr t) w = (Some (Io err), w\<lparr>os_files := (os_files w)(p \<mapsto> partial_write e t)\<rparr>)"
  using assms by (simp_all add: WriteConfigFile_def Let_def)

text \<open>
  An initialisation that fails after the configuration file was written is never completed: the
  next \<^verbatim>\<open>Init\<close> reports success without doing anything, and \<^verbatim>\<open>open\<close> then asks for a migration tool.
\<close>

theorem Init_incomplete:
  assumes "\<forall>op q. fault e op q = None" and "\<forall>f q. FileExists e f q \<longleftrightarrow> q \<in> dom f"
    and "p \<noteq> []" and "Expand e (Clean e p) = Inr p" and "Expand e p = Inr p"
    and "Init e p conf w = (Some err, w1)" and "os_files w1 (join e p ''config'') \<noteq> None"
    and "os_files w1 (join e p ''version'') = None" and "Lock e p (os_locks w1) = None"
  shows "Init e p conf w1 = (None, w1)" and "fst (open_repo e p [] w1) = Inl ErrNoVersion"
proof -
  have c: "configIsInitialized e p w1"
    using assms(2,3,7) by (auto simp: configIsInitialized_def Filename_def config_Path_def)
  then show "Init e p conf w1 = (None, w1)" by (simp add: Init_def)
  show "fst (open_repo e p [] w1) = Inl ErrNoVersion"
    using assms c
    by (simp add: open_repo_def newFSRepo_def Filename_def config_Path_def checkInitialized_def open_locked_def
        read_RepoVersion_def CheckIpfsDir_def IpfsDir_def repoVersion_def os_ReadFile_def os_Open_def IsNotExist_def)
qed

text \<open>The path \<^verbatim>\<open>BackupConfig\<close> returns is that of the configuration file itself, not of the backup.\<close>

theorem BackupConfig_name:
  "BackupConfig e r pre w = (Inr p, w') \<Longrightarrow> p = configFilePath r"
  by (auto simp: BackupConfig_def Let_def split: sum.splits option.splits)

text \<open>
  \<^verbatim>\<open>SetConfig\<close>, unlike the other operations, works on a closed repository, whose lock may be held
  by another process by then.
\<close>

theorem SetConfig_when_closed:
  "fst (SetConfig e (r\<lparr>fr_closed := True\<rparr>) updated w) = fst (SetConfig e r updated w) \<and>
   snd (snd (SetConfig e (r\<lparr>fr_closed := True\<rparr>) updated w)) = snd (snd (SetConfig e r updated w))"
  by (auto simp: SetConfig_def split: sum.splits prod.splits option.splits)

text \<open>When the key store cannot be opened, the datastore that was opened before it stays open.\<close>

theorem open_leaks_datastore:
  assumes "open_locked e path cfp w = (Inl err, w')" and "openDatastore e path conf v = (Inr s, v')"
    and "Writable e path w = (None, v)" and "serialize_Load e cfp v = Inr conf" and "read_RepoVersion e path w = Inr RepoVersion"
  shows "os_stores w' = s # os_stores w"
proof -
  have "os_stores v' = s # os_stores v"
    using assms(2) by (auto simp: openDatastore_def Let_def split: if_splits option.splits res.splits sum.splits)
  moreover have "w' = v'" using assms by (auto simp: open_locked_def split: option.splits)
  ultimately show ?thesis using Writable_frame[OF assms(3)] by simp
qed

end
