(* ===== verification/OnlyOne.thy ===== *)
theory OnlyOne
  imports FSRepo
begin

text \<open>
  Sharing of open repositories: \<^verbatim>\<open>src/repo/onlyone.go\<close>.  \<^verbatim>\<open>Open\<close> hands every caller of one key the same
  counted reference; the last \<^verbatim>\<open>Close\<close> closes the repository.  References are heap cells, because a caller
  keeps its pointer when the table forgets it.  The repository implementation is the locale
  \<open>repo_backend\<close>, interpreted by the repository on disk.  Counters are 32-bit words.
\<close>

record ('k, 'r) ref =
  ref_key :: 'k
  ref_refs :: u32
  ref_Repo :: 'r

record ('k, 'r, 's) onlyone =
  active :: "'k \<rightharpoonup> nat"
  cells :: "nat \<Rightarrow> ('k, 'r) ref"
  oo_fresh :: nat
  backend :: 's

definition OnlyOne_Open ::
    "('k \<Rightarrow> 's \<Rightarrow> ('err + 'r) \<times> 's) \<Rightarrow> 'k \<Rightarrow> ('k, 'r, 's) onlyone \<Rightarrow> ('err + nat) \<times> ('k, 'r, 's) onlyone" where
  "OnlyOne_Open openf key s =
     (case active s key of
        Some i \<Rightarrow>
          (Inr i, s\<lparr>cells := (cells s)(i := (cells s i)\<lparr>ref_refs := ref_refs (cells s i) + 1\<rparr>)\<rparr>)
      | None \<Rightarrow>
          (case openf key (backend s) of
             (Inl err, b) \<Rightarrow> (Inl err, s\<lparr>backend := b\<rparr>)
           | (Inr r, b) \<Rightarrow>
               (let i = oo_fresh s in
                (Inr i, s\<lparr>active := (active s)(key \<mapsto> i),
                          cells := (cells s)(i := \<lparr>ref_key = key, ref_refs = 1, ref_Repo = r\<rparr>),
                          oo_fresh := Suc i, backend := b\<rparr>))))"

definition ref_Close ::
    "('r \<Rightarrow> 's \<Rightarrow> 'err option \<times> 'r \<times> 's) \<Rightarrow> nat \<Rightarrow> ('k, 'r, 's) onlyone \<Rightarrow> 'err option \<times> ('k, 'r, 's) onlyone" where
  "ref_Close closef i s =
     (let c = (cells s i)\<lparr>ref_refs := ref_refs (cells s i) - 1\<rparr> in
      if ref_refs c > 0 then (None, s\<lparr>cells := (cells s)(i := c)\<rparr>)
      else (case closef (ref_Repo c) (backend s) of
              (err, r, b) \<Rightarrow>
                (err, s\<lparr>cells := (cells s)(i := c\<lparr>ref_Repo := r\<rparr>),
                        active := (active s)(ref_key c := None), backend := b\<rparr>)))"

text \<open>\<^verbatim>\<open>fsrepo.Open\<close> and \<^verbatim>\<open>fsrepo.OpenWithUserConfig\<close>: opening through the table, by the path.\<close>

definition fsrepo_Open ::
    "'n repo_env \<Rightarrow> path \<Rightarrow> (path, 'n FSRepo, osys) onlyone \<Rightarrow> (fsrepo_error + nat) \<times> (path, 'n FSRepo, osys) onlyone" where
  "fsrepo_Open e repoPath s = OnlyOne_Open (\<lambda>k. open_repo e k []) repoPath s"

definition OpenWithUserConfig ::
    "'n repo_env \<Rightarrow> path \<Rightarrow> path \<Rightarrow> (path, 'n FSRepo, osys) onlyone \<Rightarrow> (fsrepo_error + nat) \<times> (path, 'n FSRepo, osys) onlyone" where
  "OpenWithUserConfig e repoPath userConfigFilePath s = OnlyOne_Open (\<lambda>k. open_repo e k userConfigFilePath) repoPath s"

text \<open>
  Callers open and close in any order, each closing once what it has opened; \<open>h i\<close> counts the
  callers that hold reference \<open>i\<close>, fewer than \<open>2 ^ 32\<close>.
\<close>

inductive ostep ::
    "('k \<Rightarrow> 's \<Rightarrow> ('err + 'r) \<times> 's) \<Rightarrow> ('r \<Rightarrow> 's \<Rightarrow> 'err option \<times> 'r \<times> 's) \<Rightarrow>
     ('k, 'r, 's) onlyone \<times> (nat \<Rightarrow> nat) \<Rightarrow> ('k, 'r, 's) onlyone \<times> (nat \<Rightarrow> nat) \<Rightarrow> bool" for openf closef where
  opened: "OnlyOne_Open openf key s = (Inr i, t) \<Longrightarrow> h i + 1 < 2 ^ 32 \<Longrightarrow> ostep openf closef (s, h) (t, h(i := h i + 1))"
| failed: "OnlyOne_Open openf key s = (Inl err, t) \<Longrightarrow> ostep openf closef (s, h) (t, h)"
| closed: "0 < h i \<Longrightarrow> ref_Close closef i s = (err, t) \<Longrightarrow> ostep openf closef (s, h) (t, h(i := h i - 1))"

definition fresh_state :: "('k, 'r, 's) onlyone \<times> (nat \<Rightarrow> nat) \<Rightarrow> bool" where
  "fresh_state sh \<longleftrightarrow> active (fst sh) = Map.empty \<and> snd sh = (\<lambda>_. 0)"

lemma of_nat_u32_nonzero: "0 < m \<Longrightarrow> m < 2 ^ 32 \<Longrightarrow> (of_nat m :: u32) \<noteq> 0"
  by (auto simp: word_of_nat_eq_0_iff dest: dvd_imp_le)

section \<open>What a repository implementation promises\<close>

locale repo_backend =
  fixes openf :: "'k \<Rightarrow> 's \<Rightarrow> ('err + 'r) \<times> 's"
    and closef :: "'r \<Rightarrow> 's \<Rightarrow> 'err option \<times> 'r \<times> 's"
    and res :: "'r \<Rightarrow> 'x"
    and held :: "'s \<Rightarrow> 'x set"
    and isclosed :: "'r \<Rightarrow> bool"
    and ok :: bool
  assumes open_held: "ok \<Longrightarrow> openf k s = (Inr r, s') \<Longrightarrow>
      res r \<notin> held s \<and> held s' = insert (res r) (held s) \<and> \<not> isclosed r"
    and open_failed: "ok \<Longrightarrow> openf k s = (Inl err, s') \<Longrightarrow> held s' = held s"
    and close_released: "ok \<Longrightarrow> \<not> isclosed r \<Longrightarrow> closef r s = (err', r', s') \<Longrightarrow>
      err' = None \<and> isclosed r' \<and> held s' = held s - {res r}"
begin

definition owned :: "('k, 'r, 's) onlyone \<Rightarrow> 'x set" where
  "owned s = {res (ref_Repo (cells s i)) |k i. active s k = Some i}"

definition refs_inv :: "'x set \<Rightarrow> ('k, 'r, 's) onlyone \<Rightarrow> (nat \<Rightarrow> nat) \<Rightarrow> bool" where
  "refs_inv L s h \<longleftrightarrow>
     (\<forall>k i. active s k = Some i \<longrightarrow> i < oo_fresh s \<and> ref_key (cells s i) = k \<and> ref_refs (cells s i) = of_nat (h i) \<and>
        0 < h i \<and> h i < 2 ^ 32 \<and> \<not> isclosed (ref_Repo (cells s i)) \<and> res (ref_Repo (cells s i)) \<notin> L) \<and>
     (\<forall>i. 0 < h i \<longrightarrow> active s (ref_key (cells s i)) = Some i) \<and>
     (\<forall>k k' i j. active s k = Some i \<longrightarrow> active s k' = Some j \<longrightarrow>
        res (ref_Repo (cells s i)) = res (ref_Repo (cells s j)) \<longrightarrow> k = k') \<and>
     held (backend s) = L \<union> owned s"

lemma owned_iff: "x \<in> owned s \<longleftrightarrow> (\<exists>k i. active s k = Some i \<and> x = res (ref_Repo (cells s i)))"
  unfolding owned_def by blast

lemma refs_invD:
  assumes "refs_inv L s h" and "active s k = Some i"
  shows "i < oo_fresh s" "ref_key (cells s i) = k" "ref_refs (cells s i) = of_nat (h i)" "0 < h i" "h i < 2 ^ 32"
    "\<not> isclosed (ref_Repo (cells s i))" "res (ref_Repo (cells s i)) \<notin> L"
  using assms unfolding refs_inv_def by blast+

lemma refs_inv_holder: "refs_inv L s h \<Longrightarrow> 0 < h i \<Longrightarrow> active s (ref_key (cells s i)) = Some i"
  unfolding refs_inv_def by blast

lemma refs_inv_distinct:
  "refs_inv L s h \<Longrightarrow> active s k = Some i \<Longrightarrow> active s k' = Some j \<Longrightarrow>
    res (ref_Repo (cells s i)) = res (ref_Repo (cells s j)) \<Longrightarrow> k = k'"
  unfolding refs_inv_def by blast

lemma refs_inv_held: "refs_inv L s h \<Longrightarrow> held (backend s) = L \<union> owned s"
  unfolding refs_inv_def by blast

text \<open>Another caller of a key that is open.\<close>

lemma inv_share:
  assumes inv: "refs_inv L s h" and i: "active s key = Some i" and "h i + 1 < 2 ^ 32"
  shows "refs_inv L (s\<lparr>cells := (cells s)(i := (cells s i)\<lparr>ref_refs := ref_refs (cells s i) + 1\<rparr>)\<rparr>) (h(i := h i + 1))"
proof -
  let ?s = "s\<lparr>cells := (cells s)(i := (cells s i)\<lparr>ref_refs := ref_refs (cells s i) + 1\<rparr>)\<rparr>"
  have same: "ref_key (cells ?s j) = ref_key (cells s j)" "ref_Repo (cells ?s j) = ref_Repo (cells s j)"
    "active ?s = active s" "oo_fresh ?s = oo_fresh s" "backend ?s = backend s" for j by simp_all
  have "owned ?s = owned s" unfolding owned_def same by simp
  moreover have "ref_refs (cells ?s j) = of_nat ((h(i := h i + 1)) j)" if "active s k = Some j" for k j
    using refs_invD(3)[OF inv that] by (cases "j = i") (simp_all add: add.commute)
  ultimately show ?thesis
    using inv assms(3) i refs_invD(2)[OF inv i] unfolding refs_inv_def same by (auto simp: fun_upd_def)
qed

text \<open>The first caller.\<close>

lemma inv_first:
  assumes "ok" and inv: "refs_inv L s h" and key: "active s key = None" and o: "openf key (backend s) = (Inr r, b)"
  defines "t \<equiv> s\<lparr>active := (active s)(key \<mapsto> oo_fresh s),
    cells := (cells s)(oo_fresh s := \<lparr>ref_key = key, ref_refs = 1, ref_Repo = r\<rparr>), oo_fresh := Suc (oo_fresh s), backend := b\<rparr>"
  shows "refs_inv L t (h(oo_fresh s := h (oo_fresh s) + 1))"
proof -
  note r = open_held[OF \<open>ok\<close> o]
  have new: "res r \<notin> L" "res r \<notin> owned s" using r refs_inv_held[OF inv] by auto
  have old: "j < oo_fresh s" "j \<noteq> oo_fresh s" if "active s k = Some j" for k j using refs_invD(1)[OF inv that] by simp_all
  have h0: "h (oo_fresh s) = 0" using refs_inv_holder[OF inv, of "oo_fresh s"] old by (cases "h (oo_fresh s)") auto
  have act: "active t k = Some j \<longleftrightarrow> k = key \<and> j = oo_fresh s \<or> k \<noteq> key \<and> active s k = Some j" for k j
    by (auto simp: t_def)
  have cell: "cells t j = cells s j" if "active s k = Some j" for k j using old(2)[OF that] by (simp add: t_def)
  have celln: "cells t (oo_fresh s) = \<lparr>ref_key = key, ref_refs = 1, ref_Repo = r\<rparr>" by (simp add: t_def)
  have own: "owned t = insert (res r) (owned s)"
  proof (rule set_eqI)
    fix x
    have "x \<in> owned t \<longleftrightarrow> x = res (ref_Repo (cells t (oo_fresh s))) \<or> (\<exists>k i. active s k = Some i \<and> x = res (ref_Repo (cells t i)))"
      unfolding owned_iff act using key by (metis option.distinct(1))
    also have "\<dots> \<longleftrightarrow> x \<in> insert (res r) (owned s)" using cell celln by (auto simp: owned_iff; metis)
    finally show "x \<in> owned t \<longleftrightarrow> x \<in> insert (res r) (owned s)" .
  qed
  have hold: "active t (ref_key (cells t j)) = Some j" if "0 < (h(oo_fresh s := h (oo_fresh s) + 1)) j" for j
  proof (cases "j = oo_fresh s")
    case False
    with that have "active s (ref_key (cells s j)) = Some j" using refs_inv_holder[OF inv] by simp
    with key cell show ?thesis by (auto simp: t_def)
  qed (simp add: act celln)
  have notown: "res (ref_Repo (cells s j)) \<noteq> res r" if "active s k = Some j" for k j
    using new(2) that unfolding owned_def by auto
  have entry: "j < oo_fresh t \<and> ref_key (cells t j) = k \<and>
      ref_refs (cells t j) = of_nat ((h(oo_fresh s := h (oo_fresh s) + 1)) j) \<and>
      0 < (h(oo_fresh s := h (oo_fresh s) + 1)) j \<and> (h(oo_fresh s := h (oo_fresh s) + 1)) j < 2 ^ 32 \<and>
      \<not> isclosed (ref_Repo (cells t j)) \<and> res (ref_Repo (cells t j)) \<notin> L" if "active t k = Some j" for k j
  proof (cases "k = key")
    case True
    with that act have "j = oo_fresh s" by blast
    with True celln h0 new r show ?thesis by (simp add: t_def)
  next
    case False
    with that act have a: "active s k = Some j" by blast
    have "oo_fresh t = Suc (oo_fresh s)" by (simp add: t_def)
    with refs_invD[OF inv a] cell[OF a] old[OF a] show ?thesis by simp
  qed
  have dist: "k = k'" if "active t k = Some i" "active t k' = Some j"
      "res (ref_Repo (cells t i)) = res (ref_Repo (cells t j))" for k k' i j
  proof (cases "k = key \<or> k' = key")
    case True
    then show ?thesis using that act cell celln notown by (metis ref.select_convs(3))
  next
    case False
    then have "active s k = Some i" "active s k' = Some j" using that act by blast+
    with that(3) cell refs_inv_distinct[OF inv] show ?thesis by metis
  qed
  have "held (backend t) = L \<union> owned t" using r refs_inv_held[OF inv] own by (simp add: t_def)
  with entry hold dist show ?thesis unfolding refs_inv_def by blast
qed

text \<open>A caller closes while others hold the reference, and the last one closes.\<close>

lemma inv_release:
  assumes inv: "refs_inv L s h" and "1 < h i"
  shows "refs_inv L (s\<lparr>cells := (cells s)(i := (cells s i)\<lparr>ref_refs := ref_refs (cells s i) - 1\<rparr>)\<rparr>) (h(i := h i - 1))"
proof -
  let ?s = "s\<lparr>cells := (cells s)(i := (cells s i)\<lparr>ref_refs := ref_refs (cells s i) - 1\<rparr>)\<rparr>"
  have same: "ref_key (cells ?s j) = ref_key (cells s j)" "ref_Repo (cells ?s j) = ref_Repo (cells s j)"
    "active ?s = active s" "oo_fresh ?s = oo_fresh s" "backend ?s = backend s" for j by simp_all
  have "owned ?s = owned s" unfolding owned_def same by simp
  moreover have "ref_refs (cells ?s j) = of_nat ((h(i := h i - 1)) j)" if "active s k = Some j" for k j
    using refs_invD(3)[OF inv that] assms(2) by (auto simp: of_nat_diff)
  moreover have "h i - 1 < 2 ^ 32" using refs_invD(5)[OF inv refs_inv_holder[OF inv, of i]] assms(2) by linarith
  ultimately show ?thesis
    using inv assms(2) unfolding refs_inv_def same by (auto simp: fun_upd_def)
qed

lemma inv_last:
  assumes "ok" and inv: "refs_inv L s h" and "h i = 1" and c: "closef (ref_Repo (cells s i)) (backend s) = (err', r, b)"
  defines "t \<equiv> s\<lparr>cells := (cells s)(i := (cells s i)\<lparr>ref_refs := 0, ref_Repo := r\<rparr>),
    active := (active s)(ref_key (cells s i) := None), backend := b\<rparr>"
  shows "err' = None \<and> refs_inv L t (h(i := 0))"
proof -
  let ?k = "ref_key (cells s i)"
  have a: "active s ?k = Some i" using refs_inv_holder[OF inv] assms(3) by simp
  note cl = close_released[OF \<open>ok\<close> refs_invD(6)[OF inv a] c]
  have act: "active t k = Some j \<longleftrightarrow> k \<noteq> ?k \<and> active s k = Some j" for k j by (auto simp: t_def)
  have ne: "j \<noteq> i" if "active t k = Some j" for k j
    using that act refs_invD(2)[OF inv, of k j] by auto
  have cell: "cells t j = cells s j" if "active t k = Some j" for k j using ne[OF that] by (simp add: t_def)
  have "res (ref_Repo (cells s j)) \<noteq> res (ref_Repo (cells s i))" if "active t k = Some j" for k j
    using that act refs_inv_distinct[OF inv _ a] by blast
  note other = this
  have own: "owned t = owned s - {res (ref_Repo (cells s i))}"
  proof (rule set_eqI)
    fix x
    have "x \<in> owned t \<longleftrightarrow> (\<exists>k j. active t k = Some j \<and> x = res (ref_Repo (cells s j)))"
      unfolding owned_iff using cell by metis
    also have "\<dots> \<longleftrightarrow> x \<in> owned s - {res (ref_Repo (cells s i))}"
    proof
      assume "\<exists>k j. active t k = Some j \<and> x = res (ref_Repo (cells s j))"
      then obtain k j where "active t k = Some j" "x = res (ref_Repo (cells s j))" by blast
      with other act show "x \<in> owned s - {res (ref_Repo (cells s i))}" by (auto simp: owned_iff)
    next
      assume "x \<in> owned s - {res (ref_Repo (cells s i))}"
      then obtain k j where k: "active s k = Some j" "x = res (ref_Repo (cells s j))" "x \<noteq> res (ref_Repo (cells s i))"
        using owned_iff by auto
      then have "k \<noteq> ?k" using a by auto
      with k act show "\<exists>k j. active t k = Some j \<and> x = res (ref_Repo (cells s j))" by blast
    qed
    finally show "x \<in> owned t \<longleftrightarrow> x \<in> owned s - {res (ref_Repo (cells s i))}" .
  qed
  have L: "res (ref_Repo (cells s i)) \<notin> L" by (rule refs_invD(7)[OF inv a])
  have hold: "active t (ref_key (cells t j)) = Some j" if "0 < (h(i := 0)) j" for j
  proof -
    from that have j: "j \<noteq> i" "active s (ref_key (cells s j)) = Some j" using refs_inv_holder[OF inv] by (auto split: if_splits)
    then have "ref_key (cells s j) \<noteq> ?k" using a by auto
    with j show ?thesis by (simp add: t_def)
  qed
  have entry: "j < oo_fresh t \<and> ref_key (cells t j) = k \<and> ref_refs (cells t j) = of_nat ((h(i := 0)) j) \<and>
      0 < (h(i := 0)) j \<and> (h(i := 0)) j < 2 ^ 32 \<and> \<not> isclosed (ref_Repo (cells t j)) \<and> res (ref_Repo (cells t j)) \<notin> L"
    if "active t k = Some j" for k j
  proof -
    have "active s k = Some j" "oo_fresh t = oo_fresh s" using that act by (simp_all add: t_def)
    with refs_invD[OF inv this(1)] cell[OF that] ne[OF that] show ?thesis by simp
  qed
  have "held (backend t) = L \<union> owned t" using cl refs_inv_held[OF inv] own L by (auto simp: t_def)
  moreover have "k = k'" if "active t k = Some j" "active t k' = Some l"
      "res (ref_Repo (cells t j)) = res (ref_Repo (cells t l))" for k k' j l
    using that act cell refs_inv_distinct[OF inv] by metis
  ultimately show ?thesis using entry hold cl unfolding refs_inv_def by blast
qed

lemma ostep_inv:
  assumes "ostep openf closef sh sh'" and "ok" and "refs_inv L (fst sh) (snd sh)"
  shows "refs_inv L (fst sh') (snd sh')"
  using assms(1,3)
proof (induction rule: ostep.induct)
  case (opened key s i t h)
  then have inv: "refs_inv L s h" by simp
  show ?case
  proof (cases "active s key")
    case None
    with opened(1) obtain r b where o: "openf key (backend s) = (Inr r, b)"
      by (auto simp: OnlyOne_Open_def Let_def split: prod.splits sum.splits)
    have "i = oo_fresh s" "t = s\<lparr>active := (active s)(key \<mapsto> oo_fresh s),
        cells := (cells s)(oo_fresh s := \<lparr>ref_key = key, ref_refs = 1, ref_Repo = r\<rparr>), oo_fresh := Suc (oo_fresh s), backend := b\<rparr>"
      using opened(1) None o by (auto simp: OnlyOne_Open_def Let_def)
    then show ?thesis using inv_first[OF \<open>ok\<close> inv None o] by (simp add: fun_upd_def)
  next
    case (Some j)
    have "i = j" "t = s\<lparr>cells := (cells s)(j := (cells s j)\<lparr>ref_refs := ref_refs (cells s j) + 1\<rparr>)\<rparr>"
      using opened(1) Some by (auto simp: OnlyOne_Open_def)
    with opened(2) inv_share[OF inv Some] show ?thesis by (simp add: fun_upd_def)
  qed
next
  case (failed key s err t h)
  then have inv: "refs_inv L s h" and "active s key = None" by (auto simp: OnlyOne_Open_def split: option.splits)
  with failed(1) obtain b where o: "openf key (backend s) = (Inl err, b)" and t: "t = s\<lparr>backend := b\<rparr>"
    by (auto simp: OnlyOne_Open_def Let_def split: prod.splits sum.splits)
  have "owned t = owned s" by (simp add: owned_def t)
  with inv open_failed[OF \<open>ok\<close> o] show ?case by (simp add: refs_inv_def t)
next
  case (closed h i s err t)
  then have inv: "refs_inv L s h" by simp
  let ?c = "cells s i"
  have a: "active s (ref_key ?c) = Some i" using refs_inv_holder[OF inv] closed(1) by blast
  note n = refs_invD(3,5)[OF inv a]
  show ?case
  proof (cases "h i = 1")
    case True
    obtain err' r b where c: "closef (ref_Repo ?c) (backend s) = (err', r, b)" by (metis prod_cases3)
    have "t = s\<lparr>cells := (cells s)(i := ?c\<lparr>ref_refs := 0, ref_Repo := r\<rparr>),
        active := (active s)(ref_key ?c := None), backend := b\<rparr>"
      using closed(2) c n True by (simp add: ref_Close_def Let_def)
    with inv_last[OF \<open>ok\<close> inv True c] True show ?thesis by (simp add: fun_upd_def)
  next
    case False
    have "ref_refs ?c - 1 = of_nat (h i - 1)" using n closed(1) by (simp add: of_nat_diff)
    moreover have "(of_nat (h i - 1) :: u32) \<noteq> 0"
    proof (rule of_nat_u32_nonzero)
      show "0 < h i - 1" "h i - 1 < 2 ^ 32" using n(2) False closed(1) by simp_all
    qed
    ultimately have "ref_refs ?c - 1 > 0" by (simp add: word_neq_0_conv)
    with closed(2) have "t = s\<lparr>cells := (cells s)(i := ?c\<lparr>ref_refs := ref_refs ?c - 1\<rparr>)\<rparr>"
      by (simp add: ref_Close_def Let_def)
    with inv_release[OF inv, of i] False closed(1) show ?thesis by (simp add: fun_upd_def)
  qed
qed

end

interpretation fsback: repo_backend "\<lambda>k. open_repo e k u" "FSRepo_Close e" fr_path os_locks fr_closed
    "lock_ok e \<and> (\<forall>q. Unlock e q = None) \<and> (\<forall>s. ds_Close e s = None)" for e :: "'n repo_env" and u
proof unfold_locales
  fix k s r s' assume "lock_ok e \<and> (\<forall>q. Unlock e q = None) \<and> (\<forall>s. ds_Close e s = None)" and "open_repo e k u s = (Inr r, s')"
  then show "fr_path r \<notin> os_locks s \<and> os_locks s' = insert (fr_path r) (os_locks s) \<and> \<not> fr_closed r"
    using open_repo_locks(1) by blast
next
  fix k s err s' assume "lock_ok e \<and> (\<forall>q. Unlock e q = None) \<and> (\<forall>s. ds_Close e s = None)" and "open_repo e k u s = (Inl err, s')"
  then show "os_locks s' = os_locks s" using open_repo_locks(2) by blast
next
  fix r :: "'n FSRepo" and s err' r' s'
  assume "lock_ok e \<and> (\<forall>q. Unlock e q = None) \<and> (\<forall>s. ds_Close e s = None)" "\<not> fr_closed r"
    "FSRepo_Close e r s = (err', r', s')"
  then show "err' = None \<and> fr_closed r' \<and> os_locks s' = os_locks s - {fr_path r}"
    by (auto simp: FSRepo_Close_def release_def Let_def)
qed

section \<open>Properties\<close>


definition demo_shared :: "(string, nat FSRepo, osys) onlyone" where
  "demo_shared = \<lparr>active = Map.empty, cells = (\<lambda>_. \<lparr>ref_key = [], ref_refs = 0, ref_Repo = demo_repo\<rparr>), oo_fresh = 0,
     backend = \<lparr>os_files = [''r/config'' \<mapsto> ''1'', ''r/datastore_spec'' \<mapsto> ''null'', ''r/version'' \<mapsto> ''12''],
                os_locks = {''other''}, os_stores = []\<rparr>\<rparr>"

lemma demo_opens: "\<exists>r b. open_repo repo_demo_env ''r'' [] (backend demo_shared) = (Inr r, b) \<and> fr_path r = ''r''"
proof -
  have "Atoi (TrimSpace ''12'') = Some 12" by code_simp
  moreover have "TrimSpace ''null'' = ''null''" by code_simp
  ultimately show ?thesis
    by (simp add: demo_shared_def open_repo_def newFSRepo_def Filename_def config_Path_def checkInitialized_def
        configIsInitialized_def open_locked_def read_RepoVersion_def CheckIpfsDir_def IpfsDir_def repoVersion_def
        os_ReadFile_def os_Open_def RepoVersion_def Writable_def serialize_Load_def ReadConfigFile_def openDatastore_def
        readSpec_def spec_text_def openKeystore_def demo_conf_def repo_demo_env_def ds_demo_env_def AnyDatastoreConfig.simps Let_def)
qed


text \<open>
  A failing \<^verbatim>\<open>Close\<close> cannot be repeated.  The reference is dropped from the table and its counter is
  already zero; the next \<^verbatim>\<open>Close\<close> wraps it to \<open>2 ^ 32 - 1\<close>, reports success and does not close anything.
\<close>

theorem Close_retry_ignored:
  assumes "ref_refs (cells s i) = 1" and "closef (ref_Repo (cells s i)) (backend s) = (Some err, r, b)"
    and "ref_Close closef i s = (res, t)"
  shows "res = Some err" and "active t (ref_key (cells s i)) = None" and "fst (ref_Close closef i t) = None"
    and "backend (snd (ref_Close closef i t)) = b"
proof -
  have t: "res = Some err" "t = s\<lparr>cells := (cells s)(i := (cells s i)\<lparr>ref_refs := 0, ref_Repo := r\<rparr>),
      active := (active s)(ref_key (cells s i) := None), backend := b\<rparr>"
    using assms by (simp_all add: ref_Close_def Let_def)
  then show "res = Some err" "active t (ref_key (cells s i)) = None" by simp_all
  show "fst (ref_Close closef i t) = None" "backend (snd (ref_Close closef i t)) = b"
    by (simp_all add: ref_Close_def t Let_def word_gt_0)
qed

end
