(* ===== verification/Bootstrapping.thy ===== *)
theory Bootstrapping
  imports OnlyOne
begin

text \<open>
  Bootstrap peers: the list in the configuration (\<^verbatim>\<open>src/config/bootstrap_peers.go\<close>), the commands that edit
  it (\<^verbatim>\<open>src/core/commands/bootstrap.go\<close>) on top of the shared repositories, and the process that keeps a node
  connected (\<^verbatim>\<open>src/core/bootstrap/bootstrap.go\<close>).

  Multiaddresses belong to another package: their values are a type parameter (\<^verbatim>\<open>Equal\<close> compares the bytes,
  which are the value) and the functions on them are fields of \<open>peer_env\<close>; the host is an abstract state
  with the operations of \<open>host_env\<close>.  \<^verbatim>\<open>rand.Perm\<close> and the schedule of the dialling goroutines are
  arguments.  \<^verbatim>\<open>r.Config()\<close> hands out the configuration the repository itself uses, so what a command writes
  to it is in the repository at once.
\<close>

section \<open>Peers and addresses\<close>

record ('i, 'm) AddrInfo =
  ai_ID :: 'i
  ai_Addrs :: "'m list"

text \<open>\<open>SplitLast\<close> gives the address before the last component, if any, and the protocol code of the last one.\<close>

record ('i, 'm) peer_env =
  NewMultiaddr :: "string \<Rightarrow> string + 'm"
  ma_String :: "'m \<Rightarrow> string"
  SplitLast :: "'m \<Rightarrow> 'm option \<times> int option"
  P_P2P :: int
  AddrInfosFromP2pAddrs :: "'m list \<Rightarrow> string + ('i, 'm) AddrInfo list"
  AddrInfoToP2pAddrs :: "('i, 'm) AddrInfo \<Rightarrow> string + 'm list"

datatype boot_error =
  BadMultiaddr string | BadAddrInfo string | InvalidBootstrapAddress string | WithoutTransport string
| NoPeersToAdd | BadArguments string | BadEnvironment string | RepoError fsrepo_error | PanicErr string

definition DefaultBootstrapAddresses :: "string list" where
  "DefaultBootstrapAddresses =
     [''/ip4/103.39.231.191/tcp/4031/p2p/12D3KooWH8bQr5iQQH5Dcd9odvZCFTV1ktPbC4Jh5Wvf7TMKJh1N'']"

fun parse_addrs :: "('i, 'm) peer_env \<Rightarrow> string list \<Rightarrow> boot_error + 'm list" where
  "parse_addrs pe [] = Inr []"
| "parse_addrs pe (addr # addrs) =
     (case NewMultiaddr pe addr of
        Inl err \<Rightarrow> Inl (BadMultiaddr err)
      | Inr m \<Rightarrow> (case parse_addrs pe addrs of Inl err \<Rightarrow> Inl err | Inr ms \<Rightarrow> Inr (m # ms)))"

definition ParseBootstrapPeers :: "('i, 'm) peer_env \<Rightarrow> string list \<Rightarrow> boot_error + ('i, 'm) AddrInfo list" where
  "ParseBootstrapPeers pe addrs =
     (case parse_addrs pe addrs of
        Inl err \<Rightarrow> Inl err
      | Inr maddrs \<Rightarrow> (case AddrInfosFromP2pAddrs pe maddrs of Inl err \<Rightarrow> Inl (BadAddrInfo err) | Inr ps \<Rightarrow> Inr ps))"

definition BootstrapPeers :: "('i, 'm) peer_env \<Rightarrow> 'n Config \<Rightarrow> boot_error + ('i, 'm) AddrInfo list" where
  "BootstrapPeers pe c = ParseBootstrapPeers pe (Bootstrap c)"

definition DefaultBootstrapPeers :: "('i, 'm) peer_env \<Rightarrow> boot_error + ('i, 'm) AddrInfo list" where
  "DefaultBootstrapPeers pe = ParseBootstrapPeers pe DefaultBootstrapAddresses"

text \<open>An address that cannot be formatted is a panic.\<close>

fun BootstrapPeerStrings :: "('i, 'm) peer_env \<Rightarrow> ('i, 'm) AddrInfo list \<Rightarrow> boot_error + string list" where
  "BootstrapPeerStrings pe [] = Inr []"
| "BootstrapPeerStrings pe (p # ps) =
     (case AddrInfoToP2pAddrs pe p of
        Inl err \<Rightarrow> Inl (PanicErr err)
      | Inr addrs \<Rightarrow>
          (case BootstrapPeerStrings pe ps of
             Inl err \<Rightarrow> Inl err
           | Inr bpss \<Rightarrow> Inr (map (ma_String pe) addrs @ bpss)))"

definition SetBootstrapPeers :: "('i, 'm) peer_env \<Rightarrow> ('i, 'm) AddrInfo list \<Rightarrow> 'n Config \<Rightarrow> boot_error + 'n Config" where
  "SetBootstrapPeers pe bps c =
     (case BootstrapPeerStrings pe bps of Inl err \<Rightarrow> Inl err | Inr ss \<Rightarrow> Inr (c\<lparr>Bootstrap := ss\<rparr>))"

section \<open>Editing the list\<close>

fun check_addrs :: "('i, 'm) peer_env \<Rightarrow> string list \<Rightarrow> boot_error option" where
  "check_addrs pe [] = None"
| "check_addrs pe (p # ps) =
     (case NewMultiaddr pe p of
        Inl err \<Rightarrow> Some (BadMultiaddr err)
      | Inr m \<Rightarrow>
          (case SplitLast pe m of (tpt, p2ppart) \<Rightarrow>
             if p2ppart \<noteq> Some (P_P2P pe) then Some (InvalidBootstrapAddress p)
             else if tpt = None then Some (WithoutTransport p)
             else check_addrs pe ps))"

text \<open>The two loops of \<^verbatim>\<open>bootstrapAdd\<close>: the state is \<^verbatim>\<open>addedMap\<close>, \<^verbatim>\<open>cfg.Bootstrap\<close> and \<^verbatim>\<open>addedList\<close>.\<close>

definition add_new :: "string \<Rightarrow> string set \<times> string list \<times> string list \<Rightarrow> string set \<times> string list \<times> string list" where
  "add_new s st = (case st of (addedMap, boot, added) \<Rightarrow>
     if s \<in> addedMap then st else (insert s addedMap, boot @ [s], added @ [s]))"

definition add_back :: "string \<Rightarrow> string set \<times> string list \<Rightarrow> string set \<times> string list" where
  "add_back s st = (case st of (addedMap, boot) \<Rightarrow>
     if s \<in> addedMap then st else (insert s addedMap, boot @ [s]))"

definition bootstrapAdd ::
    "('i, 'm) peer_env \<Rightarrow> 'n repo_env \<Rightarrow> 'n FSRepo \<Rightarrow> string list \<Rightarrow> osys \<Rightarrow> (boot_error + string list) \<times> 'n FSRepo \<times> osys" where
  "bootstrapAdd pe e r peers w =
     (case check_addrs pe peers of
        Some err \<Rightarrow> (Inl err, r, w)
      | None \<Rightarrow>
          (let bpeers = Bootstrap (fr_config r);
               (addedMap, boot, addedList) = fold add_new peers ({}, [], []);
               (addedMap, boot) = fold add_back bpeers (addedMap, boot);
               cfg = (fr_config r)\<lparr>Bootstrap := boot\<rparr>
           in case SetConfig e (r\<lparr>fr_config := cfg\<rparr>) cfg w of
                (Some err, r, w) \<Rightarrow> (Inl (RepoError err), r, w)
              | (None, r, w) \<Rightarrow> (Inr addedList, r, w)))"

text \<open>The loop with label \<^verbatim>\<open>filter\<close>: the addresses kept and the addresses removed.\<close>

fun filter_addrs :: "'m list \<Rightarrow> 'm list \<Rightarrow> 'm list \<times> 'm list" where
  "filter_addrs addrs [] = ([], [])"
| "filter_addrs addrs (a # as) =
     (case filter_addrs addrs as of (keptAddrs, removedAddrs) \<Rightarrow>
        if list_ex (\<lambda>addr2. a = addr2) addrs then (keptAddrs, a # removedAddrs) else (a # keptAddrs, removedAddrs))"

fun remove_loop ::
    "('i \<rightharpoonup> 'm list) \<Rightarrow> ('i, 'm) AddrInfo list \<Rightarrow> ('i, 'm) AddrInfo list \<times> ('i, 'm) AddrInfo list" where
  "remove_loop toRemoveMap [] = ([], [])"
| "remove_loop toRemoveMap (p # ps) =
     (case remove_loop toRemoveMap ps of (keep, removed) \<Rightarrow>
        (case toRemoveMap (ai_ID p) of
           None \<Rightarrow> (p # keep, removed)
         | Some addrs \<Rightarrow>
             if addrs = [] then (keep, p # removed)
             else (case filter_addrs addrs (ai_Addrs p) of (keptAddrs, removedAddrs) \<Rightarrow>
                     ((if keptAddrs \<noteq> [] then [\<lparr>ai_ID = ai_ID p, ai_Addrs = keptAddrs\<rparr>] else []) @ keep,
                      (if removedAddrs \<noteq> [] then [\<lparr>ai_ID = ai_ID p, ai_Addrs = removedAddrs\<rparr>] else []) @ removed))))"

definition remove_map :: "('i, 'm) AddrInfo list \<Rightarrow> ('i \<rightharpoonup> 'm list)" where
  "remove_map as = foldl (\<lambda>m a. m(ai_ID a \<mapsto> ai_Addrs a)) Map.empty as"

definition bootstrapRemove ::
    "('i, 'm) peer_env \<Rightarrow> 'n repo_env \<Rightarrow> 'n FSRepo \<Rightarrow> string list \<Rightarrow> osys \<Rightarrow> (boot_error + string list) \<times> 'n FSRepo \<times> osys" where
  "bootstrapRemove pe e r toRemove w =
     (case ParseBootstrapPeers pe toRemove of
        Inl err \<Rightarrow> (Inl err, r, w)
      | Inr toRemoveAddr \<Rightarrow>
     (case BootstrapPeers pe (fr_config r) of
        Inl err \<Rightarrow> (Inl err, r, w)
      | Inr peers \<Rightarrow>
     (case remove_loop (remove_map toRemoveAddr) peers of (keep, removed) \<Rightarrow>
     (case SetBootstrapPeers pe keep (fr_config r) of
        Inl err \<Rightarrow> (Inl err, r, w)
      | Inr cfg \<Rightarrow>
     (case SetConfig e (r\<lparr>fr_config := cfg\<rparr>) cfg w of
        (Some err, r, w) \<Rightarrow> (Inl (RepoError err), r, w)
      | (None, r, w) \<Rightarrow> (BootstrapPeerStrings pe removed, r, w))))))"

definition bootstrapRemoveAll ::
    "('i, 'm) peer_env \<Rightarrow> 'n repo_env \<Rightarrow> 'n FSRepo \<Rightarrow> osys \<Rightarrow> (boot_error + string list) \<times> 'n FSRepo \<times> osys" where
  "bootstrapRemoveAll pe e r w =
     (case BootstrapPeers pe (fr_config r) of
        Inl err \<Rightarrow> (Inl err, r, w)
      | Inr removed \<Rightarrow>
          (let cfg = (fr_config r)\<lparr>Bootstrap := []\<rparr> in
           case SetConfig e (r\<lparr>fr_config := cfg\<rparr>) cfg w of
             (Some err, r, w) \<Rightarrow> (Inl (RepoError err), r, w)
           | (None, r, w) \<Rightarrow> (BootstrapPeerStrings pe removed, r, w)))"

text \<open>
  \<^verbatim>\<open>bootstrapWritePeers\<close>; \<open>write n\<close> is the error of the write number \<open>n\<close>, if it fails.
\<close>

fun write_lines :: "(nat \<Rightarrow> string option) \<Rightarrow> nat \<Rightarrow> string \<Rightarrow> string list \<Rightarrow> string option \<times> string" where
  "write_lines write n pre [] = (None, [])"
| "write_lines write n pre (p # ps) =
     (case write n of
        Some err \<Rightarrow> (Some err, [])
      | None \<Rightarrow> (case write_lines write (Suc n) pre ps of (err, out) \<Rightarrow> (err, pre @ p @ [CHR 0x0A] @ out)))"

definition bootstrapWritePeers :: "(nat \<Rightarrow> string option) \<Rightarrow> string \<Rightarrow> string list \<Rightarrow> string option \<times> string" where
  "bootstrapWritePeers write pre peers = write_lines write 0 pre (sort peers)"

section \<open>The commands\<close>

text \<open>
  What the commands share: the repository of the configuration root is opened through the table of shared
  repositories, the body runs on it, and the deferred \<^verbatim>\<open>Close\<close> of the reference runs in every case; its
  error is dropped.  In a daemon the repository is the one the daemon holds.
\<close>

type_synonym 'n repos = "(path, 'n FSRepo, osys) onlyone"

definition run_on :: "('n FSRepo \<Rightarrow> osys \<Rightarrow> 'a \<times> 'n FSRepo \<times> osys) \<Rightarrow> nat \<Rightarrow> 'n repos \<Rightarrow> 'a \<times> 'n repos" where
  "run_on body i s =
     (case body (ref_Repo (cells s i)) (backend s) of
        (res, r, w) \<Rightarrow> (res, s\<lparr>cells := (cells s)(i := (cells s i)\<lparr>ref_Repo := r\<rparr>), backend := w\<rparr>))"

definition on_repo ::
    "'n repo_env \<Rightarrow> (string \<Rightarrow> 'err) \<Rightarrow> (fsrepo_error \<Rightarrow> 'err) \<Rightarrow> string + path
     \<Rightarrow> ('n FSRepo \<Rightarrow> osys \<Rightarrow> ('err + 'a) \<times> 'n FSRepo \<times> osys) \<Rightarrow> 'n repos \<Rightarrow> ('err + 'a) \<times> 'n repos" where
  "on_repo e bad_root bad_repo cfgRoot body s =
     (case cfgRoot of
        Inl err \<Rightarrow> (Inl (bad_root err), s)
      | Inr root \<Rightarrow>
     (case fsrepo_Open e root s of
        (Inl err, s) \<Rightarrow> (Inl (bad_repo err), s)
      | (Inr i, s) \<Rightarrow> (case run_on body i s of (res, s) \<Rightarrow> (res, snd (ref_Close (FSRepo_Close e) i s)))))"

text \<open>The bootstrap commands first ask for the configuration.\<close>

definition checked :: "('n FSRepo \<Rightarrow> osys \<Rightarrow> (boot_error + 'a) \<times> 'n FSRepo \<times> osys) \<Rightarrow> 'n FSRepo \<Rightarrow> osys
     \<Rightarrow> (boot_error + 'a) \<times> 'n FSRepo \<times> osys" where
  "checked body r w = (case FSRepo_Config r of Inl err \<Rightarrow> (Inl (RepoError err), r, w) | Inr _ \<Rightarrow> body r w)"

definition with_repo ::
    "'n repo_env \<Rightarrow> string + path \<Rightarrow> ('n FSRepo \<Rightarrow> osys \<Rightarrow> (boot_error + 'a) \<times> 'n FSRepo \<times> osys) \<Rightarrow> 'n repos
     \<Rightarrow> (boot_error + 'a) \<times> 'n repos" where
  "with_repo e cfgRoot body s = on_repo e BadEnvironment RepoError cfgRoot (checked body) s"

definition bootstrapAddCmd ::
    "('i, 'm) peer_env \<Rightarrow> 'n repo_env \<Rightarrow> string + path \<Rightarrow> bool \<Rightarrow> string + string list \<Rightarrow> 'n repos \<Rightarrow> (boot_error + string list) \<times> 'n repos" where
  "bootstrapAddCmd pe e cfgRoot deflt args s =
     (case (if deflt then Inr DefaultBootstrapAddresses else args) of
        Inl err \<Rightarrow> (Inl (BadArguments err), s)
      | Inr inputPeers \<Rightarrow>
          if inputPeers = [] then (Inl NoPeersToAdd, s)
          else with_repo e cfgRoot (\<lambda>r. bootstrapAdd pe e r inputPeers) s)"

definition bootstrapAddDefaultCmd ::
    "('i, 'm) peer_env \<Rightarrow> 'n repo_env \<Rightarrow> string + path \<Rightarrow> 'n repos \<Rightarrow> (boot_error + string list) \<times> 'n repos" where
  "bootstrapAddDefaultCmd pe e cfgRoot s =
     with_repo e cfgRoot (\<lambda>r. bootstrapAdd pe e r DefaultBootstrapAddresses) s"

definition bootstrapRemoveCmd ::
    "('i, 'm) peer_env \<Rightarrow> 'n repo_env \<Rightarrow> string + path \<Rightarrow> bool \<Rightarrow> string + string list \<Rightarrow> 'n repos \<Rightarrow> (boot_error + string list) \<times> 'n repos" where
  "bootstrapRemoveCmd pe e cfgRoot all args s =
     with_repo e cfgRoot
       (\<lambda>r w. if all then bootstrapRemoveAll pe e r w
              else (case args of
                      Inl err \<Rightarrow> (Inl (BadArguments err), r, w)
                    | Inr as \<Rightarrow> bootstrapRemove pe e r as w)) s"

definition bootstrapRemoveAllCmd ::
    "('i, 'm) peer_env \<Rightarrow> 'n repo_env \<Rightarrow> string + path \<Rightarrow> 'n repos \<Rightarrow> (boot_error + string list) \<times> 'n repos" where
  "bootstrapRemoveAllCmd pe e cfgRoot s = with_repo e cfgRoot (bootstrapRemoveAll pe e) s"

definition bootstrapListCmd ::
    "('i, 'm) peer_env \<Rightarrow> 'n repo_env \<Rightarrow> string + path \<Rightarrow> 'n repos \<Rightarrow> (boot_error + string list) \<times> 'n repos" where
  "bootstrapListCmd pe e cfgRoot s =
     with_repo e cfgRoot
       (\<lambda>r w. case BootstrapPeers pe (fr_config r) of
                Inl err \<Rightarrow> (Inl err, r, w)
              | Inr peers \<Rightarrow> (BootstrapPeerStrings pe peers, r, w)) s"

section \<open>A round of bootstrapping\<close>

text \<open>Durations are nanoseconds.\<close>

record BootstrapConfig =
  MinPeerThreshold :: int
  Period :: int
  ConnectionTimeout :: int

definition DefaultBootstrapConfig :: BootstrapConfig where
  "DefaultBootstrapConfig = \<lparr>MinPeerThreshold = 4, Period = 30 * 1000000000, ConnectionTimeout = (30 * 1000000000) div 3\<rparr>"

record ('i, 'm, 'h) host_env =
  Network_Peers :: "'h \<Rightarrow> 'i list"
  isConnected :: "'h \<Rightarrow> 'i \<Rightarrow> bool"
  AddAddrs :: "'i \<Rightarrow> 'm list \<Rightarrow> 'h \<Rightarrow> 'h"
  Connect :: "('i, 'm) AddrInfo \<Rightarrow> 'h \<Rightarrow> string option \<times> 'h"

datatype round_error = ErrNotEnoughBootstrapPeers | FailedToBootstrap string | SlicePanic

text \<open>
  One goroutine per peer: it first adds the addresses to the peer store, then connects and reports a
  failure on the channel \<^verbatim>\<open>errs\<close>.  A schedule is the order in which the goroutines take their steps;
  \<open>cs_log\<close> records the attempts.
\<close>

record ('i, 'm, 'h) conn_state =
  cs_host :: 'h
  cs_pc :: "nat \<Rightarrow> nat"
  cs_errs :: "string list"
  cs_log :: "(nat \<times> string option) list"

definition conn_step ::
    "('i, 'm, 'h) host_env \<Rightarrow> ('i, 'm) AddrInfo list \<Rightarrow> nat \<Rightarrow> ('i, 'm, 'h) conn_state \<Rightarrow> ('i, 'm, 'h) conn_state" where
  "conn_step he peers i s =
     (let p = peers ! i in
      if cs_pc s i = 0 then
        s\<lparr>cs_host := AddAddrs he (ai_ID p) (ai_Addrs p) (cs_host s), cs_pc := (cs_pc s)(i := 1)\<rparr>
      else if cs_pc s i = 1 then
        (case Connect he p (cs_host s) of (res, h) \<Rightarrow>
           s\<lparr>cs_host := h, cs_pc := (cs_pc s)(i := 2),
             cs_errs := cs_errs s @ (case res of None \<Rightarrow> [] | Some err \<Rightarrow> [err]),
             cs_log := cs_log s @ [(i, res)]\<rparr>)
      else s)"

text \<open>\<^verbatim>\<open>wg.Wait()\<close> returns when every goroutine has taken both steps.\<close>

definition complete :: "nat \<Rightarrow> nat list \<Rightarrow> bool" where
  "complete n sched \<longleftrightarrow> set sched \<subseteq> {..<n} \<and> (\<forall>i<n. count_list sched i = 2)"

definition bootstrapConnect ::
    "('i, 'm, 'h) host_env \<Rightarrow> nat list \<Rightarrow> ('i, 'm) AddrInfo list \<Rightarrow> 'h \<Rightarrow> round_error option \<times> 'h \<times> (nat \<times> string option) list" where
  "bootstrapConnect he sched peers h =
     (if length peers < 1 then (Some ErrNotEnoughBootstrapPeers, h, [])
      else
        (let s = fold (conn_step he peers) sched \<lparr>cs_host = h, cs_pc = (\<lambda>_. 0), cs_errs = [], cs_log = []\<rparr>;
             count = length (cs_errs s)
         in if count = length peers then (Some (FailedToBootstrap (last (cs_errs s))), cs_host s, cs_log s)
            else (None, cs_host s, cs_log s)))"

text \<open>\<open>perm\<close> is the result of \<^verbatim>\<open>rand.Perm(len(in))\<close>; a negative \<^verbatim>\<open>max\<close> panics.\<close>

definition randomSubsetOfPeers :: "nat list \<Rightarrow> 'a list \<Rightarrow> int \<Rightarrow> 'a list option" where
  "randomSubsetOfPeers perm ins maxn =
     (let maxn = (if maxn > int (length ins) then int (length ins) else maxn) in
      if maxn < 0 then None else Some (map (\<lambda>val. ins ! val) (take (nat maxn) perm)))"

definition bootstrapRound ::
    "('i, 'm, 'h) host_env \<Rightarrow> (nat \<Rightarrow> nat list) \<Rightarrow> (nat \<Rightarrow> nat list) \<Rightarrow> BootstrapConfig \<Rightarrow> ('i, 'm) AddrInfo list \<Rightarrow> 'h
     \<Rightarrow> round_error option \<times> 'h \<times> ('i, 'm) AddrInfo list \<times> (nat \<times> string option) list" where
  "bootstrapRound he perm sched cfg peers h =
     (let connected = Network_Peers he h in
      if int (length connected) \<ge> MinPeerThreshold cfg then (None, h, [], [])
      else
        (let numToDial = MinPeerThreshold cfg - int (length connected);
             notConnected = filter (\<lambda>p. \<not> isConnected he h (ai_ID p)) peers
         in if length notConnected < 1 then (Some ErrNotEnoughBootstrapPeers, h, [], [])
            else
              (case randomSubsetOfPeers (perm (length notConnected)) notConnected numToDial of
                 None \<Rightarrow> (Some SlicePanic, h, [], [])
               | Some randSubset \<Rightarrow>
                   (case bootstrapConnect he (sched (length randSubset)) randSubset h of
                      (err, h, log) \<Rightarrow> (err, h, randSubset, log)))))"

section \<open>The periodic process\<close>

text \<open>
  \<^verbatim>\<open>Bootstrap\<close> starts one worker at once and one per tick of the period; a worker ends its round with a
  receive on \<^verbatim>\<open>doneWithRound\<close>.  Meanwhile the caller runs \<^verbatim>\<open>rt.Bootstrap\<close> (when there is a router), sends
  on the channel once and closes it.  A process of \<^verbatim>\<open>goprocess\<close> is closed when its children are.
\<close>

datatype worker = InRound | AtDone | Ended

datatype boot_pc = RunRouting | SendDone | CloseDone | Returned | ClosingProc | ReturnedErr

record bproc =
  bp_pc :: boot_pc
  bp_workers :: "worker list"
  bp_closed :: bool

definition Bootstrap_start :: "bool \<Rightarrow> bproc" where
  "Bootstrap_start rt = \<lparr>bp_pc = (if rt then RunRouting else SendDone), bp_workers = [InRound], bp_closed = False\<rparr>"

inductive bstep :: "bproc \<Rightarrow> bproc \<Rightarrow> bool" where
  tick: "bp_pc s \<notin> {ClosingProc, ReturnedErr} \<Longrightarrow> bstep s (s\<lparr>bp_workers := bp_workers s @ [InRound]\<rparr>)"
| round: "i < length (bp_workers s) \<Longrightarrow> bp_workers s ! i = InRound \<Longrightarrow> bstep s (s\<lparr>bp_workers := (bp_workers s)[i := AtDone]\<rparr>)"
| routing_ok: "bp_pc s = RunRouting \<Longrightarrow> bstep s (s\<lparr>bp_pc := SendDone\<rparr>)"
| routing_err: "bp_pc s = RunRouting \<Longrightarrow> bstep s (s\<lparr>bp_pc := ClosingProc\<rparr>)"
| send: "bp_pc s = SendDone \<Longrightarrow> i < length (bp_workers s) \<Longrightarrow> bp_workers s ! i = AtDone \<Longrightarrow>
    bstep s (s\<lparr>bp_pc := CloseDone, bp_workers := (bp_workers s)[i := Ended]\<rparr>)"
| close_done: "bp_pc s = CloseDone \<Longrightarrow> bstep s (s\<lparr>bp_pc := Returned, bp_closed := True\<rparr>)"
| recv_closed: "bp_closed s \<Longrightarrow> i < length (bp_workers s) \<Longrightarrow> bp_workers s ! i = AtDone \<Longrightarrow>
    bstep s (s\<lparr>bp_workers := (bp_workers s)[i := Ended]\<rparr>)"
| proc_closed: "bp_pc s = ClosingProc \<Longrightarrow> set (bp_workers s) \<subseteq> {Ended} \<Longrightarrow> bstep s (s\<lparr>bp_pc := ReturnedErr\<rparr>)"

definition bp_init :: "bproc \<Rightarrow> bool" where
  "bp_init s \<longleftrightarrow> (\<exists>rt. s = Bootstrap_start rt)"

text \<open>Before the caller has sent, no worker has got past the channel; it is closed exactly when the caller has returned.\<close>

definition bp_inv :: "bproc \<Rightarrow> bool" where
  "bp_inv s \<longleftrightarrow> bp_workers s \<noteq> [] \<and> bp_pc s \<noteq> ReturnedErr \<and> (bp_closed s \<longleftrightarrow> bp_pc s = Returned) \<and>
     (bp_pc s \<in> {RunRouting, SendDone, ClosingProc} \<longrightarrow> Ended \<notin> set (bp_workers s))"

lemma bstep_inv [go_inv]: "bstep s t \<Longrightarrow> bp_inv s \<Longrightarrow> bp_inv t"
proof (induction rule: bstep.induct)
  case (round i s)
  then show ?case using set_update_subset_insert[of "bp_workers s" i AtDone] by (auto simp: bp_inv_def)
next
  case (proc_closed s)
  then have "Ended \<in> set (bp_workers s)" by (cases "bp_workers s") (auto simp: bp_inv_def)
  with proc_closed show ?case by (simp add: bp_inv_def)
qed (auto simp: bp_inv_def)

lemma bp_init_inv: "bp_init s \<Longrightarrow> bp_inv s"
  by (auto simp: bp_init_def Bootstrap_start_def bp_inv_def split: if_splits)

interpretation bsys: transition_system bp_init bstep bp_inv
  using bp_init_inv bstep_inv by unfold_locales

section \<open>Lists without repetitions\<close>

text \<open>The first occurrence of every element, in order.\<close>

abbreviation firsts :: "'a list \<Rightarrow> 'a list" where
  "firsts xs \<equiv> rev (remdups (rev xs))"

lemma firsts_snoc: "firsts (xs @ [x]) = (if x \<in> set xs then firsts xs else firsts xs @ [x])"
  by simp

lemma add_new_fold: "fold add_new ps ({}, [], []) = (set ps, firsts ps, firsts ps)"
  by (induction ps rule: rev_induct) (auto simp: add_new_def)

lemma add_back_fold: "fold add_back qs (set ps, firsts ps) = (set (ps @ qs), firsts (ps @ qs))"
  by (induction qs rule: rev_induct)
    (auto simp: add_back_def simp del: rev_append append_assoc simp add: append_assoc[symmetric] firsts_snoc)

lemma firsts_append: "\<exists>ys. firsts (xs @ ys0) = firsts xs @ ys"
proof (induction ys0 rule: rev_induct)
  case (snoc y ys)
  then show ?case unfolding append_assoc[symmetric] firsts_snoc by auto
qed simp

section \<open>The lists that are edited\<close>

lemma check_addrs_ok:
  "check_addrs pe ps = None \<longleftrightarrow>
     (\<forall>p \<in> set ps. \<exists>m tpt. NewMultiaddr pe p = Inr m \<and> SplitLast pe m = (Some tpt, Some (P_P2P pe)))"
  by (induction ps) (auto split: sum.splits prod.splits)

text \<open>The pairs of peer and address a list of peers stands for, and those a request selects.\<close>

definition addr_pairs :: "('i, 'm) AddrInfo list \<Rightarrow> ('i \<times> 'm) set" where
  "addr_pairs ps = {(i, a). \<exists>p \<in> set ps. ai_ID p = i \<and> a \<in> set (ai_Addrs p)}"

definition requested :: "('i \<rightharpoonup> 'm list) \<Rightarrow> ('i \<times> 'm) set" where
  "requested rm = {(i, a). \<exists>addrs. rm i = Some addrs \<and> (addrs = [] \<or> a \<in> set addrs)}"

lemma addr_pairs_simps [simp]:
  "addr_pairs [] = {}"
  "addr_pairs (p # ps) = {ai_ID p} \<times> set (ai_Addrs p) \<union> addr_pairs ps"
  "addr_pairs (ps @ qs) = addr_pairs ps \<union> addr_pairs qs"
  by (auto simp: addr_pairs_def)

lemma filter_addrs_filter:
  "filter_addrs addrs as = (filter (\<lambda>a. a \<notin> set addrs) as, filter (\<lambda>a. a \<in> set addrs) as)"
  by (induction as) (auto simp: list_ex_iff)

lemma remove_loop_pairs:
  assumes "remove_loop rm ps = (keep, removed)"
  shows "addr_pairs keep = addr_pairs ps - requested rm" and "addr_pairs removed = addr_pairs ps \<inter> requested rm"
    and "{p \<in> set ps. rm (ai_ID p) = None} \<subseteq> set keep"
proof -
  have "addr_pairs keep = addr_pairs ps - requested rm \<and> addr_pairs removed = addr_pairs ps \<inter> requested rm \<and>
      {p \<in> set ps. rm (ai_ID p) = None} \<subseteq> set keep"
    using assms
  proof (induction ps arbitrary: keep removed)
    case (Cons p ps)
    obtain k d where r: "remove_loop rm ps = (k, d)" by fastforce
    note IH = Cons.IH[OF r]
    show ?case
    proof (cases "rm (ai_ID p)")
      case None
      with Cons.prems r have "keep = p # k" "removed = d" by auto
      with None IH show ?thesis by (auto simp: requested_def)
    next
      case (Some addrs)
      show ?thesis
      proof (cases "addrs = []")
        case True
        with Some Cons.prems r have "keep = k" "removed = p # d" by auto
        with Some True IH show ?thesis by (auto simp: requested_def)
      next
        case False
        with Some Cons.prems r have kd:
          "addr_pairs keep = {ai_ID p} \<times> {a \<in> set (ai_Addrs p). a \<notin> set addrs} \<union> addr_pairs k"
          "addr_pairs removed = {ai_ID p} \<times> {a \<in> set (ai_Addrs p). a \<in> set addrs} \<union> addr_pairs d" "set k \<subseteq> set keep"
          by (auto simp: filter_addrs_filter filter_empty_conv split: if_splits)
        with Some False IH show ?thesis by (auto simp: requested_def)
      qed
    qed
  qed simp
  then show "addr_pairs keep = addr_pairs ps - requested rm" "addr_pairs removed = addr_pairs ps \<inter> requested rm"
    "{p \<in> set ps. rm (ai_ID p) = None} \<subseteq> set keep" by auto
qed

section \<open>Dialling\<close>

lemma conn_fold:
  assumes "set sched \<subseteq> {..<n}"
    and "fold (conn_step he peers) sched \<lparr>cs_host = h, cs_pc = (\<lambda>_. 0), cs_errs = [], cs_log = []\<rparr> = s"
  shows "(\<forall>i. cs_pc s i = min 2 (count_list sched i)) \<and> distinct (map fst (cs_log s)) \<and>
    set (map fst (cs_log s)) = {i. 2 \<le> count_list sched i} \<and> cs_errs s = List.map_filter snd (cs_log s)"
  using assms
proof (induction sched arbitrary: s rule: rev_induct)
  case (snoc j js)
  define t where "t = fold (conn_step he peers) js \<lparr>cs_host = h, cs_pc = (\<lambda>_. 0), cs_errs = [], cs_log = []\<rparr>"
  have s: "s = conn_step he peers j t" using snoc.prems by (simp add: t_def)
  have IH: "(\<forall>i. cs_pc t i = min 2 (count_list js i)) \<and> distinct (map fst (cs_log t)) \<and>
      set (map fst (cs_log t)) = {i. 2 \<le> count_list js i} \<and> cs_errs t = List.map_filter snd (cs_log t)"
    using snoc.IH[OF _ t_def[symmetric]] snoc.prems(1) by simp
  consider "count_list js j = 0" | "count_list js j = 1" | "count_list js j \<ge> 2" by linarith
  then show ?case
  proof cases
    case 1
    then have "s = t\<lparr>cs_host := AddAddrs he (ai_ID (peers ! j)) (ai_Addrs (peers ! j)) (cs_host t), cs_pc := (cs_pc t)(j := 1)\<rparr>"
      using IH by (simp add: s conn_step_def Let_def)
    moreover have "{i. 2 \<le> count_list (js @ [j]) i} = {i. 2 \<le> count_list js i}" using 1 by (auto split: if_splits)
    ultimately show ?thesis using IH 1 by simp
  next
    case 2
    obtain res h' where c: "Connect he (peers ! j) (cs_host t) = (res, h')" by fastforce
    have "s = t\<lparr>cs_host := h', cs_pc := (cs_pc t)(j := 2), cs_errs := cs_errs t @ (case res of None \<Rightarrow> [] | Some err \<Rightarrow> [err]),
        cs_log := cs_log t @ [(j, res)]\<rparr>" using IH 2 c by (simp add: s conn_step_def Let_def)
    moreover have "{i. 2 \<le> count_list (js @ [j]) i} = insert j {i. 2 \<le> count_list js i}" using 2 by (auto split: if_splits)
    moreover have "j \<notin> fst ` set (cs_log t)" using IH 2 by auto
    ultimately show ?thesis using IH 2 by (auto simp: map_filter_def split: option.splits)
  next
    case 3
    then have "s = t" using IH by (simp add: s conn_step_def Let_def min_def)
    moreover have "{i. 2 \<le> count_list (js @ [j]) i} = {i. 2 \<le> count_list js i}" using 3 by auto
    ultimately show ?thesis using IH 3 by (simp add: min_def)
  qed
qed (auto simp: map_filter_def)

lemma map_filter_full: "length (List.map_filter f xs) = length xs \<longleftrightarrow> (\<forall>x \<in> set xs. f x \<noteq> None)"
proof (induction xs)
  case (Cons x xs)
  have "length (filter (\<lambda>x. \<exists>y. f x = Some y) xs) \<noteq> Suc (length xs)" by (metis length_filter_le Suc_n_not_le_n)
  with Cons show ?case by (auto simp: map_filter_def)
qed (simp add: map_filter_def)

text \<open>
  Every peer is tried once, whatever the schedule, and the result is an error exactly when no attempt
  succeeded.
\<close>

lemma bootstrapConnect_log:
  assumes "complete (length peers) sched" and "peers \<noteq> []" and "bootstrapConnect he sched peers h = (err, h', log)"
  shows "distinct (map fst log)" and "set (map fst log) = {..<length peers}" and "err = None \<longleftrightarrow> (\<exists>i. (i, None) \<in> set log)"
proof -
  define s where "s = fold (conn_step he peers) sched \<lparr>cs_host = h, cs_pc = (\<lambda>_. 0), cs_errs = [], cs_log = []\<rparr>"
  have sub: "set sched \<subseteq> {..<length peers}" using assms(1) by (simp add: complete_def)
  note f = conn_fold[OF sub s_def[symmetric]]
  have r: "log = cs_log s" "err = None \<longleftrightarrow> length (cs_errs s) \<noteq> length peers"
    using assms(2,3) by (auto simp: bootstrapConnect_def s_def[symmetric] Let_def Suc_le_eq split: if_splits)
  show d: "distinct (map fst log)" using f r by simp
  have out: "count_list sched i = 0" if "\<not> i < length peers" for i using sub that by (auto simp: count_list_0_iff)
  have "{i. 2 \<le> count_list sched i} = {..<length peers}"
    using assms(1) out unfolding complete_def by (auto simp: not_less_eq) (metis not_less_eq not_numeral_le_zero linorder_not_le)
  with f r show dom: "set (map fst log) = {..<length peers}" by simp
  have "length log = length peers" using distinct_card[OF d] dom by simp
  then show "err = None \<longleftrightarrow> (\<exists>i. (i, None) \<in> set log)"
    using f r map_filter_full[of snd log] by fastforce
qed

lemma randomSubset_ok:
  assumes "mset perm = mset [0..<length ins]" and "0 \<le> m"
  shows "\<exists>out. randomSubsetOfPeers perm ins m = Some out \<and> length out = min (nat m) (length ins) \<and> mset out \<subseteq># mset ins"
proof -
  let ?k = "nat (if m > int (length ins) then int (length ins) else m)"
  have len: "length perm = length ins" using mset_eq_length[OF assms(1)] by simp
  have "mset (map ((!) ins) perm) = mset (map ((!) ins) [0..<length ins])" using assms(1) by (simp only: mset_map)
  then have all: "mset (map ((!) ins) perm) = mset ins" by (simp only: map_nth)
  have "mset (map ((!) ins) (take ?k perm)) \<subseteq># mset (map ((!) ins) perm)"
    by (metis append_take_drop_id map_append mset_append mset_subset_eq_add_left)
  then have sub: "mset (map ((!) ins) (take ?k perm)) \<subseteq># mset ins" unfolding all .
  have "randomSubsetOfPeers perm ins m = Some (map ((!) ins) (take ?k perm))"
    using assms(2) by (simp add: randomSubsetOfPeers_def Let_def)
  moreover have "length (map ((!) ins) (take ?k perm)) = min (nat m) (length ins)" using len assms(2) by auto
  ultimately show ?thesis using sub by blast
qed

section \<open>Commands on an open repository\<close>

text \<open>
  What a command may do with the repository it is given: change its files and its configuration, but
  neither close it nor touch the locks.
\<close>

locale repo_command =
  fixes e :: "'n repo_env"
    and body :: "'n FSRepo \<Rightarrow> osys \<Rightarrow> ('err + 'a) \<times> 'n FSRepo \<times> osys"
  assumes keeps: "body r w = (res, r', w') \<Longrightarrow>
    fr_path r' = fr_path r \<and> fr_closed r' = fr_closed r \<and> os_locks w' = os_locks w"
begin

lemma locks_restored_on:
  assumes "lock_ok e" and "\<forall>q. Unlock e q = None" and "\<forall>d. ds_Close e d = None"
    and "\<forall>p i. active s p = Some i \<longrightarrow> 0 < ref_refs (cells s i) \<and> ref_refs (cells s i) + 1 \<noteq> 0"
  shows "os_locks (backend (snd (on_repo e f g root body s))) = os_locks (backend s) \<and> active (snd (on_repo e f g root body s)) = active s"
proof (cases root)
  case (Inr p)
  show ?thesis
  proof (cases "active s p")
    case None
    obtain res w1 where o: "open_repo e p [] (backend s) = (res, w1)" by fastforce
    show ?thesis
    proof (cases res)
      case Inl
      with o None open_repo_locks(2)[OF assms(1) o _ assms(2)] show ?thesis
        by (simp add: on_repo_def Inr fsrepo_Open_def OnlyOne_Open_def)
    next
      case r: (Inr r)
      note l = open_repo_locks(1)[OF assms(1) o r]
      obtain x r' w2 where b: "body r w1 = (x, r', w2)" by (metis prod_cases3)
      obtain err r'' w3 where c: "FSRepo_Close e r' w2 = (err, r'', w3)" by (metis prod_cases3)
      have k: "fr_path r' = fr_path r" "\<not> fr_closed r'" "os_locks w2 = os_locks w1" using keeps[OF b] l by simp_all
      then have "err = None" using c assms(2,3) by (auto simp: FSRepo_Close_def release_def Let_def)
      then have "os_locks w3 = os_locks w1 - {fr_path r}" using FSRepo_Close_locks(1)[OF c] k by simp
      with l None show ?thesis
        by (simp add: on_repo_def Inr fsrepo_Open_def OnlyOne_Open_def o r run_on_def b ref_Close_def c
            Let_def fun_upd_idem)
    qed
  next
    case (Some i)
    let ?r = "ref_Repo (cells s i)"
    obtain x r' w2 where b: "body ?r (backend s) = (x, r', w2)" by (metis prod_cases3)
    have "os_locks w2 = os_locks (backend s)" using keeps[OF b] by simp
    with assms(4) Some b show ?thesis
      by (simp add: on_repo_def Inr fsrepo_Open_def OnlyOne_Open_def run_on_def ref_Close_def Let_def)
  qed
qed (simp add: on_repo_def)

end

locale checked_command = repo_command e body
  for e :: "'n repo_env" and body :: "'n FSRepo \<Rightarrow> osys \<Rightarrow> (boot_error + 'a) \<times> 'n FSRepo \<times> osys"

sublocale checked_command \<subseteq> checked: repo_command e "checked body"
  by unfold_locales (auto simp: checked_def split: sum.splits dest: keeps)

context checked_command
begin

lemma locks_restored:
  assumes "lock_ok e" and "\<forall>q. Unlock e q = None" and "\<forall>d. ds_Close e d = None"
    and "\<forall>p i. active s p = Some i \<longrightarrow> 0 < ref_refs (cells s i) \<and> ref_refs (cells s i) + 1 \<noteq> 0"
  shows "os_locks (backend (snd (with_repo e root body s))) = os_locks (backend s) \<and> active (snd (with_repo e root body s)) = active s"
  unfolding with_repo_def by (rule checked.locks_restored_on[OF assms])

end

lemma SetConfig_frame:
  "SetConfig e r c w = (err, r', w') \<Longrightarrow>
     fr_path r' = fr_path r \<and> fr_closed r' = fr_closed r \<and> os_locks w' = os_locks w"
  by (auto simp: SetConfig_def WriteConfigFile_def Let_def split: sum.splits prod.splits option.splits)

lemma bootstrapAdd_frame:
  "bootstrapAdd pe e r peers w = (res, r', w') \<Longrightarrow>
     fr_path r' = fr_path r \<and> fr_closed r' = fr_closed r \<and> os_locks w' = os_locks w"
  by (auto simp: bootstrapAdd_def Let_def split: prod.splits option.splits dest!: SetConfig_frame)

lemma bootstrapRemove_frame:
  "bootstrapRemove pe e r peers w = (res, r', w') \<Longrightarrow>
     fr_path r' = fr_path r \<and> fr_closed r' = fr_closed r \<and> os_locks w' = os_locks w"
  by (auto simp: bootstrapRemove_def split: sum.splits prod.splits option.splits dest!: SetConfig_frame)

lemma bootstrapRemoveAll_frame:
  "bootstrapRemoveAll pe e r w = (res, r', w') \<Longrightarrow>
     fr_path r' = fr_path r \<and> fr_closed r' = fr_closed r \<and> os_locks w' = os_locks w"
  by (auto simp: bootstrapRemoveAll_def Let_def split: sum.splits prod.splits option.splits dest!: SetConfig_frame)

interpretation add_body: checked_command e "\<lambda>r. bootstrapAdd pe e r peers" for e pe peers
  by unfold_locales (rule bootstrapAdd_frame)

interpretation remove_all_body: checked_command e "bootstrapRemoveAll pe e" for e pe
  by unfold_locales (rule bootstrapRemoveAll_frame)

interpretation remove_body: checked_command e
  "\<lambda>r w. if all then bootstrapRemoveAll pe e r w
     else (case args of Inl err \<Rightarrow> (Inl (BadArguments err), r, w) | Inr as \<Rightarrow> bootstrapRemove pe e r as w)" for e pe all args
  by unfold_locales (auto split: if_splits sum.splits dest: bootstrapRemove_frame bootstrapRemoveAll_frame)

interpretation list_body: checked_command e
  "\<lambda>r w. case BootstrapPeers pe (fr_config r) of Inl err \<Rightarrow> (Inl err, r, w) | Inr peers \<Rightarrow> (BootstrapPeerStrings pe peers, r, w)" for e pe
  by unfold_locales (auto split: sum.splits)

section \<open>Properties\<close>

text \<open>
  The bootstrap commands give back what they take: whether \<^verbatim>\<open>add\<close>, \<^verbatim>\<open>add default\<close>, \<^verbatim>\<open>rm\<close>, \<^verbatim>\<open>rm all\<close> or
  \<^verbatim>\<open>list\<close> succeeds or fails, at whatever point, and whether it runs alone or inside a daemon that holds the
  repository, the locks held and the table of shared repositories afterwards are those from before, as
  long as locks can be released, datastores closed and no counter is at its maximum.
\<close>

theorem bootstrap_commands_unlock:
  assumes "lock_ok e" and "\<forall>q. Unlock e q = None" and "\<forall>d. ds_Close e d = None"
    and "\<forall>p i. active s p = Some i \<longrightarrow> 0 < ref_refs (cells s i) \<and> ref_refs (cells s i) + 1 \<noteq> 0"
    and "s' \<in> {snd (bootstrapAddCmd pe e root deflt args s), snd (bootstrapAddDefaultCmd pe e root s),
      snd (bootstrapRemoveCmd pe e root all args s), snd (bootstrapRemoveAllCmd pe e root s), snd (bootstrapListCmd pe e root s)}"
  shows "os_locks (backend s') = os_locks (backend s) \<and> active s' = active s"
proof -
  have "os_locks (backend (snd (bootstrapAddCmd pe e root deflt args s))) = os_locks (backend s) \<and>
      active (snd (bootstrapAddCmd pe e root deflt args s)) = active s"
    by (simp add: bootstrapAddCmd_def add_body.locks_restored[OF assms(1-4)] split: sum.splits)
  moreover have "os_locks (backend (snd (bootstrapAddDefaultCmd pe e root s))) = os_locks (backend s) \<and>
      active (snd (bootstrapAddDefaultCmd pe e root s)) = active s"
    unfolding bootstrapAddDefaultCmd_def by (rule add_body.locks_restored[OF assms(1-4)])
  moreover have "os_locks (backend (snd (bootstrapRemoveCmd pe e root all args s))) = os_locks (backend s) \<and>
      active (snd (bootstrapRemoveCmd pe e root all args s)) = active s"
    unfolding bootstrapRemoveCmd_def by (rule remove_body.locks_restored[OF assms(1-4)])
  moreover have "os_locks (backend (snd (bootstrapRemoveAllCmd pe e root s))) = os_locks (backend s) \<and>
      active (snd (bootstrapRemoveAllCmd pe e root s)) = active s"
    unfolding bootstrapRemoveAllCmd_def by (rule remove_all_body.locks_restored[OF assms(1-4)])
  moreover have "os_locks (backend (snd (bootstrapListCmd pe e root s))) = os_locks (backend s) \<and>
      active (snd (bootstrapListCmd pe e root s)) = active s"
    unfolding bootstrapListCmd_def by (rule list_body.locks_restored[OF assms(1-4)])
  ultimately show ?thesis using assms(5) by (elim insertE emptyE) simp_all
qed

text \<open>A peer environment for the witnesses: an address is its text, a peer is named by it.\<close>

definition boot_demo_env :: "(string, string) peer_env" where
  "boot_demo_env = \<lparr>NewMultiaddr = (\<lambda>s. if s = [] then Inl ''empty'' else Inr s), ma_String = id,
     SplitLast = (\<lambda>m. (Some m, Some 421)), P_P2P = 421,
     AddrInfosFromP2pAddrs = (\<lambda>ms. Inr (map (\<lambda>m. \<lparr>ai_ID = take 1 m, ai_Addrs = [m]\<rparr>) ms)),
     AddrInfoToP2pAddrs = (\<lambda>p. Inr (ai_Addrs p))\<rparr>"

theorem bootstrap_commands_unlock_witness:
  "os_locks (backend (snd (bootstrapAddCmd boot_demo_env repo_demo_env (Inr ''r'') False (Inr [''x'']) demo_shared))) = {''other''}"
proof -
  have "\<forall>d. ds_Close repo_demo_env d = None" "\<forall>p i. active demo_shared p = Some i \<longrightarrow> 0 < ref_refs (cells demo_shared i) \<and>
      ref_refs (cells demo_shared i) + 1 \<noteq> 0" by (simp_all add: repo_demo_env_def demo_shared_def)
  from bootstrap_commands_unlock[OF demo_lock this insertI1, of boot_demo_env "Inr ''r''" False "Inr [''x'']"]
  have "os_locks (backend (snd (bootstrapAddCmd boot_demo_env repo_demo_env (Inr ''r'') False (Inr [''x'']) demo_shared))) =
      os_locks (backend demo_shared)" by blast
  then show ?thesis by (simp add: demo_shared_def)
qed

text \<open>
  Adding bootstrap peers.  A successful \<^verbatim>\<open>bootstrapAdd\<close> has checked that every address has a transport and
  ends in a peer id; the list becomes the new addresses followed by the old ones, each once; only the
  list changes in the configuration; the list is stored in the repository's file; the addresses
  reported are the new ones, each once, at the head of the list.
\<close>

theorem bootstrapAdd_correct:
  assumes "codec_ok e" and "commit_ok e" and "fault e IoWrite (configFilePath r) = None" and "\<not> fr_closed r"
    and "\<forall>c f. atomic_Close e (configFilePath r) c f = f(configFilePath r \<mapsto> c)"
    and "bootstrapAdd pe e r peers w = (Inr added, r', w')"
    and "\<forall>m. ToMap e (fr_config r') = Inr m \<longrightarrow> map_of m ''Bootstrap'' = Some (JArr (map JStr (Bootstrap (fr_config r'))))"
  shows "Bootstrap (fr_config r') = firsts (peers @ Bootstrap (fr_config r)) \<and> distinct (Bootstrap (fr_config r')) \<and>
    set (Bootstrap (fr_config r')) = set peers \<union> set (Bootstrap (fr_config r)) \<and>
    fr_config r' = (fr_config r)\<lparr>Bootstrap := Bootstrap (fr_config r')\<rparr> \<and>
    added = firsts peers \<and> prefix added (Bootstrap (fr_config r')) \<and>
    (\<forall>p \<in> set peers. \<exists>m tpt. NewMultiaddr pe p = Inr m \<and> SplitLast pe m = (Some tpt, Some (P_P2P pe))) \<and>
    GetConfigKey e r' ''Bootstrap'' w' = Inr (JArr (map JStr (Bootstrap (fr_config r'))))"
proof -
  let ?new = "(fr_config r)\<lparr>Bootstrap := firsts (peers @ Bootstrap (fr_config r))\<rparr>"
  have chk: "check_addrs pe peers = None" using assms(6) by (auto simp: bootstrapAdd_def split: option.splits)
  have sc: "SetConfig e (r\<lparr>fr_config := ?new\<rparr>) ?new w = (None, r', w')" and ad: "added = firsts peers"
    using assms(6) chk unfolding bootstrapAdd_def add_new_fold Let_def
    by (auto simp only: prod.case add_back_fold option.case split: prod.splits option.splits)
  have r': "fr_config r' = ?new" using sc by (auto simp: SetConfig_def split: sum.splits prod.splits option.splits)
  obtain m where m: "ToMap e ?new = Inr m" using sc by (auto simp: SetConfig_def split: sum.splits)
  have "GetConfigKey e r' ''Bootstrap'' w' = Inr (JArr (map JStr (Bootstrap ?new)))"
    by (rule SetConfig_leaf[OF assms(1,2) _ _ _ sc m]) (use assms(3-5,7) m r' in \<open>simp_all add: is_map_def\<close>)
  moreover have "prefix (firsts peers) (firsts (peers @ Bootstrap (fr_config r)))"
    using firsts_append unfolding prefix_def by blast
  ultimately show ?thesis
    using check_addrs_ok[of pe peers] chk ad by (simp add: r' del: rev_append)
qed

definition boot_map :: "string list \<Rightarrow> nat jmap" where
  "boot_map ss = [(''Bootstrap'', JArr (map JStr ss))]"

definition boot_repo_env :: "nat repo_env" where
  "boot_repo_env = repo_demo_env\<lparr>
     dec_map := (\<lambda>t. if t = ''1'' then Inr (boot_map [''a'']) else if t = ''2'' then Inr (boot_map [''b'', ''a'']) else Inl ''syntax''),
     enc_conf := (\<lambda>_. Inr ''2''),
     indent_map := (\<lambda>m. if m = boot_map [''a''] then Inr ''1'' else if m = boot_map [''b'', ''a''] then Inr ''2'' else Inl ''unsupported'')\<rparr>"

definition boot_repo :: "nat FSRepo" where
  "boot_repo = demo_repo\<lparr>fr_config := demo_conf\<lparr>Bootstrap := [''a'']\<rparr>\<rparr>"

lemma boot_codec: "codec_ok boot_repo_env"
  unfolding codec_ok_def
  by (auto simp: boot_repo_env_def boot_map_def obj_of_def repo_demo_env_def TrimSpace_def is_space_def split: if_splits)

lemma boot_add:
  "bootstrapAdd boot_demo_env boot_repo_env boot_repo [''b'', ''b''] demo_os =
     (Inr [''b''], boot_repo\<lparr>fr_config := demo_conf\<lparr>Bootstrap := [''b'', ''a'']\<rparr>\<rparr>, demo_os\<lparr>os_files := [''r/config'' \<mapsto> ''2'']\<rparr>)"
  by (simp add: bootstrapAdd_def boot_demo_env_def boot_repo_env_def boot_repo_def demo_repo_def demo_conf_def add_new_def
      add_back_def SetConfig_def ReadConfigFile_def WriteConfigFile_def os_Open_def ToMap_def repo_demo_env_def demo_os_def
      boot_map_def Let_def)

theorem bootstrapAdd_correct_witness:
  "GetConfigKey boot_repo_env (boot_repo\<lparr>fr_config := demo_conf\<lparr>Bootstrap := [''b'', ''a'']\<rparr>\<rparr>) ''Bootstrap''
     (demo_os\<lparr>os_files := [''r/config'' \<mapsto> ''2'']\<rparr>) = Inr (JArr [JStr ''b'', JStr ''a''])"
proof -
  let ?r = "boot_repo\<lparr>fr_config := demo_conf\<lparr>Bootstrap := [''b'', ''a'']\<rparr>\<rparr>"
  have h: "commit_ok boot_repo_env" "fault boot_repo_env IoWrite (configFilePath boot_repo) = None" "\<not> fr_closed boot_repo"
    "\<forall>c f. atomic_Close boot_repo_env (configFilePath boot_repo) c f = f(configFilePath boot_repo \<mapsto> c)"
    by (simp_all add: boot_repo_env_def repo_demo_env_def boot_repo_def demo_repo_def commit_ok_def)
  have t: "\<forall>m. ToMap boot_repo_env (fr_config ?r) = Inr m \<longrightarrow>
      map_of m ''Bootstrap'' = Some (JArr (map JStr (Bootstrap (fr_config ?r))))"
    by (simp add: ToMap_def boot_repo_env_def repo_demo_env_def boot_map_def)
  have "GetConfigKey boot_repo_env ?r ''Bootstrap'' (demo_os\<lparr>os_files := [''r/config'' \<mapsto> ''2'']\<rparr>) =
      Inr (JArr (map JStr (Bootstrap (fr_config ?r))))"
    using bootstrapAdd_correct[OF boot_codec h boot_add t] by (elim conjE)
  then show ?thesis by simp
qed

text \<open>
  Removing bootstrap peers.  The command takes out exactly the pairs of peer and address that were
  asked for, all addresses of a peer given without one; everything else stays, and peers that were not
  named stay as they are.  The report lists what was taken out, and the new list is what the configuration
  holds.
\<close>

theorem bootstrapRemove_exact:
  assumes "bootstrapRemove pe e r toRemove w = (Inr out, r', w')"
  shows "\<exists>asked peers keep removed. ParseBootstrapPeers pe toRemove = Inr asked \<and> BootstrapPeers pe (fr_config r) = Inr peers \<and>
    BootstrapPeerStrings pe keep = Inr (Bootstrap (fr_config r')) \<and> BootstrapPeerStrings pe removed = Inr out \<and>
    addr_pairs keep = addr_pairs peers - requested (remove_map asked) \<and>
    addr_pairs removed = addr_pairs peers \<inter> requested (remove_map asked) \<and>
    {p \<in> set peers. remove_map asked (ai_ID p) = None} \<subseteq> set keep \<and>
    fr_config r' = (fr_config r)\<lparr>Bootstrap := Bootstrap (fr_config r')\<rparr>"
proof -
  obtain asked peers where p: "ParseBootstrapPeers pe toRemove = Inr asked" "BootstrapPeers pe (fr_config r) = Inr peers"
    using assms by (auto simp: bootstrapRemove_def split: sum.splits)
  obtain keep removed where k: "remove_loop (remove_map asked) peers = (keep, removed)" by fastforce
  obtain ss where ss: "BootstrapPeerStrings pe keep = Inr ss"
    using assms p k by (auto simp: bootstrapRemove_def SetBootstrapPeers_def split: sum.splits)
  let ?c = "(fr_config r)\<lparr>Bootstrap := ss\<rparr>"
  have "SetConfig e (r\<lparr>fr_config := ?c\<rparr>) ?c w = (None, r', w')" and out: "BootstrapPeerStrings pe removed = Inr out"
    using assms p k ss by (auto simp: bootstrapRemove_def SetBootstrapPeers_def split: prod.splits option.splits)
  then have "fr_config r' = ?c" by (auto simp: SetConfig_def split: sum.splits prod.splits option.splits)
  with p ss out remove_loop_pairs[OF k] show ?thesis by force
qed

lemma boot_remove:
  "bootstrapRemove boot_demo_env boot_repo_env boot_repo [''c''] demo_os =
     (Inr [], boot_repo, demo_os\<lparr>os_files := [''r/config'' \<mapsto> ''2'']\<rparr>)"
  by (simp add: bootstrapRemove_def boot_demo_env_def boot_repo_env_def boot_repo_def demo_repo_def demo_conf_def
      BootstrapPeers_def ParseBootstrapPeers_def SetBootstrapPeers_def remove_map_def
      SetConfig_def ReadConfigFile_def WriteConfigFile_def os_Open_def ToMap_def repo_demo_env_def demo_os_def
      boot_map_def Let_def)

theorem bootstrapRemove_exact_witness:
  "\<exists>keep. BootstrapPeerStrings boot_demo_env keep = Inr [''a''] \<and> addr_pairs keep = {(''a'', ''a'')}"
proof -
  have "BootstrapPeers boot_demo_env (fr_config boot_repo) = Inr [\<lparr>ai_ID = ''a'', ai_Addrs = [''a'']\<rparr>]"
    "ParseBootstrapPeers boot_demo_env [''c''] = Inr [\<lparr>ai_ID = ''c'', ai_Addrs = [''c'']\<rparr>]"
    by (simp_all add: BootstrapPeers_def ParseBootstrapPeers_def boot_demo_env_def boot_repo_def)
  with bootstrapRemove_exact[OF boot_remove] show ?thesis
    by (auto simp: boot_repo_def requested_def remove_map_def)
qed

text \<open>A peer without addresses is lost when addresses of it are to be removed: it is neither kept nor reported.\<close>

theorem bootstrapRemove_drops_bare_peer:
  "remove_loop (remove_map [\<lparr>ai_ID = i, ai_Addrs = [a]\<rparr>]) [\<lparr>ai_ID = i, ai_Addrs = []\<rparr>] = ([], [])"
  by (simp add: remove_map_def)

text \<open>The addresses reported as added include one that was in the list before.\<close>

theorem bootstrapAdd_reports_known:
  "fst (bootstrapAdd boot_demo_env boot_repo_env boot_repo [''a''] demo_os) = Inr [''a''] \<and> ''a'' \<in> set (Bootstrap (fr_config boot_repo))"
  by (simp add: bootstrapAdd_def boot_demo_env_def boot_repo_env_def boot_repo_def demo_repo_def demo_conf_def add_new_def
      add_back_def SetConfig_def ReadConfigFile_def WriteConfigFile_def os_Open_def ToMap_def repo_demo_env_def demo_os_def
      boot_map_def Let_def)

text \<open>
  The configuration is the one the repository uses: when it cannot be written the command fails, and the
  repository goes on with the changed list.
\<close>

theorem bootstrapAdd_failed_but_changed:
  assumes "fault e IoOpen (configFilePath r) = Some err" and "check_addrs pe [p] = None"
    and "bootstrapAdd pe e r [p] w = (res, r', w')"
  shows "res = Inl (RepoError (Io err)) \<and> w' = w \<and> p \<in> set (Bootstrap (fr_config r'))"
proof -
  let ?new = "(fr_config r)\<lparr>Bootstrap := firsts ([p] @ Bootstrap (fr_config r))\<rparr>"
  have "SetConfig e (r\<lparr>fr_config := ?new\<rparr>) ?new w = (Some (Io err), r\<lparr>fr_config := ?new\<rparr>, w)"
    using assms(1) by (simp add: SetConfig_def ReadConfigFile_def os_Open_def IsNotExist_def)
  with assms(2,3) show ?thesis unfolding bootstrapAdd_def add_new_fold Let_def
    by (auto simp only: prod.case add_back_fold option.case) auto
qed

lemma distinct_submset: "mset xs \<subseteq># mset ys \<Longrightarrow> distinct ys \<Longrightarrow> distinct xs"
proof -
  assume sub: "mset xs \<subseteq># mset ys" and d: "distinct ys"
  obtain zs where "mset ys - mset xs = mset zs" using ex_mset by metis
  then have "mset ys = mset (xs @ zs)" using subset_mset.add_diff_inverse[OF sub] by simp
  with d show "distinct xs" using mset_eq_imp_distinct_iff distinct_append by metis
qed

text \<open>A round that dials.\<close>

lemma bootstrapRound_dials:
  assumes "\<forall>n. mset (perm n) = mset [0..<n]" and "bootstrapRound he perm sched cfg peers h = (err, h', dialled, log)"
    and "int (length (Network_Peers he h)) < MinPeerThreshold cfg"
    and "filter (\<lambda>p. \<not> isConnected he h (ai_ID p)) peers \<noteq> []"
  shows "bootstrapConnect he (sched (length dialled)) dialled h = (err, h', log)" and "dialled \<noteq> []"
    and "length dialled = min (nat (MinPeerThreshold cfg - int (length (Network_Peers he h))))
      (length (filter (\<lambda>p. \<not> isConnected he h (ai_ID p)) peers))"
    and "mset dialled \<subseteq># mset (filter (\<lambda>p. \<not> isConnected he h (ai_ID p)) peers)"
proof -
  define free where "free = filter (\<lambda>p. \<not> isConnected he h (ai_ID p)) peers"
  define k where "k = MinPeerThreshold cfg - int (length (Network_Peers he h))"
  have k: "0 < k" and ne: "0 < length free" using assms(3,4) by (simp_all add: k_def free_def)
  from randomSubset_ok[OF spec[OF assms(1)], of k free] k
  obtain out where out: "randomSubsetOfPeers (perm (length free)) free k = Some out"
    "length out = min (nat k) (length free)" "mset out \<subseteq># mset free" by auto
  obtain er h2 lg where c: "bootstrapConnect he (sched (length out)) out h = (er, h2, lg)" by (metis prod_cases3)
  have "(err, h', dialled, log) = (er, h2, out, lg)"
    using assms(2,3) ne out(1) c unfolding bootstrapRound_def Let_def free_def[symmetric] k_def[symmetric] by simp
  moreover have "out \<noteq> []" using out(2) k ne by (metis length_0_conv min_less_iff_conj not_gr_zero zero_less_nat_eq)
  ultimately show "bootstrapConnect he (sched (length dialled)) dialled h = (err, h', log)" "dialled \<noteq> []"
    "length dialled = min (nat (MinPeerThreshold cfg - int (length (Network_Peers he h))))
      (length (filter (\<lambda>p. \<not> isConnected he h (ai_ID p)) peers))"
    "mset dialled \<subseteq># mset (filter (\<lambda>p. \<not> isConnected he h (ai_ID p)) peers)"
    using c out unfolding free_def[symmetric] k_def[symmetric] by simp_all
qed

lemma bootstrapRound_idle:
  assumes "bootstrapRound he perm sched cfg peers h = (err, h', dialled, log)"
    and "\<not> (int (length (Network_Peers he h)) < MinPeerThreshold cfg \<and> filter (\<lambda>p. \<not> isConnected he h (ai_ID p)) peers \<noteq> [])"
  shows "h' = h \<and> dialled = [] \<and> log = [] \<and>
    err = (if MinPeerThreshold cfg \<le> int (length (Network_Peers he h)) then None else Some ErrNotEnoughBootstrapPeers)"
  using assms unfolding bootstrapRound_def Let_def by (auto simp del: filter_empty_conv split: if_splits)

text \<open>
  C33. A round of bootstrapping, for every permutation and every schedule of the dialling goroutines.  With
  enough connections nothing is done.  Otherwise as many peers are dialled as are missing, or all there
  are; only bootstrap peers that are not connected; each once; and the round fails exactly when no
  attempt succeeded.  The slice bounds are never violated.
\<close>

theorem bootstrapRound_correct:
  assumes "\<forall>n. mset (perm n) = mset [0..<n]" and "\<forall>n. complete n (sched n)"
    and "bootstrapRound he perm sched cfg peers h = (err, h', dialled, log)"
  shows "err \<noteq> Some SlicePanic \<and>
    (MinPeerThreshold cfg \<le> int (length (Network_Peers he h)) \<longrightarrow> err = None \<and> h' = h \<and> dialled = [] \<and> log = []) \<and>
    (int (length (Network_Peers he h)) < MinPeerThreshold cfg \<longrightarrow>
      length dialled = min (nat (MinPeerThreshold cfg - int (length (Network_Peers he h))))
        (length (filter (\<lambda>p. \<not> isConnected he h (ai_ID p)) peers)) \<and>
      mset dialled \<subseteq># mset (filter (\<lambda>p. \<not> isConnected he h (ai_ID p)) peers) \<and>
      distinct (map fst log) \<and> set (map fst log) = {..<length dialled} \<and> (err = None \<longleftrightarrow> (\<exists>i. (i, None) \<in> set log)))"
proof (cases "int (length (Network_Peers he h)) < MinPeerThreshold cfg \<and> filter (\<lambda>p. \<not> isConnected he h (ai_ID p)) peers \<noteq> []")
  case True
  note d = bootstrapRound_dials[OF assms(1,3) conjunct1[OF True] conjunct2[OF True]]
  have "err \<noteq> Some SlicePanic" using d(1) by (auto simp: bootstrapConnect_def Let_def split: if_splits)
  with True d bootstrapConnect_log[OF spec[OF assms(2)] d(2,1)] show ?thesis by simp
next
  case False
  note idle = bootstrapRound_idle[OF assms(3) False]
  show ?thesis
  proof (cases "MinPeerThreshold cfg \<le> int (length (Network_Peers he h))")
    case False
    with \<open>\<not> (_ \<and> _)\<close> have "filter (\<lambda>p. \<not> isConnected he h (ai_ID p)) peers = []" by linarith
    with idle False show ?thesis by (simp del: filter_empty_conv)
  qed (use idle in simp)
qed

text \<open>A host for the witnesses: every dial succeeds.\<close>

definition demo_host :: "(nat, nat, nat list) host_env" where
  "demo_host = \<lparr>Network_Peers = remdups, isConnected = (\<lambda>h i. i \<in> set h), AddAddrs = (\<lambda>_ _ h. h),
     Connect = (\<lambda>p h. (None, ai_ID p # h))\<rparr>"

definition demo_sched :: "nat \<Rightarrow> nat list" where
  "demo_sched n = [0..<n] @ [0..<n]"

lemma demo_sched_complete: "\<forall>n. complete n (demo_sched n)"
proof
  fix n
  have "count_list [0..<n] i = (if i < n then 1 else 0)" for i by (induction n) auto
  then show "complete n (demo_sched n)" by (auto simp: complete_def demo_sched_def)
qed

definition demo_boot_cfg :: BootstrapConfig where
  "demo_boot_cfg = DefaultBootstrapConfig\<lparr>MinPeerThreshold := 2\<rparr>"

definition demo_peers :: "(nat, nat) AddrInfo list" where
  "demo_peers = [\<lparr>ai_ID = 1, ai_Addrs = [7]\<rparr>, \<lparr>ai_ID = 2, ai_Addrs = [8]\<rparr>]"

lemma demo_round:
  "bootstrapRound demo_host (\<lambda>n. [0..<n]) demo_sched demo_boot_cfg demo_peers [1] =
     (None, [2, 1], [\<lparr>ai_ID = 2, ai_Addrs = [8]\<rparr>], [(0, None)])"
  by (simp add: bootstrapRound_def demo_host_def demo_sched_def demo_boot_cfg_def DefaultBootstrapConfig_def demo_peers_def
      randomSubsetOfPeers_def bootstrapConnect_def conn_step_def Let_def)

theorem bootstrapRound_correct_witness:
  "mset [\<lparr>ai_ID = 2, ai_Addrs = [8]\<rparr>] \<subseteq># mset (filter (\<lambda>p. \<not> isConnected demo_host [1] (ai_ID p)) demo_peers)"
proof -
  have "int (length (Network_Peers demo_host [1])) < MinPeerThreshold demo_boot_cfg"
    by (simp add: demo_host_def demo_boot_cfg_def)
  with bootstrapRound_correct[OF _ demo_sched_complete demo_round] show ?thesis by simp
qed

text \<open>
  The host during a round: the peers are listed once, connectedness agrees with the list, adding
  addresses changes no connection, a successful dial connects the peer and no connection is lost.
\<close>

definition host_ok :: "('i, 'm, 'h) host_env \<Rightarrow> bool" where
  "host_ok he \<longleftrightarrow> (\<forall>h. distinct (Network_Peers he h)) \<and> (\<forall>h i. isConnected he h i \<longleftrightarrow> i \<in> set (Network_Peers he h)) \<and>
     (\<forall>i as h. set (Network_Peers he (AddAddrs he i as h)) = set (Network_Peers he h)) \<and>
     (\<forall>p h res h'. Connect he p h = (res, h') \<longrightarrow> set (Network_Peers he h) \<subseteq> set (Network_Peers he h') \<and>
        (res = None \<longrightarrow> ai_ID p \<in> set (Network_Peers he h')))"

lemma conn_step_peers:
  assumes "host_ok he"
    and "set (Network_Peers he h) \<union> {ai_ID (peers ! i) |i. (i, None) \<in> set (cs_log s)} \<subseteq> set (Network_Peers he (cs_host s))"
  shows "set (Network_Peers he h) \<union> {ai_ID (peers ! i) |i. (i, None) \<in> set (cs_log (conn_step he peers j s))}
    \<subseteq> set (Network_Peers he (cs_host (conn_step he peers j s)))"
proof (cases "cs_pc s j = 1")
  case True
  obtain res g where c: "Connect he (peers ! j) (cs_host s) = (res, g)" by fastforce
  then have "set (Network_Peers he (cs_host s)) \<subseteq> set (Network_Peers he g)"
    "res = None \<Longrightarrow> ai_ID (peers ! j) \<in> set (Network_Peers he g)"
    using assms(1) unfolding host_ok_def by blast+
  with assms(2) True c show ?thesis by (auto simp: conn_step_def Let_def)
next
  case False
  moreover have "set (Network_Peers he (AddAddrs he i as g)) = set (Network_Peers he g)" for i as g
    using assms(1) unfolding host_ok_def by blast
  ultimately show ?thesis using assms(2) by (simp add: conn_step_def Let_def)
qed

lemma bootstrapConnect_peers:
  assumes "host_ok he" and "bootstrapConnect he sched peers h = (err, h', log)"
  shows "set (Network_Peers he h) \<union> {ai_ID (peers ! i) |i. (i, None) \<in> set log} \<subseteq> set (Network_Peers he h')"
proof -
  let ?s = "\<lambda>js. fold (conn_step he peers) js \<lparr>cs_host = h, cs_pc = (\<lambda>_. 0), cs_errs = [], cs_log = []\<rparr>"
  have "set (Network_Peers he h) \<union> {ai_ID (peers ! i) |i. (i, None) \<in> set (cs_log (?s js))} \<subseteq> set (Network_Peers he (cs_host (?s js)))" for js
    by (induction js rule: rev_induct) (simp, simp only: fold_append fold.simps comp_def id_apply conn_step_peers[OF assms(1)])
  with assms(2) show ?thesis by (auto simp: bootstrapConnect_def Let_def split: if_splits)
qed

text \<open>
  A round in which every dial succeeds brings the node to the threshold, or connects it to every
  bootstrap peer there is.
\<close>

theorem bootstrapRound_reaches_threshold:
  assumes "host_ok he" and "\<forall>n. mset (perm n) = mset [0..<n]" and "\<forall>n. complete n (sched n)"
    and "distinct (map ai_ID peers)" and "bootstrapRound he perm sched cfg peers h = (err, h', dialled, log)"
    and "\<forall>i res. (i, res) \<in> set log \<longrightarrow> res = None"
  shows "min (MinPeerThreshold cfg)
      (int (length (Network_Peers he h) + length (filter (\<lambda>p. \<not> isConnected he h (ai_ID p)) peers)))
    \<le> int (length (Network_Peers he h'))"
proof (cases "int (length (Network_Peers he h)) < MinPeerThreshold cfg \<and> filter (\<lambda>p. \<not> isConnected he h (ai_ID p)) peers \<noteq> []")
  case False
  have "h' = h" using bootstrapRound_idle[OF assms(5) False] by simp
  then show ?thesis
    using False by (cases "filter (\<lambda>p. \<not> isConnected he h (ai_ID p)) peers = []") (simp_all del: filter_empty_conv)
next
  case True
  let ?P = "Network_Peers he h"
  note d = bootstrapRound_dials[OF assms(2,5) conjunct1[OF True] conjunct2[OF True]]
  have mem: "(i, None) \<in> set log \<longleftrightarrow> i < length dialled" for i
  proof -
    have "i < length dialled \<longleftrightarrow> i \<in> fst ` set log"
      using bootstrapConnect_log(2)[OF spec[OF assms(3)] d(2,1)] by auto
    moreover have "(i, None) \<in> set log" if "(i, res) \<in> set log" for res using assms(6) that by metis
    ultimately show ?thesis by (auto intro: rev_image_eqI)
  qed
  have all: "{ai_ID (dialled ! i) |i. (i, None) \<in> set log} = set (map ai_ID dialled)"
    unfolding mem by (auto simp: set_conv_nth) (metis nth_map)
  have sub: "set ?P \<union> set (map ai_ID dialled) \<subseteq> set (Network_Peers he h')"
    using bootstrapConnect_peers[OF assms(1) d(1)] unfolding all .
  have conn: "isConnected he h i \<longleftrightarrow> i \<in> set ?P" and dP: "distinct (Network_Peers he g)" for i g
    using assms(1) unfolding host_ok_def by blast+
  have disj: "set ?P \<inter> set (map ai_ID dialled) = {}" using set_mset_mono[OF d(4)] conn by auto
  have "mset dialled \<subseteq># mset peers" using d(4) by (metis mset_filter multiset_filter_subset subset_mset.order_trans)
  then have dist: "distinct (map ai_ID dialled)"
    by (intro distinct_submset[OF _ assms(4)]) (simp add: image_mset_subseteq_mono)
  have "length ?P + length dialled = card (set ?P \<union> set (map ai_ID dialled))"
    using distinct_card[OF dP[of h]] distinct_card[OF dist] disj by (simp add: card_Un_disjoint)
  also have "\<dots> \<le> length (Network_Peers he h')" using card_mono[OF _ sub] distinct_card[OF dP[of h']] by simp
  finally show ?thesis using d(3) True by simp
qed

theorem bootstrapRound_reaches_threshold_witness:
  "min 2 (int (1 + length (filter (\<lambda>p. \<not> isConnected demo_host [1] (ai_ID p)) demo_peers)))
    \<le> int (length (Network_Peers demo_host [2, 1]))"
proof -
  have h: "host_ok demo_host" unfolding host_ok_def demo_host_def by auto
  have d: "distinct (map ai_ID demo_peers)" by (simp add: demo_peers_def)
  show ?thesis
    using bootstrapRound_reaches_threshold[OF h _ demo_sched_complete d demo_round]
    by (simp add: demo_boot_cfg_def demo_host_def)
qed

text \<open>
  \<^verbatim>\<open>Bootstrap\<close> does not block forever once routing has been bootstrapped: from every reachable state in
  which it waits for a worker it can go on to return, and after that every worker, the current and the
  future ones, can end its round.
\<close>

theorem Bootstrap_returns:
  assumes "reachable bp_init bstep s"
  shows "(bp_pc s \<in> {SendDone, CloseDone} \<longrightarrow> (\<exists>t. bstep\<^sup>*\<^sup>* s t \<and> bp_pc t = Returned)) \<and>
    (bp_pc s = Returned \<longrightarrow> (\<forall>i < length (bp_workers s). \<exists>t. bstep\<^sup>*\<^sup>* s t \<and> bp_workers t ! i = Ended \<and> bp_pc t = Returned))"
proof (intro conjI impI allI)
  note inv = bsys.reachable_inv[OF assms]
  have close: "\<exists>t. bstep\<^sup>*\<^sup>* u t \<and> bp_pc t = Returned" if "bp_pc u = CloseDone" for u
    using bstep.close_done[OF that] by (intro exI[of _ "u\<lparr>bp_pc := Returned, bp_closed := True\<rparr>"]) auto
  have send: "\<exists>t. bstep\<^sup>*\<^sup>* u t \<and> bp_pc t = Returned"
    if "bp_pc u = SendDone" "0 < length (bp_workers u)" "bp_workers u ! 0 = AtDone" for u
    using close[of "u\<lparr>bp_pc := CloseDone, bp_workers := (bp_workers u)[0 := Ended]\<rparr>"] bstep.send[OF that]
    by (auto intro: converse_rtranclp_into_rtranclp)
  assume "bp_pc s \<in> {SendDone, CloseDone}"
  then consider "bp_pc s = CloseDone" | "bp_pc s = SendDone" by blast
  then show "\<exists>t. bstep\<^sup>*\<^sup>* s t \<and> bp_pc t = Returned"
  proof cases
    case 2
    have w: "0 < length (bp_workers s)" "bp_workers s ! 0 \<noteq> Ended" using inv 2 nth_mem unfolding bp_inv_def by fastforce+
    show ?thesis
    proof (cases "bp_workers s ! 0 = AtDone")
      case False
      with w have "bp_workers s ! 0 = InRound" using worker.exhaust by blast
      from bstep.round[OF w(1) this] send[of "s\<lparr>bp_workers := (bp_workers s)[0 := AtDone]\<rparr>"] 2 w(1) show ?thesis
        by (auto intro: converse_rtranclp_into_rtranclp)
    qed (use send 2 w in blast)
  qed (rule close)
next
  note inv = bsys.reachable_inv[OF assms]
  fix i
  assume r: "bp_pc s = Returned" and i: "i < length (bp_workers s)"
  have recv: "\<exists>t. bstep\<^sup>*\<^sup>* u t \<and> bp_workers t ! i = Ended \<and> bp_pc t = Returned"
    if "bp_pc u = Returned" "bp_closed u" "i < length (bp_workers u)" "bp_workers u ! i = AtDone" for u
    using bstep.recv_closed[OF that(2-4)] that(1,3)
    by (intro exI[of _ "u\<lparr>bp_workers := (bp_workers u)[i := Ended]\<rparr>"]) auto
  have c: "bp_closed s" using inv r by (simp add: bp_inv_def)
  show "\<exists>t. bstep\<^sup>*\<^sup>* s t \<and> bp_workers t ! i = Ended \<and> bp_pc t = Returned"
  proof (cases "bp_workers s ! i")
    case InRound
    from bstep.round[OF i this] recv[of "s\<lparr>bp_workers := (bp_workers s)[i := AtDone]\<rparr>"] r c i show ?thesis
      by (auto intro: converse_rtranclp_into_rtranclp)
  qed (use recv r c i in auto)
qed

theorem Bootstrap_returns_witness:
  "\<exists>t. bstep\<^sup>*\<^sup>* (Bootstrap_start False) t \<and> bp_pc t = Returned"
proof -
  have "reachable bp_init bstep (Bootstrap_start False)" by (rule reachable.start) (auto simp: bp_init_def)
  from Bootstrap_returns[OF this] show ?thesis by (simp add: Bootstrap_start_def)
qed

text \<open>
  When \<^verbatim>\<open>rt.Bootstrap\<close> fails, \<^verbatim>\<open>proc.Close()\<close> waits for the worker started at once, which waits on a channel
  nobody will send on or close: \<^verbatim>\<open>Bootstrap\<close> never returns.
\<close>

theorem Bootstrap_routing_failure_hangs:
  assumes "reachable bp_init bstep s" and "bp_pc s = ClosingProc" and "bstep\<^sup>*\<^sup>* s t"
  shows "bp_pc t = ClosingProc"
  using assms(3)
proof (induction rule: rtranclp_induct)
  case (step t u)
  have "bp_inv t" using bsys.steps_inv[OF step(1)] bsys.reachable_inv[OF assms(1)] by blast
  then have "bp_inv u" using bstep_inv step(2) by blast
  with step(2,3) show ?case by (induction rule: bstep.induct) (auto simp: bp_inv_def)
qed (rule assms(2))

end
