(* ===== verification/Migrations.thy ===== *)
theory Migrations
  imports FSRepo
begin

text \<open>
  Repository migrations: \<^verbatim>\<open>src/repo/fsrepo/migrations/{migrations,versions,fetch,fetcher,retryfetcher,httpfetcher,unpack}.go\<close>,
  on the files of \<^verbatim>\<open>FSRepo\<close>.  The network is an abstract state; HTTP requests, the IPFS fetcher, URLs,
  semantic versions, archive formats, the search path and the external programs are fields of
  \<open>mig_env\<close>.  Contents are strings.
\<close>

record ('v, 'w) mig_env =
  GOOS :: string
  GOARCH :: string
  ldd_version :: "string + string"
  LookPath :: "string \<Rightarrow> string option"
  exec_run :: "path \<Rightarrow> string list \<Rightarrow> osys \<Rightarrow> string option \<times> osys"
  ctx_Err :: "'w \<Rightarrow> string option"
  http_Do :: "string \<Rightarrow> string \<Rightarrow> 'w \<Rightarrow> (string + int \<times> string \<times> string option) \<times> 'w"
  ipfs_Fetch :: "string \<Rightarrow> string \<Rightarrow> 'w \<Rightarrow> (string + string) \<times> 'w"
  url_Parse :: "string \<Rightarrow> string + string \<times> string"
  url_String :: "string \<Rightarrow> string \<Rightarrow> string"
  path_Join :: "string \<Rightarrow> string \<Rightarrow> string"
  path_Base :: "string \<Rightarrow> string"
  semver_Make :: "string \<Rightarrow> 'v option"
  semver_String :: "'v \<Rightarrow> string"
  semver_sort :: "'v list \<Rightarrow> 'v list"
  isDir :: "path \<Rightarrow> bool"
  MkdirTemp :: "string \<Rightarrow> path"
  tgz_entries :: "string \<Rightarrow> string + (string \<times> string \<times> string option) list \<times> string option"
  zip_entries :: "string \<Rightarrow> string + (string \<times> (string + string \<times> string option)) list"
  dec_migration :: "string \<Rightarrow> string + string list \<times> string"
  DownloadDirectory :: path
  IPFS_DIST_PATH :: string

datatype mig_error =
  RepoErr fsrepo_error | NoRepoVersion fsrepo_error | DowngradeNotAllowed int int | Cancelled string | MigrationFailed string string
| DownloadFailed "string list" "string option" | MuslNotSupported | NoNonDevVersion | ReadVersions string | FetchErr string
| BadGateway string | BadScheme | NoSources | UnknownKeep | FileExistsErr path | OsErr string | ArchiveErr string | NoBinary

section \<open>Fetchers\<close>

definition LatestIpfsDist :: string where
  "LatestIpfsDist = ''/ipns/dist.ipfs.tech''"

definition defaultGatewayURL :: string where
  "defaultGatewayURL = ''https://ipfs.io''"

definition defaultFetchLimit :: int where
  "defaultFetchLimit = 1024 * 1024 * 512"

record HttpFetcher =
  hf_distPath :: string
  hf_gateway :: string
  hf_limit :: int
  hf_userAgent :: string

definition trim_right :: "char \<Rightarrow> string \<Rightarrow> string" where
  "trim_right c s = rev (dropWhile (\<lambda>x. x = c) (rev s))"

text \<open>The user agent given is not stored.\<close>

definition NewHttpFetcher :: "string \<Rightarrow> string \<Rightarrow> string \<Rightarrow> int \<Rightarrow> HttpFetcher" where
  "NewHttpFetcher distPath gateway userAgent fetchLimit =
     \<lparr>hf_distPath = (if distPath = [] then LatestIpfsDist
                     else if has_prefix distPath ''/'' then distPath else ''/'' @ distPath),
      hf_gateway = (if gateway = [] then defaultGatewayURL else trim_right CHR ''/'' gateway),
      hf_limit = (if fetchLimit = 0 then defaultFetchLimit else if fetchLimit < 0 then 0 else fetchLimit),
      hf_userAgent = []\<rparr>"

text \<open>
  A response is the status, the bytes of the body that can be read and the error that ends them, if any.
  \<^verbatim>\<open>io.ReadAll\<close> of the limited reader ends without error at the limit.
\<close>

definition HttpFetcher_Fetch :: "('v, 'w) mig_env \<Rightarrow> HttpFetcher \<Rightarrow> string \<Rightarrow> 'w \<Rightarrow> (string + string) \<times> 'w" where
  "HttpFetcher_Fetch me f filePath w =
     (let gwURL = hf_gateway f @ path_Join me (hf_distPath f) filePath in
      case http_Do me gwURL (hf_userAgent f) w of
        (Inl err, w) \<Rightarrow> (Inl err, w)
      | (Inr (status, body, readErr), w) \<Rightarrow>
          if status \<ge> 400 then
            (case readErr of Some err \<Rightarrow> (Inl err, w) | None \<Rightarrow> (Inl (''GET '' @ gwURL @ '' error: '' @ body), w))
          else if hf_limit f \<noteq> 0 \<and> int (length body) \<ge> hf_limit f then (Inr (take (nat (hf_limit f)) body), w)
          else (case readErr of Some err \<Rightarrow> (Inl err, w) | None \<Rightarrow> (Inr body, w)))"

datatype fetcher = Http HttpFetcher | Ipfs string | Retry fetcher nat | Multi "fetcher list"

text \<open>The loop of \<^verbatim>\<open>RetryFetcher.Fetch\<close>, with the number of tries left and the last error.\<close>

fun retry_loop :: "('v, 'w) mig_env \<Rightarrow> ('w \<Rightarrow> (string + string) \<times> 'w) \<Rightarrow> nat \<Rightarrow> string option \<Rightarrow> 'w \<Rightarrow> (string + string) \<times> 'w" where
  "retry_loop me fetch 0 lastErr w =
     (Inl (''exceeded number of retries. last error was '' @ (case lastErr of None \<Rightarrow> ''%!w(<nil>)'' | Some err \<Rightarrow> err)), w)"
| "retry_loop me fetch (Suc n) lastErr w =
     (case fetch w of
        (Inr out, w) \<Rightarrow> (Inr out, w)
      | (Inl err, w) \<Rightarrow>
          (case ctx_Err me w of
             Some cerr \<Rightarrow> (Inl cerr, w)
           | None \<Rightarrow> retry_loop me fetch n (Some err) w))"

text \<open>\<open>Fetch\<close> of every kind of fetcher; a \<^verbatim>\<open>MultiFetcher\<close> collects the errors, and without fetchers has none to report.\<close>

fun Fetch :: "('v, 'w) mig_env \<Rightarrow> fetcher \<Rightarrow> string \<Rightarrow> 'w \<Rightarrow> (string + string) \<times> 'w"
  and multi_loop :: "('v, 'w) mig_env \<Rightarrow> fetcher list \<Rightarrow> string \<Rightarrow> string list \<Rightarrow> 'w \<Rightarrow> (string list + string) \<times> 'w" where
  "Fetch me (Http f) filePath w = HttpFetcher_Fetch me f filePath w"
| "Fetch me (Ipfs distPath) filePath w = ipfs_Fetch me distPath filePath w"
| "Fetch me (Retry f maxTries) filePath w = retry_loop me (Fetch me f filePath) maxTries None w"
| "Fetch me (Multi fs) filePath w =
     (case multi_loop me fs filePath [] w of
        (Inr out, w) \<Rightarrow> (Inr out, w)
      | (Inl [], w) \<Rightarrow> (Inr [], w)
      | (Inl errs, w) \<Rightarrow> (Inl (join_with [CHR 0x0A] errs), w))"
| "multi_loop me [] filePath errs w = (Inl errs, w)"
| "multi_loop me (f # fs) filePath errs w =
     (case Fetch me f filePath w of
        (Inr out, w) \<Rightarrow> (Inr out, w)
      | (Inl err, w) \<Rightarrow> multi_loop me fs filePath (errs @ [err]) w)"

definition GetDistPathEnv :: "('v, 'w) mig_env \<Rightarrow> string \<Rightarrow> string" where
  "GetDistPathEnv me distPath =
     (if IPFS_DIST_PATH me \<noteq> [] then IPFS_DIST_PATH me else if distPath = [] then LatestIpfsDist else distPath)"

text \<open>\<open>withIpfs\<close> says whether a constructor for the IPFS fetcher was given.\<close>

definition source_fetcher :: "('v, 'w) mig_env \<Rightarrow> string \<Rightarrow> bool \<Rightarrow> string \<Rightarrow> mig_error + fetcher option" where
  "source_fetcher me distPath withIpfs src =
     (let src = TrimSpace src; http = (\<lambda>gw. Retry (Http (NewHttpFetcher distPath gw ''go-ipfs'' 0)) 3) in
      if src \<in> {''HTTPS'', ''https'', ''HTTP'', ''http''} then Inr (Some (http []))
      else if src \<in> {''IPFS'', ''ipfs''} then Inr (if withIpfs then Some (Ipfs distPath) else None)
      else if src = [] then Inr None
      else (case url_Parse me src of
              Inl err \<Rightarrow> Inl (BadGateway err)
            | Inr (scheme, rest) \<Rightarrow>
                if scheme = [] then Inr (Some (http (url_String me ''https'' rest)))
                else if scheme \<in> {''https'', ''http''} then Inr (Some (http (url_String me scheme rest)))
                else Inl BadScheme))"

fun source_loop :: "('v, 'w) mig_env \<Rightarrow> string \<Rightarrow> bool \<Rightarrow> string list \<Rightarrow> mig_error + fetcher list" where
  "source_loop me distPath withIpfs [] = Inr []"
| "source_loop me distPath withIpfs (src # srcs) =
     (case source_fetcher me distPath withIpfs src of
        Inl err \<Rightarrow> Inl err
      | Inr f \<Rightarrow>
          (case source_loop me distPath withIpfs srcs of
             Inl err \<Rightarrow> Inl err
           | Inr fs \<Rightarrow> Inr ((case f of None \<Rightarrow> [] | Some f \<Rightarrow> [f]) @ fs)))"

definition GetMigrationFetcher :: "('v, 'w) mig_env \<Rightarrow> string list \<Rightarrow> string \<Rightarrow> bool \<Rightarrow> mig_error + fetcher" where
  "GetMigrationFetcher me downloadSources distPath withIpfs =
     (case source_loop me distPath withIpfs downloadSources of
        Inl err \<Rightarrow> Inl err
      | Inr [] \<Rightarrow> Inl NoSources
      | Inr [f] \<Rightarrow> Inr f
      | Inr fs \<Rightarrow> Inr (Multi fs))"

section \<open>Configuration\<close>

definition DefaultMigrationDownloadSources :: "string list" where
  "DefaultMigrationDownloadSources = [''HTTPS'', ''IPFS'']"

text \<open>The section is a pair of the download sources and the value of \<^verbatim>\<open>Keep\<close>.\<close>

definition ReadMigrationConfig ::
    "('v, 'w) mig_env \<Rightarrow> 'n repo_env \<Rightarrow> path \<Rightarrow> path \<Rightarrow> osys \<Rightarrow> mig_error + string list \<times> string" where
  "ReadMigrationConfig me e repoRoot userConfigFile w =
     (case Filename e repoRoot userConfigFile of
        Inl err \<Rightarrow> Inl (RepoErr err)
      | Inr cfgPath \<Rightarrow>
     (case os_ReadFile e cfgPath w of
        Inl err \<Rightarrow> Inl (RepoErr err)
      | Inr c \<Rightarrow>
     (case dec_migration me c of
        Inl err \<Rightarrow> Inl (OsErr err)
      | Inr (sources, keep) \<Rightarrow>
          (let sources = (if sources = [] then DefaultMigrationDownloadSources else sources) in
           if keep = [] then Inr (sources, ''cache'')
           else if keep \<in> {''discard'', ''cache'', ''keep''} then Inr (sources, keep)
           else Inl UnknownKeep))))"

section \<open>Versions\<close>

text \<open>
  \<^verbatim>\<open>bufio.Scanner\<close> by lines: a trailing carriage return is dropped, so is an empty last line; a line of
  65536 bytes or more stops the scan with an error.
\<close>

definition drop_cr :: "string \<Rightarrow> string" where
  "drop_cr l = (if l \<noteq> [] \<and> last l = CHR 0x0D then butlast l else l)"

fun scan_pieces :: "string list \<Rightarrow> string list \<times> bool" where
  "scan_pieces [] = ([], True)"
| "scan_pieces [l] = (if length l \<ge> 65536 then ([], False) else if l = [] then ([], True) else ([drop_cr l], True))"
| "scan_pieces (l # ls) =
     (if length l \<ge> 65536 then ([], False)
      else (case scan_pieces ls of (out, ok) \<Rightarrow> (drop_cr l # out, ok)))"

definition scan_lines :: "string \<Rightarrow> string list \<times> bool" where
  "scan_lines s = scan_pieces (split_on (CHR 0x0A) s)"

definition DistVersions :: "('v, 'w) mig_env \<Rightarrow> fetcher \<Rightarrow> string \<Rightarrow> bool \<Rightarrow> 'w \<Rightarrow> (mig_error + string list) \<times> 'w" where
  "DistVersions me f dist sortDesc w =
     (case Fetch me f (path_Join me dist ''versions'') w of
        (Inl err, w) \<Rightarrow> (Inl (FetchErr err), w)
      | (Inr c, w) \<Rightarrow>
          (case scan_lines c of (ls, ok) \<Rightarrow>
             (let vers = List.map_filter (\<lambda>l. semver_Make me (dropWhile (\<lambda>c. c = CHR ''v'') l)) ls;
                  vers = (if sortDesc then rev (semver_sort me vers) else semver_sort me vers)
              in if \<not> ok then (Inl (ReadVersions ''token too long''), w)
                 else (Inr (map (\<lambda>v. ''v'' @ semver_String me v) vers), w))))"

fun latest_loop :: "bool \<Rightarrow> string list \<Rightarrow> mig_error + string" where
  "latest_loop stableOnly [] = Inl NoNonDevVersion"
| "latest_loop stableOnly (ver # vs) =
     (if stableOnly \<and> contains_str ver ''-rc'' then latest_loop stableOnly vs
      else if contains_str ver ''-dev'' then latest_loop stableOnly vs
      else Inr ver)"

definition LatestDistVersion :: "('v, 'w) mig_env \<Rightarrow> fetcher \<Rightarrow> string \<Rightarrow> bool \<Rightarrow> 'w \<Rightarrow> (mig_error + string) \<times> 'w" where
  "LatestDistVersion me f dist stableOnly w =
     (case DistVersions me f dist False w of
        (Inl err, w) \<Rightarrow> (Inl err, w)
      | (Inr vs, w) \<Rightarrow> (latest_loop stableOnly (rev vs), w))"

section \<open>Archives\<close>

definition os_Create :: "'n repo_env \<Rightarrow> path \<Rightarrow> osys \<Rightarrow> mig_error option \<times> osys" where
  "os_Create e p w =
     (case fault e IoCreate p of
        Some err \<Rightarrow> (Some (OsErr err), w)
      | None \<Rightarrow> (None, w\<lparr>os_files := (os_files w)(p \<mapsto> [])\<rparr>))"

text \<open>\<^verbatim>\<open>io.Copy\<close> into an open file; \<open>readErr\<close> is the error that ends the source after its bytes.\<close>

definition io_Copy :: "'n repo_env \<Rightarrow> path \<Rightarrow> string \<times> string option \<Rightarrow> osys \<Rightarrow> mig_error option \<times> osys" where
  "io_Copy e p src w =
     (case src of (c, readErr) \<Rightarrow>
        (case fault e IoWrite p of
           Some err \<Rightarrow> (Some (OsErr err), w\<lparr>os_files := (os_files w)(p \<mapsto> partial_write e c)\<rparr>)
         | None \<Rightarrow> (map_option OsErr readErr, w\<lparr>os_files := (os_files w)(p \<mapsto> c)\<rparr>)))"

text \<open>
  \<^verbatim>\<open>unpackTgz\<close>: the entries up to the one looked for are read; \<open>tgz_entries\<close> gives them with the error that ends
  the archive early, if any.  \<^verbatim>\<open>unpackZip\<close>: the first entry of the name is opened.  An entry is its bytes and
  the error that ends them, if any.
\<close>

definition find_tgz :: "('v, 'w) mig_env \<Rightarrow> string \<Rightarrow> string \<Rightarrow> mig_error + string \<times> string option" where
  "find_tgz me lookFor arc =
     (case tgz_entries me arc of
        Inl err \<Rightarrow> Inl (ArchiveErr err)
      | Inr (entries, end_err) \<Rightarrow>
          (case map_of entries lookFor of
             Some c \<Rightarrow> Inr c
           | None \<Rightarrow> (case end_err of Some err \<Rightarrow> Inl (ArchiveErr err) | None \<Rightarrow> Inl NoBinary)))"

definition find_zip :: "('v, 'w) mig_env \<Rightarrow> string \<Rightarrow> string \<Rightarrow> mig_error + string \<times> string option" where
  "find_zip me lookFor arc =
     (case zip_entries me arc of
        Inl err \<Rightarrow> Inl (ArchiveErr err)
      | Inr entries \<Rightarrow>
          (case map_of entries lookFor of
             None \<Rightarrow> Inl NoBinary
           | Some (Inl err) \<Rightarrow> Inl (ArchiveErr err)
           | Some (Inr c) \<Rightarrow> Inr c))"

definition writeToPath :: "'n repo_env \<Rightarrow> string \<times> string option \<Rightarrow> path \<Rightarrow> osys \<Rightarrow> mig_error option \<times> osys" where
  "writeToPath e src out w =
     (case os_Create e out w of (Some err, w) \<Rightarrow> (Some err, w) | (None, w) \<Rightarrow> io_Copy e out src w)"

definition unpack_with ::
    "'n repo_env \<Rightarrow> (string \<Rightarrow> mig_error + string \<times> string option) \<Rightarrow> path \<Rightarrow> path \<Rightarrow> osys \<Rightarrow> mig_error option \<times> osys" where
  "unpack_with e findf arcPath out w =
     (case os_Open e arcPath w of
        Inl err \<Rightarrow> (Some (RepoErr err), w)
      | Inr arc \<Rightarrow> (case findf arc of Inl err \<Rightarrow> (Some err, w) | Inr src \<Rightarrow> writeToPath e src out w))"

definition unpackArchive ::
    "('v, 'w) mig_env \<Rightarrow> 'n repo_env \<Rightarrow> path \<Rightarrow> string \<Rightarrow> string \<Rightarrow> string \<Rightarrow> path \<Rightarrow> osys \<Rightarrow> mig_error option \<times> osys" where
  "unpackArchive me e arcPath atype root name out w =
     (if atype = ''tar.gz'' then unpack_with e (find_tgz me (root @ ''/'' @ name)) arcPath out w
      else if atype = ''zip'' then unpack_with e (find_zip me (root @ ''/'' @ name)) arcPath out w
      else (Some (ArchiveErr (''unrecognized archive type: '' @ atype)), w))"

section \<open>Downloading a program\<close>

definition ExeName :: "('v, 'w) mig_env \<Rightarrow> string \<Rightarrow> string" where
  "ExeName me name = (if GOOS me = ''windows'' then name @ ''.exe'' else name)"

definition makeArchivePath :: "('v, 'w) mig_env \<Rightarrow> string \<Rightarrow> string \<Rightarrow> string \<Rightarrow> string \<Rightarrow> string \<times> string" where
  "makeArchivePath me dist name ver atype =
     (let arcName = name @ ''_'' @ ver @ ''_'' @ GOOS me @ ''-'' @ GOARCH me @ ''.'' @ atype
      in (dist @ ''/'' @ ver @ ''/'' @ arcName, arcName))"

datatype stat = Absent | AFile | ADir | StatErr string

definition os_Stat :: "('v, 'w) mig_env \<Rightarrow> 'n repo_env \<Rightarrow> path \<Rightarrow> osys \<Rightarrow> stat" where
  "os_Stat me e p w =
     (case fault e IoStat p of
        Some err \<Rightarrow> StatErr err
      | None \<Rightarrow> if isDir me p then ADir else if os_files w p \<noteq> None then AFile else Absent)"

text \<open>Where the binary goes, the checks at the head of \<^verbatim>\<open>FetchBinary\<close>.\<close>

definition target_path :: "('v, 'w) mig_env \<Rightarrow> 'n repo_env \<Rightarrow> string \<Rightarrow> path \<Rightarrow> osys \<Rightarrow> mig_error + path" where
  "target_path me e binName out w =
     (case os_Stat me e out w of
        Absent \<Rightarrow> Inr out
      | StatErr err \<Rightarrow> Inl (OsErr err)
      | AFile \<Rightarrow> Inl (FileExistsErr out)
      | ADir \<Rightarrow>
          (let out = join e out binName in
           case os_Stat me e out w of
             Absent \<Rightarrow> Inr out
           | StatErr err \<Rightarrow> Inl (OsErr err)
           | _ \<Rightarrow> Inl (FileExistsErr out)))"

definition download_dir :: "('v, 'w) mig_env \<Rightarrow> 'n repo_env \<Rightarrow> string \<Rightarrow> osys \<Rightarrow> mig_error + path" where
  "download_dir me e arcName w =
     (if DownloadDirectory me \<noteq> [] then
        (case os_Stat me e (DownloadDirectory me) w of
           ADir \<Rightarrow> Inr (DownloadDirectory me)
         | StatErr err \<Rightarrow> Inl (OsErr err)
         | Absent \<Rightarrow> Inl (OsErr ''no such file'')
         | AFile \<Rightarrow> Inl (FileExistsErr (DownloadDirectory me)))
      else (case fault e IoMkdirTemp arcName of Some err \<Rightarrow> Inl (OsErr err) | None \<Rightarrow> Inr (MkdirTemp me arcName)))"

text \<open>\<^verbatim>\<open>os.RemoveAll\<close> of a temporary directory; its error is dropped.\<close>

definition RemoveAll :: "path \<Rightarrow> osys \<Rightarrow> osys" where
  "RemoveAll d w = w\<lparr>os_files := (\<lambda>p. if has_prefix p (d @ ''/'') then None else os_files w p)\<rparr>"

definition fetch_unpack ::
    "('v, 'w) mig_env \<Rightarrow> 'n repo_env \<Rightarrow> fetcher \<Rightarrow> string \<Rightarrow> string \<Rightarrow> string \<Rightarrow> string \<Rightarrow> path \<Rightarrow> path \<Rightarrow> osys \<times> 'w \<Rightarrow> (mig_error + path) \<times> osys \<times> 'w" where
  "fetch_unpack me e f dist arcName ver binName out tmpDir wn =
     (case wn of (w, net) \<Rightarrow>
        (let atype = (if GOOS me = ''windows'' then ''zip'' else ''tar.gz'');
             (arcDistPath, arcFullName) = makeArchivePath me dist arcName ver atype;
             arcPath = join e tmpDir arcFullName
         in case os_Create e arcPath w of
              (Some err, w) \<Rightarrow> (Inl err, w, net)
            | (None, w) \<Rightarrow>
           (case Fetch me f arcDistPath net of
              (Inl err, net) \<Rightarrow> (Inl (FetchErr err), w, net)
            | (Inr arcBytes, net) \<Rightarrow>
           (case io_Copy e arcPath (arcBytes, None) w of
              (Some err, w) \<Rightarrow> (Inl err, w, net)
            | (None, w) \<Rightarrow>
           (case unpackArchive me e arcPath atype dist binName out w of
              (Some err, w) \<Rightarrow> (Inl err, w, net)
            | (None, w) \<Rightarrow>
                (case fault e IoChmod out of
                   Some err \<Rightarrow> (Inl (OsErr err), w, net)
                 | None \<Rightarrow> (Inr out, w, net)))))))"

definition FetchBinary ::
    "('v, 'w) mig_env \<Rightarrow> 'n repo_env \<Rightarrow> fetcher \<Rightarrow> string \<Rightarrow> string \<Rightarrow> string \<Rightarrow> path \<Rightarrow> osys \<times> 'w \<Rightarrow> (mig_error + path) \<times> osys \<times> 'w" where
  "FetchBinary me e f dist ver binName out wn =
     (let arcName = path_Base me dist;
          binName = ExeName me (if binName = [] then arcName else binName)
      in case target_path me e binName out (fst wn) of
           Inl err \<Rightarrow> (Inl err, wn)
         | Inr out \<Rightarrow>
             (case download_dir me e arcName (fst wn) of
                Inl err \<Rightarrow> (Inl err, wn)
              | Inr tmpDir \<Rightarrow>
                  (case fetch_unpack me e f dist arcName ver binName out tmpDir wn of
                     (res, w, net) \<Rightarrow> (res, if DownloadDirectory me \<noteq> [] then w else RemoveAll tmpDir w, net))))"

definition osWithVariant :: "('v, 'w) mig_env \<Rightarrow> mig_error + string" where
  "osWithVariant me =
     (if GOOS me \<noteq> ''linux'' then Inr (GOOS me)
      else (case ldd_version me of
              Inl err \<Rightarrow> Inl (OsErr err)
            | Inr out \<Rightarrow> Inr (if list_ex (\<lambda>l. contains_str l ''musl'') (fst (scan_lines out)) then ''linux-musl'' else ''linux'')))"

section \<open>Running migrations\<close>

definition migrationName :: "int \<Rightarrow> int \<Rightarrow> string" where
  "migrationName a b = ''fs-repo-'' @ show_int a @ ''-to-'' @ show_int b"

text \<open>The loop of \<^verbatim>\<open>findMigrations\<close>: \<open>cur\<close> runs from one version to the other.\<close>

function find_loop :: "('v, 'w) mig_env \<Rightarrow> 'w \<Rightarrow> int \<Rightarrow> int \<Rightarrow> mig_error + (string \<times> string option) list" where
  "find_loop me net cur to =
     (if cur = to then Inr []
      else (case ctx_Err me net of
              Some err \<Rightarrow> Inl (Cancelled err)
            | None \<Rightarrow>
                (let nxt = (if cur > to then cur - 1 else cur + 1);
                     migName = (if cur > to then migrationName nxt cur else migrationName cur nxt)
                 in case find_loop me net nxt to of
                      Inl err \<Rightarrow> Inl err
                    | Inr ms \<Rightarrow> Inr ((migName, LookPath me migName) # ms))))"
  by pat_completeness auto
termination
  by (relation "measure (\<lambda>(me, net, cur, to). nat \<bar>to - cur\<bar>)") auto

declare find_loop.simps [simp del]

text \<open>The migrations in order, and the map of the programs found.\<close>

definition findMigrations ::
    "('v, 'w) mig_env \<Rightarrow> 'w \<Rightarrow> int \<Rightarrow> int \<Rightarrow> mig_error + string list \<times> (string \<rightharpoonup> path)" where
  "findMigrations me net a b =
     (case find_loop me net a b of
        Inl err \<Rightarrow> Inl err
      | Inr ms \<Rightarrow> Inr (map fst ms, \<lambda>n. Option.bind (map_of ms n) id))"

definition runMigration :: "('v, 'w) mig_env \<Rightarrow> path \<Rightarrow> path \<Rightarrow> bool \<Rightarrow> osys \<Rightarrow> string option \<times> osys" where
  "runMigration me binPath ipfsDir revert w =
     (let pathArg = ''-path='' @ ipfsDir in
      exec_run me binPath (if revert then [pathArg, ''-verbose=true'', ''-revert''] else [pathArg, ''-verbose=true'']) w)"

text \<open>One goroutine of \<^verbatim>\<open>fetchMigrations\<close>; \<^verbatim>\<open>path.Join\<close> with an empty root is the name.  A failure leaves the empty string.\<close>

definition fetch_one ::
    "('v, 'w) mig_env \<Rightarrow> 'n repo_env \<Rightarrow> fetcher \<Rightarrow> string \<Rightarrow> path \<Rightarrow> osys \<times> 'w \<Rightarrow> path \<times> osys \<times> 'w" where
  "fetch_one me e f name destDir wn =
     (let dist = path_Join me [] name in
      case LatestDistVersion me f dist False (snd wn) of
        (Inl err, net) \<Rightarrow> ([], fst wn, net)
      | (Inr ver, net) \<Rightarrow>
          (case FetchBinary me e f dist ver name destDir (fst wn, net) of
             (Inl err, wn) \<Rightarrow> ([], wn)
           | (Inr loc, wn) \<Rightarrow> (loc, wn)))"

text \<open>The goroutines write to different files; \<open>order\<close> is the order in which they finish.\<close>

definition fetchMigrations ::
    "('v, 'w) mig_env \<Rightarrow> 'n repo_env \<Rightarrow> fetcher \<Rightarrow> nat list \<Rightarrow> string list \<Rightarrow> path \<Rightarrow> osys \<times> 'w \<Rightarrow> (mig_error + path list) \<times> osys \<times> 'w" where
  "fetchMigrations me e f order needed destDir wn =
     (case osWithVariant me of
        Inl err \<Rightarrow> (Inl err, wn)
      | Inr osv \<Rightarrow>
          if osv = ''linux-musl'' then (Inl MuslNotSupported, wn)
          else
            (let (bins, wn) = fold (\<lambda>i (bins, wn).
                   case fetch_one me e f (needed ! i) destDir wn of (loc, wn) \<Rightarrow> (bins[i := loc], wn))
                   order (replicate (length needed) [], wn);
                 fails = map snd (filter (\<lambda>(b, n). b = []) (zip bins needed))
             in if fails \<noteq> [] then (Inl (DownloadFailed fails (ctx_Err me (snd wn))), wn) else (Inr bins, wn)))"

fun run_all :: "('v, 'w) mig_env \<Rightarrow> (string \<rightharpoonup> path) \<Rightarrow> path \<Rightarrow> bool \<Rightarrow> string list \<Rightarrow> osys \<Rightarrow> mig_error option \<times> osys" where
  "run_all me binPaths dir revert [] w = (None, w)"
| "run_all me binPaths dir revert (m # ms) w =
     (case runMigration me (case binPaths m of None \<Rightarrow> [] | Some b \<Rightarrow> b) dir revert w of
        (Some err, w) \<Rightarrow> (Some (MigrationFailed m err), w)
      | (None, w) \<Rightarrow> run_all me binPaths dir revert ms w)"

text \<open>The programs for all migrations: those found, and the missing ones downloaded to the directory.\<close>

definition get_programs ::
    "('v, 'w) mig_env \<Rightarrow> 'n repo_env \<Rightarrow> fetcher \<Rightarrow> nat list \<Rightarrow> string list \<Rightarrow> (string \<rightharpoonup> path) \<Rightarrow> path \<Rightarrow> osys \<times> 'w
     \<Rightarrow> (mig_error + (string \<rightharpoonup> path)) \<times> osys \<times> 'w" where
  "get_programs me e f order migrations binPaths tmpDir wn =
     (let missing = filter (\<lambda>m. binPaths m = None) migrations in
      case fetchMigrations me e f order missing tmpDir wn of
        (Inl err, wn) \<Rightarrow> (Inl err, wn)
      | (Inr fetched, wn) \<Rightarrow> (Inr (foldl (\<lambda>m (k, v). m(k \<mapsto> v)) binPaths (zip missing fetched)), wn))"

definition RunMigration ::
    "('v, 'w) mig_env \<Rightarrow> 'n repo_env \<Rightarrow> fetcher \<Rightarrow> nat list \<Rightarrow> int \<Rightarrow> path \<Rightarrow> bool \<Rightarrow> osys \<times> 'w \<Rightarrow> mig_error option \<times> osys \<times> 'w" where
  "RunMigration me e f order targetVer ipfsDir allowDowngrade wn =
     (case CheckIpfsDir e ipfsDir of
        Inl err \<Rightarrow> (Some (RepoErr err), wn)
      | Inr dir \<Rightarrow>
     (case read_RepoVersion e dir (fst wn) of
        Inl err \<Rightarrow> (Some (NoRepoVersion err), wn)
      | Inr fromVer \<Rightarrow>
     if fromVer = targetVer then (None, wn)
     else if fromVer > targetVer \<and> \<not> allowDowngrade then (Some (DowngradeNotAllowed fromVer targetVer), wn)
     else
     (case findMigrations me (snd wn) fromVer targetVer of
        Inl err \<Rightarrow> (Some err, wn)
      | Inr (migrations, binPaths) \<Rightarrow>
          (let run = (\<lambda>binPaths (w, net). case run_all me binPaths dir (fromVer > targetVer) migrations w of (err, w) \<Rightarrow> (err, w, net)) in
           if \<forall>m \<in> set migrations. binPaths m \<noteq> None then run binPaths wn
           else
             (case fault e IoMkdirTemp ''migrations'' of
                Some err \<Rightarrow> (Some (OsErr err), wn)
              | None \<Rightarrow>
                  (let tmpDir = MkdirTemp me ''migrations'' in
                   case get_programs me e f order migrations binPaths tmpDir wn of
                     (Inl err, w, net) \<Rightarrow> (Some err, RemoveAll tmpDir w, net)
                   | (Inr binPaths, wn) \<Rightarrow>
                       (case run binPaths wn of (err, w, net) \<Rightarrow> (err, RemoveAll tmpDir w, net))))))))"

definition NeedMigration :: "'n repo_env \<Rightarrow> int \<Rightarrow> osys \<Rightarrow> mig_error + bool" where
  "NeedMigration e target w =
     (case read_RepoVersion e [] w of Inl err \<Rightarrow> Inl (NoRepoVersion err) | Inr vnum \<Rightarrow> Inr (vnum \<noteq> target))"

section \<open>What is known of the programs\<close>

text \<open>
  The program of a migration moves the repository one version up, or with \<^verbatim>\<open>-revert\<close> one down.  It is the one
  in the search path or the one downloaded to the temporary directory.
\<close>

definition binary_for :: "('v, 'w) mig_env \<Rightarrow> 'n repo_env \<Rightarrow> string \<Rightarrow> path \<Rightarrow> bool" where
  "binary_for me e name bin \<longleftrightarrow> LookPath me name = Some bin \<or> bin = join e (MkdirTemp me ''migrations'') (ExeName me name)"

definition programs_ok :: "('v, 'w) mig_env \<Rightarrow> 'n repo_env \<Rightarrow> path \<Rightarrow> bool" where
  "programs_ok me e dir \<longleftrightarrow> (\<forall>a bin w w'. binary_for me e (migrationName a (a + 1)) bin \<longrightarrow>
     (runMigration me bin dir False w = (None, w') \<longrightarrow> read_RepoVersion e dir w = Inr a \<longrightarrow> read_RepoVersion e dir w' = Inr (a + 1)) \<and>
     (runMigration me bin dir True w = (None, w') \<longrightarrow> read_RepoVersion e dir w = Inr (a + 1) \<longrightarrow> read_RepoVersion e dir w' = Inr a))"

text \<open>The version file is not one of the files downloads write to or clean up.\<close>

definition downloads_apart :: "('v, 'w) mig_env \<Rightarrow> 'n repo_env \<Rightarrow> path \<Rightarrow> bool" where
  "downloads_apart me e dir \<longleftrightarrow> (\<forall>d v x n. IpfsDir e dir = Inr d \<longrightarrow> v = join e d ''version'' \<longrightarrow>
     v \<noteq> join e (MkdirTemp me n) x \<and> v \<noteq> join e (DownloadDirectory me) x \<and> \<not> has_prefix v (MkdirTemp me n @ ''/''))"

definition same_version_file :: "'n repo_env \<Rightarrow> path \<Rightarrow> osys \<Rightarrow> osys \<Rightarrow> bool" where
  "same_version_file e dir w w' \<longleftrightarrow> (\<forall>d. IpfsDir e dir = Inr d \<longrightarrow> os_files w' (join e d ''version'') = os_files w (join e d ''version''))"

lemma same_version_refl [simp]: "same_version_file e dir w w"
  by (simp add: same_version_file_def)

lemma same_version_trans: "same_version_file e dir u v \<Longrightarrow> same_version_file e dir v w \<Longrightarrow> same_version_file e dir u w"
  by (simp add: same_version_file_def)

lemma same_version_read: "same_version_file e dir w w' \<Longrightarrow> read_RepoVersion e dir w' = read_RepoVersion e dir w"
  by (auto simp: same_version_file_def read_RepoVersion_def CheckIpfsDir_def repoVersion_def os_ReadFile_def os_Open_def
      split: sum.splits option.splits)

section \<open>Downloads\<close>

lemma os_Create_frame: "os_Create e p w = (err, w') \<Longrightarrow> q \<noteq> p \<Longrightarrow> os_files w' q = os_files w q"
  by (auto simp: os_Create_def split: option.splits)

lemma io_Copy_frame: "io_Copy e p src w = (err, w') \<Longrightarrow> q \<noteq> p \<Longrightarrow> os_files w' q = os_files w q"
  by (auto simp: io_Copy_def split: option.splits prod.splits)

lemma unpackArchive_frame:
  "unpackArchive me e arc atype root name out w = (err, w') \<Longrightarrow> q \<noteq> out \<Longrightarrow> os_files w' q = os_files w q"
  by (auto simp: unpackArchive_def unpack_with_def writeToPath_def split: if_splits sum.splits prod.splits option.splits
      dest!: os_Create_frame io_Copy_frame)

lemma fetch_unpack_frame:
  assumes "fetch_unpack me e f dist arc ver bin out tmp (w, net) = (res, w', net')" and "q \<noteq> out" and "\<forall>x. q \<noteq> join e tmp x"
  shows "os_files w' q = os_files w q"
  using assms unfolding fetch_unpack_def Let_def
  by (auto split: prod.splits option.splits sum.splits dest!: os_Create_frame[where q = q] io_Copy_frame[where q = q]
      unpackArchive_frame[where q = q])

text \<open>A program downloaded to a directory is there under its own name; nothing else is written but temporary files.\<close>

lemma FetchBinary_spec:
  assumes "FetchBinary me e f dist ver name destDir (w, net) = (res, w', net')" and "isDir me destDir" and "name \<noteq> []"
  shows "res = Inr loc \<Longrightarrow> loc = join e destDir (ExeName me name)"
    and "destDir = MkdirTemp me n \<Longrightarrow> downloads_apart me e dir \<Longrightarrow> same_version_file e dir w w'"
proof -
  have fu: "r = Inr l \<Longrightarrow> l = out" if "fetch_unpack me e f d a v b out t wn = (r, x)" for r l out d a v b t wn x
    using that unfolding fetch_unpack_def Let_def by (auto split: prod.splits option.splits sum.splits)
  have tp: "out = join e destDir (ExeName me name)" if "target_path me e (ExeName me name) destDir w = Inr out" for out
    using that assms(2) by (auto simp: target_path_def os_Stat_def Let_def split: stat.splits option.splits if_splits)
  show "loc = join e destDir (ExeName me name)" if "res = Inr loc"
    using assms(1,3) that tp fu unfolding FetchBinary_def Let_def by (auto split: sum.splits prod.splits)
  assume d: "destDir = MkdirTemp me n" and ap: "downloads_apart me e dir"
  show "same_version_file e dir w w'"
    unfolding same_version_file_def
  proof (intro allI impI)
    fix d assume i: "IpfsDir e dir = Inr d"
    let ?v = "join e d ''version''"
    have out: "?v \<noteq> join e (MkdirTemp me k) x" "?v \<noteq> join e (DownloadDirectory me) x" "\<not> has_prefix ?v (MkdirTemp me k @ ''/'')" for k x
      using ap i unfolding downloads_apart_def by blast+
    show "os_files w' ?v = os_files w ?v"
    proof (cases "target_path me e (ExeName me name) destDir w")
      case (Inl err)
      with assms(1,3) show ?thesis by (simp add: FetchBinary_def Let_def)
    next
      case t: (Inr o1)
      show ?thesis
      proof (cases "download_dir me e (path_Base me dist) w")
        case (Inl err)
        with t assms(1,3) show ?thesis by (simp add: FetchBinary_def Let_def)
      next
        case tmp: (Inr tmp)
        then have dd: "tmp = (if DownloadDirectory me \<noteq> [] then DownloadDirectory me else MkdirTemp me (path_Base me dist))"
          by (auto simp: download_dir_def split: if_splits stat.splits option.splits)
        obtain r u m where fu: "fetch_unpack me e f dist (path_Base me dist) ver (ExeName me name) o1 tmp (w, net) = (r, u, m)"
          by (metis prod_cases3)
        have w': "w' = (if DownloadDirectory me \<noteq> [] then u else RemoveAll tmp u)"
          using assms(1,3) t tmp fu by (auto simp: FetchBinary_def Let_def)
        have "os_files u ?v = os_files w ?v"
          by (rule fetch_unpack_frame[OF fu]) (use tp[OF t] d out dd in auto)
        then show ?thesis using out(3)[of "path_Base me dist"] dd by (simp add: w' RemoveAll_def)
      qed
    qed
  qed
qed

lemma fetch_one_spec:
  assumes "fetch_one me e f name (MkdirTemp me n) (w, net) = (loc, w', net')" and "isDir me (MkdirTemp me n)" and "name \<noteq> []"
  shows "loc \<in> {[], join e (MkdirTemp me n) (ExeName me name)}"
    and "downloads_apart me e dir \<Longrightarrow> same_version_file e dir w w'"
proof -
  show "loc \<in> {[], join e (MkdirTemp me n) (ExeName me name)}"
    using assms(1)
    by (auto simp: fetch_one_def Let_def split: prod.splits sum.splits dest!: FetchBinary_spec(1)[OF _ assms(2,3) refl])
  show "same_version_file e dir w w'" if "downloads_apart me e dir"
    using assms(1) FetchBinary_spec(2)[OF _ assms(2,3) refl that]
    by (auto simp: fetch_one_def Let_def split: prod.splits sum.splits)
qed

lemma fetchMigrations_spec:
  assumes "fetchMigrations me e f order needed (MkdirTemp me n) (w, net) = (res, w', net')" and "isDir me (MkdirTemp me n)"
    and "[] \<notin> set needed"
  shows "res = Inr bins \<Longrightarrow> bins = map (\<lambda>m. join e (MkdirTemp me n) (ExeName me m)) needed"
    and "downloads_apart me e dir \<Longrightarrow> set order \<subseteq> {..<length needed} \<Longrightarrow> same_version_file e dir w w'"
proof -
  define step where "step = (\<lambda>i (bins, wn). case fetch_one me e f (needed ! i) (MkdirTemp me n) wn of (loc, wn) \<Rightarrow> (bins[i := loc], wn))"
  define start where "start = (replicate (length needed) ([] :: string), w, net)"
  have inv: "length (fst (fold step js start)) = length needed \<and>
      (\<forall>i < length needed. fst (fold step js start) ! i \<in> {[], join e (MkdirTemp me n) (ExeName me (needed ! i))}) \<and>
      (downloads_apart me e dir \<longrightarrow> set js \<subseteq> {..<length needed} \<longrightarrow> same_version_file e dir w (fst (snd (fold step js start))))" for js
  proof (induction js rule: rev_induct)
    case (snoc j js)
    obtain bs u m where t: "fold step js start = (bs, u, m)" by (metis prod_cases3)
    obtain loc u' m' where o: "fetch_one me e f (needed ! j) (MkdirTemp me n) (u, m) = (loc, u', m')" by (metis prod_cases3)
    have "step j (bs, u, m) = (bs[j := loc], u', m')" by (simp add: step_def o)
    then have r: "fold step (js @ [j]) start = (bs[j := loc], u', m')" by (simp add: t)
    have ne: "needed ! j \<noteq> []" if "j < length needed" using assms(3) that nth_mem by metis
    have "bs[j := loc] ! i \<in> {[], join e (MkdirTemp me n) (ExeName me (needed ! i))}" if "i < length needed" for i
      using snoc that t fetch_one_spec(1)[OF o assms(2) ne] by (cases "i = j") auto
    moreover have "same_version_file e dir w u'" if "downloads_apart me e dir" "set (js @ [j]) \<subseteq> {..<length needed}"
      using snoc t that fetch_one_spec(2)[OF o assms(2) ne that(1)] same_version_trans by (auto intro: same_version_trans)
    ultimately show ?case using snoc t unfolding r by simp
  qed (simp add: start_def)
  obtain bs u m where t: "fold step order start = (bs, u, m)" by (metis prod_cases3)
  note I = inv[of order, unfolded t]
  show "bins = map (\<lambda>m. join e (MkdirTemp me n) (ExeName me m)) needed" if "res = Inr bins"
  proof -
    have "bins = bs" and ok: "filter (\<lambda>(b, n). b = []) (zip bs needed) = []"
      using assms(1) that t unfolding fetchMigrations_def step_def start_def
      by (auto simp: Let_def split: sum.splits if_splits prod.splits)
    have "bs ! i \<noteq> []" if "i < length needed" for i
    proof
      assume b: "bs ! i = []"
      have "(bs ! i, needed ! i) \<in> set (zip bs needed)" using I that by (auto simp: set_zip)
      with b ok show False by (auto simp: filter_empty_conv)
    qed
    with I \<open>bins = bs\<close> show ?thesis by (intro nth_equalityI) auto
  qed
  show "same_version_file e dir w w'" if "downloads_apart me e dir" "set order \<subseteq> {..<length needed}"
  proof -
    have "w' = w \<or> w' = u"
      using assms(1) t unfolding fetchMigrations_def step_def start_def
      by (auto simp: Let_def split: sum.splits if_splits prod.splits)
    with I that show ?thesis by auto
  qed
qed

lemma migrationName_ne: "migrationName a b \<noteq> []"
  by (simp add: migrationName_def)

text \<open>One turn of the loop.\<close>

lemma find_loop_Cons:
  assumes "find_loop me net cur to = Inr ms" and "cur \<noteq> to"
  obtains rest where "ctx_Err me net = None" and "find_loop me net (if cur > to then cur - 1 else cur + 1) to = Inr rest"
    and "ms = (let m = migrationName (if cur > to then cur - 1 else cur) (if cur > to then cur else cur + 1) in (m, LookPath me m) # rest)"
  using assms by (subst (asm) find_loop.simps) (auto simp: Let_def split: option.splits sum.splits if_splits)

lemma find_loop_names: "find_loop me net a b = Inr ms \<Longrightarrow> (m, q) \<in> set ms \<Longrightarrow> m \<noteq> [] \<and> q = LookPath me m"
proof (induction "nat \<bar>b - a\<bar>" arbitrary: a ms rule: less_induct)
  case less
  show ?case
  proof (cases "a = b")
    case False
    from less.prems(1) False show ?thesis
    proof (rule find_loop_Cons)
      fix rest assume r: "find_loop me net (if a > b then a - 1 else a + 1) b = Inr rest"
        and ms: "ms = (let m = migrationName (if a > b then a - 1 else a) (if a > b then a else a + 1) in (m, LookPath me m) # rest)"
      show ?thesis
      proof (cases "(m, q) \<in> set rest")
        case True
        with less.hyps[OF _ r] False show ?thesis by auto
      qed (use less.prems(2) ms migrationName_ne in \<open>auto simp: Let_def\<close>)
    qed
  qed (use less.prems in \<open>simp add: find_loop.simps\<close>)
qed

text \<open>Running the chain of migrations takes the repository from the first version to the last.\<close>

lemma run_chain:
  assumes "programs_ok me e dir"
  shows "find_loop me net cur to = Inr ms \<Longrightarrow> (cur > to \<longrightarrow> revert) \<Longrightarrow> (cur < to \<longrightarrow> \<not> revert) \<Longrightarrow>
    \<forall>m \<in> fst ` set ms. \<exists>b. binPaths m = Some b \<and> binary_for me e m b \<Longrightarrow> read_RepoVersion e dir w = Inr cur \<Longrightarrow>
    run_all me binPaths dir revert (map fst ms) w = (None, w') \<Longrightarrow> read_RepoVersion e dir w' = Inr to"
proof (induction "nat \<bar>to - cur\<bar>" arbitrary: cur ms w rule: less_induct)
  case less
  show ?case
  proof (cases "cur = to")
    case ne: False
    define nxt where "nxt = (if cur > to then cur - 1 else cur + 1)"
    define m where "m = migrationName (if cur > to then cur - 1 else cur) (if cur > to then cur else cur + 1)"
    obtain rest where r: "find_loop me net nxt to = Inr rest" and ms: "ms = (m, LookPath me m) # rest"
      using find_loop_Cons[OF less.prems(1) ne] unfolding nxt_def m_def Let_def by blast
    have "\<exists>b. binPaths m = Some b \<and> binary_for me e m b" using less.prems(4) ms by simp
    then obtain b where b: "binPaths m = Some b" "binary_for me e m b" by blast
    obtain x u where x: "runMigration me b dir revert w = (x, u)" by fastforce
    have u: "runMigration me b dir revert w = (None, u)" "run_all me binPaths dir revert (map fst rest) u = (None, w')"
      using less.prems(6) by (cases x; simp add: ms b(1) x)+
    have "read_RepoVersion e dir u = Inr nxt"
    proof (cases "cur > to")
      case True
      then have "binary_for me e (migrationName (cur - 1) (cur - 1 + 1)) b" using b(2) by (simp add: m_def)
      then show ?thesis using assms u(1) less.prems(2,5) True unfolding programs_ok_def nxt_def by fastforce
    next
      case False
      then have "binary_for me e (migrationName cur (cur + 1)) b" using b(2) by (simp add: m_def)
      then show ?thesis using assms u(1) less.prems(3,5) False ne unfolding programs_ok_def nxt_def by fastforce
    qed
    moreover have "nat \<bar>to - nxt\<bar> < nat \<bar>to - cur\<bar>" "nxt > to \<longrightarrow> revert" "nxt < to \<longrightarrow> \<not> revert"
      using less.prems(2,3) ne by (auto simp: nxt_def)
    moreover have "\<forall>m \<in> fst ` set rest. \<exists>b. binPaths m = Some b \<and> binary_for me e m b" using less.prems(4) ms by simp
    ultimately show ?thesis using less.hyps[OF _ r] u(2) by blast
  qed (use less.prems in \<open>simp add: find_loop.simps\<close>)
qed

lemma foldl_upd: "foldl (\<lambda>m (k, v). m(k \<mapsto> v)) bp (zip ks (map g ks)) x = (if x \<in> set ks then Some (g x) else bp x)"
  by (induction ks arbitrary: bp) auto

lemma findMigrations_names:
  assumes "findMigrations me net a b = Inr (migs, bp)"
  obtains ms where "find_loop me net a b = Inr ms" and "migs = map fst ms" and "\<forall>m \<in> set migs. m \<noteq> [] \<and> bp m = LookPath me m"
proof -
  obtain ms where ms: "find_loop me net a b = Inr ms" "migs = map fst ms" "bp = (\<lambda>n. Option.bind (map_of ms n) id)"
    using assms by (auto simp: findMigrations_def split: sum.splits)
  have "m \<noteq> [] \<and> bp m = LookPath me m" if m: "m \<in> set migs" for m
  proof -
    obtain q where q: "map_of ms m = Some q" using m ms(2) by (metis list.set_map map_of_eq_None_iff not_None_eq)
    with find_loop_names[OF ms(1) map_of_SomeD[OF q]] show ?thesis by (simp add: ms(3))
  qed
  with ms that show ?thesis by blast
qed

lemma get_programs_spec:
  assumes "get_programs me e f order migs bp (MkdirTemp me ''migrations'') (w, net) = (res, w', net')"
    and "isDir me (MkdirTemp me ''migrations'')" and "\<forall>m \<in> set migs. m \<noteq> [] \<and> bp m = LookPath me m"
  shows "res = Inr bp' \<Longrightarrow> \<forall>m \<in> set migs. \<exists>b. bp' m = Some b \<and> binary_for me e m b"
    and "downloads_apart me e dir \<Longrightarrow> set order \<subseteq> {..<length (filter (\<lambda>m. bp m = None) migs)} \<Longrightarrow> same_version_file e dir w w'"
proof -
  define missing where "missing = filter (\<lambda>m. bp m = None) migs"
  obtain r u n where fm: "fetchMigrations me e f order missing (MkdirTemp me ''migrations'') (w, net) = (r, u, n)" by (metis prod_cases3)
  have ne: "[] \<notin> set missing" using assms(3) by (auto simp: missing_def)
  have wu: "w' = u" using assms(1) fm by (auto simp: get_programs_def missing_def[symmetric] Let_def split: sum.splits)
  show "\<forall>m \<in> set migs. \<exists>b. bp' m = Some b \<and> binary_for me e m b" if ok: "res = Inr bp'"
  proof
    fix m assume m: "m \<in> set migs"
    obtain bins where bins: "r = Inr bins" "bp' = foldl (\<lambda>m (k, v). m(k \<mapsto> v)) bp (zip missing bins)"
      using assms(1) fm ok by (auto simp: get_programs_def missing_def[symmetric] Let_def split: sum.splits)
    have b: "bins = map (\<lambda>m. join e (MkdirTemp me ''migrations'') (ExeName me m)) missing"
      by (rule fetchMigrations_spec(1)[OF fm assms(2) ne bins(1)])
    show "\<exists>b. bp' m = Some b \<and> binary_for me e m b"
    proof (cases "bp m")
      case None
      with m have "m \<in> set missing" by (simp add: missing_def)
      then show ?thesis by (simp add: bins(2) b foldl_upd binary_for_def)
    next
      case (Some p)
      then have "m \<notin> set missing" by (simp add: missing_def)
      with Some m assms(3) show ?thesis by (auto simp: bins(2) b foldl_upd binary_for_def)
    qed
  qed
  show "same_version_file e dir w w'" if "downloads_apart me e dir" "set order \<subseteq> {..<length (filter (\<lambda>m. bp m = None) migs)}"
    using fetchMigrations_spec(2)[OF fm assms(2) ne that(1)] that(2) by (simp add: wu missing_def)
qed

lemma RemoveAll_version: "downloads_apart me e dir \<Longrightarrow> same_version_file e dir w (RemoveAll (MkdirTemp me n) w)"
  unfolding downloads_apart_def same_version_file_def RemoveAll_def by auto

lemma run_all_error: "run_all me bp dir rv ms w = (Some err, w') \<Longrightarrow> \<exists>m x. err = MigrationFailed m x"
  by (induction ms arbitrary: w) (auto split: prod.splits option.splits)

text \<open>\<^verbatim>\<open>RunMigration\<close> past its checks.\<close>

lemma RunMigration_runs:
  assumes "RunMigration me e f order target dir allowDowngrade (w, net) = (err, w', net')"
    and "CheckIpfsDir e dir = Inr d" and "read_RepoVersion e d w = Inr v0" and "v0 \<noteq> target"
    and "\<not> (v0 > target \<and> \<not> allowDowngrade)" and "findMigrations me net v0 target = Inr (migs, bp)"
  shows "(err, w', net') = (if \<forall>m \<in> set migs. bp m \<noteq> None then (case run_all me bp d (v0 > target) migs w of (er, v) \<Rightarrow> (er, v, net))
    else (case fault e IoMkdirTemp ''migrations'' of Some er \<Rightarrow> (Some (OsErr er), w, net) | None \<Rightarrow>
      (case get_programs me e f order migs bp (MkdirTemp me ''migrations'') (w, net) of
         (Inl er, u, n) \<Rightarrow> (Some er, RemoveAll (MkdirTemp me ''migrations'') u, n)
       | (Inr q, u, n) \<Rightarrow> (case run_all me q d (v0 > target) migs u of (er, v) \<Rightarrow> (er, RemoveAll (MkdirTemp me ''migrations'') v, n)))))"
  unfolding assms(1)[symmetric] RunMigration_def fst_conv snd_conv assms(2) assms(3) sum.case if_not_P[OF assms(4)]
    if_not_P[OF assms(5)] assms(6) prod.case Let_def
  by (auto split: prod.splits sum.splits option.splits)

section \<open>Properties\<close>

text \<open>Running the programs found from a version that was not touched reaches the target, or a program failed.\<close>

lemma run_all_version:
  assumes "programs_ok me e d" and "find_loop me net from_ver target = Inr ms" and "read_RepoVersion e d w = Inr from_ver"
    and "\<forall>m \<in> set (map fst ms). \<exists>b. q m = Some b \<and> binary_for me e m b" and "same_version_file e d w v"
    and "run_all me q d (from_ver > target) (map fst ms) v = (err, v')"
  shows "(err = None \<longrightarrow> read_RepoVersion e d v' = Inr target) \<and> (err \<noteq> None \<longrightarrow> (\<exists>m x. err = Some (MigrationFailed m x)))"
proof (cases err)
  case None
  have "read_RepoVersion e d v' = Inr target"
    by (rule run_chain[OF assms(1,2) _ _ _ _ assms(6)[unfolded None]])
      (use assms(4) same_version_read[OF assms(5)] assms(3) in auto)
  with None show ?thesis by simp
next
  case (Some er)
  with run_all_error assms(6) have "\<exists>m x. er = MigrationFailed m x" by blast
  with Some show ?thesis by simp
qed

lemma RunMigration_found:
  assumes "programs_ok me e d" and "downloads_apart me e d" and "isDir me (MkdirTemp me ''migrations'')"
    and "CheckIpfsDir e dir = Inr d" and "read_RepoVersion e d w = Inr from_ver"
    and "from_ver \<noteq> target" and "\<not> (from_ver > target \<and> \<not> allowDowngrade)"
    and fm: "findMigrations me net from_ver target = Inr (migs, bp)"
    and ord: "set order \<subseteq> {..<length (filter (\<lambda>m. bp m = None) migs)}"
    and run: "RunMigration me e f order target dir allowDowngrade (w, net) = (err, w', net')"
  shows "(err = None \<longrightarrow> read_RepoVersion e d w' = Inr target) \<and>
    (err \<noteq> None \<longrightarrow> (\<forall>m x. err \<noteq> Some (MigrationFailed m x)) \<longrightarrow> read_RepoVersion e d w' = Inr from_ver)"
proof -
  from fm obtain ms where ms: "find_loop me net from_ver target = Inr ms" "migs = map fst ms"
    and nm: "\<forall>m \<in> set migs. m \<noteq> [] \<and> bp m = LookPath me m" by (rule findMigrations_names)
  let ?rv = "from_ver > target"
  let ?tmp = "MkdirTemp me ''migrations''"
  note R = RunMigration_runs[OF run assms(4,5,6,7) fm]
  note ran = run_all_version[OF assms(1) ms(1) assms(5), folded ms(2)]
  show ?thesis
  proof (cases "\<forall>m \<in> set migs. bp m \<noteq> None")
    case True
    have "same_version_file e d w w" by simp
    moreover have "\<forall>m \<in> set migs. \<exists>b. bp m = Some b \<and> binary_for me e m b" using True nm by (auto simp: binary_for_def)
    moreover have "run_all me bp d ?rv migs w = (err, w')"
      using R[unfolded if_P[OF True]] by (cases "run_all me bp d ?rv migs w") simp
    ultimately show ?thesis using ran by blast
  next
    case miss: False
    obtain res u n where gp: "get_programs me e f order migs bp ?tmp (w, net) = (res, u, n)" by (metis prod_cases3)
    have sv: "same_version_file e d w u" by (rule get_programs_spec(2)[OF gp assms(3) nm assms(2)]) (use ord in blast)
    have tmp: "read_RepoVersion e d (RemoveAll ?tmp v) = read_RepoVersion e d v" for v
      by (rule same_version_read[OF RemoveAll_version[OF assms(2)]])
    note R = R[unfolded if_not_P[OF miss]]
    show ?thesis
    proof (cases "fault e IoMkdirTemp ''migrations''")
      case ok: None
      show ?thesis
      proof (cases res)
        case (Inl er)
        then have "err = Some er" "w' = RemoveAll ?tmp u" using R by (simp_all add: ok gp)
        then show ?thesis using tmp same_version_read[OF sv] assms(5) by simp
      next
        case (Inr q)
        obtain er v where ra: "run_all me q d ?rv migs u = (er, v)" by fastforce
        have "err = er" "w' = RemoveAll ?tmp v" using R by (simp_all add: ok gp Inr ra)
        then show ?thesis using ran[OF get_programs_spec(1)[OF gp assms(3) nm Inr] sv ra] tmp by auto
      qed
    qed (use R assms(5) in auto)
  qed
qed

text \<open>
  C12. Migration reaches its target.  When \<^verbatim>\<open>RunMigration\<close> reports success, the repository has the target
  version, whichever programs were found locally and whichever were downloaded, in any order, for upgrades
  and for downgrades; a downgrade that is not allowed changes nothing; and as long as no
  program has failed, an error (missing programs, failed downloads, cancellation) means the version file
  was not touched.
\<close>

theorem RunMigration_reaches_target:
  assumes "programs_ok me e d" and "downloads_apart me e d" and "isDir me (MkdirTemp me ''migrations'')"
    and "CheckIpfsDir e dir = Inr d" and "read_RepoVersion e d w = Inr from_ver"
    and "\<forall>migs bp. findMigrations me net from_ver target = Inr (migs, bp) \<longrightarrow> set order \<subseteq> {..<length (filter (\<lambda>m. bp m = None) migs)}"
    and "RunMigration me e f order target dir allowDowngrade (w, net) = (err, w', net')"
  shows "(err = None \<longrightarrow> read_RepoVersion e d w' = Inr target) \<and>
    (from_ver > target \<longrightarrow> \<not> allowDowngrade \<longrightarrow> err = Some (DowngradeNotAllowed from_ver target) \<and> w' = w) \<and>
    (err \<noteq> None \<longrightarrow> (\<forall>m x. err \<noteq> Some (MigrationFailed m x)) \<longrightarrow> read_RepoVersion e d w' = Inr from_ver)"
proof (cases "from_ver = target \<or> (from_ver > target \<and> \<not> allowDowngrade)")
  case True
  with assms(4,5,7) show ?thesis by (auto simp: RunMigration_def)
next
  case go: False
  show ?thesis
  proof (cases "findMigrations me net from_ver target")
    case (Inl er)
    with go assms(4,5,7) show ?thesis by (auto simp: RunMigration_def)
  next
    case (Inr x)
    then obtain migs bp where fm: "findMigrations me net from_ver target = Inr (migs, bp)" by (cases x) auto
    with assms(6) have ord: "set order \<subseteq> {..<length (filter (\<lambda>m. bp m = None) migs)}" by blast
    show ?thesis using RunMigration_found[OF assms(1-5) _ _ fm ord assms(7)] go by auto
  qed
qed

text \<open>A repository at version 11 and a program that knows the versions 11 and 12.\<close>

definition demo_exec :: "path \<Rightarrow> string list \<Rightarrow> osys \<Rightarrow> string option \<times> osys" where
  "demo_exec bin args w =
     (let c = os_files w ''r/version''; revert = (length args = 3) in
      if c = Some ''11'' \<and> \<not> revert then (None, w\<lparr>os_files := (os_files w)(''r/version'' \<mapsto> ''12'')\<rparr>)
      else if c = Some ''12'' \<and> revert then (None, w\<lparr>os_files := (os_files w)(''r/version'' \<mapsto> ''11'')\<rparr>)
      else (Some ''unsupported'', w))"

definition mig_demo_env :: "(nat, unit) mig_env" where
  "mig_demo_env = \<lparr>GOOS = ''linux'', GOARCH = ''amd64'', ldd_version = Inr ''glibc'', LookPath = (\<lambda>n. Some ''/bin/m''),
     exec_run = demo_exec, ctx_Err = (\<lambda>_. None), http_Do = (\<lambda>_ _ w. (Inl ''offline'', w)),
     ipfs_Fetch = (\<lambda>_ _ w. (Inl ''offline'', w)), url_Parse = (\<lambda>s. Inr ([], s)), url_String = (\<lambda>s r. s @ ''://'' @ r),
     path_Join = (\<lambda>a b. if a = [] then b else a @ ''/'' @ b), path_Base = id, semver_Make = (\<lambda>_. None), semver_String = (\<lambda>_. []),
     semver_sort = sort, isDir = (\<lambda>_. True), MkdirTemp = (\<lambda>n. ''/tmp/'' @ n), tgz_entries = (\<lambda>_. Inl ''none''),
     zip_entries = (\<lambda>_. Inl ''none''), dec_migration = (\<lambda>_. Inr ([], ''pin'')), DownloadDirectory = ''/dl'', IPFS_DIST_PATH = []\<rparr>"

definition mig_demo_os :: osys where
  "mig_demo_os = \<lparr>os_files = [''r/version'' \<mapsto> ''11''], os_locks = {}, os_stores = []\<rparr>"

lemma demo_read_version:
  "read_RepoVersion repo_demo_env ''r'' w =
     (case os_files w ''r/version'' of None \<Rightarrow> Inl (NotExist ''r/version'')
      | Some c \<Rightarrow> (case Atoi (TrimSpace c) of None \<Rightarrow> Inl InvalidVersion | Some v \<Rightarrow> Inr v))"
  by (auto simp: read_RepoVersion_def CheckIpfsDir_def IpfsDir_def repoVersion_def os_ReadFile_def os_Open_def repo_demo_env_def
      ds_demo_env_def split: option.splits)

lemma demo_versions: "Atoi (TrimSpace ''11'') = Some 11" "Atoi (TrimSpace ''12'') = Some 12"
  by code_simp+

lemma demo_programs: "programs_ok mig_demo_env repo_demo_env ''r''"
  unfolding programs_ok_def
  by (auto simp: demo_read_version runMigration_def mig_demo_env_def demo_exec_def demo_versions Let_def split: if_splits option.splits)

lemma demo_apart: "downloads_apart mig_demo_env repo_demo_env ''r''"
  by (auto simp: downloads_apart_def mig_demo_env_def repo_demo_env_def ds_demo_env_def IpfsDir_def has_prefix_def)

theorem RunMigration_reaches_target_witness:
  "read_RepoVersion repo_demo_env ''r'' (fst (snd (RunMigration mig_demo_env repo_demo_env (Multi []) [] 12 ''r'' False (mig_demo_os, ())))) = Inr 12"
proof -
  have d: "isDir mig_demo_env (MkdirTemp mig_demo_env ''migrations'')" by (simp add: mig_demo_env_def)
  have c: "CheckIpfsDir repo_demo_env ''r'' = Inr ''r''" by (simp add: CheckIpfsDir_def IpfsDir_def repo_demo_env_def)
  have v: "read_RepoVersion repo_demo_env ''r'' mig_demo_os = Inr 11" by (simp add: demo_read_version mig_demo_os_def demo_versions)
  have fm: "findMigrations mig_demo_env () 11 12 = Inr ([migrationName 11 12], [migrationName 11 12 \<mapsto> ''/bin/m''])"
    by (auto simp: findMigrations_def find_loop.simps mig_demo_env_def Let_def)
  have ex: "runMigration mig_demo_env b ''r'' False mig_demo_os = (None, mig_demo_os\<lparr>os_files := [''r/version'' \<mapsto> ''12'']\<rparr>)" for b
    by (simp add: runMigration_def mig_demo_env_def demo_exec_def mig_demo_os_def)
  have r: "RunMigration mig_demo_env repo_demo_env (Multi []) [] 12 ''r'' False (mig_demo_os, ()) =
      (None, mig_demo_os\<lparr>os_files := [''r/version'' \<mapsto> ''12'']\<rparr>, ())"
    by (simp add: RunMigration_def c v fm ex)
  have "read_RepoVersion repo_demo_env ''r'' (mig_demo_os\<lparr>os_files := [''r/version'' \<mapsto> ''12'']\<rparr>) = Inr 12"
    using RunMigration_reaches_target[OF demo_programs demo_apart d c v _ r] by simp
  then show ?thesis by (simp add: r)
qed

lemma retry_success: "retry_loop me fetch n le w = (Inr out, w') \<Longrightarrow> \<exists>v. fetch v = (Inr out, w')"
  by (induction n arbitrary: le w) (auto split: prod.splits sum.splits option.splits)

lemma multi_result:
  "multi_loop me fs p errs w = (Inr out, w') \<Longrightarrow> \<exists>f \<in> set fs. \<exists>v. Fetch me f p v = (Inr out, w')"
  "multi_loop me fs p errs w = (Inl es, w') \<Longrightarrow> length es = length errs + length fs"
  by (induction fs arbitrary: errs w) (auto split: prod.splits sum.splits)

lemma source_fetcher_kind:
  assumes "source_fetcher me distPath withIpfs src = Inr (Some g)"
  shows "(\<exists>h. g = Retry (Http h) 3) \<or> g = Ipfs distPath"
proof -
  define s where "s = TrimSpace src"
  consider "s \<in> {''HTTPS'', ''https'', ''HTTP'', ''http''}" | "s \<notin> {''HTTPS'', ''https'', ''HTTP'', ''http''}" "s \<in> {''IPFS'', ''ipfs''}"
    | "s \<notin> {''HTTPS'', ''https'', ''HTTP'', ''http''}" "s \<notin> {''IPFS'', ''ipfs''}" by metis
  then show ?thesis
  proof cases
    case 1
    show ?thesis using assms unfolding source_fetcher_def Let_def s_def[symmetric] if_P[OF 1] by blast
  next
    case 2
    show ?thesis
      using assms unfolding source_fetcher_def Let_def s_def[symmetric] if_not_P[OF 2(1)] if_P[OF 2(2)]
      by (cases withIpfs) simp_all
  next
    case 3
    show ?thesis
      using assms unfolding source_fetcher_def Let_def s_def[symmetric] if_not_P[OF 3(1)] if_not_P[OF 3(2)]
      by (simp split: if_split_asm sum.split_asm prod.split_asm) blast+
  qed
qed

text \<open>
  What is downloaded comes from a source.  Whatever fetcher is built from the configured download
  sources, with its retries and fallbacks, a successful download is the answer of one of the
  underlying fetchers to this path; an exhausted list of sources is an error, not an empty file.
\<close>

theorem GetMigrationFetcher_sound:
  assumes "GetMigrationFetcher me sources distPath withIpfs = Inr f" and "Fetch me f p w = (Inr out, w')"
  shows "(\<exists>v. ipfs_Fetch me distPath p v = (Inr out, w')) \<or> (\<exists>h v. HttpFetcher_Fetch me h p v = (Inr out, w'))"
proof -
  have loop: "\<forall>g \<in> set fs. (\<exists>h. g = Retry (Http h) 3) \<or> g = Ipfs distPath" if "source_loop me distPath withIpfs srcs = Inr fs" for srcs fs
    using that by (induction srcs arbitrary: fs) (auto split: sum.splits option.splits dest: source_fetcher_kind)
  have one: "(\<exists>v. ipfs_Fetch me distPath p v = (Inr out, w')) \<or> (\<exists>h v. HttpFetcher_Fetch me h p v = (Inr out, w'))"
    if "(\<exists>h. g = Retry (Http h) 3) \<or> g = Ipfs distPath" "Fetch me g p v = (Inr out, w')" for g v
    using that by (auto dest!: retry_success)
  obtain fs where fs: "source_loop me distPath withIpfs sources = Inr fs" and f: "fs = [f] \<or> f = Multi fs \<and> fs \<noteq> []"
    using assms(1) by (auto simp: GetMigrationFetcher_def split: sum.splits list.splits)
  show ?thesis
  proof (cases "fs = [f]")
    case True
    then show ?thesis using one[OF _ assms(2)] loop[OF fs] by simp
  next
    case False
    with f have m: "f = Multi fs" "fs \<noteq> []" by auto
    obtain r u where r: "multi_loop me fs p [] w = (r, u)" by fastforce
    have "r = Inr out \<and> u = w'"
    proof (cases r)
      case (Inl es)
      with multi_result(2)[of me fs p "[]" w es u] r m(2) have "es \<noteq> []" by auto
      with assms(2) m(1) r Inl show ?thesis by (cases es) auto
    qed (use assms(2) m(1) r in auto)
    with r have "multi_loop me fs p [] w = (Inr out, w')" by simp
    from multi_result(1)[OF this] obtain g v where "g \<in> set fs" "Fetch me g p v = (Inr out, w')" by blast
    then show ?thesis by (intro one[OF bspec[OF loop[OF fs]]])
  qed
qed

definition mig_online_env :: "(nat, unit) mig_env" where
  "mig_online_env = mig_demo_env\<lparr>ipfs_Fetch := (\<lambda>d p w. (Inr (d @ p), w))\<rparr>"

theorem GetMigrationFetcher_sound_witness:
  "\<exists>f. GetMigrationFetcher mig_online_env [''https'', '' IPFS ''] ''/ipns/d'' True = Inr f \<and>
     ((\<exists>v. ipfs_Fetch mig_online_env ''/ipns/d'' ''/x'' v = (Inr ''/ipns/d/x'', ())) \<or>
      (\<exists>h v. HttpFetcher_Fetch mig_online_env h ''/x'' v = (Inr ''/ipns/d/x'', ())))"
proof -
  let ?f = "Multi [Retry (Http (NewHttpFetcher ''/ipns/d'' [] ''go-ipfs'' 0)) 3, Ipfs ''/ipns/d'']"
  have t: "TrimSpace ''https'' = ''https''" "TrimSpace '' IPFS '' = ''IPFS''" by code_simp+
  have g: "GetMigrationFetcher mig_online_env [''https'', '' IPFS ''] ''/ipns/d'' True = Inr ?f"
    by (simp add: GetMigrationFetcher_def source_fetcher_def t Let_def)
  have "Fetch mig_online_env ?f ''/x'' () = (Inr ''/ipns/d/x'', ())"
    by (simp add: HttpFetcher_Fetch_def mig_online_env_def mig_demo_env_def numeral_3_eq_3 Let_def)
  from GetMigrationFetcher_sound[OF g this] g show ?thesis by blast
qed

definition unusable :: "bool \<Rightarrow> string \<Rightarrow> bool" where
  "unusable stableOnly ver \<longleftrightarrow> contains_str ver ''-dev'' \<or> stableOnly \<and> contains_str ver ''-rc''"

lemma latest_loop_eq:
  "latest_loop so us = (case dropWhile (unusable so) us of [] \<Rightarrow> Inl NoNonDevVersion | ver # _ \<Rightarrow> Inr ver)"
  by (induction us) (simp, cases so, simp_all add: unusable_def)

text \<open>
  The version that is downloaded is the newest usable one: of the versions the site lists, in ascending
  order, everything after it is a development version (or, on request of a stable one, a release
  candidate), and an error means there is no usable version at all.
\<close>

theorem LatestDistVersion_latest:
  assumes "DistVersions me f dist False w = (Inr vs, w1)" and "LatestDistVersion me f dist stableOnly w = (res, w')"
    and "\<forall>vers. mset (semver_sort me vers) = mset vers \<and> sorted_wrt le (semver_sort me vers)"
  shows "(\<exists>vers. sorted_wrt le vers \<and> vs = map (\<lambda>v. ''v'' @ semver_String me v) vers) \<and>
    (case res of
       Inr ver \<Rightarrow> \<not> unusable stableOnly ver \<and> (\<exists>before after. vs = before @ ver # after \<and> (\<forall>x \<in> set after. unusable stableOnly x))
     | Inl err \<Rightarrow> \<forall>x \<in> set vs. unusable stableOnly x)"
proof -
  have res: "res = latest_loop stableOnly (rev vs)" using assms(1,2) by (simp add: LatestDistVersion_def)
  have "\<exists>vers. sorted_wrt le vers \<and> vs = map (\<lambda>v. ''v'' @ semver_String me v) vers"
    using assms(1,3) by (auto simp: DistVersions_def Let_def split: prod.splits sum.splits if_splits)
  moreover have "case res of
       Inr ver \<Rightarrow> \<not> unusable stableOnly ver \<and> (\<exists>before after. vs = before @ ver # after \<and> (\<forall>x \<in> set after. unusable stableOnly x))
     | Inl err \<Rightarrow> \<forall>x \<in> set vs. unusable stableOnly x"
  proof (cases "dropWhile (unusable stableOnly) (rev vs)")
    case Nil
    then have "\<forall>x \<in> set vs. unusable stableOnly x" by simp
    then show ?thesis unfolding res latest_loop_eq Nil list.case sum.case .
  next
    case (Cons ver us)
    have "rev vs = takeWhile (unusable stableOnly) (rev vs) @ ver # us"
      using takeWhile_dropWhile_id[of "unusable stableOnly" "rev vs"] Cons by simp
    then have "vs = rev us @ ver # rev (takeWhile (unusable stableOnly) (rev vs))" by (simp add: rev_swap)
    moreover have "\<forall>x \<in> set (rev (takeWhile (unusable stableOnly) (rev vs))). unusable stableOnly x" by (auto dest: set_takeWhileD)
    moreover have "\<not> unusable stableOnly ver" using Cons by (metis dropWhile_eq_Cons_conv)
    ultimately show ?thesis unfolding res latest_loop_eq Cons list.case sum.case by blast
  qed
  ultimately show ?thesis by blast
qed

definition mig_versions_env :: "(nat, unit) mig_env" where
  "mig_versions_env = mig_online_env\<lparr>ipfs_Fetch := (\<lambda>d p w. (Inr (''v2'' @ [CHR 0x0A] @ ''v1'' @ [CHR 0x0A]), w)),
     semver_Make := (\<lambda>s. Some 7), semver_String := (\<lambda>n. ''x'')\<rparr>"

theorem LatestDistVersion_latest_witness:
  "LatestDistVersion mig_versions_env (Ipfs []) ''d'' False () = (Inr ''vx'', ()) \<and> \<not> unusable False ''vx''"
proof -
  have sc: "scan_lines (''v2'' @ [CHR 0x0A] @ ''v1'' @ [CHR 0x0A]) = ([''v2'', ''v1''], True)"
    by (simp add: scan_lines_def drop_cr_def)
  have f: "Fetch mig_versions_env (Ipfs []) p () = (Inr (''v2'' @ [CHR 0x0A] @ ''v1'' @ [CHR 0x0A]), ())"
    "semver_Make mig_versions_env s = Some 7" "semver_String mig_versions_env n = ''x''" "semver_sort mig_versions_env = sort" for p s n
    by (simp_all add: mig_versions_env_def mig_online_env_def mig_demo_env_def)
  have d: "DistVersions mig_versions_env (Ipfs []) ''d'' False () = (Inr [''vx'', ''vx''], ())"
    by (simp only: DistVersions_def f sc prod.case sum.case) (simp add: f map_filter_def)
  have l: "LatestDistVersion mig_versions_env (Ipfs []) ''d'' False () = (Inr ''vx'', ())"
    by (simp add: LatestDistVersion_def d has_prefix_def)
  have "\<forall>vers. mset (semver_sort mig_versions_env vers) = mset vers \<and> sorted_wrt (\<le>) (semver_sort mig_versions_env vers)"
    by (simp add: mig_versions_env_def mig_online_env_def mig_demo_env_def)
  from LatestDistVersion_latest[OF d l this] l show ?thesis by simp
qed

section \<open>Departures\<close>

text \<open>A file larger than the limit is cut off and returned as complete.\<close>

theorem HttpFetcher_truncates:
  assumes "http_Do me (hf_gateway f @ path_Join me (hf_distPath f) p) (hf_userAgent f) w = (Inr (200, body, None), w')"
    and "0 < hf_limit f" and "hf_limit f < int (length body)"
  shows "HttpFetcher_Fetch me f p w = (Inr (take (nat (hf_limit f)) body), w')"
  using assms by (simp add: HttpFetcher_Fetch_def)

text \<open>The user agent is never sent.\<close>

theorem NewHttpFetcher_no_user_agent: "hf_userAgent (NewHttpFetcher distPath gateway userAgent limit) = []"
  by (simp add: NewHttpFetcher_def)

text \<open>A \<^verbatim>\<open>MultiFetcher\<close> without fetchers reports success without contents.\<close>

theorem MultiFetcher_empty: "Fetch me (Multi []) p w = (Inr [], w)"
  by simp

text \<open>The documented value \<^verbatim>\<open>pin\<close> of \<^verbatim>\<open>Migration.Keep\<close> is refused, \<^verbatim>\<open>keep\<close> is accepted.\<close>

theorem ReadMigrationConfig_pin:
  assumes "Filename e root u = Inr p" and "os_ReadFile e p w = Inr c" and "dec_migration me c = Inr (srcs, ''pin'')"
  shows "ReadMigrationConfig me e root u w = Inl UnknownKeep"
  using assms by (simp add: ReadMigrationConfig_def)

end
