(* ===== verification/BlockRm.thy ===== *)
theory BlockRm
  imports Prelude "HOL-Library.Multiset"
begin

text \<open>
  Removal of blocks: \<^verbatim>\<open>src/blocks/blockstoreutil/remove.go\<close>.  The block store keeps blocks by the multihash
  of their CID (\<open>mh\<close>, of another package); every call to it may fail.  The result channel is the list of
  the values sent; \<open>RmBlocks\<close> runs under the lock that excludes pinning, so the answer of the pinner holds
  for the whole run.
\<close>

datatype 'c rm_error = PinCheckFailed string | IsPinned string | NotFound 'c | BlockErr string

record 'c RemovedBlock =
  rb_Hash :: string
  rb_Error :: "'c rm_error option"

record RmBlocksOpts =
  opt_Prefix :: string
  opt_Quiet :: bool
  opt_Force :: bool

text \<open>A result of \<^verbatim>\<open>CheckIfPinned\<close> is the key and, for a pinned one, its description.\<close>

record ('c, 'h) rm_env =
  mh :: "'c \<Rightarrow> 'h"
  cid_String :: "'c \<Rightarrow> string"
  has_err :: "'c \<Rightarrow> string option"
  delete_err :: "'c \<Rightarrow> string option"
  CheckIfPinned :: "'c list \<Rightarrow> string + ('c \<times> string option) list"

fun filter_loop :: "('c, 'h) rm_env \<Rightarrow> ('c \<times> string option) list \<Rightarrow> 'c list \<times> 'c RemovedBlock list" where
  "filter_loop e [] = ([], [])"
| "filter_loop e ((k, pinned) # res) =
     (case filter_loop e res of (stillOkay, out) \<Rightarrow>
        (case pinned of
           None \<Rightarrow> (k # stillOkay, out)
         | Some why \<Rightarrow> (stillOkay, \<lparr>rb_Hash = cid_String e k, rb_Error = Some (IsPinned why)\<rparr> # out)))"

definition FilterPinned :: "('c, 'h) rm_env \<Rightarrow> 'c list \<Rightarrow> 'c list \<times> 'c RemovedBlock list" where
  "FilterPinned e cids =
     (case CheckIfPinned e cids of
        Inl err \<Rightarrow> ([], [\<lparr>rb_Hash = [], rb_Error = Some (PinCheckFailed err)\<rparr>])
      | Inr res \<Rightarrow> filter_loop e res)"

definition rm_one ::
    "('c, 'h) rm_env \<Rightarrow> RmBlocksOpts \<Rightarrow> 'c \<Rightarrow> ('h \<rightharpoonup> 'b) \<Rightarrow> 'c RemovedBlock list \<times> ('h \<rightharpoonup> 'b)" where
  "rm_one e opts c bs =
     (case has_err e c of
        Some err \<Rightarrow> ([\<lparr>rb_Hash = cid_String e c, rb_Error = Some (BlockErr err)\<rparr>], bs)
      | None \<Rightarrow>
          if bs (mh e c) = None \<and> \<not> opt_Force opts then
            ([\<lparr>rb_Hash = cid_String e c, rb_Error = Some (NotFound c)\<rparr>], bs)
          else
            (case delete_err e c of
               Some err \<Rightarrow> ([\<lparr>rb_Hash = cid_String e c, rb_Error = Some (BlockErr err)\<rparr>], bs)
             | None \<Rightarrow>
                 ((if \<not> opt_Quiet opts then [\<lparr>rb_Hash = cid_String e c, rb_Error = None\<rparr>] else []), bs(mh e c := None))))"

fun rm_loop ::
    "('c, 'h) rm_env \<Rightarrow> RmBlocksOpts \<Rightarrow> 'c list \<Rightarrow> ('h \<rightharpoonup> 'b) \<Rightarrow> 'c RemovedBlock list \<times> ('h \<rightharpoonup> 'b)" where
  "rm_loop e opts [] bs = ([], bs)"
| "rm_loop e opts (c # cs) bs =
     (case rm_one e opts c bs of (out, bs) \<Rightarrow>
        (case rm_loop e opts cs bs of (out', bs) \<Rightarrow> (out @ out', bs)))"

definition RmBlocks ::
    "('c, 'h) rm_env \<Rightarrow> RmBlocksOpts \<Rightarrow> 'c list \<Rightarrow> ('h \<rightharpoonup> 'b) \<Rightarrow> 'c RemovedBlock list \<times> ('h \<rightharpoonup> 'b)" where
  "RmBlocks e opts cids bs =
     (case FilterPinned e cids of (stillOkay, out) \<Rightarrow>
        (case rm_loop e opts stillOkay bs of (out', bs) \<Rightarrow> (out @ out', bs)))"

text \<open>What the interface of the pinner says: one result per CID asked for.\<close>

definition check_ok :: "('c, 'h) rm_env \<Rightarrow> bool" where
  "check_ok e \<longleftrightarrow> (\<forall>cids res. CheckIfPinned e cids = Inr res \<longrightarrow> mset (map fst res) = mset cids)"

section \<open>Lemmas\<close>

lemma filter_loop_eq:
  "filter_loop e res = (map fst (filter (\<lambda>r. snd r = None) res),
     map (\<lambda>r. \<lparr>rb_Hash = cid_String e (fst r), rb_Error = Some (IsPinned (the (snd r)))\<rparr>) (filter (\<lambda>r. snd r \<noteq> None) res))"
  by (induction e res rule: filter_loop.induct) auto

lemma rm_one_frame:
  assumes "rm_one e opts c bs = (out, bs')"
  shows "length out \<le> 1" and "h \<noteq> mh e c \<Longrightarrow> bs' h = bs h" and "bs' = bs \<or> bs' = bs(mh e c := None)"
    and "has_err e c = None \<Longrightarrow> delete_err e c = None \<Longrightarrow> bs' (mh e c) = None"
    and "\<forall>b \<in> set out. rb_Error b = None \<longrightarrow> bs' = bs(mh e c := None)"
    and "\<not> opt_Quiet opts \<Longrightarrow> length out = 1"
  using assms by (auto simp: rm_one_def split: option.splits if_splits)

lemma rm_loop_frame:
  assumes "rm_loop e opts cs bs = (out, bs')"
  shows "length out \<le> length cs \<and> (\<not> opt_Quiet opts \<longrightarrow> length out = length cs) \<and> (\<forall>h. h \<notin> mh e ` set cs \<longrightarrow> bs' h = bs h) \<and>
    (\<forall>h. bs' h \<noteq> None \<longrightarrow> bs' h = bs h)"
  using assms
proof (induction cs arbitrary: bs out)
  case (Cons c cs)
  obtain o1 b1 where one: "rm_one e opts c bs = (o1, b1)" by fastforce
  obtain o2 where rest: "rm_loop e opts cs b1 = (o2, bs')" and out: "out = o1 @ o2"
    using Cons.prems one by (auto split: prod.splits)
  note IH = Cons.IH[OF rest] and o = rm_one_frame[OF one]
  have "length out \<le> length (c # cs)" "\<not> opt_Quiet opts \<longrightarrow> length out = length (c # cs)" using IH o(1,6) out by simp_all
  moreover have "bs' h = bs h" if "h \<notin> mh e ` set (c # cs)" for h using IH o(2)[of h] that by simp
  moreover have "bs' h = bs h" if "bs' h \<noteq> None" for h
  proof -
    have b1: "bs' h = b1 h" using IH that by blast
    with that o(3) show ?thesis by (cases "h = mh e c") auto
  qed
  ultimately show ?case by blast
qed simp

lemma rm_loop_removes:
  "rm_loop e opts cs bs = (out, bs') \<Longrightarrow> c \<in> set cs \<Longrightarrow> has_err e c = None \<Longrightarrow> delete_err e c = None \<Longrightarrow> bs' (mh e c) = None"
proof (induction cs arbitrary: bs out)
  case (Cons d cs)
  obtain o1 b1 where one: "rm_one e opts d bs = (o1, b1)" by fastforce
  obtain o2 where rest: "rm_loop e opts cs b1 = (o2, bs')" using Cons.prems one by (auto split: prod.splits)
  show ?case
  proof (cases "c \<in> set cs")
    case False
    with Cons.prems have "b1 (mh e c) = None" using rm_one_frame(4)[OF one] by auto
    with rm_loop_frame[OF rest] show ?thesis by fastforce
  qed (use Cons rest in blast)
qed simp

text \<open>The CIDs that may be removed.\<close>

lemma FilterPinned_okay:
  assumes "check_ok e" and "FilterPinned e cids = (ok, out)"
  shows "CheckIfPinned e cids = Inr res \<Longrightarrow> set ok = {c. (c, None) \<in> set res}" and "set ok \<subseteq> set cids"
    and "CheckIfPinned e cids = Inl err \<Longrightarrow> ok = []"
    and "CheckIfPinned e cids = Inr res \<Longrightarrow> length ok + length out = length cids"
proof -
  show "set ok = {c. (c, None) \<in> set res}" if "CheckIfPinned e cids = Inr res"
    using assms(2) that by (force simp: FilterPinned_def filter_loop_eq)
  show "ok = []" if "CheckIfPinned e cids = Inl err" using assms(2) that by (simp add: FilterPinned_def)
  show "length ok + length out = length cids" if "CheckIfPinned e cids = Inr res"
  proof -
    have "length res = length cids" using assms(1) that unfolding check_ok_def by (metis length_map size_mset)
    moreover have "length ok + length out = length res"
      using assms(2) that sum_length_filter_compl[of "\<lambda>r. snd r = None" res] by (auto simp: FilterPinned_def filter_loop_eq)
    ultimately show ?thesis by simp
  qed
  show "set ok \<subseteq> set cids"
  proof (cases "CheckIfPinned e cids")
    case (Inr res)
    then have "set (map fst res) = set cids" using assms(1) unfolding check_ok_def by (metis set_mset_mset)
    with Inr assms(2) show ?thesis by (force simp: FilterPinned_def filter_loop_eq)
  qed (use assms(2) in \<open>simp add: FilterPinned_def\<close>)
qed

section \<open>Properties\<close>

text \<open>
  Removal of blocks is safe and does what it is asked: no block is changed; a block that goes is the one of
  a requested CID that the pinner reported as not pinned; when the pins cannot be checked nothing goes;
  and a requested CID that is not pinned is gone unless the store failed on it.
\<close>

theorem RmBlocks_safe:
  assumes "check_ok e" and "RmBlocks e opts cids bs = (out, bs')"
  shows "(\<forall>h. bs' h \<noteq> bs h \<longrightarrow> bs' h = None \<and>
      (\<exists>c res. c \<in> set cids \<and> mh e c = h \<and> CheckIfPinned e cids = Inr res \<and> (c, None) \<in> set res)) \<and>
    (\<forall>c res. CheckIfPinned e cids = Inr res \<longrightarrow> (c, None) \<in> set res \<longrightarrow> has_err e c = None \<longrightarrow> delete_err e c = None \<longrightarrow>
      bs' (mh e c) = None)"
proof -
  obtain ok o1 where f: "FilterPinned e cids = (ok, o1)" by fastforce
  obtain o2 where l: "rm_loop e opts ok bs = (o2, bs')" using assms(2) f by (auto simp: RmBlocks_def split: prod.splits)
  note fr = rm_loop_frame[OF l] and okay = FilterPinned_okay[OF assms(1) f]
  show ?thesis
  proof (intro conjI allI impI)
    fix h assume ch: "bs' h \<noteq> bs h"
    with fr show "bs' h = None" by metis
    have "h \<in> mh e ` set ok" using ch fr by metis
    then obtain c where c: "c \<in> set ok" "mh e c = h" by blast
    then obtain res where "CheckIfPinned e cids = Inr res" using okay(3) by (cases "CheckIfPinned e cids") auto
    with c okay(1,2) show "\<exists>c res. c \<in> set cids \<and> mh e c = h \<and> CheckIfPinned e cids = Inr res \<and> (c, None) \<in> set res" by blast
  next
    fix c res assume "CheckIfPinned e cids = Inr res" "(c, None) \<in> set res" "has_err e c = None" "delete_err e c = None"
    with okay(1) show "bs' (mh e c) = None" by (intro rm_loop_removes[OF l]) auto
  qed
qed

text \<open>A block store for the witnesses: CIDs are pairs of a version and a hash, and pins are by CID.\<close>

definition rm_demo_env :: "(nat \<times> nat) set \<Rightarrow> (nat \<times> nat, nat) rm_env" where
  "rm_demo_env pins = \<lparr>mh = snd, cid_String = (\<lambda>_. ''c''), has_err = (\<lambda>_. None), delete_err = (\<lambda>_. None),
     CheckIfPinned = (\<lambda>cs. Inr (map (\<lambda>c. (c, if c \<in> pins then Some ''pinned'' else None)) cs))\<rparr>"

lemma rm_demo_ok: "check_ok (rm_demo_env pins)"
  by (auto simp: check_ok_def rm_demo_env_def comp_def multiset.map_comp)

abbreviation rm_demo :: "(nat \<times> nat) RemovedBlock list \<times> (nat \<rightharpoonup> string)" where
  "rm_demo \<equiv> RmBlocks (rm_demo_env {(0, 3)}) \<lparr>opt_Prefix = [], opt_Quiet = True, opt_Force = False\<rparr> [(0, 3), (0, 2)]
     [3 \<mapsto> ''x'', 2 \<mapsto> ''y'']"

theorem RmBlocks_safe_witness: "snd rm_demo 2 = None \<and> snd rm_demo 3 = Some ''x''"
proof -
  note safe = RmBlocks_safe[OF rm_demo_ok prod.collapse[symmetric], of "{(0, 3)}"
    "\<lparr>opt_Prefix = [], opt_Quiet = True, opt_Force = False\<rparr>" "[(0, 3), (0, 2)]" "[3 \<mapsto> ''x'', 2 \<mapsto> ''y'']"]
  have c: "CheckIfPinned (rm_demo_env {(0, 3)}) [(0, 3), (0, 2)] = Inr [((0, 3), Some ''pinned''), ((0, 2), None)]"
    "mh (rm_demo_env {(0, 3)}) = snd" "has_err (rm_demo_env {(0, 3)}) x = None" "delete_err (rm_demo_env {(0, 3)}) x = None" for x
    by (simp_all add: rm_demo_env_def)
  have "snd rm_demo (mh (rm_demo_env {(0, 3)}) (0, 2)) = None" using safe[THEN conjunct2] c by simp
  moreover have "snd rm_demo 3 = ([3 \<mapsto> ''x'', 2 \<mapsto> ''y''] :: nat \<rightharpoonup> string) 3"
    using safe[THEN conjunct1, rule_format, of 3] c by fastforce
  ultimately show ?thesis by (simp add: c)
qed

text \<open>
  The goroutine that removes blocks never blocks on its channel while it holds the lock: at most as
  many results are sent as the channel has room for, and without \<^verbatim>\<open>Quiet\<close> exactly one for every CID
  asked for.
\<close>

theorem RmBlocks_results_bounded:
  assumes "check_ok e" and "RmBlocks e opts cids bs = (out, bs')" and "cids \<noteq> [] \<or> (\<exists>res. CheckIfPinned e cids = Inr res)"
  shows "length out \<le> length cids \<and>
    (\<not> opt_Quiet opts \<longrightarrow> (\<exists>res. CheckIfPinned e cids = Inr res) \<longrightarrow> length out = length cids)"
proof -
  obtain ok o1 where f: "FilterPinned e cids = (ok, o1)" by fastforce
  obtain o2 where l: "rm_loop e opts ok bs = (o2, bs')" and out: "out = o1 @ o2"
    using assms(2) f by (auto simp: RmBlocks_def split: prod.splits)
  note fr = rm_loop_frame[OF l] and okay = FilterPinned_okay(3,4)[OF assms(1) f]
  show ?thesis
  proof (cases "CheckIfPinned e cids")
    case (Inl err)
    then have "length o1 = 1" "ok = []" using f by (auto simp: FilterPinned_def)
    with fr out Inl assms(3) show ?thesis by (cases cids) auto
  next
    case (Inr res)
    with okay(2) fr out show ?thesis by auto
  qed
qed

theorem RmBlocks_results_bounded_witness: "length (fst rm_demo) \<le> length [(0::nat, 3::nat), (0, 2)]"
proof -
  have "[(0::nat, 3::nat), (0, 2)] \<noteq> [] \<or> (\<exists>res. CheckIfPinned (rm_demo_env {(0, 3)}) [(0, 3), (0, 2)] = Inr res)" by simp
  then show ?thesis by (rule conjunct1[OF RmBlocks_results_bounded[OF rm_demo_ok prod.collapse[symmetric]]])
qed

text \<open>
  The pin check compares CIDs, the block store deletes by multihash: a block pinned under one CID is
  deleted when it is asked for under another CID of the same hash.
\<close>

theorem RmBlocks_other_cid:
  "snd (RmBlocks (rm_demo_env {(0, 3)}) \<lparr>opt_Prefix = [], opt_Quiet = True, opt_Force = False\<rparr> [(1, 3)] [3 \<mapsto> ''x'']) = Map.empty"
  by (auto simp: RmBlocks_def FilterPinned_def rm_one_def rm_demo_env_def)

text \<open>
  When the pin check of an empty request fails, the error is sent on a channel without room: the
  goroutine blocks while it holds the lock until somebody reads.
\<close>

theorem RmBlocks_empty_request_blocks:
  assumes "CheckIfPinned e [] = Inl err"
  shows "length (fst (RmBlocks e opts [] bs)) = 1"
  using assms by (simp add: RmBlocks_def FilterPinned_def)

end
