(* ===== verification/PinMFS.thy ===== *)
theory PinMFS
  imports ConfigStruct "HOL-Library.Multiset"
begin

text \<open>
  Remote pinning of the MFS root: \<^verbatim>\<open>src/cmd/ipfs/pinmfs.go\<close>, with the service configuration of
  \<^verbatim>\<open>src/config/remotepin.go\<close>.  What the remote service answers to one run of \<^verbatim>\<open>pinMFS\<close> and the clock are an
  argument (\<open>pin_answers\<close>); the requests the run sends are its output.  The services are given in the
  iteration order of the map; the goroutines deliver their results in any order.  Times and durations
  are nanoseconds, 0 is Go's zero time; \<open>None\<close> is the undefined CID.
\<close>

record 'c lastPin =
  lp_Time :: int
  lp_ServiceName :: string
  lp_ServiceConfig :: RemotePinningService
  lp_CID :: "'c option"

definition no_pin :: "'c lastPin" where
  "no_pin = \<lparr>lp_Time = 0, lp_ServiceName = [],
     lp_ServiceConfig = \<lparr>api_Endpoint = [], api_Key = [], mfs_Enable = False, mfs_PinName = [], mfs_RepinInterval = []\<rparr>, lp_CID = None\<rparr>"

definition IsValid :: "'c lastPin \<Rightarrow> bool" where
  "IsValid x \<longleftrightarrow> x \<noteq> no_pin"

definition defaultRepinInterval :: int where
  "defaultRepinInterval = 5 * 60 * 1000000000"

datatype pin_status = StatusQueued | StatusPinning | StatusPinned | StatusFailed

record 'c pin_info =
  pi_RequestId :: string
  pi_Cid :: 'c
  pi_Status :: pin_status
  pi_Created :: int

record 'c pin_answers =
  a_ls :: "'c pin_info list"
  a_lsErr :: "string option"
  a_put :: "string option"
  a_now :: int

datatype ('c, 'm) pin_request =
  LsReq string string string
| AddReq 'c string "'m list option"
| ReplaceReq string 'c string "'m list option"

text \<open>Identity and own addresses of the node: no addresses without a host, an error when they cannot be formed.\<close>

record 'm pin_node =
  nd_Identity :: string
  nd_Origins :: "(string + 'm list) option"

section \<open>One service\<close>

text \<open>The loop over the listed pins: the request id, whether the CID is being pinned, and since when.\<close>

fun ls_loop :: "'c \<Rightarrow> string \<times> bool \<times> int \<Rightarrow> 'c pin_info list \<Rightarrow> string \<times> bool \<times> int" where
  "ls_loop cid st [] = st"
| "ls_loop cid (existingRequestID, pinning, pinTime) (ps # rest) =
     (if pi_Cid ps = cid \<and> pi_Status ps \<noteq> StatusFailed then (pi_RequestId ps, True, pi_Created ps)
      else ls_loop cid (pi_RequestId ps, pinning, pinTime) rest)"

definition pinMFS ::
    "'m pin_node \<Rightarrow> 'c \<Rightarrow> string \<Rightarrow> RemotePinningService \<Rightarrow> 'c pin_answers \<Rightarrow> (string + 'c lastPin) \<times> ('c, 'm) pin_request list" where
  "pinMFS node cid svcName svcConfig ans =
     (let pinName = (if mfs_PinName svcConfig = [] then ''policy/'' @ nd_Identity node @ ''/mfs'' else mfs_PinName svcConfig);
          ls = LsReq (api_Endpoint svcConfig) (api_Key svcConfig) pinName;
          (existingRequestID, pinning, pinTime) = ls_loop cid ([], False, a_now ans) (a_ls ans);
          result = \<lparr>lp_Time = pinTime, lp_ServiceName = svcName, lp_ServiceConfig = svcConfig, lp_CID = Some cid\<rparr>
      in case a_lsErr ans of
           Some err \<Rightarrow> (Inl (''error while listing remote pins: '' @ err), [ls])
         | None \<Rightarrow>
             if pinning then (Inr result, [ls])
             else
               (case nd_Origins node of
                  Some (Inl err) \<Rightarrow> (Inl err, [ls])
                | orig \<Rightarrow>
                    (let addrs = (case orig of Some (Inr as) \<Rightarrow> Some as | _ \<Rightarrow> None);
                         put = (if existingRequestID \<noteq> [] then ReplaceReq existingRequestID cid pinName addrs
                                else AddReq cid pinName addrs)
                     in case a_put ans of
                          Some err \<Rightarrow> (Inl err, [ls, put])
                        | None \<Rightarrow> (Inr result, [ls, put]))))"

section \<open>All services\<close>

text \<open>\<open>ParseDuration\<close> belongs to the package \<^verbatim>\<open>time\<close>.  \<open>Skip\<close>, \<open>BadInterval\<close> and \<open>Attempt\<close> are the branches of the loop.\<close>

datatype decision = Skip | BadInterval string | Attempt

definition decide ::
    "(string \<Rightarrow> string + int) \<Rightarrow> int \<Rightarrow> 'c \<Rightarrow> (string \<rightharpoonup> 'c lastPin) \<Rightarrow> string \<Rightarrow> RemotePinningService \<Rightarrow> decision" where
  "decide ParseDuration now rootCid lastPins svcName svcConfig =
     (if \<not> mfs_Enable svcConfig then Skip
      else
        (case (if mfs_RepinInterval svcConfig = [] then Inr defaultRepinInterval
               else ParseDuration (mfs_RepinInterval svcConfig)) of
           Inl err \<Rightarrow> BadInterval err
         | Inr repinInterval \<Rightarrow>
             (case lastPins svcName of
                Some lastp \<Rightarrow>
                  if lp_ServiceConfig lastp = svcConfig \<and>
                     (lp_CID lastp = Some rootCid \<or> now - lp_Time lastp < repinInterval) then Skip
                  else Attempt
              | None \<Rightarrow> Attempt)))"

text \<open>What one service sends on \<^verbatim>\<open>ch\<close> and \<^verbatim>\<open>errCh\<close>, and its requests.\<close>

definition serve ::
    "(string \<Rightarrow> string + int) \<Rightarrow> 'm pin_node \<Rightarrow> 'c \<Rightarrow> (string \<rightharpoonup> 'c lastPin) \<Rightarrow> (string \<Rightarrow> 'c pin_answers) \<Rightarrow> string \<times> RemotePinningService
     \<Rightarrow> 'c lastPin \<times> string option \<times> ('c, 'm) pin_request list" where
  "serve ParseDuration node rootCid lastPins ans sc =
     (case sc of (svcName, svcConfig) \<Rightarrow>
        (case decide ParseDuration (a_now (ans svcName)) rootCid lastPins svcName svcConfig of
           Skip \<Rightarrow> (no_pin, None, [])
         | BadInterval err \<Rightarrow> (no_pin, Some err, [])
         | Attempt \<Rightarrow>
             (case pinMFS node rootCid svcName svcConfig (ans svcName) of
                (Inl err, reqs) \<Rightarrow> (no_pin, Some err, reqs)
              | (Inr r, reqs) \<Rightarrow> (r, None, reqs))))"

definition record_pin :: "'c lastPin \<Rightarrow> (string \<rightharpoonup> 'c lastPin) \<Rightarrow> (string \<rightharpoonup> 'c lastPin)" where
  "record_pin x lastPins = (if IsValid x then lastPins(lp_ServiceName x \<mapsto> x) else lastPins)"

text \<open>
  \<open>order\<close> is the order in which the results arrive.  One value is received for every service; the values sent
  are as many.
\<close>

definition pinAllMFS ::
    "(string \<Rightarrow> string + int) \<Rightarrow> 'm pin_node \<Rightarrow> (string \<times> RemotePinningService) list \<Rightarrow> 'c \<Rightarrow> (string \<Rightarrow> 'c pin_answers) \<Rightarrow> nat list
     \<Rightarrow> (string \<rightharpoonup> 'c lastPin) \<Rightarrow> string list \<times> (string \<rightharpoonup> 'c lastPin)" where
  "pinAllMFS ParseDuration node services rootCid ans order lastPins =
     (let outs = map (serve ParseDuration node rootCid lastPins ans) services
      in (List.map_filter (\<lambda>out. fst (snd out)) outs, fold record_pin (map (\<lambda>i. fst (outs ! i)) order) lastPins))"

section \<open>The loop\<close>

text \<open>One wake-up: the configuration is read again, then the MFS root.\<close>

record 'c poll =
  pl_config :: "string + (string \<times> RemotePinningService) list"
  pl_root :: "string + 'c"
  pl_answers :: "string \<Rightarrow> 'c pin_answers"
  pl_order :: "nat list"

definition pin_round ::
    "(string \<Rightarrow> string + int) \<Rightarrow> 'm pin_node \<Rightarrow> 'c poll \<Rightarrow> (string \<rightharpoonup> 'c lastPin) \<Rightarrow> string list \<times> (string \<rightharpoonup> 'c lastPin)" where
  "pin_round ParseDuration node p lastPins =
     (case pl_config p of
        Inl err \<Rightarrow> ([err], lastPins)
      | Inr services \<Rightarrow>
          (case pl_root p of
             Inl err \<Rightarrow> ([err], lastPins)
           | Inr rootCid \<Rightarrow> pinAllMFS ParseDuration node services rootCid (pl_answers p) (pl_order p) lastPins))"

text \<open>The wake-ups until the context is done.\<close>

fun pinMFSOnChange ::
    "(string \<Rightarrow> string + int) \<Rightarrow> 'm pin_node \<Rightarrow> 'c poll list \<Rightarrow> (string \<rightharpoonup> 'c lastPin) \<Rightarrow> string list \<times> (string \<rightharpoonup> 'c lastPin)" where
  "pinMFSOnChange pd node [] lastPins = ([], lastPins)"
| "pinMFSOnChange pd node (p # ps) lastPins =
     (case pin_round pd node p lastPins of (errs, lastPins) \<Rightarrow>
        (case pinMFSOnChange pd node ps lastPins of (errs', lastPins) \<Rightarrow> (errs @ errs', lastPins)))"

section \<open>Lemmas\<close>

lemma pinMFS_result:
  assumes "pinMFS node cid svcName svcConfig ans = (Inr r, reqs)"
  shows "IsValid r" "lp_ServiceName r = svcName" "lp_ServiceConfig r = svcConfig" "lp_CID r = Some cid"
  using assms by (auto simp: pinMFS_def IsValid_def no_pin_def Let_def split: option.splits sum.splits prod.splits if_splits)

lemma ls_loop_spec:
  "ls_loop cid (q, False, t) pis = (q', b, t') \<Longrightarrow>
     (b \<longleftrightarrow> (\<exists>ps \<in> set pis. pi_Cid ps = cid \<and> pi_Status ps \<noteq> StatusFailed)) \<and>
     (\<not> b \<longrightarrow> q' = (if pis = [] then q else pi_RequestId (last pis)) \<and> t' = t) \<and>
     (b \<longrightarrow> (\<exists>ps \<in> set pis. pi_Cid ps = cid \<and> pi_Status ps \<noteq> StatusFailed \<and> t' = pi_Created ps))"
  by (induction pis arbitrary: q) (auto split: if_splits)

lemma serve_valid:
  assumes "serve pd node root lastPins ans (n, c) = (x, err, reqs)" and "IsValid x"
  shows "lp_ServiceName x = n" "decide pd (a_now (ans n)) root lastPins n c = Attempt"
    "pinMFS node root n c (ans n) = (Inr x, reqs)" "err = None"
  using assms by (auto simp: serve_def IsValid_def split: decision.splits prod.splits sum.splits dest: pinMFS_result)

text \<open>The order in which results for different services are recorded does not matter.\<close>

lemma fold_record_other:
  "\<forall>x \<in> set xs. IsValid x \<longrightarrow> lp_ServiceName x \<noteq> n \<Longrightarrow> fold record_pin xs m n = m n"
  by (induction xs arbitrary: m) (auto simp: record_pin_def)

lemma fold_record_mem:
  assumes "\<And>y. y \<in> set xs \<Longrightarrow> IsValid y \<Longrightarrow> lp_ServiceName y = lp_ServiceName x \<Longrightarrow> y = x"
    and "x \<in> set xs" and "IsValid x"
  shows "fold record_pin xs m (lp_ServiceName x) = Some x"
  using assms
proof (induction xs rule: rev_induct)
  case (snoc y ys)
  show ?case
  proof (cases "y = x")
    case False
    then have "x \<in> set ys" "IsValid y \<Longrightarrow> lp_ServiceName y \<noteq> lp_ServiceName x" using snoc.prems by auto
    moreover have "fold record_pin ys m (lp_ServiceName x) = Some x" by (rule snoc.IH) (use snoc.prems calculation(1) in auto)
    ultimately show ?thesis by (auto simp: record_pin_def[of y])
  qed (use snoc.prems in \<open>simp add: record_pin_def[of x]\<close>)
qed simp

text \<open>A service's own result decides its record; other records stay.\<close>

lemma serve_name: "IsValid (fst (serve pd node root lastPins ans (n, c))) \<Longrightarrow>
    lp_ServiceName (fst (serve pd node root lastPins ans (n, c))) = n"
  using serve_valid(1) by (metis prod.collapse)

lemma pinAllMFS_records:
  assumes "distinct (map fst services)" and "mset order = mset [0..<length services]"
    and "pinAllMFS pd node services root ans order lastPins = (errs, lastPins')"
  shows "n \<notin> fst ` set services \<Longrightarrow> lastPins' n = lastPins n"
    and "(n, c) \<in> set services \<Longrightarrow> lastPins' n = (if IsValid (fst (serve pd node root lastPins ans (n, c)))
      then Some (fst (serve pd node root lastPins ans (n, c))) else lastPins n)"
proof -
  define outs where "outs = map (serve pd node root lastPins ans) services"
  define xs where "xs = map (\<lambda>i. fst (outs ! i)) order"
  have ord: "set order = {..<length outs}" using mset_eq_setD[OF assms(2)] by (auto simp: outs_def)
  have "set xs = (\<lambda>i. fst (outs ! i)) ` {..<length outs}" unfolding xs_def ord[symmetric] by simp
  also have "\<dots> = fst ` set outs" by (auto simp: set_conv_nth)
  finally have mem: "x \<in> set xs \<longleftrightarrow> (\<exists>n c. (n, c) \<in> set services \<and> x = fst (serve pd node root lastPins ans (n, c)))" for x
    by (force simp: outs_def)
  have lp: "lastPins' = fold record_pin xs lastPins"
    using assms(3) by (simp add: pinAllMFS_def Let_def outs_def xs_def)
  have origin: "\<exists>c. (lp_ServiceName x, c) \<in> set services \<and> x = fst (serve pd node root lastPins ans (lp_ServiceName x, c))"
    if "x \<in> set xs" "IsValid x" for x
    using mem[of x] that serve_name by metis
  show "lastPins' n = lastPins n" if "n \<notin> fst ` set services"
    unfolding lp by (rule fold_record_other) (use that origin in force)
  assume nc: "(n, c) \<in> set services"
  let ?x = "fst (serve pd node root lastPins ans (n, c))"
  have uniq: "y = ?x" if "y \<in> set xs" "IsValid y" "lp_ServiceName y = n" for y
  proof -
    have "\<exists>d. (n, d) \<in> set services \<and> y = fst (serve pd node root lastPins ans (n, d))" using origin[OF that(1,2)] that(3) by simp
    then obtain d where "(n, d) \<in> set services" "y = fst (serve pd node root lastPins ans (n, d))" by blast
    moreover have "d = c" using eq_key_imp_eq_value[OF assms(1)] nc calculation(1) by blast
    ultimately show ?thesis by simp
  qed
  show "lastPins' n = (if IsValid ?x then Some ?x else lastPins n)"
  proof (cases "IsValid ?x")
    case True
    have "fold record_pin xs lastPins (lp_ServiceName ?x) = Some ?x"
      by (rule fold_record_mem[OF _ _ True]) (use uniq serve_name[OF True] mem nc in auto)
    with True serve_name[OF True] show ?thesis by (simp add: lp)
  next
    case False
    have "fold record_pin xs lastPins n = lastPins n"
    proof (intro fold_record_other ballI impI notI)
      fix y assume "y \<in> set xs" "IsValid y" "lp_ServiceName y = n"
      with uniq[OF this] False show False by simp
    qed
    with False show ?thesis by (simp add: lp)
  qed
qed

section \<open>Properties\<close>

text \<open>
  What a run of \<^verbatim>\<open>pinMFS\<close> asks of the service: it lists the pins of its name and, at most once, adds or
  replaces a pin for the root; nothing is changed when the listing failed, when the root is
  already queued, being pinned or pinned, or when its own addresses cannot be formed; an existing pin of the
  name, the last one listed, is replaced, and only without one a new pin is added.  Success means the
  service has the pin or accepted it.
\<close>

theorem pinMFS_requests:
  assumes "pinMFS node cid svcName svcConfig ans = (res, reqs)"
  shows "\<exists>name. name = (if mfs_PinName svcConfig = [] then ''policy/'' @ nd_Identity node @ ''/mfs'' else mfs_PinName svcConfig) \<and>
    (let live = (\<exists>ps \<in> set (a_ls ans). pi_Cid ps = cid \<and> pi_Status ps \<noteq> StatusFailed);
         list = LsReq (api_Endpoint svcConfig) (api_Key svcConfig) name;
         orig = (case nd_Origins node of Some (Inr as) \<Rightarrow> Some as | _ \<Rightarrow> None)
     in reqs =
         (if a_lsErr ans \<noteq> None \<or> live \<or> (\<exists>err. nd_Origins node = Some (Inl err)) then [list]
          else if a_ls ans = [] \<or> pi_RequestId (last (a_ls ans)) = [] then [list, AddReq cid name orig]
          else [list, ReplaceReq (pi_RequestId (last (a_ls ans))) cid name orig]) \<and>
       ((\<exists>r. res = Inr r) \<longleftrightarrow> a_lsErr ans = None \<and> (live \<or> (\<nexists>err. nd_Origins node = Some (Inl err)) \<and> a_put ans = None)))"
proof -
  obtain q b t where l: "ls_loop cid ([], False, a_now ans) (a_ls ans) = (q, b, t)" by (metis prod_cases3)
  note sp = ls_loop_spec[OF l]
  show ?thesis
  proof (cases b)
    case True
    with sp l assms show ?thesis by (auto simp: pinMFS_def Let_def split: option.splits)
  next
    case False
    with sp have q: "q = (if a_ls ans = [] then [] else pi_RequestId (last (a_ls ans)))"
      "\<not> (\<exists>ps \<in> set (a_ls ans). pi_Cid ps = cid \<and> pi_Status ps \<noteq> StatusFailed)" by auto
    show ?thesis
      using assms q False unfolding pinMFS_def l Let_def
      by (cases "a_lsErr ans"; cases "nd_Origins node"; cases "a_put ans") (auto split: sum.splits)
  qed
qed

text \<open>
  A wake-up of the pinning loop, for any number of services whose results arrive in any order.  A service is
  contacted exactly when it is enabled with a readable interval and its last recorded pin is for
  another configuration, or for another root and at least the interval ago.  The record of a service is
  replaced exactly when its pin succeeded, and is then a pin of this root with this configuration; every other
  record stays.  Every failure is reported, and as many results are sent as received.
\<close>

theorem pinAllMFS_correct:
  assumes "distinct (map fst services)" and "mset order = mset [0..<length services]"
    and "pinAllMFS pd node services root ans order lastPins = (errs, lastPins')"
  shows "(\<forall>n. n \<notin> fst ` set services \<longrightarrow> lastPins' n = lastPins n) \<and>
    (\<forall>n c. (n, c) \<in> set services \<longrightarrow>
      lastPins' n = (if decide pd (a_now (ans n)) root lastPins n c = Attempt
                     then (case fst (pinMFS node root n c (ans n)) of Inr r \<Rightarrow> Some r | Inl _ \<Rightarrow> lastPins n)
                     else lastPins n)) \<and>
    length errs = length (filter (\<lambda>(n, c). case decide pd (a_now (ans n)) root lastPins n c of
        Skip \<Rightarrow> False | BadInterval _ \<Rightarrow> True | Attempt \<Rightarrow> \<exists>err. fst (pinMFS node root n c (ans n)) = Inl err) services) \<and>
    length order = length services"
proof -
  note lp = pinAllMFS_records[OF assms]
  have cell: "lastPins' n = (if decide pd (a_now (ans n)) root lastPins n c = Attempt
      then (case fst (pinMFS node root n c (ans n)) of Inr r \<Rightarrow> Some r | Inl _ \<Rightarrow> lastPins n) else lastPins n)"
    if "(n, c) \<in> set services" for n c
    using lp(2)[OF that] pinMFS_result(1)[of node root n c "ans n"]
    by (auto simp: serve_def IsValid_def split: decision.splits prod.splits sum.splits)
  have "errs = List.map_filter (\<lambda>out. fst (snd out)) (map (serve pd node root lastPins ans) services)"
    using assms(3) by (simp add: pinAllMFS_def Let_def)
  then have "length errs = length (filter (\<lambda>sc. fst (snd (serve pd node root lastPins ans sc)) \<noteq> None) services)"
    by (simp add: map_filter_def filter_map comp_def)
  also have "(\<lambda>sc. fst (snd (serve pd node root lastPins ans sc)) \<noteq> None) =
      (\<lambda>(n, c). case decide pd (a_now (ans n)) root lastPins n c of
        Skip \<Rightarrow> False | BadInterval _ \<Rightarrow> True | Attempt \<Rightarrow> \<exists>err. fst (pinMFS node root n c (ans n)) = Inl err)"
    by (auto simp: serve_def fun_eq_iff split: decision.splits prod.splits sum.splits)
  finally show ?thesis using lp(1) cell mset_eq_length[OF assms(2)] by simp
qed

text \<open>A service with the root of an older pin: the pin is replaced.\<close>

definition pin_demo_cfg :: RemotePinningService where
  "pin_demo_cfg = \<lparr>api_Endpoint = ''e'', api_Key = ''k'', mfs_Enable = True, mfs_PinName = ''mfs'', mfs_RepinInterval = []\<rparr>"

definition pin_demo_answers :: "nat pin_answers" where
  "pin_demo_answers = \<lparr>a_ls = [\<lparr>pi_RequestId = ''q'', pi_Cid = 7, pi_Status = StatusPinned, pi_Created = 3\<rparr>],
     a_lsErr = None, a_put = None, a_now = 1000000000000\<rparr>"

definition pin_demo_node :: "nat pin_node" where
  "pin_demo_node = \<lparr>nd_Identity = ''id'', nd_Origins = None\<rparr>"

definition pin_demo_result :: "nat lastPin" where
  "pin_demo_result = \<lparr>lp_Time = 1000000000000, lp_ServiceName = ''s'', lp_ServiceConfig = pin_demo_cfg, lp_CID = Some 8\<rparr>"

lemmas pin_demo_defs = pin_demo_cfg_def pin_demo_answers_def pin_demo_node_def pin_demo_result_def

lemma pin_demo_run:
  "pinMFS pin_demo_node 8 ''s'' pin_demo_cfg pin_demo_answers =
     (Inr pin_demo_result, [LsReq ''e'' ''k'' ''mfs'', ReplaceReq ''q'' 8 ''mfs'' None])"
  by (simp add: pinMFS_def pin_demo_defs Let_def)

theorem pinMFS_requests_witness:
  "snd (pinMFS pin_demo_node 8 ''s'' pin_demo_cfg pin_demo_answers) = [LsReq ''e'' ''k'' ''mfs'', ReplaceReq ''q'' 8 ''mfs'' None]"
  using pinMFS_requests[where node = pin_demo_node and cid = 8 and svcName = "''s''" and svcConfig = pin_demo_cfg and
      ans = pin_demo_answers, OF prod.collapse[symmetric]]
  by (simp add: pin_demo_defs Let_def)

theorem pinAllMFS_correct_witness:
  "snd (pinAllMFS (\<lambda>_. Inl ''no'') pin_demo_node [(''s'', pin_demo_cfg)] 8 (\<lambda>_. pin_demo_answers) [0] Map.empty) ''s'' = Some pin_demo_result"
proof -
  have "decide (\<lambda>_. Inl ''no'') (a_now pin_demo_answers) 8 Map.empty ''s'' pin_demo_cfg = Attempt"
    by (simp add: decide_def pin_demo_cfg_def)
  with pinAllMFS_correct[OF _ _ prod.collapse[symmetric], of "[(''s'', pin_demo_cfg)]" "[0]" "\<lambda>_. Inl ''no''" pin_demo_node 8
      "\<lambda>_. pin_demo_answers" Map.empty]
  show ?thesis by (simp add: pin_demo_run)
qed

end
