(* ===== verification/BoxCipher.thy ===== *)
theory BoxCipher
  imports Prelude
begin

unbundle bit_operations_syntax

text \<open>
  Encryption of box messages: \<^verbatim>\<open>src/core/box/service/aes.go\<close>.  The modes of operation (CBC, CTR) are
  written out; the AES block function and its inverse for the fixed key are the parameters \<open>enc\<close> and \<open>dec\<close>, with
  \<open>cipher_ok\<close> as what is known of them.  \<open>None\<close> is a panic.  Slices matter: \<^verbatim>\<open>append\<close> writes into spare capacity and
  \<^verbatim>\<open>CTRDecrypt\<close> works in place, so the functions that do so also return the memory they leave behind.
\<close>

section \<open>Block cipher\<close>

definition BlockSize :: nat where
  "BlockSize = 16"

definition PwdKey :: string where
  "PwdKey = ''123456789012345678901234''"

text \<open>What \<^verbatim>\<open>crypto/aes\<close> gives for a key: a permutation of 16-byte blocks and its inverse.\<close>

definition cipher_ok :: "(bytes \<Rightarrow> bytes) \<Rightarrow> (bytes \<Rightarrow> bytes) \<Rightarrow> bool" where
  "cipher_ok enc dec \<longleftrightarrow>
     (\<forall>b. length b = BlockSize \<longrightarrow> length (enc b) = BlockSize \<and> dec (enc b) = b)"

definition xor_bytes :: "bytes \<Rightarrow> bytes \<Rightarrow> bytes" where
  "xor_bytes xs ys = map2 (XOR) xs ys"

text \<open>
  \<^verbatim>\<open>md5byte[:16]\<close>: slicing is bounded by the capacity of the array the string was copied to, whose bytes
  after the string are zero.
\<close>

definition first_block :: "nat \<Rightarrow> bytes \<Rightarrow> bytes option" where
  "first_block capacity md5 =
     (if BlockSize \<le> max (length md5) capacity then Some (take BlockSize (md5 @ replicate BlockSize 0)) else None)"

section \<open>Modes of operation\<close>

text \<open>\<^verbatim>\<open>CryptBlocks\<close> of the CBC modes, block by block; an incomplete last block is a panic.\<close>

function cbc_encrypt :: "(bytes \<Rightarrow> bytes) \<Rightarrow> bytes \<Rightarrow> bytes \<Rightarrow> bytes option" where
  "cbc_encrypt enc iv src =
     (if src = [] then Some []
      else if length src < BlockSize then None
      else
        (let c = enc (xor_bytes iv (take BlockSize src))
         in map_option (\<lambda>rest. c @ rest) (cbc_encrypt enc c (drop BlockSize src))))"
  by pat_completeness auto
termination
  by (relation "measure (\<lambda>(enc, iv, src). length src)") (auto simp: BlockSize_def)

function cbc_decrypt :: "(bytes \<Rightarrow> bytes) \<Rightarrow> bytes \<Rightarrow> bytes \<Rightarrow> bytes option" where
  "cbc_decrypt dec iv src =
     (if src = [] then Some []
      else if length src < BlockSize then None
      else
        (let c = take BlockSize src
         in map_option (\<lambda>rest. xor_bytes iv (dec c) @ rest) (cbc_decrypt dec c (drop BlockSize src))))"
  by pat_completeness auto
termination
  by (relation "measure (\<lambda>(dec, iv, src). length src)") (auto simp: BlockSize_def)

declare cbc_encrypt.simps [simp del] cbc_decrypt.simps [simp del]

text \<open>The counter of the CTR mode: the block as a big-endian number, plus one, modulo its width.\<close>

fun incr_rev :: "bytes \<Rightarrow> bytes" where
  "incr_rev [] = []"
| "incr_rev (b # bs) = (if b = - 1 then 0 # incr_rev bs else (b + 1) # bs)"

definition incr :: "bytes \<Rightarrow> bytes" where
  "incr ctr = rev (incr_rev (rev ctr))"

fun key_stream :: "(bytes \<Rightarrow> bytes) \<Rightarrow> bytes \<Rightarrow> nat \<Rightarrow> bytes" where
  "key_stream enc ctr 0 = []"
| "key_stream enc ctr (Suc n) = enc ctr @ key_stream enc (incr ctr) n"

text \<open>As many blocks of key stream are made as the input needs.\<close>

definition XORKeyStream :: "(bytes \<Rightarrow> bytes) \<Rightarrow> bytes \<Rightarrow> bytes \<Rightarrow> bytes" where
  "XORKeyStream enc iv src = xor_bytes src (key_stream enc iv (length src div BlockSize + 1))"

section \<open>Slices\<close>

text \<open>A slice is its array from the slice's start on and its length; \<^verbatim>\<open>append\<close> reuses the array when there is room.\<close>

type_synonym slice = "bytes \<times> nat"

definition elems :: "slice \<Rightarrow> bytes" where
  "elems s = take (snd s) (fst s)"

text \<open>The resulting slice, and what the array of the argument holds afterwards.\<close>

definition go_append :: "slice \<Rightarrow> bytes \<Rightarrow> slice \<times> bytes" where
  "go_append s xs =
     (let n = snd s + length xs in
      if n \<le> length (fst s) then ((copy_at (snd s) xs (fst s), n), copy_at (snd s) xs (fst s))
      else ((elems s @ xs, n), fst s))"

section \<open>Padding\<close>

definition PKCS7Padding :: "slice \<Rightarrow> nat \<Rightarrow> (slice \<times> bytes) option" where
  "PKCS7Padding ciphertext blocksize =
     (if blocksize = 0 then None
      else
        (let padding = blocksize - snd ciphertext mod blocksize;
             padtext = replicate padding (of_nat padding)
         in Some (go_append ciphertext padtext)))"

text \<open>Indexing an empty slice and a negative bound panic.\<close>

definition PKCS7UnPadding :: "bytes \<Rightarrow> bytes option" where
  "PKCS7UnPadding origData =
     (if origData = [] then None
      else
        (let unpadding = unat (last origData)
         in if unpadding \<le> length origData then Some (take (length origData - unpadding) origData) else None))"

section \<open>The four functions\<close>

text \<open>\<open>AesEncrypt\<close> gives the ciphertext and what the caller's array holds afterwards.\<close>

definition AesEncrypt :: "(bytes \<Rightarrow> bytes) \<Rightarrow> nat \<Rightarrow> slice \<Rightarrow> bytes \<Rightarrow> (bytes \<times> bytes) option" where
  "AesEncrypt enc capacity orig md5 =
     (case PKCS7Padding orig BlockSize of
        None \<Rightarrow> None
      | Some (origData, mem) \<Rightarrow>
          (case first_block capacity md5 of
             None \<Rightarrow> None
           | Some iv \<Rightarrow> map_option (\<lambda>cryted. (cryted, mem)) (cbc_encrypt enc iv (elems origData))))"

definition AesDecrypt :: "(bytes \<Rightarrow> bytes) \<Rightarrow> nat \<Rightarrow> bytes \<Rightarrow> bytes \<Rightarrow> bytes option" where
  "AesDecrypt dec capacity cryted md5 =
     (case first_block capacity md5 of
        None \<Rightarrow> None
      | Some iv \<Rightarrow> (case cbc_decrypt dec iv cryted of None \<Rightarrow> None | Some orig \<Rightarrow> PKCS7UnPadding orig))"

definition CTREncrypt :: "(bytes \<Rightarrow> bytes) \<Rightarrow> nat \<Rightarrow> bytes \<Rightarrow> bytes \<Rightarrow> bytes option" where
  "CTREncrypt enc capacity plaintext md5 =
     (case first_block capacity md5 of
        None \<Rightarrow> None
      | Some iv \<Rightarrow> Some (replicate BlockSize 0 @ XORKeyStream enc iv plaintext))"

text \<open>The result (\<open>Inl\<close> is the error of a short input) and what the argument's array holds afterwards.\<close>

definition CTRDecrypt :: "(bytes \<Rightarrow> bytes) \<Rightarrow> nat \<Rightarrow> bytes \<Rightarrow> bytes \<Rightarrow> ((string + bytes) \<times> bytes) option" where
  "CTRDecrypt enc capacity ciphertext md5 =
     (if length ciphertext < BlockSize then Some (Inl ''ciphertext too short'', ciphertext)
      else
        (case first_block capacity md5 of
           None \<Rightarrow> None
         | Some iv \<Rightarrow>
             (let plain = XORKeyStream enc iv (drop BlockSize ciphertext)
              in Some (Inr plain, take BlockSize ciphertext @ plain))))"

section \<open>Lemmas\<close>

lemma length_xor_bytes [simp]: "length (xor_bytes xs ys) = min (length xs) (length ys)"
  by (simp add: xor_bytes_def)

lemma xor_bytes_cancel: "length ys \<le> length xs \<Longrightarrow> xor_bytes xs (xor_bytes xs ys) = ys"
  by (induction xs ys rule: list_induct2') (auto simp: xor_bytes_def xor.assoc[symmetric])

lemma xor_bytes_twice: "length xs \<le> length ks \<Longrightarrow> xor_bytes (xor_bytes xs ks) ks = xs"
  by (induction xs ks rule: list_induct2') (auto simp: xor_bytes_def xor.assoc)

lemma length_first_block: "first_block n md5 = Some iv \<Longrightarrow> length iv = BlockSize"
  by (auto simp: first_block_def split: if_splits)

lemma cbc_roundtrip:
  assumes "cipher_ok enc dec" and "length iv = BlockSize" and "BlockSize dvd length src"
  shows "\<exists>c. cbc_encrypt enc iv src = Some c \<and> length c = length src \<and> cbc_decrypt dec iv c = Some src"
  using assms(2,3)
proof (induction "length src" arbitrary: iv src rule: less_induct)
  case less
  show ?case
  proof (cases "src = []")
    case True
    then show ?thesis by (simp add: cbc_encrypt.simps cbc_decrypt.simps)
  next
    case False
    then have ge: "\<not> length src < BlockSize" using less.prems(2) dvd_imp_le by fastforce
    let ?x = "xor_bytes iv (take BlockSize src)"
    have x: "length ?x = BlockSize" using less.prems(1) ge by simp
    then have e: "length (enc ?x) = BlockSize" "dec (enc ?x) = ?x" using assms(1) unfolding cipher_ok_def by blast+
    have "length (drop BlockSize src) < length src" "BlockSize dvd length (drop BlockSize src)"
      using ge less.prems(2) by (auto simp: BlockSize_def)
    from less.hyps[OF this(1) e(1) this(2)] obtain c where
      c: "cbc_encrypt enc (enc ?x) (drop BlockSize src) = Some c" "length c = length (drop BlockSize src)"
        "cbc_decrypt dec (enc ?x) c = Some (drop BlockSize src)" by blast
    have enc: "cbc_encrypt enc iv src = Some (enc ?x @ c)"
      using False ge c(1) by (subst cbc_encrypt.simps) (simp add: Let_def)
    have "cbc_decrypt dec iv (enc ?x @ c) = Some (xor_bytes iv ?x @ drop BlockSize src)"
      using e c(3) by (subst cbc_decrypt.simps) (auto simp: Let_def BlockSize_def)
    moreover have "xor_bytes iv ?x = take BlockSize src" using less.prems(1) by (intro xor_bytes_cancel) simp
    ultimately show ?thesis using enc e(1) c(2) ge by (intro exI[of _ "enc ?x @ c"]) simp
  qed
qed

lemma length_key_stream:
  assumes "cipher_ok enc dec"
  shows "length ctr = BlockSize \<Longrightarrow> length (key_stream enc ctr n) = n * BlockSize"
proof (induction n arbitrary: ctr)
  case (Suc n)
  have "length (incr_rev bs) = length bs" for bs by (induction bs) auto
  then have "length (incr ctr) = BlockSize" using Suc.prems by (simp add: incr_def)
  with Suc assms show ?case by (simp add: cipher_ok_def)
qed simp

text \<open>The key stream is long enough and depends on the length of the input only.\<close>

lemma XORKeyStream_twice:
  assumes "cipher_ok enc dec" and "length iv = BlockSize"
  shows "XORKeyStream enc iv (XORKeyStream enc iv src) = src" and "length (XORKeyStream enc iv src) = length src"
proof -
  let ?ks = "key_stream enc iv (length src div BlockSize + 1)"
  have "length src < (length src div BlockSize + 1) * BlockSize"
    using dividend_less_div_times[of BlockSize "length src"] by (simp add: BlockSize_def)
  then have l: "length src \<le> length ?ks" using length_key_stream[OF assms, of "length src div BlockSize + 1"] by linarith
  then show len: "length (XORKeyStream enc iv src) = length src" by (simp add: XORKeyStream_def)
  show "XORKeyStream enc iv (XORKeyStream enc iv src) = src"
    using l by (subst XORKeyStream_def) (simp add: len, simp add: XORKeyStream_def xor_bytes_twice)
qed

lemma elems_go_append: "snd s \<le> length (fst s) \<Longrightarrow> elems (fst (go_append s xs)) = elems s @ xs"
  by (auto simp: go_append_def elems_def Let_def copy_at_def)

lemma PKCS7Padding_elems:
  assumes "snd s \<le> length (fst s)" and "0 < bs" and "PKCS7Padding s bs = Some (t, mem)"
  shows "\<exists>p. 0 < p \<and> p \<le> bs \<and> p = bs - snd s mod bs \<and> elems t = elems s @ replicate p (of_nat p) \<and> bs dvd length (elems t)"
proof -
  let ?p = "bs - snd s mod bs"
  have p: "0 < ?p" "?p \<le> bs" using assms(2) by simp_all
  have t: "elems t = elems s @ replicate ?p (of_nat ?p)"
    using assms elems_go_append[OF assms(1), of "replicate ?p (of_nat ?p)"] by (auto simp: PKCS7Padding_def Let_def)
  have "snd s + ?p = bs * (snd s div bs) + bs" using assms(2) mult_div_mod_eq[of bs "snd s"] mod_less_divisor[OF assms(2), of "snd s"] by linarith
  then have "bs dvd snd s + ?p" by simp
  moreover have "length (elems s) = snd s" using assms(1) by (simp add: elems_def)
  ultimately have "bs dvd length (elems t)" unfolding t by simp
  with p t show ?thesis by blast
qed

lemma PKCS7Padding_total: "0 < bs \<Longrightarrow> \<exists>t mem. PKCS7Padding s bs = Some (t, mem)"
  unfolding PKCS7Padding_def Let_def by (metis surj_pair less_irrefl)

lemma xor_bytes_same_stream:
  "length xs = length ys \<Longrightarrow> length xs \<le> length ks \<Longrightarrow> xor_bytes (xor_bytes xs ks) (xor_bytes ys ks) = xor_bytes xs ys"
proof (induction xs ys arbitrary: ks rule: list_induct2)
  case (Cons x xs y ys)
  then obtain k ks' where "ks = k # ks'" by (cases ks) auto
  moreover have "(x XOR k) XOR (y XOR k) = x XOR y" by (simp add: xor.assoc xor.left_commute xor.commute)
  ultimately show ?case using Cons by (auto simp: xor_bytes_def)
qed (simp add: xor_bytes_def)

lemma UnPadding_append:
  assumes "0 < p" and "p < 256"
  shows "PKCS7UnPadding (xs @ replicate p (of_nat p)) = Some xs"
proof -
  have u: "unat (of_nat p :: byte) = p" using assms(2) by (simp add: unat_of_nat take_bit_nat_eq_self)
  obtain q where "p = Suc q" using assms(1) by (cases p) auto
  then have "last (xs @ replicate p (of_nat p :: byte)) = of_nat p" by simp
  then show ?thesis using assms(1) u by (simp add: PKCS7UnPadding_def)
qed

section \<open>Properties\<close>

text \<open>
  C22. Encrypted messages are decrypted to themselves: for every message, every slice it is in and every tag,
  \<^verbatim>\<open>AesEncrypt\<close> gives whole blocks, more than the message, and \<^verbatim>\<open>AesDecrypt\<close> with the same tag the message; both panic
  exactly when the tag is too short to give an initialisation vector.
\<close>

theorem Aes_roundtrip:
  assumes "cipher_ok enc dec" and "snd orig \<le> length (fst orig)"
  shows "(case AesEncrypt enc capacity orig tag of
      Some (c, mem) \<Rightarrow> AesDecrypt dec capacity c tag = Some (elems orig) \<and> BlockSize dvd length c \<and>
        snd orig < length c \<and> length c \<le> snd orig + BlockSize
    | None \<Rightarrow> max (length tag) capacity < BlockSize \<and> AesDecrypt dec capacity c0 tag = None)"
proof (cases "first_block capacity tag")
  case None
  then show ?thesis by (auto simp: AesEncrypt_def AesDecrypt_def first_block_def split: option.splits if_splits)
next
  case (Some iv)
  have b: "0 < BlockSize" "BlockSize < 256" by (simp_all add: BlockSize_def)
  then obtain t mem where t: "PKCS7Padding orig BlockSize = Some (t, mem)" using PKCS7Padding_total by blast
  from PKCS7Padding_elems[OF assms(2) b(1) t] obtain p where
    p: "0 < p" "p \<le> BlockSize" "elems t = elems orig @ replicate p (of_nat p)" "BlockSize dvd length (elems t)" by blast
  from cbc_roundtrip[OF assms(1) length_first_block[OF Some] p(4)] obtain c where
    c: "cbc_encrypt enc iv (elems t) = Some c" "length c = length (elems t)" "cbc_decrypt dec iv c = Some (elems t)" by blast
  have "PKCS7UnPadding (elems t) = Some (elems orig)" unfolding p(3) using p(1,2) b(2) by (intro UnPadding_append) simp_all
  moreover have "length (elems t) = snd orig + p" using p(3) assms(2) by (simp add: elems_def)
  ultimately show ?thesis using t Some c p by (simp add: AesEncrypt_def AesDecrypt_def)
qed

text \<open>A block function for the witnesses: every byte is inverted.\<close>

definition flip_block :: "bytes \<Rightarrow> bytes" where
  "flip_block = map (\<lambda>b. NOT b)"

lemma flip_ok: "cipher_ok flip_block flip_block"
  by (simp add: cipher_ok_def flip_block_def comp_def)

theorem Aes_roundtrip_witness:
  "\<exists>c mem. AesEncrypt flip_block 0 ([1, 2, 3], 2) (replicate 32 7) = Some (c, mem) \<and>
     AesDecrypt flip_block 0 c (replicate 32 7) = Some [1, 2]"
proof (cases "AesEncrypt flip_block 0 ([1, 2, 3], 2) (replicate 32 7)")
  case None
  with Aes_roundtrip[OF flip_ok, where orig = "([1, 2, 3], 2)" and capacity = 0 and tag = "replicate 32 7"] show ?thesis by (simp add: BlockSize_def)
next
  case (Some r)
  with Aes_roundtrip[OF flip_ok, where orig = "([1, 2, 3], 2)" and capacity = 0 and tag = "replicate 32 7"] show ?thesis by (cases r) (simp add: elems_def)
qed

text \<open>
  The same for the counter mode: what \<^verbatim>\<open>CTREncrypt\<close> makes is one block longer than the message and decrypted by
  \<^verbatim>\<open>CTRDecrypt\<close> with the same tag; a shorter input than a block is an error.
\<close>

theorem CTR_roundtrip:
  assumes "cipher_ok enc dec" and "CTREncrypt enc capacity msg md5 = Some c"
  shows "length c = BlockSize + length msg \<and> CTRDecrypt enc capacity c md5 = Some (Inr msg, replicate BlockSize 0 @ msg) \<and>
    (length d < BlockSize \<longrightarrow> CTRDecrypt enc capacity d md5 = Some (Inl ''ciphertext too short'', d))"
proof -
  obtain iv where iv: "first_block capacity md5 = Some iv" and c: "c = replicate BlockSize 0 @ XORKeyStream enc iv msg"
    using assms(2) by (auto simp: CTREncrypt_def split: option.splits)
  note x = XORKeyStream_twice[OF assms(1) length_first_block[OF iv], of msg]
  show ?thesis using iv x by (simp add: c CTRDecrypt_def Let_def)
qed

theorem CTR_roundtrip_witness:
  "\<exists>c. CTREncrypt flip_block 0 [1, 2, 3] (replicate 32 7) = Some c \<and>
     CTRDecrypt flip_block 0 c (replicate 32 7) = Some (Inr [1, 2, 3], replicate BlockSize 0 @ [1, 2, 3])"
proof -
  obtain c where "CTREncrypt flip_block 0 [1, 2, 3] (replicate 32 7) = Some c"
    by (simp add: CTREncrypt_def first_block_def BlockSize_def)
  with CTR_roundtrip[OF flip_ok this] show ?thesis by blast
qed

text \<open>
  Padding and unpadding fit together exactly as long as the padding fits a byte: for every block size below
  256 the unpadded text is the original one, and the padded one consists of whole blocks.
\<close>

theorem PKCS7_roundtrip:
  assumes "0 < bs" and "bs < 256" and "snd s \<le> length (fst s)"
  shows "\<exists>t mem. PKCS7Padding s bs = Some (t, mem) \<and> PKCS7UnPadding (elems t) = Some (elems s) \<and> bs dvd length (elems t)"
proof -
  obtain t mem where t: "PKCS7Padding s bs = Some (t, mem)" using assms(1) PKCS7Padding_total by blast
  from PKCS7Padding_elems[OF assms(3,1) t] obtain p where
    p: "0 < p" "p \<le> bs" "elems t = elems s @ replicate p (of_nat p)" "bs dvd length (elems t)" by blast
  with assms(2) have "PKCS7UnPadding (elems t) = Some (elems s)" by (simp add: UnPadding_append)
  with t p(4) show ?thesis by blast
qed

theorem PKCS7_roundtrip_witness:
  "\<exists>t mem. PKCS7Padding ([5, 6], 2) 16 = Some (t, mem) \<and> PKCS7UnPadding (elems t) = Some [5, 6]"
  using PKCS7_roundtrip[of 16 "([5, 6], 2)"] by (auto simp: elems_def)

section \<open>Departures\<close>

text \<open>For blocks of 256 bytes the padding byte wraps to zero and nothing is removed.\<close>

theorem PKCS7_wraps: "\<exists>t mem. PKCS7Padding ([], 0) 256 = Some (t, mem) \<and> PKCS7UnPadding (elems t) = Some (replicate 256 0)"
  by (simp add: PKCS7Padding_def go_append_def elems_def PKCS7UnPadding_def Let_def)

text \<open>Decrypting an empty message, or one whose last byte is larger than its length, panics.\<close>

theorem AesDecrypt_panics:
  assumes "first_block capacity md5 = Some iv" and "cbc_decrypt dec iv c = Some m"
    and "c = [] \<or> m \<noteq> [] \<and> length m < unat (last m)"
  shows "AesDecrypt dec capacity c md5 = None"
  using assms by (auto simp: AesDecrypt_def cbc_decrypt.simps PKCS7UnPadding_def Let_def)

text \<open>
  Two messages with the same tag are encrypted with the same key stream: their ciphertexts differ exactly
  where the messages do, by the same bits.
\<close>

theorem CTR_key_stream_reused:
  assumes "CTREncrypt enc capacity m md5 = Some c" and "CTREncrypt enc capacity m' md5 = Some c'"
    and "length m = length m'" and "cipher_ok enc dec"
  shows "xor_bytes (drop BlockSize c) (drop BlockSize c') = xor_bytes m m'"
proof -
  obtain iv where iv: "first_block capacity md5 = Some iv" using assms(1) by (auto simp: CTREncrypt_def split: option.splits)
  let ?ks = "key_stream enc iv (length m div BlockSize + 1)"
  have "length m < (length m div BlockSize + 1) * BlockSize"
    using dividend_less_div_times[of BlockSize "length m"] by (simp add: BlockSize_def)
  then have l: "length m \<le> length ?ks" using length_key_stream[OF assms(4) length_first_block[OF iv], of "length m div BlockSize + 1"] by linarith
  have "c = replicate BlockSize 0 @ xor_bytes m ?ks" "c' = replicate BlockSize 0 @ xor_bytes m' ?ks"
    using assms(1-3) iv by (simp_all add: CTREncrypt_def XORKeyStream_def del: key_stream.simps)
  then show ?thesis using xor_bytes_same_stream[OF assms(3) l] by simp
qed

text \<open>Encrypting a part of a buffer overwrites what follows it in the buffer with the padding.\<close>

theorem AesEncrypt_clobbers:
  "\<exists>c. AesEncrypt flip_block 0 (replicate 20 1, 4) (replicate 16 7) = Some (c, replicate 4 1 @ replicate 12 12 @ replicate 4 1)"
proof -
  have p: "PKCS7Padding (replicate 20 1, 4) BlockSize =
      Some ((replicate 4 1 @ replicate 12 12 @ replicate 4 1, 16), replicate 4 1 @ replicate 12 12 @ replicate 4 1)"
    by (simp add: PKCS7Padding_def go_append_def copy_at_def BlockSize_def Let_def)
  have "\<exists>c. cbc_encrypt flip_block iv (elems (replicate 4 1 @ replicate 12 12 @ replicate 4 1, 16)) = Some c" for iv
    by (simp add: elems_def cbc_encrypt.simps BlockSize_def)
  moreover have "first_block 0 (replicate 16 7) = Some (replicate 16 7)" by (simp add: first_block_def BlockSize_def)
  ultimately show ?thesis by (simp add: AesEncrypt_def p)
qed

end
