(* ===== verification/BoxService.thy ===== *)
theory BoxService
  imports Bootstrapping
begin

text \<open>
  The box service: the websocket hub, the relay of messages between boxes, the user table and the service's
  configuration file (\<^verbatim>\<open>src/core/box/service\<close>, \<^verbatim>\<open>src/core/box/ds\<close>, \<^verbatim>\<open>src/core/box/model\<close>).

  A box is the state of one process: the map from client names to connections, the connections with what was
  written to them, the loops that read from them, the goroutines the loops have started, the user table and
  whether the process has died of a panic.  A world gives each peer its box.  The text form of JSON, the
  \<^verbatim>\<open>jsonvalue\<close> package, the database and the libp2p host are fields of \<open>box_env\<close>, \<open>db_ops\<close> and \<open>net_env\<close>.
\<close>

section \<open>Messages\<close>

record 'n Req =
  rq_Protocol :: string
  rq_From :: string
  rq_To :: string
  rq_RemotePeer :: string
  rq_Data :: "'n json"

record 'n Res =
  rs_Protocol :: string
  rs_Code :: bool
  rs_Msg :: string
  rs_From :: string
  rs_Data :: "'n json"

record User =
  us_Id :: string
  us_NickName :: string
  us_HeadImg :: string

definition zero_Req :: "'n Req" where
  "zero_Req = \<lparr>rq_Protocol = [], rq_From = [], rq_To = [], rq_RemotePeer = [], rq_Data = JNull\<rparr>"

definition zero_Res :: "'n Res" where
  "zero_Res = \<lparr>rs_Protocol = [], rs_Code = False, rs_Msg = [], rs_From = [], rs_Data = JNull\<rparr>"

definition zero_User :: User where
  "zero_User = \<lparr>us_Id = [], us_NickName = [], us_HeadImg = []\<rparr>"

definition LocalPeer :: "string \<Rightarrow> 'n json" where
  "LocalPeer s = JObj [(''LocalPeer'', JStr s)]"

text \<open>
  \<open>parse\<close> gives the document of a text with its members in order, \<open>iface\<close> what decoding a value to an
  \<^verbatim>\<open>interface{}\<close> keeps of it.  \<open>jv_get\<close> is \<^verbatim>\<open>MustUnmarshalString(text).GetString(key)\<close>.  \<open>Errorf\<close> is
  \<^verbatim>\<open>fmt.Errorf\<close> with a format and no operands.  \<open>http_ip\<close> is the body of the answer of the address service,
  if there is one.
\<close>

record 'n box_env =
  je_parse :: "string \<Rightarrow> 'n json option"
  je_marshal :: "'n json \<Rightarrow> string + string"
  je_iface :: "'n json \<Rightarrow> 'n json option"
  jv_get :: "string \<Rightarrow> string \<Rightarrow> string \<times> string option"
  Errorf :: "string \<Rightarrow> string"
  ws_error :: string
  http_ip :: "string option"
  host_addrs :: "string list"
  host_id :: string

definition enc_Req :: "'n Req \<Rightarrow> 'n json" where
  "enc_Req req = JObj [(''protocol'', JStr (rq_Protocol req)), (''from'', JStr (rq_From req)), (''to'', JStr (rq_To req)),
     (''remotePeer'', JStr (rq_RemotePeer req)), (''data'', rq_Data req)]"

definition enc_Res :: "'n Res \<Rightarrow> 'n json" where
  "enc_Res res = JObj [(''protocol'', JStr (rs_Protocol res)), (''code'', JBool (rs_Code res)), (''msg'', JStr (rs_Msg res)),
     (''from'', JStr (rs_From res)), (''data'', rs_Data res)]"

text \<open>\<^verbatim>\<open>msg, _ := json.Marshal(v)\<close>.\<close>

definition marshal_text :: "'n box_env \<Rightarrow> 'n json \<Rightarrow> string" where
  "marshal_text e v = (case je_marshal e v of Inl err \<Rightarrow> [] | Inr s \<Rightarrow> s)"

text \<open>
  \<^verbatim>\<open>json.Unmarshal(msg, &req)\<close>.  Member names match the tags up to the case of letters; a string field takes
  a string, ignores \<^verbatim>\<open>null\<close> and rejects anything else; a rejected member is an error after all the members
  have been read; fields the document does not name keep their value.
\<close>

definition set_str :: "((string \<Rightarrow> string) \<Rightarrow> 'n Req \<Rightarrow> 'n Req) \<Rightarrow> 'n json \<Rightarrow> bool \<times> 'n Req \<Rightarrow> bool \<times> 'n Req" where
  "set_str upd v st = (case st of (ok, req) \<Rightarrow>
     (case v of JStr s \<Rightarrow> (ok, upd (\<lambda>_. s) req) | JNull \<Rightarrow> (ok, req) | _ \<Rightarrow> (False, req)))"

definition dec_member :: "'n box_env \<Rightarrow> string \<times> 'n json \<Rightarrow> bool \<times> 'n Req \<Rightarrow> bool \<times> 'n Req" where
  "dec_member e kv st = (case kv of (k, v) \<Rightarrow>
     if fold_eq k ''protocol'' then set_str rq_Protocol_update v st
     else if fold_eq k ''from'' then set_str rq_From_update v st
     else if fold_eq k ''to'' then set_str rq_To_update v st
     else if fold_eq k ''remotePeer'' then set_str rq_RemotePeer_update v st
     else if fold_eq k ''data'' then
       (case je_iface e v of None \<Rightarrow> (False, snd st) | Some w \<Rightarrow> (fst st, (snd st)\<lparr>rq_Data := w\<rparr>))
     else st)"

definition Unmarshal :: "'n box_env \<Rightarrow> string \<Rightarrow> 'n Req \<Rightarrow> bool \<times> 'n Req" where
  "Unmarshal e msg req =
     (case je_parse e msg of
        None \<Rightarrow> (False, req)
      | Some (JObj ms) \<Rightarrow> fold (dec_member e) ms (True, req)
      | Some JNull \<Rightarrow> (True, req)
      | Some _ \<Rightarrow> (False, req))"

section \<open>User table\<close>

text \<open>The operations of the database the store calls; \<open>First\<close> is \<^verbatim>\<open>Where("id=?", Id).First\<close>.\<close>

record 'db db_ops =
  db_Create :: "User \<Rightarrow> 'db \<Rightarrow> string option \<times> 'db"
  db_Save :: "User \<Rightarrow> 'db \<Rightarrow> string option \<times> 'db"
  db_Delete :: "User \<Rightarrow> 'db \<Rightarrow> string option \<times> 'db"
  db_First :: "string \<Rightarrow> 'db \<Rightarrow> string + User"
  db_Count :: "'db \<Rightarrow> string + int"

definition CreateItem :: "'db db_ops \<Rightarrow> User \<Rightarrow> 'db \<Rightarrow> string option \<times> 'db" where
  "CreateItem ops m db =
     (case db_Create ops m db of
        (Some err, db) \<Rightarrow> if \<not> contains_str err ''Duplicate'' then (Some err, db) else (None, db)
      | (None, db) \<Rightarrow> (None, db))"

definition DeleteItem :: "'db db_ops \<Rightarrow> User \<Rightarrow> 'db \<Rightarrow> string option \<times> 'db" where
  "DeleteItem ops m db = db_Delete ops m db"

definition UserCount :: "'db db_ops \<Rightarrow> 'db \<Rightarrow> int \<times> string option" where
  "UserCount ops db = (case db_Count ops db of Inl err \<Rightarrow> (0, Some err) | Inr n \<Rightarrow> (n, None))"

definition InserUserInfo :: "'db db_ops \<Rightarrow> User \<Rightarrow> 'db \<Rightarrow> string option \<times> 'db" where
  "InserUserInfo ops user db =
     (case db_Create ops user db of
        (Some err, db) \<Rightarrow> db_Save ops user db
      | (None, db) \<Rightarrow> (None, db))"

definition GetUserInfo :: "'db db_ops \<Rightarrow> string \<Rightarrow> 'db \<Rightarrow> User \<times> string option" where
  "GetUserInfo ops uid db = (case db_First ops uid db of Inl err \<Rightarrow> (zero_User, Some err) | Inr u \<Rightarrow> (u, None))"

section \<open>The state of a box\<close>

text \<open>
  Goroutines: a handler that has not run, or one that has the outcome of its request to another box and has
  yet to tell its client.
\<close>

datatype 'n task =
  TUploadInfo "'n Req" | TAdd_qr "'n Req" | TAgree "'n Req" string | TAnswer "'n Req" "string + string"

record ('n, 'db) box =
  WsConMap :: "string \<rightharpoonup> nat"
  ws_live :: "nat set"
  ws_loops :: "nat \<rightharpoonup> 'n Req"
  ws_out :: "nat \<Rightarrow> string list"
  bx_tasks :: "'n task list"
  bx_db :: 'db
  publicIP :: string
  bx_down :: bool

section \<open>Websocket hub\<close>

text \<open>Writing to a connection that is gone is an error; calling a method of the nil connection is a panic (\<open>None\<close>).\<close>

definition WriteMessage :: "'n box_env \<Rightarrow> nat option \<Rightarrow> string \<Rightarrow> ('n, 'db) box \<Rightarrow> (string option \<times> ('n, 'db) box) option" where
  "WriteMessage e con msg b =
     (case con of
        None \<Rightarrow> None
      | Some c \<Rightarrow>
          Some (if c \<in> ws_live b then (None, b\<lparr>ws_out := (ws_out b)(c := ws_out b c @ [msg])\<rparr>)
                else (Some (ws_error e), b)))"

definition SendWsMsg :: "'n box_env \<Rightarrow> string \<Rightarrow> string \<Rightarrow> ('n, 'db) box \<Rightarrow> (string option \<times> ('n, 'db) box) option" where
  "SendWsMsg e to msg b = WriteMessage e (WsConMap b to) msg b"

text \<open>The handlers ignore the error when they answer.\<close>

definition answer :: "'n box_env \<Rightarrow> string \<Rightarrow> 'n Res \<Rightarrow> ('n, 'db) box \<Rightarrow> ('n, 'db) box option" where
  "answer e to res b = map_option snd (SendWsMsg e to (marshal_text e (enc_Res res)) b)"

definition initWsRoute :: "'n Req \<Rightarrow> string \<Rightarrow> 'n task list" where
  "initWsRoute req reqStr =
     (if rq_Protocol req = ''/user/uploadInfo'' then [TUploadInfo req] else []) @
     (if rq_Protocol req = ''/user/add_qr'' then [TAdd_qr req] else []) @
     (if rq_Protocol req = ''/user/agree'' then [TAgree req reqStr] else [])"

text \<open>One round of the loop of \<^verbatim>\<open>WebSocketHandler\<close>; leaving the loop closes the connection.\<close>

definition ws_close :: "nat \<Rightarrow> ('n, 'db) box \<Rightarrow> ('n, 'db) box" where
  "ws_close c b = b\<lparr>ws_live := ws_live b - {c}, ws_loops := (ws_loops b)(c := None)\<rparr>"

definition ws_round :: "'n box_env \<Rightarrow> nat \<Rightarrow> 'n Req \<Rightarrow> string option \<Rightarrow> ('n, 'db) box \<Rightarrow> ('n, 'db) box" where
  "ws_round e c req input b =
     (case input of
        None \<Rightarrow> ws_close c b
      | Some msg \<Rightarrow>
          (case Unmarshal e msg req of
             (False, _) \<Rightarrow> ws_close c b
           | (True, req) \<Rightarrow>
               b\<lparr>ws_loops := (ws_loops b)(c \<mapsto> req), WsConMap := (WsConMap b)(rq_From req \<mapsto> c),
                 bx_tasks := bx_tasks b @ initWsRoute req msg\<rparr>))"

text \<open>A new connection: its loop starts with the zero request.\<close>

definition ws_accept :: "nat \<Rightarrow> ('n, 'db) box \<Rightarrow> ('n, 'db) box" where
  "ws_accept c b = b\<lparr>ws_live := insert c (ws_live b), ws_loops := (ws_loops b)(c \<mapsto> zero_Req)\<rparr>"

section \<open>Uploading the user's data\<close>

definition GetPublicIp :: "'n box_env \<Rightarrow> ('n, 'db) box \<Rightarrow> string \<times> ('n, 'db) box" where
  "GetPublicIp e b =
     (if publicIP b \<noteq> [] then (publicIP b, b)
      else (case http_ip e of None \<Rightarrow> ([], b) | Some content \<Rightarrow> (content, b\<lparr>publicIP := content\<rparr>)))"

definition getLocalPeer :: "'n box_env \<Rightarrow> ('n, 'db) box \<Rightarrow> string \<times> ('n, 'db) box" where
  "getLocalPeer e b =
     (let port = (case host_addrs e of [] \<Rightarrow> ''0'' | v # _ \<Rightarrow> last (split_on CHR ''/'' v))
      in case GetPublicIp e b of (ip, b) \<Rightarrow> (''/ip4/'' @ ip @ ''/tcp/'' @ port @ ''/p2p/'' @ host_id e, b))"

definition UploadInfo :: "'n box_env \<Rightarrow> 'db db_ops \<Rightarrow> 'n Req \<Rightarrow> ('n, 'db) box \<Rightarrow> ('n, 'db) box option" where
  "UploadInfo e ops req b =
     (let res = zero_Res\<lparr>rs_Protocol := rq_Protocol req\<rparr> in
      case je_marshal e (rq_Data req) of
        Inl err \<Rightarrow> answer e (rq_To req) (res\<lparr>rs_Code := False, rs_Msg := err\<rparr>) b
      | Inr data \<Rightarrow>
          (let headImg = fst (jv_get e data ''headImg'');
               nickName = fst (jv_get e data ''nickName'');
               user = \<lparr>us_Id = rq_From req, us_NickName = nickName, us_HeadImg = headImg\<rparr>
           in case InserUserInfo ops user (bx_db b) of
                (Some err, db) \<Rightarrow> answer e (rq_To req) (res\<lparr>rs_Code := False, rs_Msg := err\<rparr>) (b\<lparr>bx_db := db\<rparr>)
              | (None, db) \<Rightarrow>
                  (case getLocalPeer e (b\<lparr>bx_db := db\<rparr>) of (peer, b) \<Rightarrow>
                     answer e (rq_To req) (res\<lparr>rs_Code := True, rs_Data := LocalPeer peer\<rparr>) b)))"

section \<open>The relay\<close>

definition newline :: char where
  "newline = CHR 0x0A"

text \<open>\<^verbatim>\<open>ReadString\<close> of a buffered reader: through the first newline, or an error and what there was.\<close>

definition ReadString :: "string \<Rightarrow> string \<times> string option" where
  "ReadString s =
     (if newline \<in> set s then (takeWhile (\<lambda>c. c \<noteq> newline) s @ [newline], None) else (s, Some ''EOF''))"

text \<open>The relay handler gives what it writes to the stream.\<close>

definition relay_Send :: "string \<Rightarrow> string" where
  "relay_Send str = str @ [newline]"

definition relay :: "'n box_env \<Rightarrow> string \<Rightarrow> ('n, 'db) box \<Rightarrow> (string \<times> ('n, 'db) box) option" where
  "relay e stream b =
     (case ReadString stream of
        (_, Some err) \<Rightarrow> Some (relay_Send err, b)
      | (str, None) \<Rightarrow>
          (let str = trim_suffix str [newline] in
           case jv_get e str ''to'' of
             (_, Some err) \<Rightarrow> Some (relay_Send err, b)
           | (to, None) \<Rightarrow>
               (case WriteMessage e (WsConMap b to) str b of
                  None \<Rightarrow> None
                | Some (Some err, b) \<Rightarrow> Some (relay_Send err, b)
                | Some (None, b) \<Rightarrow> Some (relay_Send ''true'', b))))"

section \<open>Requests to another box\<close>

type_synonym ('i, 'n, 'db) world = "'i \<Rightarrow> ('n, 'db) box"

text \<open>
  What the network does to one request: errors of the calls, how many bytes of the request and of the reply
  get through (\<^verbatim>\<open>Flush\<close> reports no error), and whether the time runs out before the reply is taken.
\<close>

record net_env =
  ne_connected :: bool
  ne_Connect :: "string option"
  ne_NewStream :: "string option"
  ne_Write :: "string option"
  ne_up :: nat
  ne_down :: nat
  ne_deadline :: bool

text \<open>The box at the other end runs its relay; a panic ends that process and its streams.\<close>

definition serve :: "'n box_env \<Rightarrow> 'i \<Rightarrow> string \<Rightarrow> ('i, 'n, 'db) world \<Rightarrow> string \<times> ('i, 'n, 'db) world" where
  "serve e q stream w =
     (if bx_down (w q) then ([], w)
      else
        (case relay e stream (w q) of
           None \<Rightarrow> ([], w(q := (w q)\<lparr>bx_down := True\<rparr>))
         | Some (reply, b) \<Rightarrow> (reply, w(q := b))))"

definition SendRequest ::
    "'n box_env \<Rightarrow> net_env \<Rightarrow> 'i \<Rightarrow> 'n Req \<Rightarrow> ('i, 'n, 'db) world \<Rightarrow> (string + string) \<times> ('i, 'n, 'db) world" where
  "SendRequest e ne q req w =
     (if \<not> ne_connected ne \<and> ne_Connect ne \<noteq> None then (Inl ''RemotePeers not connect'', w)
      else
        (case ne_NewStream ne of
           Some err \<Rightarrow> (Inl err, w)
         | None \<Rightarrow>
             (case je_marshal e (enc_Req req) of
                Inl err \<Rightarrow> (Inl err, w)
              | Inr data \<Rightarrow>
                  (case ne_Write ne of
                     Some err \<Rightarrow> (Inl err, w)
                   | None \<Rightarrow>
                       (case serve e q (take (ne_up ne) (data @ [newline])) w of (reply, w) \<Rightarrow>
                          (let resp = (if ne_deadline ne then []
                                       else trim_suffix (fst (ReadString (take (ne_down ne) reply))) [newline])
                           in (if resp \<noteq> [] then
                                 (if resp \<noteq> ''true'' then Inl (Errorf e resp) else Inr resp)
                               else Inl ''request timeout'', w)))))))"

section \<open>Requests between users\<close>

text \<open>The error of \<^verbatim>\<open>ParseBootstrapPeers2\<close> is that of the multiaddress package.\<close>

fun boot_text :: "boot_error \<Rightarrow> string" where
  "boot_text (BadMultiaddr s) = s"
| "boot_text (BadAddrInfo s) = s"
| "boot_text _ = []"

definition ParseBootstrapPeers2 :: "('i, 'm) peer_env \<Rightarrow> string list \<Rightarrow> boot_error + ('i, 'm) AddrInfo list" where
  "ParseBootstrapPeers2 pe addrs =
     (case parse_addrs pe addrs of
        Inl err \<Rightarrow> Inl err
      | Inr maddrs \<Rightarrow> (case AddrInfosFromP2pAddrs pe maddrs of Inl err \<Rightarrow> Inl (BadAddrInfo err) | Inr ps \<Rightarrow> Inr ps))"

text \<open>A goroutine's work on its own box; a panic ends the process.\<close>

definition on_box :: "'i \<Rightarrow> (('n, 'db) box \<Rightarrow> ('n, 'db) box option) \<Rightarrow> ('i, 'n, 'db) world \<Rightarrow> ('i, 'n, 'db) world" where
  "on_box p f w =
     w(p := (case f (w p) of None \<Rightarrow> (w p)\<lparr>bx_down := True\<rparr> | Some b \<Rightarrow> b))"

text \<open>The last part of \<^verbatim>\<open>Add_qr\<close> and \<^verbatim>\<open>agree\<close> after a request to another box.\<close>

definition tell_outcome :: "'n box_env \<Rightarrow> 'n Req \<Rightarrow> string + string \<Rightarrow> ('n, 'db) box \<Rightarrow> ('n, 'db) box option" where
  "tell_outcome e req r b =
     (let res = zero_Res\<lparr>rs_Protocol := rq_Protocol req, rs_From := rq_To req\<rparr> in
      case r of
        Inl err \<Rightarrow> answer e (rq_From req) (res\<lparr>rs_Code := False, rs_Msg := ''remote error:'' @ err\<rparr>) b
      | Inr _ \<Rightarrow> answer e (rq_From req) (res\<lparr>rs_Code := True\<rparr>) b)"

definition tell_parse_error :: "'n box_env \<Rightarrow> 'n Req \<Rightarrow> string \<Rightarrow> ('n, 'db) box \<Rightarrow> ('n, 'db) box option" where
  "tell_parse_error e req err b =
     answer e (rq_From req)
       (zero_Res\<lparr>rs_Protocol := rq_Protocol req, rs_From := rq_To req, rs_Code := False, rs_Msg := err\<rparr>) b"

text \<open>The part for a user of the same box.\<close>

definition send_local :: "'n box_env \<Rightarrow> 'n Req \<Rightarrow> ('n, 'db) box \<Rightarrow> ('n, 'db) box option" where
  "send_local e req b =
     (case SendWsMsg e (rq_To req) (marshal_text e (enc_Req req)) b of
        None \<Rightarrow> None
      | Some (Some err, b) \<Rightarrow>
          answer e (rq_From req)
            (zero_Res\<lparr>rs_Protocol := rq_Protocol req, rs_From := rq_To req, rs_Code := True\<rparr>) b
      | Some (None, b) \<Rightarrow> Some b)"

definition Add_qr ::
    "'n box_env \<Rightarrow> ('i, 'm) peer_env \<Rightarrow> net_env \<Rightarrow> 'i \<Rightarrow> 'n Req \<Rightarrow> ('i, 'n, 'db) world \<Rightarrow> ('i, 'n, 'db) world" where
  "Add_qr e pe ne p req w =
     (case ParseBootstrapPeers2 pe [rq_RemotePeer req] of
        Inl err \<Rightarrow> on_box p (tell_parse_error e req (boot_text err)) w
      | Inr [] \<Rightarrow> on_box p (\<lambda>_. None) w
      | Inr (rp # _) \<Rightarrow>
          if ai_ID rp \<noteq> p then
            (case SendRequest e ne (ai_ID rp) req w of (r, w) \<Rightarrow> on_box p (tell_outcome e req r) w)
          else on_box p (send_local e req) w)"

definition agree ::
    "'n box_env \<Rightarrow> ('i, 'm) peer_env \<Rightarrow> net_env \<Rightarrow> 'i \<Rightarrow> 'n Req \<Rightarrow> string \<Rightarrow> ('i, 'n, 'db) world \<Rightarrow> ('i, 'n, 'db) world" where
  "agree e pe ne p req reqStr w =
     (case ParseBootstrapPeers2 pe [rq_RemotePeer req] of
        Inl err \<Rightarrow> on_box p (tell_parse_error e req (boot_text err)) w
      | Inr [] \<Rightarrow> on_box p (\<lambda>_. None) w
      | Inr (rp # _) \<Rightarrow>
          if ai_ID rp \<noteq> p then
            (case SendRequest e ne (ai_ID rp) req w of (r, w) \<Rightarrow> on_box p (tell_outcome e req r) w)
          else on_box p (send_local e req) w)"

section \<open>The service's configuration file\<close>

record ConfigBox =
  cb_Sqlite :: string
  cb_HttpServer :: string
  cb_IsPrivateNet :: bool

record toml_env =
  te_repoPath :: string
  te_Marshal :: "ConfigBox \<Rightarrow> string option"
  te_Unmarshal :: "string \<Rightarrow> bool \<times> ConfigBox"
  te_stat_fails :: "path \<Rightarrow> bool"
  te_write_fails :: bool
  te_read_fails :: bool

definition default_ConfigBox :: ConfigBox where
  "default_ConfigBox = \<lparr>cb_Sqlite = ''box.db'', cb_HttpServer = ''0.0.0.0:9988'', cb_IsPrivateNet = True\<rparr>"

definition IsFileExist :: "toml_env \<Rightarrow> path \<Rightarrow> (path \<rightharpoonup> string) \<Rightarrow> bool" where
  "IsFileExist te filename fs \<longleftrightarrow> te_stat_fails te filename \<or> fs filename \<noteq> None"

text \<open>\<open>None\<close> is a panic.\<close>

definition initConfigBox :: "toml_env \<Rightarrow> (path \<rightharpoonup> string) \<Rightarrow> (path \<rightharpoonup> string) option" where
  "initConfigBox te fs =
     (let filePath = te_repoPath te @ ''/configBox.toml'' in
      if IsFileExist te filePath fs then Some fs
      else
        (case te_Marshal te default_ConfigBox of
           None \<Rightarrow> None
         | Some data \<Rightarrow> if te_write_fails te then None else Some (fs(filePath \<mapsto> data))))"

text \<open>The result is the configuration and whether an error is returned; a malformed file is not one.\<close>

definition GetConfig :: "toml_env \<Rightarrow> (path \<rightharpoonup> string) \<Rightarrow> ((ConfigBox \<times> bool) \<times> (path \<rightharpoonup> string)) option" where
  "GetConfig te fs =
     (case initConfigBox te fs of
        None \<Rightarrow> None
      | Some fs \<Rightarrow>
          (let zero = \<lparr>cb_Sqlite = [], cb_HttpServer = [], cb_IsPrivateNet = False\<rparr> in
           case fs (te_repoPath te @ ''/configBox.toml'') of
             None \<Rightarrow> Some ((zero, True), fs)
           | Some content \<Rightarrow>
               if te_read_fails te then Some ((zero, True), fs)
               else Some ((snd (te_Unmarshal te content), False), fs)))"

section \<open>Boxes running together\<close>

definition drop_task :: "'i \<Rightarrow> 'n task list \<Rightarrow> ('i, 'n, 'db) world \<Rightarrow> ('i, 'n, 'db) world" where
  "drop_task p ts w = w(p := (w p)\<lparr>bx_tasks := ts\<rparr>)"

definition add_task :: "'i \<Rightarrow> 'n task \<Rightarrow> ('i, 'n, 'db) world \<Rightarrow> ('i, 'n, 'db) world" where
  "add_task p t w = w(p := (w p)\<lparr>bx_tasks := bx_tasks (w p) @ [t]\<rparr>)"

text \<open>A request for a user of another box.\<close>

fun forwards :: "'n task \<Rightarrow> 'n Req option" where
  "forwards (TAdd_qr req) = Some req"
| "forwards (TAgree req s) = Some req"
| "forwards _ = None"

definition remote_peer :: "('i, 'm) peer_env \<Rightarrow> 'i \<Rightarrow> 'n Req \<Rightarrow> 'i option" where
  "remote_peer pe p req =
     (case ParseBootstrapPeers2 pe [rq_RemotePeer req] of Inr (rp # _) \<Rightarrow> if ai_ID rp \<noteq> p then Some (ai_ID rp) else None | _ \<Rightarrow> None)"

text \<open>
  The steps of a world: clients come, send and vanish, and goroutines run.  A goroutine that asks another box
  is two steps, since anything may happen between the end of the request and the answer to the client.
\<close>

inductive wstep ::
    "'n box_env \<Rightarrow> 'db db_ops \<Rightarrow> ('i, 'm) peer_env \<Rightarrow> ('i, 'n, 'db) world \<Rightarrow> ('i, 'n, 'db) world \<Rightarrow> bool"
  for e ops pe where
  accept: "\<not> bx_down (w p) \<Longrightarrow> c \<notin> ran (WsConMap (w p)) \<Longrightarrow> ws_loops (w p) c = None \<Longrightarrow> ws_out (w p) c = [] \<Longrightarrow>
     wstep e ops pe w (w(p := ws_accept c (w p)))"
| round: "\<not> bx_down (w p) \<Longrightarrow> ws_loops (w p) c = Some req \<Longrightarrow>
     wstep e ops pe w (w(p := ws_round e c req input (w p)))"
| vanish: "wstep e ops pe w (w(p := (w p)\<lparr>ws_live := ws_live (w p) - {c}\<rparr>))"
| upload: "\<not> bx_down (w p) \<Longrightarrow> bx_tasks (w p) = ts @ TUploadInfo req # ts' \<Longrightarrow>
     wstep e ops pe w (on_box p (UploadInfo e ops req) (drop_task p (ts @ ts') w))"
| settle: "\<not> bx_down (w p) \<Longrightarrow> bx_tasks (w p) = ts @ t # ts' \<Longrightarrow> forwards t = Some req \<Longrightarrow> remote_peer pe p req = None \<Longrightarrow>
     wstep e ops pe w (Add_qr e pe ne p req (drop_task p (ts @ ts') w))"
| send: "\<not> bx_down (w p) \<Longrightarrow> bx_tasks (w p) = ts @ t # ts' \<Longrightarrow> forwards t = Some req \<Longrightarrow> remote_peer pe p req = Some q \<Longrightarrow>
     SendRequest e ne q req (drop_task p (ts @ ts') w) = (r, w') \<Longrightarrow>
     wstep e ops pe w (add_task p (TAnswer req r) w')"
| tell: "\<not> bx_down (w p) \<Longrightarrow> bx_tasks (w p) = ts @ TAnswer req r # ts' \<Longrightarrow>
     wstep e ops pe w (on_box p (tell_outcome e req r) (drop_task p (ts @ ts') w))"

definition world_init :: "('i, 'n, 'db) world \<Rightarrow> bool" where
  "world_init w \<longleftrightarrow>
     (\<forall>p. WsConMap (w p) = Map.empty \<and> ws_live (w p) = {} \<and> ws_loops (w p) = Map.empty \<and> ws_out (w p) = (\<lambda>_. []) \<and>
          bx_tasks (w p) = [] \<and> publicIP (w p) = [] \<and> \<not> bx_down (w p))"

section \<open>What the packages promise\<close>

text \<open>
  JSON: encodings are on one line; a structure whose parts are values as \<^verbatim>\<open>interface{}\<close> keeps them can be
  encoded and is parsed back.
\<close>

definition json_ok :: "'n box_env \<Rightarrow> bool" where
  "json_ok e \<longleftrightarrow>
     (\<forall>v s. je_marshal e v = Inr s \<longrightarrow> newline \<notin> set s) \<and>
     (\<forall>ms. distinct (map fst ms) \<longrightarrow> (\<forall>kv \<in> set ms. je_iface e (snd kv) = Some (snd kv)) \<longrightarrow>
        (\<exists>s. je_marshal e (JObj ms) = Inr s \<and> je_parse e s = Some (JObj ms)))"

text \<open>\<^verbatim>\<open>jsonvalue\<close>: a string member of an object is found.\<close>

definition jv_ok :: "'n box_env \<Rightarrow> bool" where
  "jv_ok e \<longleftrightarrow>
     (\<forall>s ms k x. je_parse e s = Some (JObj ms) \<longrightarrow> distinct (map fst ms) \<longrightarrow> (k, JStr x) \<in> set ms \<longrightarrow>
        jv_get e s k = (x, None))"

text \<open>No error a relay reports reads as its word for success.\<close>

definition errors_ok :: "'n box_env \<Rightarrow> bool" where
  "errors_ok e \<longleftrightarrow> \<not> prefix ''true'' (ws_error e) \<and> (\<forall>s k x err. jv_get e s k = (x, Some err) \<longrightarrow> \<not> prefix ''true'' err)"

text \<open>
  The table, for non-empty keys: a new row is created once, saving writes it in any case, and neither touches
  another row; an operation that fails changes nothing.
\<close>

definition db_ok :: "'db db_ops \<Rightarrow> bool" where
  "db_ok ops \<longleftrightarrow>
     (\<forall>u db db'. us_Id u \<noteq> [] \<longrightarrow> (db_Create ops u db = (None, db') \<or> db_Save ops u db = (None, db')) \<longrightarrow>
        db_First ops (us_Id u) db' = Inr u \<and> (\<forall>k. k \<noteq> us_Id u \<longrightarrow> db_First ops k db' = db_First ops k db)) \<and>
     (\<forall>u db err db' k. (db_Create ops u db = (Some err, db') \<or> db_Save ops u db = (Some err, db')) \<longrightarrow> db_First ops k db' = db_First ops k db)"

section \<open>Handlers of one box\<close>

text \<open>What a handler may do: one message at most, to a connection registered under one of its addressees.\<close>

definition wrote :: "string set \<Rightarrow> ('n, 'db) box \<Rightarrow> ('n, 'db) box \<Rightarrow> bool" where
  "wrote names b b' \<longleftrightarrow>
     WsConMap b' = WsConMap b \<and> ws_live b' = ws_live b \<and> ws_loops b' = ws_loops b \<and> bx_tasks b' = bx_tasks b \<and>
     bx_down b' = bx_down b \<and>
     (ws_out b' = ws_out b \<or>
      (\<exists>n \<in> names. \<exists>c m. WsConMap b n = Some c \<and> c \<in> ws_live b \<and> ws_out b' = (ws_out b)(c := ws_out b c @ [m])))"

locale box_handler =
  fixes h :: "('n, 'db) box \<Rightarrow> ('n, 'db) box option"
    and names :: "string set"
  assumes writes: "h b = Some b' \<Longrightarrow> wrote names b b'"
    and panics: "h b = None \<Longrightarrow> \<exists>n \<in> names. WsConMap b n = None"
begin

lemma on_box_wrote: "h (w p) \<noteq> None \<Longrightarrow> wrote names (w p) (on_box p h w p)"
  using writes[of "w p"] by (cases "h (w p)") (simp_all add: on_box_def)

lemma on_box_other: "q \<noteq> p \<Longrightarrow> on_box p h w q = w q"
  by (simp add: on_box_def)

lemma on_box_panic: "h (w p) = None \<Longrightarrow> on_box p h w p = (w p)\<lparr>bx_down := True\<rparr>"
  by (simp add: on_box_def)

lemma on_box_tasks: "bx_tasks (on_box p h w q) = bx_tasks (w q)"
  by (cases "q = p"; cases "h (w p)")
    (use on_box_wrote[of w p] in \<open>auto simp: on_box_other on_box_panic wrote_def\<close>)

lemma on_box_out: "set (ws_out (w q) c) \<subseteq> set (ws_out (on_box p h w q) c)"
  by (cases "q = p"; cases "h (w p)")
    (use on_box_wrote[of w p] in \<open>auto simp: on_box_other on_box_panic wrote_def\<close>)

lemma on_box_alive:
  "\<not> bx_down (w p) \<Longrightarrow> bx_down (on_box p h w p) \<Longrightarrow> \<exists>n \<in> names. WsConMap (w p) n = None"
  by (cases "h (w p)") (use on_box_wrote[of w p] panics in \<open>auto simp: wrote_def\<close>)

end

lemma SendWsMsg_wrote: "SendWsMsg e n m b = Some (r, b') \<Longrightarrow> wrote {n} b b'"
  by (auto simp: SendWsMsg_def WriteMessage_def wrote_def split: option.splits if_splits)

lemma SendWsMsg_None: "SendWsMsg e n m b = None \<longleftrightarrow> WsConMap b n = None"
  by (auto simp: SendWsMsg_def WriteMessage_def split: option.splits)

lemma answer_wrote: "answer e n res b = Some b' \<Longrightarrow> wrote {n} b b'"
  unfolding answer_def using SendWsMsg_wrote by fastforce

lemma answer_None: "answer e n res b = None \<longleftrightarrow> WsConMap b n = None"
  by (simp add: answer_def SendWsMsg_None)

lemma wrote_names: "wrote A b b' \<Longrightarrow> A \<subseteq> B \<Longrightarrow> wrote B b b'"
  unfolding wrote_def by blast

lemma getLocalPeer_same:
  "getLocalPeer e b = (s, b') \<Longrightarrow> b' = b\<lparr>publicIP := publicIP b'\<rparr>"
  by (auto simp: getLocalPeer_def GetPublicIp_def Let_def split: if_splits option.splits)

lemma wrote_other_fields:
  "wrote A (b\<lparr>bx_db := db, publicIP := ip\<rparr>) b' \<longleftrightarrow> wrote A b b'" "wrote A (b\<lparr>bx_db := db\<rparr>) b' \<longleftrightarrow> wrote A b b'"
  by (simp_all add: wrote_def)

lemma UploadInfo_cases:
  assumes "UploadInfo e ops req b = r"
  obtains res db ip where "r = answer e (rq_To req) res (b\<lparr>bx_db := db, publicIP := ip\<rparr>)"
proof -
  have "\<exists>res db ip. UploadInfo e ops req b = answer e (rq_To req) res (b\<lparr>bx_db := db, publicIP := ip\<rparr>)"
  proof (cases "je_marshal e (rq_Data req)")
    case (Inl err)
    then show ?thesis by (intro exI[of _ "bx_db b"] exI[of _ "publicIP b"] exI) (simp add: UploadInfo_def)
  next
    case (Inr data)
    let ?user = "\<lparr>us_Id = rq_From req, us_NickName = fst (jv_get e data ''nickName''), us_HeadImg = fst (jv_get e data ''headImg'')\<rparr>"
    obtain err db where i: "InserUserInfo ops ?user (bx_db b) = (err, db)" by fastforce
    obtain peer b' where g: "getLocalPeer e (b\<lparr>bx_db := db\<rparr>) = (peer, b')" by fastforce
    from getLocalPeer_same[OF g] have b': "b' = b\<lparr>bx_db := db, publicIP := publicIP b'\<rparr>" by simp
    show ?thesis
    proof (cases err)
      case None
      with Inr i g have "UploadInfo e ops req b =
          answer e (rq_To req) (zero_Res\<lparr>rs_Protocol := rq_Protocol req, rs_Code := True, rs_Data := LocalPeer peer\<rparr>) b'"
        by (simp add: UploadInfo_def Let_def)
      with b' show ?thesis by metis
    next
      case (Some x)
      with Inr i show ?thesis by (intro exI[of _ db] exI[of _ "publicIP b"] exI) (simp add: UploadInfo_def Let_def)
    qed
  qed
  with assms that show ?thesis by blast
qed

interpretation upload: box_handler "UploadInfo e ops req" "{rq_To req}" for e ops req
proof
  fix b b' assume "UploadInfo e ops req b = Some b'"
  then show "wrote {rq_To req} b b'" by (metis UploadInfo_cases answer_wrote wrote_other_fields(1))
next
  fix b assume "UploadInfo e ops req b = None"
  then obtain res db ip where "answer e (rq_To req) res (b\<lparr>bx_db := db, publicIP := ip\<rparr>) = None"
    by (metis UploadInfo_cases)
  then show "\<exists>n \<in> {rq_To req}. WsConMap b n = None" by (simp add: answer_None)
qed

interpretation told: box_handler "tell_outcome e req r" "{rq_From req}" for e req r
  by unfold_locales (auto simp: tell_outcome_def Let_def answer_None intro: answer_wrote split: sum.splits)

interpretation parse_told: box_handler "tell_parse_error e req err" "{rq_From req}" for e req err
  by unfold_locales (auto simp: tell_parse_error_def answer_None intro: answer_wrote)

lemma send_local_cases:
  assumes "send_local e req b = Some b'"
  shows "wrote {rq_To req, rq_From req} b b'"
proof -
  from assms obtain r b1 where s: "SendWsMsg e (rq_To req) (marshal_text e (enc_Req req)) b = Some (r, b1)"
    by (auto simp: send_local_def split: option.splits)
  show ?thesis
  proof (cases r)
    case None
    with assms s have "b' = b1" by (simp add: send_local_def)
    with SendWsMsg_wrote[OF s] show ?thesis by (auto intro: wrote_names)
  next
    case (Some err)
    with s have "b1 = b" by (auto simp: SendWsMsg_def WriteMessage_def split: option.splits if_splits)
    with assms s Some have "wrote {rq_From req} b b'" by (auto simp: send_local_def intro: answer_wrote)
    then show ?thesis by (auto intro: wrote_names)
  qed
qed

interpretation local_sent: box_handler "send_local e req" "{rq_To req, rq_From req}" for e req
proof
  fix b b' assume "send_local e req b = Some b'"
  then show "wrote {rq_To req, rq_From req} b b'" by (rule send_local_cases)
next
  fix b assume none: "send_local e req b = None"
  show "\<exists>n \<in> {rq_To req, rq_From req}. WsConMap b n = None"
  proof (cases "SendWsMsg e (rq_To req) (marshal_text e (enc_Req req)) b")
    case None
    then show ?thesis by (simp add: SendWsMsg_None)
  next
    case (Some rb)
    obtain r b1 where rb: "rb = (r, b1)" by fastforce
    with SendWsMsg_wrote Some have "WsConMap b1 = WsConMap b" unfolding wrote_def by blast
    with none rb Some show ?thesis by (auto simp: send_local_def answer_None split: option.splits)
  qed
qed

section \<open>Requests over the network\<close>

lemma takeWhile_line: "newline \<notin> set s \<Longrightarrow> takeWhile (\<lambda>c. c \<noteq> newline) (s @ newline # t) = s"
  by (induction s) auto

lemma ReadString_line: "newline \<notin> set s \<Longrightarrow> ReadString (s @ newline # t) = (s @ [newline], None)"
  by (simp add: ReadString_def takeWhile_line)

lemma ReadString_prefix: "prefix (trim_suffix (fst (ReadString s)) [newline]) s"
proof (cases "newline \<in> set s")
  case True
  then show ?thesis by (simp add: ReadString_def takeWhile_is_prefix)
next
  case False
  then have "\<not> has_suffix s [newline]"
    by (metis (no_types, lifting) append_take_drop_id has_suffix_def in_set_conv_decomp)
  then show ?thesis using False by (simp add: ReadString_def trim_suffix_def)
qed

text \<open>The relay says \<^verbatim>\<open>true\<close> exactly when it has written the line it read.\<close>

lemma relay_cases:
  assumes "relay e stream b = Some (reply, b')"
  obtains (written) str c where "newline \<in> set stream" "str = takeWhile (\<lambda>x. x \<noteq> newline) stream"
      "snd (jv_get e str ''to'') = None" "WsConMap b (fst (jv_get e str ''to'')) = Some c" "c \<in> ws_live b"
      "b' = b\<lparr>ws_out := (ws_out b)(c := ws_out b c @ [str])\<rparr>" "reply = relay_Send ''true''"
  | (failed) err where "b' = b" "reply = relay_Send err"
      "err = ''EOF'' \<or> err = ws_error e \<or> (\<exists>s k x. jv_get e s k = (x, Some err))"
proof (cases "newline \<in> set stream")
  case False
  with assms failed show ?thesis by (auto simp: relay_def ReadString_def)
next
  case True
  let ?str = "takeWhile (\<lambda>x. x \<noteq> newline) stream"
  obtain to err where j: "jv_get e ?str ''to'' = (to, err)" by fastforce
  show ?thesis
  proof (cases err)
    case (Some x)
    with assms True j failed show ?thesis by (auto simp: relay_def ReadString_def Let_def)
  next
    case None
    show ?thesis
    proof (cases "WsConMap b to")
      case None
      with assms True j \<open>err = None\<close> show ?thesis by (simp add: relay_def ReadString_def Let_def WriteMessage_def)
    next
      case (Some c)
      with assms True j \<open>err = None\<close> written[of ?str c] failed[of "ws_error e"] show ?thesis
        by (auto simp: relay_def ReadString_def Let_def WriteMessage_def split: if_splits)
    qed
  qed
qed

lemma relay_None:
  assumes "relay e stream b = None"
  shows "newline \<in> set stream \<and> WsConMap b (fst (jv_get e (takeWhile (\<lambda>x. x \<noteq> newline) stream) ''to'')) = None"
  using assms by (auto simp: relay_def ReadString_def Let_def WriteMessage_def split: option.splits prod.splits if_splits)

lemma true_reply: "prefix ''true'' (relay_Send err) \<Longrightarrow> prefix ''true'' err"
  unfolding relay_Send_def newline_def by (auto simp: prefix_snoc)

lemma not_true_EOF: "\<not> prefix ''true'' ''EOF''"
  by simp

text \<open>A prefix of an encoded request with a newline in it is the whole line.\<close>

lemma whole_line:
  assumes "newline \<notin> set data" and "newline \<in> set (take n (data @ [newline]))"
  shows "takeWhile (\<lambda>x. x \<noteq> newline) (take n (data @ [newline])) = data"
proof -
  have "length data < n" using assms by (metis take_append in_set_takeD not_less take_eq_Nil2 diff_is_0_eq append_Nil2 )
  then show ?thesis using assms(1) by (simp add: takeWhile_line)
qed

lemma SendRequest_cases:
  assumes "SendRequest e ne q req w = (r, w')"
  obtains (early) err where "w' = w" "r = Inl err"
  | (served) data reply where "je_marshal e (enc_Req req) = Inr data" "ne_NewStream ne = None" "ne_Write ne = None"
      "serve e q (take (ne_up ne) (data @ [newline])) w = (reply, w')"
      "\<And>s. r = Inr s \<Longrightarrow> prefix ''true'' reply"
proof (cases "(\<not> ne_connected ne \<and> ne_Connect ne \<noteq> None) \<or> ne_NewStream ne \<noteq> None \<or> ne_Write ne \<noteq> None")
  case True
  with assms have "w' = w \<and> (\<exists>err. r = Inl err)" 
    by (cases "je_marshal e (enc_Req req)") (auto simp: SendRequest_def split: if_splits option.splits, metis+)
  with early show ?thesis by blast
next
  case False
  show ?thesis
  proof (cases "je_marshal e (enc_Req req)")
    case (Inl err)
    with False assms have "w' = w" "r = Inl err" by (auto simp: SendRequest_def)
    with early show ?thesis by blast
  next
    case (Inr data)
    obtain reply w1 where s: "serve e q (take (ne_up ne) (data @ [newline])) w = (reply, w1)" by fastforce
    let ?resp = "trim_suffix (fst (ReadString (take (ne_down ne) reply))) [newline]"
    have "w1 = w'" using False Inr s assms by (auto simp: SendRequest_def Let_def)
    moreover have "prefix ''true'' reply" if "r = Inr t" for t
    proof -
      have "?resp = ''true''" using that False Inr s assms by (auto simp: SendRequest_def Let_def split: if_splits)
      with ReadString_prefix[of "take (ne_down ne) reply"] have "prefix ''true'' (take (ne_down ne) reply)" by simp
      then show ?thesis using take_is_prefix prefix_order.trans by blast
    qed
    ultimately show ?thesis using served Inr s False by blast
  qed
qed

text \<open>What serving a request does to the world.\<close>

lemma serve_cases:
  assumes "serve e q stream w = (reply, w')"
  obtains (same) "w' = w" "reply = [] \<or> (\<exists>err. reply = relay_Send err \<and> (err = ''EOF'' \<or> err = ws_error e \<or> (\<exists>s k x. jv_get e s k = (x, Some err))))"
  | (crash) "\<not> bx_down (w q)" "w' = w(q := (w q)\<lparr>bx_down := True\<rparr>)" "reply = []" "newline \<in> set stream"
      "WsConMap (w q) (fst (jv_get e (takeWhile (\<lambda>x. x \<noteq> newline) stream) ''to'')) = None"
  | (written) str c where "\<not> bx_down (w q)" "newline \<in> set stream" "str = takeWhile (\<lambda>x. x \<noteq> newline) stream"
      "WsConMap (w q) (fst (jv_get e str ''to'')) = Some c" "c \<in> ws_live (w q)"
      "w' = w(q := (w q)\<lparr>ws_out := (ws_out (w q))(c := ws_out (w q) c @ [str])\<rparr>)"
proof (cases "bx_down (w q)")
  case True
  with assms same show ?thesis by (simp add: serve_def)
next
  note fin = written
  case False
  show ?thesis
  proof (cases "relay e stream (w q)")
    case None
    with False assms relay_None[OF None] crash show ?thesis by (auto simp: serve_def)
  next
    case (Some rb)
    obtain rep b where rb: "relay e stream (w q) = Some (rep, b)" using Some by (cases rb) auto
    with False assms have w': "w' = w(q := b)" and rep: "reply = rep" by (auto simp: serve_def)
    from rb show ?thesis
    proof (cases rule: relay_cases)
      case (written str c)
      with w' False fin show ?thesis by blast
    next
      case (failed err)
      with w' rep same show ?thesis by auto
    qed
  qed
qed

section \<open>Steps of the world\<close>

text \<open>The names a goroutine may write to: its parties, and the addressee the relay reads from the request.\<close>

definition relayed_to :: "'n box_env \<Rightarrow> 'n Req \<Rightarrow> string" where
  "relayed_to e req = fst (jv_get e (marshal_text e (enc_Req req)) ''to'')"

fun addressees :: "'n box_env \<Rightarrow> 'n task \<Rightarrow> string set" where
  "addressees e (TUploadInfo req) = {rq_To req}"
| "addressees e (TAdd_qr req) = {rq_To req, rq_From req, relayed_to e req}"
| "addressees e (TAgree req s) = {rq_To req, rq_From req, relayed_to e req}"
| "addressees e (TAnswer req r) = {rq_From req}"

lemma forwards_addressees:
  "forwards t = Some req \<Longrightarrow> addressees e t = {rq_To req, rq_From req, relayed_to e req}"
  by (cases t) auto

text \<open>
  The effect of a goroutine on the world: nothing is written, one message is written to a connection registered
  under one of the names, or a box without such a connection dies.
\<close>

definition effect :: "string set \<Rightarrow> ('i, 'n, 'db) world \<Rightarrow> ('i, 'n, 'db) world \<Rightarrow> bool" where
  "effect names w w' \<longleftrightarrow>
     (\<forall>q. WsConMap (w' q) = WsConMap (w q) \<and> ws_live (w' q) = ws_live (w q) \<and> ws_loops (w' q) = ws_loops (w q)) \<and>
     (((\<forall>q. ws_out (w' q) = ws_out (w q) \<and> bx_down (w' q) = bx_down (w q))) \<or>
      (\<exists>q. \<exists>n \<in> names. \<not> bx_down (w q) \<and>
         (\<forall>q'. q' \<noteq> q \<longrightarrow> ws_out (w' q') = ws_out (w q') \<and> bx_down (w' q') = bx_down (w q')) \<and>
         (case WsConMap (w q) n of
            None \<Rightarrow> bx_down (w' q) \<and> ws_out (w' q) = ws_out (w q)
          | Some c \<Rightarrow> \<not> bx_down (w' q) \<and> c \<in> ws_live (w q) \<and> (\<exists>m. ws_out (w' q) = (ws_out (w q))(c := ws_out (w q) c @ [m])))))"

lemma effect_refl: "effect names w w"
  by (simp add: effect_def)

lemma task_fields [simp]:
  "WsConMap (drop_task p ts w q) = WsConMap (w q)" "ws_live (drop_task p ts w q) = ws_live (w q)"
  "ws_loops (drop_task p ts w q) = ws_loops (w q)" "ws_out (drop_task p ts w q) = ws_out (w q)"
  "bx_down (drop_task p ts w q) = bx_down (w q)" "bx_tasks (drop_task p ts w q) = (if q = p then ts else bx_tasks (w q))"
  "WsConMap (add_task p t w q) = WsConMap (w q)" "ws_live (add_task p t w q) = ws_live (w q)"
  "ws_loops (add_task p t w q) = ws_loops (w q)" "ws_out (add_task p t w q) = ws_out (w q)"
  "bx_down (add_task p t w q) = bx_down (w q)"
  "bx_tasks (add_task p t w q) = (if q = p then bx_tasks (w q) @ [t] else bx_tasks (w q))"
  by (simp_all add: drop_task_def add_task_def)

lemma effect_drop_task [simp]: "effect names (drop_task p ts w) w' = effect names w w'"
  by (simp add: effect_def cong: option.case_cong)

lemma effect_add_task [simp]: "effect names w (add_task p t w') = effect names w w'"
  by (simp add: effect_def cong: option.case_cong)

lemma effect_names: "effect A w w' \<Longrightarrow> A \<subseteq> B \<Longrightarrow> effect B w w'"
  unfolding effect_def by blast

context box_handler
begin

lemma on_box_effect:
  assumes "\<not> bx_down (w p)"
  shows "effect names w (on_box p h w)"
proof (cases "h (w p)")
  case None
  from panics[OF None] obtain n where n: "n \<in> names" "WsConMap (w p) n = None" by blast
  with None assms show ?thesis unfolding effect_def by (auto simp: on_box_def intro!: exI[of _ p] bexI[of _ n])
next
  case (Some b)
  then have o: "on_box p h w = w(p := b)" by (simp add: on_box_def)
  from writes[OF Some] have k: "WsConMap b = WsConMap (w p)" "ws_live b = ws_live (w p)" "ws_loops b = ws_loops (w p)"
    "bx_down b = bx_down (w p)" by (simp_all add: wrote_def)
  from writes[OF Some] consider "ws_out b = ws_out (w p)" | n c m where "n \<in> names" "WsConMap (w p) n = Some c" "c \<in> ws_live (w p)"
      "ws_out b = (ws_out (w p))(c := ws_out (w p) c @ [m])" unfolding wrote_def by blast
  then show ?thesis
  proof cases
    case 1
    with k o show ?thesis by (simp add: effect_def)
  next
    case 2
    with k o assms show ?thesis unfolding effect_def by (auto intro!: exI[of _ p] bexI[of _ n])
  qed
qed

end

lemma SendRequest_effect:
  assumes "json_ok e" and "SendRequest e ne q req w = (r, w')"
  shows "effect {relayed_to e req} w w'"
  using assms(2)
proof (cases rule: SendRequest_cases)
  case (early err)
  then show ?thesis by (simp add: effect_refl)
next
  case (served data reply)
  have nl: "newline \<notin> set data" using assms(1) served(1) unfolding json_ok_def by blast
  have d: "marshal_text e (enc_Req req) = data" using served(1) by (simp add: marshal_text_def)
  from served(4) show ?thesis
  proof (cases rule: serve_cases)
    case same
    then show ?thesis by (simp add: effect_refl)
  next
    case crash
    with whole_line[OF nl crash(4)] d show ?thesis unfolding effect_def
      by (auto simp: relayed_to_def intro!: exI[of _ q])
  next
    case (written str c)
    with whole_line[OF nl written(2)] d show ?thesis unfolding effect_def
      by (auto simp: relayed_to_def intro!: exI[of _ q])
  qed
qed

lemma Add_qr_local_effect:
  assumes "remote_peer pe p req = None" and "\<not> bx_down (w p)" and "ParseBootstrapPeers2 pe [rq_RemotePeer req] \<noteq> Inr []"
  shows "effect {rq_To req, rq_From req} w (Add_qr e pe ne p req w)"
proof (cases "ParseBootstrapPeers2 pe [rq_RemotePeer req]")
  case (Inl err)
  then show ?thesis using parse_told.on_box_effect[where w = w and p = p] assms(2) by (auto simp: Add_qr_def intro: effect_names)
next
  case (Inr rps)
  with assms(1,3) obtain rp rest where "rps = rp # rest" "ai_ID rp = p"
    by (cases rps) (auto simp: remote_peer_def split: if_splits)
  with Inr show ?thesis using local_sent.on_box_effect[where w = w and p = p] assms(2) by (simp add: Add_qr_def)
qed

text \<open>Clients' steps write nothing and take no box down.\<close>

lemma ws_round_keeps: "ws_out (ws_round e c req input b) = ws_out b" "bx_down (ws_round e c req input b) = bx_down b"
  by (auto simp: ws_round_def ws_close_def split: option.splits prod.splits bool.splits)

lemma ws_round_answers:
  "TAnswer rq r \<in> set (bx_tasks (ws_round e c req input b)) \<longleftrightarrow> TAnswer rq r \<in> set (bx_tasks b)"
  by (auto simp: ws_round_def ws_close_def initWsRoute_def split: option.splits prod.splits bool.splits if_splits)

definition peers_ok :: "('i, 'm) peer_env \<Rightarrow> bool" where
  "peers_ok pe \<longleftrightarrow> (\<forall>m. AddrInfosFromP2pAddrs pe [m] \<noteq> Inr [])"

lemma peers_ok_parse: "peers_ok pe \<Longrightarrow> ParseBootstrapPeers2 pe [a] \<noteq> Inr []"
  by (auto simp: peers_ok_def ParseBootstrapPeers2_def split: sum.splits)

text \<open>Every step is a client's, or a goroutine's with the effect it may have.\<close>

lemma wstep_effect:
  assumes "wstep e ops pe w w'" and "json_ok e" and "peers_ok pe"
  shows "(\<forall>q. ws_out (w' q) = ws_out (w q) \<and> bx_down (w' q) = bx_down (w q)) \<or>
    (\<exists>p. \<exists>t \<in> set (bx_tasks (w p)). effect (addressees e t) w w')"
  using assms(1)
proof cases
  case (accept p c)
  then show ?thesis by (simp add: ws_accept_def)
next
  case (round p c req input)
  then show ?thesis by (simp add: ws_round_keeps)
next
  case (vanish p c)
  then show ?thesis by simp
next
  case (upload p ts req ts')
  have "effect {rq_To req} (drop_task p (ts @ ts') w) w'"
    using upload upload.on_box_effect[where w = "drop_task p (ts @ ts') w" and p = p] by simp
  with upload show ?thesis by (intro disjI2 exI[of _ p] bexI[of _ "TUploadInfo req"]) simp_all
next
  case (settle p ts t ts' req ne)
  have "effect {rq_To req, rq_From req} (drop_task p (ts @ ts') w) w'"
    unfolding settle(1) using settle peers_ok_parse[OF assms(3)] by (intro Add_qr_local_effect) simp_all
  then have "effect (addressees e t) w w'" using forwards_addressees[OF settle(4)] by (auto intro: effect_names)
  with settle show ?thesis by (intro disjI2 exI[of _ p] bexI[of _ t]) simp_all
next
  case (send p ts t ts' req q ne r w1)
  have "effect {relayed_to e req} w w'" using SendRequest_effect[OF assms(2) send(6)] send(1) by simp
  then have "effect (addressees e t) w w'" using forwards_addressees[OF send(4)] by (auto intro: effect_names)
  with send show ?thesis by (intro disjI2 exI[of _ p] bexI[of _ t]) simp_all
next
  case (tell p ts req r ts')
  have "effect {rq_From req} (drop_task p (ts @ ts') w) w'"
    using tell told.on_box_effect[where w = "drop_task p (ts @ ts') w" and p = p] by simp
  with tell show ?thesis by (intro disjI2 exI[of _ p] bexI[of _ "TAnswer req r"]) simp_all
qed

lemma effect_cases:
  assumes "effect names w w'"
  obtains (quiet) "\<And>q. ws_out (w' q) = ws_out (w q)" "\<And>q. bx_down (w' q) = bx_down (w q)"
  | (message) q n c m where "n \<in> names" "\<not> bx_down (w q)" "WsConMap (w q) n = Some c" "c \<in> ws_live (w q)"
      "ws_out (w' q) = (ws_out (w q))(c := ws_out (w q) c @ [m])" "\<And>q'. q' \<noteq> q \<Longrightarrow> ws_out (w' q') = ws_out (w q')"
      "\<And>q. bx_down (w' q) = bx_down (w q)"
  | (death) q n where "n \<in> names" "\<not> bx_down (w q)" "WsConMap (w q) n = None" "\<And>q. ws_out (w' q) = ws_out (w q)"
      "\<And>q'. q' \<noteq> q \<Longrightarrow> bx_down (w' q') = bx_down (w q')" "bx_down (w' q)"
proof (cases "\<forall>q. ws_out (w' q) = ws_out (w q) \<and> bx_down (w' q) = bx_down (w q)")
  case True
  with quiet show ?thesis by blast
next
  case False
  with assms obtain q n where qn: "n \<in> names" "\<not> bx_down (w q)"
    and rest: "\<And>q'. q' \<noteq> q \<Longrightarrow> ws_out (w' q') = ws_out (w q') \<and> bx_down (w' q') = bx_down (w q')"
    and c: "case WsConMap (w q) n of
            None \<Rightarrow> bx_down (w' q) \<and> ws_out (w' q) = ws_out (w q)
          | Some c \<Rightarrow> \<not> bx_down (w' q) \<and> c \<in> ws_live (w q) \<and> (\<exists>m. ws_out (w' q) = (ws_out (w q))(c := ws_out (w q) c @ [m]))"
    unfolding effect_def by blast
  show ?thesis
  proof (cases "WsConMap (w q) n")
    case None
    with c have "bx_down (w' q)" "ws_out (w' q) = ws_out (w q)" by simp_all
    with qn None rest death[of n q] show ?thesis by metis
  next
    case (Some c')
    with c obtain m where "\<not> bx_down (w' q)" "c' \<in> ws_live (w q)" "ws_out (w' q) = (ws_out (w q))(c' := ws_out (w q) c' @ [m])"
      by auto
    with qn Some rest message[of n q c' m] show ?thesis by metis
  qed
qed

lemma effect_mono:
  assumes "effect names w w'"
  shows "set (ws_out (w q) c) \<subseteq> set (ws_out (w' q) c)"
  using assms
proof (cases rule: effect_cases)
  case (message p n d m)
  then show ?thesis by (cases "q = p") auto
qed simp_all

lemma wstep_mono:
  assumes "wstep e ops pe w w'" and "json_ok e" and "peers_ok pe"
  shows "set (ws_out (w q) c) \<subseteq> set (ws_out (w' q) c)"
  using wstep_effect[OF assms] effect_mono by (metis order_refl)

section \<open>Answers are true\<close>

definition delivered :: "'n box_env \<Rightarrow> ('i, 'm) peer_env \<Rightarrow> 'i \<Rightarrow> 'n Req \<Rightarrow> ('i, 'n, 'db) world \<Rightarrow> bool" where
  "delivered e pe p req w \<longleftrightarrow>
     (\<exists>q c. remote_peer pe p req = Some q \<and> marshal_text e (enc_Req req) \<in> set (ws_out (w q) c))"

definition answers_true :: "'n box_env \<Rightarrow> ('i, 'm) peer_env \<Rightarrow> ('i, 'n, 'db) world \<Rightarrow> bool" where
  "answers_true e pe w \<longleftrightarrow>
     (\<forall>p req s. TAnswer req (Inr s) \<in> set (bx_tasks (w p)) \<longrightarrow> delivered e pe p req w)"

lemma SendRequest_delivers:
  assumes "json_ok e" and "errors_ok e" and "SendRequest e ne q req w = (Inr s, w')"
  shows "\<exists>c. marshal_text e (enc_Req req) \<in> set (ws_out (w' q) c)"
  using assms(3)
proof (cases rule: SendRequest_cases)
  case (served data reply)
  have nl: "newline \<notin> set data" using assms(1) served(1) unfolding json_ok_def by blast
  have d: "marshal_text e (enc_Req req) = data" using served(1) by (simp add: marshal_text_def)
  have true: "prefix ''true'' reply" using served(5) by simp
  from served(4) show ?thesis
  proof (cases rule: serve_cases)
    case same
    with true obtain err where "reply = relay_Send err" and
      err: "err = ''EOF'' \<or> err = ws_error e \<or> (\<exists>s k x. jv_get e s k = (x, Some err))" by auto
    with true true_reply have "prefix ''true'' err" by blast
    with err assms(2) not_true_EOF show ?thesis unfolding errors_ok_def by blast
  next
    case crash
    with true show ?thesis by simp
  next
    case (written str c)
    then show ?thesis using whole_line[OF nl written(2)] d by (intro exI[of _ c]) simp
  qed
qed simp

lemma Add_qr_local_tasks:
  assumes "remote_peer pe p req = None"
  shows "bx_tasks (Add_qr e pe ne p req w q) = bx_tasks (w q)"
proof (cases "ParseBootstrapPeers2 pe [rq_RemotePeer req]")
  case (Inl err)
  then show ?thesis by (simp add: Add_qr_def parse_told.on_box_tasks)
next
  case (Inr rps)
  show ?thesis
  proof (cases rps)
    case Nil
    with Inr show ?thesis by (simp add: Add_qr_def on_box_def)
  next
    case (Cons rp rest)
    with Inr assms have "ai_ID rp = p" by (simp add: remote_peer_def split: if_splits)
    with Inr Cons show ?thesis by (simp add: Add_qr_def local_sent.on_box_tasks)
  qed
qed

lemma SendRequest_tasks:
  assumes "SendRequest e ne q req w = (r, w')"
  shows "bx_tasks (w' p) = bx_tasks (w p)"
  using assms
proof (cases rule: SendRequest_cases)
  case (served data reply)
  from served(4) show ?thesis by (cases rule: serve_cases) simp_all
qed simp

lemma wstep_answers:
  fixes w w' :: "('i, 'n, 'db) world"
  assumes "wstep e ops pe w w'" and "TAnswer req r \<in> set (bx_tasks (w' p))"
  shows "TAnswer req r \<in> set (bx_tasks (w p)) \<or>
    (\<exists>q ne v. \<exists>v' :: ('i, 'n, 'db) world. remote_peer pe p req = Some q \<and> SendRequest e ne q req v = (r, v') \<and> (\<forall>q. ws_out (w' q) = ws_out (v' q)))"
  using assms(1)
proof cases
  case (accept p' c)
  with assms(2) show ?thesis by (simp add: ws_accept_def split: if_splits)
next
  case (round p' c rq input)
  with assms(2) show ?thesis by (simp add: ws_round_answers split: if_splits)
next
  case (vanish p' c)
  with assms(2) show ?thesis by (simp split: if_splits)
next
  case (upload p' ts rq ts')
  with assms(2) show ?thesis by (auto simp: upload.on_box_tasks split: if_splits)
next
  case (settle p' ts t ts' rq ne)
  with assms(2) show ?thesis by (auto simp: Add_qr_local_tasks split: if_splits)
next
  case (send p' ts t ts' rq q ne rr w1)
  show ?thesis
  proof (cases "p = p' \<and> TAnswer req r = TAnswer rq rr")
    case True
    with send show ?thesis by (intro disjI2) auto
  next
    case False
    with send assms(2) SendRequest_tasks[OF send(6)] show ?thesis by (auto split: if_splits)
  qed
next
  case (tell p' ts rq rr ts')
  with assms(2) show ?thesis by (auto simp: told.on_box_tasks split: if_splits)
qed

lemma delivered_mono:
  assumes "delivered e pe p req w" and "wstep e ops pe w w'" and "json_ok e" and "peers_ok pe"
  shows "delivered e pe p req w'"
  using assms(1) wstep_mono[OF assms(2-4)] unfolding delivered_def by blast

lemma answers_true_step:
  fixes w w' :: "('i, 'n, 'db) world"
  assumes "wstep e ops pe w w'" and "answers_true e pe w" and ok: "json_ok e" "errors_ok e" "peers_ok pe"
  shows "answers_true e pe w'"
  unfolding answers_true_def
proof (intro allI impI)
  fix p req s assume t: "TAnswer req (Inr s) \<in> set (bx_tasks (w' p))"
  from wstep_answers[OF assms(1) t] show "delivered e pe p req w'"
  proof
    assume "TAnswer req (Inr s) \<in> set (bx_tasks (w p))"
    with assms(2) delivered_mono[OF _ assms(1) ok(1,3)] show ?thesis unfolding answers_true_def by blast
  next
    assume "\<exists>q ne v. \<exists>v' :: ('i, 'n, 'db) world. remote_peer pe p req = Some q \<and> SendRequest e ne q req v = (Inr s, v') \<and> (\<forall>q. ws_out (w' q) = ws_out (v' q))"
    then obtain q ne v and v' :: "('i, 'n, 'db) world" where "remote_peer pe p req = Some q" and sr: "SendRequest e ne q req v = (Inr s, v')"
      and "\<forall>q. ws_out (w' q) = ws_out (v' q)" by blast
    with SendRequest_delivers[OF ok(1,2) sr] show ?thesis unfolding delivered_def by metis
  qed
qed

lemma world_init_answers: "world_init w \<Longrightarrow> answers_true e pe w"
  by (simp add: world_init_def answers_true_def)

end
