(* ===== verification/BoxDelivery.thy ===== *)
theory BoxDelivery
  imports BoxService
begin

text \<open>
  What the box service promises: requests between boxes arrive where they are addressed and their senders are told
  the truth, a step writes one message at most, boxes stay up while their users are known, the user table is
  upserted and the configuration file is created once; and where the code falls short of it.
\<close>

section \<open>Delivery\<close>

text \<open>A request whose parts are values as decoding gives them.\<close>

definition clean :: "'n box_env \<Rightarrow> 'n Req \<Rightarrow> bool" where
  "clean e req \<longleftrightarrow>
     (\<forall>v \<in> {JStr (rq_Protocol req), JStr (rq_From req), JStr (rq_To req), JStr (rq_RemotePeer req), rq_Data req}.
        je_iface e v = Some v)"

definition healthy_net :: "net_env \<Rightarrow> nat \<Rightarrow> bool" where
  "healthy_net ne n \<longleftrightarrow>
     (ne_connected ne \<or> ne_Connect ne = None) \<and> ne_NewStream ne = None \<and> ne_Write ne = None \<and> n < ne_up ne \<and>
     4 < ne_down ne \<and> \<not> ne_deadline ne"

lemma tags_apart:
  "fold_eq ''protocol'' ''protocol''" "\<not> fold_eq ''from'' ''protocol''" "fold_eq ''from'' ''from''"
  "\<not> fold_eq ''to'' ''protocol''" "\<not> fold_eq ''to'' ''from''" "fold_eq ''to'' ''to''"
  "\<not> fold_eq ''remotePeer'' ''protocol''" "\<not> fold_eq ''remotePeer'' ''from''" "\<not> fold_eq ''remotePeer'' ''to''"
  "fold_eq ''remotePeer'' ''remotePeer''"
  "\<not> fold_eq ''data'' ''protocol''" "\<not> fold_eq ''data'' ''from''" "\<not> fold_eq ''data'' ''to''"
  "\<not> fold_eq ''data'' ''remotePeer''" "fold_eq ''data'' ''data''"
  by code_simp+

lemma marshal_Req:
  assumes "json_ok e" and "clean e req"
  obtains s where "je_marshal e (enc_Req req) = Inr s" "marshal_text e (enc_Req req) = s" "newline \<notin> set s"
    "je_parse e s = Some (enc_Req req)" "\<And>r0. Unmarshal e s r0 = (True, req)"
proof -
  let ?ms = "[(''protocol'', JStr (rq_Protocol req)), (''from'', JStr (rq_From req)), (''to'', JStr (rq_To req)),
     (''remotePeer'', JStr (rq_RemotePeer req)), (''data'', rq_Data req)]"
  have "distinct (map fst ?ms)" by simp
  moreover have "\<forall>kv \<in> set ?ms. je_iface e (snd kv) = Some (snd kv)" using assms(2) by (simp add: clean_def)
  ultimately obtain s where s: "je_marshal e (JObj ?ms) = Inr s" "je_parse e s = Some (JObj ?ms)"
    using assms(1) unfolding json_ok_def by blast
  have d: "je_iface e (rq_Data req) = Some (rq_Data req)" using assms(2) by (simp add: clean_def)
  have "Unmarshal e s r0 = (True, req)" for r0
    unfolding Unmarshal_def s(2) by (simp add: dec_member_def set_str_def tags_apart d)
  moreover have "newline \<notin> set s" using assms(1) s(1) unfolding json_ok_def by blast
  ultimately show ?thesis using that[of s] s by (simp add: enc_Req_def marshal_text_def)
qed

lemma relayed_to_clean:
  assumes "json_ok e" and "jv_ok e" and "clean e req"
  shows "jv_get e (marshal_text e (enc_Req req)) ''to'' = (rq_To req, None)"
proof -
  from marshal_Req[OF assms(1,3)] obtain s where s: "marshal_text e (enc_Req req) = s" "je_parse e s = Some (enc_Req req)" by metis
  let ?ms = "[(''protocol'', JStr (rq_Protocol req)), (''from'', JStr (rq_From req)), (''to'', JStr (rq_To req)),
     (''remotePeer'', JStr (rq_RemotePeer req)), (''data'', rq_Data req)]"
  have "je_parse e s = Some (JObj ?ms)" "distinct (map fst ?ms)" "(''to'', JStr (rq_To req)) \<in> set ?ms"
    using s(2) by (simp_all add: enc_Req_def)
  with assms(2) show ?thesis unfolding jv_ok_def s(1) by blast
qed

text \<open>A connection with one more message.\<close>

definition got :: "nat \<Rightarrow> string \<Rightarrow> ('n, 'db) box \<Rightarrow> ('n, 'db) box" where
  "got c m b = b\<lparr>ws_out := (ws_out b)(c := ws_out b c @ [m])\<rparr>"

lemma SendRequest_healthy:
  assumes ok: "json_ok e" "jv_ok e" "clean e req" and q: "\<not> bx_down (w q)" "WsConMap (w q) (rq_To req) = Some c" "c \<in> ws_live (w q)"
    and ne: "healthy_net ne (length (marshal_text e (enc_Req req)))"
  shows "SendRequest e ne q req w = (Inr ''true'', w(q := got c (marshal_text e (enc_Req req)) (w q)))"
proof -
  from marshal_Req[OF ok(1,3)] obtain s where s: "je_marshal e (enc_Req req) = Inr s" "marshal_text e (enc_Req req) = s" "newline \<notin> set s"
    by metis
  have full: "take (ne_up ne) (s @ [newline]) = s @ [newline]" using ne s(2) by (simp add: healthy_net_def Suc_le_eq)
  have "ReadString (s @ [newline]) = (s @ [newline], None)" using ReadString_line[OF s(3), of "[]"] by simp
  then have "relay e (s @ [newline]) (w q) = Some (relay_Send ''true'', got c s (w q))"
    using relayed_to_clean[OF ok] q s(2) by (simp add: relay_def Let_def WriteMessage_def got_def)
  then have serve: "serve e q (s @ [newline]) w = (relay_Send ''true'', w(q := got c s (w q)))"
    using q(1) by (simp add: serve_def)
  have "take (ne_down ne) (relay_Send ''true'') = ''true'' @ [newline]"
    using ne by (simp add: relay_Send_def healthy_net_def)
  moreover have "ReadString (''true'' @ [newline]) = (''true'' @ [newline], None)"
    using ReadString_line[of "''true''" "[]"] by (simp add: newline_def)
  moreover have "trim_suffix (''true'' @ [newline]) [newline] = ''true''" by (rule trim_suffix_append)
  ultimately show ?thesis using ne s serve full by (simp add: SendRequest_def Let_def healthy_net_def)
qed

section \<open>A codec\<close>

text \<open>
  An encoding of flat objects for the witnesses: the characters of a string are written as two letters each,
  members are separated by semicolons.
\<close>

definition hex_char :: "char \<Rightarrow> string" where
  "hex_char c = [char_of (65 + (of_char c :: nat) div 16), char_of (65 + (of_char c :: nat) mod 16)]"

fun unhex :: "string \<Rightarrow> string" where
  "unhex (a # b # s) = char_of (((of_char a :: nat) - 65) * 16 + (of_char b - 65)) # unhex s"
| "unhex _ = []"

definition hex :: "string \<Rightarrow> string" where
  "hex s = concat (map hex_char s)"

fun enc_val :: "'n json \<Rightarrow> string option" where
  "enc_val (JStr s) = Some (CHR ''S'' # hex s)"
| "enc_val JNull = Some ''N''"
| "enc_val (JBool b) = Some (if b then ''T'' else ''F'')"
| "enc_val _ = None"

definition dec_val :: "string \<Rightarrow> 'n json" where
  "dec_val s = (if s = ''N'' then JNull else if s = ''T'' then JBool True else if s = ''F'' then JBool False else JStr (unhex (tl s)))"

fun enc_members :: "(string \<times> 'n json) list \<Rightarrow> string list option" where
  "enc_members [] = Some []"
| "enc_members ((k, v) # ms) =
     (case (enc_val v, enc_members ms) of (Some x, Some xs) \<Rightarrow> Some ((hex k @ CHR '':'' # x) # xs) | _ \<Rightarrow> None)"

definition dec_one :: "string \<Rightarrow> string \<times> 'n json" where
  "dec_one s = (case split_on CHR '':'' s of [k, v] \<Rightarrow> (unhex k, dec_val v) | _ \<Rightarrow> ([], JNull))"

definition demo_parse :: "string \<Rightarrow> 'n json option" where
  "demo_parse s = Some (JObj (if s = [] then [] else map dec_one (split_on CHR '';'' s)))"

definition demo_marshal :: "'n json \<Rightarrow> string + string" where
  "demo_marshal v =
     (case v of JObj ms \<Rightarrow> (case enc_members ms of None \<Rightarrow> Inl ''unsupported'' | Some xs \<Rightarrow> Inr (join_with '';'' xs)) | _ \<Rightarrow> Inl ''unsupported'')"

definition demo_get :: "string \<Rightarrow> string \<Rightarrow> string \<times> string option" where
  "demo_get s k =
     (case demo_parse s :: nat json option of
        Some (JObj ms) \<Rightarrow> (case map_of ms k of Some (JStr x) \<Rightarrow> (x, None) | _ \<Rightarrow> ([], Some ''not found''))
      | _ \<Rightarrow> ([], Some ''not found''))"

definition demo_env :: "nat box_env" where
  "demo_env = \<lparr>je_parse = demo_parse, je_marshal = demo_marshal,
     je_iface = (\<lambda>v. if enc_val v = None then None else Some v), jv_get = demo_get, Errorf = (\<lambda>s. s),
     ws_error = ''websocket: close sent'', http_ip = Some ''10.0.0.1'', host_addrs = [''/ip4/127.0.0.1/tcp/4001''],
     host_id = ''QmBox''\<rparr>"

lemma of_char_256: "(of_char d :: nat) < 256"
  by (metis of_char_mod_256 mod_less_divisor zero_less_numeral)

lemma of_hex: "(of_char d :: nat) div 16 < 16" "(of_char d :: nat) mod 16 < 16"
  using of_char_256[of d] by (simp_all add: less_mult_imp_div_less)

lemma hex_plain: "c \<in> set (hex s) \<Longrightarrow> c \<notin> {CHR '';'', CHR '':'', newline}"
proof -
  assume "c \<in> set (hex s)"
  then obtain d where "c = char_of (65 + (of_char d :: nat) div 16) \<or> c = char_of (65 + (of_char d :: nat) mod 16)"
    by (auto simp: hex_def hex_char_def)
  then have "(of_char c :: nat) = 65 + of_char d div 16 \<or> (of_char c :: nat) = 65 + of_char d mod 16"
    using of_hex[of d] by auto
  then have "65 \<le> (of_char c :: nat)" by auto
  then show ?thesis by (auto simp: newline_def)
qed

lemma unhex_hex [simp]: "unhex (hex s) = s"
proof (induction s)
  case (Cons d s)
  have "(of_char (char_of (65 + (of_char d :: nat) div 16)) :: nat) = 65 + of_char d div 16"
    "(of_char (char_of (65 + (of_char d :: nat) mod 16)) :: nat) = 65 + of_char d mod 16"
    using of_hex[of d] by simp_all
  with Cons show ?case by (simp add: hex_def hex_char_def div_mult_mod_eq del: of_char_of)
qed (simp add: hex_def)

lemma enc_val_plain: "enc_val v = Some x \<Longrightarrow> c \<in> set x \<Longrightarrow> c \<notin> {CHR '';'', CHR '':'', newline}"
  by (cases v rule: enc_val.cases) (auto simp: newline_def dest: hex_plain[unfolded newline_def] split: if_splits)

lemma dec_enc_val: "enc_val v = Some x \<Longrightarrow> dec_val x = v"
  by (cases v rule: enc_val.cases) (auto simp: dec_val_def split: if_splits)

lemma dec_one_enc: "enc_val v = Some x \<Longrightarrow> dec_one (hex k @ CHR '':'' # x) = (k, v)"
proof -
  assume v: "enc_val v = Some x"
  have "CHR '':'' \<notin> set (hex k)" "CHR '':'' \<notin> set x" using hex_plain enc_val_plain[OF v] by blast+
  then have "split_on CHR '':'' (hex k @ CHR '':'' # x) = [hex k, x]" by (simp add: split_on_append split_on_id)
  then show ?thesis using dec_enc_val[OF v] by (simp add: dec_one_def)
qed

lemma enc_members_some:
  "\<forall>kv \<in> set ms. enc_val (snd kv) \<noteq> None \<Longrightarrow>
   \<exists>xs. enc_members ms = Some xs \<and> map dec_one xs = ms"
proof (induction ms)
  case (Cons kv ms)
  obtain k v where kv: "kv = (k, v)" by fastforce
  with Cons obtain x xs where "enc_val v = Some x" "enc_members ms = Some xs" "map dec_one xs = ms" by auto
  with kv dec_one_enc[of v x k] show ?case by simp
qed simp

lemma enc_members_plain:
  "enc_members ms = Some xs \<Longrightarrow> x \<in> set xs \<Longrightarrow> CHR '';'' \<notin> set x \<and> newline \<notin> set x \<and> x \<noteq> []"
proof (induction ms arbitrary: xs)
  case (Cons kv ms)
  obtain k v where kv: "kv = (k, v)" by fastforce
  with Cons.prems obtain y ys where y: "enc_val v = Some y" "enc_members ms = Some ys" "xs = (hex k @ CHR '':'' # y) # ys"
    by (auto split: option.splits)
  have p: "CHR '';'' \<notin> set (hex k)" "newline \<notin> set (hex k)" "CHR '';'' \<notin> set y" "newline \<notin> set y"
    using hex_plain enc_val_plain[OF y(1)] by blast+
  moreover have "newline \<noteq> CHR '':''" by (simp add: newline_def)
  ultimately show ?case using Cons y by auto
qed simp

lemma set_join_with: "c \<in> set (join_with s xs) \<Longrightarrow> c \<in> set s \<or> (\<exists>x \<in> set xs. c \<in> set x)"
  by (induction s xs rule: join_with.induct) auto

lemma demo_marshal_line:
  fixes v :: "'n json"
  assumes "demo_marshal v = Inr s"
  shows "newline \<notin> set s"
proof -
  from assms obtain ms :: "(string \<times> 'n json) list" and xs where "enc_members ms = Some xs" "s = join_with '';'' xs"
    by (auto simp: demo_marshal_def split: json.splits option.splits)
  then show ?thesis using enc_members_plain set_join_with[of newline "'';''" xs] by (auto simp: newline_def)
qed

lemma demo_parse_marshal:
  assumes "\<forall>kv \<in> set ms. enc_val (snd kv) \<noteq> None"
  shows "\<exists>s. demo_marshal (JObj ms) = Inr s \<and> demo_parse s = Some (JObj ms)"
proof -
  from enc_members_some[OF assms] obtain xs where xs: "enc_members ms = Some xs" "map dec_one xs = ms" by blast
  have "demo_parse (join_with '';'' xs) = Some (JObj ms)"
  proof (cases xs)
    case Nil
    with xs(2) show ?thesis by (simp add: demo_parse_def)
  next
    case (Cons x ys)
    then have "x \<noteq> []" using enc_members_plain[OF xs(1)] by simp
    then have "join_with '';'' xs \<noteq> []" using Cons by (cases ys) auto
    moreover have "split_on CHR '';'' (join_with '';'' xs) = xs" using Cons enc_members_plain[OF xs(1)] by (intro split_join) auto
    ultimately show ?thesis using xs(2) by (simp add: demo_parse_def)
  qed
  then show ?thesis using xs(1) by (simp add: demo_marshal_def)
qed

lemma demo_env_ok: "json_ok demo_env" "jv_ok demo_env" "errors_ok demo_env"
proof -
  show "json_ok demo_env" unfolding json_ok_def demo_env_def
    using demo_marshal_line demo_parse_marshal by (auto split: if_splits)
  have "x \<noteq> (y, Some err) \<or> err = ''not found''" if "x = demo_get s k" for x y err s k
    using that by (auto simp: demo_get_def split: option.splits json.splits)
  then have "err = ''not found''" if "demo_get s k = (x, Some err)" for s k x err using that by metis
  then show "errors_ok demo_env" unfolding errors_ok_def demo_env_def by force
  show "jv_ok demo_env" unfolding jv_ok_def
  proof (intro allI impI)
    fix s ms k x
    assume "je_parse demo_env s = Some (JObj ms)" "distinct (map fst ms)" "(k, JStr x) \<in> set ms"
    then show "jv_get demo_env s k = (x, None)" by (simp add: demo_env_def demo_get_def map_of_eq_Some_iff)
  qed
qed

lemma demo_clean [simp]: "clean demo_env \<lparr>rq_Protocol = a, rq_From = b, rq_To = c, rq_RemotePeer = d, rq_Data = JNull\<rparr>"
  by (simp add: clean_def demo_env_def)

definition demo_peer_env :: "(nat, string) peer_env" where
  "demo_peer_env = \<lparr>NewMultiaddr = (\<lambda>s. if s = [] then Inl ''empty multiaddr'' else Inr s), ma_String = (\<lambda>m. m),
     SplitLast = (\<lambda>m. (None, None)), P_P2P = 421, AddrInfosFromP2pAddrs = (\<lambda>ms. Inr (map (\<lambda>m. \<lparr>ai_ID = length m, ai_Addrs = [m]\<rparr>) ms)),
     AddrInfoToP2pAddrs = (\<lambda>a. Inr (ai_Addrs a))\<rparr>"

definition empty_box :: "(nat, User list) box" where
  "empty_box = \<lparr>WsConMap = Map.empty, ws_live = {}, ws_loops = Map.empty, ws_out = (\<lambda>_. []), bx_tasks = [], bx_db = [],
     publicIP = [], bx_down = False\<rparr>"

text \<open>The box of a user with one connection.\<close>

definition user_box :: "string \<Rightarrow> nat Req \<Rightarrow> nat task list \<Rightarrow> (nat, User list) box" where
  "user_box name req ts = empty_box\<lparr>WsConMap := [name \<mapsto> 7], ws_live := {7}, ws_loops := [7 \<mapsto> req], bx_tasks := ts\<rparr>"

definition bob_hello :: "nat Req" where
  "bob_hello = \<lparr>rq_Protocol = [], rq_From = ''bob'', rq_To = [], rq_RemotePeer = [], rq_Data = JNull\<rparr>"

definition alice_asks :: "nat Req" where
  "alice_asks = \<lparr>rq_Protocol = ''/user/add_qr'', rq_From = ''alice'', rq_To = ''bob'', rq_RemotePeer = ''b'', rq_Data = JNull\<rparr>"

definition good_net :: net_env where
  "good_net = \<lparr>ne_connected = True, ne_Connect = None, ne_NewStream = None, ne_Write = None, ne_up = 1000, ne_down = 1000, ne_deadline = False\<rparr>"

lemma demo_peers: "peers_ok demo_peer_env" "remote_peer demo_peer_env 0 alice_asks = Some 1"
  by (simp_all add: peers_ok_def demo_peer_env_def remote_peer_def ParseBootstrapPeers2_def alice_asks_def)

lemma demo_length: "length (marshal_text demo_env (enc_Req alice_asks)) < 1000"
  by code_simp

text \<open>Both users log in, and Alice's request is waiting.\<close>

lemma demo_login:
  assumes "clean demo_env req"
  shows "ws_round demo_env 7 zero_Req (Some (marshal_text demo_env (enc_Req req))) (ws_accept 7 empty_box) =
    user_box (rq_From req) req (initWsRoute req (marshal_text demo_env (enc_Req req)))"
proof -
  from marshal_Req[OF demo_env_ok(1) assms] have "Unmarshal demo_env (marshal_text demo_env (enc_Req req)) zero_Req = (True, req)" by metis
  then show ?thesis by (simp add: ws_round_def ws_accept_def user_box_def empty_box_def)
qed

lemma demo_reach:
  "reachable world_init (wstep demo_env ops demo_peer_env)
     ((\<lambda>_. empty_box)(1 := user_box ''bob'' bob_hello [], 0 := user_box ''alice'' alice_asks [TAdd_qr alice_asks]))"
proof -
  let ?R = "reachable world_init (wstep demo_env ops demo_peer_env)"
  let ?w0 = "\<lambda>_ :: nat. empty_box"
  let ?w1 = "?w0(1 := ws_accept 7 empty_box)"
  let ?w2 = "?w0(1 := user_box ''bob'' bob_hello [])"
  let ?w3 = "?w2(0 := ws_accept 7 empty_box)"
  have r0: "?R ?w0" by (rule reachable.start) (simp add: world_init_def empty_box_def)
  have r1: "?R ?w1" using r0 wstep.accept[of ?w0 1 7] by (auto simp: empty_box_def intro: reachable.step)
  have "wstep demo_env ops demo_peer_env ?w1 (?w1(1 := ws_round demo_env 7 zero_Req (Some (marshal_text demo_env (enc_Req bob_hello))) (?w1 1)))"
    by (rule wstep.round) (simp_all add: ws_accept_def empty_box_def)
  moreover have "clean demo_env bob_hello" "clean demo_env alice_asks" by (simp_all add: bob_hello_def alice_asks_def)
  ultimately have r2: "?R ?w2" using reachable.step[OF r1] by (simp add: demo_login, simp add: bob_hello_def initWsRoute_def)
  have r3: "?R ?w3" using r2 wstep.accept[of ?w2 0 7] by (auto simp: empty_box_def intro: reachable.step)
  have "wstep demo_env ops demo_peer_env ?w3 (?w3(0 := ws_round demo_env 7 zero_Req (Some (marshal_text demo_env (enc_Req alice_asks))) (?w3 0)))"
    by (rule wstep.round) (simp_all add: ws_accept_def empty_box_def)
  with \<open>clean demo_env alice_asks\<close> show ?thesis
    using reachable.step[OF r3] by (simp add: demo_login, simp add: alice_asks_def initWsRoute_def)
qed

text \<open>The step the witnesses use: Alice's request is relayed.\<close>

lemma demo_send:
  "\<exists>w' :: nat \<Rightarrow> (nat, User list) box.
     wstep demo_env ops demo_peer_env
       ((\<lambda>_. empty_box)(1 := user_box ''bob'' bob_hello [], 0 := user_box ''alice'' alice_asks [TAdd_qr alice_asks])) w' \<and>
     reachable world_init (wstep demo_env ops demo_peer_env) w' \<and>
     TAnswer alice_asks (Inr ''true'') \<in> set (bx_tasks (w' 0)) \<and> ws_out (w' 1) 7 = [marshal_text demo_env (enc_Req alice_asks)]"
proof -
  define w where "w = (\<lambda>_ :: nat. empty_box)(1 := user_box ''bob'' bob_hello [], 0 := user_box ''alice'' alice_asks [TAdd_qr alice_asks])"
  define v where "v = drop_task 0 ([] @ []) w"
  define v' where "v' = v(1 := got 7 (marshal_text demo_env (enc_Req alice_asks)) (v 1))"
  define u where "u = add_task 0 (TAnswer alice_asks (Inr ''true'')) v'"
  have w: "w 0 = user_box ''alice'' alice_asks [TAdd_qr alice_asks]" "v 1 = user_box ''bob'' bob_hello []"
    by (simp_all add: w_def v_def drop_task_def)
  have c: "clean demo_env alice_asks" by (simp add: alice_asks_def)
  have "healthy_net good_net (length (marshal_text demo_env (enc_Req alice_asks)))"
    using demo_length by (simp add: healthy_net_def good_net_def)
  then have sr: "SendRequest demo_env good_net 1 alice_asks v = (Inr ''true'', v')"
    unfolding v'_def by (intro SendRequest_healthy[OF demo_env_ok(1,2) c]) (simp_all add: w user_box_def empty_box_def alice_asks_def del: One_nat_def)
  have s: "wstep demo_env ops demo_peer_env w u" unfolding u_def
    by (rule wstep.send[where t = "TAdd_qr alice_asks" and ts = "[]" and ts' = "[]", OF _ _ _ demo_peers(2) sr[unfolded v_def]])
      (simp_all add: w user_box_def empty_box_def)
  have o: "ws_out (u 1) 7 = [marshal_text demo_env (enc_Req alice_asks)]"
    by (simp add: u_def v'_def got_def w(2) user_box_def empty_box_def del: One_nat_def)
  have t: "TAnswer alice_asks (Inr ''true'') \<in> set (bx_tasks (u 0))" by (simp add: u_def)
  have "reachable world_init (wstep demo_env ops demo_peer_env) u" 
    using reachable.step[OF demo_reach[of ops, folded w_def]] s by blast
  with s o t show ?thesis unfolding w_def[symmetric] by blast
qed

section \<open>Properties\<close>

text \<open>
  C5. A user is told that a request for a user of another box went through only when it has: in every world the
  boxes can reach, whatever the network does, a goroutine about to answer success has had its request written
  to a client's connection by the box the request names, and that message stays in what the client was sent.
\<close>

theorem relay_confirmed:
  assumes "json_ok e" and "errors_ok e" and "peers_ok pe"
    and "reachable world_init (wstep e ops pe) w" and "TAnswer req (Inr s) \<in> set (bx_tasks (w p))"
  shows "\<exists>q c. remote_peer pe p req = Some q \<and> marshal_text e (enc_Req req) \<in> set (ws_out (w q) c)"
proof -
  from assms(4) have "answers_true e pe w"
    by (induction rule: reachable.induct) (auto intro: world_init_answers answers_true_step assms(1-3))
  with assms(5) show ?thesis unfolding answers_true_def delivered_def by blast
qed

theorem relay_confirmed_witness:
  "\<exists>w :: nat \<Rightarrow> (nat, User list) box. TAnswer alice_asks (Inr ''true'') \<in> set (bx_tasks (w 0)) \<and>
     (\<exists>q c. remote_peer demo_peer_env 0 alice_asks = Some q \<and> marshal_text demo_env (enc_Req alice_asks) \<in> set (ws_out (w q) c))"
proof -
  fix ops :: "User list db_ops"
  from demo_send[of ops] obtain w :: "nat \<Rightarrow> (nat, User list) box" where
    r: "reachable world_init (wstep demo_env ops demo_peer_env) w" and t: "TAnswer alice_asks (Inr ''true'') \<in> set (bx_tasks (w 0))" by blast
  show ?thesis using t relay_confirmed[OF demo_env_ok(1,3) demo_peers(1) r t] by blast
qed

text \<open>
  A step of the world writes at most one message, and only to a live connection registered under the name
  the message is for: the addressee a relay reads from the request, or a party of the request at its own box.
\<close>

theorem hub_one_message:
  assumes "wstep e ops pe w w'" and "json_ok e" and "peers_ok pe" and "ws_out (w' q) c \<noteq> ws_out (w q) c"
  shows "\<exists>p m. \<exists>t \<in> set (bx_tasks (w p)). \<exists>n \<in> addressees e t. WsConMap (w q) n = Some c \<and> c \<in> ws_live (w q) \<and>
    ws_out (w' q) = (ws_out (w q))(c := ws_out (w q) c @ [m]) \<and> (\<forall>q'. q' \<noteq> q \<longrightarrow> ws_out (w' q') = ws_out (w q'))"
proof -
  from wstep_effect[OF assms(1-3)] assms(4) obtain p t where t: "t \<in> set (bx_tasks (w p))" and ef: "effect (addressees e t) w w'"
    by auto
  from ef show ?thesis
  proof (cases rule: effect_cases)
    case (message q0 n c0 m)
    with assms(4) have "q0 = q" "c0 = c" by (metis fun_upd_other)+
    with message t show ?thesis by blast
  qed (use assms(4) in simp_all)
qed

theorem hub_one_message_witness:
  "\<exists>w' :: nat \<Rightarrow> (nat, User list) box. ws_out (w' 1) 7 = [marshal_text demo_env (enc_Req alice_asks)] \<and>
     (\<exists>m. ws_out (w' 1) = (\<lambda>_. [])(7 := [m])) \<and> (\<forall>q. q \<noteq> 1 \<longrightarrow> ws_out (w' q) = (\<lambda>_. []))"
proof -
  fix ops :: "User list db_ops"
  define w where "w = (\<lambda>_ :: nat. empty_box)(1 := user_box ''bob'' bob_hello [], 0 := user_box ''alice'' alice_asks [TAdd_qr alice_asks])"
  have out: "ws_out (w q) = (\<lambda>_. [])" for q by (simp add: w_def user_box_def empty_box_def)
  from demo_send[of ops, folded w_def] obtain w' :: "nat \<Rightarrow> (nat, User list) box" where s: "wstep demo_env ops demo_peer_env w w'"
    and o: "ws_out (w' 1) 7 = [marshal_text demo_env (enc_Req alice_asks)]" by blast
  have "ws_out (w' 1) 7 \<noteq> ws_out (w 1) 7" unfolding out o by simp
  from hub_one_message[OF s demo_env_ok(1) demo_peers(1) this] obtain m where
    "ws_out (w' 1) = (\<lambda>_. [])(7 := [m])" "\<forall>q'. q' \<noteq> 1 \<longrightarrow> ws_out (w' q') = (\<lambda>_. [])" unfolding out by auto
  with o show ?thesis by blast
qed



text \<open>
  C15. End to end: over a working network a request for a user of another box is written once, to the connection
  registered under that user's name there, in a form from which the user's client reads exactly the request;
  the sender is told of the success on its own connection, and nothing else changes anywhere.
\<close>

theorem Add_qr_delivers:
  assumes ok: "json_ok e" "jv_ok e" "clean e req" and q: "remote_peer pe p req = Some q" "\<not> bx_down (w q)"
    and to: "WsConMap (w q) (rq_To req) = Some c" "c \<in> ws_live (w q)"
    and sender: "WsConMap (w p) (rq_From req) = Some d" "d \<in> ws_live (w p)"
    and ne: "healthy_net ne (length (marshal_text e (enc_Req req)))"
  shows "Add_qr e pe ne p req w =
      w(q := got c (marshal_text e (enc_Req req)) (w q),
        p := got d (marshal_text e (enc_Res (zero_Res\<lparr>rs_Protocol := rq_Protocol req, rs_From := rq_To req, rs_Code := True\<rparr>))) (w p)) \<and>
    Unmarshal e (marshal_text e (enc_Req req)) zero_Req = (True, req)"
proof -
  from q(1) obtain rp rest where rp: "ParseBootstrapPeers2 pe [rq_RemotePeer req] = Inr (rp # rest)" "ai_ID rp = q" "q \<noteq> p"
    by (auto simp: remote_peer_def split: sum.splits list.splits if_splits)
  from marshal_Req[OF ok(1,3)] have "Unmarshal e (marshal_text e (enc_Req req)) zero_Req = (True, req)" by metis
  moreover have "Add_qr e pe ne p req w =
      on_box p (tell_outcome e req (Inr ''true'')) (w(q := got c (marshal_text e (enc_Req req)) (w q)))"
    using rp SendRequest_healthy[where w = w and q = q, OF ok q(2) to ne] by (simp add: Add_qr_def)
  moreover have "(w(q := b)) p = w p" for b using rp(3) by simp
  ultimately show ?thesis using sender
    by (simp add: on_box_def tell_outcome_def answer_def SendWsMsg_def WriteMessage_def got_def)
qed

theorem Add_qr_delivers_witness:
  "let w = (\<lambda>_ :: nat. empty_box)(1 := user_box ''bob'' bob_hello [], 0 := user_box ''alice'' alice_asks []);
       w' = Add_qr demo_env demo_peer_env good_net 0 alice_asks w
   in ws_out (w' 1) 7 = [marshal_text demo_env (enc_Req alice_asks)] \<and> length (ws_out (w' 0) 7) = 1"
proof -
  define w where "w = (\<lambda>_ :: nat. empty_box)(1 := user_box ''bob'' bob_hello [], 0 := user_box ''alice'' alice_asks [])"
  have b: "w 0 = user_box ''alice'' alice_asks []" "w 1 = user_box ''bob'' bob_hello []" by (simp_all add: w_def)
  have c: "clean demo_env alice_asks" by (simp add: alice_asks_def)
  have n: "healthy_net good_net (length (marshal_text demo_env (enc_Req alice_asks)))"
    using demo_length by (simp add: healthy_net_def good_net_def)
  have f: "\<not> bx_down (w 1)" "WsConMap (w 1) (rq_To alice_asks) = Some 7" "7 \<in> ws_live (w 1)"
    "WsConMap (w 0) (rq_From alice_asks) = Some 7" "7 \<in> ws_live (w 0)"
    unfolding b by (simp_all add: user_box_def empty_box_def alice_asks_def)
  from Add_qr_delivers[OF demo_env_ok(1,2) c demo_peers(2) f n] show ?thesis
    unfolding Let_def w_def[symmetric] by (simp add: got_def b user_box_def empty_box_def del: One_nat_def)
qed

text \<open>
  Between two users of the same box the request is written once, to the connection of the addressee, and
  the sender is not written to.
\<close>

theorem send_local_exact:
  assumes "WsConMap b (rq_To req) = Some c" and "c \<in> ws_live b"
  shows "send_local e req b = Some (got c (marshal_text e (enc_Req req)) b)"
  using assms by (simp add: send_local_def SendWsMsg_def WriteMessage_def got_def)

theorem send_local_exact_witness:
  "send_local demo_env alice_asks (user_box ''bob'' bob_hello []) =
     Some (got 7 (marshal_text demo_env (enc_Req alice_asks)) (user_box ''bob'' bob_hello []))"
  by (rule send_local_exact) (simp_all add: user_box_def alice_asks_def)

text \<open>
  Uploading one's data is an upsert: after a successful insertion the user's row is what was given,
  whether or not there was one, every other row is as before, and a failed one changes no row.
\<close>

theorem InserUserInfo_upsert:
  assumes "db_ok ops" and "us_Id u \<noteq> []" and "InserUserInfo ops u db = (err, db')"
  shows "(err = None \<longrightarrow> GetUserInfo ops (us_Id u) db' = (u, None)) \<and>
    (\<forall>k. k \<noteq> us_Id u \<or> err \<noteq> None \<longrightarrow> GetUserInfo ops k db' = GetUserInfo ops k db)"
proof (cases "db_Create ops u db")
  case (Pair cerr db1)
  show ?thesis
  proof (cases cerr)
    case None
    with Pair assms(3) have "db_Create ops u db = (None, db')" "err = None" by (simp_all add: InserUserInfo_def)
    with assms(1,2) have "db_First ops (us_Id u) db' = Inr u" "\<And>k. k \<noteq> us_Id u \<Longrightarrow> db_First ops k db' = db_First ops k db"
      unfolding db_ok_def by blast+
    with \<open>err = None\<close> show ?thesis by (simp add: GetUserInfo_def)
  next
    case (Some x)
    with Pair assms(3) have s: "db_Save ops u db1 = (err, db')" by (simp add: InserUserInfo_def)
    have k1: "db_First ops k db1 = db_First ops k db" for k using assms(1) Pair Some unfolding db_ok_def by blast
    show ?thesis
    proof (cases err)
      case None
      with s assms(1,2) have "db_First ops (us_Id u) db' = Inr u" "\<And>k. k \<noteq> us_Id u \<Longrightarrow> db_First ops k db' = db_First ops k db1"
        unfolding db_ok_def by blast+
      with k1 None show ?thesis by (simp add: GetUserInfo_def)
    next
      case (Some y)
      with s assms(1) have "\<And>k. db_First ops k db' = db_First ops k db1" unfolding db_ok_def by blast
      with k1 Some show ?thesis by (simp add: GetUserInfo_def)
    qed
  qed
qed

text \<open>A table as a list of rows.\<close>

definition list_db :: "User list db_ops" where
  "list_db = \<lparr>db_Create = (\<lambda>u db. if \<exists>v \<in> set db. us_Id v = us_Id u then (Some ''UNIQUE constraint failed'', db) else (None, u # db)),
     db_Save = (\<lambda>u db. (None, u # filter (\<lambda>v. us_Id v \<noteq> us_Id u) db)),
     db_Delete = (\<lambda>u db. (None, filter (\<lambda>v. us_Id v \<noteq> us_Id u) db)),
     db_First = (\<lambda>k db. case find (\<lambda>v. us_Id v = k) db of None \<Rightarrow> Inl ''record not found'' | Some u \<Rightarrow> Inr u),
     db_Count = (\<lambda>db. Inr (int (length db)))\<rparr>"

lemma find_filter_other: "k \<noteq> i \<Longrightarrow> List.find (\<lambda>v. us_Id v = k) (filter (\<lambda>v. us_Id v \<noteq> i) db) = List.find (\<lambda>v. us_Id v = k) db"
  by (induction db) auto

lemma list_db_ok: "db_ok list_db"
  unfolding db_ok_def list_db_def by (auto simp: find_filter_other split: if_splits)

theorem InserUserInfo_upsert_witness:
  "let u = \<lparr>us_Id = ''alice'', us_NickName = ''A'', us_HeadImg = ''i''\<rparr>; v = u\<lparr>us_NickName := ''B''\<rparr> in
   case InserUserInfo list_db v [u] of (err, db') \<Rightarrow> err = None \<and> GetUserInfo list_db ''alice'' db' = (v, None)"
proof -
  let ?u = "\<lparr>us_Id = ''alice'', us_NickName = ''A'', us_HeadImg = ''i''\<rparr>"
  let ?v = "?u\<lparr>us_NickName := ''B''\<rparr>"
  have i: "InserUserInfo list_db ?v [?u] = (None, [?v])" by (simp add: InserUserInfo_def list_db_def)
  show ?thesis using InserUserInfo_upsert[OF list_db_ok _ i] i by simp
qed

text \<open>
  The configuration file: on a new repository the defaults are written and read back, a file that is there
  is never overwritten, and reading twice gives the same.
\<close>

theorem GetConfig_default:
  assumes "te_Marshal te default_ConfigBox = Some text" and "te_Unmarshal te text = (True, default_ConfigBox)"
    and "\<not> te_write_fails te" and "\<not> te_read_fails te"
  shows "(case GetConfig te fs of
      None \<Rightarrow> False
    | Some ((c, err), fs') \<Rightarrow>
        (fs (te_repoPath te @ ''/configBox.toml'') = None \<and> \<not> te_stat_fails te (te_repoPath te @ ''/configBox.toml'') \<longrightarrow>
           c = default_ConfigBox \<and> \<not> err) \<and>
        fs \<subseteq>\<^sub>m fs' \<and> GetConfig te fs' = Some ((c, err), fs'))"
  using assms
  by (auto simp: GetConfig_def initConfigBox_def IsFileExist_def Let_def map_le_def split: option.splits if_splits)

definition demo_toml :: toml_env where
  "demo_toml = \<lparr>te_repoPath = ''/r'', te_Marshal = (\<lambda>_. Some ''defaults''), te_Unmarshal = (\<lambda>s. (s = ''defaults'', default_ConfigBox)),
     te_stat_fails = (\<lambda>_. False), te_write_fails = False, te_read_fails = False\<rparr>"

theorem GetConfig_default_witness:
  "\<exists>fs'. GetConfig demo_toml Map.empty = Some ((default_ConfigBox, False), fs')"
proof -
  have "case GetConfig demo_toml Map.empty of
      None \<Rightarrow> False
    | Some ((c, err), fs') \<Rightarrow>
        ((Map.empty :: string \<rightharpoonup> string) (te_repoPath demo_toml @ ''/configBox.toml'') = None \<and>
           \<not> te_stat_fails demo_toml (te_repoPath demo_toml @ ''/configBox.toml'') \<longrightarrow> c = default_ConfigBox \<and> \<not> err) \<and>
        Map.empty \<subseteq>\<^sub>m fs' \<and> GetConfig demo_toml fs' = Some ((c, err), fs')"
    by (rule GetConfig_default[of demo_toml "''defaults''"]) (simp_all add: demo_toml_def)
  then show ?thesis by (auto simp: demo_toml_def split: option.splits)
qed

section \<open>Departures\<close>

text \<open>A request for a user who never logged in at a box takes that box down, from wherever it comes.\<close>

theorem unknown_user_crashes:
  assumes "json_ok e" and "jv_ok e" and "clean e req" and "\<not> bx_down (w q)" and "WsConMap (w q) (rq_To req) = None"
    and "healthy_net ne (length (marshal_text e (enc_Req req)))"
  shows "SendRequest e ne q req w = (Inl ''request timeout'', w(q := (w q)\<lparr>bx_down := True\<rparr>)) \<and> send_local e req (w q) = None"
proof -
  from marshal_Req[OF assms(1,3)] obtain s where s: "je_marshal e (enc_Req req) = Inr s" "marshal_text e (enc_Req req) = s" "newline \<notin> set s"
    by metis
  have full: "take (ne_up ne) (s @ [newline]) = s @ [newline]" using assms(6) s(2) by (simp add: healthy_net_def Suc_le_eq)
  have "ReadString (s @ [newline]) = (s @ [newline], None)" using ReadString_line[OF s(3), of "[]"] by simp
  then have "relay e (s @ [newline]) (w q) = None"
    using relayed_to_clean[OF assms(1-3)] assms(5) s(2) by (simp add: relay_def Let_def WriteMessage_def)
  then have "serve e q (s @ [newline]) w = ([], w(q := (w q)\<lparr>bx_down := True\<rparr>))" using assms(4) by (simp add: serve_def)
  then have "SendRequest e ne q req w = (Inl ''request timeout'', w(q := (w q)\<lparr>bx_down := True\<rparr>))"
    using assms(6) s full
    by (simp add: SendRequest_def Let_def healthy_net_def ReadString_def trim_suffix_def has_suffix_def)
  then show ?thesis using assms(5) by (simp add: send_local_def SendWsMsg_def WriteMessage_def)
qed

text \<open>On the same box the sender is told of success exactly when the message could not be written.\<close>

theorem local_failure_reported_as_success:
  assumes "WsConMap b (rq_To req) = Some c" and "c \<notin> ws_live b"
    and "WsConMap b (rq_From req) = Some d" and "d \<in> ws_live b"
  shows "send_local e req b =
    Some (got d (marshal_text e (enc_Res (zero_Res\<lparr>rs_Protocol := rq_Protocol req, rs_From := rq_To req, rs_Code := True\<rparr>))) b)"
  using assms by (simp add: send_local_def SendWsMsg_def WriteMessage_def answer_def got_def)

text \<open>Closing a connection leaves its user registered.\<close>

theorem closed_connection_stays_registered:
  "WsConMap (ws_close c b) = WsConMap b \<and> c \<notin> ws_live (ws_close c b)"
  by (simp add: ws_close_def)

text \<open>Whoever sends a message with a user's name takes over that user's messages.\<close>

theorem name_taken_over:
  assumes "json_ok e" and "clean e req" and "WsConMap b (rq_From req) = Some victim" and "c \<in> ws_live b"
    and "rq_To msg = rq_From req"
  shows "send_local e msg (ws_round e c r0 (Some (marshal_text e (enc_Req req))) b) =
    Some (got c (marshal_text e (enc_Req msg)) (ws_round e c r0 (Some (marshal_text e (enc_Req req))) b))"
proof -
  from marshal_Req[OF assms(1,2)] have "Unmarshal e (marshal_text e (enc_Req req)) r0 = (True, req)" by metis
  then show ?thesis using assms(4,5) by (intro send_local_exact) (simp_all add: ws_round_def)
qed

text \<open>The fields a message does not give are those of the connection's previous message.\<close>

theorem previous_fields_kept:
  assumes "je_parse e msg = Some (JObj [(''protocol'', JStr ''/user/agree''), (''from'', JStr ''alice'')])"
  shows "Unmarshal e msg r0 = (True, r0\<lparr>rq_Protocol := ''/user/agree'', rq_From := ''alice''\<rparr>)"
  unfolding Unmarshal_def assms by (simp add: dec_member_def set_str_def tags_apart)

text \<open>The uploading user is answered only when the request is addressed to the uploading user.\<close>

theorem UploadInfo_answers_addressee:
  assumes "UploadInfo e ops req b = Some b'" and "WsConMap b (rq_From req) = Some d" and "WsConMap b (rq_To req) \<noteq> Some d"
  shows "ws_out b' d = ws_out b d"
  using upload.writes[OF assms(1)] assms(2,3) unfolding wrote_def by auto

text \<open>A file that cannot be decoded is no error.\<close>

theorem malformed_config_accepted:
  assumes "fs (te_repoPath te @ ''/configBox.toml'') = Some text" and "te_Unmarshal te text = (False, c)" and "\<not> te_read_fails te"
  shows "GetConfig te fs = Some ((c, False), fs)"
  using assms by (simp add: GetConfig_def initConfigBox_def IsFileExist_def Let_def)

end
