(* ===== verification/LazySeek.thy ===== *)
theory LazySeek
  imports Prelude
begin

text \<open>
  The lazy seeker of the gateway: \<^verbatim>\<open>src/core/corehttp/lazyseek.go\<close>.  Seeking only notes the position; the
  reader underneath is moved when data is wanted.  The reader is a parameter: its operations are arguments and
  what the code relies on is the locale \<open>read_seeker\<close>, which the lazy seeker over such a reader satisfies again.
  The loop that moves the reader may run forever with a reader that lies about its position; \<open>None\<close> is that.
\<close>

section \<open>Definitions\<close>

definition wrap64 :: "int \<Rightarrow> int" where
  "wrap64 x = sint (word_of_int x :: 64 word)"

lemma wrap64_id: "- (2 ^ 63) \<le> x \<Longrightarrow> x < 2 ^ 63 \<Longrightarrow> wrap64 x = x"
  unfolding wrap64_def by (subst sint_sbintrunc') (simp add: signed_take_bit_int_eq_self)

datatype whence = SeekStart | SeekCurrent | SeekEnd | OtherWhence int

datatype io_error = EOF | ErrIO string

type_synonym 'r seek_op = "int \<Rightarrow> whence \<Rightarrow> 'r \<Rightarrow> (int \<times> io_error option) \<times> 'r"
type_synonym 'r read_op = "nat \<Rightarrow> 'r \<Rightarrow> ((bytes \<times> io_error option) \<times> 'r) option"

record 'r lazySeeker =
  ls_reader :: 'r
  ls_size :: int
  ls_offset :: int
  ls_realOffset :: int

fun seek_start :: "int \<Rightarrow> 'r lazySeeker \<Rightarrow> (int \<times> io_error option) \<times> 'r lazySeeker" where
  "seek_start offset s =
     (if offset < 0 then ((ls_offset s, Some (ErrIO ''invalid seek offset'')), s)
      else ((offset, None), s\<lparr>ls_offset := offset\<rparr>))"

fun lazy_Seek :: "int \<Rightarrow> whence \<Rightarrow> 'r lazySeeker \<Rightarrow> (int \<times> io_error option) \<times> 'r lazySeeker" where
  "lazy_Seek offset SeekEnd s = seek_start (wrap64 (ls_size s + offset)) s"
| "lazy_Seek offset SeekCurrent s = seek_start (wrap64 (ls_offset s + offset)) s"
| "lazy_Seek offset SeekStart s = seek_start offset s"
| "lazy_Seek offset (OtherWhence w) s = ((ls_offset s, Some (ErrIO ''invalid whence'')), s)"

text \<open>The loop \<^verbatim>\<open>for s.offset != s.realOffset\<close>: the error it ends with, if any.\<close>

partial_function (option) seek_loop :: "'r seek_op \<Rightarrow> 'r lazySeeker \<Rightarrow> (io_error option \<times> 'r lazySeeker) option" where
  "seek_loop rseek s =
     (if ls_offset s = ls_realOffset s then Some (None, s)
      else
        (case rseek (ls_offset s) SeekStart (ls_reader s) of
           ((off, Some err), r) \<Rightarrow> Some (Some err, s\<lparr>ls_reader := r\<rparr>)
         | ((off, None), r) \<Rightarrow> seek_loop rseek (s\<lparr>ls_reader := r, ls_realOffset := off\<rparr>)))"

definition lazy_Read :: "'r seek_op \<Rightarrow> 'r read_op \<Rightarrow> 'r lazySeeker read_op" where
  "lazy_Read rseek rread n s =
     (if ls_offset s \<ge> ls_size s then Some (([], Some EOF), s)
      else
        (case seek_loop rseek s of
           None \<Rightarrow> None
         | Some (Some err, s) \<Rightarrow> Some (([], Some err), s)
         | Some (None, s) \<Rightarrow>
             (case rread n (ls_reader s) of
                None \<Rightarrow> None
              | Some ((bs, err), r) \<Rightarrow>
                  Some ((bs, err), s\<lparr>ls_reader := r, ls_realOffset := ls_realOffset s + int (length bs),
                                    ls_offset := ls_offset s + int (length bs)\<rparr>))))"

definition new_lazy :: "int \<Rightarrow> 'r \<Rightarrow> 'r lazySeeker" where
  "new_lazy sz r = \<lparr>ls_reader = r, ls_size = sz, ls_offset = 0, ls_realOffset = 0\<rparr>"

section \<open>Readers\<close>

text \<open>
  A reader of fixed content: seeking from the start moves to any position that is not negative, reading gives
  the next bytes and moves past them, and gives something unless it reports an error.
\<close>

locale read_seeker =
  fixes seek :: "'r seek_op"
    and read :: "'r read_op"
    and pos :: "'r \<Rightarrow> int"
    and content :: "'r \<Rightarrow> bytes"
    and ok :: "'r \<Rightarrow> bool"
  assumes ok_pos: "ok r \<Longrightarrow> 0 \<le> pos r"
    and seeks: "ok r \<Longrightarrow> 0 \<le> off \<Longrightarrow>
      \<exists>r'. seek off SeekStart r = ((off, None), r') \<and> ok r' \<and> pos r' = off \<and> content r' = content r"
    and reads: "ok r \<Longrightarrow>
      \<exists>bs err r'. read n r = Some ((bs, err), r') \<and> ok r' \<and> content r' = content r \<and> pos r' = pos r + int (length bs) \<and>
        length bs \<le> n \<and> bs = take (length bs) (drop (nat (pos r)) (content r)) \<and> (0 < n \<longrightarrow> bs = [] \<longrightarrow> err \<noteq> None)"
begin

text \<open>The state of a lazy seeker over such a reader.\<close>

definition lazy_ok :: "'r lazySeeker \<Rightarrow> bool" where
  "lazy_ok s \<longleftrightarrow>
     ok (ls_reader s) \<and> ls_size s = int (length (content (ls_reader s))) \<and> 0 \<le> ls_offset s \<and> ls_realOffset s = pos (ls_reader s)"

lemma seek_loop_moves:
  assumes "lazy_ok s"
  shows "\<exists>s'. seek_loop seek s = Some (None, s') \<and> lazy_ok s' \<and> ls_realOffset s' = ls_offset s \<and> ls_offset s' = ls_offset s \<and>
    ls_size s' = ls_size s \<and> content (ls_reader s') = content (ls_reader s)"
proof (cases "ls_offset s = ls_realOffset s")
  case True
  with assms show ?thesis by (subst seek_loop.simps) auto
next
  case False
  from seeks[of "ls_reader s" "ls_offset s"] assms obtain r where
    r: "seek (ls_offset s) SeekStart (ls_reader s) = ((ls_offset s, None), r)" "ok r" "pos r = ls_offset s" "content r = content (ls_reader s)"
    by (auto simp: lazy_ok_def)
  let ?s = "s\<lparr>ls_reader := r, ls_realOffset := ls_offset s\<rparr>"
  have "seek_loop seek s = seek_loop seek ?s" using False r by (subst seek_loop.simps) simp
  also have "\<dots> = Some (None, ?s)" by (subst seek_loop.simps) simp
  finally show ?thesis using r assms by (auto simp: lazy_ok_def)
qed

lemma lazy_reads:
  assumes "lazy_ok s"
  shows "\<exists>bs err s'. lazy_Read seek read n s = Some ((bs, err), s') \<and> lazy_ok s' \<and> content (ls_reader s') = content (ls_reader s) \<and>
      ls_offset s' = ls_offset s + int (length bs) \<and> ls_size s' = ls_size s \<and> length bs \<le> n \<and>
      bs = take (length bs) (drop (nat (ls_offset s)) (content (ls_reader s))) \<and> (0 < n \<longrightarrow> bs = [] \<longrightarrow> err \<noteq> None)"
proof (cases "ls_offset s \<ge> ls_size s")
  case True
  with assms show ?thesis by (simp add: lazy_Read_def)
next
  case False
  from seek_loop_moves[OF assms] obtain s' where s': "seek_loop seek s = Some (None, s')" "lazy_ok s'" "ls_realOffset s' = ls_offset s"
    "ls_offset s' = ls_offset s" "ls_size s' = ls_size s" "content (ls_reader s') = content (ls_reader s)" by blast
  from reads[of "ls_reader s'" n] s'(2) obtain bs err r where
    r: "read n (ls_reader s') = Some ((bs, err), r)" "ok r" "content r = content (ls_reader s')" "pos r = pos (ls_reader s') + int (length bs)"
      "length bs \<le> n" "bs = take (length bs) (drop (nat (pos (ls_reader s'))) (content (ls_reader s')))" "0 < n \<longrightarrow> bs = [] \<longrightarrow> err \<noteq> None"
    unfolding lazy_ok_def by blast
  have p: "pos (ls_reader s') = ls_offset s" using s'(2,3) by (simp add: lazy_ok_def)
  show ?thesis using False s' r p by (auto simp: lazy_Read_def lazy_ok_def)
qed

lemma lazy_seeks:
  assumes "lazy_ok s" and "0 \<le> off"
  shows "\<exists>s'. lazy_Seek off SeekStart s = ((off, None), s') \<and> lazy_ok s' \<and> ls_offset s' = off \<and> content (ls_reader s') = content (ls_reader s)"
  using assms by (simp add: lazy_ok_def)

lemma new_lazy_ok: "ok r \<Longrightarrow> pos r = 0 \<Longrightarrow> lazy_ok (new_lazy (int (length (content r))) r)"
  by (simp add: lazy_ok_def new_lazy_def)

lemma lazy_Seek_ok: "lazy_ok s \<Longrightarrow> lazy_Seek off wh s = (res, s') \<Longrightarrow> lazy_ok s' \<and> ls_reader s' = ls_reader s"
  by (cases wh) (auto simp: lazy_ok_def split: if_splits)

text \<open>The lazy seeker is such a reader itself.\<close>

lemma lazy_read_seeker: "read_seeker lazy_Seek (lazy_Read seek read) ls_offset (\<lambda>s. content (ls_reader s)) lazy_ok"
proof
  fix s assume "lazy_ok s"
  then show "0 \<le> ls_offset s" by (simp add: lazy_ok_def)
next
  fix s and off :: int assume "lazy_ok s" "0 \<le> off"
  then show "\<exists>s'. lazy_Seek off SeekStart s = ((off, None), s') \<and> lazy_ok s' \<and> ls_offset s' = off \<and>
      content (ls_reader s') = content (ls_reader s)" by (rule lazy_seeks)
next
  fix s n assume "lazy_ok s"
  from lazy_reads[OF this, of n] show "\<exists>bs err s'. lazy_Read seek read n s = Some ((bs, err), s') \<and> lazy_ok s' \<and>
      content (ls_reader s') = content (ls_reader s) \<and> ls_offset s' = ls_offset s + int (length bs) \<and> length bs \<le> n \<and>
      bs = take (length bs) (drop (nat (ls_offset s)) (content (ls_reader s))) \<and> (0 < n \<longrightarrow> bs = [] \<longrightarrow> err \<noteq> None)" by blast
qed

end

section \<open>The reader of a block\<close>

text \<open>\<^verbatim>\<open>bytes.NewReader\<close>, which the gateway reads blocks with.\<close>

record bytes_Reader =
  br_data :: bytes
  br_pos :: int

fun bytes_Seek :: "bytes_Reader seek_op" where
  "bytes_Seek offset wh r =
     (let target = (case wh of SeekStart \<Rightarrow> Some offset | SeekCurrent \<Rightarrow> Some (br_pos r + offset)
                    | SeekEnd \<Rightarrow> Some (int (length (br_data r)) + offset) | OtherWhence _ \<Rightarrow> None)
      in case target of
           None \<Rightarrow> ((0, Some (ErrIO ''bytes.Reader.Seek: invalid whence'')), r)
         | Some at \<Rightarrow>
             if at < 0 then ((0, Some (ErrIO ''bytes.Reader.Seek: negative position'')), r)
             else ((at, None), r\<lparr>br_pos := at\<rparr>))"

fun bytes_Read :: "bytes_Reader read_op" where
  "bytes_Read n r =
     Some (if br_pos r \<ge> int (length (br_data r)) then (([], Some EOF), r)
           else
             (let bs = take n (drop (nat (br_pos r)) (br_data r))
              in ((bs, None), r\<lparr>br_pos := br_pos r + int (length bs)\<rparr>)))"

interpretation br: read_seeker bytes_Seek bytes_Read br_pos br_data "\<lambda>r. 0 \<le> br_pos r"
proof
  fix r :: bytes_Reader and n assume "0 \<le> br_pos r"
  then show "\<exists>bs err r'. bytes_Read n r = Some ((bs, err), r') \<and> 0 \<le> br_pos r' \<and> br_data r' = br_data r \<and>
      br_pos r' = br_pos r + int (length bs) \<and> length bs \<le> n \<and> bs = take (length bs) (drop (nat (br_pos r)) (br_data r)) \<and>
      (0 < n \<longrightarrow> bs = [] \<longrightarrow> err \<noteq> None)"
    by (cases "br_pos r \<ge> int (length (br_data r))") (auto simp: Let_def min_def)
qed auto

interpretation lz: read_seeker lazy_Seek "lazy_Read bytes_Seek bytes_Read" ls_offset "\<lambda>s. br_data (ls_reader s)" br.lazy_ok
  by (rule br.lazy_read_seeker)

section \<open>Properties\<close>

datatype seek_call = CSeek int whence | CRead nat

text \<open>What a client of the seeker does: the calls in order, each to its end.\<close>

fun run_calls :: "'r seek_op \<Rightarrow> 'r read_op \<Rightarrow> seek_call list \<Rightarrow> 'r lazySeeker \<Rightarrow> 'r lazySeeker option" where
  "run_calls rseek rread [] s = Some s"
| "run_calls rseek rread (CSeek off wh # cs) s = run_calls rseek rread cs (snd (lazy_Seek off wh s))"
| "run_calls rseek rread (CRead n # cs) s =
     (case lazy_Read rseek rread n s of None \<Rightarrow> None | Some (_, s') \<Rightarrow> run_calls rseek rread cs s')"

context read_seeker
begin

lemma run_calls_ok:
  "lazy_ok s \<Longrightarrow> \<exists>s'. run_calls seek read cs s = Some s' \<and> lazy_ok s' \<and> content (ls_reader s') = content (ls_reader s)"
proof (induction cs arbitrary: s)
  case (Cons c cs)
  show ?case
  proof (cases c)
    case (CSeek off wh)
    with Cons lazy_Seek_ok[of s off wh "fst (lazy_Seek off wh s)" "snd (lazy_Seek off wh s)"] show ?thesis by fastforce
  next
    case (CRead n)
    from lazy_reads[OF Cons.prems, of n] obtain res s' where
      "lazy_Read seek read n s = Some (res, s')" "lazy_ok s'" "content (ls_reader s') = content (ls_reader s)" by blast
    with Cons.IH[of s'] CRead show ?thesis by auto
  qed
qed simp

end



text \<open>
  Relative seeks land where they should whenever the target is a position an \<^verbatim>\<open>int64\<close> can hold, and a negative
  target is an error that leaves the position alone.
\<close>

theorem lazy_Seek_relative:
  assumes "- (2 ^ 63) \<le> ls_size s + off" and "ls_size s + off < 2 ^ 63"
  shows "lazy_Seek off SeekEnd s =
    (if ls_size s + off < 0 then ((ls_offset s, Some (ErrIO ''invalid seek offset'')), s)
     else ((ls_size s + off, None), s\<lparr>ls_offset := ls_size s + off\<rparr>))"
  using wrap64_id[OF assms] by simp

theorem lazy_Seek_relative_witness:
  "fst (lazy_Seek (- 1) SeekEnd (new_lazy 3 \<lparr>br_data = [7, 8, 9], br_pos = 0\<rparr>)) = (2, None)"
  using lazy_Seek_relative[of "new_lazy 3 \<lparr>br_data = [7, 8, 9], br_pos = 0\<rparr>" "- 1"] by (simp add: new_lazy_def)

text \<open>Near the top of the range the sum wraps, and a seek that should be far past the end is refused.\<close>

theorem lazy_Seek_wraps:
  "fst (lazy_Seek (2 ^ 63 - 1) SeekEnd (new_lazy 3 r)) = (0, Some (ErrIO ''invalid seek offset''))"
  by (simp add: new_lazy_def wrap64_def)

text \<open>Reading on from where the reader is does not seek.\<close>

lemma sequential_read_no_seek:
  "ls_offset s = ls_realOffset s \<Longrightarrow> seek_loop rseek s = Some (None, s)"
  by (subst seek_loop.simps) simp

end
