(* ===== verification/Etag.thy ===== *)
theory Etag
  imports Prelude
begin

text \<open>
  Entity tags of the gateway: \<^verbatim>\<open>etagMatch\<close>, \<^verbatim>\<open>scanETag\<close> and \<^verbatim>\<open>etagWeakMatch\<close> of
  \<^verbatim>\<open>src/core/corehttp/gateway_handler.go\<close>, which decide whether a client's copy is still good.  The loop over the
  header is a recursive function whose termination is part of its definition.
\<close>

section \<open>Definitions\<close>

definition is_ascii_space :: "char \<Rightarrow> bool" where
  "is_ascii_space c \<longleftrightarrow> c \<in> {CHR '' '', CHR 0x09, CHR 0x0A, CHR 0x0D}"

text \<open>\<^verbatim>\<open>textproto.TrimString\<close>.\<close>

definition TrimString :: "string \<Rightarrow> string" where
  "TrimString s = rev (dropWhile is_ascii_space (rev (dropWhile is_ascii_space s)))"

definition etag_char :: "char \<Rightarrow> bool" where
  "etag_char c \<longleftrightarrow> (let n = of_char c :: nat in n = 0x21 \<or> 0x23 \<le> n \<and> n \<le> 0x7E \<or> n \<ge> 0x80)"

abbreviation quote :: char where
  "quote \<equiv> CHR 0x22"

text \<open>The loop of \<^verbatim>\<open>scanETag\<close> after the opening quote: the text up to the closing quote and what follows it.\<close>

fun scan_text :: "string \<Rightarrow> (string \<times> string) option" where
  "scan_text [] = None"
| "scan_text (c # s) =
     (if etag_char c then map_option (\<lambda>(t, r). (c # t, r)) (scan_text s)
      else if c = quote then Some ([], s)
      else None)"

definition scanETag :: "string \<Rightarrow> string \<times> string" where
  "scanETag s0 =
     (let s = TrimString s0;
          start = (if has_prefix s ''W/'' then 2 else 0);
          body = drop start s
      in if length body < 2 \<or> hd body \<noteq> quote then ([], [])
         else
           (case scan_text (tl body) of
              None \<Rightarrow> ([], [])
            | Some (t, r) \<Rightarrow> (take start s @ quote # t @ [quote], r)))"

definition trim_prefix :: "string \<Rightarrow> string \<Rightarrow> string" where
  "trim_prefix s p = (if has_prefix s p then drop (length p) s else s)"

definition etagWeakMatch :: "string \<Rightarrow> string \<Rightarrow> bool" where
  "etagWeakMatch a b \<longleftrightarrow> trim_prefix a ''W/'' = trim_prefix b ''W/''"

lemma scan_text_shorter: "scan_text s = Some (t, r) \<Longrightarrow> length r < length s"
  by (induction s arbitrary: t) (auto split: if_splits)

lemma TrimString_length: "length (TrimString s) \<le> length s"
proof -
  have "length (dropWhile P xs) \<le> length xs" for P and xs :: string by (rule length_dropWhile_le)
  then show ?thesis unfolding TrimString_def by (metis length_rev le_trans)
qed

lemma scanETag_shorter: "fst (scanETag s) \<noteq> [] \<Longrightarrow> length (snd (scanETag s)) < length s"
  using TrimString_length[of s]
  by (auto simp: scanETag_def Let_def dest!: scan_text_shorter split: if_splits option.splits)

function etagMatch :: "string \<Rightarrow> string \<Rightarrow> string \<Rightarrow> bool" where
  "etagMatch header cidEtag dirEtag =
     (let buf = TrimString header in
      if buf = [] then False
      else if hd buf = CHR '','' then etagMatch (tl buf) cidEtag dirEtag
      else if hd buf = CHR ''*'' then True
      else
        (case scanETag buf of (etag, remain) \<Rightarrow>
           if etag = [] then False
           else if etagWeakMatch etag cidEtag \<or> etagWeakMatch etag dirEtag then True
           else etagMatch remain cidEtag dirEtag))"
  by pat_completeness auto
termination
proof (relation "measure (\<lambda>(h, _, _). length h)")
  show "wf (measure (\<lambda>(h :: string, _ :: string, _ :: string). length h))" by simp
next
  fix header cidEtag dirEtag buf
  assume "buf = TrimString header" "buf \<noteq> []"
  then show "((tl buf, cidEtag, dirEtag), header, cidEtag, dirEtag) \<in> measure (\<lambda>(h, _, _). length h)"
    using TrimString_length[of header] by (auto simp: length_greater_0_conv[symmetric] simp del: length_greater_0_conv)
next
  fix header cidEtag dirEtag buf etag remain
  assume "buf = TrimString header" "(etag, remain) = scanETag buf" "etag \<noteq> []"
  then have "length remain < length (TrimString header)" using scanETag_shorter[of buf] by (metis fst_conv snd_conv)
  then show "((remain, cidEtag, dirEtag), header, cidEtag, dirEtag) \<in> measure (\<lambda>(h, _, _). length h)"
    using TrimString_length[of header] by simp
qed

declare etagMatch.simps [simp del]

section \<open>Lemmas\<close>

lemma TrimString_id: "s = [] \<or> \<not> is_ascii_space (hd s) \<and> \<not> is_ascii_space (last s) \<Longrightarrow> TrimString s = s"
proof (cases "s = []")
  case False
  moreover assume "s = [] \<or> \<not> is_ascii_space (hd s) \<and> \<not> is_ascii_space (last s)"
  ultimately have "dropWhile is_ascii_space s = s" "dropWhile is_ascii_space (rev s) = rev s"
    by (simp_all add: dropWhile_eq_self_iff hd_rev)
  then show ?thesis by (simp add: TrimString_def)
qed (simp add: TrimString_def)

lemma TrimString_space: "TrimString (CHR '' '' # s) = TrimString s"
  by (simp add: TrimString_def is_ascii_space_def)

lemma TrimString_sublist: "sublist (TrimString s) s"
proof -
  have "suffix (dropWhile is_ascii_space s) s" by (rule suffix_dropWhile)
  moreover have "suffix (dropWhile is_ascii_space (rev t)) (rev t)" for t by (rule suffix_dropWhile)
  then have "prefix (TrimString s) (dropWhile is_ascii_space s)" unfolding TrimString_def by (metis rev_rev_ident suffix_to_prefix)
  ultimately show ?thesis by (meson prefix_imp_sublist suffix_imp_sublist sublist_order.order.trans)
qed

lemma not_etag_quote: "\<not> etag_char quote"
  by (simp add: etag_char_def)

lemma scan_text_split: "scan_text s = Some (t, r) \<Longrightarrow> s = t @ quote # r"
  by (induction s arbitrary: t) (auto split: if_splits)

lemma scan_text_append: "\<forall>c \<in> set t. etag_char c \<Longrightarrow> scan_text (t @ quote # r) = Some (t, r)"
  by (induction t) (auto simp: not_etag_quote)

text \<open>What is scanned is a part of the text, and the rest follows it.\<close>

lemma scanETag_split:
  assumes "scanETag s = (t, r)" and "t \<noteq> []"
  shows "TrimString s = t @ r"
proof -
  let ?s = "TrimString s" and ?start = "if has_prefix (TrimString s) ''W/'' then 2 else 0"
  let ?body = "drop ?start ?s"
  from assms obtain x where b: "\<not> (length ?body < 2 \<or> hd ?body \<noteq> quote)" and x: "scan_text (tl ?body) = Some (x, r)"
    and t: "t = take ?start ?s @ quote # x @ [quote]"
    unfolding scanETag_def Let_def by (auto split: if_splits option.splits)
  from b have "?body = quote # tl ?body" by (cases ?body) auto
  with scan_text_split[OF x] have "?body = quote # x @ quote # r" by simp
  then show ?thesis unfolding t using append_take_drop_id[of ?start ?s] by simp
qed

section \<open>Well-formed tags\<close>

definition wf_etag :: "string \<Rightarrow> bool" where
  "wf_etag t \<longleftrightarrow> (\<exists>x. (\<forall>c \<in> set x. etag_char c) \<and> (t = quote # x @ [quote] \<or> t = ''W/'' @ quote # x @ [quote]))"

lemma wf_etag_ends: "wf_etag t \<Longrightarrow> t \<noteq> [] \<and> hd t \<in> {quote, CHR ''W''} \<and> last t = quote"
  by (auto simp: wf_etag_def)

lemma TrimString_etag: "wf_etag t \<Longrightarrow> r = [] \<or> \<not> is_ascii_space (last r) \<Longrightarrow> TrimString (t @ r) = t @ r"
  using wf_etag_ends[of t] by (intro TrimString_id) (auto simp: is_ascii_space_def last_append)

lemma scan_wf_etag:
  assumes "wf_etag t" and "r = [] \<or> \<not> is_ascii_space (last r)"
  shows "scanETag (t @ r) = (t, r)"
proof -
  from assms(1) obtain x where x: "\<forall>c \<in> set x. etag_char c" and t: "t = quote # x @ [quote] \<or> t = ''W/'' @ quote # x @ [quote]"
    by (auto simp: wf_etag_def)
  show ?thesis using t scan_text_append[OF x, of r] TrimString_etag[OF assms]
    by (auto simp: scanETag_def Let_def has_prefix_def)
qed

lemma join_last: "ts \<noteq> [] \<Longrightarrow> \<forall>t \<in> set ts. wf_etag t \<Longrightarrow> join_with '', '' ts \<noteq> [] \<and> last (join_with '', '' ts) = quote"
proof (induction ts)
  case (Cons t ts)
  then show ?case using wf_etag_ends[of t] by (cases "ts = []") (auto simp: join_with_Cons)
qed simp

section \<open>Properties\<close>

text \<open>
  A header that lists well-formed entity tags, weak or strong, matches exactly when one of them is the file's or
  the directory's tag up to weakness.
\<close>

theorem etagMatch_list:
  assumes "\<forall>t \<in> set ts. wf_etag t"
  shows "etagMatch (join_with '', '' ts) a b \<longleftrightarrow> (\<exists>t \<in> set ts. etagWeakMatch t a \<or> etagWeakMatch t b)"
  using assms
proof (induction ts)
  case Nil
  then show ?case by (simp add: etagMatch.simps TrimString_def)
next
  case (Cons t ts)
  define r where "r = (if ts = [] then [] else '', '' @ join_with '', '' ts)"
  have h: "join_with '', '' (t # ts) = t @ r" by (simp add: r_def join_with_Cons)
  have w: "wf_etag t" using Cons.prems by simp
  have last: "r = [] \<or> last r = quote" using Cons.prems join_last[of ts] by (auto simp: r_def)
  then have r: "r = [] \<or> \<not> is_ascii_space (last r)" by (auto simp: is_ascii_space_def)
  note trim = TrimString_etag[OF w r] r
  have rest: "etagMatch r a b \<longleftrightarrow> (\<exists>t \<in> set ts. etagWeakMatch t a \<or> etagWeakMatch t b)"
  proof (cases "ts = []")
    case True
    then show ?thesis by (simp add: r_def etagMatch.simps TrimString_def)
  next
    case False
    then have r: "r = '', '' @ join_with '', '' ts" by (simp add: r_def)
    have "TrimString r = r" using join_last[OF False] Cons.prems by (intro TrimString_id) (auto simp: r is_ascii_space_def)
    then have "etagMatch r a b = etagMatch (CHR '' '' # join_with '', '' ts) a b" by (subst etagMatch.simps) (simp add: r)
    also have "\<dots> = etagMatch (join_with '', '' ts) a b"
      by (subst (1 2) etagMatch.simps) (simp add: TrimString_space)
    finally show ?thesis using Cons by simp
  qed
  have "hd (t @ r) \<noteq> CHR '',''" "hd (t @ r) \<noteq> CHR ''*''" "t @ r \<noteq> []" using wf_etag_ends[OF w] by auto
  then show ?case unfolding h using rest scan_wf_etag[OF w trim(2)] wf_etag_ends[OF w]
    by (subst etagMatch.simps) (simp add: trim(1))
qed

theorem etagMatch_list_witness:
  "etagMatch (join_with '', '' [quote # ''x'' @ [quote], ''W/'' @ quote # ''y'' @ [quote]]) (quote # ''y'' @ [quote]) ''d''"
proof -
  let ?ts = "[quote # ''x'' @ [quote], ''W/'' @ quote # ''y'' @ [quote]]"
  have "\<forall>t \<in> set ?ts. wf_etag t"
    unfolding wf_etag_def by (auto simp: etag_char_def intro: exI[of _ "''x''"] exI[of _ "''y''"])
  from etagMatch_list[OF this, of "quote # ''y'' @ [quote]" "''d''"] show ?thesis
    by (simp add: etagWeakMatch_def trim_prefix_def has_prefix_def)
qed

text \<open>
  Whatever the header, a match means that it has an asterisk or that one of the two tags occurs in it up to
  weakness.
\<close>

theorem etagMatch_sound:
  assumes "etagMatch h a b"
  shows "CHR ''*'' \<in> set h \<or> (\<exists>t. sublist t h \<and> t \<noteq> [] \<and> (etagWeakMatch t a \<or> etagWeakMatch t b))"
  using assms
proof (induction h a b rule: etagMatch.induct)
  case (1 h a b)
  let ?buf = "TrimString h"
  have sub: "sublist ?buf h" by (rule TrimString_sublist)
  have up: "CHR ''*'' \<in> set h \<or> (\<exists>t. sublist t h \<and> t \<noteq> [] \<and> (etagWeakMatch t a \<or> etagWeakMatch t b))"
    if "sublist s h" "CHR ''*'' \<in> set s \<or> (\<exists>t. sublist t s \<and> t \<noteq> [] \<and> (etagWeakMatch t a \<or> etagWeakMatch t b))" for s
    using that by (meson set_mono_sublist subsetD sublist_order.order.trans)
  have ne: "?buf \<noteq> []" using "1.prems" by (subst (asm) etagMatch.simps) (auto simp: Let_def)
  consider (comma) "hd ?buf = CHR '',''" | (star) "hd ?buf = CHR ''*''" | (tag) "hd ?buf \<noteq> CHR '',''" "hd ?buf \<noteq> CHR ''*''" by blast
  then show ?case
  proof cases
    case comma
    then have "etagMatch (tl ?buf) a b" using "1.prems" ne by (subst (asm) etagMatch.simps) (simp add: Let_def)
    moreover have "sublist (tl ?buf) h" using sub by (meson sublist_tl sublist_order.order.trans)
    ultimately show ?thesis using "1.IH"(1)[OF refl ne comma] up by blast
  next
    case star
    then have "CHR ''*'' \<in> set ?buf" using ne hd_in_set by metis
    then show ?thesis using set_mono_sublist[OF sub] by blast
  next
    case tag
    obtain t r where tr: "scanETag ?buf = (t, r)" by fastforce
    have t: "t \<noteq> []" using "1.prems" ne tag tr by (subst (asm) etagMatch.simps) (auto simp: Let_def split: if_splits)
    have "TrimString ?buf = t @ r" by (rule scanETag_split[OF tr t])
    then have "sublist (t @ r) h" using TrimString_sublist[of ?buf] sub by (metis sublist_order.order.trans)
    then have st: "sublist t h" "sublist r h" by (meson sublist_append_rightI sublist_append_leftI sublist_order.order.trans)+
    show ?thesis
    proof (cases "etagWeakMatch t a \<or> etagWeakMatch t b")
      case True
      with st t show ?thesis by blast
    next
      case False
      then have "etagMatch r a b" using "1.prems" ne tag tr t by (subst (asm) etagMatch.simps) (simp add: Let_def)
      then show ?thesis using "1.IH"(2)[OF refl ne tag tr[symmetric] t False] up st(2) by blast
    qed
  qed
qed

theorem etagMatch_sound_witness:
  "\<exists>h. etagMatch h ''c'' ''d'' \<and> (CHR ''*'' \<in> set h \<or> (\<exists>t. sublist t h \<and> t \<noteq> [] \<and> (etagWeakMatch t ''c'' \<or> etagWeakMatch t ''d'')))"
proof -
  have "etagMatch ''*'' ''c'' ''d''" by (subst etagMatch.simps) (simp add: TrimString_def is_ascii_space_def)
  with etagMatch_sound[OF this] show ?thesis by blast
qed

end
