(* ===== verification/GoPath.thy ===== *)
theory GoPath
  imports Prelude
begin

text \<open>
  The functions of Go's \<^verbatim>\<open>path\<close> package and of \<^verbatim>\<open>net/url\<close> that the gateway calls, over slash-separated strings.
\<close>

definition slash :: char where
  "slash = CHR ''/''"

text \<open>The elements of a path after cleaning: \<open>acc\<close> holds those kept so far, in reverse.\<close>

fun clean_elems :: "bool \<Rightarrow> string list \<Rightarrow> string list \<Rightarrow> string list" where
  "clean_elems rooted acc [] = rev acc"
| "clean_elems rooted acc (p # ps) =
     (if p = [] \<or> p = ''.'' then clean_elems rooted acc ps
      else if p = ''..'' then
        (case acc of
           [] \<Rightarrow> clean_elems rooted (if rooted then [] else [p]) ps
         | q # qs \<Rightarrow> if q = ''..'' then clean_elems rooted (p # acc) ps else clean_elems rooted qs ps)
      else clean_elems rooted (p # acc) ps)"

definition rooted :: "string \<Rightarrow> bool" where
  "rooted p \<longleftrightarrow> p \<noteq> [] \<and> hd p = slash"

definition Clean :: "string \<Rightarrow> string" where
  "Clean p =
     (let text = (if rooted p then [slash] else []) @ join_with [slash] (clean_elems (rooted p) [] (split_on slash p))
      in if text = [] then ''.'' else text)"

definition path_Join :: "string list \<Rightarrow> string" where
  "path_Join elems =
     (let es = filter (\<lambda>e. e \<noteq> []) elems in if es = [] then [] else Clean (join_with [slash] es))"

text \<open>\<^verbatim>\<open>path.Split\<close>: the part through the last slash and the rest.\<close>

definition path_Split :: "string \<Rightarrow> string \<times> string" where
  "path_Split p = (let file = rev (takeWhile (\<lambda>c. c \<noteq> slash) (rev p)) in (take (length p - length file) p, file))"

definition Base :: "string \<Rightarrow> string" where
  "Base p =
     (if p = [] then ''.''
      else
        (let q = rev (dropWhile (\<lambda>c. c = slash) (rev p)); b = snd (path_Split q) in if b = [] then [slash] else b))"

definition Ext :: "string \<Rightarrow> string" where
  "Ext p =
     (let b = snd (path_Split p); e = takeWhile (\<lambda>c. c \<noteq> CHR ''.'') (rev b)
      in if CHR ''.'' \<in> set b then CHR ''.'' # rev e else [])"

definition count_char :: "char \<Rightarrow> string \<Rightarrow> nat" where
  "count_char c s = length (filter (\<lambda>x. x = c) s)"

text \<open>\<^verbatim>\<open>url.PathEscape\<close>: letters, digits and a few marks stay, everything else is written in hexadecimal.\<close>

definition hex_digit :: "nat \<Rightarrow> char" where
  "hex_digit n = (if n < 10 then char_of (48 + n) else char_of (55 + n))"

definition unreserved :: "char \<Rightarrow> bool" where
  "unreserved c \<longleftrightarrow>
     (let n = of_char c :: nat in (97 \<le> n \<and> n \<le> 122) \<or> (65 \<le> n \<and> n \<le> 90) \<or> (48 \<le> n \<and> n \<le> 57)) \<or> c \<in> set ''-_.~$&+=:@''"

definition PathEscape :: "string \<Rightarrow> string" where
  "PathEscape s =
     concat (map (\<lambda>c. if unreserved c then [c]
                      else [CHR ''%'', hex_digit ((of_char c :: nat) div 16), hex_digit ((of_char c :: nat) mod 16)]) s)"

section \<open>Lemmas\<close>

definition plain_elem :: "string \<Rightarrow> bool" where
  "plain_elem p \<longleftrightarrow> p \<noteq> [] \<and> p \<noteq> ''.'' \<and> p \<noteq> ''..'' \<and> slash \<notin> set p"

lemma clean_elems_plain: "\<forall>p \<in> set ps. plain_elem p \<Longrightarrow> clean_elems r acc ps = rev acc @ ps"
  by (induction ps arbitrary: acc) (auto simp: plain_elem_def)

text \<open>A rooted path of plain elements is clean.\<close>

lemma Clean_plain:
  assumes "ps \<noteq> []" and "\<forall>p \<in> set ps. plain_elem p"
  shows "Clean (slash # join_with [slash] ps) = slash # join_with [slash] ps"
proof -
  have "split_on slash (slash # join_with [slash] ps) = [] # split_on slash (join_with [slash] ps)" by simp
  also have "split_on slash (join_with [slash] ps) = ps" using assms by (intro split_join) (auto simp: plain_elem_def)
  finally have s: "split_on slash (slash # join_with [slash] ps) = [] # ps" .
  show ?thesis unfolding Clean_def Let_def s using clean_elems_plain[OF assms(2), of True "[]"] by (simp add: rooted_def)
qed

lemma unreserved_PathEscape:
  assumes "c \<in> set (PathEscape s)"
  shows "c \<noteq> CHR 0x22 \<and> c \<noteq> CHR 0x0A \<and> c \<noteq> CHR 0x0D"
proof -
  have h: "hex_digit n \<notin> {CHR 0x22, CHR 0x0A, CHR 0x0D}" if "n < 16" for n
  proof -
    have "(48 :: nat) \<le> of_char (hex_digit n)" using that by (simp add: hex_digit_def)
    then show ?thesis by auto
  qed
  have b: "(of_char d :: nat) div 16 < 16" "(of_char d :: nat) mod 16 < 16" for d
  proof -
    have "(of_char d :: nat) < 256" by (metis of_char_mod_256 mod_less_divisor zero_less_numeral)
    then show "(of_char d :: nat) div 16 < 16" by (simp add: less_mult_imp_div_less)
  qed simp
  from assms obtain d where "c = d \<and> unreserved d \<or> c = CHR ''%'' \<or> c = hex_digit ((of_char d :: nat) div 16) \<or> c = hex_digit ((of_char d :: nat) mod 16)"
    by (auto simp: PathEscape_def split: if_splits)
  then show ?thesis using h[OF b(1)[of d]] h[OF b(2)[of d]] by (auto simp: unreserved_def Let_def)
qed

end
