(* ===== verification/Gateway.thy ===== *)
theory Gateway
  imports Etag GoPath Hostname
begin

text \<open>
  The gateway handler: \<^verbatim>\<open>src/core/corehttp/gateway_handler.go\<close> and the files it is spread over
  (\<^verbatim>\<open>_block\<close>, \<^verbatim>\<open>_car\<close>, \<^verbatim>\<open>_tar\<close>, \<^verbatim>\<open>_codec\<close>, \<^verbatim>\<open>_unixfs\<close>, \<^verbatim>\<open>_unixfs_file\<close>, \<^verbatim>\<open>_unixfs_dir\<close>, \<^verbatim>\<open>_unixfs__redirects\<close>), behind
  the host-name routing of \<open>Hostname\<close>.  A handler takes the request and the response as written so far
  and gives the response afterwards.  The node's API, the path and CID packages and the parts of
  \<^verbatim>\<open>net/http\<close> that deliver a body are fields of \<open>gw_env\<close>.  A panic of a handler is recovered in \<^verbatim>\<open>ServeHTTP\<close>, so it
  leaves the response as it is; helpers that may panic give \<open>None\<close>.  Metrics, logs and traces are left out.
\<close>

section \<open>Requests and responses\<close>

datatype gerr =
  ErrNoLink string | ErrRoutingNotFound | ErrIpldNotFound string | DeadlineExceeded | ErrOffline | OtherErr string

text \<open>Keys of a request's context: Go compares their types, too.\<close>

datatype ctx_key = PlainKey string | RequestKey string

type_synonym headers = "string \<Rightarrow> string list"

record greq =
  q_Method :: string
  q_Path :: string
  q_RawQuery :: string
  q_RequestURI :: string
  q_Query :: "string \<Rightarrow> string"
  q_Header :: headers
  q_ctx :: "ctx_key \<rightharpoonup> string"

text \<open>A response: the header map, and once it is sent the status and the headers that went out, and the body.\<close>

record resp =
  w_Header :: headers
  w_status :: "int option"
  w_sent :: headers
  w_body :: string

definition new_resp :: resp where
  "new_resp = \<lparr>w_Header = (\<lambda>_. []), w_status = None, w_sent = (\<lambda>_. []), w_body = []\<rparr>"

definition hget :: "headers \<Rightarrow> string \<Rightarrow> string" where
  "hget h k = (case h k of [] \<Rightarrow> [] | v # _ \<Rightarrow> v)"

definition Set :: "string \<Rightarrow> string \<Rightarrow> resp \<Rightarrow> resp" where
  "Set k v w = w\<lparr>w_Header := (w_Header w)(k := [v])\<rparr>"

definition Add :: "string \<Rightarrow> string \<Rightarrow> resp \<Rightarrow> resp" where
  "Add k v w = w\<lparr>w_Header := (w_Header w)(k := w_Header w k @ [v])\<rparr>"

definition Del :: "string \<Rightarrow> resp \<Rightarrow> resp" where
  "Del k w = w\<lparr>w_Header := (w_Header w)(k := [])\<rparr>"

definition WriteHeader :: "int \<Rightarrow> resp \<Rightarrow> resp" where
  "WriteHeader code w = (if w_status w = None then w\<lparr>w_status := Some code, w_sent := w_Header w\<rparr> else w)"

definition Write :: "string \<Rightarrow> resp \<Rightarrow> resp" where
  "Write s w = (let w = WriteHeader 200 w in w\<lparr>w_body := w_body w @ s\<rparr>)"

text \<open>\<^verbatim>\<open>http.Error\<close>.\<close>

definition http_Error :: "string \<Rightarrow> int \<Rightarrow> resp \<Rightarrow> resp" where
  "http_Error msg code w =
     Write (msg @ [CHR 0x0A])
       (WriteHeader code (Set ''X-Content-Type-Options'' ''nosniff'' (Set ''Content-Type'' ''text/plain; charset=utf-8'' w)))"

section \<open>The node behind the gateway\<close>

record gwcid =
  c_String :: string
  c_Codec :: nat

record resolved =
  rv_String :: string
  rv_Cid :: gwcid
  rv_Remainder :: string

record ufile =
  uf_Size :: "gerr + int"
  uf_symlink :: bool
  uf_data :: string
  uf_detect :: "gerr + string"
  uf_seek :: "gerr option"
  uf_copy :: "gerr option"

record udir =
  ud_Entries :: "(gerr + int) list"
  ud_Size :: "gerr + int"

datatype unode = UFile ufile | UDir udir | UOther

record rule =
  ru_Status :: int
  ru_match :: "string \<Rightarrow> string option"

datatype modtime = Now | NoModtime

record directoryItem =
  di_Size :: string
  di_Name :: string
  di_Path :: string
  di_Hash :: string
  di_ShortHash :: string

record breadcrumb =
  bc_Name :: string
  bc_Path :: string

record listingTemplateData =
  lt_GatewayURL :: string
  lt_DNSLink :: bool
  lt_Listing :: "directoryItem list"
  lt_Size :: string
  lt_Path :: string
  lt_Breadcrumbs :: "breadcrumb list"
  lt_BackLink :: string
  lt_Hash :: string

text \<open>
  The API calls, the path package (\<open>ip_\<close>), the standard library's delivery of a body, redirects and media
  types, the templates and the small formatting functions.  \<open>std_ServeContent\<close> gives headers, status and body.
\<close>

record gw_env =
  cfg_Headers :: "(string \<times> string list) list"
  cfg_FastDirIndexThreshold :: int
  ResolvePath :: "string \<Rightarrow> gerr + resolved"
  Block_Get :: "resolved \<Rightarrow> gerr + (gerr + string)"
  offline_Stat :: "string \<Rightarrow> gerr option"
  Unixfs_Get :: "string \<Rightarrow> gerr + unode"
  Unixfs_Ls :: "resolved \<Rightarrow> gerr + (gerr + (string \<times> gwcid)) list"
  Dag_encode :: "gwcid \<Rightarrow> nat \<Rightarrow> (string \<times> gerr) + string"
  car_Write :: "gwcid \<Rightarrow> string \<times> gerr option"
  tar_new :: "gerr option"
  tar_Write :: "unode \<Rightarrow> string \<Rightarrow> string \<times> gerr option"
  ip_New :: "string \<Rightarrow> string"
  ip_IsValid :: "string \<Rightarrow> gerr option"
  ip_Mutable :: "string \<Rightarrow> bool"
  ip_Namespace :: "string \<Rightarrow> string"
  ip_Join :: "string \<Rightarrow> string \<Rightarrow> string"
  ip_Segments :: "string \<Rightarrow> string list option"
  redirects_Parse :: "ufile \<Rightarrow> gerr + rule list"
  ParseMediaType :: "string \<Rightarrow> gerr + (string \<times> (string \<Rightarrow> string))"
  TypeByExtension :: "string \<Rightarrow> string"
  url_Parse :: "string \<Rightarrow> gerr + (string \<times> string \<times> string \<times> string)"
  url_RequestPath :: "string \<Rightarrow> gerr + string"
  encode_query :: "string \<Rightarrow> string"
  std_ServeContent :: "greq \<Rightarrow> headers \<Rightarrow> string \<Rightarrow> modtime \<Rightarrow> string \<Rightarrow> headers \<times> int \<times> string"
  redirect_url :: "greq \<Rightarrow> string \<Rightarrow> string"
  redirect_body :: "string \<Rightarrow> int \<Rightarrow> string"
  now_text :: string
  err_text :: "gerr \<Rightarrow> string"
  debugStr :: "string \<Rightarrow> string"
  fmt_q :: "string \<Rightarrow> string"
  html_Escape :: "string \<Rightarrow> string"
  humanize :: "int \<Rightarrow> string"
  show_nat :: "int \<Rightarrow> string"
  ErrNotReader :: gerr
  listing_html :: "listingTemplateData \<Rightarrow> gerr + string"
  dag_html :: "string \<Rightarrow> gwcid \<Rightarrow> gerr + string"
  fix_html :: "string \<Rightarrow> string \<Rightarrow> string \<Rightarrow> gerr + string"
  AssetHash :: string
  mc_Json :: nat
  mc_Cbor :: nat
  mc_DagJson :: nat
  mc_DagCbor :: nat

text \<open>\<^verbatim>\<open>http.Redirect\<close>.\<close>

definition http_Redirect :: "gw_env \<Rightarrow> greq \<Rightarrow> string \<Rightarrow> int \<Rightarrow> resp \<Rightarrow> resp" where
  "http_Redirect e r url code w =
     (let hadCT = (w_Header w ''Content-Type'' \<noteq> []);
          u = redirect_url e r url;
          w = Set ''Location'' u w;
          w = (if \<not> hadCT \<and> q_Method r \<in> {''GET'', ''HEAD''} then Set ''Content-Type'' ''text/html; charset=utf-8'' w else w);
          w = WriteHeader code w
      in if \<not> hadCT \<and> q_Method r = ''GET'' then Write (redirect_body e u code) w else w)"

section \<open>Errors\<close>

text \<open>The error may be nil, which \<^verbatim>\<open>fmt\<close> prints as a complaint.\<close>

definition webErrorWithCode :: "gw_env \<Rightarrow> string \<Rightarrow> gerr option \<Rightarrow> int \<Rightarrow> resp \<Rightarrow> resp" where
  "webErrorWithCode e message err code w =
     http_Error (message @ '': '' @ (case err of None \<Rightarrow> ''%!s(<nil>)'' | Some x \<Rightarrow> err_text e x)) code w"

definition webError :: "gw_env \<Rightarrow> string \<Rightarrow> gerr option \<Rightarrow> int \<Rightarrow> resp \<Rightarrow> resp" where
  "webError e message err defaultCode w =
     (case err of
        Some (ErrNoLink s) \<Rightarrow> webErrorWithCode e message err 404 w
      | Some ErrRoutingNotFound \<Rightarrow> webErrorWithCode e message err 404 w
      | Some (ErrIpldNotFound s) \<Rightarrow> webErrorWithCode e message err 404 w
      | Some DeadlineExceeded \<Rightarrow> webErrorWithCode e message err 408 w
      | _ \<Rightarrow> webErrorWithCode e message err defaultCode w)"

definition internalWebError :: "gw_env \<Rightarrow> gerr option \<Rightarrow> resp \<Rightarrow> resp" where
  "internalWebError e err w = webErrorWithCode e ''internalWebError'' err 500 w"

record requestError =
  re_Message :: string
  re_StatusCode :: int
  re_Err :: gerr

definition webRequestError :: "gw_env \<Rightarrow> requestError \<Rightarrow> resp \<Rightarrow> resp" where
  "webRequestError e err w = webError e (re_Message err) (Some (re_Err err)) (re_StatusCode err) w"

section \<open>Headers of a response\<close>

text \<open>The user's headers replace what is there, in the order the map is walked.\<close>

definition addUserHeaders :: "gw_env \<Rightarrow> resp \<Rightarrow> resp" where
  "addUserHeaders e w = fold (\<lambda>(k, v) w. w\<lparr>w_Header := (w_Header w)(k := v)\<rparr>) (cfg_Headers e) w"

fun first_accept :: "gw_env \<Rightarrow> string list \<Rightarrow> gerr + (string \<times> (string \<Rightarrow> string))" where
  "first_accept e [] = Inr ([], (\<lambda>_. []))"
| "first_accept e (accept # as) =
     (if has_prefix accept ''application/vnd.ipld'' \<or> has_prefix accept ''application/x-tar'' \<or>
         has_prefix accept ''application/json'' \<or> has_prefix accept ''application/cbor''
      then ParseMediaType e accept
      else first_accept e as)"

definition format_param :: "string \<Rightarrow> string option" where
  "format_param f =
     (if f = ''raw'' then Some ''application/vnd.ipld.raw''
      else if f = ''car'' then Some ''application/vnd.ipld.car''
      else if f = ''tar'' then Some ''application/x-tar''
      else if f = ''dag-json'' then Some ''application/vnd.ipld.dag-json''
      else if f = ''json'' then Some ''application/json''
      else if f = ''dag-cbor'' then Some ''application/vnd.ipld.dag-cbor''
      else if f = ''cbor'' then Some ''application/cbor''
      else None)"

definition customResponseFormat :: "gw_env \<Rightarrow> greq \<Rightarrow> gerr + (string \<times> (string \<Rightarrow> string))" where
  "customResponseFormat e r =
     (case format_param (q_Query r ''format'') of
        Some t \<Rightarrow> Inr (t, (\<lambda>_. []))
      | None \<Rightarrow> first_accept e (q_Header r ''Accept''))"

text \<open>The part after the last slash or dot.\<close>

definition shortFormat :: "string \<Rightarrow> string" where
  "shortFormat t = rev (takeWhile (\<lambda>c. c \<noteq> CHR ''/'' \<and> c \<noteq> CHR ''.'') (rev t))"

definition getEtag :: "gw_env \<Rightarrow> greq \<Rightarrow> gwcid \<Rightarrow> string" where
  "getEtag e r c =
     (let suffix = (case customResponseFormat e r of
                      Inr (t, _) \<Rightarrow> if t \<noteq> [] then ''.'' @ shortFormat t @ [quote] else [quote]
                    | Inl _ \<Rightarrow> [quote])
      in [quote] @ c_String c @ suffix)"

definition getDirListingEtag :: "gw_env \<Rightarrow> gwcid \<Rightarrow> string" where
  "getDirListingEtag e c = [quote] @ ''DirIndex-'' @ AssetHash e @ ''_CID-'' @ c_String c @ [quote]"

definition getDagIndexEtag :: "gw_env \<Rightarrow> gwcid \<Rightarrow> string" where
  "getDagIndexEtag e c = [quote] @ ''DagIndex-'' @ AssetHash e @ ''_CID-'' @ c_String c @ [quote]"

definition immutableCacheControl :: string where
  "immutableCacheControl = ''public, max-age=29030400, immutable''"

definition addCacheControlHeaders :: "gw_env \<Rightarrow> greq \<Rightarrow> string \<Rightarrow> gwcid \<Rightarrow> resp \<Rightarrow> modtime \<times> resp" where
  "addCacheControlHeaders e r contentPath fileCid w =
     (let w = Set ''Etag'' (getEtag e r fileCid) w
      in if ip_Mutable e contentPath then (Now, w)
         else (NoModtime, Set ''Cache-Control'' immutableCacheControl w))"

text \<open>
  The length of the first rune of a string as Go decodes UTF-8: an invalid byte is a rune of its own.  Replacing
  \<^verbatim>\<open>[[:^ascii:]]\<close> puts an underscore for each rune outside ASCII.
\<close>

definition rune_len :: "string \<Rightarrow> nat" where
  "rune_len s =
     (case map (\<lambda>c. of_char c :: nat) s of
        [] \<Rightarrow> 0
      | b0 # bs \<Rightarrow>
          (let cont = (\<lambda>i. i < length bs \<and> 0x80 \<le> bs ! i \<and> bs ! i \<le> 0xBF);
               second = (\<lambda>lo hi. bs \<noteq> [] \<and> lo \<le> hd bs \<and> hd bs \<le> hi)
           in if 0xC2 \<le> b0 \<and> b0 \<le> 0xDF \<and> cont 0 then 2
              else if b0 = 0xE0 \<and> second 0xA0 0xBF \<and> cont 1 then 3
              else if b0 = 0xED \<and> second 0x80 0x9F \<and> cont 1 then 3
              else if 0xE1 \<le> b0 \<and> b0 \<le> 0xEF \<and> b0 \<noteq> 0xED \<and> cont 0 \<and> cont 1 then 3
              else if b0 = 0xF0 \<and> second 0x90 0xBF \<and> cont 1 \<and> cont 2 then 4
              else if 0xF1 \<le> b0 \<and> b0 \<le> 0xF3 \<and> cont 0 \<and> cont 1 \<and> cont 2 then 4
              else if b0 = 0xF4 \<and> second 0x80 0x8F \<and> cont 1 \<and> cont 2 then 4
              else 1))"

function only_ascii :: "string \<Rightarrow> string" where
  "only_ascii [] = []"
| "only_ascii (c # s) =
     (if (of_char c :: nat) < 128 then c # only_ascii s
      else CHR ''_'' # only_ascii (drop (rune_len (c # s) - 1) s))"
  by pat_completeness auto
termination
  by (relation "measure length") auto

definition setContentDispositionHeader :: "string \<Rightarrow> string \<Rightarrow> resp \<Rightarrow> resp" where
  "setContentDispositionHeader filename disposition w =
     (let utf8Name = PathEscape filename;
          asciiName = PathEscape (only_ascii filename)
      in Set ''Content-Disposition''
           (disposition @ ''; filename='' @ [quote] @ asciiName @ [quote] @ ''; filename*=UTF-8'' @ [CHR 0x27, CHR 0x27] @ utf8Name) w)"

definition getFilename :: "string \<Rightarrow> string" where
  "getFilename s =
     (if (has_prefix s ''/ipfs/'' \<or> has_prefix s ''/ipns/'') \<and> count_char slash (Clean s) \<le> 2 then [] else Base s)"

definition addContentDispositionHeader :: "greq \<Rightarrow> string \<Rightarrow> resp \<Rightarrow> string \<times> resp" where
  "addContentDispositionHeader r contentPath w =
     (let urlFilename = q_Query r ''filename'' in
      if urlFilename \<noteq> [] then
        (urlFilename,
         setContentDispositionHeader urlFilename (if q_Query r ''download'' = ''true'' then ''attachment'' else ''inline'') w)
      else (getFilename contentPath, w))"

text \<open>The loop over the segments; \<open>sp\<close> is the string builder.\<close>

fun roots_loop :: "gw_env \<Rightarrow> string \<Rightarrow> string list \<Rightarrow> gerr + string list" where
  "roots_loop e sp [] = Inr []"
| "roots_loop e sp (root # rs) =
     (if root = [] then roots_loop e sp rs
      else
        (let sp = sp @ ''/'' @ root in
         case ResolvePath e (ip_New e sp) of
           Inl err \<Rightarrow> Inl err
         | Inr rv \<Rightarrow>
             (case roots_loop e sp rs of Inl err \<Rightarrow> Inl err | Inr cs \<Rightarrow> Inr (c_String (rv_Cid rv) # cs))))"

text \<open>Slicing a path of fewer than six bytes is a panic.\<close>

definition buildIpfsRootsHeader :: "gw_env \<Rightarrow> string \<Rightarrow> (gerr + string) option" where
  "buildIpfsRootsHeader e contentPath =
     (if length contentPath < 6 then None
      else
        Some (case roots_loop e (take 5 contentPath) (split_on slash (drop 6 contentPath)) of
                Inl err \<Rightarrow> Inl err
              | Inr cs \<Rightarrow> Inr (join_with '','' cs)))"

text \<open>The error, if there is one, and the response; \<open>None\<close> is a panic.\<close>

definition setCommonHeaders :: "gw_env \<Rightarrow> string \<Rightarrow> resp \<Rightarrow> requestError option option \<times> resp" where
  "setCommonHeaders e contentPath w =
     (let w = Set ''X-Ipfs-Path'' contentPath (addUserHeaders e w) in
      case buildIpfsRootsHeader e contentPath of
        None \<Rightarrow> (None, w)
      | Some (Inr roots) \<Rightarrow> (Some None, Set ''X-Ipfs-Roots'' roots w)
      | Some (Inl err) \<Rightarrow>
          (Some (Some \<lparr>re_Message = ''error while resolving X-Ipfs-Roots'', re_StatusCode = 500, re_Err = err\<rparr>), w))"

text \<open>
  \<^verbatim>\<open>ServeContent\<close>, with the writer that turns a 200 into a 301 when a location has been set (\<open>sw\<close>).
\<close>

definition ServeContent :: "gw_env \<Rightarrow> bool \<Rightarrow> greq \<Rightarrow> string \<Rightarrow> modtime \<Rightarrow> string \<Rightarrow> resp \<Rightarrow> resp" where
  "ServeContent e sw r name mtime content w =
     (case std_ServeContent e r (w_Header w) name mtime content of (h, code, body) \<Rightarrow>
        (let w = w\<lparr>w_Header := h\<rparr>;
             code = (if sw \<and> hget h ''Location'' \<noteq> [] \<and> code = 200 then 301 else code)
         in Write body (WriteHeader code w)))"

definition last_modified :: "gw_env \<Rightarrow> modtime \<Rightarrow> resp \<Rightarrow> resp" where
  "last_modified e mtime w = (case mtime of Now \<Rightarrow> Set ''Last-Modified'' (now_text e) w | NoModtime \<Rightarrow> w)"

section \<open>Raw blocks, CAR and TAR\<close>

definition url_name :: "greq \<Rightarrow> string \<Rightarrow> string" where
  "url_name r dflt = (if q_Query r ''filename'' \<noteq> [] then q_Query r ''filename'' else dflt)"

definition serveRawBlock :: "gw_env \<Rightarrow> greq \<Rightarrow> resolved \<Rightarrow> string \<Rightarrow> resp \<Rightarrow> resp" where
  "serveRawBlock e r rv contentPath w =
     (let blockCid = rv_Cid rv in
      case Block_Get e rv of
        Inl err \<Rightarrow> webError e (''ipfs block get '' @ c_String blockCid) (Some err) 500 w
      | Inr (Inl err) \<Rightarrow> webError e (''ipfs block get '' @ c_String blockCid) (Some err) 500 w
      | Inr (Inr block) \<Rightarrow>
          (let name = url_name r (c_String blockCid @ ''.bin'');
               w = setContentDispositionHeader name ''attachment'' w
           in case addCacheControlHeaders e r contentPath blockCid w of (mtime, w) \<Rightarrow>
                ServeContent e False r name mtime block
                  (Set ''X-Content-Type-Options'' ''nosniff'' (Set ''Content-Type'' ''application/vnd.ipld.raw'' w))))"

definition serveCAR :: "gw_env \<Rightarrow> greq \<Rightarrow> resolved \<Rightarrow> string \<Rightarrow> string \<Rightarrow> resp \<Rightarrow> resp" where
  "serveCAR e r rv contentPath carVersion w =
     (if carVersion \<noteq> [] \<and> carVersion \<noteq> ''1'' then
        webError e ''unsupported CAR version'' (Some (OtherErr ''only version=1 is supported'')) 400 w
      else
        (let rootCid = rv_Cid rv;
             w = setContentDispositionHeader (url_name r (c_String rootCid @ ''.car'')) ''attachment'' w;
             w = snd (addCacheControlHeaders e r contentPath rootCid w);
             etag = ''W/'' @ getEtag e r rootCid;
             w = Set ''Etag'' etag w
         in if hget (q_Header r) ''If-None-Match'' = etag then WriteHeader 304 w
            else
              (let w = Set ''X-Content-Type-Options'' ''nosniff''
                         (Set ''Content-Type'' ''application/vnd.ipld.car; version=1'' (Set ''Accept-Ranges'' ''none'' w))
               in case car_Write e rootCid of
                    (out, None) \<Rightarrow> Write out w
                  | (out, Some err) \<Rightarrow> Set ''X-Stream-Error'' (err_text e err) (if out = [] then w else Write out w))))"

definition serveTAR :: "gw_env \<Rightarrow> greq \<Rightarrow> resolved \<Rightarrow> string \<Rightarrow> resp \<Rightarrow> resp" where
  "serveTAR e r rv contentPath w =
     (case Unixfs_Get e (rv_String rv) of
        Inl err \<Rightarrow> webError e (''ipfs cat '' @ html_Escape e contentPath) (Some err) 400 w
      | Inr file \<Rightarrow>
          (let rootCid = rv_Cid rv in
           case addCacheControlHeaders e r contentPath rootCid w of (mtime, w) \<Rightarrow>
             (let etag = ''W/'' @ getEtag e r rootCid; w = Set ''Etag'' etag w
              in if hget (q_Header r) ''If-None-Match'' = etag then WriteHeader 304 w
                 else
                   (let w = setContentDispositionHeader (url_name r (c_String rootCid @ ''.tar'')) ''attachment'' w in
                    case tar_new e of
                      Some err \<Rightarrow> webError e ''could not build tar writer'' (Some err) 500 w
                    | None \<Rightarrow>
                        (let w = Set ''X-Content-Type-Options'' ''nosniff'' (Set ''Content-Type'' ''application/x-tar'' (last_modified e mtime w))
                         in case tar_Write e file (c_String rootCid) of
                              (out, None) \<Rightarrow> Write out w
                            | (out, Some err) \<Rightarrow>
                                Write (err_text e err)
                                  (Set ''X-Stream-Error'' (err_text e err) (if out = [] then w else Write out w)))))))"

section \<open>IPLD codecs\<close>

definition codecToContentType :: "gw_env \<Rightarrow> nat \<rightharpoonup> string" where
  "codecToContentType e =
     [mc_Json e \<mapsto> ''application/json'', mc_Cbor e \<mapsto> ''application/cbor'',
      mc_DagJson e \<mapsto> ''application/vnd.ipld.dag-json'', mc_DagCbor e \<mapsto> ''application/vnd.ipld.dag-cbor'']"

definition contentTypeToCodecs :: "gw_env \<Rightarrow> string \<rightharpoonup> nat list" where
  "contentTypeToCodecs e =
     [''application/json'' \<mapsto> [mc_Json e, mc_DagJson e], ''application/vnd.ipld.dag-json'' \<mapsto> [mc_DagJson e],
      ''application/cbor'' \<mapsto> [mc_Cbor e, mc_DagCbor e], ''application/vnd.ipld.dag-cbor'' \<mapsto> [mc_DagCbor e]]"

definition contentTypeToExtension :: "string \<rightharpoonup> string" where
  "contentTypeToExtension =
     [''application/json'' \<mapsto> ''.json'', ''application/vnd.ipld.dag-json'' \<mapsto> ''.json'',
      ''application/cbor'' \<mapsto> ''.cbor'', ''application/vnd.ipld.dag-cbor'' \<mapsto> ''.cbor'']"

definition setCodecContentDisposition :: "greq \<Rightarrow> resolved \<Rightarrow> string \<Rightarrow> resp \<Rightarrow> string \<times> resp" where
  "setCodecContentDisposition r rv contentType w =
     (let ext = (case contentTypeToExtension contentType of None \<Rightarrow> ''.bin'' | Some x \<Rightarrow> x);
          name = url_name r (c_String (rv_Cid rv) @ ext);
          dispType = (if q_Query r ''download'' = ''true'' then ''attachment''
                      else if ext = ''.json'' then ''inline'' else ''attachment'')
      in (name, setContentDispositionHeader name dispType w))"

definition serveCodecHTML :: "gw_env \<Rightarrow> resolved \<Rightarrow> string \<Rightarrow> resp \<Rightarrow> resp" where
  "serveCodecHTML e rv contentPath w =
     (let w = Del ''Cache-Control''
                (Set ''Etag'' (getDagIndexEtag e (rv_Cid rv)) (Del ''Content-Disposition'' (Set ''Content-Type'' ''text/html'' w)))
      in case dag_html e contentPath (rv_Cid rv) of
           Inr out \<Rightarrow> Write out w
         | Inl err \<Rightarrow>
             webError e ''failed to generate HTML listing for this DAG: try fetching raw block with ?format=raw'' (Some err) 500 w)"

definition serveCodecRaw :: "gw_env \<Rightarrow> greq \<Rightarrow> resolved \<Rightarrow> string \<Rightarrow> modtime \<Rightarrow> resp \<Rightarrow> resp" where
  "serveCodecRaw e r rv name mtime w =
     (case Block_Get e rv of
        Inl err \<Rightarrow> webError e (''ipfs block get '' @ c_String (rv_Cid rv)) (Some err) 500 w
      | Inr (Inl err) \<Rightarrow> webError e (''ipfs block get '' @ c_String (rv_Cid rv)) (Some err) 500 w
      | Inr (Inr block) \<Rightarrow> ServeContent e False r name mtime block w)"

text \<open>Getting the node, finding the encoder and encoding: an error comes with its message.\<close>

definition serveCodecConverted :: "gw_env \<Rightarrow> resolved \<Rightarrow> nat \<Rightarrow> modtime \<Rightarrow> resp \<Rightarrow> resp" where
  "serveCodecConverted e rv toCodec mtime w =
     (case Dag_encode e (rv_Cid rv) toCodec of
        Inl (msg, err) \<Rightarrow> webError e msg (Some err) 500 w
      | Inr buf \<Rightarrow> Write buf (last_modified e mtime w))"

definition serveCodec :: "gw_env \<Rightarrow> greq \<Rightarrow> resolved \<Rightarrow> string \<Rightarrow> string \<Rightarrow> resp \<Rightarrow> resp" where
  "serveCodec e r rv contentPath requestedContentType w =
     (let cidCodec = c_Codec (rv_Cid rv) in
      if rv_Remainder rv \<noteq> [] then
        webError e ''unsupported pathing'' 
          (Some (OtherErr (fmt_q e (rv_Remainder rv) @ '' of '' @ fmt_q e (rv_String rv) @
             '' could not be returned: reading IPLD Kinds other than Links (CBOR Tag 42) is not implemented: try reading '' @
             fmt_q e (trim_suffix (rv_String rv) (rv_Remainder rv)) @ '' instead''))) 501 w
      else
        (case (if requestedContentType = [] then codecToContentType e cidCodec else Some requestedContentType) of
           None \<Rightarrow> webError e ''internal error'' (Some (OtherErr (''content type not found for codec: '' @ show_nat e (int cidCodec)))) 500 w
         | Some responseContentType \<Rightarrow>
             (case addCacheControlHeaders e r contentPath (rv_Cid rv) w of (mtime, w) \<Rightarrow>
             (case setCodecContentDisposition r rv responseContentType w of (name, w) \<Rightarrow>
               (let w = Set ''X-Content-Type-Options'' ''nosniff'' (Set ''Content-Type'' responseContentType w) in
                if requestedContentType = [] then
                  (let isDAG = (cidCodec = mc_DagJson e \<or> cidCodec = mc_DagCbor e);
                       acceptsHTML = contains_str (hget (q_Header r) ''Accept'') ''text/html'';
                       download = (q_Query r ''download'' = ''true'')
                   in if isDAG \<and> acceptsHTML \<and> \<not> download then serveCodecHTML e rv contentPath w
                      else serveCodecRaw e r rv name mtime w)
                else
                  (case contentTypeToCodecs e requestedContentType of
                     None \<Rightarrow>
                       webError e (''unsupported content type: '' @ requestedContentType)
                         (Some (OtherErr (''unsupported content type: '' @ requestedContentType))) 500 w
                   | Some codecs \<Rightarrow>
                       (let toCodec = last codecs in
                        if contains_str requestedContentType ''dag-'' then serveCodecConverted e rv toCodec mtime w
                        else if cidCodec \<in> set codecs then serveCodecRaw e r rv name mtime w
                        else serveCodecConverted e rv toCodec mtime w)))))))"

section \<open>Files\<close>

definition serveFile :: "gw_env \<Rightarrow> greq \<Rightarrow> resolved \<Rightarrow> string \<Rightarrow> ufile \<Rightarrow> resp \<Rightarrow> resp" where
  "serveFile e r rv contentPath f w =
     (case addCacheControlHeaders e r contentPath (rv_Cid rv) w of (mtime, w) \<Rightarrow>
     (case addContentDispositionHeader r contentPath w of (name, w) \<Rightarrow>
     (case uf_Size f of
        Inl _ \<Rightarrow> http_Error ''cannot serve files with unknown sizes'' 502 w
      | Inr sz \<Rightarrow>
          if sz = 0 then WriteHeader 200 (Set ''Content-Type'' ''text/plain'' w)
          else
            (let ct = (if uf_symlink f then Inr ''inode/symlink''
                       else
                         (let t = TypeByExtension e (Ext name) in
                          if t \<noteq> [] then Inr t
                          else
                            (case uf_detect f of
                               Inl err \<Rightarrow> Inl (''cannot detect content-type: '' @ err_text e err)
                             | Inr t \<Rightarrow> if uf_seek f = None then Inr t else Inl (''seeker can'' @ [CHR 0x27] @ ''t seek''))))
             in case ct of
                  Inl msg \<Rightarrow> http_Error msg 500 w
                | Inr t \<Rightarrow>
                    ServeContent e True r name mtime (uf_data f)
                      (Set ''Content-Type'' (if \<not> uf_symlink f \<and> has_prefix t ''text/html;'' then ''text/html'' else t) w)))))"

section \<open>Directories\<close>

definition shortHash :: "string \<Rightarrow> string" where
  "shortHash h = (if length h \<le> 8 then h else take 4 h @ [CHR 0xE2, CHR 0x80, CHR 0xA6] @ drop (length h - 4) h)"

definition hasDNSLinkOrigin :: "string \<Rightarrow> string \<Rightarrow> bool" where
  "hasDNSLinkOrigin gwURL path \<longleftrightarrow>
     gwURL \<noteq> [] \<and> has_prefix path (''/ipns/'' @ stripPort (trim_prefix gwURL ''//''))"

text \<open>No segments to speak of is a panic.\<close>

definition breadcrumbs :: "gw_env \<Rightarrow> string \<Rightarrow> bool \<Rightarrow> breadcrumb list option" where
  "breadcrumbs e urlPath dnslinkOrigin =
     (case ip_Segments e urlPath of
        None \<Rightarrow> Some []
      | Some segs \<Rightarrow>
          if length segs < 2 then None
          else
            (let crumb = (\<lambda>i. \<lparr>bc_Name = segs ! i, bc_Path = (if i = 0 then [] else ''/'' @ join_with ''/'' (take (i + 1) segs))\<rparr>);
                 ret = map crumb [0..<length segs];
                 pre = ''/ipns/'' @ (segs ! 1)
             in Some (if dnslinkOrigin
                      then (map (\<lambda>c. c\<lparr>bc_Path := trim_prefix (bc_Path c) pre\<rparr>) ret)[1 := \<lparr>bc_Name = segs ! 1, bc_Path = ''/''\<rparr>]
                      else ret)))"

text \<open>The loops that collect the links and put in the sizes; writing past the end is a panic.\<close>

fun list_links :: "string \<Rightarrow> (gerr + (string \<times> gwcid)) list \<Rightarrow> directoryItem list option" where
  "list_links origURL [] = Some []"
| "list_links origURL (Inl err # ls) = None"
| "list_links origURL (Inr (name, c) # ls) =
     map_option (\<lambda>ds. \<lparr>di_Size = [], di_Name = name, di_Path = path_Join [origURL, name], di_Hash = c_String c,
                       di_ShortHash = shortHash (c_String c)\<rparr> # ds) (list_links origURL ls)"

fun fill_sizes :: "gw_env \<Rightarrow> (gerr + int) list \<Rightarrow> directoryItem list \<Rightarrow> directoryItem list option" where
  "fill_sizes e [] ds = Some ds"
| "fill_sizes e (s # ss) [] = None"
| "fill_sizes e (s # ss) (d # ds) =
     map_option (\<lambda>r. d\<lparr>di_Size := (case s of Inl _ \<Rightarrow> ''?'' | Inr n \<Rightarrow> humanize e n)\<rparr> # r) (fill_sizes e ss ds)"

definition backLink :: "string \<Rightarrow> string \<Rightarrow> string" where
  "backLink contentPath origURL =
     (let pathSplit = split_on slash contentPath in
      if length pathSplit = 3 then []
      else if length pathSplit = 4 \<and> pathSplit ! 3 = [] then []
      else if has_suffix origURL ''/'' then origURL @ ''..'' else origURL @ ''/..'')"

definition serve_listing :: "gw_env \<Rightarrow> greq \<Rightarrow> resolved \<Rightarrow> string \<Rightarrow> udir \<Rightarrow> string \<Rightarrow> resp \<Rightarrow> resp" where
  "serve_listing e r rv contentPath dir origURL w =
     (case Unixfs_Ls e rv of
        Inl err \<Rightarrow> internalWebError e (Some err) w
      | Inr links \<Rightarrow>
          (case list_links origURL links of
             None \<Rightarrow> internalWebError e None w
           | Some items \<Rightarrow>
               (case (if int (length items) < cfg_FastDirIndexThreshold e then fill_sizes e (ud_Entries dir) items else Some items) of
                  None \<Rightarrow> w
                | Some items \<Rightarrow>
                    (let gwURL = (case q_ctx r (RequestKey ''gw-hostname'') of Some h \<Rightarrow> ''//'' @ h | None \<Rightarrow> []);
                         dnslink = hasDNSLinkOrigin gwURL contentPath
                     in case breadcrumbs e contentPath dnslink of
                          None \<Rightarrow> w
                        | Some crumbs \<Rightarrow>
                            (case listing_html e \<lparr>lt_GatewayURL = gwURL, lt_DNSLink = dnslink, lt_Listing = items,
                                     lt_Size = (case ud_Size dir of Inl _ \<Rightarrow> ''?'' | Inr n \<Rightarrow> humanize e n), lt_Path = contentPath,
                                     lt_Breadcrumbs = crumbs, lt_BackLink = backLink contentPath origURL,
                                     lt_Hash = c_String (rv_Cid rv)\<rparr> of
                               Inl err \<Rightarrow> internalWebError e (Some err) w
                             | Inr out \<Rightarrow> Write out w)))))"

definition serveDirectory :: "gw_env \<Rightarrow> greq \<Rightarrow> resolved \<Rightarrow> string \<Rightarrow> udir \<Rightarrow> resp \<Rightarrow> resp" where
  "serveDirectory e r rv contentPath dir w =
     (case url_RequestPath e (q_RequestURI r) of
        Inl err \<Rightarrow> webError e ''failed to parse request path'' (Some err) 500 w
      | Inr origURL \<Rightarrow>
          if origURL = [] then w
          else if last origURL \<noteq> slash \<and> q_Query r ''go-get'' \<noteq> ''1'' then
            http_Redirect e r (origURL @ ''/'' @ (if q_RawQuery r \<noteq> [] then ''?'' @ q_RawQuery r else [])) 301 w
          else
            (let idxPath = ip_Join e contentPath ''index.html'' in
             case Unixfs_Get e idxPath of
               Inr (UFile f) \<Rightarrow> serveFile e r rv idxPath f w
             | Inr _ \<Rightarrow> internalWebError e (Some (ErrNotReader e)) w
             | Inl (ErrNoLink _) \<Rightarrow>
                 if hget (w_Header w) ''Location'' \<noteq> [] then WriteHeader 301 w
                 else
                   (let w = Set ''Etag'' (getDirListingEtag e (rv_Cid rv)) (Set ''Content-Type'' ''text/html'' w) in
                    if q_Method r = ''HEAD'' then w else serve_listing e r rv contentPath dir origURL w)
             | Inl err \<Rightarrow> internalWebError e (Some err) w))"

definition serveUnixFS :: "gw_env \<Rightarrow> greq \<Rightarrow> resolved \<Rightarrow> string \<Rightarrow> resp \<Rightarrow> resp" where
  "serveUnixFS e r rv contentPath w =
     (case Unixfs_Get e (rv_String rv) of
        Inl err \<Rightarrow> webError e (''ipfs cat '' @ html_Escape e contentPath) (Some err) 400 w
      | Inr (UFile f) \<Rightarrow> serveFile e r rv contentPath f w
      | Inr (UDir d) \<Rightarrow> serveDirectory e r rv contentPath d w
      | Inr UOther \<Rightarrow> internalWebError e (Some (OtherErr ''unsupported UnixFS type'')) w)"

section \<open>Redirects and custom error pages\<close>

definition hasOriginIsolation :: "greq \<Rightarrow> bool" where
  "hasOriginIsolation r \<longleftrightarrow>
     q_ctx r (RequestKey ''gw-hostname'') \<noteq> None \<or> q_ctx r (PlainKey ''dnslink-hostname'') \<noteq> None"

definition isUnixfsResponseFormat :: "string \<Rightarrow> bool" where
  "isUnixfsResponseFormat f \<longleftrightarrow> f = []"

text \<open>Fewer than three parts is a panic.\<close>

definition getRootPath :: "gw_env \<Rightarrow> string \<Rightarrow> string option" where
  "getRootPath e path =
     (let parts = split_on slash path in
      if length parts < 3 then None else Some (ip_New e (path_Join [''/'', ip_Namespace e path, parts ! 2])))"

definition getRedirectsFile :: "gw_env \<Rightarrow> string \<Rightarrow> resolved option option" where
  "getRedirectsFile e contentPath =
     map_option (\<lambda>rootPath. case ResolvePath e (ip_Join e rootPath ''_redirects'') of Inl _ \<Rightarrow> None | Inr rv \<Rightarrow> Some rv)
       (getRootPath e contentPath)"

definition getRedirectRules :: "gw_env \<Rightarrow> resolved \<Rightarrow> gerr + rule list" where
  "getRedirectRules e rv =
     (case Unixfs_Get e (rv_String rv) of
        Inl err \<Rightarrow> Inl (OtherErr (''could not get _redirects: '' @ err_text e err))
      | Inr (UFile f) \<Rightarrow>
          (case redirects_Parse e f of
             Inl err \<Rightarrow> Inl (OtherErr (''could not parse _redirects: '' @ err_text e err))
           | Inr rules \<Rightarrow> Inr rules)
      | Inr _ \<Rightarrow> Inl (OtherErr ''could not parse _redirects: %!w(<nil>)''))"

definition serve4xx :: "gw_env \<Rightarrow> greq \<Rightarrow> string \<Rightarrow> int \<Rightarrow> resp \<Rightarrow> gerr option \<times> resp" where
  "serve4xx e r path status w =
     (case ResolvePath e path of
        Inl err \<Rightarrow> (Some err, w)
      | Inr rv \<Rightarrow>
          (case Unixfs_Get e (rv_String rv) of
             Inl err \<Rightarrow> (Some err, w)
           | Inr (UFile f) \<Rightarrow>
               (case uf_Size f of
                  Inl _ \<Rightarrow> (Some (OtherErr (''could not get size of '' @ show_nat e status @ '' page'')), w)
                | Inr sz \<Rightarrow>
                    (let w = Set ''Content-Length'' (show_nat e sz) (Set ''Content-Type'' ''text/html'' w);
                         w = snd (addCacheControlHeaders e r path (rv_Cid rv) w)
                     in (uf_copy f, Write (uf_data f) (WriteHeader status w))))
           | Inr _ \<Rightarrow> (Some (OtherErr (''could not convert node for '' @ show_nat e status @ '' page to file'')), w)))"

text \<open>The rules in order, for the path below the root: whether the request is answered, the rewritten path, the error.\<close>

fun apply_rules :: "gw_env \<Rightarrow> greq \<Rightarrow> string \<Rightarrow> string \<Rightarrow> rule list \<Rightarrow> resp \<Rightarrow> (bool \<times> string \<times> gerr option) \<times> resp" where
  "apply_rules e r rootPath urlPath [] w = ((False, [], None), w)"
| "apply_rules e r rootPath urlPath (ru # rus) w =
     (case ru_match ru urlPath of
        None \<Rightarrow> apply_rules e r rootPath urlPath rus w
      | Some to \<Rightarrow>
          if ru_Status ru = 200 then ((False, rootPath @ to, None), w)
          else if ru_Status ru \<in> {404, 410, 451} then
            (case serve4xx e r (ip_New e (rootPath @ to)) (ru_Status ru) w of (err, w) \<Rightarrow> ((True, rootPath @ to, err), w))
          else if 301 \<le> ru_Status ru \<and> ru_Status ru \<le> 308 then ((True, [], None), http_Redirect e r to (ru_Status ru) w)
          else apply_rules e r rootPath urlPath rus w)"

definition handleRedirectsFileRules :: "gw_env \<Rightarrow> greq \<Rightarrow> string \<Rightarrow> rule list \<Rightarrow> resp \<Rightarrow> (bool \<times> string \<times> gerr option) \<times> resp" where
  "handleRedirectsFileRules e r contentPath rules w =
     (let pathParts = split_on slash contentPath in
      if length pathParts > 3 then
        apply_rules e r (join_with ''/'' (take 3 pathParts)) (trim_suffix (''/'' @ join_with ''/'' (drop 3 pathParts)) ''/'') rules w
      else ((False, [], None), w))"

text \<open>
  What the redirects make of a request: nothing, an answer (or a panic), or another path to serve.
\<close>

datatype redirected = NoRule | Answered | Rewritten resolved string

definition serveRedirectsIfPresent :: "gw_env \<Rightarrow> greq \<Rightarrow> string \<Rightarrow> resp \<Rightarrow> redirected \<times> resp" where
  "serveRedirectsIfPresent e r contentPath w =
     (case getRedirectsFile e contentPath of
        None \<Rightarrow> (Answered, w)
      | Some None \<Rightarrow> (NoRule, w)
      | Some (Some file) \<Rightarrow>
          (case getRedirectRules e file of
             Inl err \<Rightarrow> (Answered, internalWebError e (Some err) w)
           | Inr rules \<Rightarrow>
               (case handleRedirectsFileRules e r contentPath rules w of
                  ((_, _, Some err), w) \<Rightarrow>
                    (Answered, internalWebError e
                       (Some (OtherErr (''trouble processing _redirects file at '' @ fmt_q e (rv_String file) @ '': '' @ err_text e err))) w)
                | ((True, _, None), w) \<Rightarrow> (Answered, w)
                | ((False, newPath, None), w) \<Rightarrow>
                    if newPath \<noteq> [] then
                      (case ResolvePath e (ip_New e newPath) of
                         Inl err \<Rightarrow> (Answered, internalWebError e (Some err) w)
                       | Inr rv \<Rightarrow> (Rewritten rv (ip_New e newPath), w))
                    else (NoRule, w))))"

definition html_spec :: "string \<Rightarrow> bool" where
  "html_spec spec \<longleftrightarrow> spec \<in> {''*/*'', ''text/*'', ''text/html''}"

text \<open>\<^verbatim>\<open>strings.SplitN(spec, ";", 1)[0]\<close> is the whole of \<^verbatim>\<open>spec\<close>.\<close>

definition preferred404Filename :: "string list \<Rightarrow> (string \<times> string) option" where
  "preferred404Filename acceptHeaders =
     (if list_ex (\<lambda>h. list_ex (\<lambda>spec. html_spec (hd (SplitN CHR '';'' 1 spec))) (split_on CHR '','' h)) acceptHeaders
      then Some (''ipfs-404.html'', ''text/html'') else None)"

text \<open>The loop of \<^verbatim>\<open>searchUpTreeFor404\<close>, with \<open>idx\<close> counting down to three.\<close>

fun search_404 :: "gw_env \<Rightarrow> string list \<Rightarrow> string \<Rightarrow> nat \<Rightarrow> resolved option" where
  "search_404 e parts file 0 = None"
| "search_404 e parts file (Suc i) =
     (if Suc i < 3 then None
      else
        (let p = ip_New e (''/'' @ path_Join (take (Suc i) parts @ [file])) in
         if ip_IsValid e p \<noteq> None then None
         else (case ResolvePath e p of Inr rv \<Rightarrow> Some rv | Inl _ \<Rightarrow> search_404 e parts file i)))"

definition searchUpTreeFor404 :: "gw_env \<Rightarrow> greq \<Rightarrow> string \<Rightarrow> (resolved \<times> string) option" where
  "searchUpTreeFor404 e r contentPath =
     (case preferred404Filename (q_Header r ''Accept'') of
        None \<Rightarrow> None
      | Some (file, ctype) \<Rightarrow>
          (let parts = split_on slash contentPath
           in map_option (\<lambda>rv. (rv, ctype)) (search_404 e parts file (length parts))))"

definition serveLegacy404IfPresent :: "gw_env \<Rightarrow> greq \<Rightarrow> string \<Rightarrow> resp \<Rightarrow> bool \<times> resp" where
  "serveLegacy404IfPresent e r contentPath w =
     (case searchUpTreeFor404 e r contentPath of
        None \<Rightarrow> (False, w)
      | Some (rv, ctype) \<Rightarrow>
          (case Unixfs_Get e (rv_String rv) of
             Inr (UFile f) \<Rightarrow>
               (case uf_Size f of
                  Inl _ \<Rightarrow> (False, w)
                | Inr sz \<Rightarrow>
                    (uf_copy f = None,
                     Write (uf_data f) (WriteHeader 404 (Set ''Content-Length'' (show_nat e sz) (Set ''Content-Type'' ctype w)))))
           | _ \<Rightarrow> (False, w)))"

section \<open>Checks in front of a request\<close>

definition handleUnsupportedHeaders :: "greq \<Rightarrow> requestError option" where
  "handleUnsupportedHeaders r =
     (if hget (q_Header r) ''X-Ipfs-Gateway-Prefix'' \<noteq> [] then
        Some \<lparr>re_Message = ''unsupported HTTP header'', re_StatusCode = 400,
              re_Err = OtherErr ''X-Ipfs-Gateway-Prefix support was removed: https://github.com/ipfs/kubo/issues/7702''\<rparr>
      else None)"

text \<open>Whether the request is handled, and the response.\<close>

definition handleProtocolHandlerRedirect :: "gw_env \<Rightarrow> greq \<Rightarrow> resp \<Rightarrow> bool \<times> resp" where
  "handleProtocolHandlerRedirect e r w =
     (let uriParam = q_Query r ''uri'' in
      if uriParam \<noteq> [] then
        (case url_Parse e uriParam of
           Inl err \<Rightarrow> (True, webError e ''failed to parse uri query parameter'' (Some err) 400 w)
         | Inr (scheme, host, upath, rawQuery) \<Rightarrow>
             if scheme \<noteq> ''ipfs'' \<and> scheme \<noteq> ''ipns'' then
               (True, webError e ''uri query parameter scheme must be ipfs or ipns'' None 400 w)
             else
               (let path = (if rawQuery \<noteq> [] then upath @ ''?'' @ rawQuery else upath)
                in (True, http_Redirect e r (path_Join [''/'', scheme, host, path]) 301 w)))
      else (False, w))"

text \<open>The expression \<^verbatim>\<open>^/ip[fn]s/[^/]+$\<close>.\<close>

definition namespace_root :: "string \<Rightarrow> bool" where
  "namespace_root p \<longleftrightarrow>
     (has_prefix p ''/ipfs/'' \<or> has_prefix p ''/ipns/'') \<and> drop 6 p \<noteq> [] \<and> slash \<notin> set (drop 6 p)"

definition handleServiceWorkerRegistration :: "greq \<Rightarrow> requestError option" where
  "handleServiceWorkerRegistration r =
     (if hget (q_Header r) ''Service-Worker'' = ''script'' \<and> namespace_root (q_Path r) then
        Some \<lparr>re_Message = ''navigator.serviceWorker'', re_StatusCode = 400,
              re_Err = OtherErr ''registration is not allowed for this scope''\<rparr>
      else None)"

definition handleOnlyIfCached :: "gw_env \<Rightarrow> greq \<Rightarrow> string \<Rightarrow> resp \<Rightarrow> bool \<times> resp" where
  "handleOnlyIfCached e r contentPath w =
     (if hget (q_Header r) ''Cache-Control'' = ''only-if-cached'' then
        (case offline_Stat e contentPath of
           Some err \<Rightarrow>
             (True, if q_Method r = ''HEAD'' then WriteHeader 412 w
                    else http_Error (fmt_q e contentPath @ '' not in local datastore'') 412 w)
         | None \<Rightarrow> if q_Method r = ''HEAD'' then (True, WriteHeader 200 w) else (False, w))
      else (False, w))"

definition handleSuperfluousNamespace :: "gw_env \<Rightarrow> greq \<Rightarrow> string \<Rightarrow> resp \<Rightarrow> bool \<times> resp" where
  "handleSuperfluousNamespace e r contentPath w =
     (if ip_IsValid e contentPath = None then (False, w)
      else if \<not> (has_prefix (q_Path r) ''/ipfs/ipfs/'' \<or> has_prefix (q_Path r) ''/ipfs/ipns/'') then (False, w)
      else
        (let intendedPath = ip_New e (trim_prefix (q_Path r) ''/ipfs'') in
         case ip_IsValid e intendedPath of
           Some err \<Rightarrow> (True, webError e ''invalid ipfs path'' (Some err) 400 w)
         | None \<Rightarrow>
             (let intendedURL = intendedPath @ (if q_RawQuery r \<noteq> [] then ''?'' @ encode_query e (q_RawQuery r) else []);
                  w = WriteHeader 400 w
              in case fix_html e intendedURL intendedPath
                        (''invalid path: '' @ fmt_q e (q_Path r) @ '' should be '' @ fmt_q e intendedPath) of
                   Inr out \<Rightarrow> (True, Write out w)
                 | Inl err \<Rightarrow> (True, webError e ''failed to redirect when fixing superfluous namespace'' (Some err) 400 w))))"

text \<open>The resolved path and the path to serve, or nothing when the request is done with.\<close>

definition handlePathResolution :: "gw_env \<Rightarrow> greq \<Rightarrow> string \<Rightarrow> string \<Rightarrow> resp \<Rightarrow> (resolved \<times> string) option \<times> resp" where
  "handlePathResolution e r responseFormat contentPath w =
     (case ResolvePath e contentPath of
        Inr rv \<Rightarrow> (Some (rv, contentPath), w)
      | Inl ErrOffline \<Rightarrow> (None, webError e (''ipfs resolve -r '' @ debugStr e contentPath) (Some ErrOffline) 503 w)
      | Inl err \<Rightarrow>
          (let legacy = (\<lambda>w. if isUnixfsResponseFormat responseFormat
                             then (case serveLegacy404IfPresent e r contentPath w of
                                     (True, w) \<Rightarrow> (None, w)
                                   | (False, w) \<Rightarrow> (None, webError e (''ipfs resolve -r '' @ debugStr e contentPath) (Some err) 400 w))
                             else (None, webError e (''ipfs resolve -r '' @ debugStr e contentPath) (Some err) 400 w))
           in if isUnixfsResponseFormat responseFormat \<and> hasOriginIsolation r then
                (case serveRedirectsIfPresent e r contentPath w of
                   (Answered, w) \<Rightarrow> (None, w)
                 | (Rewritten rv newPath, w) \<Rightarrow> (Some (rv, newPath), w)
                 | (NoRule, w) \<Rightarrow> legacy w)
              else legacy w))"

definition handleGettingFirstBlock :: "gw_env \<Rightarrow> resolved \<Rightarrow> requestError option" where
  "handleGettingFirstBlock e rv =
     (case Block_Get e rv of
        Inl err \<Rightarrow> Some \<lparr>re_Message = ''ipfs block get '' @ c_String (rv_Cid rv), re_StatusCode = 500, re_Err = err\<rparr>
      | Inr _ \<Rightarrow> None)"

section \<open>Reading\<close>

definition serve_format :: "gw_env \<Rightarrow> greq \<Rightarrow> string \<Rightarrow> (string \<Rightarrow> string) \<Rightarrow> resolved \<Rightarrow> string \<Rightarrow> resp \<Rightarrow> resp" where
  "serve_format e r responseFormat formatParams rv contentPath w =
     (if responseFormat = [] then
        (if c_Codec (rv_Cid rv) \<in> {mc_Json e, mc_DagJson e, mc_Cbor e, mc_DagCbor e}
         then serveCodec e r rv contentPath responseFormat w
         else serveUnixFS e r rv contentPath w)
      else if responseFormat = ''application/vnd.ipld.raw'' then serveRawBlock e r rv contentPath w
      else if responseFormat = ''application/vnd.ipld.car'' then serveCAR e r rv contentPath (formatParams ''version'') w
      else if responseFormat = ''application/x-tar'' then serveTAR e r rv contentPath w
      else if responseFormat \<in> {''application/json'', ''application/vnd.ipld.dag-json'', ''application/cbor'', ''application/vnd.ipld.dag-cbor''}
      then serveCodec e r rv contentPath responseFormat w
      else
        webError e ''failed respond with requested content type''
          (Some (OtherErr (''unsupported format '' @ fmt_q e responseFormat))) 400 w)"

text \<open>The part of the handler after the path is resolved.\<close>

definition serve_resolved :: "gw_env \<Rightarrow> greq \<Rightarrow> string \<Rightarrow> (string \<Rightarrow> string) \<Rightarrow> resolved \<Rightarrow> string \<Rightarrow> resp \<Rightarrow> resp" where
  "serve_resolved e r responseFormat formatParams rv contentPath w =
     (let inm = hget (q_Header r) ''If-None-Match'' in
      if inm \<noteq> [] \<and> etagMatch inm (getEtag e r (rv_Cid rv)) (getDirListingEtag e (rv_Cid rv)) then WriteHeader 304 w
      else
        (case handleGettingFirstBlock e rv of
           Some err \<Rightarrow> webRequestError e err w
         | None \<Rightarrow>
             (case setCommonHeaders e contentPath w of
                (None, w) \<Rightarrow> w
              | (Some (Some err), w) \<Rightarrow> webRequestError e err w
              | (Some None, w) \<Rightarrow> serve_format e r responseFormat formatParams rv contentPath w)))"

definition getOrHeadHandler :: "gw_env \<Rightarrow> greq \<Rightarrow> resp \<Rightarrow> resp" where
  "getOrHeadHandler e r w =
     (case handleUnsupportedHeaders r of
        Some err \<Rightarrow> webRequestError e err w
      | None \<Rightarrow>
          (case handleProtocolHandlerRedirect e r w of
             (True, w) \<Rightarrow> w
           | (False, w) \<Rightarrow>
               (case handleServiceWorkerRegistration r of
                  Some err \<Rightarrow> webRequestError e err w
                | None \<Rightarrow>
                    (let contentPath = ip_New e (q_Path r) in
                     case handleOnlyIfCached e r contentPath w of
                       (True, w) \<Rightarrow> w
                     | (False, w) \<Rightarrow>
                         (case handleSuperfluousNamespace e r contentPath w of
                            (True, w) \<Rightarrow> w
                          | (False, w) \<Rightarrow>
                              (case customResponseFormat e r of
                                 Inl err \<Rightarrow> webError e ''error while processing the Accept header'' (Some err) 400 w
                               | Inr (responseFormat, formatParams) \<Rightarrow>
                                   (case handlePathResolution e r responseFormat contentPath w of
                                      (None, w) \<Rightarrow> w
                                    | (Some (rv, contentPath), w) \<Rightarrow>
                                        serve_resolved e r responseFormat formatParams rv contentPath w)))))))"

definition optionsHandler :: "gw_env \<Rightarrow> resp \<Rightarrow> resp" where
  "optionsHandler e w = addUserHeaders e w"

section \<open>Writing\<close>

text \<open>
  The calls that write, on a store \<open>'s\<close>; \<open>'m\<close> is a mutable file system on top of it.  \<open>UnlinkMissing\<close> is
  \<^verbatim>\<open>os.ErrNotExist\<close>.
\<close>

datatype unlink_err = UnlinkMissing | UnlinkErr gerr

record ('s, 'm) put_env =
  pe_Add :: "string \<Rightarrow> 's \<Rightarrow> (gerr + gwcid \<times> string) \<times> 's"
  pe_Get :: "string \<Rightarrow> 's \<Rightarrow> gerr + bool"
  pe_Decode :: "string \<Rightarrow> gerr + string"
  pe_NewRoot :: "string \<Rightarrow> 's \<Rightarrow> gerr + 'm"
  pe_Mkdir :: "string \<Rightarrow> 'm \<Rightarrow> gerr option \<times> 'm"
  pe_Lookup :: "string \<Rightarrow> 'm \<Rightarrow> gerr + bool"
  pe_Unlink :: "string \<Rightarrow> string \<Rightarrow> 'm \<Rightarrow> unlink_err option \<times> 'm"
  pe_AddChild :: "string \<Rightarrow> string \<Rightarrow> string \<Rightarrow> 'm \<Rightarrow> gerr option \<times> 'm"
  pe_GetNode :: "'m \<Rightarrow> 's \<Rightarrow> (gerr + gwcid) \<times> 's"
  pe_ParsePath :: "string \<Rightarrow> gerr + string list"
  pe_JoinSegs :: "string list \<Rightarrow> string"

text \<open>A path without a second segment is a panic (\<open>None\<close>).\<close>

definition parseIpfsPath :: "('s, 'm) put_env \<Rightarrow> string \<Rightarrow> (gerr + string \<times> string) option" where
  "parseIpfsPath pe p =
     (case pe_ParsePath pe p of
        Inl err \<Rightarrow> Some (Inl err)
      | Inr [] \<Rightarrow> None
      | Inr (ns # segs) \<Rightarrow>
          if ns \<noteq> ''ipfs'' then Some (Inl (OtherErr ''WritableGateway: only ipfs paths supported''))
          else
            (case segs of
               [] \<Rightarrow> None
             | c # rest \<Rightarrow>
                 Some (case pe_Decode pe c of Inl err \<Rightarrow> Inl err | Inr rootCid \<Rightarrow> Inr (rootCid, pe_JoinSegs pe rest))))"

definition postHandler :: "gw_env \<Rightarrow> ('s, 'm) put_env \<Rightarrow> greq \<Rightarrow> string \<Rightarrow> 's \<Rightarrow> resp \<Rightarrow> resp \<times> 's" where
  "postHandler e pe r body st w =
     (case pe_Add pe body st of
        (Inl err, st) \<Rightarrow> (internalWebError e (Some err) w, st)
      | (Inr (c, p), st) \<Rightarrow> (http_Redirect e r p 201 (Set ''IPFS-Hash'' (c_String c) (addUserHeaders e w)), st))"

text \<open>The new root with the file put in place of what was there.\<close>

definition patch_file :: "gw_env \<Rightarrow> ('s, 'm) put_env \<Rightarrow> string \<Rightarrow> string \<Rightarrow> gwcid \<Rightarrow> 'm \<Rightarrow> (resp \<Rightarrow> resp) option \<times> 'm" where
  "patch_file e pe dir file c m =
     (case (if dir \<noteq> [] then pe_Mkdir pe dir m else (None, m)) of
        (Some err, m) \<Rightarrow> (Some (webError e ''WritableGateway: failed to create MFS directory'' (Some err) 500), m)
      | (None, m) \<Rightarrow>
          (case pe_Lookup pe dir m of
             Inl err \<Rightarrow> (Some (webError e ''WritableGateway: failed to lookup directory'' (Some err) 500), m)
           | Inr False \<Rightarrow> (Some (http_Error ''WritableGateway: target directory is not a directory'' 400), m)
           | Inr True \<Rightarrow>
               (case pe_Unlink pe dir file m of
                  (Some (UnlinkErr err), m) \<Rightarrow>
                    (Some (webError e ''WritableGateway: failed to replace existing file'' (Some err) 400), m)
                | (_, m) \<Rightarrow>
                    (case pe_AddChild pe dir file (c_String c) m of
                       (Some err, m) \<Rightarrow> (Some (webError e ''WritableGateway: failed to link file into directory'' (Some err) 500), m)
                     | (None, m) \<Rightarrow> (None, m)))))"

definition putHandler :: "gw_env \<Rightarrow> ('s, 'm) put_env \<Rightarrow> greq \<Rightarrow> string \<Rightarrow> 's \<Rightarrow> resp \<Rightarrow> resp \<times> 's" where
  "putHandler e pe r body st w =
     (case parseIpfsPath pe (q_Path r) of
        None \<Rightarrow> (w, st)
      | Some (Inl err) \<Rightarrow> (webError e ''WritableGateway: failed to parse the path'' (Some err) 400 w, st)
      | Some (Inr (rootCid, newPath)) \<Rightarrow>
          if newPath = [] \<or> newPath = ''/'' then (http_Error ''WritableGateway: empty path'' 400 w, st)
          else
            (case path_Split newPath of (newDirectory, newFileName) \<Rightarrow>
            (case pe_Get pe rootCid st of
               Inl err \<Rightarrow> (webError e ''WritableGateway: Could not create DAG from request'' (Some err) 500 w, st)
             | Inr False \<Rightarrow>
                 (webError e ''Cannot read non protobuf nodes through gateway'' (Some (OtherErr ''expected protobuf dag node'')) 400 w, st)
             | Inr True \<Rightarrow>
                 (case pe_Add pe body st of
                    (Inl err, st) \<Rightarrow> (webError e ''WritableGateway: could not create DAG from request'' (Some err) 500 w, st)
                  | (Inr (fc, fp), st) \<Rightarrow>
                      (case pe_Get pe (c_String fc) st of
                         Inl err \<Rightarrow> (webError e ''WritableGateway: failed to resolve new file'' (Some err) 500 w, st)
                       | Inr _ \<Rightarrow>
                           (case pe_NewRoot pe rootCid st of
                              Inl err \<Rightarrow> (webError e ''WritableGateway: failed to create MFS root'' (Some err) 400 w, st)
                            | Inr m \<Rightarrow>
                                (case patch_file e pe newDirectory newFileName fc m of
                                   (Some fail, m) \<Rightarrow> (fail w, st)
                                 | (None, m) \<Rightarrow>
                                     (case pe_GetNode pe m st of
                                        (Inl err, st) \<Rightarrow> (webError e ''WritableGateway: failed to finalize'' (Some err) 500 w, st)
                                      | (Inr newcid, st) \<Rightarrow>
                                          (http_Redirect e r (path_Join [''/ipfs/'', c_String newcid, newPath]) 201
                                             (Set ''IPFS-Hash'' (c_String newcid) (addUserHeaders e w)), st)))))))))"

definition deleteHandler :: "gw_env \<Rightarrow> ('s, 'm) put_env \<Rightarrow> greq \<Rightarrow> 's \<Rightarrow> resp \<Rightarrow> resp \<times> 's" where
  "deleteHandler e pe r st w =
     (case parseIpfsPath pe (q_Path r) of
        None \<Rightarrow> (w, st)
      | Some (Inl err) \<Rightarrow> (webError e ''WritableGateway: failed to parse the path'' (Some err) 400 w, st)
      | Some (Inr (rootCid, newPath)) \<Rightarrow>
          if newPath = [] \<or> newPath = ''/'' then (http_Error ''WritableGateway: empty path'' 400 w, st)
          else
            (case path_Split newPath of (directory, filename) \<Rightarrow>
            (case pe_Get pe rootCid st of
               Inl err \<Rightarrow> (webError e ''WritableGateway: failed to resolve root CID'' (Some err) 500 w, st)
             | Inr False \<Rightarrow> (http_Error ''WritableGateway: empty path'' 500 w, st)
             | Inr True \<Rightarrow>
                 (case pe_NewRoot pe rootCid st of
                    Inl err \<Rightarrow> (webError e ''WritableGateway: failed to construct the MFS root'' (Some err) 400 w, st)
                  | Inr m \<Rightarrow>
                      (case pe_Lookup pe directory m of
                         Inl err \<Rightarrow> (webError e ''WritableGateway: failed to look up parent'' (Some err) 500 w, st)
                       | Inr False \<Rightarrow> (http_Error ''WritableGateway: parent is not a directory'' 500 w, st)
                       | Inr True \<Rightarrow>
                           (case pe_Unlink pe directory filename m of
                              (Some (UnlinkErr err), m) \<Rightarrow> (webError e ''WritableGateway: failed to remove file'' None 500 w, st)
                            | (_, m) \<Rightarrow>
                                (case pe_GetNode pe m st of
                                   (Inl err, st) \<Rightarrow> (webError e ''WritableGateway: failed to finalize'' (Some err) 500 w, st)
                                 | (Inr ncid, st) \<Rightarrow>
                                     (http_Redirect e r (path_Join [''/ipfs/'' @ c_String ncid, directory]) 201
                                        (Set ''IPFS-Hash'' (c_String ncid) (addUserHeaders e w)), st))))))))"

section \<open>The handler\<close>

definition ServeHTTP :: "gw_env \<Rightarrow> ('s, 'm) put_env \<Rightarrow> bool \<Rightarrow> greq \<Rightarrow> string \<Rightarrow> 's \<Rightarrow> resp \<Rightarrow> resp \<times> 's" where
  "ServeHTTP e pe Writable r body st w =
     (if Writable \<and> q_Method r = ''POST'' then postHandler e pe r body st w
      else if Writable \<and> q_Method r = ''PUT'' then putHandler e pe r body st w
      else if Writable \<and> q_Method r = ''DELETE'' then deleteHandler e pe r st w
      else if q_Method r \<in> {''GET'', ''HEAD''} then (getOrHeadHandler e r w, st)
      else if q_Method r = ''OPTIONS'' then (optionsHandler e w, st)
      else
        (let errmsg = ''Method '' @ q_Method r @ '' not allowed: '' in
         if \<not> Writable then
           (http_Error (errmsg @ ''read only access'') 405 (Add ''Allow'' ''OPTIONS'' (Add ''Allow'' ''HEAD'' (Add ''Allow'' ''GET'' w))), st)
         else (http_Error (errmsg @ ''bad request for '' @ q_Path r) 400 w, st)))"

text \<open>What the client sees when the handler has returned.\<close>

definition status :: "resp \<Rightarrow> int" where
  "status w = (case w_status w of None \<Rightarrow> 200 | Some c \<Rightarrow> c)"

definition sent_headers :: "resp \<Rightarrow> headers" where
  "sent_headers w = (case w_status w of None \<Rightarrow> w_Header w | Some _ \<Rightarrow> w_sent w)"

end
