(* ===== verification/GatewayProps.thy ===== *)
theory GatewayProps
  imports Gateway
begin

text \<open>
  What the gateway promises: mutable content is never marked immutable, the tags it hands out are recognised when
  they come back, a read-only gateway writes nothing, content redirects only an isolated origin, and a missing
  page is answered by the nearest page the site has for it; and where the code falls short.
\<close>

section \<open>What may stand in a header\<close>

text \<open>The values of one header, in the map and as sent, are all allowed.\<close>

definition okh :: "string \<Rightarrow> string set \<Rightarrow> resp \<Rightarrow> bool" where
  "okh K A w \<longleftrightarrow> set (w_Header w K) \<subseteq> A \<and> set (w_sent w K) \<subseteq> A"

definition other_headers :: "string set" where
  "other_headers = {''Content-Type'', ''X-Content-Type-Options'', ''Location'', ''Content-Disposition'', ''X-Stream-Error'', ''Accept-Ranges'',
     ''Last-Modified'', ''X-Ipfs-Path'', ''X-Ipfs-Roots'', ''Content-Length''}"

text \<open>
  The header is none the handlers use for other things, the operator's configuration and the standard library
  put nothing else there, and the tags and cache controls of what is served are allowed.
\<close>

definition policy :: "gw_env \<Rightarrow> greq \<Rightarrow> string \<Rightarrow> string set \<Rightarrow> (string \<Rightarrow> bool) \<Rightarrow> gwcid set \<Rightarrow> bool" where
  "policy e r K A P C \<longleftrightarrow>
     K \<notin> other_headers \<and>
     (\<forall>k vs. (k, vs) \<in> set (cfg_Headers e) \<longrightarrow> k = K \<longrightarrow> set vs \<subseteq> A) \<and>
     (\<forall>h name mt content. set (fst (std_ServeContent e r h name mt content) K) \<subseteq> set (h K)) \<and>
     (\<forall>c \<in> C. K = ''Etag'' \<longrightarrow> getEtag e r c \<in> A \<and> ''W/'' @ getEtag e r c \<in> A \<and> getDirListingEtag e c \<in> A) \<and>
     (\<forall>p. P p \<longrightarrow> K = ''Cache-Control'' \<longrightarrow> \<not> ip_Mutable e p \<longrightarrow> immutableCacheControl \<in> A) \<and>
     (\<forall>p x. P p \<longrightarrow> P (ip_Join e p x))"

lemma okh_Set [simp]: "okh K A w \<Longrightarrow> k \<noteq> K \<or> v \<in> A \<Longrightarrow> okh K A (Set k v w)"
  by (auto simp: okh_def Set_def)

lemma okh_Del [simp]: "okh K A w \<Longrightarrow> okh K A (Del k w)"
  by (auto simp: okh_def Del_def)

lemma okh_WriteHeader [simp]: "okh K A w \<Longrightarrow> okh K A (WriteHeader code w)"
  by (auto simp: okh_def WriteHeader_def)

lemma okh_Write [simp]: "okh K A w \<Longrightarrow> okh K A (Write s w)"
  using okh_WriteHeader[of K A w 200] by (simp add: okh_def Write_def Let_def)

lemma okh_http_Error [simp]: "K \<notin> other_headers \<Longrightarrow> okh K A w \<Longrightarrow> okh K A (http_Error msg code w)"
  by (auto simp: http_Error_def other_headers_def)

lemma okh_webError [simp]:
  "K \<notin> other_headers \<Longrightarrow> okh K A w \<Longrightarrow> okh K A (webErrorWithCode e msg err code w)"
  "K \<notin> other_headers \<Longrightarrow> okh K A w \<Longrightarrow> okh K A (internalWebError e err w)"
  "K \<notin> other_headers \<Longrightarrow> okh K A w \<Longrightarrow> okh K A (webError e msg err code w)"
  "K \<notin> other_headers \<Longrightarrow> okh K A w \<Longrightarrow> okh K A (webRequestError e re w)"
  by (auto simp: webErrorWithCode_def internalWebError_def webError_def webRequestError_def split: option.splits gerr.splits)

lemma okh_Redirect [simp]: "K \<notin> other_headers \<Longrightarrow> okh K A w \<Longrightarrow> okh K A (http_Redirect e r url code w)"
  by (auto simp: http_Redirect_def Let_def other_headers_def)

lemma okh_last_modified [simp]: "K \<notin> other_headers \<Longrightarrow> okh K A w \<Longrightarrow> okh K A (last_modified e mt w)"
  by (auto simp: last_modified_def other_headers_def split: modtime.splits)

lemma okh_disposition [simp]: "K \<notin> other_headers \<Longrightarrow> okh K A w \<Longrightarrow> okh K A (setContentDispositionHeader f d w)"
  by (auto simp: setContentDispositionHeader_def Let_def other_headers_def)

lemma okh_fold_user:
  "\<forall>k vs. (k, vs) \<in> set hs \<longrightarrow> k = K \<longrightarrow> set vs \<subseteq> A \<Longrightarrow> okh K A w \<Longrightarrow>
   okh K A (fold (\<lambda>(k, v) w. w\<lparr>w_Header := (w_Header w)(k := v)\<rparr>) hs w)"
proof (induction hs arbitrary: w)
  case (Cons kv hs)
  obtain k vs where kv: "kv = (k, vs)" by fastforce
  with Cons.prems have w: "okh K A (w\<lparr>w_Header := (w_Header w)(k := vs)\<rparr>)" by (auto simp: okh_def)
  have "fold (\<lambda>(k, v) w. w\<lparr>w_Header := (w_Header w)(k := v)\<rparr>) (kv # hs) w =
      fold (\<lambda>(k, v) w. w\<lparr>w_Header := (w_Header w)(k := v)\<rparr>) hs (w\<lparr>w_Header := (w_Header w)(k := vs)\<rparr>)" by (simp add: kv)
  then show ?case using Cons.IH[OF _ w] Cons.prems(1) by (metis list.set_intros(2))
qed simp

lemma policy_other: "policy e r K A P C \<Longrightarrow> K \<notin> other_headers"
  by (simp add: policy_def)

lemma okh_user: "policy e r K A P C \<Longrightarrow> okh K A w \<Longrightarrow> okh K A (addUserHeaders e w)"
  unfolding addUserHeaders_def policy_def by (blast intro: okh_fold_user)

lemma okh_ServeContent:
  assumes "policy e r K A P C" and "okh K A w"
  shows "okh K A (ServeContent e sw r name mt content w)"
proof -
  obtain h code body where s: "std_ServeContent e r (w_Header w) name mt content = (h, code, body)" by (metis surj_pair)
  with assms have "set (h K) \<subseteq> A" unfolding policy_def okh_def by (metis (no_types, lifting) fst_conv order_trans)
  then have "okh K A (w\<lparr>w_Header := h\<rparr>)" using assms(2) by (simp add: okh_def)
  then show ?thesis by (simp add: ServeContent_def s Let_def)
qed

lemma okh_cache:
  assumes "policy e r K A P C" and "okh K A w" and "P p" and "c \<in> C"
  shows "okh K A (snd (addCacheControlHeaders e r p c w))"
  using assms by (auto simp: addCacheControlHeaders_def policy_def Let_def intro!: okh_Set)

lemma okh_cache': "policy e r K A P C \<Longrightarrow> okh K A w \<Longrightarrow> P p \<Longrightarrow> c \<in> C \<Longrightarrow> addCacheControlHeaders e r p c w = (mt, w') \<Longrightarrow> okh K A w'"
  using okh_cache by fastforce

lemma other_names [simp]:
  "K \<notin> other_headers \<Longrightarrow> ''Content-Type'' \<noteq> K" "K \<notin> other_headers \<Longrightarrow> ''X-Content-Type-Options'' \<noteq> K"
  "K \<notin> other_headers \<Longrightarrow> ''X-Stream-Error'' \<noteq> K" "K \<notin> other_headers \<Longrightarrow> ''Accept-Ranges'' \<noteq> K"
  "K \<notin> other_headers \<Longrightarrow> ''X-Ipfs-Path'' \<noteq> K" "K \<notin> other_headers \<Longrightarrow> ''X-Ipfs-Roots'' \<noteq> K" "K \<notin> other_headers \<Longrightarrow> ''Content-Length'' \<noteq> K"
  by (auto simp: other_headers_def)

text \<open>Every way of serving content keeps to the policy.\<close>

lemma okh_serveRawBlock:
  assumes "policy e r K A P C" and "okh K A w" and "P p" and "rv_Cid rv \<in> C"
  shows "okh K A (serveRawBlock e r rv p w)"
  using assms policy_other[OF assms(1)]
  by (auto simp: serveRawBlock_def Let_def intro!: okh_ServeContent[OF assms(1)] dest!: okh_cache'[OF assms(1), rotated 3]
      split: sum.splits prod.splits)

lemma okh_etag:
  assumes "policy e r K A P C" and "okh K A w" and "c \<in> C"
  shows "okh K A (Set ''Etag'' (''W/'' @ getEtag e r c) w)" "okh K A (Set ''Etag'' (getDirListingEtag e c) w)"
  using assms by (auto simp: policy_def intro!: okh_Set)

lemma okh_serveCAR:
  assumes "policy e r K A P C" and "okh K A w" and "P p" and "rv_Cid rv \<in> C"
  shows "okh K A (serveCAR e r rv p v w)"
proof -
  note K = policy_other[OF assms(1)]
  let ?w = "Set ''Etag'' (''W/'' @ getEtag e r (rv_Cid rv))
    (snd (addCacheControlHeaders e r p (rv_Cid rv) (setContentDispositionHeader (url_name r (c_String (rv_Cid rv) @ ''.car'')) ''attachment'' w)))"
  have "okh K A ?w" using assms(2) K by (intro okh_etag(1)[OF assms(1) _ assms(4)] okh_cache[OF assms(1) _ assms(3,4)]) simp
  with K assms(2) show ?thesis unfolding serveCAR_def Let_def by (auto split: option.splits prod.splits)
qed

lemma okh_serveTAR:
  assumes "policy e r K A P C" and "okh K A w" and "P p" and "rv_Cid rv \<in> C"
  shows "okh K A (serveTAR e r rv p w)"
proof -
  note K = policy_other[OF assms(1)]
  obtain mt w1 where a: "addCacheControlHeaders e r p (rv_Cid rv) w = (mt, w1)" by fastforce
  have "okh K A (Set ''Etag'' (''W/'' @ getEtag e r (rv_Cid rv)) w1)"
    using okh_cache'[OF assms a] okh_etag(1)[OF assms(1) _ assms(4)] by blast
  with K assms(2) a show ?thesis unfolding serveTAR_def Let_def by (auto split: option.splits prod.splits sum.splits)
qed

lemma okh_serveFile:
  assumes "policy e r K A P C" and "okh K A w" and "P p" and "rv_Cid rv \<in> C"
  shows "okh K A (serveFile e r rv p f w)"
proof -
  note K = policy_other[OF assms(1)]
  obtain mt w1 where a: "addCacheControlHeaders e r p (rv_Cid rv) w = (mt, w1)" by fastforce
  obtain name w2 where b: "addContentDispositionHeader r p w1 = (name, w2)" by fastforce
  have w2: "okh K A w2" using okh_cache'[OF assms a] b K by (auto simp: addContentDispositionHeader_def Let_def split: if_splits)
  have sc: "okh K A (ServeContent e True r name mt (uf_data f) (Set ''Content-Type'' t w2))" for t
    using w2 K by (intro okh_ServeContent[OF assms(1)]) simp
  show ?thesis using w2 K sc by (auto simp: serveFile_def a b Let_def split: sum.splits)
qed

text \<open>The page that shows an IPLD document, which has a tag of its own.\<close>

definition html_view :: "gw_env \<Rightarrow> greq \<Rightarrow> resolved \<Rightarrow> string \<Rightarrow> bool" where
  "html_view e r rv requested \<longleftrightarrow>
     requested = [] \<and> c_Codec (rv_Cid rv) \<in> {mc_DagJson e, mc_DagCbor e} \<and>
     contains_str (hget (q_Header r) ''Accept'') ''text/html'' \<and> q_Query r ''download'' \<noteq> ''true''"

lemma okh_serveCodec:
  assumes "policy e r K A P C" and "okh K A w" and "P p" and "rv_Cid rv \<in> C"
    and "K = ''Etag'' \<Longrightarrow> \<not> html_view e r rv t"
  shows "okh K A (serveCodec e r rv p t w)"
proof -
  note K = policy_other[OF assms(1)]
  obtain mt w1 where a: "addCacheControlHeaders e r p (rv_Cid rv) w = (mt, w1)" by fastforce
  note w1 = okh_cache'[OF assms(1-4) a]
  have raw: "okh K A v \<Longrightarrow> okh K A (serveCodecRaw e r rv name mt v)" for v name
    using K by (auto simp: serveCodecRaw_def intro!: okh_ServeContent[OF assms(1)] split: sum.splits)
  have conv: "okh K A v \<Longrightarrow> okh K A (serveCodecConverted e rv c mt v)" for v c
    using K by (auto simp: serveCodecConverted_def split: sum.splits prod.splits)
  have html: "okh K A (serveCodecHTML e rv p v)" if "okh K A v" "html_view e r rv t" for v
  proof -
    have "''Etag'' \<noteq> K" using that assms(5) by blast
    with that K show ?thesis by (simp add: serveCodecHTML_def Let_def split: sum.splits)
  qed
  have disp: "setCodecContentDisposition r rv ct w1 = (name, w2) \<Longrightarrow> okh K A w2" for ct name w2
    using w1 K by (auto simp: setCodecContentDisposition_def Let_def)
  show ?thesis
  proof (cases "if t = [] then codecToContentType e (c_Codec (rv_Cid rv)) else Some t")
    case None
    with assms(2) K a show ?thesis by (simp add: serveCodec_def Let_def)
  next
    case (Some ct)
    obtain name w2 where b: "setCodecContentDisposition r rv ct w1 = (name, w2)" by fastforce
    let ?w = "Set ''X-Content-Type-Options'' ''nosniff'' (Set ''Content-Type'' ct w2)"
    have w2: "okh K A ?w" using disp[OF b] K by simp
    show ?thesis
    proof (cases "t = []")
      case True
      with Some b a assms(2) K raw[OF w2] html[OF w2] show ?thesis by (auto simp: serveCodec_def Let_def html_view_def)
    next
      case False
      with Some b a assms(2) K raw[OF w2] conv[OF w2] w2 show ?thesis by (auto simp: serveCodec_def Let_def split: option.splits)
    qed
  qed
qed

lemma okh_serveUnixFS:
  assumes "policy e r K A P C" and "okh K A w" and "P p" and "rv_Cid rv \<in> C"
  shows "okh K A (serveUnixFS e r rv p w)"
proof -
  note K = policy_other[OF assms(1)]
  have list: "okh K A v \<Longrightarrow> okh K A (serve_listing e r rv p d u v)" for v d u
    using K by (auto simp: serve_listing_def Let_def split: sum.splits option.splits)
  have idx: "okh K A (serveFile e r rv (ip_Join e p x) f w)" for x f
    using assms by (intro okh_serveFile[OF assms(1,2)]) (auto simp: policy_def)
  have tag: "okh K A (Set ''Etag'' (getDirListingEtag e (rv_Cid rv)) (Set ''Content-Type'' ''text/html'' w))"
    using assms(2) K by (intro okh_etag(2)[OF assms(1) _ assms(4)]) simp
  have "okh K A (serveDirectory e r rv p d w)" for d
  proof (cases "url_RequestPath e (q_RequestURI r)")
    case (Inr u)
    show ?thesis
    proof (cases "u = []")
      case True
      with Inr assms(2) show ?thesis by (simp add: serveDirectory_def)
    next
      case u: False
      show ?thesis
      proof (cases "last u \<noteq> slash \<and> q_Query r ''go-get'' \<noteq> ''1''")
        case True
        with Inr u assms(2) K show ?thesis by (simp add: serveDirectory_def)
      next
        case False
        then have d: "serveDirectory e r rv p d w =
          (case Unixfs_Get e (ip_Join e p ''index.html'') of
               Inr (UFile f) \<Rightarrow> serveFile e r rv (ip_Join e p ''index.html'') f w
             | Inr _ \<Rightarrow> internalWebError e (Some (ErrNotReader e)) w
             | Inl (ErrNoLink _) \<Rightarrow>
                 if hget (w_Header w) ''Location'' \<noteq> [] then WriteHeader 301 w
                 else
                   (let w = Set ''Etag'' (getDirListingEtag e (rv_Cid rv)) (Set ''Content-Type'' ''text/html'' w) in
                    if q_Method r = ''HEAD'' then w else serve_listing e r rv p d u w)
             | Inl err \<Rightarrow> internalWebError e (Some err) w)"
          using Inr u by (simp only: serveDirectory_def Let_def sum.case if_False)
        show ?thesis unfolding d Let_def using assms(2) K idx tag list[OF tag] by (simp split: sum.split unode.split gerr.split)
      qed
    qed
  qed (use assms(2) K in \<open>simp add: serveDirectory_def\<close>)
  then show ?thesis using assms(2) K okh_serveFile[OF assms] by (auto simp: serveUnixFS_def split: sum.splits unode.splits)
qed

lemma okh_serve_resolved:
  assumes "policy e r K A P C" and "okh K A w" and "P p" and "rv_Cid rv \<in> C"
    and "K = ''Etag'' \<Longrightarrow> \<not> html_view e r rv fmt"
  shows "okh K A (serve_resolved e r fmt params rv p w)"
proof -
  note K = policy_other[OF assms(1)]
  have fmt: "okh K A (serve_format e r fmt params rv p v)" if "okh K A v" for v
    unfolding serve_format_def
    using K that okh_serveRawBlock[OF assms(1) that assms(3,4)] okh_serveCAR[OF assms(1) that assms(3,4)]
      okh_serveTAR[OF assms(1) that assms(3,4)] okh_serveCodec[OF assms(1) that assms(3-5)] okh_serveUnixFS[OF assms(1) that assms(3,4)]
    by (cases "fmt = []") simp_all
  have "okh K A v" if "setCommonHeaders e p w = (x, v)" for x v
    using that okh_user[OF assms(1,2)] K by (auto simp: setCommonHeaders_def Let_def split: option.splits sum.splits)
  then show ?thesis using assms(2) K fmt
    by (simp add: serve_resolved_def Let_def split: option.split prod.split)
qed

section \<open>Mutable content\<close>

text \<open>The path package, for mutable paths.\<close>

definition ipns_ok :: "gw_env \<Rightarrow> bool" where
  "ipns_ok e \<longleftrightarrow>
     (\<forall>p. has_prefix p ''/ipns/'' \<longrightarrow> ip_New e p = p \<and> ip_Mutable e p \<and> (\<forall>x. has_prefix (ip_Join e p x) ''/ipns/''))"

text \<open>Nothing but the gateway says that content is immutable.\<close>

definition headers_ok :: "gw_env \<Rightarrow> greq \<Rightarrow> bool" where
  "headers_ok e r \<longleftrightarrow>
     (\<forall>k vs. (k, vs) \<in> set (cfg_Headers e) \<longrightarrow> k = ''Cache-Control'' \<longrightarrow> immutableCacheControl \<notin> set vs) \<and>
     (\<forall>h name mt content. set (fst (std_ServeContent e r h name mt content) ''Cache-Control'') \<subseteq> set (h ''Cache-Control''))"

abbreviation mutable_path :: "string \<Rightarrow> bool" where
  "mutable_path p \<equiv> has_prefix p ''/ipns/''"

lemma mutable_policy:
  "ipns_ok e \<Longrightarrow> headers_ok e r \<Longrightarrow> policy e r ''Cache-Control'' (- {immutableCacheControl}) mutable_path UNIV"
  unfolding policy_def ipns_ok_def headers_ok_def other_headers_def by auto

lemma ipns_root:
  assumes "mutable_path p"
  shows "mutable_path (join_with ''/'' (take 3 (split_on slash p)) @ t)"
proof -
  from assms obtain q where p: "p = ''/ipns/'' @ q" by (metis append_take_drop_id has_prefix_def)
  have "split_on slash p = [] # ''ipns'' # split_on slash q" by (simp add: p slash_def)
  moreover obtain x xs where "split_on slash q = x # xs" by (cases "split_on slash q") auto
  ultimately show ?thesis by (simp add: has_prefix_def)
qed

lemma okh_apply_rules:
  assumes pol: "policy e r ''Cache-Control'' A mutable_path UNIV" and e: "ipns_ok e" and root: "\<And>t. mutable_path (root @ t)"
    and "okh ''Cache-Control'' A w" and "apply_rules e r root url rules w = (res, w')"
  shows "okh ''Cache-Control'' A w' \<and> (fst (snd res) = [] \<or> mutable_path (fst (snd res)))"
  using assms(4,5)
proof (induction rules arbitrary: w)
  case (Cons ru rus)
  have K: "''Cache-Control'' \<notin> other_headers" by (simp add: other_headers_def)
  have s4: "okh ''Cache-Control'' A v'" if s: "serve4xx e r (ip_New e (root @ t)) st v = (err, v')" and v: "okh ''Cache-Control'' A v" for t st v err v'
  proof -
    have m: "ip_New e (root @ t) = root @ t" using e root unfolding ipns_ok_def by blast
    have c: "okh ''Cache-Control'' A (snd (addCacheControlHeaders e r (root @ t) c u))" if "okh ''Cache-Control'' A u" for c u
      using okh_cache[OF pol that root] by simp
    show ?thesis using s v K unfolding serve4xx_def m
      by (auto simp: Let_def intro!: okh_Write okh_WriteHeader c split: sum.splits unode.splits)
  qed
  show ?case
  proof (cases "ru_match ru url")
    case None
    with Cons show ?thesis by simp
  next
    case (Some to)
    obtain err v where x: "serve4xx e r (ip_New e (root @ to)) (ru_Status ru) w = (err, v)" by fastforce
    with s4[OF x] Cons Some K root show ?thesis by (auto split: if_splits)
  qed
qed auto

lemma okh_redirects:
  assumes pol: "policy e r ''Cache-Control'' A mutable_path UNIV" and e: "ipns_ok e" and p: "mutable_path p"
    and w: "okh ''Cache-Control'' A w" and s: "serveRedirectsIfPresent e r p w = (res, w')"
  shows "okh ''Cache-Control'' A w' \<and> (\<forall>rv q. res = Rewritten rv q \<longrightarrow> mutable_path q)"
proof -
  have K: "''Cache-Control'' \<notin> other_headers" by (simp add: other_headers_def)
  have h: "okh ''Cache-Control'' A v \<and> (np = [] \<or> mutable_path np)"
    if "handleRedirectsFileRules e r p rules w = ((red, np, err), v)" for rules red np err v
    using that w by (auto simp: handleRedirectsFileRules_def Let_def dest!: okh_apply_rules[OF pol e ipns_root[OF p] w] split: if_splits)
  have n: "mutable_path np \<Longrightarrow> mutable_path (ip_New e np)" for np using e unfolding ipns_ok_def by metis
  show ?thesis
  proof (cases "getRedirectsFile e p")
    case None
    with s w show ?thesis by (auto simp: serveRedirectsIfPresent_def)
  next
    case (Some fo)
    show ?thesis
    proof (cases fo)
      case None
      with Some s w show ?thesis by (auto simp: serveRedirectsIfPresent_def)
    next
      case f: (Some fo')
      show ?thesis
      proof (cases "getRedirectRules e fo'")
        case (Inl err)
        with Some f s w K show ?thesis by (auto simp: serveRedirectsIfPresent_def)
      next
        case (Inr rules)
        obtain red np err v where hr: "handleRedirectsFileRules e r p rules w = ((red, np, err), v)" by (metis surj_pair)
        with Some f Inr s h[OF hr] n[of np] K show ?thesis
          by (cases err; cases red) (auto simp: serveRedirectsIfPresent_def split: if_splits sum.splits)
      qed
    qed
  qed
qed

lemma okh_resolution:
  assumes pol: "policy e r ''Cache-Control'' A mutable_path UNIV" and e: "ipns_ok e" and p: "mutable_path p"
    and w: "okh ''Cache-Control'' A w" and s: "handlePathResolution e r fmt p w = (res, w')"
  shows "okh ''Cache-Control'' A w' \<and> (\<forall>rv q. res = Some (rv, q) \<longrightarrow> mutable_path q)"
proof -
  have K: "''Cache-Control'' \<notin> other_headers" by (simp add: other_headers_def)
  have l: "okh ''Cache-Control'' A v'" if "serveLegacy404IfPresent e r p v = (b, v')" "okh ''Cache-Control'' A v" for v v' b
    using that K by (auto simp: serveLegacy404IfPresent_def split: option.splits sum.splits unode.splits)
  show ?thesis
  proof (cases "ResolvePath e p")
    case (Inr rv)
    with s w p show ?thesis by (auto simp: handlePathResolution_def)
  next
    case (Inl err)
    obtain b v where lg: "serveLegacy404IfPresent e r p w = (b, v)" by fastforce
    obtain rd v1 where rd: "serveRedirectsIfPresent e r p w = (rd, v1)" by fastforce
    obtain b' v' where lg1: "serveLegacy404IfPresent e r p v1 = (b', v')" by fastforce
    note facts = l[OF lg w] okh_redirects[OF pol e p w rd] l[OF lg1]
    show ?thesis
    proof (cases "err = ErrOffline")
      case True
      with Inl s w K show ?thesis by (auto simp: handlePathResolution_def)
    next
      case False
      then show ?thesis using Inl s w K lg rd lg1 facts
        by (cases b; cases b'; cases rd)
          (auto simp: handlePathResolution_def Let_def split: gerr.splits if_splits)
    qed
  qed
qed

section \<open>Tags\<close>

text \<open>The request gets past the checks in front.\<close>

definition passes :: "gw_env \<Rightarrow> greq \<Rightarrow> bool" where
  "passes e r \<longleftrightarrow>
     handleUnsupportedHeaders r = None \<and> q_Query r ''uri'' = [] \<and> handleServiceWorkerRegistration r = None \<and>
     hget (q_Header r) ''Cache-Control'' \<noteq> ''only-if-cached'' \<and> ip_IsValid e (ip_New e (q_Path r)) = None"

lemma getOrHead_passes:
  assumes "passes e r" and "customResponseFormat e r = Inr (fmt, params)"
  shows "getOrHeadHandler e r w =
    (case handlePathResolution e r fmt (ip_New e (q_Path r)) w of (None, w) \<Rightarrow> w
     | (Some (rv, p), w) \<Rightarrow> serve_resolved e r fmt params rv p w)"
  using assms
  by (simp add: passes_def getOrHeadHandler_def handleProtocolHandlerRedirect_def handleOnlyIfCached_def handleSuperfluousNamespace_def Let_def)

lemma getOrHead_resolved:
  assumes "passes e r" and "customResponseFormat e r = Inr (fmt, params)" and "ResolvePath e (ip_New e (q_Path r)) = Inr rv"
  shows "getOrHeadHandler e r w = serve_resolved e r fmt params rv (ip_New e (q_Path r)) w"
  using getOrHead_passes[OF assms(1,2)] assms(3) by (simp add: handlePathResolution_def)

text \<open>CIDs, hashes and formats are written with characters a tag may have.\<close>

definition tags_ok :: "gw_env \<Rightarrow> greq \<Rightarrow> gwcid \<Rightarrow> bool" where
  "tags_ok e r c \<longleftrightarrow>
     (\<forall>x \<in> set (c_String c) \<union> set (AssetHash e). etag_char x) \<and>
     (\<forall>t ps. customResponseFormat e r = Inr (t, ps) \<longrightarrow> (\<forall>x \<in> set t. etag_char x))"

text \<open>Nothing but the handlers puts tags on responses.\<close>

definition etags_ours :: "gw_env \<Rightarrow> greq \<Rightarrow> bool" where
  "etags_ours e r \<longleftrightarrow>
     (\<forall>k vs. (k, vs) \<in> set (cfg_Headers e) \<longrightarrow> k \<noteq> ''Etag'') \<and>
     (\<forall>h name mt content. set (fst (std_ServeContent e r h name mt content) ''Etag'') \<subseteq> set (h ''Etag''))"

definition our_tags :: "gw_env \<Rightarrow> greq \<Rightarrow> gwcid \<Rightarrow> string set" where
  "our_tags e r c = {getEtag e r c, ''W/'' @ getEtag e r c, getDirListingEtag e c}"

lemma tag_policy: "etags_ours e r \<Longrightarrow> policy e r ''Etag'' (our_tags e r c) (\<lambda>_. True) {c}"
  unfolding policy_def etags_ours_def our_tags_def other_headers_def by auto

lemma etag_char_lits: "\<forall>x \<in> set ''DirIndex-_CID-.''. etag_char x"
  by (simp add: etag_char_def)

lemma shortFormat_sub: "set (shortFormat t) \<subseteq> set t"
  unfolding shortFormat_def using set_takeWhileD by fastforce

lemma getEtag_form:
  assumes "tags_ok e r c"
  obtains x where "\<forall>y \<in> set x. etag_char y" "getEtag e r c = quote # x @ [quote]"
proof (cases "customResponseFormat e r")
  case (Inl err)
  with assms show ?thesis by (intro that[of "c_String c"]) (auto simp: tags_ok_def getEtag_def)
next
  case (Inr tp)
  obtain t ps where tp: "tp = (t, ps)" by fastforce
  have "\<forall>y \<in> set (c_String c @ ''.'' @ shortFormat t). etag_char y"
    using assms Inr tp shortFormat_sub[of t] etag_char_lits by (auto simp: tags_ok_def)
  then show ?thesis
  proof (cases "t = []")
    case True
    with assms Inr tp show ?thesis by (intro that[of "c_String c"]) (auto simp: tags_ok_def getEtag_def)
  next
    case False
    have "getEtag e r c = quote # (c_String c @ ''.'' @ shortFormat t) @ [quote]" using Inr tp False by (simp add: getEtag_def)
    then show ?thesis by (rule that[OF \<open>\<forall>y \<in> set (c_String c @ ''.'' @ shortFormat t). etag_char y\<close>])
  qed
qed

lemma our_tag_matches:
  assumes "tags_ok e r c" and "t \<in> our_tags e r c"
  shows "etagMatch t (getEtag e r c) (getDirListingEtag e c)"
proof -
  from getEtag_form[OF assms(1)] obtain x where x: "\<forall>y \<in> set x. etag_char y" "getEtag e r c = quote # x @ [quote]" by blast
  let ?d = "''DirIndex-'' @ AssetHash e @ ''_CID-'' @ c_String c"
  have d: "\<forall>y \<in> set ?d. etag_char y" "getDirListingEtag e c = quote # ?d @ [quote]"
    using assms(1) etag_char_lits by (auto simp: tags_ok_def getDirListingEtag_def)
  have "t = quote # x @ [quote] \<or> t = ''W/'' @ quote # x @ [quote] \<or> t = quote # ?d @ [quote]"
    using assms(2) x(2) d(2) by (auto simp: our_tags_def)
  then have "wf_etag t" using x(1) d(1) unfolding wf_etag_def by blast
  moreover have "etagWeakMatch t (getEtag e r c) \<or> etagWeakMatch t (getDirListingEtag e c)"
    using assms(2) x(2) by (auto simp: our_tags_def etagWeakMatch_def trim_prefix_def has_prefix_def)
  ultimately show ?thesis using etagMatch_list[of "[t]"] by simp
qed

lemma okh_hget: "okh K A w \<Longrightarrow> hget (sent_headers w) K \<noteq> [] \<Longrightarrow> hget (sent_headers w) K \<in> A"
  by (auto simp: okh_def hget_def sent_headers_def split: list.splits option.splits)

section \<open>A node\<close>

text \<open>One file, under an immutable and a mutable name.\<close>

definition demo_file :: ufile where
  "demo_file = \<lparr>uf_Size = Inr 5, uf_symlink = False, uf_data = ''hello'', uf_detect = Inr ''text/plain'', uf_seek = None, uf_copy = None\<rparr>"

definition demo_resolved :: resolved where
  "demo_resolved = \<lparr>rv_String = ''/ipfs/Qm'', rv_Cid = \<lparr>c_String = ''Qm'', c_Codec = 112\<rparr>, rv_Remainder = []\<rparr>"

definition gw_demo :: gw_env where
  "gw_demo = \<lparr>cfg_Headers = [], cfg_FastDirIndexThreshold = 100,
     ResolvePath = (\<lambda>p. if p = ''/ipfs/Qm'' \<or> p = ''/ipns/site'' then Inr demo_resolved else Inl (ErrNoLink p)),
     Block_Get = (\<lambda>_. Inr (Inr ''hello'')), offline_Stat = (\<lambda>_. None),
     Unixfs_Get = (\<lambda>p. if p = ''/ipfs/Qm'' then Inr (UFile demo_file) else Inl (ErrNoLink p)),
     Unixfs_Ls = (\<lambda>_. Inr []), Dag_encode = (\<lambda>_ _. Inr []), car_Write = (\<lambda>_. (''car'', None)), tar_new = None,
     tar_Write = (\<lambda>_ _. (''tar'', None)), ip_New = (\<lambda>p. p), ip_IsValid = (\<lambda>_. None), ip_Mutable = (\<lambda>p. has_prefix p ''/ipns/''),
     ip_Namespace = (\<lambda>p. take 4 (tl p)), ip_Join = (\<lambda>p x. p @ ''/'' @ x), ip_Segments = (\<lambda>p. Some (tl (split_on slash p))),
     redirects_Parse = (\<lambda>_. Inr []), ParseMediaType = (\<lambda>t. Inr (t, (\<lambda>_. []))), TypeByExtension = (\<lambda>_. []),
     url_Parse = (\<lambda>u. Inr (''ipfs'', ''Qm'', ''/a'', ''next=x/../y'')), url_RequestPath = (\<lambda>u. Inr u), encode_query = (\<lambda>q. q),
     std_ServeContent = (\<lambda>r h name mt c. (h, 200, c)), redirect_url = (\<lambda>r u. u), redirect_body = (\<lambda>u c. u), now_text = ''now'',
     err_text = (\<lambda>_. ''error''), debugStr = (\<lambda>s. s), fmt_q = (\<lambda>s. s), html_Escape = (\<lambda>s. s), humanize = (\<lambda>_. ''5 B''),
     show_nat = (\<lambda>_. ''5''), ErrNotReader = OtherErr ''not a reader'', listing_html = (\<lambda>_. Inr ''listing''), dag_html = (\<lambda>_ _. Inr ''dag''),
     fix_html = (\<lambda>_ _ _. Inr ''fix''), AssetHash = ''h'', mc_Json = 512, mc_Cbor = 81, mc_DagJson = 297, mc_DagCbor = 113\<rparr>"

definition demo_req :: "string \<Rightarrow> string \<Rightarrow> greq" where
  "demo_req m p = \<lparr>q_Method = m, q_Path = p, q_RawQuery = [], q_RequestURI = p, q_Query = (\<lambda>_. []), q_Header = (\<lambda>_. []), q_ctx = Map.empty\<rparr>"

definition no_put :: "(unit, unit) put_env" where
  "no_put = \<lparr>pe_Add = (\<lambda>_ s. (Inl ErrOffline, s)), pe_Get = (\<lambda>_ _. Inl ErrOffline), pe_Decode = (\<lambda>c. Inr c), pe_NewRoot = (\<lambda>_ _. Inr ()),
     pe_Mkdir = (\<lambda>_ m. (None, m)), pe_Lookup = (\<lambda>_ _. Inr True), pe_Unlink = (\<lambda>_ _ m. (None, m)), pe_AddChild = (\<lambda>_ _ _ m. (None, m)),
     pe_GetNode = (\<lambda>_ s. (Inl ErrOffline, s)), pe_ParsePath = (\<lambda>p. Inr (tl (split_on slash p))), pe_JoinSegs = join_with ''/''\<rparr>"

lemma demo_passes: "passes gw_demo (demo_req m p)"
  by (simp add: passes_def gw_demo_def demo_req_def handleUnsupportedHeaders_def handleServiceWorkerRegistration_def hget_def)

lemma demo_format: "customResponseFormat gw_demo (demo_req m p) = Inr ([], (\<lambda>_. []))"
  by (simp add: customResponseFormat_def format_param_def demo_req_def)

section \<open>Properties\<close>

text \<open>
  C7. Content under a mutable name is never marked immutable: whatever the request asks for, the response to a path
  under \<^verbatim>\<open>/ipns/\<close> does not carry the cache control the gateway gives to immutable content, on any branch: files, indexes,
  raw blocks, archives, codecs, rewritten paths and custom error pages.
\<close>

theorem mutable_never_immutable:
  assumes "ipns_ok e" and "headers_ok e r" and "has_prefix (q_Path r) ''/ipns/''"
  shows "immutableCacheControl \<notin> set (sent_headers (getOrHeadHandler e r new_resp) ''Cache-Control'')"
proof -
  let ?K = "''Cache-Control''" and ?A = "- {immutableCacheControl}"
  note pol = mutable_policy[OF assms(1,2)]
  have K: "?K \<notin> other_headers" by (simp add: other_headers_def)
  have p: "mutable_path (ip_New e (q_Path r))" using assms(1,3) unfolding ipns_ok_def by metis
  have new: "okh ?K ?A new_resp" by (simp add: okh_def new_resp_def)
  have pre: "okh ?K ?A w'" if "handleProtocolHandlerRedirect e r w = (b, w')" "okh ?K ?A w" for w w' b
    using that K by (auto simp: handleProtocolHandlerRedirect_def Let_def split: if_splits sum.splits)
  have cached: "okh ?K ?A w'" if "handleOnlyIfCached e r q w = (b, w')" "okh ?K ?A w" for w w' b q
    using that K by (auto simp: handleOnlyIfCached_def split: if_splits option.splits)
  have sup: "okh ?K ?A w'" if "handleSuperfluousNamespace e r q w = (b, w')" "okh ?K ?A w" for w w' b q
    using that K by (auto simp: handleSuperfluousNamespace_def Let_def split: if_splits option.splits sum.splits)
  have none: "okh ?K ?A w'" if "handlePathResolution e r f (ip_New e (q_Path r)) w = (x, w')" "okh ?K ?A w" for f w x w'
    using okh_resolution[OF pol assms(1) p that(2,1)] by simp
  have some: "okh ?K ?A (serve_resolved e r f fp rv q w')"
    if "handlePathResolution e r f (ip_New e (q_Path r)) w = (Some (rv, q), w')" "okh ?K ?A w" for f fp w rv q w'
    using okh_resolution[OF pol assms(1) p that(2,1)] okh_serve_resolved[OF pol, of w' q rv f fp] by simp
  have "okh ?K ?A (getOrHeadHandler e r new_resp)"
    unfolding getOrHeadHandler_def Let_def
    using new K pre[OF _ new] by (auto split: option.split prod.split bool.split sum.split dest!: pre cached sup intro: some none)
  then show ?thesis by (auto simp: okh_def sent_headers_def split: option.splits)
qed

theorem mutable_never_immutable_witness:
  "immutableCacheControl \<notin> set (sent_headers (getOrHeadHandler gw_demo (demo_req ''GET'' ''/ipns/site'') new_resp) ''Cache-Control'') \<and>
   status (getOrHeadHandler gw_demo (demo_req ''GET'' ''/ipns/site'') new_resp) = 200"
proof -
  have "ipns_ok gw_demo" by (auto simp: ipns_ok_def gw_demo_def has_prefix_iff prefix_prefix)
  moreover have "headers_ok gw_demo (demo_req ''GET'' ''/ipns/site'')" by (simp add: headers_ok_def gw_demo_def)
  moreover have "has_prefix (q_Path (demo_req ''GET'' ''/ipns/site'')) ''/ipns/''" by (simp add: demo_req_def has_prefix_def)
  moreover have "status (getOrHeadHandler gw_demo (demo_req ''GET'' ''/ipns/site'') new_resp) = 200" by code_simp
  ultimately show ?thesis using mutable_never_immutable by blast
qed



text \<open>
  A gateway that is not writable changes nothing: the store is the same after every request, and a method other
  than the three it allows is refused with the list of those.
\<close>

theorem read_only:
  assumes "ServeHTTP e pe False r body st new_resp = (w, st')"
  shows "st' = st \<and> (q_Method r \<notin> {''GET'', ''HEAD'', ''OPTIONS''} \<longrightarrow>
    status w = 405 \<and> sent_headers w ''Allow'' = [''GET'', ''HEAD'', ''OPTIONS''])"
  using assms
  by (auto simp: ServeHTTP_def Let_def status_def sent_headers_def http_Error_def Write_def WriteHeader_def Set_def Add_def new_resp_def
      split: if_splits)

theorem read_only_witness:
  "status (fst (ServeHTTP gw_demo no_put False (demo_req ''PUT'' ''/ipfs/Qm/x'') ''body'' () new_resp)) = 405"
proof -
  obtain w st where s: "ServeHTTP gw_demo no_put False (demo_req ''PUT'' ''/ipfs/Qm/x'') ''body'' () new_resp = (w, st)"
    by (rule prod.exhaust)
  from read_only[OF s] s show ?thesis by (simp add: demo_req_def)
qed

text \<open>Without an origin of its own, a path that does not resolve is an error or a missing-page document.\<close>

lemma no_isolation_no_redirect:
  assumes "passes e r" and "customResponseFormat e r = Inr (fmt, params)" and "ResolvePath e (ip_New e (q_Path r)) = Inl err"
    and "\<not> hasOriginIsolation r"
  shows "status (getOrHeadHandler e r new_resp) \<in> {400, 404, 408, 503} \<and> sent_headers (getOrHeadHandler e r new_resp) ''Location'' = []"
proof -
  define bad where "bad w \<longleftrightarrow> status w \<in> {400, 404, 408, 503} \<and> sent_headers w ''Location'' = []" for w
  have we: "bad (webError e m (Some x) c new_resp)" if "c \<in> {400, 503}" for m x c
    using that unfolding bad_def by (cases x) (auto simp: webError_def webErrorWithCode_def http_Error_def Write_def WriteHeader_def Set_def
        new_resp_def status_def sent_headers_def)
  have keep: "bad (webError e m (Some x) c w)" if "bad w" "w_status w \<noteq> None" for m x c w
    using that unfolding bad_def by (cases x) (auto simp: webError_def webErrorWithCode_def http_Error_def Write_def WriteHeader_def Set_def
        status_def sent_headers_def Let_def split: option.splits)
  have leg: "(w = new_resp \<and> \<not> b) \<or> (bad w \<and> w_status w \<noteq> None)" if "serveLegacy404IfPresent e r p new_resp = (b, w)" for p b w
    using that unfolding bad_def by (auto simp: serveLegacy404IfPresent_def Write_def WriteHeader_def Set_def new_resp_def status_def sent_headers_def
        split: option.splits sum.splits unode.splits)
  obtain b w where lg: "serveLegacy404IfPresent e r (ip_New e (q_Path r)) new_resp = (b, w)" by fastforce
  let ?msg = "''ipfs resolve -r '' @ debugStr e (ip_New e (q_Path r))"
  have "getOrHeadHandler e r new_resp =
      (if err = ErrOffline then webError e ?msg (Some err) 503 new_resp
       else if isUnixfsResponseFormat fmt then (if b then w else webError e ?msg (Some err) 400 w)
       else webError e ?msg (Some err) 400 new_resp)"
    unfolding getOrHead_passes[OF assms(1,2)] using assms(3,4) lg
    by (cases err; cases b) (simp_all add: handlePathResolution_def Let_def)
  then have "bad (getOrHeadHandler e r new_resp)" using leg[OF lg] we keep[of w] by auto
  then show ?thesis by (simp add: bad_def)
qed

text \<open>The loop looks at the longest path first.\<close>

definition page_404 :: "gw_env \<Rightarrow> string list \<Rightarrow> string \<Rightarrow> nat \<Rightarrow> string" where
  "page_404 e parts file i = ip_New e (''/'' @ path_Join (take i parts @ [file]))"

text \<open>
  The page for a missing path is the nearest: the search up the tree finds the page of the deepest directory
  that has one, it never leaves the content's root, and finds none only if no directory down to the first
  invalid path has one.
\<close>

theorem search_404_nearest:
  "(case search_404 e parts file n of
      Some rv \<Rightarrow> \<exists>i. 3 \<le> i \<and> i \<le> n \<and> ResolvePath e (page_404 e parts file i) = Inr rv \<and>
        (\<forall>j. i < j \<and> j \<le> n \<longrightarrow> (\<exists>err. ResolvePath e (page_404 e parts file j) = Inl err))
    | None \<Rightarrow> \<exists>k. (k < 3 \<or> ip_IsValid e (page_404 e parts file k) \<noteq> None) \<and>
        (\<forall>j. k < j \<and> 3 \<le> j \<and> j \<le> n \<longrightarrow> (\<exists>err. ResolvePath e (page_404 e parts file j) = Inl err)))"
proof (induction n)
  case 0
  then show ?case by (auto intro: exI[of _ 0])
next
  case (Suc n)
  let ?p = "page_404 e parts file (Suc n)"
  consider (small) "Suc n < 3" | (invalid) "3 \<le> Suc n" "ip_IsValid e ?p \<noteq> None"
    | (found) rv where "3 \<le> Suc n" "ip_IsValid e ?p = None" "ResolvePath e ?p = Inr rv"
    | (further) err where "3 \<le> Suc n" "ip_IsValid e ?p = None" "ResolvePath e ?p = Inl err"
    by (cases "ResolvePath e ?p"; cases "Suc n < 3"; cases "ip_IsValid e ?p") auto
  then show ?case
  proof cases
    case small
    then show ?thesis by (auto intro: exI[of _ 0])
  next
    case invalid
    then have "search_404 e parts file (Suc n) = None" by (simp add: page_404_def Let_def)
    with invalid show ?thesis by (auto intro!: exI[of _ "Suc n"])
  next
    case (found rv)
    then have "search_404 e parts file (Suc n) = Some rv" by (simp add: page_404_def Let_def)
    with found show ?thesis by (auto intro!: exI[of _ "Suc n"])
  next
    case (further err)
    then have s: "search_404 e parts file (Suc n) = search_404 e parts file n" by (simp add: page_404_def Let_def)
    show ?thesis
    proof (cases "search_404 e parts file n")
      case None
      with Suc obtain k where k: "k < 3 \<or> ip_IsValid e (page_404 e parts file k) \<noteq> None"
        "\<And>j. k < j \<Longrightarrow> 3 \<le> j \<Longrightarrow> j \<le> n \<Longrightarrow> \<exists>err. ResolvePath e (page_404 e parts file j) = Inl err" by auto
      have "\<exists>err. ResolvePath e (page_404 e parts file j) = Inl err" if "k < j" "3 \<le> j" "j \<le> Suc n" for j
        using k(2)[of j] further(3) that by (cases "j = Suc n") auto
      with k(1) None s show ?thesis by (auto intro!: exI[of _ k])
    next
      case (Some rv)
      with Suc obtain i where i: "3 \<le> i" "i \<le> n" "ResolvePath e (page_404 e parts file i) = Inr rv"
        "\<And>j. i < j \<Longrightarrow> j \<le> n \<Longrightarrow> \<exists>err. ResolvePath e (page_404 e parts file j) = Inl err" by auto
      have "\<exists>err. ResolvePath e (page_404 e parts file j) = Inl err" if "i < j" "j \<le> Suc n" for j
        using i(4)[of j] further(3) that by (cases "j = Suc n") auto
      with i(1-3) Some s show ?thesis by (auto intro!: exI[of _ i])
    qed
  qed
qed

section \<open>Behind the host names\<close>

text \<open>
  The handler as \<^verbatim>\<open>HostnameOption\<close> runs it: with the path it made, a location set in advance where the content has a
  subdomain, and the context of the gateway or the DNSLink name.
\<close>

definition child_request :: "greq \<Rightarrow> string \<Rightarrow> string option \<Rightarrow> string option \<Rightarrow> greq" where
  "child_request r p gwHostname dnslink =
     r\<lparr>q_Path := p, q_ctx := (\<lambda>k. if k = RequestKey ''gw-hostname'' then gwHostname
                                  else if k = RequestKey ''dnslink-hostname'' then dnslink else None)\<rparr>"

definition gateway_serve :: "host_env \<Rightarrow> gatewayHosts \<Rightarrow> bool \<Rightarrow> http_request \<Rightarrow> gw_env \<Rightarrow> greq \<Rightarrow> resp" where
  "gateway_serve he known noDNSLink hr e r =
     (case HostnameOption he known noDNSLink hr of
        RServe p loc gwHostname dnslink \<Rightarrow>
          getOrHeadHandler e (child_request r p gwHostname dnslink)
            (case loc of None \<Rightarrow> new_resp | Some u \<Rightarrow> Set ''Location'' u new_resp)
      | RRedirect u \<Rightarrow> http_Redirect e r u 301 new_resp
      | RNotFound \<Rightarrow> http_Error ''404 page not found'' 404 new_resp
      | RBadRequest err \<Rightarrow> http_Error err 400 new_resp
      | RPanic \<Rightarrow> new_resp)"



section \<open>Departures\<close>

text \<open>The key the handler looks a DNSLink host up with is never set, so only the other one counts.\<close>

theorem dnslink_key_never_set: "hasOriginIsolation (child_request r p gwHostname dnslink) \<longleftrightarrow> gwHostname \<noteq> None"
  by (simp add: hasOriginIsolation_def child_request_def)

text \<open>The page made for an IPLD document has a tag that is not recognised when it comes back.\<close>

theorem dag_index_not_revalidated:
  assumes "\<forall>x \<in> set (c_String c) \<union> set (AssetHash e). etag_char x" and "customResponseFormat e r = Inr ([], ps)"
    and "\<not> prefix ''DagIndex-'' (c_String c)"
  shows "\<not> etagMatch (getDagIndexEtag e c) (getEtag e r c) (getDirListingEtag e c)"
proof -
  let ?x = "''DagIndex-'' @ AssetHash e @ ''_CID-'' @ c_String c"
  have "\<forall>y \<in> set ''DagIndex-_CID-''. etag_char y" by (simp add: etag_char_def)
  then have x: "\<forall>y \<in> set ?x. etag_char y" using assms(1) by auto
  have t: "getDagIndexEtag e c = quote # ?x @ [quote]" by (simp add: getDagIndexEtag_def)
  then have "wf_etag (getDagIndexEtag e c)" unfolding wf_etag_def using x by blast
  moreover have "c_String c \<noteq> ?x" using assms(3) by (metis prefixI)
  then have "\<not> etagWeakMatch (getDagIndexEtag e c) (getEtag e r c)" "\<not> etagWeakMatch (getDagIndexEtag e c) (getDirListingEtag e c)"
    using assms(2) by (auto simp: t getEtag_def getDirListingEtag_def etagWeakMatch_def trim_prefix_def has_prefix_def)
  ultimately show ?thesis using etagMatch_list[of "[getDagIndexEtag e c]"] by simp
qed

text \<open>A tag of a directory listing answers a request for another format of the same content.\<close>

theorem listing_tag_answers_other_formats:
  assumes "passes e r" and "customResponseFormat e r = Inr (fmt, params)" and "ResolvePath e (ip_New e (q_Path r)) = Inr rv"
    and "tags_ok e r (rv_Cid rv)" and "q_Header r ''If-None-Match'' = [getDirListingEtag e (rv_Cid rv)]"
  shows "getOrHeadHandler e r new_resp = WriteHeader 304 new_resp"
proof -
  have "etagMatch (getDirListingEtag e (rv_Cid rv)) (getEtag e r (rv_Cid rv)) (getDirListingEtag e (rv_Cid rv))"
    by (rule our_tag_matches[OF assms(4)]) (simp add: our_tags_def)
  moreover have "getDirListingEtag e (rv_Cid rv) \<noteq> []" by (simp add: getDirListingEtag_def)
  ultimately show ?thesis using getOrHead_resolved[OF assms(1-3)] assms(5) by (simp add: serve_resolved_def hget_def)
qed

text \<open>A weight after a media type hides it from the search for a missing-page document.\<close>

theorem weighted_html_ignored: "preferred404Filename [''text/html;q=0.9''] = None \<and> preferred404Filename [''text/html''] \<noteq> None"
  by (simp add: preferred404Filename_def html_spec_def SplitN_def)

text \<open>The query of a redirected URI is cleaned as if it were a path.\<close>

theorem redirected_query_mangled: "path_Join [''/'', ''ipfs'', ''Qm'', ''/a?next=x/../y''] = ''/ipfs/Qm/y''"
  by code_simp

text \<open>An empty file is served with its location but not as a redirect.\<close>

theorem empty_file_not_redirected:
  assumes "uf_Size f = Inr 0" and "w_status w = None" and "w_Header w ''Location'' = [u]"
  shows "status (serveFile e r rv p f w) = 200 \<and> sent_headers (serveFile e r rv p f w) ''Location'' = [u]"
  using assms
  by (auto simp: serveFile_def addCacheControlHeaders_def addContentDispositionHeader_def setContentDispositionHeader_def Set_def
      WriteHeader_def status_def sent_headers_def Let_def split: if_splits)

text \<open>A scheme that is not served is refused with an error that is not there.\<close>

theorem wrong_scheme_nil_error:
  assumes "q_Query r ''uri'' \<noteq> []" and "url_Parse e (q_Query r ''uri'') = Inr (''http'', h, p, q)"
  shows "handleProtocolHandlerRedirect e r w =
    (True, http_Error ''uri query parameter scheme must be ipfs or ipns: %!s(<nil>)'' 400 w)"
  using assms by (simp add: handleProtocolHandlerRedirect_def webError_def webErrorWithCode_def)

end
