(* ===== verification/GatewayOption.thy ===== *)
theory GatewayOption
  imports Hostname "HOL-Library.List_Lexorder" "HOL-Library.Char_ord"
begin

text \<open>
  Small parts of the HTTP server: the cross-origin headers of the gateway (\<^verbatim>\<open>src/core/corehttp/gateway.go\<close>), the
  paths of the peer-to-peer proxy (\<^verbatim>\<open>src/core/corehttp/p2p_proxy.go\<close>) and the redirect option
  (\<^verbatim>\<open>src/core/corehttp/redirect.go\<close>).  \<^verbatim>\<open>http.CanonicalHeaderKey\<close> and \<^verbatim>\<open>peer.Decode\<close> are parameters.
\<close>

section \<open>Headers\<close>

text \<open>The keys of the set in some order, sorted: the order does not matter.\<close>

definition cleanHeaderSet :: "(string \<Rightarrow> string) \<Rightarrow> string list \<Rightarrow> string list" where
  "cleanHeaderSet canon headers = sort (remdups (map canon headers))"

definition hdr :: "(string \<rightharpoonup> string list) \<Rightarrow> string \<Rightarrow> string list" where
  "hdr h k = (case h k of None \<Rightarrow> [] | Some vs \<Rightarrow> vs)"

definition AddAccessControlHeaders :: "(string \<Rightarrow> string) \<Rightarrow> (string \<rightharpoonup> string list) \<Rightarrow> (string \<rightharpoonup> string list)" where
  "AddAccessControlHeaders canon h0 =
     (let h1 = (if h0 ''Access-Control-Allow-Origin'' = None then h0(''Access-Control-Allow-Origin'' \<mapsto> [''*'']) else h0);
          h2 = (if h1 ''Access-Control-Allow-Methods'' = None then h1(''Access-Control-Allow-Methods'' \<mapsto> [''GET'']) else h1);
          h3 = h2(''Access-Control-Allow-Headers'' \<mapsto>
                 cleanHeaderSet canon ([''Content-Type'', ''User-Agent'', ''Range'', ''X-Requested-With''] @ hdr h2 ''Access-Control-Allow-Headers''))
      in h3(''Access-Control-Expose-Headers'' \<mapsto>
              cleanHeaderSet canon ([''Content-Length'', ''Content-Range'', ''X-Chunked-Output'', ''X-Stream-Output'', ''X-Ipfs-Path'', ''X-Ipfs-Roots''] @
                hdr h3 ''Access-Control-Expose-Headers'')))"

text \<open>The headers of the configuration with canonical names, in the order the map is walked.\<close>

definition GatewayOption_headers :: "(string \<Rightarrow> string) \<Rightarrow> (string \<times> string list) list \<Rightarrow> (string \<rightharpoonup> string list)" where
  "GatewayOption_headers canon cfg = AddAccessControlHeaders canon (fold (\<lambda>(h, v) m. m(canon h \<mapsto> v)) cfg Map.empty)"

section \<open>Paths of the proxy\<close>

record proxyRequest =
  pr_target :: string
  pr_name :: string
  pr_httpPath :: string

definition parseRequest :: "(string \<Rightarrow> bool) \<Rightarrow> string \<Rightarrow> string + proxyRequest" where
  "parseRequest peer_ok path =
     (let bad = Inl (''invalid request path '' @ [CHR 0x27] @ path @ [CHR 0x27]); sp = SplitN CHR ''/'' 5 path in
      if length sp < 5 then bad
      else if \<not> peer_ok (sp ! 2) then bad
      else if sp ! 3 = ''http'' then Inr \<lparr>pr_target = sp ! 2, pr_name = ''/http'', pr_httpPath = sp ! 4\<rparr>
      else
        (let sp7 = SplitN CHR ''/'' 7 path in
         if length sp7 < 7 \<or> sp7 ! 3 \<noteq> ''x'' \<or> sp7 ! 5 \<noteq> ''http'' then bad
         else Inr \<lparr>pr_target = sp7 ! 2, pr_name = ''/x/'' @ (sp7 ! 4) @ ''/http'', pr_httpPath = sp7 ! 6\<rparr>))"

section \<open>Redirects\<close>

text \<open>The pattern the redirect is mounted at.\<close>

definition RedirectOption_pattern :: "string \<Rightarrow> string" where
  "RedirectOption_pattern path = (if length path > 0 then ''/'' @ path @ ''/'' else ''/'')"

section \<open>Lemmas\<close>

lemma split_on_parts:
  "\<forall>p \<in> set ps. c \<notin> set p \<Longrightarrow> split_on c (concat (map (\<lambda>p. p @ [c]) ps) @ rest) = ps @ split_on c rest"
proof (induction ps)
  case (Cons p ps)
  then have "split_on c (p @ c # (concat (map (\<lambda>p. p @ [c]) ps) @ rest)) = p # split_on c (concat (map (\<lambda>p. p @ [c]) ps) @ rest)"
    by (intro split_on_append) simp
  with Cons show ?case by simp
qed simp

text \<open>\<^verbatim>\<open>SplitN\<close> with one part fewer given leaves the rest of the string together.\<close>

lemma SplitN_parts:
  assumes "\<forall>p \<in> set ps. c \<notin> set p"
  shows "SplitN c (Suc (length ps)) (concat (map (\<lambda>p. p @ [c]) ps) @ rest) = ps @ [rest]"
proof -
  have s: "split_on c (concat (map (\<lambda>p. p @ [c]) ps) @ rest) = ps @ split_on c rest" by (rule split_on_parts[OF assms])
  show ?thesis
  proof (cases "length (split_on c rest) \<le> 1")
    case True
    then have "split_on c rest = [rest]"
      using join_split_on[of c rest] split_on_ne[of c rest] by (cases "split_on c rest") auto
    then show ?thesis using s by (simp add: SplitN_def Let_def)
  next
    case False
    then show ?thesis using s by (simp add: SplitN_def Let_def join_split_on)
  qed
qed

lemma SplitN_parts_n:
  assumes "n = Suc (length ps)" and "\<forall>p \<in> set ps. c \<notin> set p" and "s = concat (map (\<lambda>p. p @ [c]) ps) @ rest"
  shows "SplitN c n s = ps @ [rest]"
  using SplitN_parts[OF assms(2)] assms(1,3) by simp

section \<open>Properties\<close>

text \<open>
  A cleaned set of headers holds exactly the canonical forms of the headers given, once each, in order, and
  cleaning it again changes nothing.
\<close>

theorem cleanHeaderSet_canonical:
  assumes "\<And>h. canon (canon h) = canon h"
  shows "set (cleanHeaderSet canon hs) = canon ` set hs \<and> distinct (cleanHeaderSet canon hs) \<and> sorted (cleanHeaderSet canon hs) \<and>
    cleanHeaderSet canon (cleanHeaderSet canon hs) = cleanHeaderSet canon hs"
proof -
  let ?s = "cleanHeaderSet canon hs"
  have s: "set ?s = canon ` set hs" "distinct ?s" "sorted ?s" by (simp_all add: cleanHeaderSet_def)
  have "map canon ?s = ?s" using s(1) assms by (intro map_idI) auto
  then have "cleanHeaderSet canon ?s = ?s" using s(2,3) by (simp add: cleanHeaderSet_def[of canon ?s] distinct_remdups_id sorted_sort_id)
  with s show ?thesis by blast
qed

theorem cleanHeaderSet_canonical_witness:
  "set (cleanHeaderSet (\<lambda>h. h) [''Range'', ''Accept'', ''Range'']) = {''Range'', ''Accept''} \<and>
   sorted (cleanHeaderSet (\<lambda>h. h) [''Range'', ''Accept'', ''Range''])"
  using cleanHeaderSet_canonical[of "\<lambda>h. h" "[''Range'', ''Accept'', ''Range'']"] by auto

text \<open>
  The operator's origin and methods are kept where they are given and have their defaults otherwise, the headers
  the gateway itself uses are always allowed and exposed, the operator's stay, and no other header changes.
\<close>

theorem AddAccessControlHeaders_correct:
  fixes canon h
  defines "h' \<equiv> AddAccessControlHeaders canon h"
  shows "hdr h' ''Access-Control-Allow-Origin'' = (if h ''Access-Control-Allow-Origin'' = None then [''*''] else hdr h ''Access-Control-Allow-Origin'') \<and>
    hdr h' ''Access-Control-Allow-Methods'' = (if h ''Access-Control-Allow-Methods'' = None then [''GET''] else hdr h ''Access-Control-Allow-Methods'') \<and>
    set (hdr h' ''Access-Control-Allow-Headers'') =
      canon ` ({''Content-Type'', ''User-Agent'', ''Range'', ''X-Requested-With''} \<union> set (hdr h ''Access-Control-Allow-Headers'')) \<and>
    set (hdr h' ''Access-Control-Expose-Headers'') =
      canon ` ({''Content-Length'', ''Content-Range'', ''X-Chunked-Output'', ''X-Stream-Output'', ''X-Ipfs-Path'', ''X-Ipfs-Roots''} \<union>
        set (hdr h ''Access-Control-Expose-Headers'')) \<and>
    (\<forall>k. k \<noteq> ''Access-Control-Allow-Origin'' \<and> k \<noteq> ''Access-Control-Allow-Methods'' \<and> k \<noteq> ''Access-Control-Allow-Headers'' \<and>
       k \<noteq> ''Access-Control-Expose-Headers'' \<longrightarrow> h' k = h k)"
proof -
  define o1 where "o1 = ''Access-Control-Allow-Origin''"
  define o2 where "o2 = ''Access-Control-Allow-Methods''"
  define o3 where "o3 = ''Access-Control-Allow-Headers''"
  define o4 where "o4 = ''Access-Control-Expose-Headers''"
  define us where "us = [''Content-Type'', ''User-Agent'', ''Range'', ''X-Requested-With'']"
  define es where "es = [''Content-Length'', ''Content-Range'', ''X-Chunked-Output'', ''X-Stream-Output'', ''X-Ipfs-Path'', ''X-Ipfs-Roots'']"
  have ne: "o1 \<noteq> o2" "o1 \<noteq> o3" "o1 \<noteq> o4" "o2 \<noteq> o3" "o2 \<noteq> o4" "o3 \<noteq> o4"
    unfolding o1_def o2_def o3_def o4_def by simp_all
  note ne' = ne ne[symmetric]
  define h2 where "h2 = (if h o1 = None then h(o1 \<mapsto> [''*'']) else h)"
  define h3 where "h3 = (if h2 o2 = None then h2(o2 \<mapsto> [''GET'']) else h2)"
  define a where "a = cleanHeaderSet canon (us @ hdr h3 o3)"
  define e where "e = cleanHeaderSet canon (es @ hdr (h3(o3 \<mapsto> a)) o4)"
  have h': "h' = h3(o3 \<mapsto> a, o4 \<mapsto> e)"
    unfolding h'_def AddAccessControlHeaders_def Let_def a_def e_def h3_def h2_def o1_def o2_def o3_def o4_def us_def es_def ..
  have h3: "h3 o1 = (if h o1 = None then Some [''*''] else h o1)" "h3 o2 = (if h o2 = None then Some [''GET''] else h o2)"
    "h3 o3 = h o3" "h3 o4 = h o4" "\<And>k. k \<noteq> o1 \<Longrightarrow> k \<noteq> o2 \<Longrightarrow> h3 k = h k"
    using ne' by (simp_all add: h3_def h2_def)
  have "hdr h' o1 = (if h o1 = None then [''*''] else hdr h o1)" "hdr h' o2 = (if h o2 = None then [''GET''] else hdr h o2)"
    using ne' h3(1,2) by (simp_all add: h' hdr_def)
  moreover have "set (hdr h' o3) = canon ` (set us \<union> set (hdr h o3))" "set (hdr h' o4) = canon ` (set es \<union> set (hdr h o4))"
    using ne' h3(3,4) by (simp_all add: h' hdr_def a_def e_def cleanHeaderSet_def image_Un)
  moreover have "\<forall>k. k \<noteq> o1 \<and> k \<noteq> o2 \<and> k \<noteq> o3 \<and> k \<noteq> o4 \<longrightarrow> h' k = h k" using h3(5) by (simp add: h')
  moreover have "set us = {''Content-Type'', ''User-Agent'', ''Range'', ''X-Requested-With''}"
    "set es = {''Content-Length'', ''Content-Range'', ''X-Chunked-Output'', ''X-Stream-Output'', ''X-Ipfs-Path'', ''X-Ipfs-Roots''}"
    unfolding us_def es_def by (simp_all only: list.set)
  ultimately show ?thesis unfolding o1_def o2_def o3_def o4_def by (simp only:)
qed

text \<open>
  The two forms of a proxied path are read back into what they were made of: the peer, the protocol and the rest of
  the path, slashes included.
\<close>

theorem parseRequest_roundtrip:
  assumes "peer_ok peer" and "CHR ''/'' \<notin> set peer" and "CHR ''/'' \<notin> set proto"
  shows "parseRequest peer_ok (''/p2p/'' @ peer @ ''/http/'' @ path) = Inr \<lparr>pr_target = peer, pr_name = ''/http'', pr_httpPath = path\<rparr> \<and>
    parseRequest peer_ok (''/p2p/'' @ peer @ ''/x/'' @ proto @ ''/http/'' @ path) =
      Inr \<lparr>pr_target = peer, pr_name = ''/x/'' @ proto @ ''/http'', pr_httpPath = path\<rparr>"
proof -
  let ?c = "CHR ''/''"
  have "SplitN ?c 5 (''/p2p/'' @ peer @ ''/http/'' @ path) = [[], ''p2p'', peer, ''http''] @ [path]"
    by (rule SplitN_parts_n) (use assms(2) in simp_all)
  then have s5: "SplitN ?c 5 (''/p2p/'' @ peer @ ''/http/'' @ path) = [[], ''p2p'', peer, ''http'', path]" by simp
  have "SplitN ?c 5 (''/p2p/'' @ peer @ ''/x/'' @ proto @ ''/http/'' @ path) = [[], ''p2p'', peer, ''x''] @ [proto @ ''/http/'' @ path]"
    by (rule SplitN_parts_n) (use assms(2) in simp_all)
  then have x5: "SplitN ?c 5 (''/p2p/'' @ peer @ ''/x/'' @ proto @ ''/http/'' @ path) = [[], ''p2p'', peer, ''x'', proto @ ''/http/'' @ path]" by simp
  have "SplitN ?c 7 (''/p2p/'' @ peer @ ''/x/'' @ proto @ ''/http/'' @ path) = [[], ''p2p'', peer, ''x'', proto, ''http''] @ [path]"
    by (rule SplitN_parts_n) (use assms(2,3) in simp_all)
  then have x7: "SplitN ?c 7 (''/p2p/'' @ peer @ ''/x/'' @ proto @ ''/http/'' @ path) = [[], ''p2p'', peer, ''x'', proto, ''http'', path]" by simp
  show ?thesis unfolding parseRequest_def Let_def s5 x5 x7 using assms(1) by simp
qed

theorem parseRequest_roundtrip_witness:
  "parseRequest (\<lambda>_. True) ''/p2p/Qm/http/a/b'' = Inr \<lparr>pr_target = ''Qm'', pr_name = ''/http'', pr_httpPath = ''a/b''\<rparr>"
  using parseRequest_roundtrip[of "\<lambda>_. True" "''Qm''" "''y''" "''a/b''"] by simp

end
