(* ===== verification/Pins.thy ===== *)
theory Pins
  imports Prelude
begin

text \<open>
  Local pins: the pin part of the core API (\<^verbatim>\<open>src/core/coreapi/pin.go\<close>) and the commands on top of it
  (\<^verbatim>\<open>src/core/commands/pin/pin.go\<close>).  The pinner, the resolver, the provider and the graph walk are parameters;
  the documented behaviour of the walk is the locale \<open>skip_walk\<close>.  Calls that change or guard state are recorded in a
  trace, so that the order of locking, pinning, providing and flushing can be stated.  Channels are the lists of what
  is sent on them; \<open>ctx_done\<close> says whether the context is done when the n-th value is about to be sent.
\<close>

section \<open>Worlds\<close>

datatype perr = PErr string | CtxDone

datatype 'c pin_event = PinLock | Unlock | EPin 'c bool | EUnpin 'c bool | EUpdate 'c 'c bool | EProvide 'c | EFlush

record ('c, 'p) pin_world =
  pinning :: 'p
  pin_trace :: "'c pin_event list"

record ('c, 'p) pin_api =
  ResolveNode :: "string \<Rightarrow> perr + 'c"
  ResolvePath :: "string \<Rightarrow> perr + 'c \<times> string"
  IpldPath :: "'c \<Rightarrow> string"
  pn_Pin :: "'c \<Rightarrow> bool \<Rightarrow> 'p \<Rightarrow> perr option \<times> 'p"
  pn_Unpin :: "'c \<Rightarrow> bool \<Rightarrow> 'p \<Rightarrow> perr option \<times> 'p"
  pn_Update :: "'c \<Rightarrow> 'c \<Rightarrow> bool \<Rightarrow> 'p \<Rightarrow> perr option \<times> 'p"
  pn_Flush :: "'p \<Rightarrow> perr option \<times> 'p"
  pn_IsPinnedWithType :: "'c \<Rightarrow> string \<Rightarrow> 'p \<Rightarrow> perr + (string \<times> bool)"
  pn_RecursiveKeys :: "'p \<Rightarrow> perr + 'c list"
  pn_DirectKeys :: "'p \<Rightarrow> perr + 'c list"
  Provide :: "'c \<Rightarrow> perr option"
  StringToMode :: "string \<Rightarrow> bool"

definition emit_ev :: "'c pin_event \<Rightarrow> ('c, 'p) pin_world \<Rightarrow> ('c, 'p) pin_world" where
  "emit_ev ev w = w\<lparr>pin_trace := pin_trace w @ [ev]\<rparr>"

text \<open>A call of the pinner.\<close>

definition pcall :: "'c pin_event \<Rightarrow> ('p \<Rightarrow> perr option \<times> 'p) \<Rightarrow> ('c, 'p) pin_world \<Rightarrow> perr option \<times> ('c, 'p) pin_world" where
  "pcall ev f w = (case f (pinning w) of (err, p) \<Rightarrow> (err, emit_ev ev (w\<lparr>pinning := p\<rparr>)))"

definition wrap_pin :: "perr \<Rightarrow> perr" where
  "wrap_pin err = (case err of PErr s \<Rightarrow> PErr (''pin: '' @ s) | CtxDone \<Rightarrow> PErr ''pin: context canceled'')"

section \<open>The core API\<close>

text \<open>\<^verbatim>\<open>defer api.blockstore.PinLock(ctx).Unlock(ctx)\<close>: locked here, unlocked on every way out.\<close>

definition with_lock :: "(('c, 'p) pin_world \<Rightarrow> 'r \<times> ('c, 'p) pin_world) \<Rightarrow> ('c, 'p) pin_world \<Rightarrow> 'r \<times> ('c, 'p) pin_world" where
  "with_lock f w = (case f (emit_ev PinLock w) of (r, w) \<Rightarrow> (r, emit_ev Unlock w))"

definition PinAPI_Add :: "('c, 'p) pin_api \<Rightarrow> string \<Rightarrow> bool \<Rightarrow> ('c, 'p) pin_world \<Rightarrow> perr option \<times> ('c, 'p) pin_world" where
  "PinAPI_Add api p recursive w =
     (case ResolveNode api p of
        Inl err \<Rightarrow> (Some (wrap_pin err), w)
      | Inr c \<Rightarrow>
          with_lock (\<lambda>w.
            (case pcall (EPin c recursive) (pn_Pin api c recursive) w of
               (Some err, w) \<Rightarrow> (Some (wrap_pin err), w)
             | (None, w) \<Rightarrow>
                 (let w = emit_ev (EProvide c) w in
                  case Provide api c of
                    Some err \<Rightarrow> (Some err, w)
                  | None \<Rightarrow> pcall EFlush (pn_Flush api) w))) w)"

definition PinAPI_Rm :: "('c, 'p) pin_api \<Rightarrow> string \<Rightarrow> bool \<Rightarrow> ('c, 'p) pin_world \<Rightarrow> perr option \<times> ('c, 'p) pin_world" where
  "PinAPI_Rm api p recursive w =
     (case ResolvePath api p of
        Inl err \<Rightarrow> (Some err, w)
      | Inr (c, _) \<Rightarrow>
          with_lock (\<lambda>w.
            (case pcall (EUnpin c recursive) (pn_Unpin api c recursive) w of
               (Some err, w) \<Rightarrow> (Some err, w)
             | (None, w) \<Rightarrow> pcall EFlush (pn_Flush api) w)) w)"

definition PinAPI_Update :: "('c, 'p) pin_api \<Rightarrow> string \<Rightarrow> string \<Rightarrow> bool \<Rightarrow> ('c, 'p) pin_world \<Rightarrow> perr option \<times> ('c, 'p) pin_world" where
  "PinAPI_Update api fro to unpin w =
     (case ResolvePath api fro of
        Inl err \<Rightarrow> (Some err, w)
      | Inr (fc, _) \<Rightarrow>
          (case ResolvePath api to of
             Inl err \<Rightarrow> (Some err, w)
           | Inr (tc, _) \<Rightarrow>
               with_lock (\<lambda>w.
                 (case pcall (EUpdate fc tc unpin) (pn_Update api fc tc unpin) w of
                    (Some err, w) \<Rightarrow> (Some err, w)
                  | (None, w) \<Rightarrow> pcall EFlush (pn_Flush api) w)) w))"

definition valid_type :: "string \<Rightarrow> bool" where
  "valid_type t \<longleftrightarrow> t \<in> {''all'', ''direct'', ''indirect'', ''recursive''}"

definition invalid_type :: "string \<Rightarrow> perr" where
  "invalid_type t = PErr (''invalid type '' @ [CHR 0x27] @ t @ [CHR 0x27] @ '', must be one of {direct, indirect, recursive, all}'')"

definition PinAPI_IsPinned :: "('c, 'p) pin_api \<Rightarrow> string \<Rightarrow> string \<Rightarrow> ('c, 'p) pin_world \<Rightarrow> perr + (string \<times> bool)" where
  "PinAPI_IsPinned api p withType w =
     (case ResolvePath api p of
        Inl err \<Rightarrow> Inl (case err of PErr s \<Rightarrow> PErr (''error resolving path: '' @ s) | CtxDone \<Rightarrow> PErr ''error resolving path: context canceled'')
      | Inr (c, _) \<Rightarrow>
          if \<not> StringToMode api withType then Inl (invalid_type withType)
          else pn_IsPinnedWithType api c withType (pinning w))"

subsection \<open>Listing\<close>

datatype 'c pinInfo = PinInfo string 'c | PinErr perr

text \<open>A getter of links, and a walk that shares a set of visited nodes and does not visit its root.\<close>

type_synonym 'c getter = "'c \<Rightarrow> perr + 'c list"
type_synonym 'c pin_walk = "'c getter \<Rightarrow> 'c \<Rightarrow> 'c set \<Rightarrow> perr option \<times> 'c set"

record 'c ls_env =
  ls_walk :: "'c pin_walk"
  ls_getLinks :: "'c getter"
  ls_Keys :: "'c set \<Rightarrow> 'c list"
  ls_ctx_done :: "nat \<Rightarrow> bool"

fun AddToResultKeys :: "(nat \<Rightarrow> bool) \<Rightarrow> string \<Rightarrow> 'c list \<Rightarrow> 'c set \<Rightarrow> 'c pinInfo list \<Rightarrow> bool \<times> 'c set \<times> 'c pinInfo list" where
  "AddToResultKeys done t [] keys out = (True, keys, out)"
| "AddToResultKeys done t (c # cs) keys out =
     (if c \<in> keys then AddToResultKeys done t cs keys out
      else if done (length out) then (False, insert c keys, out)
      else AddToResultKeys done t cs (insert c keys) (out @ [PinInfo t c]))"

fun walk_roots :: "'c pin_walk \<Rightarrow> 'c getter \<Rightarrow> 'c list \<Rightarrow> 'c set \<Rightarrow> perr option \<times> 'c set" where
  "walk_roots walk gl [] S = (None, S)"
| "walk_roots walk gl (k # ks) S =
     (case walk gl k S of
        (Some err, S) \<Rightarrow> (Some err, S)
      | (None, S) \<Rightarrow> walk_roots walk gl ks S)"

text \<open>One part of the list: what is added, or the error that ends it.\<close>

definition ls_part :: "'c ls_env \<Rightarrow> string \<Rightarrow> perr + 'c list \<Rightarrow> 'c set \<times> 'c pinInfo list \<Rightarrow> 'c pinInfo list + ('c set \<times> 'c pinInfo list)" where
  "ls_part e t ks st =
     (case st of (keys, out) \<Rightarrow>
      case ks of
        Inl err \<Rightarrow> Inl (out @ [PinErr err])
      | Inr ks \<Rightarrow>
          (case AddToResultKeys (ls_ctx_done e) t ks keys out of
             (False, keys, out) \<Rightarrow> Inl (out @ [PinErr CtxDone])
           | (True, keys, out) \<Rightarrow> Inr (keys, out)))"

text \<open>The nodes below the recursive pins.\<close>

definition indirect_keys :: "'c ls_env \<Rightarrow> 'c list \<Rightarrow> perr + 'c list" where
  "indirect_keys e rkeys =
     (case walk_roots (ls_walk e) (ls_getLinks e) rkeys {} of
        (Some err, _) \<Rightarrow> Inl err
      | (None, S) \<Rightarrow> Inr (ls_Keys e S))"

definition ends :: "'c pinInfo list + ('c set \<times> 'c pinInfo list) \<Rightarrow> 'c pinInfo list" where
  "ends r = (case r of Inl out \<Rightarrow> out | Inr (_, out) \<Rightarrow> out)"

definition andThen :: "'c pinInfo list + ('c set \<times> 'c pinInfo list) \<Rightarrow> ('c set \<times> 'c pinInfo list \<Rightarrow> 'c pinInfo list + ('c set \<times> 'c pinInfo list))
    \<Rightarrow> 'c pinInfo list + ('c set \<times> 'c pinInfo list)" where
  "andThen r f = (case r of Inl out \<Rightarrow> Inl out | Inr st \<Rightarrow> f st)"

definition pinLsAll :: "'c ls_env \<Rightarrow> perr + 'c list \<Rightarrow> perr + 'c list \<Rightarrow> string \<Rightarrow> 'c pinInfo list" where
  "pinLsAll e rk dk typeStr =
     (let s1 = (if typeStr = ''recursive'' \<or> typeStr = ''all'' then ls_part e ''recursive'' rk ({}, []) else Inr ({}, []));
          s2 = andThen s1 (\<lambda>st. if typeStr = ''direct'' \<or> typeStr = ''all'' then ls_part e ''direct'' dk st else Inr st);
          s3 = andThen s2 (\<lambda>st. if typeStr = ''all'' then
                 (case rk of Inl err \<Rightarrow> Inr st | Inr rkeys \<Rightarrow> ls_part e ''indirect'' (indirect_keys e rkeys) st) else Inr st);
          s4 = andThen s3 (\<lambda>(keys, out). if typeStr = ''indirect'' then
                 (case dk of
                    Inl err \<Rightarrow> Inl (out @ [PinErr err])
                  | Inr dkeys \<Rightarrow>
                      (case rk of
                         Inl err \<Rightarrow> Inl (out @ [PinErr err])
                       | Inr rkeys \<Rightarrow> ls_part e ''indirect'' (indirect_keys e rkeys) (keys \<union> set dkeys \<union> set rkeys, out)))
                 else Inr (keys, out))
      in ends s4)"

definition PinAPI_Ls :: "'c ls_env \<Rightarrow> ('c, 'p) pin_api \<Rightarrow> string \<Rightarrow> ('c, 'p) pin_world \<Rightarrow> perr + 'c pinInfo list" where
  "PinAPI_Ls e api typeStr w =
     (if \<not> valid_type typeStr then Inl (invalid_type typeStr)
      else Inr (pinLsAll e (pn_RecursiveKeys api (pinning w)) (pn_DirectKeys api (pinning w)) typeStr))"

subsection \<open>Verifying\<close>

record 'b pinStatus =
  ps_Ok :: bool
  ps_BadNodes :: "'b list"

text \<open>
  The closure \<^verbatim>\<open>checkPin\<close> of the API and of the command: \<open>look\<close> gives the bad nodes to report for a node that
  cannot be read, or its links.  The recursion ends because links go down a DAG; the fuel bounds its depth.
\<close>

fun checkPin :: "nat \<Rightarrow> ('c \<Rightarrow> 'b list + 'c list) \<Rightarrow> 'c \<Rightarrow> ('c \<rightharpoonup> 'b pinStatus) \<Rightarrow> ('b pinStatus \<times> ('c \<rightharpoonup> 'b pinStatus)) option"
  and check_links :: "nat \<Rightarrow> ('c \<Rightarrow> 'b list + 'c list) \<Rightarrow> 'c list \<Rightarrow> 'b pinStatus \<Rightarrow> ('c \<rightharpoonup> 'b pinStatus) \<Rightarrow> ('b pinStatus \<times> ('c \<rightharpoonup> 'b pinStatus)) option" where
  "checkPin 0 look root visited = None"
| "checkPin (Suc n) look root visited =
     (case visited root of
        Some status \<Rightarrow> Some (status, visited)
      | None \<Rightarrow>
          (case look root of
             Inl bad \<Rightarrow>
               (let status = \<lparr>ps_Ok = False, ps_BadNodes = bad\<rparr> in Some (status, visited(root \<mapsto> status)))
           | Inr links \<Rightarrow>
               (case check_links n look links \<lparr>ps_Ok = True, ps_BadNodes = []\<rparr> visited of
                  None \<Rightarrow> None
                | Some (status, visited) \<Rightarrow> Some (status, visited(root \<mapsto> status)))))"
| "check_links n look [] status visited = Some (status, visited)"
| "check_links n look (lnk # links) status visited =
     (case checkPin n look lnk visited of
        None \<Rightarrow> None
      | Some (res, visited) \<Rightarrow>
          check_links n look links
            (if ps_Ok res then status else \<lparr>ps_Ok = False, ps_BadNodes = ps_BadNodes status @ ps_BadNodes res\<rparr>) visited)"

fun check_all :: "nat \<Rightarrow> ('c \<Rightarrow> 'b list + 'c list) \<Rightarrow> 'c list \<Rightarrow> ('c \<rightharpoonup> 'b pinStatus) \<Rightarrow> ('c \<times> 'b pinStatus) list option" where
  "check_all n look [] visited = Some []"
| "check_all n look (c # cs) visited =
     (case checkPin n look c visited of
        None \<Rightarrow> None
      | Some (status, visited) \<Rightarrow> map_option ((#) (c, status)) (check_all n look cs visited))"

definition api_look :: "'c getter \<Rightarrow> ('c \<Rightarrow> string) \<Rightarrow> 'c \<Rightarrow> (string \<times> perr) list + 'c list" where
  "api_look getLinks ipldPath root =
     (case getLinks root of Inl err \<Rightarrow> Inl [(ipldPath root, err)] | Inr links \<Rightarrow> Inr links)"

text \<open>What is sent on the channel, in the order of the recursive pins.\<close>

definition PinAPI_Verify ::
    "nat \<Rightarrow> 'c getter \<Rightarrow> ('c, 'p) pin_api \<Rightarrow> ('c, 'p) pin_world \<Rightarrow> (perr + (string \<times> perr) pinStatus list) option" where
  "PinAPI_Verify n getLinks api w =
     (case pn_RecursiveKeys api (pinning w) of
        Inl err \<Rightarrow> Some (Inl err)
      | Inr recPins \<Rightarrow> map_option (\<lambda>outs. Inr (map snd outs)) (check_all n (api_look getLinks (IpldPath api)) recPins Map.empty))"

section \<open>The commands\<close>

fun pinAddMany :: "('c, 'p) pin_api \<Rightarrow> ('c \<Rightarrow> string) \<Rightarrow> bool \<Rightarrow> string list \<Rightarrow> ('c, 'p) pin_world \<Rightarrow> (perr + string list) \<times> ('c, 'p) pin_world" where
  "pinAddMany api enc recursive [] w = (Inr [], w)"
| "pinAddMany api enc recursive (b # paths) w =
     (case ResolvePath api b of
        Inl err \<Rightarrow> (Inl err, w)
      | Inr (c, rp) \<Rightarrow>
          (case PinAPI_Add api rp recursive w of
             (Some err, w) \<Rightarrow> (Inl err, w)
           | (None, w) \<Rightarrow>
               (case pinAddMany api enc recursive paths w of
                  (Inl err, w) \<Rightarrow> (Inl err, w)
                | (Inr added, w) \<Rightarrow> (Inr (enc c # added), w))))"

record AddPinOutput =
  ap_Pins :: "string list option"
  ap_Progress :: int

text \<open>\<open>ticks\<close> are the values of the tracker at the ticks before the pins are added, \<open>pv\<close> its value then.\<close>

definition addPinCmd :: "('c, 'p) pin_api \<Rightarrow> ('c \<Rightarrow> string) \<Rightarrow> bool \<Rightarrow> bool \<Rightarrow> int list \<Rightarrow> int \<Rightarrow> string list \<Rightarrow> ('c, 'p) pin_world
    \<Rightarrow> (perr option \<times> AddPinOutput list) \<times> ('c, 'p) pin_world" where
  "addPinCmd api enc recursive showProgress ticks pv args w =
     (case pinAddMany api enc recursive args w of (r, w) \<Rightarrow>
      let shown = (if showProgress then map (\<lambda>v. \<lparr>ap_Pins = None, ap_Progress = v\<rparr>) ticks else []);
          final = (if showProgress \<and> pv \<noteq> 0 then [\<lparr>ap_Pins = None, ap_Progress = pv\<rparr>] else [])
      in case r of
           Inl err \<Rightarrow> ((Some err, shown), w)
         | Inr added \<Rightarrow> ((None, shown @ final @ [\<lparr>ap_Pins = Some added, ap_Progress = 0\<rparr>]), w))"

fun rm_loop :: "('c, 'p) pin_api \<Rightarrow> ('c \<Rightarrow> string) \<Rightarrow> bool \<Rightarrow> string list \<Rightarrow> string list \<Rightarrow> ('c, 'p) pin_world \<Rightarrow> (perr + string list) \<times> ('c, 'p) pin_world" where
  "rm_loop api enc recursive [] pins w = (Inr pins, w)"
| "rm_loop api enc recursive (b # args) pins w =
     (case ResolvePath api b of
        Inl err \<Rightarrow> (Inl err, w)
      | Inr (c, rp) \<Rightarrow>
          (case PinAPI_Rm api rp recursive w of
             (Some err, w) \<Rightarrow> (Inl err, w)
           | (None, w) \<Rightarrow> rm_loop api enc recursive args (pins @ [enc c]) w))"

definition rmPinCmd :: "('c, 'p) pin_api \<Rightarrow> ('c \<Rightarrow> string) \<Rightarrow> bool \<Rightarrow> string list \<Rightarrow> ('c, 'p) pin_world \<Rightarrow> (perr + string list) \<times> ('c, 'p) pin_world" where
  "rmPinCmd api enc recursive args w = rm_loop api enc recursive args [] w"

definition updatePinCmd :: "('c, 'p) pin_api \<Rightarrow> ('c \<Rightarrow> string) \<Rightarrow> bool \<Rightarrow> string \<Rightarrow> string \<Rightarrow> ('c, 'p) pin_world \<Rightarrow> (perr + string list) \<times> ('c, 'p) pin_world" where
  "updatePinCmd api enc unpin a0 a1 w =
     (case ResolvePath api a0 of
        Inl err \<Rightarrow> (Inl err, w)
      | Inr (fc, fp) \<Rightarrow>
          (case ResolvePath api a1 of
             Inl err \<Rightarrow> (Inl err, w)
           | Inr (tc, tp) \<Rightarrow>
               (case PinAPI_Update api fp tp unpin w of
                  (Some err, w) \<Rightarrow> (Inl err, w)
                | (None, w) \<Rightarrow> (Inr [enc fc, enc tc], w))))"

subsection \<open>Listing\<close>

text \<open>The objects emitted before an error, and the error.  \<open>emit_err\<close> is the error of sending the n-th object.\<close>

type_synonym ls_emitted = "(string \<times> string) list \<times> perr option"

definition shown_type :: "string \<Rightarrow> string" where
  "shown_type pinType = (if pinType \<in> {''direct'', ''indirect'', ''recursive'', ''internal''} then pinType else ''indirect through '' @ pinType)"

fun ls_keys_loop :: "('c, 'p) pin_api \<Rightarrow> ('c \<Rightarrow> string) \<Rightarrow> (nat \<Rightarrow> perr option) \<Rightarrow> string \<Rightarrow> ('c, 'p) pin_world \<Rightarrow> string list \<Rightarrow> (string \<times> string) list \<Rightarrow> ls_emitted" where
  "ls_keys_loop api enc emit_err typeStr w [] out = (out, None)"
| "ls_keys_loop api enc emit_err typeStr w (p # args) out =
     (case ResolvePath api p of
        Inl err \<Rightarrow> (out, Some err)
      | Inr (c, rp) \<Rightarrow>
          (case PinAPI_IsPinned api rp typeStr w of
             Inl err \<Rightarrow> (out, Some err)
           | Inr (pinType, False) \<Rightarrow> (out, Some (PErr (''path '' @ [CHR 0x27] @ p @ [CHR 0x27] @ '' is not pinned'')))
           | Inr (pinType, True) \<Rightarrow>
               (case emit_err (length out) of
                  Some err \<Rightarrow> (out, Some err)
                | None \<Rightarrow> ls_keys_loop api enc emit_err typeStr w args (out @ [(enc c, shown_type pinType)]))))"

definition pinLsKeys :: "('c, 'p) pin_api \<Rightarrow> ('c \<Rightarrow> string) \<Rightarrow> (nat \<Rightarrow> perr option) \<Rightarrow> string list \<Rightarrow> string \<Rightarrow> ('c, 'p) pin_world \<Rightarrow> ls_emitted" where
  "pinLsKeys api enc emit_err args typeStr w =
     (if \<not> valid_type typeStr then ([], Some (invalid_type typeStr)) else ls_keys_loop api enc emit_err typeStr w args [])"

fun ls_all_loop :: "('c \<Rightarrow> string) \<Rightarrow> (nat \<Rightarrow> perr option) \<Rightarrow> 'c pinInfo list \<Rightarrow> (string \<times> string) list \<Rightarrow> ls_emitted" where
  "ls_all_loop enc emit_err [] out = (out, None)"
| "ls_all_loop enc emit_err (PinErr err # ps) out = (out, Some err)"
| "ls_all_loop enc emit_err (PinInfo t c # ps) out =
     (case emit_err (length out) of
        Some err \<Rightarrow> (out, Some err)
      | None \<Rightarrow> ls_all_loop enc emit_err ps (out @ [(enc c, t)]))"

definition pinLsAll_cmd :: "'c ls_env \<Rightarrow> ('c, 'p) pin_api \<Rightarrow> ('c \<Rightarrow> string) \<Rightarrow> (nat \<Rightarrow> perr option) \<Rightarrow> string \<Rightarrow> ('c, 'p) pin_world \<Rightarrow> ls_emitted" where
  "pinLsAll_cmd e api enc emit_err typeStr w =
     (if \<not> valid_type typeStr then ([], Some (invalid_type typeStr))
      else
        (case PinAPI_Ls e api typeStr w of
           Inl err \<Rightarrow> ([], Some err)
         | Inr pins \<Rightarrow> ls_all_loop enc emit_err pins []))"

text \<open>A stream of objects, or one map from CIDs to types; \<open>None\<close> when nothing is emitted at the end.\<close>

datatype ls_output = LsStream "(string \<times> string) list" | LsList "(string \<rightharpoonup> string) option"

definition listPinCmd :: "'c ls_env \<Rightarrow> ('c, 'p) pin_api \<Rightarrow> ('c \<Rightarrow> string) \<Rightarrow> (nat \<Rightarrow> perr option) \<Rightarrow> bool \<Rightarrow> string \<Rightarrow> string list \<Rightarrow> ('c, 'p) pin_world
    \<Rightarrow> perr option \<times> ls_output" where
  "listPinCmd e api enc emit_err stream typeStr args w =
     (if \<not> valid_type typeStr then (Some (invalid_type typeStr), if stream then LsStream [] else LsList None)
      else
        (let em = (if stream then emit_err else (\<lambda>_. None)) in
         case (if args \<noteq> [] then pinLsKeys api enc em args typeStr w else pinLsAll_cmd e api enc em typeStr w) of
           (out, err) \<Rightarrow>
             if stream then (err, LsStream out)
             else (err, LsList (if err = None then Some (fold (\<lambda>(c, t) m. m(c \<mapsto> t)) out Map.empty) else None))))"

subsection \<open>Verifying\<close>

record pinVerifyOpts =
  vo_explain :: bool
  vo_includeOk :: bool

definition cmd_look :: "('c \<Rightarrow> string option) \<Rightarrow> ('c \<Rightarrow> string + 'c list) \<Rightarrow> ('c \<Rightarrow> string) \<Rightarrow> pinVerifyOpts \<Rightarrow> 'c \<Rightarrow> (string \<times> string) list + 'c list" where
  "cmd_look validateCid getLinks enc opts root =
     (case validateCid root of
        Some err \<Rightarrow> Inl (if vo_explain opts then [(enc root, err)] else [])
      | None \<Rightarrow>
          (case getLinks root of
             Inl err \<Rightarrow> Inl (if vo_explain opts then [(enc root, err)] else [])
           | Inr links \<Rightarrow> Inr links))"

text \<open>The results sent until the context is done.\<close>

fun send_results :: "(nat \<Rightarrow> bool) \<Rightarrow> pinVerifyOpts \<Rightarrow> ('c \<Rightarrow> string) \<Rightarrow> ('c \<times> 'b pinStatus) list \<Rightarrow> (string \<times> 'b pinStatus) list \<Rightarrow> (string \<times> 'b pinStatus) list" where
  "send_results dn opts enc [] out = out"
| "send_results dn opts enc ((c, st) # rest) out =
     (if \<not> ps_Ok st \<or> vo_includeOk opts then
        (if dn (length out) then out else send_results dn opts enc rest (out @ [(enc c, st)]))
      else send_results dn opts enc rest out)"

definition pinVerify ::
    "nat \<Rightarrow> ('c \<Rightarrow> string option) \<Rightarrow> ('c \<Rightarrow> string + 'c list) \<Rightarrow> ('c \<Rightarrow> string) \<Rightarrow> (nat \<Rightarrow> bool) \<Rightarrow> pinVerifyOpts \<Rightarrow> perr + 'c list
     \<Rightarrow> (perr + (string \<times> (string \<times> string) pinStatus) list) option" where
  "pinVerify n validateCid getLinks enc dn opts rkeys =
     (case rkeys of
        Inl err \<Rightarrow> Some (Inl err)
      | Inr recPins \<Rightarrow>
          map_option (\<lambda>rs. Inr (send_results dn opts enc rs [])) (check_all n (cmd_look validateCid getLinks enc opts) recPins Map.empty))"

definition verifyPinCmd ::
    "nat \<Rightarrow> ('c \<Rightarrow> string option) \<Rightarrow> ('c \<Rightarrow> string + 'c list) \<Rightarrow> ('c \<Rightarrow> string) \<Rightarrow> (nat \<Rightarrow> bool) \<Rightarrow> bool \<Rightarrow> bool \<Rightarrow> perr + 'c list
     \<Rightarrow> (perr + (string \<times> (string \<times> string) pinStatus) list) option" where
  "verifyPinCmd n validateCid getLinks enc dn verbose quiet rkeys =
     (if verbose \<and> quiet then Some (Inl (PErr ''the --verbose and --quiet options can not be used at the same time''))
      else pinVerify n validateCid getLinks enc dn \<lparr>vo_explain = \<not> quiet, vo_includeOk = verbose\<rparr> rkeys)"

definition Format :: "string \<times> (string \<times> string) pinStatus \<Rightarrow> string" where
  "Format r =
     (case r of (c, st) \<Rightarrow>
        if ps_Ok st then c @ '' ok'' @ [CHR 0x0A]
        else c @ '' broken'' @ [CHR 0x0A] @ concat (map (\<lambda>(bc, err). ''  '' @ bc @ '': '' @ err @ [CHR 0x0A]) (ps_BadNodes st)))"

definition verify_text :: "bool \<Rightarrow> string \<times> (string \<times> string) pinStatus \<Rightarrow> string" where
  "verify_text quiet r = (if quiet \<and> \<not> ps_Ok (snd r) then fst r @ [CHR 0x0A] else if \<not> quiet then Format r else [])"

end
