(* ===== verification/PinProps.thy ===== *)
theory PinProps
  imports Pins
begin

text \<open>
  What the pin operations promise: the list of pins is exact, a verified pin is reported broken exactly when something
  below it cannot be read, and the pins only change under the lock that keeps the collector out.
\<close>

section \<open>The graph walk\<close>

definition edges :: "'c getter \<Rightarrow> ('c \<times> 'c) set" where
  "edges gl = {(a, b). \<exists>ls. gl a = Inr ls \<and> b \<in> set ls}"

text \<open>The nodes strictly below a node.\<close>

definition below :: "'c getter \<Rightarrow> 'c \<Rightarrow> 'c set" where
  "below gl c = {k. (c, k) \<in> (edges gl)\<^sup>+}"

text \<open>
  What \<^verbatim>\<open>merkledag.Walk\<close> documents when it skips its root: only nodes below it are visited; without an error the links of
  the root and of every node that was new are visited too; an error is that of a node whose links cannot be read, or of
  the context.
\<close>

definition skip_result :: "'c getter \<Rightarrow> 'c \<Rightarrow> 'c set \<Rightarrow> perr option \<times> 'c set \<Rightarrow> bool" where
  "skip_result gl c S r \<longleftrightarrow>
     (case r of (err, S') \<Rightarrow>
        S \<subseteq> S' \<and> S' \<subseteq> S \<union> below gl c \<and>
        (err = None \<longrightarrow> (\<forall>x \<in> insert c (S' - S). \<exists>ls. gl x = Inr ls \<and> set ls \<subseteq> S')) \<and>
        (\<forall>x. err = Some x \<longrightarrow> x = CtxDone \<or> (\<exists>k \<in> insert c (below gl c). gl k = Inl x)))"

locale skip_walk =
  fixes walk :: "'c pin_walk"
  assumes walk_ok: "finite (below gl c) \<Longrightarrow> skip_result gl c S (walk gl c S)"

lemma below_link: "gl a = Inr ls \<Longrightarrow> b \<in> set ls \<Longrightarrow> b \<in> below gl a"
  by (auto simp: below_def edges_def)

lemma below_step: "k \<in> insert c (below gl c) \<Longrightarrow> gl k = Inr ls \<Longrightarrow> l \<in> set ls \<Longrightarrow> l \<in> below gl c"
  by (auto simp: below_def edges_def intro: trancl_into_trancl)

text \<open>A set that holds the links of a node and of each of its own nodes holds everything below the node.\<close>

lemma below_closed:
  assumes "k \<in> below gl c" and "\<And>x ls. x \<in> insert c S \<Longrightarrow> gl x = Inr ls \<Longrightarrow> set ls \<subseteq> S"
  shows "k \<in> S"
proof -
  have "(c, k) \<in> (edges gl)\<^sup>+" using assms(1) by (simp add: below_def)
  then show ?thesis
    by (induction rule: trancl_induct) (use assms(2) in \<open>auto simp: edges_def\<close>)
qed

context skip_walk
begin

lemma walk_roots_exact:
  assumes "\<forall>x \<in> S. \<exists>ls. gl x = Inr ls \<and> set ls \<subseteq> S" and "\<forall>k \<in> set ks. finite (below gl k)"
    and "walk_roots walk gl ks S = (err, S')"
  shows "S \<subseteq> S' \<and> S' \<subseteq> S \<union> (\<Union>k \<in> set ks. below gl k) \<and>
    (err = None \<longrightarrow> S' = S \<union> (\<Union>k \<in> set ks. below gl k)) \<and>
    (\<forall>x. err = Some x \<longrightarrow> x = CtxDone \<or> (\<exists>k \<in> set ks. \<exists>j \<in> insert k (below gl k). gl j = Inl x))"
  using assms
proof (induction ks arbitrary: S)
  case (Cons k ks)
  obtain e T where w: "walk gl k S = (e, T)" by fastforce
  have "skip_result gl k S (e, T)" using walk_ok[of gl k S] Cons.prems(2) w by simp
  then have r: "S \<subseteq> T" "T \<subseteq> S \<union> below gl k" "e = None \<Longrightarrow> \<forall>x \<in> insert k (T - S). \<exists>ls. gl x = Inr ls \<and> set ls \<subseteq> T"
    "\<And>x. e = Some x \<Longrightarrow> x = CtxDone \<or> (\<exists>j \<in> insert k (below gl k). gl j = Inl x)"
    by (auto simp: skip_result_def)
  show ?case
  proof (cases e)
    case None
    have closed: "\<forall>x \<in> T. \<exists>ls. gl x = Inr ls \<and> set ls \<subseteq> T"
      using Cons.prems(1) r(1) r(3)[OF None] by (metis DiffI insertI2 order_trans)
    have "below gl k \<subseteq> T"
    proof
      fix j assume "j \<in> below gl k"
      then show "j \<in> T" by (rule below_closed) (use closed r(3)[OF None] in force)
    qed
    then have T: "T = S \<union> below gl k" using r(1,2) by blast
    have "walk_roots walk gl ks T = (err, S')" using Cons.prems(3) w None by simp
    from Cons.IH[OF closed _ this] Cons.prems(2) show ?thesis unfolding T by auto
  next
    case (Some x)
    then have "err = Some x" "S' = T" using Cons.prems(3) w by auto
    then show ?thesis using r(1,2) r(4)[OF Some] by auto
  qed
qed simp

end

subsection \<open>A sequential walk\<close>

partial_function (option) skip_loop :: "'c getter \<Rightarrow> 'c list \<Rightarrow> 'c set \<Rightarrow> (perr option \<times> 'c set) option" where
  "skip_loop gl st S =
     (case st of
        [] \<Rightarrow> Some (None, S)
      | k # ks \<Rightarrow>
          if k \<in> S then skip_loop gl ks S
          else
            (case gl k of
               Inl err \<Rightarrow> Some (Some err, insert k S)
             | Inr ls \<Rightarrow> skip_loop gl (ls @ ks) (insert k S)))"

definition skip_seq :: "'c pin_walk" where
  "skip_seq gl c S = (case gl c of Inl err \<Rightarrow> (Some err, S) | Inr ls \<Rightarrow> the (skip_loop gl ls S))"

definition skip_inv :: "'c getter \<Rightarrow> 'c \<Rightarrow> 'c set \<Rightarrow> 'c list \<Rightarrow> 'c set \<Rightarrow> bool" where
  "skip_inv gl c S0 st S \<longleftrightarrow>
     S0 \<subseteq> S \<and> S \<subseteq> S0 \<union> below gl c \<and> set st \<subseteq> below gl c \<and>
     (\<forall>x \<in> insert c (S - S0). \<exists>ls. gl x = Inr ls \<and> set ls \<subseteq> S \<union> set st)"

lemma skip_loop_ok:
  assumes "finite (below gl c)" and "skip_inv gl c S0 st S"
  shows "\<exists>r. skip_loop gl st S = Some r \<and> skip_result gl c S0 r"
  using assms(2)
proof (induction "card (below gl c - S)" arbitrary: st S rule: less_induct)
  case less
  note IH = less.hyps
  from less.prems show ?case
  proof (induction st)
    case Nil
    then have "skip_result gl c S0 (None, S)" by (auto simp: skip_inv_def skip_result_def)
    then show ?case by (subst skip_loop.simps) simp
  next
    case (Cons k ks)
    have k: "k \<in> below gl c" using Cons.prems by (auto simp: skip_inv_def)
    show ?case
    proof (cases "k \<in> S")
      case True
      then have "skip_inv gl c S0 ks S" using Cons.prems by (simp add: skip_inv_def insert_absorb)
      from Cons.IH[OF this] show ?thesis by (subst skip_loop.simps) (simp add: True)
    next
      case new: False
      show ?thesis
      proof (cases "gl k")
        case (Inl err)
        then have "skip_result gl c S0 (Some err, insert k S)"
          using Cons.prems k by (auto simp: skip_inv_def skip_result_def)
        then show ?thesis by (subst skip_loop.simps) (simp add: new Inl)
      next
        case (Inr ls)
        have "set ls \<subseteq> below gl c" using below_step[of k c gl ls] Inr k by blast
        then have "skip_inv gl c S0 (ls @ ks) (insert k S)"
          using Cons.prems k Inr by (fastforce simp: skip_inv_def)
        moreover have "card (below gl c - insert k S) < card (below gl c - S)"
          using k new assms(1) by (intro psubset_card_mono) auto
        ultimately show ?thesis using IH by (subst skip_loop.simps) (simp add: new Inr)
      qed
    qed
  qed
qed

interpretation seq: skip_walk skip_seq
proof
  fix gl :: "'c getter" and c S
  assume fin: "finite (below gl c)"
  show "skip_result gl c S (skip_seq gl c S)"
  proof (cases "gl c")
    case (Inl err)
    then show ?thesis by (auto simp: skip_seq_def skip_result_def)
  next
    case (Inr ls)
    then have "skip_inv gl c S ls S" by (auto simp: skip_inv_def intro: below_link)
    from skip_loop_ok[OF fin this] show ?thesis using Inr by (auto simp: skip_seq_def)
  qed
qed

section \<open>Listing\<close>

lemma AddToResultKeys_spec:
  assumes "AddToResultKeys dn t ks keys out = (ok, keys', out')"
  shows "\<exists>new. out' = out @ map (PinInfo t) new \<and> distinct new \<and> set new \<inter> keys = {} \<and> set new \<subseteq> set ks \<and>
    keys \<union> set new \<subseteq> keys' \<and> (ok \<longrightarrow> keys' = keys \<union> set ks \<and> set new = set ks - keys)"
  using assms
proof (induction ks arbitrary: keys out)
  case (Cons c cs)
  show ?case
  proof (cases "c \<in> keys \<or> dn (length out)")
    case True
    show ?thesis
    proof (cases "c \<in> keys")
      case True
      then have "AddToResultKeys dn t cs keys out = (ok, keys', out')" using Cons.prems by simp
      from Cons.IH[OF this] True show ?thesis by (metis (no_types, lifting) Diff_insert_absorb Un_insert_right insert_Diff1 insert_absorb list.set(2) subset_insertI2 sup_left_commute Un_iff)
    next
      case False
      then have "\<not> ok" "keys' = insert c keys" "out' = out" using True Cons.prems by auto
      then show ?thesis by (intro exI[of _ "[]"]) auto
    qed
  next
    case False
    then have "AddToResultKeys dn t cs (insert c keys) (out @ [PinInfo t c]) = (ok, keys', out')" using Cons.prems by simp
    from Cons.IH[OF this] obtain new where "out' = (out @ [PinInfo t c]) @ map (PinInfo t) new" "distinct new"
      "set new \<inter> insert c keys = {}" "set new \<subseteq> set cs" "insert c keys \<union> set new \<subseteq> keys'"
      "ok \<longrightarrow> keys' = insert c keys \<union> set cs \<and> set new = set cs - insert c keys" by blast
    then show ?thesis using False by (intro exI[of _ "c # new"]) auto
  qed
qed simp

text \<open>The pins sent so far, and the error that may follow them.\<close>

abbreviation sent :: "(string \<times> 'c) list \<Rightarrow> 'c pinInfo list" where
  "sent pins \<equiv> map (\<lambda>(t, c). PinInfo t c) pins"

definition keys_inv :: "(string \<times> 'c) list \<Rightarrow> 'c set \<Rightarrow> bool" where
  "keys_inv pins keys \<longleftrightarrow> distinct (map snd pins) \<and> snd ` set pins \<subseteq> keys"

text \<open>A part adds new keys of its list under its type, all of them unless it ends with an error.\<close>

lemma ls_part_spec:
  assumes "keys_inv pins keys"
  shows "(\<exists>new err. ls_part e t ks (keys, sent pins) = Inl (sent (pins @ map (Pair t) new) @ [PinErr err]) \<and>
      keys_inv (pins @ map (Pair t) new) (keys \<union> set new) \<and> set new \<inter> keys = {} \<and>
      (case ks of Inl x \<Rightarrow> new = [] \<and> err = x | Inr cs \<Rightarrow> set new \<subseteq> set cs \<and> err = CtxDone)) \<or>
    (\<exists>new cs. ks = Inr cs \<and> ls_part e t ks (keys, sent pins) = Inr (keys \<union> set cs, sent (pins @ map (Pair t) new)) \<and>
      keys_inv (pins @ map (Pair t) new) (keys \<union> set cs) \<and> set new = set cs - keys)"
proof (cases ks)
  case (Inl x)
  then have "ls_part e t ks (keys, sent pins) = Inl (sent (pins @ map (Pair t) []) @ [PinErr x])" by (simp add: ls_part_def)
  then show ?thesis using Inl assms by (intro disjI1 exI[of _ "[]"] exI[of _ x]) simp
next
  case (Inr cs)
  obtain ok keys' out' where a: "AddToResultKeys (ls_ctx_done e) t cs keys (sent pins) = (ok, keys', out')" by (metis prod_cases3)
  from AddToResultKeys_spec[OF a] obtain new where new: "out' = sent pins @ map (PinInfo t) new" "distinct new"
    "set new \<inter> keys = {}" "set new \<subseteq> set cs" "ok \<Longrightarrow> keys' = keys \<union> set cs \<and> set new = set cs - keys" by blast
  have out: "out' = sent (pins @ map (Pair t) new)" using new(1) by simp
  have inv: "keys_inv (pins @ map (Pair t) new) (keys \<union> set new)"
    using assms new(2,3) by (auto simp: keys_inv_def comp_def)
  show ?thesis
  proof (cases ok)
    case True
    with a out Inr have "ls_part e t ks (keys, sent pins) = Inr (keys \<union> set cs, sent (pins @ map (Pair t) new))"
      using new(5) by (simp add: ls_part_def)
    moreover have "keys_inv (pins @ map (Pair t) new) (keys \<union> set cs)" using inv new(4) by (auto simp: keys_inv_def)
    ultimately show ?thesis using Inr new(5) True by blast
  next
    case False
    with a out Inr have "ls_part e t ks (keys, sent pins) = Inl (sent (pins @ map (Pair t) new) @ [PinErr CtxDone])"
      by (simp add: ls_part_def)
    then show ?thesis using Inr inv new(3,4) by (intro disjI1 exI[of _ new] exI[of _ CtxDone]) simp
  qed
qed

text \<open>The types under which a node is listed, for each type asked for.\<close>

definition listed :: "string \<Rightarrow> 'c set \<Rightarrow> 'c set \<Rightarrow> 'c set \<Rightarrow> string \<Rightarrow> 'c \<Rightarrow> bool" where
  "listed typeStr R D I t c \<longleftrightarrow>
     t = ''recursive'' \<and> c \<in> R \<and> (typeStr = ''recursive'' \<or> typeStr = ''all'') \<or>
     t = ''direct'' \<and> c \<in> D \<and> (typeStr = ''direct'' \<or> typeStr = ''all'' \<and> c \<notin> R) \<or>
     t = ''indirect'' \<and> c \<in> I \<and> c \<notin> R \<and> c \<notin> D \<and> (typeStr = ''indirect'' \<or> typeStr = ''all'')"

definition ls_result :: "('c \<Rightarrow> perr + 'c list) \<Rightarrow> 'c set \<Rightarrow> (string \<Rightarrow> 'c \<Rightarrow> bool) \<Rightarrow> 'c pinInfo list \<Rightarrow> bool" where
  "ls_result gl nodes L out \<longleftrightarrow>
     (\<exists>pins. distinct (map snd pins) \<and> (\<forall>(t, c) \<in> set pins. L t c) \<and>
       (out = sent pins \<and> (\<forall>t c. L t c \<longrightarrow> (t, c) \<in> set pins) \<or>
        (\<exists>err. out = sent pins @ [PinErr err] \<and> (err = CtxDone \<or> (\<exists>k \<in> nodes. gl k = Inl err)))))"

definition walk_ready :: "'c ls_env \<Rightarrow> 'c list \<Rightarrow> bool" where
  "walk_ready e rk \<longleftrightarrow> skip_walk (ls_walk e) \<and> (\<forall>k \<in> set rk. finite (below (ls_getLinks e) k)) \<and>
     (\<forall>S. finite S \<longrightarrow> set (ls_Keys e S) = S)"

lemma indirect_keys_exact:
  assumes "walk_ready e rk"
  shows "case indirect_keys e rk of
      Inl err \<Rightarrow> err = CtxDone \<or> (\<exists>k \<in> set rk \<union> (\<Union>k \<in> set rk. below (ls_getLinks e) k). ls_getLinks e k = Inl err)
    | Inr cs \<Rightarrow> set cs = (\<Union>k \<in> set rk. below (ls_getLinks e) k)"
proof -
  obtain err S where w: "walk_roots (ls_walk e) (ls_getLinks e) rk {} = (err, S)" by fastforce
  note spec = skip_walk.walk_roots_exact[OF _ _ _ w]
  have r: "err = None \<longrightarrow> S = (\<Union>k \<in> set rk. below (ls_getLinks e) k)"
    "\<forall>x. err = Some x \<longrightarrow> x = CtxDone \<or> (\<exists>k \<in> set rk. \<exists>j \<in> insert k (below (ls_getLinks e) k). ls_getLinks e j = Inl x)"
    using spec assms by (auto simp: walk_ready_def)
  show ?thesis
  proof (cases err)
    case None
    then have "finite S" using r(1) assms by (simp add: walk_ready_def)
    then have "set (ls_Keys e S) = S" using assms by (simp add: walk_ready_def)
    then show ?thesis using w None r(1) by (simp add: indirect_keys_def)
  next
    case (Some x)
    then show ?thesis using w r(2) by (auto simp: indirect_keys_def)
  qed
qed

text \<open>A part after the pins already sent.\<close>

lemma ls_result_step:
  assumes "keys_inv pins keys" and "\<And>t c. (t, c) \<in> set pins \<longleftrightarrow> M t c" and "\<And>t c. M t c \<Longrightarrow> L t c" and "\<And>c. c \<in> A - keys \<Longrightarrow> L ty c"
    and ks: "case ks of Inl err \<Rightarrow> err = CtxDone \<or> (\<exists>k \<in> nodes. gl k = Inl err) | Inr cs \<Rightarrow> set cs = A"
    and more: "\<And>pins'. keys_inv pins' (keys \<union> A) \<Longrightarrow> (\<And>t c. (t, c) \<in> set pins' \<longleftrightarrow> M t c \<or> t = ty \<and> c \<in> A - keys) \<Longrightarrow>
      ls_result gl nodes L (ends (f (keys \<union> A, sent pins')))"
  shows "ls_result gl nodes L (ends (andThen (ls_part e ty ks (keys, sent pins)) f))"
proof -
  from ls_part_spec[OF assms(1), of e ty ks] consider
      new err where "ls_part e ty ks (keys, sent pins) = Inl (sent (pins @ map (Pair ty) new) @ [PinErr err])"
        "keys_inv (pins @ map (Pair ty) new) (keys \<union> set new)" "set new \<inter> keys = {}"
        "case ks of Inl x \<Rightarrow> new = [] \<and> err = x | Inr cs \<Rightarrow> set new \<subseteq> set cs \<and> err = CtxDone"
    | new cs where "ks = Inr cs" "ls_part e ty ks (keys, sent pins) = Inr (keys \<union> set cs, sent (pins @ map (Pair ty) new))"
        "keys_inv (pins @ map (Pair ty) new) (keys \<union> set cs)" "set new = set cs - keys"
    by blast
  then show ?thesis
  proof cases
    case 1
    then have "set new \<subseteq> A - keys" "err = CtxDone \<or> (\<exists>k \<in> nodes. gl k = Inl err)"
      using ks by (auto split: sum.splits)
    then show ?thesis unfolding ls_result_def ends_def andThen_def using 1(1,2) assms(2-4)
      by (intro exI[of _ "pins @ map (Pair ty) new"]) (auto simp: keys_inv_def)
  next
    case 2
    then have "set cs = A" using ks by simp
    then show ?thesis using more[of "pins @ map (Pair ty) new"] 2 assms(2) by (auto simp: andThen_def)
  qed
qed

lemma andThen_Inr: "andThen r Inr = r"
  by (simp add: andThen_def split: sum.splits)

text \<open>A list that is one part.\<close>

lemma ls_one_part:
  assumes "\<And>t c. L t c \<longleftrightarrow> t = ty \<and> c \<in> A - keys"
    and "case ks of Inl err \<Rightarrow> err = CtxDone \<or> (\<exists>k \<in> nodes. gl k = Inl err) | Inr cs \<Rightarrow> set cs = A"
  shows "ls_result gl nodes L (ends (ls_part e ty ks (keys, [])))"
proof -
  have "ls_result gl nodes L (ends (andThen (ls_part e ty ks (keys, sent [])) Inr))"
    by (rule ls_result_step[where M = "\<lambda>_ _. False" and A = A])
      (use assms in \<open>auto simp: keys_inv_def ends_def ls_result_def\<close>)
  then show ?thesis by (simp add: andThen_Inr)
qed

lemma ls_all_parts:
  assumes L: "\<And>t c. L t c \<longleftrightarrow> t = ''recursive'' \<and> c \<in> set rk \<or> t = ''direct'' \<and> c \<in> set dk - set rk \<or> t = ''indirect'' \<and> c \<in> I - set rk - set dk"
    and ks: "case ks of Inl err \<Rightarrow> err = CtxDone \<or> (\<exists>k \<in> nodes. gl k = Inl err) | Inr cs \<Rightarrow> set cs = I"
  shows "ls_result gl nodes L (ends (andThen (ls_part e ''recursive'' (Inr rk) ({}, []))
     (\<lambda>st. andThen (ls_part e ''direct'' (Inr dk) st) (\<lambda>st. ls_part e ''indirect'' ks st))))"
proof -
  have 3: "ls_result gl nodes L (ends (ls_part e ''indirect'' ks ({} \<union> set rk \<union> set dk, sent p)))"
    if "keys_inv p ({} \<union> set rk \<union> set dk)"
      "\<And>t c. (t, c) \<in> set p \<longleftrightarrow> (False \<or> t = ''recursive'' \<and> c \<in> set rk - {}) \<or> t = ''direct'' \<and> c \<in> set dk - ({} \<union> set rk)" for p
  proof -
    have "ls_result gl nodes L (ends (andThen (ls_part e ''indirect'' ks ({} \<union> set rk \<union> set dk, sent p)) Inr))"
      by (rule ls_result_step[OF that, where A = I]) (use L ks in \<open>auto simp: ends_def ls_result_def keys_inv_def\<close>)
    then show ?thesis by (simp only: andThen_Inr)
  qed
  have 2: "ls_result gl nodes L (ends (andThen (ls_part e ''direct'' (Inr dk) ({} \<union> set rk, sent p)) (\<lambda>st. ls_part e ''indirect'' ks st)))"
    if "keys_inv p ({} \<union> set rk)" "\<And>t c. (t, c) \<in> set p \<longleftrightarrow> False \<or> t = ''recursive'' \<and> c \<in> set rk - {}" for p
    by (rule ls_result_step[OF that(1) that(2), where A = "set dk"]) (use L 3 in auto)
  have "ls_result gl nodes L (ends (andThen (ls_part e ''recursive'' (Inr rk) ({}, sent []))
     (\<lambda>st. andThen (ls_part e ''direct'' (Inr dk) st) (\<lambda>st. ls_part e ''indirect'' ks st))))"
    by (rule ls_result_step[where M = "\<lambda>_ _. False" and A = "set rk"]) (use L 2 in \<open>auto simp: keys_inv_def\<close>)
  then show ?thesis by simp
qed

section \<open>Verifying\<close>

text \<open>A node and everything below it that can be reached through readable nodes.\<close>

definition reach :: "('c \<Rightarrow> 'b list + 'c list) \<Rightarrow> 'c \<Rightarrow> 'c set" where
  "reach look c = {k. (c, k) \<in> {(a, b). \<exists>ls. look a = Inr ls \<and> b \<in> set ls}\<^sup>*}"

definition bad_nodes :: "('c \<Rightarrow> 'b list + 'c list) \<Rightarrow> 'c \<Rightarrow> 'b list" where
  "bad_nodes look k = (case look k of Inl bad \<Rightarrow> bad | Inr _ \<Rightarrow> [])"

text \<open>The status of a set of nodes: fine when all of them can be read, and exactly the bad ones reported.\<close>

definition status_of :: "('c \<Rightarrow> 'b list + 'c list) \<Rightarrow> 'c set \<Rightarrow> 'b pinStatus \<Rightarrow> bool" where
  "status_of look K st \<longleftrightarrow>
     (ps_Ok st \<longleftrightarrow> (\<forall>k \<in> K. \<exists>ls. look k = Inr ls)) \<and> set (ps_BadNodes st) = (\<Union>k \<in> K. set (bad_nodes look k))"

lemma reach_unfold: "reach look c = insert c (case look c of Inl bad \<Rightarrow> {} | Inr ls \<Rightarrow> (\<Union>l \<in> set ls. reach look l))"
  (is "?l = ?r")
proof
  show "?l \<subseteq> ?r"
  proof
    fix k assume "k \<in> ?l"
    then have "(c, k) \<in> {(a, b). \<exists>ls. look a = Inr ls \<and> b \<in> set ls}\<^sup>*" by (simp add: reach_def)
    then show "k \<in> ?r" by (cases rule: converse_rtranclE) (auto simp: reach_def split: sum.splits)
  qed
  show "?r \<subseteq> ?l" by (auto simp: reach_def split: sum.splits intro: converse_rtrancl_into_rtrancl)
qed

definition memo_ok :: "('c \<Rightarrow> 'b list + 'c list) \<Rightarrow> ('c \<rightharpoonup> 'b pinStatus) \<Rightarrow> bool" where
  "memo_ok look visited \<longleftrightarrow> (\<forall>c st. visited c = Some st \<longrightarrow> status_of look (reach look c) st)"

text \<open>The depth of a node: its links are less deep.\<close>

definition ranked :: "('c \<Rightarrow> 'b list + 'c list) \<Rightarrow> ('c \<Rightarrow> nat) \<Rightarrow> bool" where
  "ranked look h \<longleftrightarrow> (\<forall>a ls b. look a = Inr ls \<and> b \<in> set ls \<longrightarrow> h b < h a)"

lemma status_union:
  assumes "status_of look K st" and "status_of look K' res"
  shows "status_of look (K \<union> K') (if ps_Ok res then st else \<lparr>ps_Ok = False, ps_BadNodes = ps_BadNodes st @ ps_BadNodes res\<rparr>)"
proof (cases "ps_Ok res")
  case True
  then have "\<forall>k \<in> K'. \<exists>ls. look k = Inr ls" using assms(2) by (simp add: status_of_def)
  then have "(\<Union>k \<in> K'. set (bad_nodes look k)) = {}" "\<forall>k \<in> K'. \<exists>ls. look k = Inr ls" by (force simp: bad_nodes_def)+
  then show ?thesis using assms(1) True by (auto simp: status_of_def)
next
  case False
  then show ?thesis using assms by (auto simp: status_of_def)
qed

lemma check_links_exact:
  assumes IH: "\<And>root visited. h root < n \<Longrightarrow> memo_ok look visited \<Longrightarrow>
      \<exists>st visited'. checkPin n look root visited = Some (st, visited') \<and> status_of look (reach look root) st \<and> memo_ok look visited'"
    and "\<forall>l \<in> set links. h l < n" and "memo_ok look visited" and "status_of look K status"
  shows "\<exists>st visited'. check_links n look links status visited = Some (st, visited') \<and>
    status_of look (K \<union> (\<Union>l \<in> set links. reach look l)) st \<and> memo_ok look visited'"
  using assms(2-4)
proof (induction links arbitrary: status visited K)
  case (Cons l links)
  from IH[of l visited] Cons.prems obtain res v where
    c: "checkPin n look l visited = Some (res, v)" "status_of look (reach look l) res" "memo_ok look v" by auto
  note u = status_union[OF Cons.prems(3) c(2)]
  from Cons.IH[OF _ c(3) u] Cons.prems(1) show ?case by (simp add: c(1) Un_assoc)
qed simp

lemma checkPin_exact:
  assumes "ranked look h"
  shows "h root < n \<Longrightarrow> memo_ok look visited \<Longrightarrow>
      \<exists>st visited'. checkPin n look root visited = Some (st, visited') \<and> status_of look (reach look root) st \<and> memo_ok look visited'"
proof (induction n arbitrary: root visited)
  case (Suc n)
  show ?case
  proof (cases "visited root")
    case None
    show ?thesis
    proof (cases "look root")
      case (Inl bad)
      then have "status_of look (reach look root) \<lparr>ps_Ok = False, ps_BadNodes = bad\<rparr>"
        by (subst reach_unfold) (simp add: status_of_def bad_nodes_def)
      then show ?thesis using None Inl Suc.prems(2) by (auto simp: memo_ok_def Let_def)
    next
      case (Inr links)
      have "\<forall>l \<in> set links. h l < n" using assms Inr Suc.prems(1) unfolding ranked_def by (metis less_Suc_eq_le less_le_trans)
      moreover have "status_of look {root} \<lparr>ps_Ok = True, ps_BadNodes = []\<rparr>" using Inr by (simp add: status_of_def bad_nodes_def)
      ultimately obtain st v where c: "check_links n look links \<lparr>ps_Ok = True, ps_BadNodes = []\<rparr> visited = Some (st, v)"
        "status_of look ({root} \<union> (\<Union>l \<in> set links. reach look l)) st" "memo_ok look v"
        using check_links_exact[OF Suc.IH _ Suc.prems(2)] by blast
      moreover have "reach look root = {root} \<union> (\<Union>l \<in> set links. reach look l)" by (subst reach_unfold) (simp add: Inr)
      ultimately show ?thesis using None Inr by (auto simp: memo_ok_def)
    qed
  qed (use Suc.prems in \<open>auto simp: memo_ok_def\<close>)
qed simp

lemma check_all_exact:
  assumes "ranked look h" and "\<forall>c \<in> set cs. h c < n" and "memo_ok look visited"
  shows "\<exists>outs. check_all n look cs visited = Some outs \<and> map fst outs = cs \<and> (\<forall>(c, st) \<in> set outs. status_of look (reach look c) st)"
  using assms(2,3)
proof (induction cs arbitrary: visited)
  case (Cons c cs)
  from checkPin_exact[OF assms(1), of c n visited] Cons.prems obtain st v where
    c: "checkPin n look c visited = Some (st, v)" "status_of look (reach look c) st" "memo_ok look v" by auto
  from Cons.IH[OF _ c(3)] Cons.prems(1) c(1,2) show ?case by auto
qed simp

lemma send_results_all:
  assumes "\<forall>i. \<not> dn i"
  shows "send_results dn opts enc rs out = out @ map (\<lambda>(c, st). (enc c, st)) (filter (\<lambda>(c, st). \<not> ps_Ok st \<or> vo_includeOk opts) rs)"
proof (induction rs arbitrary: out)
  case (Cons r rs)
  then show ?case using assms by (cases r) simp
qed simp

section \<open>Locking\<close>

text \<open>
  The trace of a run is read with the lock as its state: pins change, and are flushed, only while it is held, it is
  never taken twice, and \<open>locked_run\<close> gives its state at the end.
\<close>

fun locked_run :: "bool \<Rightarrow> 'c pin_event list \<Rightarrow> bool option" where
  "locked_run l [] = Some l"
| "locked_run l (PinLock # evs) = (if l then None else locked_run True evs)"
| "locked_run l (Unlock # evs) = (if l then locked_run False evs else None)"
| "locked_run l (ev # evs) = (if l then locked_run l evs else None)"

lemma locked_run_append: "locked_run l (xs @ ys) = (case locked_run l xs of None \<Rightarrow> None | Some l' \<Rightarrow> locked_run l' ys)"
  by (induction l xs rule: locked_run.induct) auto

text \<open>The events of a call that runs under the lock leave it as it was.\<close>

lemmas trace_simps = emit_ev_def pcall_def locked_run_append

lemma with_lock_trace:
  assumes "locked_run False (pin_trace w) = Some False"
    and "\<And>w' r. f (emit_ev PinLock w) = (r, w') \<Longrightarrow> locked_run False (pin_trace w') = Some True"
    and "with_lock f w = (r, w')"
  shows "locked_run False (pin_trace w') = Some False"
  using assms by (auto simp: with_lock_def trace_simps split: prod.splits)

lemma Add_locked:
  "locked_run False (pin_trace w) = Some False \<Longrightarrow> PinAPI_Add api p recursive w = (r, w') \<Longrightarrow> locked_run False (pin_trace w') = Some False"
  by (auto simp: PinAPI_Add_def Let_def split: sum.splits option.splits elim!: with_lock_trace[rotated 2])
    (auto simp: trace_simps Let_def split: prod.splits option.splits)

lemma Rm_locked:
  "locked_run False (pin_trace w) = Some False \<Longrightarrow> PinAPI_Rm api p recursive w = (r, w') \<Longrightarrow> locked_run False (pin_trace w') = Some False"
  by (auto simp: PinAPI_Rm_def Let_def split: sum.splits option.splits elim!: with_lock_trace[rotated 2])
    (auto simp: trace_simps Let_def split: prod.splits option.splits)

lemma Update_locked:
  "locked_run False (pin_trace w) = Some False \<Longrightarrow> PinAPI_Update api p q unpin w = (r, w') \<Longrightarrow> locked_run False (pin_trace w') = Some False"
  by (auto simp: PinAPI_Update_def Let_def split: sum.splits option.splits elim!: with_lock_trace[rotated 2])
    (auto simp: trace_simps Let_def split: prod.splits option.splits)


lemma addMany_locked:
  "locked_run False (pin_trace w) = Some False \<Longrightarrow> pinAddMany api enc recursive args w = (r, w') \<Longrightarrow> locked_run False (pin_trace w') = Some False"
  by (induction args arbitrary: w r) (auto split: sum.splits prod.splits option.splits dest: Add_locked)

lemma rm_loop_locked:
  "locked_run False (pin_trace w) = Some False \<Longrightarrow> rm_loop api enc recursive args pins w = (r, w') \<Longrightarrow> locked_run False (pin_trace w') = Some False"
  by (induction args arbitrary: w pins) (auto split: sum.splits prod.splits option.splits dest: Rm_locked)

section \<open>A small store\<close>

text \<open>Node 0 links to 1 and 2, 1 to 3; the links of 3 cannot be read.  The recursive pins are 0 and 2, the direct ones 1.\<close>

definition demo_links :: "nat getter" where
  "demo_links c = (if c = 0 then Inr [1, 2] else if c = 1 then Inr [3] else if c = 2 then Inr [] else Inl (PErr ''missing''))"

definition demo_whole :: "nat getter" where
  "demo_whole c = (if c = 0 then Inr [1, 2] else if c = 1 then Inr [3] else Inr [])"

definition demo_ls :: "nat ls_env" where
  "demo_ls = \<lparr>ls_walk = skip_seq, ls_getLinks = demo_whole, ls_Keys = sorted_list_of_set, ls_ctx_done = (\<lambda>_. False)\<rparr>"

lemma demo_below: "below demo_whole c \<subseteq> {1, 2, 3}"
proof
  fix k assume "k \<in> below demo_whole c"
  then have "(c, k) \<in> (edges demo_whole)\<^sup>+" by (simp add: below_def)
  then show "k \<in> {1, 2, 3}" by (cases rule: tranclE) (auto simp: edges_def demo_whole_def split: if_splits)
qed

lemma demo_ready: "walk_ready demo_ls rk"
proof -
  have "finite (below demo_whole k)" for k by (rule finite_subset[OF demo_below]) simp
  then show ?thesis by (simp add: walk_ready_def demo_ls_def seq.skip_walk_axioms)
qed

section \<open>Properties\<close>

text \<open>
  C19. The list of pins is exact: every node is listed once, under the type that has priority (a recursive pin, then a
  direct one, then an indirect one), and the list is complete unless it ends with an error, which is that of a node
  below a recursive pin that cannot be read, or of the context.
\<close>

theorem pinLsAll_exact:
  assumes "walk_ready e rk" and "valid_type typeStr"
  shows "ls_result (ls_getLinks e) (set rk \<union> (\<Union>k \<in> set rk. below (ls_getLinks e) k))
    (listed typeStr (set rk) (set dk) (\<Union>k \<in> set rk. below (ls_getLinks e) k)) (pinLsAll e (Inr rk) (Inr dk) typeStr)"
proof -
  let ?gl = "ls_getLinks e" and ?I = "\<Union>k \<in> set rk. below (ls_getLinks e) k"
  note ind = indirect_keys_exact[OF assms(1)]
  consider "typeStr = ''all''" | "typeStr = ''direct''" | "typeStr = ''indirect''" | "typeStr = ''recursive''"
    using assms(2) by (auto simp: valid_type_def)
  then show ?thesis
  proof cases
    case 1
    have "pinLsAll e (Inr rk) (Inr dk) typeStr = ends (andThen (ls_part e ''recursive'' (Inr rk) ({}, []))
        (\<lambda>st. andThen (ls_part e ''direct'' (Inr dk) st) (\<lambda>st. ls_part e ''indirect'' (indirect_keys e rk) st)))"
      by (simp add: 1 pinLsAll_def andThen_def split: sum.splits)
    then show ?thesis using ind by (simp only:) (rule ls_all_parts, auto simp: listed_def 1)
  next
    case 2
    have "pinLsAll e (Inr rk) (Inr dk) typeStr = ends (ls_part e ''direct'' (Inr dk) ({}, []))"
      by (simp add: 2 pinLsAll_def andThen_def split: sum.splits)
    then show ?thesis by (simp only:) (rule ls_one_part, auto simp: listed_def 2)
  next
    case 3
    have "pinLsAll e (Inr rk) (Inr dk) typeStr = ends (ls_part e ''indirect'' (indirect_keys e rk) (set dk \<union> set rk, []))"
      by (simp add: 3 pinLsAll_def andThen_def split: sum.splits)
    then show ?thesis using ind by (simp only:) (rule ls_one_part, auto simp: listed_def 3)
  next
    case 4
    have "pinLsAll e (Inr rk) (Inr dk) typeStr = ends (ls_part e ''recursive'' (Inr rk) ({}, []))"
      by (simp add: 4 pinLsAll_def andThen_def split: sum.splits)
    then show ?thesis by (simp only:) (rule ls_one_part, auto simp: listed_def 4)
  qed
qed

theorem pinLsAll_exact_witness:
  "ls_result demo_whole ({0, 2} \<union> (\<Union>k \<in> {0, 2}. below demo_whole k))
    (listed ''all'' {0, 2} {1} (\<Union>k \<in> {0, 2}. below demo_whole k)) (pinLsAll demo_ls (Inr [0, 2]) (Inr [1]) ''all'')"
  using pinLsAll_exact[OF demo_ready, of "''all''" "[0, 2]" "[1]"] by (simp add: valid_type_def demo_ls_def)

text \<open>
  C10. Verification ends and is exact: the results are those of the recursive pins in order, a pin is fine exactly when
  every node below it has a valid CID and can be read, and the bad nodes named are exactly those that do not, with
  their errors, or none when only the CIDs are asked for; without \<^verbatim>\<open>--verbose\<close> only broken pins are shown.
\<close>

theorem verifyPinCmd_exact:
  assumes acyclic: "\<forall>a ls b. getLinks a = Inr ls \<and> b \<in> set ls \<longrightarrow> h b < h a" and "\<forall>c \<in> set recPins. h c < n"
    and "\<forall>i. \<not> dn i" and "\<not> (verbose \<and> quiet)"
  shows "\<exists>rs. verifyPinCmd n validateCid getLinks enc dn verbose quiet (Inr recPins) =
      Some (Inr (map (\<lambda>(c, st). (enc c, st)) (filter (\<lambda>(c, st). \<not> ps_Ok st \<or> verbose) rs))) \<and> map fst rs = recPins \<and>
    (\<forall>(c, st) \<in> set rs. let K = reach (cmd_look validateCid getLinks enc \<lparr>vo_explain = \<not> quiet, vo_includeOk = verbose\<rparr>) c in
      (ps_Ok st \<longleftrightarrow> (\<forall>k \<in> K. validateCid k = None \<and> (\<exists>ls. getLinks k = Inr ls))) \<and>
      set (ps_BadNodes st) = (if quiet then {} else
        {(enc k, err) | k err. k \<in> K \<and> (validateCid k = Some err \<or> validateCid k = None \<and> getLinks k = Inl err)}))"
proof -
  define look where "look = cmd_look validateCid getLinks enc \<lparr>vo_explain = \<not> quiet, vo_includeOk = verbose\<rparr>"
  have "ranked look h" using acyclic by (auto simp: ranked_def look_def cmd_look_def split: option.splits sum.splits)
  from check_all_exact[OF this assms(2), of Map.empty] obtain rs where
    rs: "check_all n look recPins Map.empty = Some rs" "map fst rs = recPins" "\<forall>(c, st) \<in> set rs. status_of look (reach look c) st"
    by (auto simp: memo_ok_def)
  have read: "(\<exists>ls. look k = Inr ls) \<longleftrightarrow> validateCid k = None \<and> (\<exists>ls. getLinks k = Inr ls)" for k
    by (auto simp: look_def cmd_look_def split: option.splits sum.splits)
  have bad: "set (bad_nodes look k) =
      (if quiet then {} else {(enc k, err) | err. validateCid k = Some err \<or> validateCid k = None \<and> getLinks k = Inl err})" for k
    by (auto simp: look_def cmd_look_def bad_nodes_def split: option.splits sum.splits)
  have "verifyPinCmd n validateCid getLinks enc dn verbose quiet (Inr recPins) =
      Some (Inr (map (\<lambda>(c, st). (enc c, st)) (filter (\<lambda>(c, st). \<not> ps_Ok st \<or> verbose) rs)))"
    using assms(4) rs(1) by (auto simp: verifyPinCmd_def pinVerify_def look_def send_results_all[OF assms(3)])
  moreover have "let K = reach look c in (ps_Ok st \<longleftrightarrow> (\<forall>k \<in> K. validateCid k = None \<and> (\<exists>ls. getLinks k = Inr ls))) \<and>
      set (ps_BadNodes st) = (if quiet then {} else
        {(enc k, err) | k err. k \<in> K \<and> (validateCid k = Some err \<or> validateCid k = None \<and> getLinks k = Inl err)})"
    if "(c, st) \<in> set rs" for c st
  proof -
    have "status_of look (reach look c) st" using rs(3) that by blast
    moreover have "(\<Union>k \<in> K. set (bad_nodes look k)) = (if quiet then {} else
        {(enc k, err) | k err. k \<in> K \<and> (validateCid k = Some err \<or> validateCid k = None \<and> getLinks k = Inl err)})" for K
      unfolding bad by auto
    ultimately show ?thesis unfolding status_of_def read Let_def by simp
  qed
  ultimately show ?thesis using rs(2) unfolding look_def by blast
qed

theorem verifyPinCmd_exact_witness:
  "\<exists>rs. verifyPinCmd 3 (\<lambda>_. None) (\<lambda>c. map_sum (\<lambda>_. ''missing'') id (demo_links c)) (\<lambda>c. replicate c CHR ''a'') (\<lambda>_. False) False False (Inr [0, 2]) =
    Some (Inr rs) \<and> map fst rs = [[]]"
proof -
  let ?gl = "\<lambda>c. map_sum (\<lambda>_. ''missing'') id (demo_links c)"
  have acyc: "\<forall>a ls b. ?gl a = Inr ls \<and> b \<in> set ls \<longrightarrow> (\<lambda>c::nat. if c = 0 then 2 else if c = 1 then 1 else (0::nat)) b < (if a = 0 then 2 else if a = 1 then 1 else 0)"
    by (auto simp: demo_links_def split: if_splits)
  from verifyPinCmd_exact[OF acyc, of "[0, 2]" 3 "\<lambda>_. False" False False "\<lambda>_. None" "\<lambda>c. replicate c CHR ''a''"]
  obtain rs where "verifyPinCmd 3 (\<lambda>_. None) ?gl (\<lambda>c. replicate c CHR ''a'') (\<lambda>_. False) False False (Inr [0, 2]) = Some (Inr rs)" by auto
  moreover have "map_option (map_sum (\<lambda>_. ()) (map fst)) (verifyPinCmd 3 (\<lambda>_. None) ?gl (\<lambda>c. replicate c CHR ''a'') (\<lambda>_. False) False False (Inr [0, 2])) = Some (Inr [[]])"
    by code_simp
  ultimately show ?thesis by auto
qed


definition demo_pins :: "(nat, nat list) pin_api" where
  "demo_pins = \<lparr>ResolveNode = (\<lambda>p. Inr (length p)), ResolvePath = (\<lambda>p. Inr (length p, p)), IpldPath = (\<lambda>c. replicate c CHR ''a''),
     pn_Pin = (\<lambda>c r p. (None, c # p)), pn_Unpin = (\<lambda>c r p. (if c \<in> set p then None else Some (PErr ''not pinned''), removeAll c p)),
     pn_Update = (\<lambda>a b u p. (None, b # p)), pn_Flush = (\<lambda>p. (None, p)), pn_IsPinnedWithType = (\<lambda>c t p. Inr (''recursive'', c \<in> set p)),
     pn_RecursiveKeys = (\<lambda>p. Inr p), pn_DirectKeys = (\<lambda>p. Inr []), Provide = (\<lambda>_. None), StringToMode = (\<lambda>_. True)\<rparr>"


text \<open>
  Pins that are added are added in order, each announced and written out before the next: when the command
  succeeds, the trace has for every path, in order, the lock, the pin of its node, the announcement, the flush and the
  release, and the CIDs reported are those of the paths.
\<close>

theorem pinAddMany_success:
  assumes "\<forall>b c rp. ResolvePath api b = Inr (c, rp) \<longrightarrow> ResolveNode api rp = Inr c"
    and "pinAddMany api enc recursive args w = (Inr added, w')"
  shows "\<exists>cs. length cs = length args \<and> (\<forall>i < length args. \<exists>rp. ResolvePath api (args ! i) = Inr (cs ! i, rp)) \<and> added = map enc cs \<and>
    pin_trace w' = pin_trace w @ concat (map (\<lambda>c. [PinLock, EPin c recursive, EProvide c, EFlush, Unlock]) cs)"
  using assms(2)
proof (induction args arbitrary: w added)
  case (Cons b args)
  obtain c rp w1 where r: "ResolvePath api b = Inr (c, rp)" "PinAPI_Add api rp recursive w = (None, w1)"
    using Cons.prems by (auto split: sum.splits prod.splits option.splits)
  obtain ad where ad: "pinAddMany api enc recursive args w1 = (Inr ad, w')" "added = enc c # ad"
    using Cons.prems r by (auto split: sum.splits prod.splits)
  from Cons.IH[OF ad(1)] obtain cs where cs: "length cs = length args" "\<forall>i < length args. \<exists>rp. ResolvePath api (args ! i) = Inr (cs ! i, rp)"
    "ad = map enc cs" "pin_trace w' = pin_trace w1 @ concat (map (\<lambda>c. [PinLock, EPin c recursive, EProvide c, EFlush, Unlock]) cs)" by blast
  have t: "pin_trace w1 = pin_trace w @ [PinLock, EPin c recursive, EProvide c, EFlush, Unlock]"
    using r(2) assms(1)[rule_format, OF r(1)]
    by (auto simp: PinAPI_Add_def with_lock_def emit_ev_def pcall_def Let_def split: prod.splits option.splits)
  have "\<forall>i < length (b # args). \<exists>rp. ResolvePath api ((b # args) ! i) = Inr ((c # cs) ! i, rp)"
    using r(1) cs(2) by (auto simp: nth_Cons split: nat.splits)
  then show ?case using cs t ad(2) by (intro exI[of _ "c # cs"]) simp
qed simp

theorem pinAddMany_success_witness:
  "pin_trace (snd (pinAddMany demo_pins (\<lambda>_. ''x'') True [''ab''] \<lparr>pinning = [], pin_trace = []\<rparr>)) =
    [PinLock, EPin 2 True, EProvide 2, EFlush, Unlock]"
proof -
  obtain r w' where a: "pinAddMany demo_pins (\<lambda>_. ''x'') True [''ab''] \<lparr>pinning = [], pin_trace = []\<rparr> = (r, w')" by fastforce
  then have "r = Inr [''x'']" by (auto simp: demo_pins_def PinAPI_Add_def with_lock_def emit_ev_def pcall_def Let_def)
  then have p: "pinAddMany demo_pins (\<lambda>_. ''x'') True [''ab''] \<lparr>pinning = [], pin_trace = []\<rparr> = (Inr [''x''], w')" using a by simp
  have rv: "\<forall>b c rp. ResolvePath demo_pins b = Inr (c, rp) \<longrightarrow> ResolveNode demo_pins rp = Inr c" by (auto simp: demo_pins_def)
  from pinAddMany_success[OF rv p] obtain cs where cs: "length cs = 1" "\<exists>rp. ResolvePath demo_pins ''ab'' = Inr (cs ! 0, rp)"
    "pin_trace w' = concat (map (\<lambda>c. [PinLock, EPin c True, EProvide c, EFlush, Unlock]) cs)" by auto
  then have "cs = [2]" by (cases cs) (auto simp: demo_pins_def)
  with cs(3) a show ?thesis by simp
qed

end
