(* ===== verification/Keys.thy ===== *)
theory Keys
  imports FSRepo GoPath "HOL-Library.List_Lexorder" "HOL-Library.Char_ord"
begin

text \<open>
  Named keys: the key part of the core API (\<^verbatim>\<open>src/core/coreapi/key.go\<close>), the commands on top of it
  (\<^verbatim>\<open>src/core/commands/keystore.go\<close>, \<^verbatim>\<open>keyencode/keyencode.go\<close>), and the creation and decoding of the node's own identity
  (\<^verbatim>\<open>CreateIdentity\<close> of \<^verbatim>\<open>src/config/init.go\<close>, \<^verbatim>\<open>src/config/identity.go\<close>).  The keystore and the cryptography are other
  packages: the operations of the keystore are a record, its documented behaviour the locale \<open>keystore\<close>.
\<close>

section \<open>The keystore and keys\<close>

record ('ks, 'sk) keystore_ops =
  ks_Has :: "string \<Rightarrow> 'ks \<Rightarrow> string + bool"
  ks_Put :: "string \<Rightarrow> 'sk \<Rightarrow> 'ks \<Rightarrow> string option \<times> 'ks"
  ks_Get :: "string \<Rightarrow> 'ks \<Rightarrow> string + 'sk"
  ks_Delete :: "string \<Rightarrow> 'ks \<Rightarrow> string option \<times> 'ks"
  ks_List :: "'ks \<Rightarrow> string + string list"

text \<open>One run's cryptography: what a generator gives, how keys are written, and the encodings.  A key of
  the standard library is an opaque string.\<close>

record 'sk key_env =
  DefaultRSALen :: int
  GenerateRSA :: "int \<Rightarrow> string + 'sk"
  GenerateEd25519 :: "string + 'sk"
  IDFromKey :: "'sk \<Rightarrow> string + string"
  MarshalPrivateKey :: "'sk \<Rightarrow> string + string"
  UnmarshalPrivateKey :: "string \<Rightarrow> string + 'sk"
  PrivKeyToStdKey :: "'sk \<Rightarrow> string + string"
  MarshalPKCS8 :: "string \<Rightarrow> string + string"
  ParsePKCS8 :: "string \<Rightarrow> string + string"
  KeyPairFromStdKey :: "string \<Rightarrow> string + 'sk"
  pem_Encode :: "string \<Rightarrow> string \<Rightarrow> string"
  pem_Decode :: "string \<Rightarrow> (string \<times> string) option \<times> string"
  key_type :: "'sk \<Rightarrow> string"
  base64_Encode :: "string \<Rightarrow> string"
  base64_Decode :: "string \<Rightarrow> string + string"
  EncoderByName :: "string \<Rightarrow> string + (string \<Rightarrow> string)"
  id_String :: "string \<Rightarrow> string"

definition quoted :: "string \<Rightarrow> string" where
  "quoted s = [CHR 0x27] @ s @ [CHR 0x27]"

section \<open>The core API\<close>

text \<open>A key is its name and peer id.\<close>

type_synonym key = "string \<times> string"

definition generate_sk :: "'sk key_env \<Rightarrow> string \<Rightarrow> int \<Rightarrow> string + 'sk" where
  "generate_sk c algorithm len =
     (if algorithm = ''rsa'' then GenerateRSA c (if len = -1 then DefaultRSALen c else len)
      else if algorithm = ''ed25519'' then GenerateEd25519 c
      else Inl (''unrecognized key type: '' @ algorithm))"

definition KeyAPI_Generate :: "('ks, 'sk) keystore_ops \<Rightarrow> 'sk key_env \<Rightarrow> string \<Rightarrow> string \<Rightarrow> int \<Rightarrow> 'ks \<Rightarrow> (string + key) \<times> 'ks" where
  "KeyAPI_Generate k c name algorithm len s =
     (if name = ''self'' then (Inl (''cannot create key with name '' @ quoted ''self''), s)
      else
        (case ks_Get k name s of
           Inr _ \<Rightarrow> (Inl (''key with name '' @ quoted name @ '' already exists''), s)
         | Inl _ \<Rightarrow>
             (case generate_sk c algorithm len of
                Inl err \<Rightarrow> (Inl err, s)
              | Inr sk \<Rightarrow>
                  (case ks_Put k name sk s of
                     (Some err, s) \<Rightarrow> (Inl err, s)
                   | (None, s) \<Rightarrow>
                       (case IDFromKey c sk of
                          Inl err \<Rightarrow> (Inl err, s)
                        | Inr pid \<Rightarrow> (Inr (name, pid), s))))))"

fun list_loop :: "('ks, 'sk) keystore_ops \<Rightarrow> 'sk key_env \<Rightarrow> string list \<Rightarrow> 'ks \<Rightarrow> string + key list" where
  "list_loop k c [] s = Inr []"
| "list_loop k c (n # ns) s =
     (case ks_Get k n s of
        Inl err \<Rightarrow> Inl err
      | Inr sk \<Rightarrow>
          (case IDFromKey c sk of
             Inl err \<Rightarrow> Inl err
           | Inr pid \<Rightarrow> (case list_loop k c ns s of Inl err \<Rightarrow> Inl err | Inr out \<Rightarrow> Inr ((n, pid) # out))))"

definition KeyAPI_List :: "('ks, 'sk) keystore_ops \<Rightarrow> 'sk key_env \<Rightarrow> string \<Rightarrow> 'ks \<Rightarrow> string + key list" where
  "KeyAPI_List k c identity s =
     (case ks_List k s of
        Inl err \<Rightarrow> Inl err
      | Inr keys \<Rightarrow>
          (case list_loop k c (sort keys) s of
             Inl err \<Rightarrow> Inl err
           | Inr out \<Rightarrow> Inr ((''self'', identity) # out)))"

text \<open>A key of the new name is deleted first when that is asked for; the result says whether there was one.\<close>

definition make_room :: "('ks, 'sk) keystore_ops \<Rightarrow> string \<Rightarrow> bool \<Rightarrow> 'ks \<Rightarrow> (string + bool) \<times> 'ks" where
  "make_room k newName force s =
     (if force then
        (case ks_Has k newName s of
           Inl err \<Rightarrow> (Inl err, s)
         | Inr False \<Rightarrow> (Inr False, s)
         | Inr True \<Rightarrow> (case ks_Delete k newName s of (Some err, s) \<Rightarrow> (Inl err, s) | (None, s) \<Rightarrow> (Inr True, s)))
      else (Inr False, s))"

text \<open>The result holds the key and whether another was overwritten, with the error of the last call beside them.\<close>

definition KeyAPI_Rename ::
    "('ks, 'sk) keystore_ops \<Rightarrow> 'sk key_env \<Rightarrow> string \<Rightarrow> string \<Rightarrow> bool \<Rightarrow> 'ks \<Rightarrow> ((key \<times> bool) option \<times> string option) \<times> 'ks" where
  "KeyAPI_Rename k c oldName newName force s =
     (if oldName = ''self'' then ((None, Some (''cannot rename key with name '' @ quoted ''self'')), s)
      else if newName = ''self'' then ((None, Some (''cannot overwrite key with name '' @ quoted ''self'')), s)
      else
        (case ks_Get k oldName s of
           Inl _ \<Rightarrow> ((None, Some (''no key named '' @ oldName @ '' was found'')), s)
         | Inr oldKey \<Rightarrow>
             (case IDFromKey c oldKey of
                Inl err \<Rightarrow> ((None, Some err), s)
              | Inr pid \<Rightarrow>
                  if newName = oldName then ((Some ((oldName, pid), False), None), s)
                  else
                    (case make_room k newName force s of
                       (Inl err, s) \<Rightarrow> ((None, Some err), s)
                     | (Inr overwrite, s) \<Rightarrow>
                         (case ks_Put k newName oldKey s of
                            (Some err, s) \<Rightarrow> ((None, Some err), s)
                          | (None, s) \<Rightarrow>
                              (case ks_Delete k oldName s of
                                 (err, s) \<Rightarrow> ((Some ((newName, pid), overwrite), err), s)))))))"

definition KeyAPI_Remove :: "('ks, 'sk) keystore_ops \<Rightarrow> 'sk key_env \<Rightarrow> string \<Rightarrow> 'ks \<Rightarrow> (string + key) \<times> 'ks" where
  "KeyAPI_Remove k c name s =
     (if name = ''self'' then (Inl (''cannot remove key with name '' @ quoted ''self''), s)
      else
        (case ks_Get k name s of
           Inl _ \<Rightarrow> (Inl (''no key named '' @ name @ '' was found''), s)
         | Inr removed \<Rightarrow>
             (case IDFromKey c removed of
                Inl err \<Rightarrow> (Inl err, s)
              | Inr pid \<Rightarrow>
                  (case ks_Delete k name s of
                     (Some err, s) \<Rightarrow> (Inl err, s)
                   | (None, s) \<Rightarrow> (Inr ([], pid), s)))))"

definition KeyAPI_Self :: "string \<Rightarrow> string + key" where
  "KeyAPI_Self identity = (if identity = [] then Inl ''identity not loaded'' else Inr (''self'', identity))"

section \<open>The commands\<close>

type_synonym KeyEncoder = "(string \<Rightarrow> string) option"

definition KeyEncoderFromString :: "'sk key_env \<Rightarrow> string \<Rightarrow> string + KeyEncoder" where
  "KeyEncoderFromString c formatLabel =
     (if formatLabel = ''b58mh'' \<or> formatLabel = ''v0'' then Inr None
      else (case EncoderByName c formatLabel of Inl err \<Rightarrow> Inl err | Inr enc \<Rightarrow> Inr (Some enc)))"

text \<open>The multibase form of the CID of a peer id is the encoder's.\<close>

definition FormatID :: "'sk key_env \<Rightarrow> KeyEncoder \<Rightarrow> string \<Rightarrow> string" where
  "FormatID c enc pid = (case enc of None \<Rightarrow> id_String c pid | Some f \<Rightarrow> f pid)"

text \<open>Without a size the option of the API has \<open>-1\<close>.\<close>

definition keyGenCmd ::
    "('ks, 'sk) keystore_ops \<Rightarrow> 'sk key_env \<Rightarrow> string \<Rightarrow> string option \<Rightarrow> int option \<Rightarrow> string \<Rightarrow> 'ks \<Rightarrow> (string + key) \<times> 'ks" where
  "keyGenCmd k c ipnsBase typ size_opt name s =
     (case typ of
        None \<Rightarrow> (Inl ''please specify a key type with --type'', s)
      | Some t \<Rightarrow>
          if name = ''self'' then (Inl (''cannot create key with name '' @ quoted ''self''), s)
          else
            (case KeyEncoderFromString c ipnsBase of
               Inl err \<Rightarrow> (Inl err, s)
             | Inr enc \<Rightarrow>
                 (case KeyAPI_Generate k c name t (case size_opt of None \<Rightarrow> -1 | Some n \<Rightarrow> n) s of
                    (Inl err, s) \<Rightarrow> (Inl err, s)
                  | (Inr (_, pid), s) \<Rightarrow> (Inr (name, FormatID c enc pid), s))))"

definition keyFormatPemCleartextOption :: string where
  "keyFormatPemCleartextOption = ''pem-pkcs8-cleartext''"

definition keyFormatLibp2pCleartextOption :: string where
  "keyFormatLibp2pCleartextOption = ''libp2p-protobuf-cleartext''"

text \<open>The bytes sent to the front end, which writes the file.\<close>

definition keyExportCmd ::
    "('ks, 'sk) keystore_ops \<Rightarrow> 'sk key_env \<Rightarrow> fsrepo_error + int \<Rightarrow> string + unit \<Rightarrow> string \<Rightarrow> string \<Rightarrow> 'ks \<Rightarrow> string + string" where
  "keyExportCmd k c repoVer newKeystore exportFormat name s =
     (if name = ''self'' then Inl (''cannot export key with name '' @ quoted ''self'')
      else
        (case repoVer of
           Inl _ \<Rightarrow> Inl ''repo version''
         | Inr ver \<Rightarrow>
             if ver \<noteq> RepoVersion then
               Inl (''key export expects repo version ('' @ show_int RepoVersion @ '') but found ('' @ show_int ver @ '')'')
             else
               (case newKeystore of
                  Inl err \<Rightarrow> Inl err
                | Inr _ \<Rightarrow>
                    (case ks_Get k name s of
                       Inl _ \<Rightarrow> Inl (''key with name '' @ quoted name @ '' doesn'' @ [CHR 0x27] @ ''t exist'')
                     | Inr sk \<Rightarrow>
                         if exportFormat = keyFormatPemCleartextOption then
                           (case PrivKeyToStdKey c sk of
                              Inl err \<Rightarrow> Inl (''converting libp2p private key to std Go key: '' @ err)
                            | Inr stdKey \<Rightarrow>
                                (case MarshalPKCS8 c stdKey of
                                   Inl err \<Rightarrow> Inl (''marshalling key to PKCS8 format: '' @ err)
                                 | Inr b \<Rightarrow> Inr b))
                         else if exportFormat = keyFormatLibp2pCleartextOption then MarshalPrivateKey c sk
                         else Inl (''unrecognized export format: '' @ exportFormat)))))"

text \<open>The path of the file, and what is written to it.\<close>

definition export_path :: "string \<Rightarrow> string \<Rightarrow> string \<Rightarrow> string" where
  "export_path outPath exportFormat name =
     (if outPath \<noteq> [] then outPath
      else
        (let fileExtension = (if exportFormat = keyFormatPemCleartextOption then ''pem''
               else if exportFormat = keyFormatLibp2pCleartextOption then ''key'' else []);
             trimmed = rev (dropWhile ((=) CHR ''/'') (rev (name @ ''.'' @ fileExtension)))
         in GoPath.Clean (snd (path_Split trimmed))))"

definition export_file :: "'sk key_env \<Rightarrow> string \<Rightarrow> string \<Rightarrow> string" where
  "export_file c exportFormat out =
     (if exportFormat = keyFormatPemCleartextOption then pem_Encode c ''PRIVATE KEY'' out
      else if exportFormat = keyFormatLibp2pCleartextOption then out else [])"

text \<open>The key in the data given to \<^verbatim>\<open>import\<close>.\<close>

definition import_sk :: "'sk key_env \<Rightarrow> string \<Rightarrow> string \<Rightarrow> string + 'sk" where
  "import_sk c importFormat data =
     (if importFormat = keyFormatPemCleartextOption then
        (case pem_Decode c data of
           (None, rest) \<Rightarrow> Inl (''PEM block not found in input data:'' @ [CHR 0x0A] @ rest)
         | (Some (typ, bytes), rest) \<Rightarrow>
             if typ \<noteq> ''PRIVATE KEY'' then Inl (''expected PRIVATE KEY type in PEM block but got: '' @ typ)
             else
               (case ParsePKCS8 c bytes of
                  Inl err \<Rightarrow> Inl (''parsing PKCS8 format: '' @ err)
                | Inr stdKey \<Rightarrow>
                    (case KeyPairFromStdKey c stdKey of
                       Inl err \<Rightarrow> Inl (''converting std Go key to libp2p key: '' @ err)
                     | Inr sk \<Rightarrow> Inr sk)))
      else if importFormat = keyFormatLibp2pCleartextOption then
        (case UnmarshalPrivateKey c data of
           Inr sk \<Rightarrow> Inr sk
         | Inl err \<Rightarrow>
             (case fst (pem_Decode c data) of
                Some _ \<Rightarrow> Inl (''unexpected PEM block for format='' @ keyFormatLibp2pCleartextOption @ '': try again with format='' @ keyFormatPemCleartextOption)
              | None \<Rightarrow> Inl (''unable to unmarshall format='' @ keyFormatLibp2pCleartextOption @ '': '' @ err)))
      else Inl (''unrecognized import format: '' @ importFormat))"

text \<open>The keystore is that of the repository, opened for the command and closed on every way out.\<close>

definition keyImportCmd ::
    "('ks, 'sk) keystore_ops \<Rightarrow> 'sk key_env \<Rightarrow> string \<Rightarrow> string \<Rightarrow> bool \<Rightarrow> string + string \<Rightarrow> string option \<Rightarrow> string \<Rightarrow> 'ks \<Rightarrow> (string + key) \<times> 'ks" where
  "keyImportCmd k c ipnsBase importFormat allowAnyKeyType file_data open_err name s =
     (if name = ''self'' then (Inl (''cannot import key with name '' @ quoted ''self''), s)
      else
        (case KeyEncoderFromString c ipnsBase of
           Inl err \<Rightarrow> (Inl err, s)
         | Inr enc \<Rightarrow>
             (case file_data of
                Inl err \<Rightarrow> (Inl err, s)
              | Inr data \<Rightarrow>
                  (case import_sk c importFormat data of
                     Inl err \<Rightarrow> (Inl err, s)
                   | Inr sk \<Rightarrow>
                       if \<not> allowAnyKeyType \<and> key_type c sk \<noteq> ''rsa'' \<and> key_type c sk \<noteq> ''ed25519'' then
                         (Inl (''key type '' @ key_type c sk @ '' is not allowed to be imported''), s)
                       else
                         (case open_err of
                            Some err \<Rightarrow> (Inl err, s)
                          | None \<Rightarrow>
                              (case ks_Get k name s of
                                 Inr _ \<Rightarrow> (Inl (''key with name '' @ quoted name @ '' already exists''), s)
                               | Inl _ \<Rightarrow>
                                   (case ks_Put k name sk s of
                                      (Some err, s) \<Rightarrow> (Inl err, s)
                                    | (None, s) \<Rightarrow>
                                        (case IDFromKey c sk of
                                           Inl err \<Rightarrow> (Inl err, s)
                                         | Inr pid \<Rightarrow> (Inr (name, FormatID c enc pid), s)))))))))"

definition keyListCmd :: "('ks, 'sk) keystore_ops \<Rightarrow> 'sk key_env \<Rightarrow> string \<Rightarrow> string \<Rightarrow> 'ks \<Rightarrow> string + key list" where
  "keyListCmd k c ipnsBase identity s =
     (case KeyEncoderFromString c ipnsBase of
        Inl err \<Rightarrow> Inl err
      | Inr enc \<Rightarrow>
          (case KeyAPI_List k c identity s of
             Inl err \<Rightarrow> Inl err
           | Inr keys \<Rightarrow> Inr (map (\<lambda>(n, pid). (n, FormatID c enc pid)) keys)))"

text \<open>The names before and after, the key's id, and whether a key was overwritten.\<close>

definition keyRenameCmd ::
    "('ks, 'sk) keystore_ops \<Rightarrow> 'sk key_env \<Rightarrow> string \<Rightarrow> bool \<Rightarrow> string \<Rightarrow> string \<Rightarrow> 'ks \<Rightarrow> (string + string \<times> string \<times> string \<times> bool) \<times> 'ks" where
  "keyRenameCmd k c ipnsBase force name newName s =
     (case KeyEncoderFromString c ipnsBase of
        Inl err \<Rightarrow> (Inl err, s)
      | Inr enc \<Rightarrow>
          (case KeyAPI_Rename k c name newName force s of
             ((_, Some err), s) \<Rightarrow> (Inl err, s)
           | ((Some ((_, pid), overwritten), None), s) \<Rightarrow> (Inr (name, newName, FormatID c enc pid, overwritten), s)
           | ((None, None), s) \<Rightarrow> (Inl [], s)))"

fun keyRm_loop :: "('ks, 'sk) keystore_ops \<Rightarrow> 'sk key_env \<Rightarrow> KeyEncoder \<Rightarrow> string list \<Rightarrow> 'ks \<Rightarrow> (string + key list) \<times> 'ks" where
  "keyRm_loop k c enc [] s = (Inr [], s)"
| "keyRm_loop k c enc (n # ns) s =
     (case KeyAPI_Remove k c n s of
        (Inl err, s) \<Rightarrow> (Inl err, s)
      | (Inr (_, pid), s) \<Rightarrow>
          (case keyRm_loop k c enc ns s of
             (Inl err, s) \<Rightarrow> (Inl err, s)
           | (Inr list, s) \<Rightarrow> (Inr ((n, FormatID c enc pid) # list), s)))"

definition keyRmCmd :: "('ks, 'sk) keystore_ops \<Rightarrow> 'sk key_env \<Rightarrow> string \<Rightarrow> string list \<Rightarrow> 'ks \<Rightarrow> (string + key list) \<times> 'ks" where
  "keyRmCmd k c ipnsBase names s =
     (case KeyEncoderFromString c ipnsBase of Inl err \<Rightarrow> (Inl err, s) | Inr enc \<Rightarrow> keyRm_loop k c enc names s)"

section \<open>The identity\<close>

definition CreateIdentity :: "'sk key_env \<Rightarrow> string \<Rightarrow> int \<Rightarrow> string + string \<times> string" where
  "CreateIdentity c algorithm len =
     (if algorithm = ''ed25519'' \<and> len \<noteq> -1 then Inl ''number of key bits does not apply when using ed25519 keys''
      else
        (case generate_sk c algorithm len of
           Inl err \<Rightarrow> Inl err
         | Inr sk \<Rightarrow>
             (case MarshalPrivateKey c sk of
                Inl err \<Rightarrow> Inl err
              | Inr skbytes \<Rightarrow>
                  (case IDFromKey c sk of
                     Inl err \<Rightarrow> Inl err
                   | Inr pid \<Rightarrow> Inr (id_String c pid, base64_Encode c skbytes)))))"

definition DecodePrivateKey :: "'sk key_env \<Rightarrow> string \<Rightarrow> string + 'sk" where
  "DecodePrivateKey c privKey =
     (case base64_Decode c privKey of Inl err \<Rightarrow> Inl err | Inr pkb \<Rightarrow> UnmarshalPrivateKey c pkb)"

datatype rotate_error =
  NoBackupName | BackupNamedSelf | OpeningRepo fsrepo_error | ReadingConfig fsrepo_error | CreatingIdentity string
| DecodingOld string | SavingOld string | SavingNew fsrepo_error

text \<open>
  \<^verbatim>\<open>repo.Config\<close> gives a pointer, so the new identity is in the repository's configuration before it is saved.
  The repository is closed on every way out once it is open.
\<close>

definition rotate_open ::
    "('ks, 'sk) keystore_ops \<Rightarrow> 'sk key_env \<Rightarrow> 'n repo_env \<Rightarrow> string \<Rightarrow> string \<Rightarrow> int \<Rightarrow> 'n FSRepo \<Rightarrow> 'ks \<Rightarrow> osys
     \<Rightarrow> rotate_error option \<times> 'n FSRepo \<times> 'ks \<times> osys" where
  "rotate_open k c e oldKey algorithm len r s w =
     (case FSRepo_Config r of
        Inl err \<Rightarrow> (Some (ReadingConfig err), r, s, w)
      | Inr cfg \<Rightarrow>
          (case CreateIdentity c algorithm len of
             Inl err \<Rightarrow> (Some (CreatingIdentity err), r, s, w)
           | Inr (pid, privKey) \<Rightarrow>
               (case DecodePrivateKey c (Identity_PrivKey cfg) of
                  Inl err \<Rightarrow> (Some (DecodingOld err), r, s, w)
                | Inr oldPrivKey \<Rightarrow>
                    (case ks_Put k oldKey oldPrivKey s of
                       (Some err, s) \<Rightarrow> (Some (SavingOld err), r, s, w)
                     | (None, s) \<Rightarrow>
                         (let cfg = cfg\<lparr>Identity_PeerID := pid, Identity_PrivKey := privKey\<rparr> in
                          case SetConfig e (r\<lparr>fr_config := cfg\<rparr>) cfg w of
                            (Some err, r, w) \<Rightarrow> (Some (SavingNew err), r, s, w)
                          | (None, r, w) \<Rightarrow> (None, r, s, w))))))"

definition doRotate ::
    "('ks, 'sk) keystore_ops \<Rightarrow> 'sk key_env \<Rightarrow> 'n repo_env \<Rightarrow> path \<Rightarrow> string \<Rightarrow> string \<Rightarrow> int option \<Rightarrow> 'ks \<Rightarrow> osys
     \<Rightarrow> rotate_error option \<times> 'ks \<times> osys" where
  "doRotate k c e repoRoot oldKey algorithm nBits s w =
     (case open_repo e repoRoot [] w of
        (Inl err, w) \<Rightarrow> (Some (OpeningRepo err), s, w)
      | (Inr r, w) \<Rightarrow>
          (case rotate_open k c e oldKey algorithm (case nBits of None \<Rightarrow> -1 | Some n \<Rightarrow> n) r s w of
             (res, r, s, w) \<Rightarrow> (case FSRepo_Close e r w of (_, _, w) \<Rightarrow> (res, s, w))))"

definition keyRotateCmd ::
    "('ks, 'sk) keystore_ops \<Rightarrow> 'sk key_env \<Rightarrow> 'n repo_env \<Rightarrow> path \<Rightarrow> string option \<Rightarrow> string \<Rightarrow> int option \<Rightarrow> 'ks \<Rightarrow> osys
     \<Rightarrow> rotate_error option \<times> 'ks \<times> osys" where
  "keyRotateCmd k c e repoRoot oldKey algorithm nBits s w =
     (case oldKey of
        None \<Rightarrow> (Some NoBackupName, s, w)
      | Some n \<Rightarrow> if n = ''self'' then (Some BackupNamedSelf, s, w) else doRotate k c e repoRoot n algorithm nBits s w)"

end
