(* ===== verification/KeyProps.thy ===== *)
theory KeyProps
  imports Keys
begin

text \<open>
  What the operations on named keys promise, for every keystore that keeps its contract: the node's own key is never
  touched, renaming and rotating never lose a key, and an exported key is imported again.
\<close>

section \<open>The contract of a keystore\<close>

text \<open>
  \<open>view\<close> gives the keys that can be read.  A key is stored only under a free name, a call that fails leaves the keys as
  they were, and \<open>Has\<close> and \<open>List\<close> may know of more names than there are readable keys.
\<close>

locale keystore =
  fixes k :: "('ks, 'sk) keystore_ops" and view :: "'ks \<Rightarrow> string \<rightharpoonup> 'sk"
  assumes get: "ks_Get k n s = Inr sk \<Longrightarrow> view s n = Some sk"
    and put_ok: "ks_Put k n sk s = (None, s') \<Longrightarrow> view s n = None \<and> view s' = (view s)(n \<mapsto> sk)"
    and put_err: "ks_Put k n sk s = (Some err, s') \<Longrightarrow> view s' = view s"
    and del_ok: "ks_Delete k n s = (None, s') \<Longrightarrow> view s' = (view s)(n := None)"
    and del_err: "ks_Delete k n s = (Some err, s') \<Longrightarrow> view s' = view s"
    and has: "ks_Has k n s = Inr False \<Longrightarrow> view s n = None"
    and list: "ks_List k s = Inr ns \<Longrightarrow> dom (view s) \<subseteq> set ns \<and> distinct ns"
begin

lemma Generate_view:
  assumes "KeyAPI_Generate k c name alg len s = (r, s')"
  shows "view s' = view s \<or> name \<noteq> ''self'' \<and> view s name = None \<and> (\<exists>sk. generate_sk c alg len = Inr sk \<and> view s' = (view s)(name \<mapsto> sk))"
  using assms by (auto simp: KeyAPI_Generate_def split: if_splits sum.splits prod.splits option.splits dest: put_ok put_err)

lemma Remove_view:
  assumes "KeyAPI_Remove k c name s = (r, s')"
  shows "view s' = view s \<or> name \<noteq> ''self'' \<and> view s' = (view s)(name := None)"
  using assms by (auto simp: KeyAPI_Remove_def split: if_splits sum.splits prod.splits option.splits dest: del_ok del_err)

text \<open>Making room for the new name changes at most that name.\<close>

lemma room_view:
  assumes "make_room k newName force s = (r, s')"
  shows "view s' = view s \<or> force \<and> view s' = (view s)(newName := None)"
    and "r = Inr ow \<Longrightarrow> force \<Longrightarrow> view s' = (view s)(newName := None)"
  using assms
  by (auto simp: make_room_def split: if_splits sum.splits prod.splits option.splits bool.splits dest: del_ok del_err has intro!: ext)

lemma Rename_view:
  assumes "KeyAPI_Rename k c old new force s = ((res, err), s')"
  shows "view s' = view s \<and> (err \<noteq> None \<or> old = new) \<or>
    (\<exists>sk. old \<noteq> ''self'' \<and> new \<noteq> ''self'' \<and> old \<noteq> new \<and> view s old = Some sk \<and>
      (view s' = (view s)(new := None) \<and> force \<and> err \<noteq> None \<or>
       view s' = (view s)(new \<mapsto> sk) \<and> (force \<or> view s new = None) \<and> err \<noteq> None \<or>
       view s' = (view s)(new \<mapsto> sk, old := None) \<and> (force \<or> view s new = None) \<and> err = None))"
    (is "_ \<or> ?moved")
proof (cases "old = ''self'' \<or> new = ''self'' \<or> old = new")
  case True
  then show ?thesis using assms by (auto simp: KeyAPI_Rename_def split: if_splits sum.splits)
next
  case False
  show ?thesis
  proof (cases "ks_Get k old s")
    case (Inr sk)
    note sk = get[OF Inr]
    show ?thesis
    proof (cases "IDFromKey c sk")
      case pid: (Inr pid)
      obtain r s1 where ro: "make_room k new force s = (r, s1)" by fastforce
      note rv = room_view[OF ro]
      show ?thesis
      proof (cases r)
        case (Inl x)
        then have "s' = s1" "err = Some x" using assms False Inr pid ro by (auto simp: KeyAPI_Rename_def)
        then show ?thesis using rv(1) False sk by auto
      next
        case ow: (Inr ow)
        obtain e2 s2 where p: "ks_Put k new sk s1 = (e2, s2)" by fastforce
        show ?thesis
        proof (cases e2)
          case (Some x)
          then have "s' = s2" "err = Some x" using assms False Inr pid ro ow p by (auto simp: KeyAPI_Rename_def)
          then show ?thesis using put_err p Some rv(1) False sk by auto
        next
          case None
          note po = put_ok[OF p[unfolded None]]
          obtain e3 s3 where d: "ks_Delete k old s2 = (e3, s3)" by fastforce
          have s': "s' = s3" "err = e3" using assms False Inr pid ro ow p None d by (auto simp: KeyAPI_Rename_def)
          have v2: "view s2 = (view s)(new \<mapsto> sk)" "force \<or> view s new = None"
            using po rv False by auto
          show ?thesis
          proof (cases e3)
            case None
            then have "view s3 = (view s2)(old := None)" using del_ok d by blast
            then show ?thesis using v2 s' None False sk by auto
          next
            case (Some x)
            then have "view s3 = view s2" using del_err d by blast
            then show ?thesis using v2 s' Some False sk by auto
          qed
        qed
      qed
    qed (use assms False Inr in \<open>auto simp: KeyAPI_Rename_def\<close>)
  qed (use assms False in \<open>auto simp: KeyAPI_Rename_def\<close>)
qed

lemma list_loop_view:
  "list_loop k c ns s = Inr out \<Longrightarrow> map fst out = ns \<and> (\<forall>(n, pid) \<in> set out. \<exists>sk. view s n = Some sk \<and> IDFromKey c sk = Inr pid)"
proof (induction ns arbitrary: out)
  case (Cons n ns)
  then obtain sk pid out' where "ks_Get k n s = Inr sk" "IDFromKey c sk = Inr pid" "list_loop k c ns s = Inr out'" "out = (n, pid) # out'"
    by (auto split: sum.splits)
  with Cons.IH[of out'] get[of n s sk] show ?case by auto
qed simp

lemma put_changes: "ks_Put k n sk s = (None, s') \<Longrightarrow> view s' \<noteq> view s"
  using put_ok by (metis fun_upd_same option.distinct(1))

lemma Import_view:
  assumes "keyImportCmd k c b fmt any d oe name s = (r, s')"
  shows "view s' = view s \<or> name \<noteq> ''self'' \<and> (\<exists>data sk. d = Inr data \<and> import_sk c fmt data = Inr sk \<and> view s' = (view s)(name \<mapsto> sk))"
  using assms by (auto simp: keyImportCmd_def split: if_splits sum.splits prod.splits option.splits dest: put_ok put_err)

lemma Import_changes: "keyImportCmd k c b fmt any d oe name s = (Inr x, s') \<Longrightarrow> view s' \<noteq> view s"
  by (auto simp: keyImportCmd_def split: if_splits sum.splits prod.splits option.splits dest: put_changes)

lemma Rm_self: "keyRm_loop k c enc ns s = (r, s') \<Longrightarrow> view s' ''self'' = view s ''self''"
proof (induction ns arbitrary: s r)
  case (Cons n ns)
  obtain x s1 where x: "KeyAPI_Remove k c n s = (x, s1)" by fastforce
  have "view s1 ''self'' = view s ''self''" using Remove_view[OF x] by auto
  moreover have "s' = s1 \<or> (\<exists>y. keyRm_loop k c enc ns s1 = (y, s'))"
    using Cons.prems x by (auto split: sum.splits prod.splits)
  ultimately show ?case using Cons.IH by auto
qed simp

lemma Rename_self: "KeyAPI_Rename k c old new force s = (r, s') \<Longrightarrow> view s' ''self'' = view s ''self''"
  using Rename_view[of c old new force s "fst r" "snd r" s'] by fastforce

lemma rotate_view:
  assumes "doRotate k c e root oldKey alg nBits s w = (res, s', w')"
  shows "view s' = view s \<or> (\<exists>sk. view s' = (view s)(oldKey \<mapsto> sk))"
  using assms
  by (auto simp: doRotate_def rotate_open_def Let_def split: sum.splits prod.splits option.splits dest: put_ok put_err)

text \<open>The keystore and the configuration after a rotation, step by step.\<close>

lemma rotate_open_cases:
  assumes "rotate_open k c e oldKey alg len r s w = (res, r', s', w')" and "\<not> fr_closed r"
  shows "res \<noteq> None \<and> view s' = view s \<and> w' = w \<and> r' = r \<or>
    (\<exists>pid priv sk. CreateIdentity c alg len = Inr (pid, priv) \<and> DecodePrivateKey c (Identity_PrivKey (fr_config r)) = Inr sk \<and>
      view s oldKey = None \<and> view s' = (view s)(oldKey \<mapsto> sk) \<and>
      (let cfg = (fr_config r)\<lparr>Identity_PeerID := pid, Identity_PrivKey := priv\<rparr> in
       \<exists>err. SetConfig e (r\<lparr>fr_config := cfg\<rparr>) cfg w = (err, r', w') \<and> (res = None \<longleftrightarrow> err = None)))"
  using assms
  by (auto simp: rotate_open_def FSRepo_Config_def Let_def split: sum.splits prod.splits option.splits dest: put_ok put_err)

end

section \<open>A keystore in memory\<close>

definition mem_keystore :: "((string \<times> 'sk) list, 'sk) keystore_ops" where
  "mem_keystore = \<lparr>
     ks_Has = (\<lambda>n s. Inr (map_of s n \<noteq> None)),
     ks_Put = (\<lambda>n sk s. if map_of s n \<noteq> None then (Some ''key by that name already exists, refusing to overwrite'', s) else (None, (n, sk) # s)),
     ks_Get = (\<lambda>n s. case map_of s n of None \<Rightarrow> Inl ''no key by the given name was found'' | Some sk \<Rightarrow> Inr sk),
     ks_Delete = (\<lambda>n s. if map_of s n = None then (Some ''no key by the given name was found'', s) else (None, filter (\<lambda>p. fst p \<noteq> n) s)),
     ks_List = (\<lambda>s. Inr (remdups (map fst s)))\<rparr>"

lemma map_of_drop: "map_of (filter (\<lambda>p. fst p \<noteq> n) s) = (map_of s)(n := None)"
  by (induction s) auto

interpretation mem: keystore mem_keystore map_of
  by unfold_locales
    (auto simp: mem_keystore_def map_of_drop dom_map_of_conv_image_fst split: option.splits if_splits)

section \<open>Encodings\<close>

text \<open>What is written can be read again: protobuf keys, PKCS8 keys and PEM blocks.\<close>

definition key_codec_ok :: "'sk key_env \<Rightarrow> bool" where
  "key_codec_ok c \<longleftrightarrow>
     (\<forall>sk b. MarshalPrivateKey c sk = Inr b \<longrightarrow> UnmarshalPrivateKey c b = Inr sk) \<and>
     (\<forall>sk st. PrivKeyToStdKey c sk = Inr st \<longrightarrow> KeyPairFromStdKey c st = Inr sk) \<and>
     (\<forall>st b. MarshalPKCS8 c st = Inr b \<longrightarrow> ParsePKCS8 c b = Inr st) \<and>
     (\<forall>b. fst (pem_Decode c (pem_Encode c ''PRIVATE KEY'' b)) = Some (''PRIVATE KEY'', b))"

definition demo_keys :: "string key_env" where
  "demo_keys = \<lparr>DefaultRSALen = 2048, GenerateRSA = (\<lambda>n. Inr ''rsa1''), GenerateEd25519 = Inr ''ed1'', IDFromKey = (\<lambda>sk. Inr (''id-'' @ sk)),
     MarshalPrivateKey = (\<lambda>sk. Inr (''m'' @ sk)), UnmarshalPrivateKey = (\<lambda>b. if b = [] then Inl ''empty'' else Inr (tl b)),
     PrivKeyToStdKey = (\<lambda>sk. Inr sk), MarshalPKCS8 = (\<lambda>st. Inr (''p'' @ st)), ParsePKCS8 = (\<lambda>b. if b = [] then Inl ''empty'' else Inr (tl b)),
     KeyPairFromStdKey = (\<lambda>st. Inr st), pem_Encode = (\<lambda>t b. t @ CHR 0x0A # b),
     pem_Decode = (\<lambda>d. (if CHR 0x0A \<in> set d then Some (takeWhile (\<lambda>x. x \<noteq> CHR 0x0A) d, tl (dropWhile (\<lambda>x. x \<noteq> CHR 0x0A) d)) else None, d)),
     key_type = (\<lambda>sk. ''ed25519''), base64_Encode = (\<lambda>b. ''b'' @ b), base64_Decode = (\<lambda>b. if b = [] then Inl ''empty'' else Inr (tl b)),
     EncoderByName = (\<lambda>n. Inr (\<lambda>pid. pid)), id_String = (\<lambda>pid. pid)\<rparr>"

lemma demo_codec_ok: "key_codec_ok demo_keys"
  by (simp add: key_codec_ok_def demo_keys_def)

section \<open>Properties\<close>

text \<open>
  C30. Renaming moves a key and never loses it: when it succeeds the key is under its new name only, and when any step fails the key
  is still under its old or its new name; a key of the new name is only given up when that was asked for, and
  no other key changes.
\<close>

theorem Rename_keeps_key:
  assumes "keystore k view" and "KeyAPI_Rename k c old new force s = ((res, err), s')" and "view s old = Some sk"
  shows "(view s' old = Some sk \<or> view s' new = Some sk) \<and>
    (err = None \<and> old \<noteq> new \<longrightarrow> view s' = (view s)(new \<mapsto> sk, old := None)) \<and>
    (\<not> force \<and> new \<noteq> old \<and> view s new \<noteq> None \<longrightarrow> err \<noteq> None \<and> view s' = view s) \<and>
    (\<forall>n. n \<noteq> old \<and> n \<noteq> new \<longrightarrow> view s' n = view s n)"
  using keystore.Rename_view[OF assms(1,2)] assms(3) by auto

theorem Rename_keeps_key_witness:
  "map_of (snd (KeyAPI_Rename mem_keystore demo_keys ''a'' ''b'' False [(''a'', ''ed1'')])) = [''b'' \<mapsto> ''ed1'']"
proof -
  have r: "KeyAPI_Rename mem_keystore demo_keys ''a'' ''b'' False [(''a'', ''ed1'')] = ((Some ((''b'', ''id-ed1''), False), None), [(''b'', ''ed1'')])"
    by (simp add: KeyAPI_Rename_def make_room_def mem_keystore_def demo_keys_def)
  from Rename_keeps_key[OF mem.keystore_axioms r, of "''ed1''"] show ?thesis by (simp add: r fun_eq_iff)
qed

text \<open>
  The node's own key is out of reach: no operation on named keys creates, replaces or deletes a key named \<^verbatim>\<open>self\<close>,
  whatever the keystore answers, so such a key never comes to be.
\<close>

theorem self_untouched:
  assumes "keystore k view"
  shows "view (snd (KeyAPI_Generate k c name alg len s)) ''self'' = view s ''self'' \<and>
    view (snd (KeyAPI_Rename k c old new force s)) ''self'' = view s ''self'' \<and>
    view (snd (keyRmCmd k c b names s)) ''self'' = view s ''self'' \<and>
    view (snd (keyImportCmd k c b fmt any d oe name s)) ''self'' = view s ''self'' \<and>
    view (fst (snd (keyRotateCmd k c e root oldKey alg nBits s w))) ''self'' = view s ''self''"
proof -
  have "view (snd (KeyAPI_Generate k c name alg len s)) ''self'' = view s ''self''"
    using keystore.Generate_view[OF assms, of c name alg len s] by (metis fun_upd_other prod.collapse)
  moreover have "view (snd (KeyAPI_Rename k c old new force s)) ''self'' = view s ''self''"
    using keystore.Rename_self[OF assms] by (metis prod.collapse)
  moreover have "view (snd (keyRmCmd k c b names s)) ''self'' = view s ''self''"
    using keystore.Rm_self[OF assms] by (auto simp: keyRmCmd_def split: sum.splits) (metis prod.collapse)
  moreover have "view (snd (keyImportCmd k c b fmt any d oe name s)) ''self'' = view s ''self''"
    using keystore.Import_view[OF assms, of c b fmt any d oe name s] by (metis fun_upd_other prod.collapse)
  moreover have "view (fst (snd (keyRotateCmd k c e root oldKey alg nBits s w))) ''self'' = view s ''self''"
  proof (cases oldKey)
    case (Some n)
    obtain res s' w' where d: "doRotate k c e root n alg nBits s w = (res, s', w')" by (metis prod_cases3)
    then show ?thesis using keystore.rotate_view[OF assms d] Some by (auto simp: keyRotateCmd_def)
  qed (simp add: keyRotateCmd_def)
  ultimately show ?thesis by blast
qed

theorem self_untouched_witness:
  "map_of (snd (keyRmCmd mem_keystore demo_keys ''base36'' [''a'', ''self''] [(''self'', ''k''), (''a'', ''x'')])) ''self'' = Some ''k''"
proof -
  let ?s = "[(''self'', ''k''), (''a'', ''x'')]"
  have "map_of (snd (keyRmCmd mem_keystore demo_keys ''base36'' [''a'', ''self''] ?s)) ''self'' = map_of ?s ''self''"
    by (rule conjunct1[OF conjunct2[OF conjunct2[OF self_untouched[OF mem.keystore_axioms]]]])
  then show ?thesis by simp
qed

text \<open>Closing a repository touches no file but the two that announce addresses.\<close>

lemma Close_files:
  assumes "FSRepo_Close e r w = (err, r', w')" and "p \<noteq> join e (fr_path r) ''api''" and "p \<noteq> join e (fr_path r) ''gateway''"
  shows "os_files w' p = os_files w p"
  using assms by (auto simp: FSRepo_Close_def os_Remove_def release_def Let_def split: if_splits option.splits)

lemma SetConfig_same_repo:
  "SetConfig e r cfg w = (err, r', w') \<Longrightarrow> fr_path r' = fr_path r \<and> configFilePath r' = configFilePath r \<and> fr_closed r' = fr_closed r"
  by (auto simp: SetConfig_def split: sum.splits prod.splits option.splits)

lemma open_repo_open: "open_repo e p u w = (Inr r, w') \<Longrightarrow> \<not> fr_closed r"
  by (auto simp: open_repo_def open_locked_def split: sum.splits prod.splits option.splits if_splits)

text \<open>
  C11. Rotating the identity never loses the old one: whatever fails, on disk or in the keystore, the configuration file is
  as it was or the old private key is in the keystore under the name given; a name that is taken is refused with
  nothing changed, and no other key changes.  When the rotation succeeds the old key is in the keystore.
\<close>

theorem doRotate_keeps_identity:
  assumes "keystore k view" and "open_repo e root [] w = (Inr r, w1)"
    and "configFilePath r \<noteq> join e (fr_path r) ''api''" and "configFilePath r \<noteq> join e (fr_path r) ''gateway''"
    and "doRotate k c e root oldKey alg nBits s w = (res, s', w')"
  shows "(os_files w' (configFilePath r) = os_files w1 (configFilePath r) \<or>
       (\<exists>sk. DecodePrivateKey c (Identity_PrivKey (fr_config r)) = Inr sk \<and> view s' oldKey = Some sk)) \<and>
    (view s oldKey \<noteq> None \<longrightarrow> res \<noteq> None \<and> view s' = view s \<and> os_files w' (configFilePath r) = os_files w1 (configFilePath r)) \<and>
    (\<forall>n. n \<noteq> oldKey \<longrightarrow> view s' n = view s n) \<and>
    (res = None \<longrightarrow> (\<exists>sk. DecodePrivateKey c (Identity_PrivKey (fr_config r)) = Inr sk \<and> view s' = (view s)(oldKey \<mapsto> sk)))"
proof -
  obtain len where len: "len = (case nBits of None \<Rightarrow> -1 | Some n \<Rightarrow> n)" by blast
  obtain r' w2 where ro: "rotate_open k c e oldKey alg len r s w1 = (res, r', s', w2)" and cl: "\<exists>x y. FSRepo_Close e r' w2 = (x, y, w')"
    using assms(2,5) by (auto simp: doRotate_def len split: prod.splits)
  from keystore.rotate_open_cases[OF assms(1) ro open_repo_open[OF assms(2)]] show ?thesis
  proof
    assume "res \<noteq> None \<and> view s' = view s \<and> w2 = w1 \<and> r' = r"
    moreover have "os_files w' (configFilePath r) = os_files w2 (configFilePath r)" using cl Close_files assms(3,4) calculation by blast
    ultimately show ?thesis by auto
  qed auto
qed

definition demo_disk :: osys where
  "demo_disk = \<lparr>os_files = [''r/config'' \<mapsto> ''1'', ''r/datastore_spec'' \<mapsto> enc_spec repo_demo_env (DiskSpec MemC),
     ''r/version'' \<mapsto> show_int RepoVersion @ [CHR 0x0A]], os_locks = {}, os_stores = []\<rparr>"

theorem doRotate_keeps_identity_witness:
  "map_of (fst (snd (doRotate mem_keystore demo_keys repo_demo_env ''r'' ''old'' ''ed25519'' None [] demo_disk))) = [''old'' \<mapsto> ''k'']"
proof -
  let ?o = "open_repo repo_demo_env ''r'' [] demo_disk"
  define r where "r = projr (fst ?o)"
  have "\<not> isl (fst ?o)" by code_simp
  then have o: "?o = (Inr r, snd ?o)" by (metis r_def prod.collapse sum.collapse(2))
  have p: "configFilePath r \<noteq> join repo_demo_env (fr_path r) ''api''" "configFilePath r \<noteq> join repo_demo_env (fr_path r) ''gateway''"
    "DecodePrivateKey demo_keys (Identity_PrivKey (fr_config r)) = Inr ''k''"
    unfolding r_def by code_simp+
  let ?d = "doRotate mem_keystore demo_keys repo_demo_env ''r'' ''old'' ''ed25519'' None [] demo_disk"
  have d: "?d = (None, fst (snd ?d), snd (snd ?d))"
  proof -
    have "fst ?d = None" by code_simp
    then show ?thesis by (metis prod.collapse)
  qed
  from doRotate_keeps_identity[OF mem.keystore_axioms o p(1,2) d] p(3) show ?thesis by auto
qed



text \<open>
  The list of keys is complete and in order: the node's own key comes first, then every key of the keystore once, by
  name, each with the peer id of the key stored under that name.
\<close>

theorem List_complete:
  assumes "keystore k view" and "KeyAPI_List k c identity s = Inr out"
  shows "\<exists>keys. out = (''self'', identity) # keys \<and> sorted (map fst keys) \<and> distinct (map fst keys) \<and> set (map fst keys) = dom (view s) \<and>
    (\<forall>(n, pid) \<in> set keys. \<exists>sk. view s n = Some sk \<and> IDFromKey c sk = Inr pid)"
proof -
  obtain ns keys where l: "ks_List k s = Inr ns" "list_loop k c (sort ns) s = Inr keys" "out = (''self'', identity) # keys"
    using assms(2) by (auto simp: KeyAPI_List_def split: sum.splits)
  note v = keystore.list_loop_view[OF assms(1) l(2)] and d = keystore.list[OF assms(1) l(1)]
  have "set (map fst keys) \<subseteq> dom (view s)"
  proof
    fix n assume "n \<in> set (map fst keys)"
    then obtain pid where "(n, pid) \<in> set keys" by auto
    then show "n \<in> dom (view s)" using v by blast
  qed
  moreover have "set (map fst keys) = set ns" "sorted (map fst keys)" "distinct (map fst keys)" using v d by auto
  ultimately show ?thesis using l(3) v d by blast
qed

theorem List_complete_witness:
  "KeyAPI_List mem_keystore demo_keys ''me'' [(''b'', ''x''), (''a'', ''y'')] = Inr [(''self'', ''me''), (''a'', ''id-y''), (''b'', ''id-x'')] \<and>
   sorted (map fst [(''a'', ''id-y''), (''b'', ''id-x'')])"
proof -
  have l: "KeyAPI_List mem_keystore demo_keys ''me'' [(''b'', ''x''), (''a'', ''y'')] = Inr [(''self'', ''me''), (''a'', ''id-y''), (''b'', ''id-x'')]"
    by code_simp
  from List_complete[OF mem.keystore_axioms l] l show ?thesis by auto
qed

text \<open>With force, a key of the new name is deleted before the other is stored: when storing fails it is gone, though renaming failed.\<close>

theorem forced_rename_loses_overwritten:
  assumes "keystore k view" and "old \<noteq> ''self''" and "new \<noteq> ''self''" and "old \<noteq> new" and "ks_Get k old s = Inr sk" and "IDFromKey c sk = Inr pid"
    and "ks_Has k new s = Inr True" and "ks_Delete k new s = (None, s1)" and "ks_Put k new sk s1 = (Some err, s2)"
  shows "KeyAPI_Rename k c old new True s = ((None, Some err), s2) \<and> view s2 new = None"
  using assms(2-9) keystore.del_ok[OF assms(1,8)] keystore.put_err[OF assms(1,9)] by (simp add: KeyAPI_Rename_def make_room_def)

end
