(* ===== verification/Routing.thy ===== *)
theory Routing
  imports Prelude
begin

text \<open>
  Custom routing: \<^verbatim>\<open>src/routing/{delegated,composer,error}.go\<close> and the declarations of \<^verbatim>\<open>src/config/routing.go\<close>.
  Routers are configured by name and may be made of other routers; \<^verbatim>\<open>Parse\<close> builds the ones the five methods need.  The
  constructors of other packages are an environment that says when they fail; a router is the tree of what it was
  built from.  Durations are nanoseconds.
\<close>

section \<open>Configuration\<close>

record ConfigRouter =
  cr_RouterName :: string
  cr_Timeout :: int
  cr_IgnoreErrors :: bool
  cr_ExecuteAfter :: "int option"

record DHTRouterParams =
  dp_Mode :: string
  dp_AcceleratedDHTClient :: bool
  dp_PublicIPNetwork :: bool

text \<open>The dynamic type of \<^verbatim>\<open>Parameters\<close>.\<close>

datatype params = ReframeParams string | DHTParams DHTRouterParams | ComposableParams "ConfigRouter list" | NilParams

record Router =
  rt_Type :: string
  rt_Parameters :: params

type_synonym Routers = "string \<rightharpoonup> Router"

text \<open>The methods in the order the map is walked.\<close>

type_synonym Methods = "(string \<times> string) list"

definition MethodNameList :: "string list" where
  "MethodNameList = [''provide'', ''find-peers'', ''find-providers'', ''get-ipns'', ''put-ipns'']"

datatype routing_error =
  MethodMissing string | MethodUnsupported string | DependencyLoop string | ConfigNotFound string | UnknownType string
| ParamNeeded string string | IncorrectParams | InvalidMode string | LibError string

definition Methods_Check :: "Methods \<Rightarrow> routing_error option" where
  "Methods_Check m =
     (case find (\<lambda>mn. mn \<notin> fst ` set m) MethodNameList of
        Some mn \<Rightarrow> Some (MethodMissing mn)
      | None \<Rightarrow> (case find (\<lambda>k. fst k \<notin> set MethodNameList) m of Some k \<Rightarrow> Some (MethodUnsupported (fst k)) | None \<Rightarrow> None))"

section \<open>Routers\<close>

datatype mode_opt = ModeAuto | ModeClient | ModeServer

datatype router =
  ReframeRouter string
| DHTRouter bool mode_opt
| FullRT
| ParallelRouter "(router \<times> bool \<times> int \<times> int) list"
| SequentialRouter "(router \<times> bool \<times> int) list"

text \<open>
  The calls that can fail.  \<open>extra_reframe\<close> holds the peer id, the addresses and the encoded private key of the node, or
  nothing in tests.
\<close>

record router_env =
  New_Client :: "string \<Rightarrow> string option"
  view_Register :: "string option"
  extra_reframe :: "(string \<times> string list \<times> string) option"
  peer_Decode :: "string \<Rightarrow> string option"
  NewMultiaddr :: "string \<Rightarrow> string option"
  base64_DecodeString :: "string \<Rightarrow> string + string"
  UnmarshalKey :: "string \<Rightarrow> string option"
  drc_NewClient :: "string \<Rightarrow> string option"
  dht_New :: "bool \<Rightarrow> mode_opt \<Rightarrow> string option"
  NewFullRT :: "string option"

text \<open>Results: a value, an error, or a panic.\<close>

datatype 'a built = Built 'a | Failed routing_error | Panicked

definition lib :: "string option \<Rightarrow> 'a built \<Rightarrow> 'a built" where
  "lib err k = (case err of Some x \<Rightarrow> Failed (LibError x) | None \<Rightarrow> k)"

definition createProvider :: "router_env \<Rightarrow> string \<Rightarrow> string list \<Rightarrow> unit built" where
  "createProvider e peerID addrs =
     lib (peer_Decode e peerID)
       (case find (\<lambda>a. NewMultiaddr e a \<noteq> None) addrs of
          Some a \<Rightarrow> Failed (LibError (the (NewMultiaddr e a)))
        | None \<Rightarrow> Built ())"

definition decodePrivKey :: "router_env \<Rightarrow> string \<Rightarrow> unit built" where
  "decodePrivKey e keyB64 =
     (case base64_DecodeString e keyB64 of Inl err \<Rightarrow> Failed (LibError err) | Inr pk \<Rightarrow> lib (UnmarshalKey e pk) (Built ()))"

definition reframeRoutingFromConfig :: "router_env \<Rightarrow> Router \<Rightarrow> router built" where
  "reframeRoutingFromConfig e conf =
     (case rt_Parameters conf of
        ReframeParams endpoint \<Rightarrow>
          if endpoint = [] then Failed (ParamNeeded ''Endpoint'' (rt_Type conf))
          else
            lib (New_Client e endpoint) (lib (view_Register e)
              (case extra_reframe e of
                 None \<Rightarrow> lib (drc_NewClient e endpoint) (Built (ReframeRouter endpoint))
               | Some (peerID, addrs, privKey) \<Rightarrow>
                   (case createProvider e peerID addrs of
                      Failed err \<Rightarrow> Failed err
                    | Panicked \<Rightarrow> Panicked
                    | Built _ \<Rightarrow>
                        (case decodePrivKey e privKey of
                           Failed err \<Rightarrow> Failed err
                         | Panicked \<Rightarrow> Panicked
                         | Built _ \<Rightarrow> lib (drc_NewClient e endpoint) (Built (ReframeRouter endpoint))))))
      | _ \<Rightarrow> Panicked)"

definition createDHT :: "router_env \<Rightarrow> bool \<Rightarrow> mode_opt \<Rightarrow> router built" where
  "createDHT e public mode = lib (dht_New e public mode) (Built (DHTRouter public mode))"

definition createFullRT :: "router_env \<Rightarrow> router built" where
  "createFullRT e = lib (NewFullRT e) (Built FullRT)"

definition dhtRoutingFromConfig :: "router_env \<Rightarrow> Router \<Rightarrow> router built" where
  "dhtRoutingFromConfig e conf =
     (case rt_Parameters conf of
        DHTParams p \<Rightarrow>
          if dp_AcceleratedDHTClient p then createFullRT e
          else if dp_Mode p = ''auto'' then createDHT e (dp_PublicIPNetwork p) ModeAuto
          else if dp_Mode p = ''client'' then createDHT e (dp_PublicIPNetwork p) ModeClient
          else if dp_Mode p = ''server'' then createDHT e (dp_PublicIPNetwork p) ModeServer
          else Failed (InvalidMode (dp_Mode p))
      | _ \<Rightarrow> Failed IncorrectParams)"

section \<open>Parsing\<close>

text \<open>The routers visited for a method, the routers created so far, and the log of creations.\<close>

record rstate =
  visited :: "string set"
  createdRouters :: "string \<rightharpoonup> router"
  created_log :: "string list"

definition note_created :: "string \<Rightarrow> router \<Rightarrow> rstate \<Rightarrow> rstate" where
  "note_created n r st = st\<lparr>createdRouters := (createdRouters st)(n \<mapsto> r), created_log := created_log st @ [n]\<rparr>"

definition parallel_of :: "ConfigRouter list \<Rightarrow> router list \<Rightarrow> router" where
  "parallel_of crs rs =
     ParallelRouter (map2 (\<lambda>cr ri. (ri, cr_IgnoreErrors cr, cr_Timeout cr, case cr_ExecuteAfter cr of None \<Rightarrow> 0 | Some d \<Rightarrow> d)) crs rs)"

definition sequential_of :: "ConfigRouter list \<Rightarrow> router list \<Rightarrow> router" where
  "sequential_of crs rs = SequentialRouter (map2 (\<lambda>cr ri. (ri, cr_IgnoreErrors cr, cr_Timeout cr)) crs rs)"

text \<open>A composed router from its parts, and the end of \<^verbatim>\<open>parse\<close>: only a router that was built is remembered.\<close>

definition compose :: "Router \<Rightarrow> ConfigRouter list \<Rightarrow> router list built \<times> rstate \<Rightarrow> router built \<times> rstate" where
  "compose cfg crs x =
     (case x of
        (Built rs, st) \<Rightarrow> (Built (if rt_Type cfg = ''parallel'' then parallel_of crs rs else sequential_of crs rs), st)
      | (Failed err, st) \<Rightarrow> (Failed err, st)
      | (Panicked, st) \<Rightarrow> (Panicked, st))"

definition finish :: "string \<Rightarrow> router built \<times> rstate \<Rightarrow> router built \<times> rstate" where
  "finish routerName x =
     (case x of
        (Built r, st) \<Rightarrow> (Built r, note_created routerName r st)
      | (res, st) \<Rightarrow> (res, st))"

text \<open>
  The recursion of \<^verbatim>\<open>parse\<close>; the fuel bounds its depth and \<open>None\<close> is running out of it.  \<open>parse_all\<close> is the loop over the
  parts of a router.
\<close>

fun parse :: "nat \<Rightarrow> router_env \<Rightarrow> Routers \<Rightarrow> string \<Rightarrow> rstate \<Rightarrow> (router built \<times> rstate) option"
  and parse_all :: "nat \<Rightarrow> router_env \<Rightarrow> Routers \<Rightarrow> ConfigRouter list \<Rightarrow> rstate \<Rightarrow> (router list built \<times> rstate) option" where
  "parse 0 e cfgs routerName st = None"
| "parse (Suc n) e cfgs routerName st =
     (case createdRouters st routerName of
        Some r \<Rightarrow> Some (Built r, st)
      | None \<Rightarrow>
          if routerName \<in> visited st then Some (Failed (DependencyLoop routerName), st)
          else
            (let st = st\<lparr>visited := insert routerName (visited st)\<rparr> in
             case cfgs routerName of
               None \<Rightarrow> Some (Failed (ConfigNotFound routerName), st)
             | Some cfg \<Rightarrow>
                 map_option (finish routerName)
                   (if rt_Type cfg = ''reframe'' then Some (reframeRoutingFromConfig e cfg, st)
                    else if rt_Type cfg = ''dht'' then Some (dhtRoutingFromConfig e cfg, st)
                    else if rt_Type cfg = ''parallel'' \<or> rt_Type cfg = ''sequential'' then
                      (case rt_Parameters cfg of
                         ComposableParams crs \<Rightarrow> map_option (compose cfg crs) (parse_all n e cfgs crs st)
                       | _ \<Rightarrow> Some (Panicked, st))
                    else Some (Failed (UnknownType (rt_Type cfg)), st))))"
| "parse_all n e cfgs [] st = Some (Built [], st)"
| "parse_all n e cfgs (cr # crs) st =
     (case parse n e cfgs (cr_RouterName cr) st of
        None \<Rightarrow> None
      | Some (Built ri, st) \<Rightarrow>
          map_option (\<lambda>(res, st). (case res of Built rs \<Rightarrow> (Built (ri # rs), st) | Failed err \<Rightarrow> (Failed err, st) | Panicked \<Rightarrow> (Panicked, st)))
            (parse_all n e cfgs crs st)
      | Some (Failed err, st) \<Rightarrow> Some (Failed err, st)
      | Some (Panicked, st) \<Rightarrow> Some (Panicked, st))"

record Composer =
  GetValueRouter :: "router option"
  PutValueRouter :: "router option"
  FindPeersRouter :: "router option"
  FindProvidersRouter :: "router option"
  ProvideRouter :: "router option"

definition empty_Composer :: Composer where
  "empty_Composer = \<lparr>GetValueRouter = None, PutValueRouter = None, FindPeersRouter = None, FindProvidersRouter = None, ProvideRouter = None\<rparr>"

definition set_method :: "string \<Rightarrow> router \<Rightarrow> Composer \<Rightarrow> Composer" where
  "set_method mn r c =
     (if mn = ''put-ipns'' then c\<lparr>PutValueRouter := Some r\<rparr>
      else if mn = ''get-ipns'' then c\<lparr>GetValueRouter := Some r\<rparr>
      else if mn = ''find-peers'' then c\<lparr>FindPeersRouter := Some r\<rparr>
      else if mn = ''find-providers'' then c\<lparr>FindProvidersRouter := Some r\<rparr>
      else if mn = ''provide'' then c\<lparr>ProvideRouter := Some r\<rparr>
      else c)"

fun parse_methods :: "nat \<Rightarrow> router_env \<Rightarrow> Routers \<Rightarrow> Methods \<Rightarrow> Composer \<Rightarrow> rstate \<Rightarrow> (Composer built \<times> rstate) option" where
  "parse_methods n e cfgs [] c st = Some (Built c, st)"
| "parse_methods n e cfgs ((mn, routerName) # ms) c st =
     (case parse n e cfgs routerName (st\<lparr>visited := {}\<rparr>) of
        None \<Rightarrow> None
      | Some (Built r, st) \<Rightarrow> parse_methods n e cfgs ms (set_method mn r c) st
      | Some (Failed err, st) \<Rightarrow> Some (Failed err, st)
      | Some (Panicked, st) \<Rightarrow> Some (Panicked, st))"

definition Parse :: "nat \<Rightarrow> router_env \<Rightarrow> Routers \<Rightarrow> Methods \<Rightarrow> (Composer built \<times> rstate) option" where
  "Parse n e cfgs methods =
     (let st = \<lparr>visited = {}, createdRouters = Map.empty, created_log = []\<rparr> in
      case Methods_Check methods of
        Some err \<Rightarrow> Some (Failed err, st)
      | None \<Rightarrow> parse_methods n e cfgs methods empty_Composer st)"

section \<open>The composed router\<close>

text \<open>
  The operations of the routers it is made of are parameters.  \<open>None\<close> for a router is a nil interface, on which a call
  panics.
\<close>

record 'v router_ops =
  op_Provide :: "router \<Rightarrow> string \<Rightarrow> bool \<Rightarrow> string option"
  op_ProvideMany :: "router \<Rightarrow> (string list \<Rightarrow> string option) option"
  op_Ready :: "router \<Rightarrow> bool"
  op_FindProviders :: "router \<Rightarrow> string \<Rightarrow> int \<Rightarrow> 'v list"
  op_FindPeer :: "router \<Rightarrow> string \<Rightarrow> string + 'v"
  op_PutValue :: "router \<Rightarrow> string \<Rightarrow> string \<Rightarrow> string option"
  op_GetValue :: "router \<Rightarrow> string \<Rightarrow> string + string"
  op_SearchValue :: "router \<Rightarrow> string \<Rightarrow> string + string list"
  op_Bootstrap :: "router \<Rightarrow> string option"

definition Composer_Provide :: "'v router_ops \<Rightarrow> Composer \<Rightarrow> string \<Rightarrow> bool \<Rightarrow> string option option" where
  "Composer_Provide ops c cid provide = map_option (\<lambda>r. op_Provide ops r cid provide) (ProvideRouter c)"

definition Composer_ProvideMany :: "'v router_ops \<Rightarrow> Composer \<Rightarrow> string list \<Rightarrow> string option" where
  "Composer_ProvideMany ops c keys =
     (case ProvideRouter c of
        None \<Rightarrow> None
      | Some r \<Rightarrow> (case op_ProvideMany ops r of None \<Rightarrow> None | Some f \<Rightarrow> f keys))"

definition Composer_Ready :: "'v router_ops \<Rightarrow> Composer \<Rightarrow> bool" where
  "Composer_Ready ops c =
     (case ProvideRouter c of None \<Rightarrow> False | Some r \<Rightarrow> op_ProvideMany ops r \<noteq> None \<and> op_Ready ops r)"

definition Composer_FindProvidersAsync :: "'v router_ops \<Rightarrow> Composer \<Rightarrow> string \<Rightarrow> int \<Rightarrow> 'v list option" where
  "Composer_FindProvidersAsync ops c cid count = map_option (\<lambda>r. op_FindProviders ops r cid count) (FindProvidersRouter c)"

definition Composer_FindPeer :: "'v router_ops \<Rightarrow> Composer \<Rightarrow> string \<Rightarrow> (string + 'v) option" where
  "Composer_FindPeer ops c pid = map_option (\<lambda>r. op_FindPeer ops r pid) (FindPeersRouter c)"

definition Composer_PutValue :: "'v router_ops \<Rightarrow> Composer \<Rightarrow> string \<Rightarrow> string \<Rightarrow> string option option" where
  "Composer_PutValue ops c key val = map_option (\<lambda>r. op_PutValue ops r key val) (PutValueRouter c)"

definition Composer_GetValue :: "'v router_ops \<Rightarrow> Composer \<Rightarrow> string \<Rightarrow> (string + string) option" where
  "Composer_GetValue ops c key = map_option (\<lambda>r. op_GetValue ops r key) (GetValueRouter c)"

definition Composer_SearchValue :: "'v router_ops \<Rightarrow> Composer \<Rightarrow> string \<Rightarrow> (string + string list) option" where
  "Composer_SearchValue ops c key = map_option (\<lambda>r. op_SearchValue ops r key) (GetValueRouter c)"

text \<open>
  \<^verbatim>\<open>multierror.Append\<close> is a parameter.  It returns a pointer to an error of its own type, which \<^verbatim>\<open>Bootstrap\<close> returns as an
  \<^verbatim>\<open>error\<close>: an interface value with a dynamic type, which is not nil.  \<open>Some err\<close> is such an error.
\<close>

definition Composer_Bootstrap :: "(string option list \<Rightarrow> 'm) \<Rightarrow> 'v router_ops \<Rightarrow> Composer \<Rightarrow> 'm option option" where
  "Composer_Bootstrap multierror_Append ops c =
     (case (FindPeersRouter c, FindProvidersRouter c, GetValueRouter c, PutValueRouter c, ProvideRouter c) of
        (Some fp, Some fps, Some gv, Some pv, Some p) \<Rightarrow> Some (Some (multierror_Append (map (op_Bootstrap ops) [fp, fps, gv, pv, p])))
      | _ \<Rightarrow> None)"

end
