(* ===== verification/RoutingProps.thy ===== *)
theory RoutingProps
  imports Routing
begin

text \<open>
  What parsing the routers promises: it ends, it succeeds exactly when every router the methods need can be built from the
  configuration, it builds each router once, and a dependency loop is reported only when there is one.
\<close>

section \<open>What a configuration means\<close>

text \<open>The routers that a name stands for: defined by the configuration alone, with no state.\<close>

inductive builds :: "router_env \<Rightarrow> Routers \<Rightarrow> string \<Rightarrow> router \<Rightarrow> bool" for e cfgs where
  reframe: "cfgs n = Some cfg \<Longrightarrow> rt_Type cfg = ''reframe'' \<Longrightarrow> reframeRoutingFromConfig e cfg = Built r \<Longrightarrow> builds e cfgs n r"
| dht: "cfgs n = Some cfg \<Longrightarrow> rt_Type cfg = ''dht'' \<Longrightarrow> dhtRoutingFromConfig e cfg = Built r \<Longrightarrow> builds e cfgs n r"
| parallel: "cfgs n = Some cfg \<Longrightarrow> rt_Type cfg = ''parallel'' \<Longrightarrow> rt_Parameters cfg = ComposableParams crs \<Longrightarrow>
    list_all2 (builds e cfgs) (map cr_RouterName crs) rs \<Longrightarrow> builds e cfgs n (parallel_of crs rs)"
| sequential: "cfgs n = Some cfg \<Longrightarrow> rt_Type cfg = ''sequential'' \<Longrightarrow> rt_Parameters cfg = ComposableParams crs \<Longrightarrow>
    list_all2 (builds e cfgs) (map cr_RouterName crs) rs \<Longrightarrow> builds e cfgs n (sequential_of crs rs)"

text \<open>A router depends on its parts.\<close>

definition deps :: "Routers \<Rightarrow> (string \<times> string) set" where
  "deps cfgs = {(a, b). \<exists>cfg crs. cfgs a = Some cfg \<and> (rt_Type cfg = ''parallel'' \<or> rt_Type cfg = ''sequential'') \<and>
     rt_Parameters cfg = ComposableParams crs \<and> b \<in> cr_RouterName ` set crs}"

lemma list_all2_unique:
  "list_all2 (\<lambda>x y. P x y \<and> (\<forall>y'. P x y' \<longrightarrow> y = y')) xs ys \<Longrightarrow> list_all2 P xs ys' \<Longrightarrow> ys = ys'"
  by (induction xs ys arbitrary: ys' rule: list_all2_induct) (auto simp: list_all2_Cons1)

inductive_cases builds_elim: "builds e cfgs n r"

lemma builds_unique: "builds e cfgs n r \<Longrightarrow> builds e cfgs n r' \<Longrightarrow> r = r'"
proof (induction arbitrary: r' rule: builds.induct)
  case (parallel n cfg crs rs)
  from parallel.prems parallel.hyps(1-3) obtain rs' where "r' = parallel_of crs rs'" "list_all2 (builds e cfgs) (map cr_RouterName crs) rs'"
    by (auto elim: builds_elim)
  with list_all2_unique[OF parallel.IH] show ?case by simp
next
  case (sequential n cfg crs rs)
  from sequential.prems sequential.hyps(1-3) obtain rs' where "r' = sequential_of crs rs'" "list_all2 (builds e cfgs) (map cr_RouterName crs) rs'"
    by (auto elim: builds_elim)
  with list_all2_unique[OF sequential.IH] show ?case by simp
qed (auto elim: builds_elim)

text \<open>The parts of a router are smaller, so a router that can be built does not depend on itself.\<close>

lemma size_part:
  "(r, x) \<in> set xs \<Longrightarrow> size r < size (ParallelRouter xs)" "(r, y) \<in> set ys \<Longrightarrow> size r < size (SequentialRouter ys)"
  using size_list_estimation'[of "(r, x)" xs "size r" "size_prod size (\<lambda>_. 0)"]
    size_list_estimation'[of "(r, y)" ys "size r" "size_prod size (\<lambda>_. 0)"] by auto

lemma part_smaller:
  assumes "i < length crs" and "length rs = length crs"
  shows "size (rs ! i) < size (parallel_of crs rs)" and "size (rs ! i) < size (sequential_of crs rs)"
proof -
  have "(crs ! i, rs ! i) \<in> set (zip crs rs)" using assms by (auto simp: set_zip)
  then have p: "(\<lambda>(cr, ri). f cr ri) (crs ! i, rs ! i) \<in> set (map2 f crs rs)" for f :: "ConfigRouter \<Rightarrow> router \<Rightarrow> 'z"
    unfolding set_map by (rule imageI)
  show "size (rs ! i) < size (parallel_of crs rs)" unfolding parallel_of_def by (rule size_part(1)) (rule p[unfolded prod.case])
  show "size (rs ! i) < size (sequential_of crs rs)" unfolding sequential_of_def by (rule size_part(2)) (rule p[unfolded prod.case])
qed

lemma builds_dep:
  assumes "builds e cfgs a r" and "(a, b) \<in> deps cfgs"
  shows "\<exists>r'. builds e cfgs b r' \<and> size r' < size r"
proof -
  obtain cfg crs where c: "cfgs a = Some cfg" "rt_Type cfg = ''parallel'' \<or> rt_Type cfg = ''sequential''"
    "rt_Parameters cfg = ComposableParams crs" "b \<in> cr_RouterName ` set crs" using assms(2) by (auto simp: deps_def)
  from assms(1) c obtain rs where rs: "list_all2 (builds e cfgs) (map cr_RouterName crs) rs" "r = parallel_of crs rs \<or> r = sequential_of crs rs"
    by (auto elim!: builds_elim)
  obtain i where i: "i < length crs" "b = cr_RouterName (crs ! i)" using c(4) by (metis imageE in_set_conv_nth)
  have "builds e cfgs b (rs ! i)" using list_all2_nthD[OF rs(1), of i] i by simp
  moreover have "size (rs ! i) < size r" using part_smaller[OF i(1), of rs] list_all2_lengthD[OF rs(1)] rs(2) by auto
  ultimately show ?thesis by blast
qed

lemma builds_trancl:
  assumes "(a, b) \<in> (deps cfgs)\<^sup>+" and "builds e cfgs a r"
  shows "\<exists>r'. builds e cfgs b r' \<and> size r' < size r"
  using assms
proof (induction rule: trancl_induct)
  case (step b c)
  then show ?case using builds_dep by (metis less_trans)
qed (rule builds_dep)

lemma builds_no_loop:
  assumes "builds e cfgs a r" and "(a, b) \<in> (deps cfgs)\<^sup>*"
  shows "(b, b) \<notin> (deps cfgs)\<^sup>+"
proof
  assume loop: "(b, b) \<in> (deps cfgs)\<^sup>+"
  obtain r' where "builds e cfgs b r'" using assms builds_trancl by (metis rtranclD)
  with builds_trancl[OF loop] builds_unique show False by (metis less_irrefl)
qed

section \<open>Parsing\<close>

text \<open>Every router is created once: the log has no name twice and names exactly the created routers.\<close>

definition log_ok :: "rstate \<Rightarrow> bool" where
  "log_ok st \<longleftrightarrow> distinct (created_log st) \<and> set (created_log st) = dom (createdRouters st)"

text \<open>
  While the routers of \<open>S\<close> are being parsed: what is created is what the configuration says, and what is visited is
  created or being parsed, not both.
\<close>

definition rinv :: "router_env \<Rightarrow> Routers \<Rightarrow> string set \<Rightarrow> rstate \<Rightarrow> bool" where
  "rinv e cfgs S st \<longleftrightarrow>
     (\<forall>n r. createdRouters st n = Some r \<longrightarrow> builds e cfgs n r) \<and> log_ok st \<and>
     S \<subseteq> visited st \<and> visited st \<subseteq> S \<union> dom (createdRouters st) \<and> S \<inter> dom (createdRouters st) = {} \<and> S \<subseteq> dom cfgs"

text \<open>The result for something that can be built only as \<open>B\<close> says, whose names are \<open>N\<close>.\<close>

definition result_ok :: "router_env \<Rightarrow> Routers \<Rightarrow> string set \<Rightarrow> string set \<Rightarrow> ('a \<Rightarrow> bool) \<Rightarrow> 'a built \<Rightarrow> rstate \<Rightarrow> bool" where
  "result_ok e cfgs S N B res st \<longleftrightarrow> log_ok st \<and>
     (case res of
        Built x \<Rightarrow> B x \<and> rinv e cfgs S st
      | Failed err \<Rightarrow> (\<forall>x. \<not> B x) \<and> (\<forall>n. err = DependencyLoop n \<longrightarrow> (n, n) \<in> (deps cfgs)\<^sup>+ \<and> (\<exists>m \<in> N. (m, n) \<in> (deps cfgs)\<^sup>*))
      | Panicked \<Rightarrow> \<forall>x. \<not> B x)"

lemma rinv_log: "rinv e cfgs S st \<Longrightarrow> log_ok st"
  by (simp add: rinv_def)

lemma note_created_inv:
  assumes "rinv e cfgs (insert n S) st" and "builds e cfgs n r" and "n \<notin> S"
  shows "rinv e cfgs S (note_created n r st)"
  using assms unfolding rinv_def log_ok_def note_created_def by auto

text \<open>No constructor of another package reports a loop.\<close>

lemma lib_loop: "lib err k = Failed (DependencyLoop n) \<Longrightarrow> k = Failed (DependencyLoop n)"
  by (simp add: lib_def split: option.splits)

lemma leaf_no_loop: "reframeRoutingFromConfig e cfg \<noteq> Failed (DependencyLoop n)" "dhtRoutingFromConfig e cfg \<noteq> Failed (DependencyLoop n)"
  by (auto simp: reframeRoutingFromConfig_def dhtRoutingFromConfig_def createDHT_def createFullRT_def createProvider_def decodePrivKey_def
      split: params.splits if_splits option.splits prod.splits built.splits sum.splits dest!: lib_loop)

lemma parse_all_ok:
  assumes IH: "\<And>name st. rinv e cfgs S st \<Longrightarrow> \<forall>a \<in> S. (a, name) \<in> (deps cfgs)\<^sup>+ \<Longrightarrow>
      \<exists>res st'. parse n e cfgs name st = Some (res, st') \<and> result_ok e cfgs S {name} (builds e cfgs name) res st'"
    and "rinv e cfgs S st" and "\<forall>a \<in> S. \<forall>cr \<in> set crs. (a, cr_RouterName cr) \<in> (deps cfgs)\<^sup>+"
  shows "\<exists>res st'. parse_all n e cfgs crs st = Some (res, st') \<and>
    result_ok e cfgs S (cr_RouterName ` set crs) (list_all2 (builds e cfgs) (map cr_RouterName crs)) res st'"
  using assms(2,3)
proof (induction crs arbitrary: st)
  case Nil
  then show ?case by (simp add: result_ok_def rinv_log)
next
  case (Cons cr crs)
  obtain res st1 where p: "parse n e cfgs (cr_RouterName cr) st = Some (res, st1)"
    "result_ok e cfgs S {cr_RouterName cr} (builds e cfgs (cr_RouterName cr)) res st1"
    using IH[OF Cons.prems(1), of "cr_RouterName cr"] Cons.prems(2) by auto
  show ?case
  proof (cases res)
    case (Built r)
    then have r: "builds e cfgs (cr_RouterName cr) r" "rinv e cfgs S st1" using p(2) by (auto simp: result_ok_def)
    from Cons.IH[OF r(2)] Cons.prems(2) obtain res2 st2 where
      q: "parse_all n e cfgs crs st1 = Some (res2, st2)"
        "result_ok e cfgs S (cr_RouterName ` set crs) (list_all2 (builds e cfgs) (map cr_RouterName crs)) res2 st2" by auto
    show ?thesis
      using q p(1) Built r(1) by (cases res2) (auto simp: result_ok_def list_all2_Cons1)
  qed (use p in \<open>auto simp: result_ok_def list_all2_Cons1\<close>)
qed

lemma finish_ok:
  assumes "result_ok e cfgs (insert n S) {n} (builds e cfgs n) res st" and "n \<notin> S" and "finish n (res, st) = (res', st')"
  shows "result_ok e cfgs S {n} (builds e cfgs n) res' st'"
proof (cases res)
  case (Built r)
  then have r: "builds e cfgs n r" "rinv e cfgs (insert n S) st" "res' = Built r" "st' = note_created n r st"
    using assms by (auto simp: result_ok_def finish_def)
  then have "rinv e cfgs S st'" using note_created_inv[OF r(2,1) assms(2)] by simp
  then show ?thesis using r by (simp add: result_ok_def rinv_log)
qed (use assms in \<open>auto simp: finish_def result_ok_def\<close>)

lemma compose_ok:
  assumes "result_ok e cfgs S (cr_RouterName ` set crs) (list_all2 (builds e cfgs) (map cr_RouterName crs)) res st"
    and "cfgs n = Some cfg" and "rt_Type cfg = ''parallel'' \<or> rt_Type cfg = ''sequential''" and "rt_Parameters cfg = ComposableParams crs"
    and "compose cfg crs (res, st) = (res', st')"
  shows "result_ok e cfgs S {n} (builds e cfgs n) res' st'"
proof -
  have parts: "\<exists>rs. list_all2 (builds e cfgs) (map cr_RouterName crs) rs" if "builds e cfgs n r" for r
    using that assms(2-4) by (auto elim!: builds_elim)
  have dep: "(n, k) \<in> (deps cfgs)\<^sup>*" if "cr \<in> set crs" "(cr_RouterName cr, k) \<in> (deps cfgs)\<^sup>*" for cr k
  proof -
    have "(n, cr_RouterName cr) \<in> deps cfgs" using that(1) assms(2-4) by (auto simp: deps_def)
    then show ?thesis using that(2) by (rule converse_rtrancl_into_rtrancl)
  qed
  show ?thesis
  proof (cases res)
    case (Built rs)
    then have "builds e cfgs n (if rt_Type cfg = ''parallel'' then parallel_of crs rs else sequential_of crs rs)"
      using assms(1-4) by (auto simp: result_ok_def intro: builds.intros)
    then show ?thesis using assms(1,5) Built by (auto simp: result_ok_def compose_def)
  next
    case (Failed err)
    then show ?thesis using assms(1,5) parts dep by (auto simp: result_ok_def compose_def)
  next
    case Panicked
    then show ?thesis using assms(1,5) parts by (auto simp: result_ok_def compose_def)
  qed
qed

text \<open>A router that is not made of others.\<close>

lemma leaf_ok:
  assumes "cfgs n = Some cfg" and "rt_Type cfg = ''reframe'' \<and> x = reframeRoutingFromConfig e cfg \<or> rt_Type cfg = ''dht'' \<and> x = dhtRoutingFromConfig e cfg"
    and "rinv e cfgs S st"
  shows "result_ok e cfgs S {n} (builds e cfgs n) x st"
proof -
  have "builds e cfgs n r \<longleftrightarrow> x = Built r" for r using assms(1,2) by (auto intro: builds.intros elim!: builds_elim)
  moreover have "x \<noteq> Failed (DependencyLoop k)" for k using assms(2) leaf_no_loop(1)[of e cfg k] leaf_no_loop(2)[of e cfg k] by auto
  ultimately show ?thesis using assms(3) by (cases x) (auto simp: result_ok_def rinv_log)
qed

text \<open>The switch over the types of a router.\<close>

definition switch :: "nat \<Rightarrow> router_env \<Rightarrow> Routers \<Rightarrow> Router \<Rightarrow> rstate \<Rightarrow> (router built \<times> rstate) option" where
  "switch n e cfgs cfg st =
     (if rt_Type cfg = ''reframe'' then Some (reframeRoutingFromConfig e cfg, st)
      else if rt_Type cfg = ''dht'' then Some (dhtRoutingFromConfig e cfg, st)
      else if rt_Type cfg = ''parallel'' \<or> rt_Type cfg = ''sequential'' then
        (case rt_Parameters cfg of
           ComposableParams crs \<Rightarrow> map_option (compose cfg crs) (parse_all n e cfgs crs st)
         | _ \<Rightarrow> Some (Panicked, st))
      else Some (Failed (UnknownType (rt_Type cfg)), st))"

lemma parse_switch:
  assumes "createdRouters st name = None" and "name \<notin> visited st" and "cfgs name = Some cfg"
  shows "parse (Suc n) e cfgs name st = map_option (finish name) (switch n e cfgs cfg (st\<lparr>visited := insert name (visited st)\<rparr>))"
  using assms by (simp add: Let_def switch_def)

lemma switch_ok:
  assumes IH: "\<And>name st. rinv e cfgs S st \<Longrightarrow> \<forall>a \<in> S. (a, name) \<in> (deps cfgs)\<^sup>+ \<Longrightarrow>
      \<exists>res st'. parse n e cfgs name st = Some (res, st') \<and> result_ok e cfgs S {name} (builds e cfgs name) res st'"
    and "cfgs name = Some cfg" and "rinv e cfgs S st"
    and S: "\<forall>a \<in> S. \<forall>b. (name, b) \<in> deps cfgs \<longrightarrow> (a, b) \<in> (deps cfgs)\<^sup>+"
  shows "\<exists>res st'. switch n e cfgs cfg st = Some (res, st') \<and> result_ok e cfgs S {name} (builds e cfgs name) res st'"
proof (cases "(rt_Type cfg = ''parallel'' \<or> rt_Type cfg = ''sequential'') \<and> (\<exists>crs. rt_Parameters cfg = ComposableParams crs)")
  case True
  then obtain crs where c: "rt_Type cfg = ''parallel'' \<or> rt_Type cfg = ''sequential''" "rt_Parameters cfg = ComposableParams crs" by blast
  have "(name, cr_RouterName cr) \<in> deps cfgs" if "cr \<in> set crs" for cr using that assms(2) c by (auto simp: deps_def)
  then have "\<forall>a \<in> S. \<forall>cr \<in> set crs. (a, cr_RouterName cr) \<in> (deps cfgs)\<^sup>+" using S by blast
  from parse_all_ok[OF IH assms(3) this] obtain res st2 where
    pa: "parse_all n e cfgs crs st = Some (res, st2)"
      "result_ok e cfgs S (cr_RouterName ` set crs) (list_all2 (builds e cfgs) (map cr_RouterName crs)) res st2" by blast
  obtain res' st3 where co: "compose cfg crs (res, st2) = (res', st3)" by fastforce
  show ?thesis using c pa(1) co compose_ok[OF pa(2) assms(2) c co] by (auto simp: switch_def)
next
  case False
  show ?thesis
  proof (cases "rt_Type cfg = ''reframe'' \<or> rt_Type cfg = ''dht''")
    case True
    then show ?thesis using leaf_ok[OF assms(2) _ assms(3)] by (auto simp: switch_def)
  next
    case other: False
    then have "\<not> builds e cfgs name r" for r using assms(2) False by (auto elim!: builds_elim)
    then show ?thesis using False other rinv_log[OF assms(3)] by (auto simp: result_ok_def switch_def split: params.splits)
  qed
qed

lemma parse_ok:
  assumes "finite (dom cfgs)"
  shows "card (dom cfgs - S) < n \<Longrightarrow> rinv e cfgs S st \<Longrightarrow> \<forall>a \<in> S. (a, name) \<in> (deps cfgs)\<^sup>+ \<Longrightarrow>
    \<exists>res st'. parse n e cfgs name st = Some (res, st') \<and> result_ok e cfgs S {name} (builds e cfgs name) res st'"
proof (induction n arbitrary: S name st)
  case (Suc n)
  note inv = Suc.prems(2)
  consider (created) r where "createdRouters st name = Some r"
    | (loop) "createdRouters st name = None" "name \<in> visited st"
    | (missing) "createdRouters st name = None" "name \<notin> visited st" "cfgs name = None"
    | (make) cfg where "createdRouters st name = None" "name \<notin> visited st" "cfgs name = Some cfg" by blast
  then show ?case
  proof cases
    case created
    then show ?thesis using inv by (auto simp: result_ok_def rinv_def)
  next
    case loop
    then have "name \<in> S" using inv by (auto simp: rinv_def)
    then have l: "(name, name) \<in> (deps cfgs)\<^sup>+" using Suc.prems(3) by blast
    then have "\<not> builds e cfgs name r" for r using builds_no_loop by blast
    with l show ?thesis using loop inv by (auto simp: result_ok_def rinv_def)
  next
    case missing
    then show ?thesis using inv by (auto simp: result_ok_def rinv_def log_ok_def elim: builds_elim)
  next
    case (make cfg)
    let ?st = "st\<lparr>visited := insert name (visited st)\<rparr>" and ?S = "insert name S"
    have nS: "name \<notin> S" using make inv by (auto simp: rinv_def)
    have inv1: "rinv e cfgs ?S ?st" using inv make by (auto simp: rinv_def log_ok_def)
    have "card (dom cfgs - ?S) < card (dom cfgs - S)" using assms(1) make nS by (intro psubset_card_mono) auto
    then have fuel: "card (dom cfgs - ?S) < n" using Suc.prems(1) by simp
    have "\<forall>a \<in> ?S. \<forall>b. (name, b) \<in> deps cfgs \<longrightarrow> (a, b) \<in> (deps cfgs)\<^sup>+" using Suc.prems(3) by (auto intro: trancl_into_trancl)
    from switch_ok[OF Suc.IH[OF fuel] make(3) inv1 this] obtain res st2 where
      x: "switch n e cfgs cfg ?st = Some (res, st2)" "result_ok e cfgs ?S {name} (builds e cfgs name) res st2" by blast
    obtain res' st' where "finish name (res, st2) = (res', st')" by fastforce
    then show ?thesis using x(1) finish_ok[OF x(2) nS] parse_switch[of st name cfgs cfg n e] make by auto
  qed
qed simp

section \<open>The routers of the methods\<close>

text \<open>The composed router that the methods ask for: the router of each method in its place.\<close>

definition methods_build :: "router_env \<Rightarrow> Routers \<Rightarrow> Methods \<Rightarrow> Composer \<Rightarrow> Composer \<Rightarrow> bool" where
  "methods_build e cfgs ms c c' \<longleftrightarrow>
     (\<exists>rs. list_all2 (\<lambda>m r. builds e cfgs (snd m) r) ms rs \<and> c' = fold (\<lambda>(m, r). set_method (fst m) r) (zip ms rs) c)"

lemma methods_build_Nil [simp]: "methods_build e cfgs [] c c' \<longleftrightarrow> c' = c"
  by (simp add: methods_build_def)

lemma methods_build_Cons:
  "methods_build e cfgs (m # ms) c c' \<longleftrightarrow> (\<exists>r. builds e cfgs (snd m) r \<and> methods_build e cfgs ms (set_method (fst m) r c) c')" (is "?L \<longleftrightarrow> ?R")
proof
  assume ?L
  then obtain r rs where "builds e cfgs (snd m) r" "list_all2 (\<lambda>m r. builds e cfgs (snd m) r) ms rs"
    "c' = fold (\<lambda>(m, r). set_method (fst m) r) (zip ms rs) (set_method (fst m) r c)" by (auto simp: methods_build_def list_all2_Cons1)
  then show ?R unfolding methods_build_def by blast
next
  assume ?R
  then obtain r rs where "builds e cfgs (snd m) r" "list_all2 (\<lambda>m r. builds e cfgs (snd m) r) ms rs"
    "c' = fold (\<lambda>(m, r). set_method (fst m) r) (zip ms rs) (set_method (fst m) r c)" unfolding methods_build_def by blast
  then show ?L unfolding methods_build_def by (intro exI[of _ "r # rs"]) simp
qed

lemma methods_build_unique: "methods_build e cfgs ms c c' \<Longrightarrow> methods_build e cfgs ms c c'' \<Longrightarrow> c' = c''"
proof (induction ms arbitrary: c)
  case (Cons m ms)
  from Cons.prems obtain r r' where r: "builds e cfgs (snd m) r" "methods_build e cfgs ms (set_method (fst m) r c) c'"
    "builds e cfgs (snd m) r'" "methods_build e cfgs ms (set_method (fst m) r' c) c''" unfolding methods_build_Cons by blast
  have "r = r'" using builds_unique[OF r(1,3)] .
  then show ?case using Cons.IH r(2,4) by blast
qed simp

lemma parse_methods_ok:
  assumes "finite (dom cfgs)" and "card (dom cfgs) < n" and "rinv e cfgs {} (st\<lparr>visited := {}\<rparr>)"
  shows "\<exists>res st'. parse_methods n e cfgs ms c st = Some (res, st') \<and>
    result_ok e cfgs {} (snd ` set ms) (methods_build e cfgs ms c) res (st'\<lparr>visited := {}\<rparr>)"
  using assms(3)
proof (induction ms arbitrary: c st)
  case Nil
  then show ?case by (simp add: result_ok_def rinv_log methods_build_def)
next
  case (Cons m ms)
  obtain mn name where m: "m = (mn, name)" by (cases m)
  obtain res st1 where p: "parse n e cfgs name (st\<lparr>visited := {}\<rparr>) = Some (res, st1)"
    "result_ok e cfgs {} {name} (builds e cfgs name) res st1"
    using parse_ok[OF assms(1), of "{}" n e "st\<lparr>visited := {}\<rparr>" name] assms(2) Cons.prems by auto
  have log: "log_ok (st1\<lparr>visited := {}\<rparr>)" using p(2) by (auto simp: result_ok_def log_ok_def)
  show ?case
  proof (cases res)
    case (Built r)
    then have r: "builds e cfgs name r" "rinv e cfgs {} (st1\<lparr>visited := {}\<rparr>)" using p(2) by (auto simp: result_ok_def rinv_def log_ok_def)
    have u: "methods_build e cfgs (m # ms) c = methods_build e cfgs ms (set_method mn r c)"
    proof (rule ext)
      fix x show "methods_build e cfgs (m # ms) c x = methods_build e cfgs ms (set_method mn r c) x"
        unfolding methods_build_Cons m fst_conv snd_conv using builds_unique[OF r(1)] r(1) by blast
    qed
    from Cons.IH[OF r(2), of "set_method mn r c"] obtain res2 st2 where
      q: "parse_methods n e cfgs ms (set_method mn r c) st1 = Some (res2, st2)"
        "result_ok e cfgs {} (snd ` set ms) (methods_build e cfgs ms (set_method mn r c)) res2 (st2\<lparr>visited := {}\<rparr>)" by blast
    have "result_ok e cfgs {} (snd ` set (m # ms)) (methods_build e cfgs (m # ms) c) res2 (st2\<lparr>visited := {}\<rparr>)"
      using q(2) unfolding u by (cases res2) (auto simp: result_ok_def)
    then show ?thesis using p(1) q(1) Built m by auto
  next
    case (Failed err)
    then show ?thesis using p m log by (auto simp: result_ok_def methods_build_Cons)
  next
    case Panicked
    then show ?thesis using p m log by (auto simp: result_ok_def methods_build_Cons)
  qed
qed

text \<open>C13. Parsing the routing configuration always ends, and the depth of its recursion is at most the number of configured
  routers plus one.  It succeeds exactly when the methods are the five known ones and the router each of them names can be
  built from the configuration (its configuration and, for a parallel or sequential router, those of all its parts exist,
  are well formed and contain no loop), and then the method has that router.  However it ends, no router was created
  twice, and a dependency loop is reported only for a router that one of the methods needs and that really depends on
  itself.\<close>

theorem Parse_exact:
  assumes "finite (dom cfgs)" and "card (dom cfgs) < n"
  shows "\<exists>res st. Parse n e cfgs methods = Some (res, st) \<and>
    (\<forall>c. res = Built c \<longleftrightarrow> Methods_Check methods = None \<and> methods_build e cfgs methods empty_Composer c) \<and>
    distinct (created_log st) \<and> set (created_log st) = dom (createdRouters st) \<and>
    (\<forall>k. res = Failed (DependencyLoop k) \<longrightarrow>
      (k, k) \<in> (deps cfgs)\<^sup>+ \<and> (\<exists>m \<in> set methods. (snd m, k) \<in> (deps cfgs)\<^sup>*))"
proof (cases "Methods_Check methods")
  case None
  let ?st = "\<lparr>visited = {}, createdRouters = Map.empty, created_log = []\<rparr>"
  have "rinv e cfgs {} (?st\<lparr>visited := {}\<rparr>)" by (simp add: rinv_def log_ok_def)
  from parse_methods_ok[OF assms this, of methods empty_Composer] obtain res st where
    r: "parse_methods n e cfgs methods empty_Composer ?st = Some (res, st)"
      "result_ok e cfgs {} (snd ` set methods) (methods_build e cfgs methods empty_Composer) res (st\<lparr>visited := {}\<rparr>)" by blast
  have "methods_build e cfgs methods empty_Composer c \<Longrightarrow> methods_build e cfgs methods empty_Composer c' \<Longrightarrow> c = c'" for c c'
    using methods_build_unique by blast
  then show ?thesis using None r by (cases res) (auto simp: Parse_def result_ok_def log_ok_def)
next
  case (Some err)
  moreover have "err \<noteq> DependencyLoop k" for k using Some by (auto simp: Methods_Check_def split: option.splits)
  ultimately show ?thesis by (simp add: Parse_def)
qed

text \<open>Two configured routers under a parallel one, all five methods on it; and a loop of two routers.\<close>

definition w_env :: router_env where
  "w_env = \<lparr>New_Client = (\<lambda>_. None), view_Register = None, extra_reframe = None, peer_Decode = (\<lambda>_. None), NewMultiaddr = (\<lambda>_. None),
     base64_DecodeString = Inr, UnmarshalKey = (\<lambda>_. None), drc_NewClient = (\<lambda>_. None), dht_New = (\<lambda>_ _. None), NewFullRT = None\<rparr>"

definition w_cr :: "string \<Rightarrow> ConfigRouter" where
  "w_cr n = \<lparr>cr_RouterName = n, cr_Timeout = 5, cr_IgnoreErrors = True, cr_ExecuteAfter = None\<rparr>"

definition w_loop :: Routers where
  "w_loop = [''a'' \<mapsto> \<lparr>rt_Type = ''parallel'', rt_Parameters = ComposableParams [w_cr ''b'']\<rparr>,
     ''b'' \<mapsto> \<lparr>rt_Type = ''sequential'', rt_Parameters = ComposableParams [w_cr ''a'']\<rparr>]"

definition w_good :: Routers where
  "w_good = [''a'' \<mapsto> \<lparr>rt_Type = ''parallel'', rt_Parameters = ComposableParams [w_cr ''b'', w_cr ''b'']\<rparr>,
     ''b'' \<mapsto> \<lparr>rt_Type = ''reframe'', rt_Parameters = ReframeParams ''http''\<rparr>]"

definition w_methods :: Methods where
  "w_methods = map (\<lambda>m. (m, ''a'')) MethodNameList"

lemma w_dom: "dom w_loop = {''a'', ''b''}" "dom w_good = {''a'', ''b''}"
  by (auto simp: w_loop_def w_good_def)

theorem Parse_exact_witness:
  "(\<exists>st. Parse 3 w_env w_loop w_methods = Some (Failed (DependencyLoop ''a''), st) \<and> distinct (created_log st)) \<and>
   (''a'', ''a'') \<in> (deps w_loop)\<^sup>+ \<and>
   (\<exists>c st. Parse 3 w_env w_good w_methods = Some (Built c, st) \<and> created_log st = [''b'', ''a''] \<and>
     methods_build w_env w_good w_methods empty_Composer c \<and> distinct (created_log st))"
proof -
  note defs = Parse_def w_methods_def MethodNameList_def Methods_Check_def w_cr_def w_env_def reframeRoutingFromConfig_def lib_def
    compose_def finish_def note_created_def
  have l: "\<exists>st. Parse 3 w_env w_loop w_methods = Some (Failed (DependencyLoop ''a''), st)"
    by (simp add: defs w_loop_def numeral_3_eq_3)
  have g: "\<exists>c st. Parse 3 w_env w_good w_methods = Some (Built c, st) \<and> created_log st = [''b'', ''a'']"
    by (simp add: defs w_good_def numeral_3_eq_3)
  obtain st where 1: "Parse 3 w_env w_loop w_methods = Some (Failed (DependencyLoop ''a''), st)" using l by blast
  obtain c st2 where 2: "Parse 3 w_env w_good w_methods = Some (Built c, st2)" "created_log st2 = [''b'', ''a'']" using g by blast
  have "distinct (created_log st) \<and> (''a'', ''a'') \<in> (deps w_loop)\<^sup>+" using Parse_exact[of w_loop 3 w_env w_methods] 1 unfolding w_dom by auto
  moreover have "methods_build w_env w_good w_methods empty_Composer c \<and> distinct (created_log st2)"
    using Parse_exact[of w_good 3 w_env w_methods] 2(1) unfolding w_dom by auto
  ultimately show ?thesis using 1 2 by blast
qed

text \<open>Bootstrapping a composed router never reports success: whatever its routers answer, the error it returns is not nil,
  even when none of them failed.\<close>

theorem Composer_Bootstrap_never_nil:
  "Composer_Bootstrap app ops c \<noteq> Some None \<and> (Composer_Bootstrap app ops c = None \<longleftrightarrow>
     None \<in> {FindPeersRouter c, FindProvidersRouter c, GetValueRouter c, PutValueRouter c, ProvideRouter c})"
  by (auto simp: Composer_Bootstrap_def split: option.splits)

end
