(* ===== verification/ConfigCmd.thy ===== *)
theory ConfigCmd
  imports Bootstrapping GoPath
begin

text \<open>
  Profiles and configuration commands: \<^verbatim>\<open>src/config/profile.go\<close>, the defaults of \<^verbatim>\<open>src/config/init.go\<close>,
  \<^verbatim>\<open>src/core/commands/config.go\<close> and the service commands of \<^verbatim>\<open>src/core/commands/pin/remotepin.go\<close>.  They work on the
  repository of the theory \<open>FSRepo\<close>, opened through the shared references of \<open>OnlyOne\<close>.  The order in which Go walks a map,
  the port the system hands out, \<^verbatim>\<open>encoding/json\<close> and \<^verbatim>\<open>net/url\<close> are parameters.
\<close>

section \<open>Profiles\<close>

text \<open>\<open>map_keys\<close> lists the keys of a map in the order of a walk; \<open>Listen\<close> is the port a listener gets.\<close>

record prof_env =
  map_keys :: "string set \<Rightarrow> string list"
  Listen :: "string + int"

datatype prof_error = BootstrapError boot_error | ListenError string

definition appendSingle :: "string list \<Rightarrow> string list \<Rightarrow> string list" where
  "appendSingle a b = snd (fold add_back b (fold add_back a ({}, [])))"

definition mapKeys :: "prof_env \<Rightarrow> string set \<Rightarrow> string list" where
  "mapKeys pv m = map_keys pv m"

definition deleteEntries :: "prof_env \<Rightarrow> string list \<Rightarrow> string list \<Rightarrow> string list" where
  "deleteEntries pv arr del = mapKeys pv (fold (\<lambda>f m. m - {f}) del (fold insert arr {}))"

definition getAvailablePort :: "prof_env \<Rightarrow> string + int" where
  "getAvailablePort pv = Listen pv"

definition defaultServerFilters :: "string list" where
  "defaultServerFilters =
     [''/ip4/10.0.0.0/ipcidr/8'', ''/ip4/100.64.0.0/ipcidr/10'', ''/ip4/169.254.0.0/ipcidr/16'', ''/ip4/172.16.0.0/ipcidr/12'',
      ''/ip4/192.0.0.0/ipcidr/24'', ''/ip4/192.0.2.0/ipcidr/24'', ''/ip4/192.168.0.0/ipcidr/16'', ''/ip4/198.18.0.0/ipcidr/15'',
      ''/ip4/198.51.100.0/ipcidr/24'', ''/ip4/203.0.113.0/ipcidr/24'', ''/ip4/240.0.0.0/ipcidr/4'', ''/ip6/100::/ipcidr/64'',
      ''/ip6/2001:2::/ipcidr/48'', ''/ip6/2001:db8::/ipcidr/32'', ''/ip6/fc00::/ipcidr/7'', ''/ip6/fe80::/ipcidr/10'']"

definition addressesConfig :: Addresses where
  "addressesConfig =
     \<lparr>addr_Swarm = [''/ip4/0.0.0.0/tcp/4031'', ''/ip6/::/tcp/4031'', ''/ip4/0.0.0.0/udp/4031/quic'', ''/ip6/::/udp/4031/quic''],
      addr_Announce = [], addr_AppendAnnounce = [], addr_NoAnnounce = [], addr_API = [''/ip4/127.0.0.1/tcp/5031''],
      addr_Gateway = [''/ip4/127.0.0.1/tcp/8083'']\<rparr>"

definition badgerSpec :: "'n jmap" where
  "badgerSpec =
     [(''type'', JStr ''measure''), (''prefix'', JStr ''badger.datastore''),
      (''child'', JObj [(''type'', JStr ''badgerds''), (''path'', JStr ''badgerds''), (''syncWrites'', JBool False), (''truncate'', JBool True)])]"

definition flatfsSpec :: "'n jmap" where
  "flatfsSpec =
     [(''type'', JStr ''mount''),
      (''mounts'', JArr
        [JObj [(''mountpoint'', JStr ''/blocks''), (''type'', JStr ''measure''), (''prefix'', JStr ''flatfs.datastore''),
               (''child'', JObj [(''type'', JStr ''flatfs''), (''path'', JStr ''blocks''), (''sync'', JBool True),
                  (''shardFunc'', JStr ''/repo/flatfs/shard/v1/next-to-last/2'')])],
         JObj [(''mountpoint'', JStr ''/''), (''type'', JStr ''measure''), (''prefix'', JStr ''leveldb.datastore''),
               (''child'', JObj [(''type'', JStr ''levelds''), (''path'', JStr ''datastore''), (''compression'', JStr ''none'')])]])]"

text \<open>\<open>rest\<close> stands for the defaults of the fields that the model does not have.\<close>

definition InitWithIdentity :: "('i, 'm) peer_env \<Rightarrow> string \<Rightarrow> string \<times> string \<Rightarrow> boot_error + 'n Config" where
  "InitWithIdentity pe rest identity =
     (case DefaultBootstrapPeers pe of
        Inl err \<Rightarrow> Inl err
      | Inr bootstrapPeers \<Rightarrow>
     (case BootstrapPeerStrings pe bootstrapPeers of
        Inl err \<Rightarrow> Inl err
      | Inr boot \<Rightarrow>
          Inr \<lparr>ds_Type = [], ds_Path = [], ds_Spec = Some flatfsSpec, FilestoreEnabled = False, UrlstoreEnabled = False,
               Bootstrap = boot, Identity_PeerID = fst identity, Identity_PrivKey = snd identity, cfg_Addresses = addressesConfig,
               Swarm_AddrFilters = [], Swarm_DisableNatPortMap = False,
               Swarm_ConnMgr = \<lparr>cm_Type = None, cm_LowWater = None, cm_HighWater = None, cm_GracePeriod = None\<rparr>,
               MDNS_Enabled = True, Routing_Type = ''dht'', AutoNAT_ServiceMode = AutoNATServiceUnset, Reprovider_Interval = ''12h'',
               RemoteServices = [], other_fields = rest\<rparr>))"

definition profile_server :: "'n Config \<Rightarrow> 'n Config" where
  "profile_server c =
     c\<lparr>cfg_Addresses := (cfg_Addresses c)\<lparr>addr_NoAnnounce := appendSingle (addr_NoAnnounce (cfg_Addresses c)) defaultServerFilters\<rparr>,
       Swarm_AddrFilters := appendSingle (Swarm_AddrFilters c) defaultServerFilters,
       MDNS_Enabled := False, Swarm_DisableNatPortMap := True\<rparr>"

definition profile_local_discovery :: "prof_env \<Rightarrow> 'n Config \<Rightarrow> 'n Config" where
  "profile_local_discovery pv c =
     c\<lparr>cfg_Addresses := (cfg_Addresses c)\<lparr>addr_NoAnnounce := deleteEntries pv (addr_NoAnnounce (cfg_Addresses c)) defaultServerFilters\<rparr>,
       Swarm_AddrFilters := deleteEntries pv (Swarm_AddrFilters c) defaultServerFilters,
       MDNS_Enabled := True, Swarm_DisableNatPortMap := False\<rparr>"

definition profile_test :: "'n Config \<Rightarrow> 'n Config" where
  "profile_test c =
     c\<lparr>cfg_Addresses := (cfg_Addresses c)\<lparr>addr_API := [''/ip4/127.0.0.1/tcp/0''], addr_Gateway := [''/ip4/127.0.0.1/tcp/0''],
          addr_Swarm := [''/ip4/127.0.0.1/tcp/0'']\<rparr>,
       Swarm_DisableNatPortMap := True, Bootstrap := [], MDNS_Enabled := False\<rparr>"

definition profile_default_networking :: "('i, 'm) peer_env \<Rightarrow> 'n Config \<Rightarrow> prof_error + 'n Config" where
  "profile_default_networking pe c =
     (case DefaultBootstrapPeers pe of
        Inl err \<Rightarrow> Inl (BootstrapError err)
      | Inr bootstrapPeers \<Rightarrow>
     (case BootstrapPeerStrings pe bootstrapPeers of
        Inl err \<Rightarrow> Inl (BootstrapError err)
      | Inr ss \<Rightarrow>
          Inr (c\<lparr>cfg_Addresses := addressesConfig, Bootstrap := appendSingle (Bootstrap c) ss,
                 Swarm_DisableNatPortMap := False, MDNS_Enabled := True\<rparr>)))"

definition profile_lowpower :: "'n Config \<Rightarrow> 'n Config" where
  "profile_lowpower c =
     c\<lparr>Routing_Type := ''dhtclient'', AutoNAT_ServiceMode := AutoNATServiceDisabled, Reprovider_Interval := ''0'',
       Swarm_ConnMgr := \<lparr>cm_Type = Some ''basic'', cm_LowWater = Some 20, cm_HighWater = Some 40, cm_GracePeriod = Some (60 * 1000000000)\<rparr>\<rparr>"

definition profile_randomports :: "prof_env \<Rightarrow> 'n Config \<Rightarrow> prof_error + 'n Config" where
  "profile_randomports pv c =
     (case getAvailablePort pv of
        Inl err \<Rightarrow> Inl (ListenError err)
      | Inr port \<Rightarrow>
          Inr (c\<lparr>cfg_Addresses := (cfg_Addresses c)\<lparr>addr_Swarm := [''/ip4/0.0.0.0/tcp/'' @ show_int port, ''/ip6/::/tcp/'' @ show_int port]\<rparr>\<rparr>))"

text \<open>The table of profiles, with the flag \<^verbatim>\<open>InitOnly\<close>, which nothing reads.\<close>

definition Profiles :: "('i, 'm) peer_env \<Rightarrow> prof_env \<Rightarrow> (string \<times> bool \<times> ('n Config \<Rightarrow> prof_error + 'n Config)) list" where
  "Profiles pe pv =
     [(''server'', False, Inr \<circ> profile_server),
      (''local-discovery'', False, Inr \<circ> profile_local_discovery pv),
      (''test'', False, Inr \<circ> profile_test),
      (''default-networking'', False, profile_default_networking pe),
      (''default-datastore'', True, \<lambda>c. Inr (c\<lparr>ds_Spec := Some flatfsSpec\<rparr>)),
      (''flatfs'', True, \<lambda>c. Inr (c\<lparr>ds_Spec := Some flatfsSpec\<rparr>)),
      (''badgerds'', True, \<lambda>c. Inr (c\<lparr>ds_Spec := Some badgerSpec\<rparr>)),
      (''lowpower'', False, Inr \<circ> profile_lowpower),
      (''randomports'', False, profile_randomports pv)]"

section \<open>Secrets\<close>

definition PinningConcealSelector :: "string list" where
  "PinningConcealSelector = [''Pinning'', ''RemoteServices'', ''*'', ''API'', ''Key'']"

definition IdentitySelector :: "string list" where
  "IdentitySelector = [''Identity'', ''PrivKey'']"

fun glob_loop :: "string list \<Rightarrow> string list \<Rightarrow> bool" where
  "glob_loop (k # ks) (g # gs) = (if g = ''*'' then glob_loop ks gs else fold_eq k g \<and> glob_loop ks gs)"
| "glob_loop _ _ = True"

definition matchesGlobPrefix :: "string \<Rightarrow> string list \<Rightarrow> bool" where
  "matchesGlobPrefix key glob = glob_loop (split_on CHR ''.'' key) glob"

datatype cfg_error =
  PrivKeyBlocked | PinningBlocked | BadRoot string | RepoFail fsrepo_error | BadJSON string | GetFailed fsrepo_error
| SetFailed fsrepo_error | NotAProfile string | ProfileFailed prof_error | KeyMissing | DecodeConfig | PrivKeyGiven | NoPrivKey
| PrivKeyNotString | ServicesFailed string | ServicesChanged | ServiceAPIChanged | ArgumentCount | BadEndpoint | EndpointQuery
| EndpointPins | ServicePresent | ServiceUnknown | NoServiceName

text \<open>\<^verbatim>\<open>v == nil\<close> is \<open>None\<close>.\<close>

definition scrubValueInternal :: "'n jmap option \<Rightarrow> bool \<Rightarrow> cfg_error + 'n json option" where
  "scrubValueInternal v okIfMissing = (if v = None \<and> \<not> okIfMissing then Inl KeyMissing else Inr None)"

text \<open>
  The value that is not a map is not passed on: what \<^verbatim>\<open>scrubEither\<close> passes is the nil map of the failed type assertion, which as
  an interface value is not nil.  \<open>scrub\<close> is the recursive call.
\<close>

definition scrubEither :: "('n jmap \<Rightarrow> cfg_error + 'n jmap) \<Rightarrow> bool \<Rightarrow> 'n json \<Rightarrow> cfg_error + 'n json option" where
  "scrubEither scrub okIfMissing u =
     (case u of
        JObj m \<Rightarrow> (case scrub m of Inl err \<Rightarrow> Inl err | Inr n \<Rightarrow> Inr (Some (JObj n)))
      | _ \<Rightarrow> scrubValueInternal (Some []) okIfMissing)"

primrec scrub_entries :: "(string \<Rightarrow> bool) \<Rightarrow> ('n json \<Rightarrow> cfg_error + 'n json option) \<Rightarrow> 'n jmap \<Rightarrow> cfg_error + 'n jmap" where
  "scrub_entries hit f [] = Inr []"
| "scrub_entries hit f (kv # m) =
     (if hit (fst kv) then
        (case f (snd kv) of
           Inl err \<Rightarrow> Inl err
         | Inr u \<Rightarrow>
             (case scrub_entries hit f m of
                Inl err \<Rightarrow> Inl err
              | Inr n \<Rightarrow> Inr (case u of None \<Rightarrow> n | Some v \<Rightarrow> (fst kv, v) # n)))
      else (case scrub_entries hit f m of Inl err \<Rightarrow> Inl err | Inr n \<Rightarrow> Inr (kv # n)))"

primrec scrubMapInternal :: "string list \<Rightarrow> bool \<Rightarrow> 'n jmap \<Rightarrow> cfg_error + 'n jmap" where
  "scrubMapInternal [] okIfMissing m = Inr []"
| "scrubMapInternal (g # gs) okIfMissing m =
     scrub_entries (\<lambda>k. g = ''*'' \<or> fold_eq g k) (scrubEither (scrubMapInternal gs okIfMissing) okIfMissing) m"

definition scrubValue :: "'n jmap \<Rightarrow> string list \<Rightarrow> cfg_error + 'n jmap" where
  "scrubValue m key = scrubMapInternal key False m"

definition scrubOptionalValue :: "'n jmap \<Rightarrow> string list \<Rightarrow> cfg_error + 'n jmap" where
  "scrubOptionalValue m key = scrubMapInternal key True m"

section \<open>The configuration commands\<close>

text \<open>
  \<open>json_Unmarshal\<close> decodes a value given on the command line, \<open>Unmarshal_map\<close> the text of the configuration file, and
  \<open>to_services\<close> encodes a map and decodes it as a table of services.
\<close>

record 'n cfg_env =
  json_Unmarshal :: "string \<Rightarrow> string + 'n json"
  Unmarshal_map :: "string \<Rightarrow> string + 'n jmap"
  to_services :: "'n jmap \<Rightarrow> string + (string \<times> RemotePinningService) list"

definition getConfig :: "'n repo_env \<Rightarrow> 'n FSRepo \<Rightarrow> string \<Rightarrow> osys \<Rightarrow> cfg_error + string \<times> 'n json" where
  "getConfig e r key w = (case GetConfigKey e r key w of Inl err \<Rightarrow> Inl (GetFailed err) | Inr value \<Rightarrow> Inr (key, value))"

definition setConfig :: "'n repo_env \<Rightarrow> 'n FSRepo \<Rightarrow> string \<Rightarrow> 'n json \<Rightarrow> osys \<Rightarrow> (cfg_error + string \<times> 'n json) \<times> 'n FSRepo \<times> osys" where
  "setConfig e r key value w =
     (case SetConfigKey e r key value w of
        (Some err, r, w) \<Rightarrow> (Inl (SetFailed err), r, w)
      | (None, r, w) \<Rightarrow> (getConfig e r key w, r, w))"

text \<open>What \<^verbatim>\<open>ipfs config\<close> does on the open repository.\<close>

definition config_body ::
    "'n cfg_env \<Rightarrow> 'n repo_env \<Rightarrow> string \<Rightarrow> string option \<Rightarrow> bool \<Rightarrow> bool \<Rightarrow> 'n FSRepo \<Rightarrow> osys
     \<Rightarrow> (cfg_error + string \<times> 'n json) \<times> 'n FSRepo \<times> osys" where
  "config_body ce e key value parseJSON isbool r w =
     (case value of
        Some v \<Rightarrow>
          if parseJSON then
            (case json_Unmarshal ce v of
               Inl err \<Rightarrow> (Inl (BadJSON err), r, w)
             | Inr jsonVal \<Rightarrow> setConfig e r key jsonVal w)
          else if isbool then setConfig e r key (JBool (v = ''true'')) w
          else setConfig e r key (JStr v) w
      | None \<Rightarrow> (getConfig e r key w, r, w))"

text \<open>The keys that are refused.\<close>

definition refused :: "string \<Rightarrow> cfg_error option" where
  "refused key =
     (if map lower_char key = ''identity'' \<or> map lower_char key = ''identity.privkey'' then Some PrivKeyBlocked
      else if matchesGlobPrefix key PinningConcealSelector then Some PinningBlocked
      else None)"

definition ConfigCmd ::
    "'n cfg_env \<Rightarrow> 'n repo_env \<Rightarrow> string + path \<Rightarrow> string \<Rightarrow> string option \<Rightarrow> bool \<Rightarrow> bool \<Rightarrow> 'n repos
     \<Rightarrow> (cfg_error + string \<times> 'n json) \<times> 'n repos" where
  "ConfigCmd ce e cfgRoot key value parseJSON isbool s =
     (case refused key of
        Some err \<Rightarrow> (Inl err, s)
      | None \<Rightarrow> on_repo e BadRoot RepoFail cfgRoot (config_body ce e key value parseJSON isbool) s)"

text \<open>\<^verbatim>\<open>ipfs config show\<close> reads the file, not the repository.\<close>

definition configShowCmd :: "'n cfg_env \<Rightarrow> 'n repo_env \<Rightarrow> string + path \<Rightarrow> path \<Rightarrow> osys \<Rightarrow> cfg_error + 'n jmap" where
  "configShowCmd ce e cfgRoot configFileOpt w =
     (case cfgRoot of
        Inl err \<Rightarrow> Inl (BadRoot err)
      | Inr root \<Rightarrow>
     (case Filename e root configFileOpt of
        Inl err \<Rightarrow> Inl (RepoFail err)
      | Inr fname \<Rightarrow>
     (case os_ReadFile e fname w of
        Inl err \<Rightarrow> Inl (RepoFail err)
      | Inr data \<Rightarrow>
     (case Unmarshal_map ce data of
        Inl err \<Rightarrow> Inl (BadJSON err)
      | Inr cfg \<Rightarrow>
     (case scrubValue cfg IdentitySelector of
        Inl err \<Rightarrow> Inl err
      | Inr cfg \<Rightarrow> scrubOptionalValue cfg PinningConcealSelector)))))"

definition getRemotePinningServices ::
    "'n cfg_env \<Rightarrow> 'n repo_env \<Rightarrow> 'n FSRepo \<Rightarrow> osys \<Rightarrow> string + (string \<times> RemotePinningService) list" where
  "getRemotePinningServices ce e r w =
     (case getConfig e r ''Pinning.RemoteServices'' w of
        Inr (_, JObj val) \<Rightarrow> to_services ce val
      | _ \<Rightarrow> Inr [])"

text \<open>The loop over the old services; the new table is updated on the way.\<close>

fun keep_apis ::
    "(string \<times> RemotePinningService) list \<Rightarrow> (string \<times> RemotePinningService) list \<Rightarrow> cfg_error + (string \<times> RemotePinningService) list" where
  "keep_apis [] new = Inr new"
| "keep_apis ((name, oldSvc) # old) new =
     (case map_of new name of
        None \<Rightarrow> Inl ServicesChanged
      | Some newSvc \<Rightarrow>
          if api_Key newSvc \<noteq> [] \<or> (api_Endpoint newSvc \<noteq> [] \<and> api_Endpoint newSvc \<noteq> api_Endpoint oldSvc)
          then Inl ServiceAPIChanged
          else keep_apis old (AList.update name (newSvc\<lparr>api_Endpoint := api_Endpoint oldSvc, api_Key := api_Key oldSvc\<rparr>) new))"

definition replaceConfig :: "'n cfg_env \<Rightarrow> 'n repo_env \<Rightarrow> string \<Rightarrow> 'n FSRepo \<Rightarrow> osys \<Rightarrow> (cfg_error + unit) \<times> 'n FSRepo \<times> osys" where
  "replaceConfig ce e file r w =
     (case dec_conf e file of
        Inl _ \<Rightarrow> (Inl DecodeConfig, r, w)
      | Inr newCfg \<Rightarrow>
     if Identity_PrivKey newCfg \<noteq> [] then (Inl PrivKeyGiven, r, w)
     else
     (case getConfig e r PrivKeySelector w of
        Inl _ \<Rightarrow> (Inl NoPrivKey, r, w)
      | Inr (_, JStr pkstr) \<Rightarrow>
          (let newCfg = newCfg\<lparr>Identity_PrivKey := pkstr\<rparr>; newServices = RemoteServices newCfg in
           case getRemotePinningServices ce e r w of
             Inl err \<Rightarrow> (Inl (ServicesFailed err), r, w)
           | Inr oldServices \<Rightarrow>
               if length newServices \<noteq> length oldServices then (Inl ServicesChanged, r, w)
               else
                 (case keep_apis oldServices newServices of
                    Inl err \<Rightarrow> (Inl err, r, w)
                  | Inr services \<Rightarrow>
                      (case SetConfig e r (newCfg\<lparr>RemoteServices := services\<rparr>) w of
                         (Some err, r, w) \<Rightarrow> (Inl (RepoFail err), r, w)
                       | (None, r, w) \<Rightarrow> (Inr (), r, w))))
      | Inr _ \<Rightarrow> (Inl PrivKeyNotString, r, w)))"

definition configReplaceCmd ::
    "'n cfg_env \<Rightarrow> 'n repo_env \<Rightarrow> string + path \<Rightarrow> string + string \<Rightarrow> 'n repos \<Rightarrow> (cfg_error + unit) \<times> 'n repos" where
  "configReplaceCmd ce e cfgRoot file s =
     on_repo e BadRoot RepoFail cfgRoot
       (\<lambda>r w. case file of Inl err \<Rightarrow> (Inl (BadJSON err), r, w) | Inr f \<Rightarrow> replaceConfig ce e f r w) s"

section \<open>Applying a profile\<close>

definition Clone :: "'n repo_env \<Rightarrow> 'n Config \<Rightarrow> fsrepo_error + 'n Config" where
  "Clone e c =
     (case enc_conf e c of
        Inl err \<Rightarrow> Inl (EncodeFailed err)
      | Inr buf \<Rightarrow> (case dec_conf e buf of Inl err \<Rightarrow> Inl (DecodeFailed err) | Inr newConfig \<Rightarrow> Inr newConfig))"

definition transform_body ::
    "'n repo_env \<Rightarrow> string \<Rightarrow> ('n Config \<Rightarrow> prof_error + 'n Config) \<Rightarrow> bool \<Rightarrow> 'n FSRepo \<Rightarrow> osys
     \<Rightarrow> (cfg_error + 'n Config \<times> 'n Config) \<times> 'n FSRepo \<times> osys" where
  "transform_body e configName transformer dryRun r w =
     (case FSRepo_Config r of
        Inl err \<Rightarrow> (Inl (RepoFail err), r, w)
      | Inr oldCfg \<Rightarrow>
     (case Clone e oldCfg of
        Inl err \<Rightarrow> (Inl (RepoFail err), r, w)
      | Inr newCfg \<Rightarrow>
     (case transformer newCfg of
        Inl err \<Rightarrow> (Inl (ProfileFailed err), r, w)
      | Inr newCfg \<Rightarrow>
     if dryRun then (Inr (oldCfg, newCfg), r, w)
     else
     (case BackupConfig e r (''pre-'' @ configName @ ''-'') w of
        (Inl err, w) \<Rightarrow> (Inl (RepoFail err), r, w)
      | (Inr _, w) \<Rightarrow>
     (case SetConfig e r newCfg w of
        (Some err, r, w) \<Rightarrow> (Inl (RepoFail err), r, w)
      | (None, r, w) \<Rightarrow> (Inr (oldCfg, newCfg), r, w))))))"

definition transformConfig ::
    "'n repo_env \<Rightarrow> string + path \<Rightarrow> string \<Rightarrow> ('n Config \<Rightarrow> prof_error + 'n Config) \<Rightarrow> bool \<Rightarrow> 'n repos
     \<Rightarrow> (cfg_error + 'n Config \<times> 'n Config) \<times> 'n repos" where
  "transformConfig e cfgRoot configName transformer dryRun s =
     on_repo e BadRoot RepoFail cfgRoot (transform_body e configName transformer dryRun) s"

definition scrubPrivKey :: "'n repo_env \<Rightarrow> 'n Config \<Rightarrow> cfg_error + 'n jmap" where
  "scrubPrivKey e cfg = (case ToMap e cfg of Inl err \<Rightarrow> Inl (RepoFail err) | Inr m \<Rightarrow> scrubValue m IdentitySelector)"

definition configProfileApplyCmd ::
    "('i, 'm) peer_env \<Rightarrow> prof_env \<Rightarrow> 'n repo_env \<Rightarrow> string + path \<Rightarrow> string \<Rightarrow> bool \<Rightarrow> 'n repos
     \<Rightarrow> (cfg_error + 'n jmap \<times> 'n jmap) \<times> 'n repos" where
  "configProfileApplyCmd pe pv e cfgRoot name dryRun s =
     (case map_of (Profiles pe pv) name of
        None \<Rightarrow> (Inl (NotAProfile name), s)
      | Some (_, transform) \<Rightarrow>
          (case transformConfig e cfgRoot name transform dryRun s of
             (Inl err, s) \<Rightarrow> (Inl err, s)
           | (Inr (oldCfg, newCfg), s) \<Rightarrow>
               (case scrubPrivKey e oldCfg of
                  Inl err \<Rightarrow> (Inl err, s)
                | Inr oldCfgMap \<Rightarrow>
                    (case scrubPrivKey e newCfg of
                       Inl err \<Rightarrow> (Inl err, s)
                     | Inr newCfgMap \<Rightarrow> (Inr (oldCfgMap, newCfgMap), s)))))"

section \<open>Remote pinning services\<close>

text \<open>A parsed URL, as far as the code looks into it.\<close>

record url =
  url_Scheme :: string
  url_Path :: string
  url_RawQuery :: string
  url_rest :: string

record url_env =
  ParseRequestURI :: "string \<Rightarrow> url option"
  url_String :: "url \<Rightarrow> string"

definition normalizeEndpoint :: "url_env \<Rightarrow> string \<Rightarrow> cfg_error + string" where
  "normalizeEndpoint ue endpoint =
     (case ParseRequestURI ue endpoint of
        None \<Rightarrow> Inl BadEndpoint
      | Some uri \<Rightarrow>
          if \<not> (url_Scheme uri = ''http'' \<or> url_Scheme uri = ''https'') then Inl BadEndpoint
          else
            (let p = trim_suffix (trim_suffix (GoPath.Clean (url_Path uri)) ''.'') ''/'';
                 uri = uri\<lparr>url_Path := p\<rparr>
             in if url_RawQuery uri \<noteq> [] then Inl EndpointQuery
                else if has_suffix p ''/pins'' then Inl EndpointPins
                else Inr (url_String ue uri)))"

text \<open>The configuration is the one the repository holds, and is changed in place before it is stored.\<close>

definition service_add_body ::
    "url_env \<Rightarrow> 'n repo_env \<Rightarrow> string list \<Rightarrow> 'n FSRepo \<Rightarrow> osys \<Rightarrow> (cfg_error + unit) \<times> 'n FSRepo \<times> osys" where
  "service_add_body ue e args r w =
     (case args of
        name # ep # key # _ \<Rightarrow>
          (case normalizeEndpoint ue ep of
             Inl err \<Rightarrow> (Inl err, r, w)
           | Inr endpoint \<Rightarrow>
          (case FSRepo_Config r of
             Inl err \<Rightarrow> (Inl (RepoFail err), r, w)
           | Inr cfg \<Rightarrow>
               if map_of (RemoteServices cfg) name \<noteq> None then (Inl ServicePresent, r, w)
               else
                 (let svc = \<lparr>api_Endpoint = endpoint, api_Key = key, mfs_Enable = False, mfs_PinName = [], mfs_RepinInterval = []\<rparr>;
                      cfg = cfg\<lparr>RemoteServices := AList.update name svc (RemoteServices cfg)\<rparr>
                  in case SetConfig e (r\<lparr>fr_config := cfg\<rparr>) cfg w of
                       (Some err, r, w) \<Rightarrow> (Inl (RepoFail err), r, w)
                     | (None, r, w) \<Rightarrow> (Inr (), r, w))))
      | _ \<Rightarrow> (Inl ArgumentCount, r, w))"

definition addRemotePinServiceCmd ::
    "url_env \<Rightarrow> 'n repo_env \<Rightarrow> string + path \<Rightarrow> string list \<Rightarrow> 'n repos \<Rightarrow> (cfg_error + unit) \<times> 'n repos" where
  "addRemotePinServiceCmd ue e cfgRoot args s = on_repo e BadRoot RepoFail cfgRoot (service_add_body ue e args) s"

definition service_rm_body :: "'n repo_env \<Rightarrow> string list \<Rightarrow> 'n FSRepo \<Rightarrow> osys \<Rightarrow> (cfg_error + unit) \<times> 'n FSRepo \<times> osys" where
  "service_rm_body e args r w =
     (case args of
        [name] \<Rightarrow>
          (case FSRepo_Config r of
             Inl err \<Rightarrow> (Inl (RepoFail err), r, w)
           | Inr cfg \<Rightarrow>
               (let cfg = cfg\<lparr>RemoteServices := AList.delete name (RemoteServices cfg)\<rparr>
                in case SetConfig e (r\<lparr>fr_config := cfg\<rparr>) cfg w of
                     (Some err, r, w) \<Rightarrow> (Inl (RepoFail err), r, w)
                   | (None, r, w) \<Rightarrow> (Inr (), r, w)))
      | _ \<Rightarrow> (Inl ArgumentCount, r, w))"

definition rmRemotePinServiceCmd ::
    "'n repo_env \<Rightarrow> string + path \<Rightarrow> string list \<Rightarrow> 'n repos \<Rightarrow> (cfg_error + unit) \<times> 'n repos" where
  "rmRemotePinServiceCmd e cfgRoot args s = on_repo e BadRoot RepoFail cfgRoot (service_rm_body e args) s"

definition service_info_body :: "url_env \<Rightarrow> string \<Rightarrow> 'n FSRepo \<Rightarrow> osys \<Rightarrow> (cfg_error + string \<times> string) \<times> 'n FSRepo \<times> osys" where
  "service_info_body ue name r w =
     (case FSRepo_Config r of
        Inl err \<Rightarrow> (Inl (RepoFail err), r, w)
      | Inr cfg \<Rightarrow>
          (case map_of (RemoteServices cfg) name of
             None \<Rightarrow> (Inl ServiceUnknown, r, w)
           | Some service \<Rightarrow>
               (case normalizeEndpoint ue (api_Endpoint service) of
                  Inl err \<Rightarrow> (Inl err, r, w)
                | Inr endpoint \<Rightarrow> (Inr (endpoint, api_Key service), r, w))))"

definition getRemotePinServiceInfo ::
    "url_env \<Rightarrow> 'n repo_env \<Rightarrow> string + path \<Rightarrow> string \<Rightarrow> 'n repos \<Rightarrow> (cfg_error + string \<times> string) \<times> 'n repos" where
  "getRemotePinServiceInfo ue e cfgRoot name s = on_repo e BadRoot RepoFail cfgRoot (service_info_body ue name) s"

text \<open>The client is its endpoint and key.\<close>

definition getRemotePinService ::
    "url_env \<Rightarrow> 'n repo_env \<Rightarrow> string + path \<Rightarrow> string \<Rightarrow> 'n repos \<Rightarrow> (cfg_error + string \<times> string) \<times> 'n repos" where
  "getRemotePinService ue e cfgRoot name s =
     (if name = [] then (Inl NoServiceName, s) else getRemotePinServiceInfo ue e cfgRoot name s)"

definition getRemotePinServiceFromRequest ::
    "url_env \<Rightarrow> 'n repo_env \<Rightarrow> string + path \<Rightarrow> string option \<Rightarrow> 'n repos \<Rightarrow> (cfg_error + string \<times> string) \<times> 'n repos" where
  "getRemotePinServiceFromRequest ue e cfgRoot service s =
     (case service of None \<Rightarrow> (Inl NoServiceName, s) | Some name \<Rightarrow> getRemotePinService ue e cfgRoot name s)"

end
