(* ===== verification/ConfigProps.thy ===== *)
theory ConfigProps
  imports ConfigCmd
begin

text \<open>
  What the configuration commands promise: the private key and the credentials of the pinning services are neither shown nor
  changed, a profile changes what it says, and every command gives the repository back.
\<close>

section \<open>Scrubbing\<close>

abbreviation hit :: "string \<Rightarrow> string \<Rightarrow> bool" where
  "hit g k \<equiv> g = ''*'' \<or> fold_eq g k"

definition scrub_val :: "('n jmap \<Rightarrow> 'n jmap) \<Rightarrow> 'n json \<Rightarrow> 'n json option" where
  "scrub_val f u = (case u of JObj m \<Rightarrow> Some (JObj (f m)) | _ \<Rightarrow> None)"

text \<open>A map with its values mapped or dropped.\<close>

primrec map_vals :: "(string \<Rightarrow> 'n json \<Rightarrow> 'n json option) \<Rightarrow> 'n jmap \<Rightarrow> 'n jmap" where
  "map_vals h [] = []"
| "map_vals h (kv # m) = (case h (fst kv) (snd kv) of None \<Rightarrow> map_vals h m | Some u \<Rightarrow> (fst kv, u) # map_vals h m)"

lemma map_vals_set: "kv \<in> set (map_vals h m) \<Longrightarrow> \<exists>v. (fst kv, v) \<in> set m \<and> h (fst kv) v = Some (snd kv)"
  by (induction m) (auto split: option.splits)

lemma map_vals_distinct: "distinct (map fst m) \<Longrightarrow> distinct (map fst (map_vals h m))"
proof (induction m)
  case (Cons kv m)
  have "fst kv \<notin> fst ` set (map_vals h m)"
  proof
    assume "fst kv \<in> fst ` set (map_vals h m)"
    then obtain kv' where "kv' \<in> set (map_vals h m)" "fst kv' = fst kv" by (metis imageE)
    then have "fst kv \<in> fst ` set m" using map_vals_set[of kv' h m] by (metis fst_conv image_eqI)
    then show False using Cons.prems by simp
  qed
  with Cons show ?case by (simp split: option.splits)
qed simp

lemma map_of_map_vals: "distinct (map fst m) \<Longrightarrow> map_of (map_vals h m) k = Option.bind (map_of m k) (h k)"
proof (induction m)
  case (Cons kv m)
  have "map_of m (fst kv) = None" using Cons.prems by (simp add: map_of_eq_None_iff)
  with Cons show ?case by (cases kv) (auto split: option.splits)
qed simp

text \<open>The map without what the selector selects.\<close>

primrec scrubbed :: "string list \<Rightarrow> 'n jmap \<Rightarrow> 'n jmap" where
  "scrubbed [] m = []"
| "scrubbed (g # gs) m = map_vals (\<lambda>k v. if hit g k then scrub_val (scrubbed gs) v else Some v) m"

lemma scrub_entries_eq:
  assumes "\<forall>v. f v = Inr (h v)"
  shows "scrub_entries P f m = Inr (map_vals (\<lambda>k v. if P k then h v else Some v) m)"
  using assms by (induction m) auto

text \<open>Scrubbing never fails, whether a missing value is allowed or not.\<close>

lemma scrub_total: "scrubMapInternal sel ok m = Inr (scrubbed sel m)"
proof (induction sel arbitrary: m)
  case (Cons g gs)
  have "scrubMapInternal gs ok m = Inr (scrubbed gs m)" for m :: "'a jmap" by (rule Cons)
  then have "\<forall>v :: 'a json. scrubEither (scrubMapInternal gs ok) ok v = Inr (scrub_val (scrubbed gs) v)"
    by (auto simp: scrubEither_def scrubValueInternal_def scrub_val_def split: json.splits)
  then show ?case by (simp add: scrub_entries_eq)
qed simp

lemma scrubbed_map_of:
  "distinct (map fst m) \<Longrightarrow>
    map_of (scrubbed (g # gs) m) k = (if hit g k then Option.bind (map_of m k) (scrub_val (scrubbed gs)) else map_of m k)"
  by (cases "map_of m k") (auto simp: map_of_map_vals)

lemma wf_member: "wf_json (JObj m) \<Longrightarrow> map_of m p = Some (JObj c) \<Longrightarrow> wf_json (JObj c)"
  using map_of_SomeD[of m p "JObj c"] by fastforce

lemma scrubbed_wf: "wf_json (JObj m) \<Longrightarrow> wf_json (JObj (scrubbed sel m))"
proof (induction sel arbitrary: m)
  case (Cons g gs)
  have "wf_json (snd kv)" if "kv \<in> set (scrubbed (g # gs) m)" for kv
  proof -
    from that obtain v where v: "(fst kv, v) \<in> set m" "(if hit g (fst kv) then scrub_val (scrubbed gs) v else Some v) = Some (snd kv)"
      unfolding scrubbed.simps by (blast dest: map_vals_set)
    then have "wf_json v" using Cons.prems by force
    then show ?thesis
    proof (cases "hit g (fst kv)")
      case True
      then obtain m' where "v = JObj m'" "snd kv = JObj (scrubbed gs m')" using v(2) by (auto simp: scrub_val_def split: json.splits)
      with Cons.IH \<open>wf_json v\<close> show ?thesis by metis
    qed (use v(2) in auto)
  qed
  then show ?case using Cons.prems map_vals_distinct[of m] by simp
qed simp

text \<open>A path that the selector selects leads to nothing or to an empty map; a path it does not touch is as before.\<close>

lemma scrubbed_hidden:
  "wf_json (JObj m) \<Longrightarrow> list_all2 hit sel ps \<Longrightarrow> sel \<noteq> [] \<Longrightarrow> at (ps @ qs) (JObj (scrubbed sel m)) \<in> {None, Some (JObj [])}"
proof (induction sel arbitrary: m ps)
  case (Cons g gs)
  then obtain p ps' where p: "ps = p # ps'" "hit g p" "list_all2 hit gs ps'" by (auto simp: list_all2_Cons1)
  have d: "distinct (map fst m)" using Cons.prems(1) by simp
  show ?case
  proof (cases "map_of m p")
    case (Some c)
    show ?thesis
    proof (cases c)
      case (JObj m')
      have wf: "wf_json (JObj m')" using wf_member[OF Cons.prems(1), of p m'] Some JObj by blast
      have "at (ps' @ qs) (JObj (scrubbed gs m')) \<in> {None, Some (JObj [])}"
      proof (cases "gs = []")
        case True
        then show ?thesis using p(3) by (cases qs) auto
      qed (use Cons.IH[OF wf p(3)] in blast)
      then show ?thesis using p Some JObj by (simp add: scrubbed_map_of[OF d] scrub_val_def del: scrubbed.simps)
    qed (use p Some in \<open>simp_all add: scrubbed_map_of[OF d] scrub_val_def del: scrubbed.simps\<close>)
  qed (use p in \<open>simp add: scrubbed_map_of[OF d] del: scrubbed.simps\<close>)
qed simp

lemma scrubbed_kept: "wf_json (JObj m) \<Longrightarrow> \<not> glob_loop ps sel \<Longrightarrow> at ps (JObj (scrubbed sel m)) = at ps (JObj m)"
proof (induction sel arbitrary: m ps)
  case (Cons g gs)
  then obtain p ps' where p: "ps = p # ps'" by (cases ps) auto
  have d: "distinct (map fst m)" using Cons.prems(1) by simp
  have sym: "fold_eq p g \<longleftrightarrow> fold_eq g p" by (auto simp: fold_eq_def)
  show ?case
  proof (cases "hit g p")
    case True
    then have np: "\<not> glob_loop ps' gs" using Cons.prems(2) p sym by (auto split: if_splits)
    then have ne: "ps' \<noteq> []" by (cases gs) auto
    show ?thesis
    proof (cases "map_of m p")
      case (Some c)
      show ?thesis
      proof (cases c)
        case (JObj m')
        have "wf_json (JObj m')" using wf_member[OF Cons.prems(1), of p m'] Some JObj by blast
        from Cons.IH[OF this np] show ?thesis using True p Some JObj
          by (simp add: scrubbed_map_of[OF d] scrub_val_def del: scrubbed.simps)
      qed (use True p Some ne in \<open>simp_all add: scrubbed_map_of[OF d] scrub_val_def at_not_map is_map_def del: scrubbed.simps\<close>)
    qed (use True p in \<open>simp add: scrubbed_map_of[OF d] del: scrubbed.simps\<close>)
  qed (use p in \<open>simp add: scrubbed_map_of[OF d] del: scrubbed.simps\<close>)
qed (cases ps; simp)

section \<open>Showing the configuration\<close>

text \<open>\<^verbatim>\<open>json.Unmarshal\<close> into a map or a value gives maps with distinct keys.\<close>

definition unmarshal_ok :: "'n cfg_env \<Rightarrow> bool" where
  "unmarshal_ok ce \<longleftrightarrow> (\<forall>t m. Unmarshal_map ce t = Inr m \<longrightarrow> wf_json (JObj m)) \<and> (\<forall>t j. json_Unmarshal ce t = Inr j \<longrightarrow> wf_json j)"

text \<open>The paths of the secrets, whatever the case of their letters.\<close>

definition secret :: "string list \<Rightarrow> bool" where
  "secret ps \<longleftrightarrow> list_all2 hit IdentitySelector ps \<or> list_all2 hit PinningConcealSelector ps"

lemma selectors_ne [simp]: "IdentitySelector \<noteq> []" "PinningConcealSelector \<noteq> []"
  by (simp_all add: IdentitySelector_def PinningConcealSelector_def)

lemma configShow_eq:
  assumes "configShowCmd ce e cfgRoot opt w = Inr out"
  obtains root fname data m where "cfgRoot = Inr root" "Filename e root opt = Inr fname" "os_ReadFile e fname w = Inr data"
    "Unmarshal_map ce data = Inr m" "out = scrubbed PinningConcealSelector (scrubbed IdentitySelector m)"
  using assms unfolding configShowCmd_def by (auto simp: scrubValue_def scrubOptionalValue_def scrub_total split: sum.splits)

lemma glob_of_match: "list_all2 hit sel ps \<Longrightarrow> glob_loop (ps @ qs) sel"
proof (induction sel arbitrary: ps)
  case (Cons g gs)
  then obtain p ps' where "ps = p # ps'" "hit g p" "list_all2 hit gs ps'" by (auto simp: list_all2_Cons1)
  with Cons.IH show ?case by (auto simp: fold_eq_def)
qed simp

lemma first_apart:
  "glob_loop (p # ps) IdentitySelector \<Longrightarrow> glob_loop (p # ps) PinningConcealSelector \<Longrightarrow> False"
  by (auto simp: IdentitySelector_def PinningConcealSelector_def fold_eq_def lower_char_def)


section \<open>Reading and writing single keys\<close>

lemma glob_prefix: "prefix ps qs \<Longrightarrow> glob_loop qs sel \<Longrightarrow> glob_loop ps sel"
proof (induction ps arbitrary: qs sel)
  case (Cons p ps)
  from Cons.prems(1) obtain qs' where "qs = p # qs'" "prefix ps qs'" by (cases qs) auto
  with Cons show ?case by (cases sel) (auto split: if_splits)
qed simp

lemma apart_of_refused:
  assumes "refused key = None" and "list_all2 hit PinningConcealSelector ps"
  shows "\<not> prefix (split_on CHR ''.'' key) ps" and "\<not> prefix ps (split_on CHR ''.'' key)"
    and "\<not> prefix IdentitySelector ps" and "\<not> prefix ps IdentitySelector"
proof -
  have key: "\<not> glob_loop (split_on CHR ''.'' key) PinningConcealSelector"
    using assms(1) by (simp add: refused_def matchesGlobPrefix_def split: if_splits)
  have g: "glob_loop (ps @ qs) PinningConcealSelector" for qs using glob_of_match[OF assms(2)] .
  show "\<not> prefix (split_on CHR ''.'' key) ps" using key glob_prefix g[of "[]"] by auto
  show "\<not> prefix ps (split_on CHR ''.'' key)" using key g by (auto simp: prefix_def)
  obtain p ps' where "ps = p # ps'" "hit ''Pinning'' p" using assms(2) by (auto simp: PinningConcealSelector_def list_all2_Cons1)
  then show "\<not> prefix IdentitySelector ps" "\<not> prefix ps IdentitySelector"
    by (auto simp: IdentitySelector_def fold_eq_def lower_char_def)
qed

lemma setConfig_eq: "setConfig e r key v w = (res, r', w') \<Longrightarrow>
  \<exists>err. SetConfigKey e r key v w = (err, r', w') \<and>
    (case err of None \<Rightarrow> res = getConfig e r' key w' | Some x \<Rightarrow> res = Inl (SetFailed x))"
  by (auto simp: setConfig_def split: prod.splits option.splits)

text \<open>What \<^verbatim>\<open>SetConfigKey\<close> keeps of the file.\<close>

lemma SetConfigKey_secrets:
  assumes "codec_ok e" and "commit_ok e" and "fault e IoWrite (configFilePath r) = None" and "wf_json val" and "refused key = None"
    and "SetConfigKey e r key val w = (err, r', w')" and "\<forall>x. err \<noteq> Some (EncodeFailed x)" and "stored e r w = Inr m"
  shows "\<exists>m'. stored e r' w' = Inr m' \<and> (\<forall>ps. list_all2 hit PinningConcealSelector ps \<longrightarrow> at ps (JObj m') = at ps (JObj m))"
  using assms(6)
proof (cases rule: SetConfigKey_cases)
  case (written m0 pk j1 j2 conf)
  have m0: "m0 = m" using written(2) assms(8) by simp
  note wf = stored_wf[OF assms(1) written(2)]
  note j2 = SetConfigKey_wf[OF conjunct1[OF wf] assms(4) written(3-5)]
  have st: "stored e r' w' \<in> {Inr m, Inr (obj_of (norm j2))}"
    using WriteConfigFile_map(1)[OF assms(1-3) j2(1) written(2,7) assms(7)] j2(2) written(8) m0 by simp
  have "at ps (norm j2) = at ps (JObj m)" if "list_all2 hit PinningConcealSelector ps" for ps
  proof -
    have "at ps j2 = at ps (JObj m)"
      using set_then_privkey(3)[OF written(3-5) apart_of_refused[OF assms(5) that, unfolded IdentitySelector_def]] m0 by simp
    then have "at ps (norm j2) = map_option norm (at ps (JObj m))" using at_norm[of j2 ps] j2 by simp
    also have "\<dots> = at ps (norm (JObj m))" using at_norm[of "JObj m" ps] wf m0 by (simp del: norm.simps)
    finally show ?thesis using wf m0 by (simp del: norm.simps)
  qed
  note new = this
  have j: "JObj (obj_of (norm j2)) = norm j2" using j2(2) obj_of_norm by metis
  consider "stored e r' w' = Inr m" | "stored e r' w' = Inr (obj_of (norm j2))" using st by blast
  then show ?thesis
  proof cases
    case 2
    have "\<forall>ps. list_all2 hit PinningConcealSelector ps \<longrightarrow> at ps (JObj (obj_of (norm j2))) = at ps (JObj m)"
      unfolding j using new by blast
    with 2 show ?thesis by blast
  qed blast
qed (use assms(8) in blast)

lemma config_body_cases:
  assumes "unmarshal_ok ce" and "config_body ce e key newval parseJSON isbool r w = (res, r', w')"
  shows "(res = getConfig e r' key w' \<and> r' = r \<and> w' = w) \<or> (\<exists>err. res = Inl err \<and> r' = r \<and> w' = w) \<or>
    (\<exists>val. wf_json val \<and> setConfig e r key val w = (res, r', w'))"
proof -
  have "wf_json (JStr s)" "wf_json (JBool b)" for s b by simp_all
  then show ?thesis using assms unfolding config_body_def unmarshal_ok_def
    by (auto split: option.splits if_splits sum.splits)
qed

text \<open>A key that is not refused has no secret below it.\<close>

lemma refused_secret:
  assumes "refused key = None"
  shows "\<not> secret (split_on CHR ''.'' key @ qs)"
proof
  let ?ps = "split_on CHR ''.'' key"
  assume "secret (?ps @ qs)"
  then consider "list_all2 hit IdentitySelector (?ps @ qs)" | "list_all2 hit PinningConcealSelector (?ps @ qs)" by (auto simp: secret_def)
  then show False
  proof cases
    case 1
    have key: "key = join_with ''.'' ?ps" using join_split_on[of "CHR ''.''" key] by simp
    have no: "map lower_char key \<noteq> ''identity''" "map lower_char key \<noteq> ''identity.privkey''"
      using assms by (auto simp: refused_def split: if_splits)
    obtain a b where ab: "?ps @ qs = [a, b]" "fold_eq ''Identity'' a" "fold_eq ''PrivKey'' b"
      using 1 by (auto simp: IdentitySelector_def list_all2_Cons1)
    moreover have "map lower_char ''Identity'' = ''identity''" "map lower_char ''PrivKey'' = ''privkey''" by code_simp+
    ultimately have low: "map lower_char a = ''identity''" "map lower_char b = ''privkey''" by (simp_all only: fold_eq_def)
    have "?ps \<noteq> []" by simp
    with ab(1) consider "?ps = [a]" | "?ps = [a, b]" by (cases ?ps) (auto simp: append_eq_Cons_conv)
    then show False
    proof cases
      case 1
      then show False using key low no(1) by simp
    next
      case 2
      then have "key = a @ ''.'' @ b" using key by simp
      moreover have "lower_char CHR ''.'' = CHR ''.''" by code_simp
      ultimately show False using low no(2) by simp
    qed
  next
    case 2
    from apart_of_refused(1)[OF assms 2] show False by simp
  qed
qed

text \<open>C16. \<^verbatim>\<open>ipfs config\<close> with a key it does not refuse neither shows nor changes a secret.  Whether it reads or writes, succeeds or
  fails (unless writing the file fails half-way), the file afterwards has the private key and every key of a pinning
  service, in whatever case they are written, as before; and the value it shows is the one in the file at the given key,
  where no secret lies at that key or anywhere below it.\<close>

theorem config_keeps_secrets:
  assumes "codec_ok e" and "commit_ok e" and "unmarshal_ok ce" and "fault e IoWrite (configFilePath r) = None"
    and "refused key = None" and "stored e r w = Inr m" and "\<not> fr_closed r"
    and "config_body ce e key newval parseJSON isbool r w = (res, r', w')" and "\<forall>x. res \<noteq> Inl (SetFailed (EncodeFailed x))"
  shows "\<exists>m'. stored e r' w' = Inr m' \<and> GetConfigKey e r' PrivKeySelector w' = GetConfigKey e r PrivKeySelector w \<and>
    (\<forall>ps. list_all2 hit PinningConcealSelector ps \<longrightarrow> at ps (JObj m') = at ps (JObj m)) \<and>
    (\<forall>k v. res = Inr (k, v) \<longrightarrow> k = key \<and> at (split_on CHR ''.'' key) (JObj m') = Some v \<and>
      (\<forall>qs. \<not> secret (split_on CHR ''.'' key @ qs)))"
proof -
  have get: "k = key \<and> at (split_on CHR ''.'' key) (JObj m') = Some v"
    if "getConfig e r' key w' = Inr (k, v)" "stored e r' w' = Inr m'" "\<not> fr_closed r'" for k v m'
    using that GetConfigKey_stored[OF that(3,2)] by (auto simp: getConfig_def split: sum.splits)
  consider (read) "res = getConfig e r' key w'" "r' = r" "w' = w" | (bad) err where "res = Inl err" "r' = r" "w' = w"
    | (putval) val where "wf_json val" "setConfig e r key val w = (res, r', w')"
    using config_body_cases[OF assms(3,8)] by blast
  then show ?thesis
  proof cases
    case read
    then show ?thesis using assms(6,7) get refused_secret[OF assms(5)] by blast
  next
    case bad
    then show ?thesis using assms(6) by auto
  next
    case (putval val)
    obtain err where s: "SetConfigKey e r key val w = (err, r', w')"
      "case err of None \<Rightarrow> res = getConfig e r' key w' | Some x \<Rightarrow> res = Inl (SetFailed x)" using setConfig_eq[OF putval(2)] by blast
    have ne: "\<forall>x. err \<noteq> Some (EncodeFailed x)" using s(2) assms(9) by auto
    from SetConfigKey_secrets[OF assms(1,2,4) putval(1) assms(5) s(1) ne assms(6)] obtain m' where
      m': "stored e r' w' = Inr m'" "\<forall>ps. list_all2 hit PinningConcealSelector ps \<longrightarrow> at ps (JObj m') = at ps (JObj m)" by blast
    have closed: "\<not> fr_closed r'" using s(1) assms(7) by (cases rule: SetConfigKey_cases) auto
    have pk: "GetConfigKey e r' PrivKeySelector w' = GetConfigKey e r PrivKeySelector w"
      by (rule privkey_kept[OF assms(1,2,4) putval(1) s(1) ne])
    have "k = key \<and> at (split_on CHR ''.'' key) (JObj m') = Some v" if "res = Inr (k, v)" for k v
    proof -
      have "getConfig e r' key w' = Inr (k, v)" using s(2) that by (cases err) simp_all
      then show ?thesis using get m'(1) closed by blast
    qed
    then show ?thesis using m' pk refused_secret[OF assms(5)] by blast
  qed
qed

section \<open>Replacing the configuration\<close>

text \<open>
  How the structure is encoded: the private key is a string at its place, and left out when it is empty; a table of services
  that is not nil is an object with exactly its services.
\<close>

definition conf_key_ok :: "'n repo_env \<Rightarrow> bool" where
  "conf_key_ok e \<longleftrightarrow> (\<forall>c m. ToMap e c = Inr m \<longrightarrow>
     (if Identity_PrivKey c = [] then misses IdentitySelector (JObj m) else at IdentitySelector (JObj m) = Some (JStr (Identity_PrivKey c))))"

definition conf_services_ok :: "'n repo_env \<Rightarrow> bool" where
  "conf_services_ok e \<longleftrightarrow> (\<forall>c m n ps. ToMap e c = Inr m \<longrightarrow> n \<notin> fst ` set (RemoteServices c) \<longrightarrow>
     misses (''Pinning'' # ''RemoteServices'' # n # ps) (JObj m))"

text \<open>Decoded tables have distinct keys.\<close>

definition tables_ok :: "'n cfg_env \<Rightarrow> 'n repo_env \<Rightarrow> bool" where
  "tables_ok ce e \<longleftrightarrow> (\<forall>m svcs. to_services ce m = Inr svcs \<longrightarrow> distinct (map fst svcs)) \<and>
     (\<forall>t c. dec_conf e t = Inr c \<longrightarrow> distinct (map fst (RemoteServices c)))"

text \<open>The circumstances of a write that was put in place.\<close>

definition writes_ok :: "'n repo_env \<Rightarrow> 'n FSRepo \<Rightarrow> bool" where
  "writes_ok e r \<longleftrightarrow> codec_ok e \<and> commit_ok e \<and> fault e IoWrite (configFilePath r) = None \<and> \<not> fr_closed r \<and>
     (\<forall>c f. atomic_Close e (configFilePath r) c f = f(configFilePath r \<mapsto> c))"

text \<open>A successful \<^verbatim>\<open>SetConfig\<close>, by keys: what the structure lacks stays, a value of it is stored.\<close>

lemma SetConfig_keys:
  assumes "writes_ok e r" and "SetConfig e r updated w = (None, r', w')"
  obtains m where "ToMap e updated = Inr m" and "fr_config r' = updated" and "\<not> fr_closed r'"
    and "\<forall>key x. misses (split_on CHR ''.'' key) (JObj m) \<longrightarrow> GetConfigKey e r' key w' = Inr x \<longleftrightarrow> GetConfigKey e r key w = Inr x"
    and "\<forall>key x. at (split_on CHR ''.'' key) (JObj m) = Some x \<longrightarrow> \<not> is_map x \<longrightarrow> GetConfigKey e r' key w' = Inr x"
proof -
  have W: "codec_ok e" "commit_ok e" "fault e IoWrite (configFilePath r) = None" "\<not> fr_closed r"
    "\<forall>c f. atomic_Close e (configFilePath r) c f = f(configFilePath r \<mapsto> c)" using assms(1) by (simp_all add: writes_ok_def)
  obtain m where m: "ToMap e updated = Inr m" using assms(2) by (auto simp: SetConfig_def split: sum.splits)
  note leaf = SetConfig_leaf[OF W assms(2) m]
  from W assms(2) m show thesis
  proof (rule SetConfig_stored)
    fix m0
    assume st: "stored e r w = Inr m0" and m0: "wf_json (JObj m0)" "norm (JObj m0) = JObj m0"
      and wf: "wf_json (JObj m)" and r': "r' = r\<lparr>fr_config := updated\<rparr>"
      and get: "\<And>key y. GetConfigKey e r' key w' = Inr y \<longleftrightarrow>
        map_option norm (at (split_on CHR ''.'' key) (JObj (MapMergeDeep m0 m))) = Some y"
    have same: "map_option norm (at ps (JObj m0)) = at ps (JObj m0)" for ps using at_norm[of "JObj m0" ps] m0 by (simp del: norm.simps)
    have keep: "GetConfigKey e r' key w' = Inr x \<longleftrightarrow> GetConfigKey e r key w = Inr x" if "misses (split_on CHR ''.'' key) (JObj m)" for key x
      unfolding get GetConfigKey_stored[OF W(4) st] merge_left[OF wf that] same ..
    have "fr_config r' = updated" "\<not> fr_closed r'" using r' W(4) by simp_all
    from that[OF m this] keep leaf show thesis by blast
  qed
qed

lemma SetConfig_privkey:
  assumes "writes_ok e r" and "conf_key_ok e" and "SetConfig e r updated w = (None, r', w')"
    and "GetConfigKey e r PrivKeySelector w = Inr (JStr (Identity_PrivKey updated))"
  shows "GetConfigKey e r' PrivKeySelector w' = GetConfigKey e r PrivKeySelector w"
proof -
  obtain m where m: "ToMap e updated = Inr m"
    "\<forall>key x. misses (split_on CHR ''.'' key) (JObj m) \<longrightarrow> GetConfigKey e r' key w' = Inr x \<longleftrightarrow> GetConfigKey e r key w = Inr x"
    "\<forall>key x. at (split_on CHR ''.'' key) (JObj m) = Some x \<longrightarrow> \<not> is_map x \<longrightarrow> GetConfigKey e r' key w' = Inr x"
    using SetConfig_keys[OF assms(1,3)] by blast
  show ?thesis
  proof (cases "Identity_PrivKey updated = []")
    case True
    then have "misses (split_on CHR ''.'' PrivKeySelector) (JObj m)"
      using assms(2) m(1) unfolding conf_key_ok_def split_PrivKey IdentitySelector_def by metis
    with m(2) assms(4) show ?thesis by metis
  next
    case False
    then have "at (split_on CHR ''.'' PrivKeySelector) (JObj m) = Some (JStr (Identity_PrivKey updated))"
      using assms(2) m(1) unfolding conf_key_ok_def split_PrivKey IdentitySelector_def by metis
    with m(3) assms(4) show ?thesis by (simp add: is_map_def)
  qed
qed

text \<open>The service \<open>svc\<close> keeps its endpoint and key, the rest comes from the new one, which may only repeat the endpoint.\<close>

definition api_kept :: "RemotePinningService \<Rightarrow> RemotePinningService option \<Rightarrow> RemotePinningService option \<Rightarrow> bool" where
  "api_kept svc new res \<longleftrightarrow> (\<exists>n. new = Some n \<and> api_Endpoint n \<in> {[], api_Endpoint svc} \<and> api_Key n = [] \<and>
     res = Some (n\<lparr>api_Endpoint := api_Endpoint svc, api_Key := api_Key svc\<rparr>))"

lemma keep_apis_ok:
  assumes "keep_apis old new = Inr res" and "distinct (map fst old)"
  shows "map fst res = map fst new \<and> fst ` set old \<subseteq> fst ` set new \<and>
    (\<forall>name svc. map_of old name = Some svc \<longrightarrow> api_kept svc (map_of new name) (map_of res name)) \<and>
    (\<forall>name. name \<notin> fst ` set old \<longrightarrow> map_of res name = map_of new name)"
  using assms
proof (induction old new rule: keep_apis.induct)
  case (2 name oldSvc old new)
  then obtain n where n: "map_of new name = Some n" "api_Key n = []" "api_Endpoint n \<in> {[], api_Endpoint oldSvc}"
    by (auto split: option.splits if_splits)
  let ?n = "n\<lparr>api_Endpoint := api_Endpoint oldSvc, api_Key := api_Key oldSvc\<rparr>"
  let ?new = "AList.update name ?n new"
  have k: "keep_apis old ?new = Inr res" using 2(2) n by (auto split: if_splits)
  have nin: "name \<notin> fst ` set old" and d: "distinct (map fst old)" using 2(3) by simp_all
  have key: "name \<in> fst ` set new" using n(1) by (metis map_of_eq_None_iff option.distinct(1))
  then have ks: "map fst ?new = map fst new" by (simp add: update_keys)
  have cond: "\<not> (api_Key n \<noteq> [] \<or> (api_Endpoint n \<noteq> [] \<and> api_Endpoint n \<noteq> api_Endpoint oldSvc))" using n by simp
  note IH = 2(1)[OF n(1) cond k d]
  have up: "map_of ?new nm = (if nm = name then Some ?n else map_of new nm)" for nm by (simp add: update_conv')
  have sub: "fst ` set old \<subseteq> fst ` set new" using IH ks by (metis list.set_map)
  have "api_kept svc (map_of new nm) (map_of res nm)" if svc: "map_of ((name, oldSvc) # old) nm = Some svc" for nm svc
  proof (cases "nm = name")
    case True
    then have "map_of res nm = Some ?n" using IH nin up by simp
    then show ?thesis using True svc n by (simp add: api_kept_def)
  next
    case False
    then have "api_kept svc (map_of ?new nm) (map_of res nm)" using IH svc by simp
    then show ?thesis using False up by simp
  qed
  moreover have "map_of res nm = map_of new nm" if "nm \<notin> fst ` set ((name, oldSvc) # old)" for nm
    using IH that up by simp
  ultimately show ?case using IH ks sub key by (intro conjI allI impI) (simp_all del: map_of.simps)
qed simp

text \<open>The two tables have the same names.\<close>

lemma keep_apis_names:
  assumes "keep_apis old new = Inr res" and "distinct (map fst old)" and "distinct (map fst new)" and "length new = length old"
  shows "fst ` set res = fst ` set old"
proof -
  have sub: "fst ` set old \<subseteq> fst ` set new" "map fst res = map fst new" using keep_apis_ok[OF assms(1,2)] by blast+
  have "card (fst ` set new) = card (fst ` set old)" using assms(2-4) by (metis distinct_card length_map list.set_map)
  then have "fst ` set old = fst ` set new" using sub(1) by (intro card_subset_eq) auto
  then show ?thesis using sub(2) by (metis list.set_map)
qed

text \<open>C21. \<^verbatim>\<open>ipfs config replace\<close> cannot change a secret.  A failure, unless it is one of storing the configuration, leaves the
  repository as it was.  After a success the private key read from the file is the one from before; the configuration is
  the given one with the old private key in it; its pinning services have the names of the old ones, each with the endpoint
  and the key it had, whatever the given file says.\<close>

theorem replaceConfig_keeps_secrets:
  assumes "writes_ok e r" and "conf_key_ok e" and "tables_ok ce e" and "replaceConfig ce e file r w = (res, r', w')"
  shows "case res of
      Inl err \<Rightarrow> (\<forall>x. err \<noteq> RepoFail x) \<longrightarrow> r' = r \<and> w' = w
    | Inr _ \<Rightarrow> \<exists>newCfg old pk. dec_conf e file = Inr newCfg \<and> getRemotePinningServices ce e r w = Inr old \<and>
        GetConfigKey e r PrivKeySelector w = Inr (JStr pk) \<and> GetConfigKey e r' PrivKeySelector w' = Inr (JStr pk) \<and>
        fr_config r' = newCfg\<lparr>Identity_PrivKey := pk, RemoteServices := RemoteServices (fr_config r')\<rparr> \<and>
        fst ` set (RemoteServices (fr_config r')) = fst ` set old \<and>
        (\<forall>name svc. map_of old name = Some svc \<longrightarrow> api_kept svc (map_of (RemoteServices newCfg) name) (map_of (RemoteServices (fr_config r')) name))"
proof (cases res)
  case (Inl err)
  then show ?thesis using assms(4)
    by (auto simp: replaceConfig_def Let_def split: sum.splits if_splits json.splits prod.splits option.splits)
next
  case (Inr u)
  obtain newCfg pk old services where r: "dec_conf e file = Inr newCfg" "getConfig e r PrivKeySelector w = Inr (PrivKeySelector, JStr pk)"
    "getRemotePinningServices ce e r w = Inr old" "length (RemoteServices newCfg) = length old"
    "keep_apis old (RemoteServices newCfg) = Inr services"
    "SetConfig e r (newCfg\<lparr>Identity_PrivKey := pk, RemoteServices := services\<rparr>) w = (None, r', w')"
    using assms(4) Inr unfolding replaceConfig_def
    by (auto simp: Let_def getConfig_def split: sum.splits if_splits json.splits prod.splits option.splits)
  have d: "distinct (map fst (RemoteServices newCfg))" using assms(3) r(1) by (auto simp: tables_ok_def)
  have "distinct (map fst old)" using assms(3) r(3)
    by (auto simp: getRemotePinningServices_def tables_ok_def split: sum.splits prod.splits json.splits)
  note old = this
  have pk: "GetConfigKey e r PrivKeySelector w = Inr (JStr pk)" using r(2) by (auto simp: getConfig_def split: sum.splits)
  have cfg: "fr_config r' = newCfg\<lparr>Identity_PrivKey := pk, RemoteServices := services\<rparr>"
    using SetConfig_keys[OF assms(1) r(6)] by blast
  have "GetConfigKey e r' PrivKeySelector w' = Inr (JStr pk)" using SetConfig_privkey[OF assms(1,2) r(6)] pk by simp
  then show ?thesis using Inr r(1,3) pk cfg keep_apis_ok[OF r(5) old] keep_apis_names[OF r(5) old d r(4)] by auto
qed

section \<open>Pinning services\<close>

definition service_key :: "string \<Rightarrow> string" where
  "service_key name = ''Pinning.RemoteServices.'' @ name @ ''.API.Key''"

lemma split_service_key:
  assumes "CHR ''.'' \<notin> set name"
  shows "split_on CHR ''.'' (service_key name) = [''Pinning'', ''RemoteServices'', name, ''API'', ''Key'']"
  using assms split_on_append[of "CHR ''.''" name "''API.Key''"] by (simp add: service_key_def)

text \<open>Removing a pinning service does not remove its credentials.  After a successful \<^verbatim>\<open>ipfs pin remote service rm\<close> the service
  is gone from the configuration in memory, but the file still has it, with its key: the configuration is merged into
  the file, and a merge deletes nothing.\<close>

theorem removed_service_stays_in_file:
  assumes "writes_ok e r" and "conf_services_ok e" and "CHR ''.'' \<notin> set name" and "service_rm_body e [name] r w = (Inr (), r', w')"
  shows "map_of (RemoteServices (fr_config r')) name = None \<and>
    (GetConfigKey e r' (service_key name) w' = Inr x \<longleftrightarrow> GetConfigKey e r (service_key name) w = Inr x)"
proof -
  let ?c = "(fr_config r)\<lparr>RemoteServices := AList.delete name (RemoteServices (fr_config r))\<rparr>"
  have s: "SetConfig e (r\<lparr>fr_config := ?c\<rparr>) ?c w = (None, r', w')"
    using assms(4) by (auto simp: service_rm_body_def FSRepo_Config_def Let_def split: if_splits prod.splits option.splits)
  have W: "writes_ok e (r\<lparr>fr_config := ?c\<rparr>)" using assms(1) by (simp add: writes_ok_def)
  obtain m where m: "ToMap e ?c = Inr m" "fr_config r' = ?c" "\<not> fr_closed r'"
    "\<forall>key x. misses (split_on CHR ''.'' key) (JObj m) \<longrightarrow>
      GetConfigKey e r' key w' = Inr x \<longleftrightarrow> GetConfigKey e (r\<lparr>fr_config := ?c\<rparr>) key w = Inr x"
    "\<forall>key x. at (split_on CHR ''.'' key) (JObj m) = Some x \<longrightarrow> \<not> is_map x \<longrightarrow> GetConfigKey e r' key w' = Inr x"
    by (rule SetConfig_keys[OF W s])
  have gone: "map_of (RemoteServices ?c) name = None" by (simp add: delete_conv')
  then have "name \<notin> fst ` set (RemoteServices ?c)" by (simp add: map_of_eq_None_iff)
  then have "misses (split_on CHR ''.'' (service_key name)) (JObj m)"
    using assms(2) m(1) unfolding split_service_key[OF assms(3)] conf_services_ok_def by blast
  then have "GetConfigKey e r' (service_key name) w' = Inr x \<longleftrightarrow> GetConfigKey e (r\<lparr>fr_config := ?c\<rparr>) (service_key name) w = Inr x"
    using m(4) by blast
  then show ?thesis using m(2) gone by (simp add: GetConfigKey_def)
qed

text \<open>Adding a service and looking it up.\<close>

theorem added_service_found:
  assumes "service_add_body ue e (name # ep # key # others) r w = (Inr (), r', w')"
  obtains endpoint where "normalizeEndpoint ue ep = Inr endpoint" and "map_of (RemoteServices (fr_config r)) name = None"
    and "\<forall>n. map_of (RemoteServices (fr_config r')) n =
      (if n = name then Some \<lparr>api_Endpoint = endpoint, api_Key = key, mfs_Enable = False, mfs_PinName = [], mfs_RepinInterval = []\<rparr>
       else map_of (RemoteServices (fr_config r)) n)"
    and "normalizeEndpoint ue endpoint = Inr endpoint \<Longrightarrow> service_info_body ue name r' w' = (Inr (endpoint, key), r', w')"
proof -
  obtain endpoint where ep: "normalizeEndpoint ue ep = Inr endpoint"
    using assms by (auto simp: service_add_body_def split: sum.splits)
  let ?svc = "\<lparr>api_Endpoint = endpoint, api_Key = key, mfs_Enable = False, mfs_PinName = [], mfs_RepinInterval = []\<rparr>"
  let ?c = "(fr_config r)\<lparr>RemoteServices := AList.update name ?svc (RemoteServices (fr_config r))\<rparr>"
  have o: "\<not> fr_closed r" "map_of (RemoteServices (fr_config r)) name = None" "SetConfig e (r\<lparr>fr_config := ?c\<rparr>) ?c w = (None, r', w')"
    using assms ep by (auto simp: service_add_body_def FSRepo_Config_def Let_def split: if_splits prod.splits option.splits)
  then have r': "fr_config r' = ?c" "\<not> fr_closed r'" by (auto simp: SetConfig_def split: sum.splits prod.splits option.splits)
  show thesis
    using that[OF ep o(2)] r' by (simp add: update_conv' service_info_body_def FSRepo_Config_def)
qed

section \<open>Profiles\<close>

lemma add_back_all:
  "distinct out \<Longrightarrow> fold add_back xs (set out, out) = (set out \<union> set xs, snd (fold add_back xs (set out, out))) \<and>
    set (snd (fold add_back xs (set out, out))) = set out \<union> set xs \<and> distinct (snd (fold add_back xs (set out, out)))"
proof (induction xs arbitrary: out)
  case (Cons x xs)
  show ?case
  proof (cases "x \<in> set out")
    case True
    then show ?thesis using Cons.IH[OF Cons.prems] by (auto simp: add_back_def insert_absorb)
  next
    case False
    with Cons.prems Cons.IH[of "out @ [x]"] show ?thesis by (simp add: add_back_def)
  qed
qed simp

lemma add_back_old: "set xs \<subseteq> set out \<Longrightarrow> fold add_back xs (set out, out) = (set out, out)"
  by (induction xs) (auto simp: add_back_def)

lemma add_back_distinct: "distinct (out @ xs) \<Longrightarrow> fold add_back xs (set out, out) = (set (out @ xs), out @ xs)"
proof (induction xs arbitrary: out)
  case (Cons x xs)
  then show ?case using Cons.IH[of "out @ [x]"] by (simp add: add_back_def)
qed simp

lemma appendSingle_ok: "set (appendSingle a b) = set a \<union> set b" "distinct (appendSingle a b)"
proof -
  let ?a = "snd (fold add_back a ({}, []))"
  have a: "fold add_back a ({}, []) = (set ?a, ?a)" "set ?a = set a" "distinct ?a"
    using add_back_all[of "[]" a] by (auto simp: prod_eq_iff)
  show "set (appendSingle a b) = set a \<union> set b" "distinct (appendSingle a b)"
    using add_back_all[OF a(3), of b] a unfolding appendSingle_def by metis+
qed

lemma appendSingle_again: "appendSingle (appendSingle a b) b = appendSingle a b"
proof -
  let ?x = "appendSingle a b"
  have "fold add_back ?x ({}, []) = (set ?x, ?x)" using add_back_distinct[of "[]" ?x] appendSingle_ok(2) by simp
  moreover have "fold add_back b (set ?x, ?x) = (set ?x, ?x)" using appendSingle_ok(1) by (intro add_back_old) auto
  ultimately show ?thesis unfolding appendSingle_def[of ?x] by simp
qed

text \<open>A walk over a map meets every key once.\<close>

definition map_keys_ok :: "prof_env \<Rightarrow> bool" where
  "map_keys_ok pv \<longleftrightarrow> (\<forall>S. finite S \<longrightarrow> set (map_keys pv S) = S \<and> distinct (map_keys pv S))"

lemma deleteEntries_ok:
  assumes "map_keys_ok pv"
  shows "set (deleteEntries pv arr del) = set arr - set del" and "distinct (deleteEntries pv arr del)"
proof -
  have "fold insert arr A = A \<union> set arr" for A by (induction arr arbitrary: A) auto
  moreover have "fold (\<lambda>f m. m - {f}) del A = A - set del" for A by (induction del arbitrary: A) auto
  ultimately have "deleteEntries pv arr del = map_keys pv (set arr - set del)" by (simp add: deleteEntries_def mapKeys_def)
  then show "set (deleteEntries pv arr del) = set arr - set del" "distinct (deleteEntries pv arr del)"
    using assms by (auto simp: map_keys_ok_def)
qed


section \<open>Applying a profile\<close>

text \<open>A configuration is decoded as it was encoded.\<close>

definition clone_ok :: "'n repo_env \<Rightarrow> bool" where
  "clone_ok e \<longleftrightarrow> (\<forall>c t. enc_conf e c = Inr t \<longrightarrow> dec_conf e t = Inr c)"

lemma Clone_same: "clone_ok e \<Longrightarrow> Clone e c = Inr c' \<Longrightarrow> c' = c"
  by (auto simp: Clone_def clone_ok_def split: sum.splits)

lemma SetConfig_files:
  assumes "commit_ok e" and "SetConfig e r c w = (err, r', w')" and "p \<noteq> configFilePath r"
  shows "os_files w' p = os_files w p"
proof -
  have "atomic_Close e (configFilePath r) t (os_files w) p = os_files w p" for t
  proof -
    have "atomic_Close e (configFilePath r) t (os_files w) \<in> {os_files w, (os_files w)(configFilePath r \<mapsto> t)}"
      using assms(1) unfolding commit_ok_def by blast
    then show ?thesis using assms(3) by auto
  qed
  then show ?thesis using assms(2)
    by (auto simp: SetConfig_def WriteConfigFile_def Let_def split: sum.splits prod.splits option.splits)
qed

text \<open>Applying a profile.  A dry run changes nothing, neither the configuration nor a file.  When the command succeeds, what it
  returns are the configuration of the repository and the same with the profile applied; without the dry run the latter
  is the configuration of the repository from then on, and the backup file holds what the configuration file held before.\<close>

theorem profile_apply_correct:
  assumes "clone_ok e" and "commit_ok e" and "transform_body e name t dryRun r w = (res, r', w')"
  shows "(dryRun \<longrightarrow> r' = r \<and> w' = w) \<and>
    (\<forall>old new. res = Inr (old, new) \<longrightarrow> old = fr_config r \<and> t old = Inr new \<and>
      (\<not> dryRun \<longrightarrow> fr_config r' = new \<and>
        (\<exists>temp. TempName e (fr_path r) (''config-pre-'' @ name @ ''-'') (os_files w) = Inr temp \<and>
          (temp \<noteq> configFilePath r \<longrightarrow> os_files w' temp = os_files w (configFilePath r)))))"
proof (intro conjI impI allI)
  assume "dryRun"
  with assms(3) show "r' = r" "w' = w" by (auto simp: transform_body_def split: sum.splits)
next
  fix old new
  assume res: "res = Inr (old, new)"
  have "\<not> fr_closed r" and old: "old = fr_config r" and "Clone e old = Inr c \<Longrightarrow> t c = Inr new" for c
    using assms(3) res by (auto simp: transform_body_def FSRepo_Config_def split: sum.splits if_splits prod.splits option.splits)
  moreover obtain c where "Clone e old = Inr c"
    using assms(3) res by (auto simp: transform_body_def FSRepo_Config_def split: sum.splits if_splits prod.splits option.splits)
  ultimately have new: "t old = Inr new" and cl: "Clone e old = Inr old" using Clone_same[OF assms(1)] by blast+
  show "old = fr_config r" "t old = Inr new" using old new by blast+
  assume "\<not> dryRun"
  then obtain w1 f where b: "BackupConfig e r (''pre-'' @ name @ ''-'') w = (Inr f, w1)" and s: "SetConfig e r new w1 = (None, r', w')"
    using assms(3) res old new cl by (auto simp: transform_body_def FSRepo_Config_def split: sum.splits if_splits prod.splits option.splits)
  show "fr_config r' = new" using s by (auto simp: SetConfig_def split: sum.splits prod.splits option.splits)
  from b obtain temp c where tmp: "TempName e (fr_path r) (''config-pre-'' @ name @ ''-'') (os_files w) = Inr temp"
    "os_Open e (configFilePath r) (w\<lparr>os_files := (os_files w)(temp \<mapsto> [])\<rparr>) = Inr c"
    "w1 = w\<lparr>os_files := (os_files w)(temp \<mapsto> c)\<rparr>"
    by (auto simp: BackupConfig_def Let_def split: sum.splits option.splits)
  have "os_files w' temp = os_files w (configFilePath r)" if "temp \<noteq> configFilePath r"
  proof -
    have "os_files w' temp = Some c" using SetConfig_files[OF assms(2) s that] tmp(3) by simp
    moreover have "os_files w (configFilePath r) = Some c" using tmp(2) that by (auto simp: os_Open_def split: option.splits if_splits)
    ultimately show ?thesis by simp
  qed
  with tmp(1) show "\<exists>temp. TempName e (fr_path r) (''config-pre-'' @ name @ ''-'') (os_files w) = Inr temp \<and>
      (temp \<noteq> configFilePath r \<longrightarrow> os_files w' temp = os_files w (configFilePath r))" by blast
qed

text \<open>What the command prints hides the private key only: the keys of the pinning services are in it.\<close>

theorem profile_output_shows_service_keys:
  assumes "ToMap e c = Inr m" and "wf_json (JObj m)" and "scrubPrivKey e c = Inr out"
  shows "at [''Pinning'', ''RemoteServices'', name, ''API'', ''Key''] (JObj out) = at [''Pinning'', ''RemoteServices'', name, ''API'', ''Key''] (JObj m)"
proof -
  have "out = scrubbed IdentitySelector m" using assms(1,3) by (simp add: scrubPrivKey_def scrubValue_def scrub_total)
  moreover have "\<not> glob_loop [''Pinning'', ''RemoteServices'', name, ''API'', ''Key''] IdentitySelector"
    by (simp add: IdentitySelector_def fold_eq_def lower_char_def)
  ultimately show ?thesis using scrubbed_kept[OF assms(2)] by blast
qed

text \<open>Scrubbing a value that is not there is no error.\<close>

theorem scrubValue_never_missing: "scrubValue m key \<noteq> Inl KeyMissing"
  by (simp add: scrubValue_def scrub_total)

text \<open>A profile for initialisation is applied to an existing repository like any other, and then the repository cannot be opened.\<close>

theorem init_only_profile_breaks_repo:
  fixes c :: "'n Config"
  assumes "ds_Type c = []" and "ds_Path c = []" and "AnyDatastoreConfig (dsenv e) (badgerSpec :: 'n jmap) = Ok dsc" and "readSpec e path w = Inr recorded"
    and "recorded \<noteq> spec_text e dsc"
  shows "\<exists>t c'. map_of (Profiles pe pv) ''badgerds'' = Some (True, t) \<and> t c = Inr c' \<and>
    openDatastore e path c' w = (Inl (SpecMismatch recorded (spec_text e dsc)), w)"
  using assms by (simp add: Profiles_def openDatastore_def)

section \<open>Giving the repository back\<close>

lemma SetConfigKey_frame:
  "SetConfigKey e r key v w = (err, r', w') \<Longrightarrow> fr_path r' = fr_path r \<and> fr_closed r' = fr_closed r \<and> os_locks w' = os_locks w"
proof (erule SetConfigKey_cases)
  fix m pk j1 j2 conf
  assume "WriteConfigFile e (configFilePath r) (indent_map e (obj_of j2)) w = (err, w')" "r' = r\<lparr>fr_config := conf\<rparr>"
  then show ?thesis using config_frame(1)[of e "configFilePath r" "indent_map e (obj_of j2)" w] by simp
qed simp

lemma setConfig_frame:
  "setConfig e r key v w = (res, r', w') \<Longrightarrow> fr_path r' = fr_path r \<and> fr_closed r' = fr_closed r \<and> os_locks w' = os_locks w"
  by (auto simp: setConfig_def split: prod.splits option.splits dest!: SetConfigKey_frame)

lemma BackupConfig_frame: "BackupConfig e r pre w = (res, w') \<Longrightarrow> os_locks w' = os_locks w"
  by (auto simp: BackupConfig_def Let_def split: sum.splits option.splits)

interpretation config_cmd: repo_command e "config_body ce e key newval parseJSON isbool" for e ce key newval parseJSON isbool
  by unfold_locales (auto simp: config_body_def split: option.splits if_splits sum.splits dest!: setConfig_frame)

interpretation replace_cmd: repo_command e
  "\<lambda>r w. case given of Inl err \<Rightarrow> (Inl (BadJSON err), r, w) | Inr f \<Rightarrow> replaceConfig ce e f r w" for e ce given
  by unfold_locales
    (auto simp: replaceConfig_def Let_def split: sum.splits if_splits json.splits prod.splits option.splits dest!: SetConfig_frame)

interpretation transform_cmd: repo_command e "transform_body e name t dryRun" for e name t dryRun
  by unfold_locales
    (auto simp: transform_body_def split: sum.splits if_splits prod.splits option.splits dest!: SetConfig_frame BackupConfig_frame)

interpretation service_add_cmd: repo_command e "service_add_body ue e args" for e ue args
  by unfold_locales
    (auto simp: service_add_body_def Let_def split: list.splits sum.splits if_splits prod.splits option.splits dest!: SetConfig_frame)

interpretation service_rm_cmd: repo_command e "service_rm_body e args" for e args
  by unfold_locales
    (auto simp: service_rm_body_def Let_def split: list.splits sum.splits if_splits prod.splits option.splits dest!: SetConfig_frame)

interpretation service_info_cmd: repo_command e "service_info_body ue name" for e ue name
  by unfold_locales (auto simp: service_info_body_def split: sum.splits option.splits)

text \<open>The configuration commands give back what they take: whatever they do and however they end, alone or inside a daemon, the
  locks held and the table of shared repositories afterwards are those from before, as long as locks can be released,
  datastores closed and no counter is at its maximum.\<close>

theorem config_commands_unlock:
  assumes "lock_ok e" and "\<forall>q. Unlock e q = None" and "\<forall>d. ds_Close e d = None"
    and "\<forall>p i. active s p = Some i \<longrightarrow> 0 < ref_refs (cells s i) \<and> ref_refs (cells s i) + 1 \<noteq> 0"
    and "s' \<in> {snd (ConfigCmd ce e root key newval parseJSON isbool s), snd (configReplaceCmd ce e root given s),
      snd (transformConfig e root name t dryRun s), snd (addRemotePinServiceCmd ue e root args s), snd (rmRemotePinServiceCmd e root args s),
      snd (getRemotePinServiceInfo ue e root name s)}"
  shows "os_locks (backend s') = os_locks (backend s) \<and> active s' = active s"
proof -
  let ?ok = "\<lambda>s'. os_locks (backend s') = os_locks (backend s) \<and> active s' = active s"
  have "?ok (snd (ConfigCmd ce e root key newval parseJSON isbool s))"
    by (simp add: ConfigCmd_def config_cmd.locks_restored_on[OF assms(1-4)] split: option.splits)
  moreover have "?ok (snd (configReplaceCmd ce e root given s))"
    unfolding configReplaceCmd_def by (rule replace_cmd.locks_restored_on[OF assms(1-4)])
  moreover have "?ok (snd (transformConfig e root name t dryRun s))"
    unfolding transformConfig_def by (rule transform_cmd.locks_restored_on[OF assms(1-4)])
  moreover have "?ok (snd (addRemotePinServiceCmd ue e root args s))"
    unfolding addRemotePinServiceCmd_def by (rule service_add_cmd.locks_restored_on[OF assms(1-4)])
  moreover have "?ok (snd (rmRemotePinServiceCmd e root args s))"
    unfolding rmRemotePinServiceCmd_def by (rule service_rm_cmd.locks_restored_on[OF assms(1-4)])
  moreover have "?ok (snd (getRemotePinServiceInfo ue e root name s))"
    unfolding getRemotePinServiceInfo_def by (rule service_info_cmd.locks_restored_on[OF assms(1-4)])
  ultimately show ?thesis using assms(5) by (elim insertE emptyE) simp_all
qed

section \<open>Concrete runs\<close>

definition cfg_demo :: "nat cfg_env" where
  "cfg_demo = \<lparr>json_Unmarshal = (\<lambda>_. Inr JNull), Unmarshal_map = dec_map repo_demo_env, to_services = (\<lambda>_. Inr [])\<rparr>"

lemma cfg_demo_ok: "unmarshal_ok cfg_demo"
  by (auto simp: unmarshal_ok_def cfg_demo_def repo_demo_env_def demo_map_def split: if_splits)


lemma demo_writes: "writes_ok repo_demo_env demo_repo"
  using demo_codec by (simp add: writes_ok_def repo_demo_env_def commit_ok_def demo_repo_def)

theorem config_keeps_secrets_witness:
  "refused ''Addr'' = None \<and>
   (\<exists>m'. stored repo_demo_env demo_repo (demo_os\<lparr>os_files := [''r/config'' \<mapsto> ''2'']\<rparr>) = Inr m' \<and> at [''Addr''] (JObj m') = Some (JStr ''2''))"
proof -
  have ok: "commit_ok repo_demo_env" "fault repo_demo_env IoWrite (configFilePath demo_repo) = None" "\<not> fr_closed demo_repo"
    using demo_writes by (simp_all add: writes_ok_def)
  have key: "refused ''Addr'' = None" by code_simp
  have st: "stored repo_demo_env demo_repo demo_os = Inr (demo_map ''1'')"
    by (simp add: demo_eval repo_demo_env_def)
  have run: "config_body cfg_demo repo_demo_env ''Addr'' (Some ''2'') False False demo_repo demo_os =
      (Inr (''Addr'', JStr ''2''), demo_repo, demo_os\<lparr>os_files := [''r/config'' \<mapsto> ''2'']\<rparr>)"
    by (simp add: config_body_def setConfig_def demo_set getConfig_def) (simp add: demo_eval repo_demo_env_def demo_map_def)
  have "split_on CHR ''.'' ''Addr'' = [''Addr'']" by simp
  with config_keeps_secrets[OF demo_codec ok(1) cfg_demo_ok ok(2) key st ok(3) run] key show ?thesis by auto
qed

text \<open>A codec for configurations of which only the private key matters.\<close>

definition key_map :: "string \<Rightarrow> nat jmap" where
  "key_map k = [(''Identity'', JObj (if k = [] then [] else [(''PrivKey'', JStr k)]))]"

definition key_of :: "nat jmap \<Rightarrow> string option" where
  "key_of m = (case m of
     [(i, JObj [])] \<Rightarrow> if i = ''Identity'' then Some [] else None
   | [(i, JObj [(p, JStr k)])] \<Rightarrow> if i = ''Identity'' \<and> p = ''PrivKey'' \<and> k \<noteq> [] then Some k else None
   | _ \<Rightarrow> None)"

definition key_demo_env :: "nat repo_env" where
  "key_demo_env = repo_demo_env\<lparr>dec_map := \<lambda>t. Inr (key_map t), enc_conf := \<lambda>c. Inr (Identity_PrivKey c),
     dec_conf := \<lambda>t. Inr (demo_conf\<lparr>Identity_PrivKey := t\<rparr>),
     indent_map := \<lambda>m. case key_of m of None \<Rightarrow> Inl ''unsupported'' | Some k \<Rightarrow> Inr k\<rparr>"

lemma key_of_map: "key_of m = Some k \<longleftrightarrow> m = key_map k"
  by (auto simp: key_of_def key_map_def split: list.splits prod.splits json.splits if_splits)

lemma key_map_norm: "norm (JObj (key_map k)) = JObj (key_map k)" "wf_json (JObj (key_map k))"
  by (simp_all add: key_map_def)

lemma key_demo_codec: "codec_ok key_demo_env"
  unfolding codec_ok_def
proof (intro conjI allI impI)
  show "dec_map key_demo_env t = Inr (obj_of (norm (JObj m)))" if "indent_map key_demo_env m = Inr t" for m t
  proof -
    have "m = key_map t" using that key_of_map[of m t] by (auto simp: key_demo_env_def split: option.splits)
    then show ?thesis by (simp only: key_map_norm) (simp add: key_demo_env_def obj_of_def)
  qed
qed (use key_map_norm in \<open>auto simp: key_demo_env_def repo_demo_env_def TrimSpace_def is_space_def\<close>)

lemma key_demo_ok:
  "writes_ok key_demo_env demo_repo" "conf_key_ok key_demo_env" "tables_ok cfg_demo key_demo_env" "commit_ok key_demo_env"
  using key_demo_codec
  by (auto simp: writes_ok_def commit_ok_def conf_key_ok_def tables_ok_def key_demo_env_def repo_demo_env_def demo_repo_def cfg_demo_def ToMap_def
      key_map_def IdentitySelector_def demo_conf_def)

definition key_os :: osys where
  "key_os = \<lparr>os_files = [''r/config'' \<mapsto> ''k''], os_locks = {''r''}, os_stores = [MemS]\<rparr>"

lemma key_demo_replace:
  "\<exists>r' w'. replaceConfig cfg_demo key_demo_env [] demo_repo key_os = (Inr (), r', w')"
  by (simp add: replaceConfig_def getRemotePinningServices_def getConfig_def SetConfig_def ToMap_def key_of_def
      demo_eval key_os_def key_demo_env_def repo_demo_env_def key_map_def cfg_demo_def demo_conf_def)

theorem replaceConfig_keeps_secrets_witness:
  "\<exists>r' w'. replaceConfig cfg_demo key_demo_env [] demo_repo key_os = (Inr (), r', w') \<and>
     GetConfigKey key_demo_env r' PrivKeySelector w' = Inr (JStr ''k'')"
proof -
  obtain r' w' where r: "replaceConfig cfg_demo key_demo_env [] demo_repo key_os = (Inr (), r', w')" using key_demo_replace by blast
  have "GetConfigKey key_demo_env demo_repo PrivKeySelector key_os = Inr (JStr ''k'')"
    by (simp add: demo_eval key_os_def key_demo_env_def repo_demo_env_def key_map_def)
  with replaceConfig_keeps_secrets[OF key_demo_ok(1-3) r] r show ?thesis by auto
qed

definition prof_demo :: prof_env where
  "prof_demo = \<lparr>map_keys = sorted_list_of_set, Listen = Inr 4001\<rparr>"

lemma prof_demo_ok: "map_keys_ok prof_demo"
  by (simp add: map_keys_ok_def prof_demo_def)


definition lp_conf :: "nat Config" where
  "lp_conf = demo_conf\<lparr>Identity_PrivKey := ''k''\<rparr>"

definition lp_demo_env :: "nat repo_env" where
  "lp_demo_env = key_demo_env\<lparr>dec_map := \<lambda>_. Inr (key_map ''k''),
     enc_conf := \<lambda>c. if c = lp_conf then Inr ''k'' else if c = profile_lowpower lp_conf then Inr ''l'' else Inl ''unsupported'',
     dec_conf := \<lambda>t. Inr (if t = ''l'' then profile_lowpower lp_conf else lp_conf)\<rparr>"

theorem profile_apply_correct_witness:
  "\<exists>r' w'. transform_body lp_demo_env ''lowpower'' (Inr \<circ> profile_lowpower) False (demo_repo\<lparr>fr_config := lp_conf\<rparr>) key_os =
     (Inr (lp_conf, profile_lowpower lp_conf), r', w') \<and> Routing_Type (fr_config r') = ''dhtclient'' \<and>
     os_files w' ''r/config-pre-lowpower-tmp'' = Some ''k''"
proof -
  let ?r = "demo_repo\<lparr>fr_config := lp_conf\<rparr>"
  have ne: "lp_conf \<noteq> profile_lowpower lp_conf" by (simp add: lp_conf_def demo_conf_def profile_lowpower_def)
  have ok: "clone_ok lp_demo_env" "commit_ok lp_demo_env"
    using ne by (auto simp: clone_ok_def commit_ok_def lp_demo_env_def key_demo_env_def repo_demo_env_def)
  have "\<exists>r' w'. transform_body lp_demo_env ''lowpower'' (Inr \<circ> profile_lowpower) False ?r key_os =
      (Inr (lp_conf, profile_lowpower lp_conf), r', w')"
    using ne by (simp add: transform_body_def FSRepo_Config_def Clone_def BackupConfig_def SetConfig_def ToMap_def key_of_def
      demo_eval key_os_def lp_demo_env_def key_demo_env_def repo_demo_env_def key_map_def)
  then obtain r' w' where t: "transform_body lp_demo_env ''lowpower'' (Inr \<circ> profile_lowpower) False ?r key_os =
      (Inr (lp_conf, profile_lowpower lp_conf), r', w')" by blast
  have "TempName lp_demo_env (fr_path ?r) (''config-pre-'' @ ''lowpower'' @ ''-'') (os_files key_os) = Inr ''r/config-pre-lowpower-tmp''"
    by (simp add: lp_demo_env_def key_demo_env_def repo_demo_env_def demo_repo_def)
  moreover have "configFilePath ?r = ''r/config''" "os_files key_os ''r/config'' = Some ''k''" by (simp_all add: demo_repo_def key_os_def)
  ultimately show ?thesis using profile_apply_correct[OF ok t] t by (auto simp: profile_lowpower_def)
qed

end
