(* ===== verification/RemotePin.thy ===== *)
theory RemotePin
  imports ConfigCmd PinMFS
begin

text \<open>
  Remote pinning commands: \<^verbatim>\<open>src/core/commands/pin/remotepin.go\<close>.  The client of the pinning service, path resolution, the
  blockstore and the swarm are parameters; the state of the service is threaded through the calls that change it.  What
  the service answers to repeated polling is a list of answers.
\<close>

section \<open>Queries\<close>

datatype rp_error =
  ServiceError cfg_error | ArgError | CannotParseCID string string | BadStatus string | LibErr string | StatusCheck string string
| UnexpectedID string string | RemoteFailed string | Interrupted string | Listing string | NeedForce | UnexpectedArg string
| Removing string string

record 'c ls_query =
  q_name :: "string option"
  q_cids :: "'c list option"
  q_statuses :: "string list option"

fun parse_cids :: "(string \<Rightarrow> string + 'c) \<Rightarrow> string list \<Rightarrow> rp_error + 'c list" where
  "parse_cids decode [] = Inr []"
| "parse_cids decode (raw # raws) =
     (case decode raw of
        Inl err \<Rightarrow> Inl (CannotParseCID raw err)
      | Inr c \<Rightarrow> (case parse_cids decode raws of Inl err \<Rightarrow> Inl err | Inr cs \<Rightarrow> Inr (c # cs)))"

text \<open>\<open>Status_String\<close> is the text of a status, \<^verbatim>\<open>unknown\<close> for a text that is none.\<close>

fun parse_statuses :: "(string \<Rightarrow> string) \<Rightarrow> string list \<Rightarrow> rp_error + string list" where
  "parse_statuses Status_String [] = Inr []"
| "parse_statuses Status_String (raw # raws) =
     (if Status_String raw = ''unknown'' then Inl (BadStatus raw)
      else (case parse_statuses Status_String raws of Inl err \<Rightarrow> Inl err | Inr ss \<Rightarrow> Inr (raw # ss)))"

definition lsRemote ::
    "(string \<Rightarrow> string + 'c) \<Rightarrow> (string \<Rightarrow> string) \<Rightarrow> string option \<Rightarrow> string list option \<Rightarrow> string list option \<Rightarrow> rp_error + 'c ls_query" where
  "lsRemote decode Status_String name cids statuses =
     (case (case cids of None \<Rightarrow> Inr None | Some raws \<Rightarrow> (case parse_cids decode raws of Inl err \<Rightarrow> Inl err | Inr cs \<Rightarrow> Inr (Some cs))) of
        Inl err \<Rightarrow> Inl err
      | Inr cs \<Rightarrow>
     (case (case statuses of
              None \<Rightarrow> Inr None
            | Some raws \<Rightarrow> (case parse_statuses Status_String raws of Inl err \<Rightarrow> Inl err | Inr ss \<Rightarrow> Inr (Some ss))) of
        Inl err \<Rightarrow> Inl err
      | Inr ss \<Rightarrow> Inr \<lparr>q_name = name, q_cids = cs, q_statuses = ss\<rparr>))"

section \<open>The client\<close>

record ('c, 'm) PinStatus =
  ps_RequestId :: string
  ps_Status :: pin_status
  ps_Cid :: 'c
  ps_Name :: string
  ps_Delegates :: "'m list"

text \<open>\<open>Ls\<close> gives the pins sent on the channel and the error at its end, if any.\<close>

record ('c, 'm, 's) pin_client =
  cl_Add :: "'c \<Rightarrow> string option \<Rightarrow> 'm list option \<Rightarrow> 's \<Rightarrow> (string + ('c, 'm) PinStatus) \<times> 's"
  cl_Ls :: "'c ls_query \<Rightarrow> 's \<Rightarrow> ('c, 'm) PinStatus list \<times> string option"
  cl_DeleteByID :: "string \<Rightarrow> 's \<Rightarrow> string option \<times> 's"
  cl_Count :: "pin_status \<Rightarrow> 's \<Rightarrow> string + int"

record RemotePinOutput =
  out_Status :: pin_status
  out_Cid :: string
  out_Name :: string

definition toRemotePinOutput :: "('c \<Rightarrow> string) \<Rightarrow> ('c, 'm) PinStatus \<Rightarrow> RemotePinOutput" where
  "toRemotePinOutput cid_String ps = \<lparr>out_Status = ps_Status ps, out_Cid = cid_String (ps_Cid ps), out_Name = ps_Name ps\<rparr>"

section \<open>Adding\<close>

text \<open>
  One round of waiting: the answer to \<^verbatim>\<open>GetStatusByID\<close>, and whether the context ends in the half second that follows.
\<close>

type_synonym ('c, 'm) round = "(string + ('c, 'm) PinStatus) \<times> bool"

text \<open>The loop over the rounds; \<open>None\<close> is that it still waits after them.\<close>

fun wait_pinned :: "string \<Rightarrow> ('c, 'm) round list \<Rightarrow> (rp_error + ('c, 'm) PinStatus) option" where
  "wait_pinned requestID [] = None"
| "wait_pinned requestID ((answer, cancelled) # rounds) =
     (case answer of
        Inl err \<Rightarrow> Some (Inl (StatusCheck requestID err))
      | Inr ps \<Rightarrow>
          if ps_RequestId ps \<noteq> requestID then Some (Inl (UnexpectedID requestID (ps_RequestId ps)))
          else if ps_Status ps = StatusPinned then Some (Inr ps)
          else if ps_Status ps = StatusFailed then Some (Inl (RemoteFailed requestID))
          else if cancelled then Some (Inl (Interrupted requestID))
          else wait_pinned requestID rounds)"

record ('c, 'm, 'i) rp_node =
  rp_ResolvePath :: "string \<Rightarrow> string + 'c"
  rp_Has :: "'c \<Rightarrow> string + bool"
  rp_HostAddrs :: "(string + 'm list) option"
  AddrInfoFromP2pAddr :: "'m \<Rightarrow> string + 'i"

text \<open>Connecting to the delegates: errors of the connections are logged only.  The result is the peers that were dialled.\<close>

fun dial_delegates :: "('m \<Rightarrow> string + 'i) \<Rightarrow> 'm list \<Rightarrow> string option \<times> 'i list" where
  "dial_delegates info [] = (None, [])"
| "dial_delegates info (d # ds) =
     (case info d of
        Inl err \<Rightarrow> (Some err, [])
      | Inr p \<Rightarrow> (case dial_delegates info ds of (err, ps) \<Rightarrow> (err, p # ps)))"

definition pin_origins :: "('c, 'm, 'i) rp_node \<Rightarrow> bool \<Rightarrow> rp_error + 'm list option" where
  "pin_origins nd isInBlockstore =
     (case rp_HostAddrs nd of
        Some addrs \<Rightarrow>
          if isInBlockstore then (case addrs of Inl err \<Rightarrow> Inl (LibErr err) | Inr as \<Rightarrow> Inr (Some as)) else Inr None
      | None \<Rightarrow> Inr None)"

text \<open>The command on a service that was found: what it emits, the service afterwards and the peers dialled.\<close>

definition remote_add ::
    "('c, 'm, 'i) rp_node \<Rightarrow> ('c, 'm, 's) pin_client \<Rightarrow> ('c \<Rightarrow> string) \<Rightarrow> string list \<Rightarrow> string option \<Rightarrow> bool \<Rightarrow> ('c, 'm) round list \<Rightarrow> 's
     \<Rightarrow> (rp_error + RemotePinOutput) option \<times> 's \<times> 'i list" where
  "remote_add nd c cid_String args name background rounds s =
     (case args of
        [arg] \<Rightarrow>
          (case rp_ResolvePath nd arg of
             Inl err \<Rightarrow> (Some (Inl (LibErr err)), s, [])
           | Inr rp \<Rightarrow>
          (case rp_Has nd rp of
             Inl err \<Rightarrow> (Some (Inl (LibErr err)), s, [])
           | Inr isInBlockstore \<Rightarrow>
          (case pin_origins nd isInBlockstore of
             Inl err \<Rightarrow> (Some (Inl err), s, [])
           | Inr origins \<Rightarrow>
          (case cl_Add c rp name origins s of
             (Inl err, s) \<Rightarrow> (Some (Inl (LibErr err)), s, [])
           | (Inr ps, s) \<Rightarrow>
          (case dial_delegates (AddrInfoFromP2pAddr nd) (ps_Delegates ps) of
             (Some err, dialled) \<Rightarrow> (Some (Inl (LibErr err)), s, dialled)
           | (None, dialled) \<Rightarrow>
               if background then (Some (Inr (toRemotePinOutput cid_String ps)), s, dialled)
               else
                 (case wait_pinned (ps_RequestId ps) rounds of
                    None \<Rightarrow> (None, s, dialled)
                  | Some (Inl err) \<Rightarrow> (Some (Inl err), s, dialled)
                  | Some (Inr ps) \<Rightarrow> (Some (Inr (toRemotePinOutput cid_String ps)), s, dialled)))))))
      | _ \<Rightarrow> (Some (Inl ArgError), s, []))"

section \<open>Listing and removing\<close>

text \<open>The outputs emitted and the error at the end; \<open>emit n\<close> is the error of emission number \<open>n\<close>, if it fails.\<close>

fun emit_pins :: "(nat \<Rightarrow> string option) \<Rightarrow> nat \<Rightarrow> RemotePinOutput list \<Rightarrow> RemotePinOutput list \<times> string option" where
  "emit_pins emit n [] = ([], None)"
| "emit_pins emit n (x # xs) =
     (case emit n of
        Some err \<Rightarrow> ([], Some err)
      | None \<Rightarrow> (case emit_pins emit (Suc n) xs of (ys, err) \<Rightarrow> (x # ys, err)))"

definition remote_ls ::
    "('c, 'm, 's) pin_client \<Rightarrow> ('c \<Rightarrow> string) \<Rightarrow> (nat \<Rightarrow> string option) \<Rightarrow> rp_error + 'c ls_query \<Rightarrow> 's \<Rightarrow> RemotePinOutput list \<times> rp_error option" where
  "remote_ls c cid_String emit query s =
     (case query of
        Inl err \<Rightarrow> ([], Some err)
      | Inr q \<Rightarrow>
          (case cl_Ls c q s of (pins, errCh) \<Rightarrow>
             (case emit_pins emit 0 (map (toRemotePinOutput cid_String) pins) of
                (out, Some err) \<Rightarrow> (out, Some (LibErr err))
              | (out, None) \<Rightarrow> (out, map_option LibErr errCh))))"

fun delete_all :: "('c, 'm, 's) pin_client \<Rightarrow> string list \<Rightarrow> 's \<Rightarrow> rp_error option \<times> 's" where
  "delete_all c [] s = (None, s)"
| "delete_all c (rmID # rmIDs) s =
     (case cl_DeleteByID c rmID s of
        (Some err, s) \<Rightarrow> (Some (Removing rmID err), s)
      | (None, s) \<Rightarrow> delete_all c rmIDs s)"

definition remote_rm ::
    "('c, 'm, 's) pin_client \<Rightarrow> string list \<Rightarrow> bool \<Rightarrow> rp_error + 'c ls_query \<Rightarrow> 's \<Rightarrow> rp_error option \<times> 's" where
  "remote_rm c args force query s =
     (if args \<noteq> [] then (Some (UnexpectedArg (hd args)), s)
      else
        (case query of
           Inl err \<Rightarrow> (Some err, s)
         | Inr q \<Rightarrow>
             (case cl_Ls c q s of (pins, errCh) \<Rightarrow>
                (case errCh of
                   Some err \<Rightarrow> (Some (Listing err), s)
                 | None \<Rightarrow>
                     (let rmIDs = map ps_RequestId pins in
                      if length rmIDs > 1 \<and> \<not> force then (Some NeedForce, s) else delete_all c rmIDs s)))))"

text \<open>
  The commands: the service is looked up in the repository first.  \<open>NewClient\<close> is the client for an endpoint and a key.
\<close>

definition addRemotePinCmd ::
    "url_env \<Rightarrow> 'n repo_env \<Rightarrow> string + path \<Rightarrow> (string \<times> string \<Rightarrow> ('c, 'm, 's) pin_client) \<Rightarrow> ('c, 'm, 'i) rp_node \<Rightarrow> ('c \<Rightarrow> string)
     \<Rightarrow> string option \<Rightarrow> string list \<Rightarrow> string option \<Rightarrow> bool \<Rightarrow> ('c, 'm) round list \<Rightarrow> 'n repos \<Rightarrow> 's
     \<Rightarrow> (rp_error + RemotePinOutput) option \<times> 'n repos \<times> 's \<times> 'i list" where
  "addRemotePinCmd ue e cfgRoot NewClient nd cid_String service args name background rounds rs s =
     (case getRemotePinServiceFromRequest ue e cfgRoot service rs of
        (Inl err, rs) \<Rightarrow> (Some (Inl (ServiceError err)), rs, s, [])
      | (Inr ek, rs) \<Rightarrow>
          (case remote_add nd (NewClient ek) cid_String args name background rounds s of (res, s, dialled) \<Rightarrow> (res, rs, s, dialled)))"

definition listRemotePinCmd ::
    "url_env \<Rightarrow> 'n repo_env \<Rightarrow> string + path \<Rightarrow> (string \<times> string \<Rightarrow> ('c, 'm, 's) pin_client) \<Rightarrow> ('c \<Rightarrow> string) \<Rightarrow> (nat \<Rightarrow> string option)
     \<Rightarrow> string option \<Rightarrow> rp_error + 'c ls_query \<Rightarrow> 'n repos \<Rightarrow> 's \<Rightarrow> (RemotePinOutput list \<times> rp_error option) \<times> 'n repos" where
  "listRemotePinCmd ue e cfgRoot NewClient cid_String emit service query rs s =
     (case getRemotePinServiceFromRequest ue e cfgRoot service rs of
        (Inl err, rs) \<Rightarrow> (([], Some (ServiceError err)), rs)
      | (Inr ek, rs) \<Rightarrow> (remote_ls (NewClient ek) cid_String emit query s, rs))"

definition rmRemotePinCmd ::
    "url_env \<Rightarrow> 'n repo_env \<Rightarrow> string + path \<Rightarrow> (string \<times> string \<Rightarrow> ('c, 'm, 's) pin_client)
     \<Rightarrow> string option \<Rightarrow> string list \<Rightarrow> bool \<Rightarrow> rp_error + 'c ls_query \<Rightarrow> 'n repos \<Rightarrow> 's \<Rightarrow> rp_error option \<times> 'n repos \<times> 's" where
  "rmRemotePinCmd ue e cfgRoot NewClient service args force query rs s =
     (case getRemotePinServiceFromRequest ue e cfgRoot service rs of
        (Inl err, rs) \<Rightarrow> (Some (ServiceError err), rs, s)
      | (Inr ek, rs) \<Rightarrow> (case remote_rm (NewClient ek) args force query s of (err, s) \<Rightarrow> (err, rs, s)))"

section \<open>Listing the services\<close>

record PinCount =
  Queued :: int
  Pinning :: int
  Pinned :: int
  Failed_count :: int

text \<open>The status text and the counts of \<^verbatim>\<open>--stat\<close>.\<close>

record ServiceDetails =
  sd_Service :: string
  sd_ApiEndpoint :: string
  sd_Stat :: "(string \<times> PinCount option) option"

definition lsRemotePinCount :: "('c, 'm, 's) pin_client \<Rightarrow> 's \<Rightarrow> PinCount option" where
  "lsRemotePinCount c s =
     (case (cl_Count c StatusQueued s, cl_Count c StatusPinning s, cl_Count c StatusPinned s, cl_Count c StatusFailed s) of
        (Inr q, Inr p, Inr d, Inr f) \<Rightarrow> Some \<lparr>Queued = q, Pinning = p, Pinned = d, Failed_count = f\<rparr>
      | _ \<Rightarrow> None)"

text \<open>Inside the command the repository is open, so looking up a service opens the same one once more.\<close>

definition service_stat ::
    "url_env \<Rightarrow> (string \<times> string \<Rightarrow> ('c, 'm, 's) pin_client) \<Rightarrow> 's \<Rightarrow> 'n FSRepo \<Rightarrow> osys \<Rightarrow> string \<Rightarrow> string \<times> PinCount option" where
  "service_stat ue NewClient s r w svcName =
     (if svcName = [] then (''invalid'', None)
      else
        (case fst (service_info_body ue svcName r w) of
           Inl _ \<Rightarrow> (''invalid'', None)
         | Inr ek \<Rightarrow>
             (case lsRemotePinCount (NewClient ek) s of
                None \<Rightarrow> (''invalid'', None)
              | Some pinCount \<Rightarrow> (''valid'', Some pinCount))))"

definition services_body ::
    "url_env \<Rightarrow> (string \<times> string \<Rightarrow> ('c, 'm, 's) pin_client) \<Rightarrow> 's \<Rightarrow> bool \<Rightarrow> 'n FSRepo \<Rightarrow> osys
     \<Rightarrow> (cfg_error + ServiceDetails list) \<times> 'n FSRepo \<times> osys" where
  "services_body ue NewClient s stat r w =
     (case FSRepo_Config r of
        Inl err \<Rightarrow> (Inl (RepoFail err), r, w)
      | Inr cfg \<Rightarrow>
          (Inr (sort_key sd_Service
             (map (\<lambda>(svcName, svcConfig). \<lparr>sd_Service = svcName, sd_ApiEndpoint = api_Endpoint svcConfig,
                     sd_Stat = (if stat then Some (service_stat ue NewClient s r w svcName) else None)\<rparr>)
               (RemoteServices cfg))), r, w))"

definition lsRemotePinServiceCmd ::
    "url_env \<Rightarrow> 'n repo_env \<Rightarrow> string + path \<Rightarrow> (string \<times> string \<Rightarrow> ('c, 'm, 's) pin_client) \<Rightarrow> 's \<Rightarrow> bool \<Rightarrow> 'n repos
     \<Rightarrow> (cfg_error + ServiceDetails list) \<times> 'n repos" where
  "lsRemotePinServiceCmd ue e cfgRoot NewClient s stat rs =
     on_repo e BadRoot RepoFail cfgRoot (services_body ue NewClient s stat) rs"

section \<open>What the commands promise\<close>

text \<open>
  A pinning service: \<open>pins\<close> are the pins it holds.  Listing gives the ones that match the query, deleting an id removes
  exactly it, and a request that fails changes nothing.
\<close>

definition service_ok ::
    "('c, 'm, 's) pin_client \<Rightarrow> ('s \<Rightarrow> ('c, 'm) PinStatus list) \<Rightarrow> ('c ls_query \<Rightarrow> ('c, 'm) PinStatus \<Rightarrow> bool) \<Rightarrow> bool" where
  "service_ok c pins matches \<longleftrightarrow>
     (\<forall>q s l. cl_Ls c q s = (l, None) \<longrightarrow> l = filter (matches q) (pins s)) \<and>
     (\<forall>i s s'. cl_DeleteByID c i s = (None, s') \<longrightarrow> pins s' = filter (\<lambda>p. ps_RequestId p \<noteq> i) (pins s)) \<and>
     (\<forall>i s err s'. cl_DeleteByID c i s = (Some err, s') \<longrightarrow> pins s' = pins s)"

lemma delete_all_pins:
  assumes "service_ok c pins matches" and "delete_all c ids s = (err, s')"
  shows "\<exists>n \<le> length ids. pins s' = filter (\<lambda>p. ps_RequestId p \<notin> set (take n ids)) (pins s) \<and> (err = None \<longrightarrow> n = length ids)"
  using assms(2)
proof (induction ids arbitrary: s)
  case (Cons i ids)
  obtain e1 s1 where d: "cl_DeleteByID c i s = (e1, s1)" by force
  show ?case
  proof (cases e1)
    case None
    then have p: "pins s1 = filter (\<lambda>p. ps_RequestId p \<noteq> i) (pins s)" using assms(1) d by (auto simp: service_ok_def)
    from Cons.IH[of s1] Cons.prems d None obtain n where
      n: "n \<le> length ids" "pins s' = filter (\<lambda>p. ps_RequestId p \<notin> set (take n ids)) (pins s1)" "err = None \<longrightarrow> n = length ids" by auto
    have "pins s' = filter (\<lambda>p. ps_RequestId p \<notin> set (take (Suc n) (i # ids))) (pins s)"
      unfolding n(2) p filter_filter by (rule filter_cong) auto
    then show ?thesis using n by (intro exI[of _ "Suc n"]) simp
  next
    case (Some x)
    then have "pins s1 = pins s" using assms(1) d by (auto simp: service_ok_def)
    then show ?thesis using Cons.prems d Some by (intro exI[of _ 0]) auto
  qed
qed simp

text \<open>C31. \<^verbatim>\<open>ipfs pin remote rm\<close> removes what the query names and nothing else.  Without \<^verbatim>\<open>--force\<close> a query that matches more than
  one pin is refused and removes none.  When the command succeeds no pin with the id of a match is left and all others
  are; however it ends, every pin that is gone matched the query, when ids are not shared.\<close>

theorem remote_rm_exact:
  assumes "service_ok c pins matches" and "remote_rm c args force (Inr q) s = (err, s')" and "distinct (map ps_RequestId (pins s))"
  shows "(\<not> force \<longrightarrow> 1 < length (filter (matches q) (pins s)) \<longrightarrow> err \<noteq> None \<and> pins s' = pins s) \<and>
    (err = None \<longrightarrow> pins s' = filter (\<lambda>p. \<not> matches q p) (pins s)) \<and>
    set (pins s') \<subseteq> set (pins s) \<and> (\<forall>p \<in> set (pins s) - set (pins s'). matches q p)"
proof (cases "args = [] \<and> snd (cl_Ls c q s) = None")
  case False
  then have "s' = s" "err \<noteq> None" using assms(2) by (auto simp: remote_rm_def split: if_splits prod.splits option.splits)
  then show ?thesis by auto
next
  case True
  let ?l = "filter (matches q) (pins s)" and ?ids = "map ps_RequestId (filter (matches q) (pins s))"
  have ls: "cl_Ls c q s = (?l, None)" using True assms(1) by (auto simp: service_ok_def prod_eq_iff)
  have run: "(if 1 < length ?l \<and> \<not> force then (Some NeedForce, s) else delete_all c ?ids s) = (err, s')"
    using assms(2) True by (simp add: remote_rm_def ls Let_def)
  have same: "p = p'" if "p \<in> set (pins s)" "p' \<in> set (pins s)" "ps_RequestId p = ps_RequestId p'" for p p'
    using assms(3) that by (auto simp: distinct_map dest: inj_onD)
  have ids: "matches q p" if "p \<in> set (pins s)" "ps_RequestId p \<in> set ?ids" for p using that same by auto
  show ?thesis
  proof (cases "1 < length ?l \<and> \<not> force")
    case True
    then have "err = Some NeedForce" "s' = s" using run by simp_all
    then show ?thesis by simp
  next
    case go: False
    then have "delete_all c ?ids s = (err, s')" using run by (simp only: if_False)
    from delete_all_pins[OF assms(1) this] obtain n where
      n: "pins s' = filter (\<lambda>p. ps_RequestId p \<notin> set (take n ?ids)) (pins s)" "err = None \<longrightarrow> n = length ?ids" by blast
    have "pins s' = filter (\<lambda>p. \<not> matches q p) (pins s)" if "err = None"
    proof -
      have "take n ?ids = ?ids" using n(2) that by simp
      moreover have "ps_RequestId p \<notin> set ?ids \<longleftrightarrow> \<not> matches q p" if "p \<in> set (pins s)" for p
        using that ids[of p] by (auto simp del: set_map simp: image_iff[symmetric]) (auto simp: image_iff)
      ultimately show ?thesis unfolding n(1) by (intro filter_cong) simp_all
    qed
    moreover have "matches q p" if "p \<in> set (pins s) - set (pins s')" for p
    proof -
      from that have "p \<in> set (pins s)" "ps_RequestId p \<in> set (take n ?ids)" unfolding n(1) by simp_all
      then show ?thesis using ids in_set_takeD by metis
    qed
    moreover have "set (pins s') \<subseteq> set (pins s)" unfolding n(1) by simp
    ultimately show ?thesis using go by blast
  qed
qed

text \<open>Waiting for a pin: the loop ends with the first answer that decides.\<close>

definition pending :: "string \<Rightarrow> ('c, 'm) round \<Rightarrow> bool" where
  "pending i rd \<longleftrightarrow> (\<exists>ps. rd = (Inr ps, False) \<and> ps_RequestId ps = i \<and> ps_Status ps \<in> {StatusQueued, StatusPinning})"

lemma wait_skip: "\<forall>rd \<in> set pre. pending i rd \<Longrightarrow> wait_pinned i (pre @ rest) = wait_pinned i rest"
  by (induction pre) (auto simp: pending_def)

lemma wait_result: "wait_pinned i rounds = Some (Inr ps) \<Longrightarrow> ps_RequestId ps = i \<and> ps_Status ps = StatusPinned"
  by (induction i rounds rule: wait_pinned.induct) (auto split: sum.splits if_splits)


text \<open>The services are listed once each, in the order of their names, with their endpoints.\<close>

theorem services_listed:
  assumes "services_body ue NewClient s stat r w = (Inr ds, r', w')" and "distinct (map fst (RemoteServices (fr_config r)))"
  shows "sorted (map sd_Service ds) \<and> distinct (map sd_Service ds) \<and>
    (\<forall>n ep. (\<exists>d \<in> set ds. sd_Service d = n \<and> sd_ApiEndpoint d = ep) \<longleftrightarrow> (\<exists>svc. (n, svc) \<in> set (RemoteServices (fr_config r)) \<and> api_Endpoint svc = ep)) \<and>
    r' = r \<and> w' = w"
proof -
  let ?f = "\<lambda>(svcName, svcConfig). \<lparr>sd_Service = svcName, sd_ApiEndpoint = api_Endpoint svcConfig,
      sd_Stat = (if stat then Some (service_stat ue NewClient s r w svcName) else None)\<rparr>"
  have ds: "ds = sort_key sd_Service (map ?f (RemoteServices (fr_config r)))" "r' = r" "w' = w"
    using assms(1) by (auto simp: services_body_def FSRepo_Config_def split: if_splits)
  have "map sd_Service (map ?f xs) = map fst xs" for xs by (induction xs) auto
  moreover have "mset (map sd_Service ds) = mset (map sd_Service (map ?f (RemoteServices (fr_config r))))"
    unfolding ds(1) mset_map[symmetric] by (simp only: mset_map mset_sort)
  ultimately have "distinct (map sd_Service ds)" using assms(2) mset_eq_imp_distinct_iff by metis
  moreover have "sorted (map sd_Service ds)" by (simp add: ds(1))
  moreover have "set ds = ?f ` set (RemoteServices (fr_config r))" by (simp add: ds(1))
  ultimately show ?thesis using ds(2,3) by force
qed

section \<open>Concrete runs\<close>

text \<open>A service that keeps its pins in a list and answers queries by name.\<close>

definition demo_match :: "nat ls_query \<Rightarrow> (nat, string) PinStatus \<Rightarrow> bool" where
  "demo_match q p \<longleftrightarrow> q_name q = None \<or> q_name q = Some (ps_Name p)"

definition demo_pin :: "string \<Rightarrow> string \<Rightarrow> pin_status \<Rightarrow> (nat, string) PinStatus" where
  "demo_pin i n st = \<lparr>ps_RequestId = i, ps_Status = st, ps_Cid = 7, ps_Name = n, ps_Delegates = []\<rparr>"

definition demo_client :: "(nat, string, (nat, string) PinStatus list) pin_client" where
  "demo_client = \<lparr>cl_Add = (\<lambda>c n orig s. let p = demo_pin ''new'' (case n of None \<Rightarrow> [] | Some x \<Rightarrow> x) StatusQueued in (Inr p, p # s)),
     cl_Ls = (\<lambda>q s. (filter (demo_match q) s, None)), cl_DeleteByID = (\<lambda>i s. (None, filter (\<lambda>p. ps_RequestId p \<noteq> i) s)),
     cl_Count = (\<lambda>st s. Inr (int (length (filter (\<lambda>p. ps_Status p = st) s))))\<rparr>"

lemma demo_client_ok: "service_ok demo_client id demo_match"
  by (auto simp: service_ok_def demo_client_def)

definition demo_pins :: "(nat, string) PinStatus list" where
  "demo_pins = [demo_pin ''1'' ''a'' StatusPinned, demo_pin ''2'' ''b'' StatusPinned, demo_pin ''3'' ''a'' StatusPinned]"

definition by_name :: "string \<Rightarrow> nat ls_query" where
  "by_name n = \<lparr>q_name = Some n, q_cids = None, q_statuses = None\<rparr>"

theorem remote_rm_exact_witness:
  "fst (remote_rm demo_client [] False (Inr (by_name ''a'')) demo_pins) \<noteq> None \<and>
   snd (remote_rm demo_client [] True (Inr (by_name ''a'')) demo_pins) = [demo_pin ''2'' ''b'' StatusPinned]"
proof -
  have d: "distinct (map ps_RequestId (id demo_pins))" by (simp add: demo_pins_def demo_pin_def)
  obtain e1 s1 where r1: "remote_rm demo_client [] False (Inr (by_name ''a'')) demo_pins = (e1, s1)" by force
  obtain e2 s2 where r2: "remote_rm demo_client [] True (Inr (by_name ''a'')) demo_pins = (e2, s2)" by force
  have "e2 = None" using r2 by (auto simp: remote_rm_def demo_client_def demo_pins_def demo_pin_def demo_match_def by_name_def)
  then have "s2 = [demo_pin ''2'' ''b'' StatusPinned]"
    using remote_rm_exact[OF demo_client_ok r2 d] by (simp add: demo_pins_def demo_pin_def demo_match_def by_name_def)
  moreover have "e1 \<noteq> None"
    using remote_rm_exact[OF demo_client_ok r1 d] by (simp add: demo_pins_def demo_pin_def demo_match_def by_name_def)
  ultimately show ?thesis using r1 r2 by simp
qed

definition demo_rp_node :: "(nat, string, string) rp_node" where
  "demo_rp_node = \<lparr>rp_ResolvePath = (\<lambda>_. Inr 7), rp_Has = (\<lambda>_. Inr True), rp_HostAddrs = Some (Inr [''/ip4/1.2.3.4'']), AddrInfoFromP2pAddr = Inr\<rparr>"


end
