(* ===== verification/Spec2Isabelle.thy ===== *)
theory Spec2Isabelle
  imports Msgio Protoio GC RepoGC Peering P2P Loader Refs ConfigMap ConfigTypes Datastores Hostname FSRepo OnlyOne Bootstrapping Migrations BlockRm PinMFS BoxCipher BoxDelivery LazySeek GatewayProps GatewayOption PinProps KeyProps RoutingProps ConfigProps RemotePin
begin

text \<open>
  Verification of the debox node.

  The program is an IPFS node (the Go sources under \<^verbatim>\<open>src/\<close>) with a private-cloud service on top
  (\<^verbatim>\<open>src/core/box\<close>).  A daemon opens a repository (lock, version, configuration, datastores built from a
  JSON specification), migrates it when it is old, loads plugins, and then serves: blocks are pinned
  and garbage collected, named keys are kept, peers are bootstrapped and kept connected, TCP connections
  are forwarded over libp2p streams, routers are composed from the configuration, a gateway maps HTTP
  requests to content, the MFS root is pinned at remote services, and boxes exchange messages.  This
  development models the parts that carry logic of their own and proves what each promises.

  \<^bold>\<open>Theories and sources\<close>

  \<^item> \<^verbatim>\<open>Prelude\<close>: Go types and the string functions the sources use; reachable states of a
    transition system, with the locale \<open>transition_system\<close> for inductive invariants, which the step
    relations of \<^verbatim>\<open>Peering\<close>, \<^verbatim>\<open>P2P\<close>, \<^verbatim>\<open>Loader\<close> and \<^verbatim>\<open>Bootstrapping\<close> interpret.
  \<^item> \<^verbatim>\<open>Msgio\<close>: \<^verbatim>\<open>src/core/box/msgio/{num,msgio,varint,limit}.go\<close>.  Readers and writers are records of
    the bytes left and the bytes written; \<open>WriteMsg\<close>, \<open>ReadMsg\<close>, \<open>Read\<close>, \<open>NextMsgLen\<close> and the
    varint variants follow the methods statement by statement, failures and short reads included.
    The locale \<open>msg_channel\<close> (frame, write, read) gives the transfer of whole message sequences once;
    it is interpreted by the fixed 32-bit framing and, through the sublocale of \<open>uvarint_codec\<close>, by the
    varint framing for every varint decoder that keeps its contract.
  \<^item> \<^verbatim>\<open>Protoio\<close>: \<^verbatim>\<open>src/core/box/msgio/protoio\<close>.  Delimited protobuf messages on the same varint contract.
  \<^item> \<^verbatim>\<open>BoxCipher\<close>: \<^verbatim>\<open>src/core/box/service/aes.go\<close>.  Padding, CBC and CTR over a block cipher that is a
    parameter (\<open>cipher_ok\<close>), with the aliasing of the caller's slice and every panic.
  \<^item> \<^verbatim>\<open>BoxService\<close>, \<^verbatim>\<open>BoxDelivery\<close>: \<^verbatim>\<open>src/core/box/{service,ds,model}\<close>.  A world of boxes with their
    connections, user tables and pending goroutines; the websocket loop, the three handlers, the relay
    and the request to another box.  The locale \<open>box_handler\<close> says whom a handler may write to.
    Hypotheses: \<open>json_ok\<close>, \<open>jv_ok\<close>, \<open>errors_ok\<close> (the JSON library), \<open>db_ok\<close> (the database), \<open>peers_ok\<close>
    (peer addresses), \<open>healthy_net\<close> (the network carries a request).
  \<^item> \<^verbatim>\<open>GC\<close>: \<^verbatim>\<open>src/gc/gc.go\<close>.  \<open>Descendants\<close>, \<open>ColoredSet\<close>, \<open>sweep\<close> and \<open>GC\<close>, with cancellation possible
    at every select.  \<^verbatim>\<open>dag.Walk\<close> is the locale \<open>dag_walk\<close>, interpreted by a sequential walk.
  \<^item> \<^verbatim>\<open>RepoGC\<close>: \<^verbatim>\<open>src/core/corerepo/gc.go\<close>.  Storage limits on 64-bit words, conditional and periodic
    collection on top of \<open>GC\<close>.
  \<^item> \<^verbatim>\<open>BlockRm\<close>: \<^verbatim>\<open>src/blocks/blockstoreutil/remove.go\<close>.  Removal of blocks with the pin check (\<open>check_ok\<close>).
  \<^item> \<^verbatim>\<open>Pins\<close>, \<^verbatim>\<open>PinProps\<close>: \<^verbatim>\<open>src/core/coreapi/pin.go\<close> and \<^verbatim>\<open>src/core/commands/pin/pin.go\<close>.  The operations
    of the core API with their locks, and the commands; the graph walk is the locale \<open>skip_walk\<close>.
  \<^item> \<^verbatim>\<open>RemotePin\<close>: \<^verbatim>\<open>src/core/commands/pin/remotepin.go\<close>; \<^verbatim>\<open>PinMFS\<close>: \<^verbatim>\<open>src/cmd/ipfs/pinmfs.go\<close>.  Requests to
    remote pinning services; the service itself is an argument (\<open>service_ok\<close>).
  \<^item> \<^verbatim>\<open>Keys\<close>, \<^verbatim>\<open>KeyProps\<close>: \<^verbatim>\<open>src/core/coreapi/key.go\<close>, \<^verbatim>\<open>src/core/commands/keystore.go\<close>,
    \<^verbatim>\<open>src/config/identity.go\<close>.  The keystore is the locale \<open>keystore\<close>, the key formats \<open>key_codec_ok\<close>.
  \<^item> \<^verbatim>\<open>Peering\<close>: \<^verbatim>\<open>src/peering/peering.go\<close>.  The service, its handlers, timers and goroutines as a step
    relation \<open>pstep\<close>; the locale \<open>peer_book\<close> states what clients see of the table.
  \<^item> \<^verbatim>\<open>P2P\<close>: \<^verbatim>\<open>src/p2p\<close>.  Listener tables, stream registry, and network endpoints with their state, as the
    step relation \<open>p2pstep\<close>; the locale \<open>listener_table\<close> is the contract of \<^verbatim>\<open>Listeners.Close\<close>,
    interpreted by both tables.
  \<^item> \<^verbatim>\<open>Routing\<close>, \<^verbatim>\<open>RoutingProps\<close>: \<^verbatim>\<open>src/routing/{delegated,composer,error}.go\<close>, \<^verbatim>\<open>src/config/routing.go\<close>.
    Building the routers a method needs, with shared routers built once and loops refused.
  \<^item> \<^verbatim>\<open>Bootstrapping\<close>: \<^verbatim>\<open>src/core/bootstrap/bootstrap.go\<close>, \<^verbatim>\<open>src/core/commands/bootstrap.go\<close>,
    \<^verbatim>\<open>src/config/bootstrap_peers.go\<close>.  Rounds under every schedule of the dialling goroutines (\<open>host_ok\<close>), the
    periodic process as a step relation, and the commands.  The locales \<open>repo_command\<close> and
    \<open>checked_command\<close> say what a command that opens the repository, works on it and closes it keeps; the
    configuration commands interpret them too.
  \<^item> \<^verbatim>\<open>Loader\<close>: \<^verbatim>\<open>src/plugin/loader/loader.go\<close>.  The loader's states and every call of a plugin method,
    as the step relation \<open>lstep\<close>.
  \<^item> \<^verbatim>\<open>Refs\<close>: \<^verbatim>\<open>src/core/commands/refs.go\<close>.  The traversal of \<^verbatim>\<open>ipfs refs\<close> with its pruning.
  \<^item> \<^verbatim>\<open>ConfigMap\<close>: \<^verbatim>\<open>src/repo/common/common.go\<close>.  Reading, writing and merging nested configuration maps.
  \<^item> \<^verbatim>\<open>ConfigTypes\<close>: \<^verbatim>\<open>src/config/types.go\<close>.  The JSON helper types of the configuration.
  \<^item> \<^verbatim>\<open>ConfigStruct\<close>: the parts of the configuration structure the modelled code reads or writes.
  \<^item> \<^verbatim>\<open>ConfigCmd\<close>, \<^verbatim>\<open>ConfigProps\<close>: \<^verbatim>\<open>src/config/{profile,init}.go\<close>, \<^verbatim>\<open>src/core/commands/config.go\<close>.  Profiles, defaults
    and configuration commands on the model of the repository.  Hypotheses on \<^verbatim>\<open>encoding/json\<close>:
    \<open>unmarshal_ok\<close>, \<open>conf_key_ok\<close>, \<open>conf_services_ok\<close>, \<open>tables_ok\<close>, \<open>clone_ok\<close>, \<open>map_keys_ok\<close>; on the file
    system: \<open>writes_ok\<close>.
  \<^item> \<^verbatim>\<open>Datastores\<close>: \<^verbatim>\<open>src/repo/fsrepo/datastores.go\<close> and the datastore plugins.  Specifications, the
    configuration tree, \<open>DiskSpec\<close> and \<open>Create\<close>.
  \<^item> \<^verbatim>\<open>FSRepo\<close>: \<^verbatim>\<open>src/repo/fsrepo/fsrepo.go\<close>, \<^verbatim>\<open>src/config/serialize/serialize.go\<close>.  File contents, held locks and
    open stores are the state; every system call may fail.  Hypotheses: \<open>codec_ok\<close> (the configuration
    codec), \<open>lock_ok\<close> (the repository lock), \<open>commit_ok\<close> (atomic renames), \<open>healthy\<close> (no call fails).
  \<^item> \<^verbatim>\<open>OnlyOne\<close>: \<^verbatim>\<open>src/repo/onlyone.go\<close>.  Counted references to one open repository over the locale
    \<open>repo_backend\<close>, interpreted by \<^verbatim>\<open>FSRepo\<close>.
  \<^item> \<^verbatim>\<open>Migrations\<close>: \<^verbatim>\<open>src/repo/fsrepo/migrations\<close>.  Choice, download and execution of migrations.  Hypotheses:
    \<open>programs_ok\<close> (a migration program does one step), \<open>downloads_apart\<close> (downloads go to a directory of
    their own).
  \<^item> \<^verbatim>\<open>Hostname\<close>: \<^verbatim>\<open>src/core/corehttp/hostname.go\<close>.  The middleware of the gateway.
  \<^item> \<^verbatim>\<open>GoPath\<close>, \<^verbatim>\<open>Etag\<close>, \<^verbatim>\<open>LazySeek\<close>, \<^verbatim>\<open>Gateway\<close>, \<^verbatim>\<open>GatewayProps\<close>, \<^verbatim>\<open>GatewayOption\<close>:
    \<^verbatim>\<open>src/core/corehttp/gateway*.go\<close>, \<^verbatim>\<open>lazyseek.go\<close>, \<^verbatim>\<open>p2p_proxy.go\<close>, \<^verbatim>\<open>redirect.go\<close>.  The handler from the request
    to status, headers and body; Go's path functions; entity tags; the seeker, whose reader is the locale
    \<open>read_seeker\<close>, which the seeker implements again.  Hypotheses: \<open>ipns_ok\<close>, \<open>headers_ok\<close>, \<open>tags_ok\<close>,
    \<open>etags_ours\<close>.

  \<^bold>\<open>Correspondence\<close>

  A Go struct is a record with the source's field names (prefixed where two structs share one), an
  enumeration a datatype, a method a definition of the same name; where two types have a method of
  one name, the type's name comes first.  A result \<^verbatim>\<open>(T, error)\<close> is a sum or a pair with an optional
  error; a panic is a value of its own.  Go maps whose iteration order matters take the order as an
  argument, and the theorems hold for every order.  Code of other packages is a field of an environment
  record or an argument; what the code relies on is a named hypothesis or a locale, and the
  witnesses instantiate it with a concrete function.  Concurrency is interleaving of critical
  sections: one step per section that runs under one lock.

  \<^bold>\<open>What is shown\<close>

  \<^item> Collection: no live block is deleted, at whatever moment the run is cancelled or fails; the
    marked set is exact; what is not live is removed; the periodic collector keeps all of this.
  \<^item> Pins: the listing is exact, verification reports exactly the broken pins, pins change only under
    the lock that keeps the collector out; removal at a remote service removes exactly the selected pins.
  \<^item> Keys and configuration: the node's identity and the credentials of pinning services are kept by every
    command and not shown by those meant to conceal them; renaming and rotating lose no key; an exported key
    is imported again; a profile changes what it says.
  \<^item> Repository: an initialised repository opens; it opens the datastore it was created with; writing a key is
    read back and changes no other; a shared repository is closed by its last user; a migration
    reaches the target version or leaves an error.
  \<^item> Messages and boxes: what is written is read back, for any sequence of messages and any buffer
    contents; decryption undoes encryption; a request for a user of another box arrives there, and a
    confirmation is sent only after delivery.
  \<^item> Peering, forwarding, loader, bootstrap: invariants of all reachable states (protection matches the
    table, a stream is registered exactly while its ends are open, plugin calls come in order and are
    undone), refinement of a map, finality of the stopped state, bounds of the back-off and of the
    connections dialled.
  \<^item> Routing: parsing ends, and succeeds exactly when every router the methods need can be built.
  \<^item> Gateway: a request on a subdomain reaches only the content of that subdomain; mutable content is never
    marked immutable; a tag handed out is recognised; a site's redirect rules act only on an isolated
    origin; host names and DNS labels are read back as written and fit the DNS limit.
  \<^item> Refs: the output with \<^verbatim>\<open>--unique\<close> is exactly the set of reachable nodes within the depth limit, and
    the traversal ends.

  Other theorems, in the theories of their components, record where the code departs from what it means
  to do: a truncated varint message is reported as a clean end of stream, a peer can be forgotten by the
  peering service after a race, a removed pinning service stays in the configuration file, a forced rename
  that fails loses the other key, a block pinned under one CID is removed under another.

  \<^bold>\<open>Bounds\<close>

  The traversal of \<^verbatim>\<open>Refs\<close> takes fuel, one unit per level; \<open>WriteRefs_terminates\<close> proves that the depth
  limit, or the height of the DAG, is enough.  Verification of a pin takes the depth of the DAG below it, and
  parsing routers the number of configured routers plus one; the theorems about both prove that the
  result is then defined.  Stream ids of \<^verbatim>\<open>P2P\<close> are 64-bit words; the step relation covers executions in
  which fewer than \<open>2 ^ 64\<close> streams are opened.  The counters of \<^verbatim>\<open>OnlyOne\<close> are 32-bit words, as in the source.
  All other recursions are structural or have a termination proof.

  \<^bold>\<open>Not modelled\<close>

  The command-line front end other than \<^verbatim>\<open>refs\<close>, \<^verbatim>\<open>pin\<close>, \<^verbatim>\<open>pin remote\<close>, \<^verbatim>\<open>key\<close>, \<^verbatim>\<open>bootstrap\<close>, \<^verbatim>\<open>config\<close>, and the
  operations behind \<^verbatim>\<open>repo gc\<close> and \<^verbatim>\<open>block rm\<close>; FUSE mounts; the wiring of libp2p; the daemon; the file adder;
  the registration of handlers with the HTTP server; and profiling are adapters around third-party packages
  or plain input and output.  The file API of the box (\<^verbatim>\<open>core/box/service/file_api.go\<close>, \<^verbatim>\<open>core/box/ds/file.go\<close>)
  is commented out in the sources.
\<close>

end
